(* ===== verification/Octans_Prelude.thy ===== *)
theory Octans_Prelude
  imports Main "HOL-Library.Word"
begin

text \<open>
  Types and lemmas shared by every component of the development: the kernel's fixed-width
  integers, the result codes its functions return, and the facts about words, arrays (lists
  updated by index) and searches that the component proofs rely on.

  Conventions. \<open>uint8_t\<close>, \<open>uint16_t\<close>, \<open>uint32_t\<close>, \<open>uint64_t\<close> are words of that width, so that
  addition wraps as in C. A C \<open>int\<close> that is only returned or compared is an \<open>int\<close>; where it
  takes part in arithmetic that can overflow it is a word. A \<open>uint32_t\<close> field that the code
  only ever sets to 0 or 1 and only tests against 0 is a \<open>bool\<close>. A loop counter or an
  array index bounded by a constant is a \<open>nat\<close>. A static array is a list of its length. An
  out-parameter is a component of the result.
\<close>

unbundle bit_operations_syntax

type_synonym u8 = "8 word"
type_synonym u16 = "16 word"
type_synonym u32 = "32 word"
type_synonym u64 = "64 word"

named_theorems wf_intros \<open>introduction rules for well-formedness predicates\<close>
named_theorems word_bounds \<open>reading words as naturals below a bound\<close>

subsection \<open>Words read as natural numbers\<close>

lemma unat_inc [word_bounds]:
  fixes x :: "'a::len word"
  assumes "unat x < n" and "n < 2 ^ LENGTH('a)"
  shows "unat (x + 1) = Suc (unat x)"
proof -
  have "unat x + 1 < 2 ^ LENGTH('a)" using assms by linarith
  then show ?thesis by (simp add: unat_word_ariths unsigned_1)
qed

lemma unat_dec [word_bounds]:
  fixes x :: "'a::len word"
  assumes "x \<noteq> 0"
  shows "unat (x - 1) = unat x - 1"
  using assms by (simp add: unat_minus_one)

lemma unat_eq_0_iff [simp]: "unat x = 0 \<longleftrightarrow> x = 0"
  by (rule unat_eq_zero)

lemma unat_lt_u32: "unat (x :: u32) < 4294967296"
proof -
  have "unat x < 2 ^ LENGTH(32)" by (rule unsigned_less)
  then show ?thesis by simp
qed

lemma unat_of_nat_u32: "n < 4294967296 \<Longrightarrow> unat (of_nat n :: u32) = n"
  by (simp add: unat_of_nat)

lemma less_numeral_unat [word_bounds]:
  "(x :: u32) < numeral k \<longleftrightarrow> unat x < unat (numeral k :: u32)"
  by (rule word_less_nat_alt)

text \<open>Words read as signed numbers, for \<open>int32_t\<close>.\<close>

lemma uint_of_sint: "uint (w :: u32) = (if sint w < 0 then sint w + 2 ^ 32 else sint w)"
proof -
  have r: "- (2 ^ 31) \<le> sint w" "sint w < 2 ^ 31"
    using sint_ge [of w] sint_lt [of w] by simp_all
  have u: "uint w = sint w mod 2 ^ 32" by (simp add: uint_sint take_bit_eq_mod)
  show ?thesis
  proof (cases "sint w < 0")
    case True
    have "(sint w + 2 ^ 32) mod 2 ^ 32 = sint w + 2 ^ 32"
      using True r by (intro mod_pos_pos_trivial) simp_all
    with u True show ?thesis by simp
  qed (use u r in simp)
qed

lemma uint_minus_neg:
  assumes "sint (w :: u32) < 0"
  shows "uint (- w) = - sint w"
proof -
  have r: "- (2 ^ 31) \<le> sint w" using sint_ge [of w] by simp
  have "uint (- w) = (- uint w) mod 2 ^ 32" by (simp add: uint_word_ariths)
  also have "- uint w = - sint w - 2 ^ 32" using uint_of_sint [of w] assms by simp
  also have "(- sint w - 2 ^ 32) mod 2 ^ 32 = - sint w mod 2 ^ 32" by (metis minus_mod_self2)
  also have "\<dots> = - sint w" using assms r by (intro mod_pos_pos_trivial) simp_all
  finally show ?thesis .
qed

subsection \<open>Arrays\<close>

lemma map_nth_upt: "map (\<lambda>i. xs ! i) [0..<length xs] = xs"
  by (rule map_nth)

lemma nth_list_update_if:
  "j < length xs \<Longrightarrow> xs[i := v] ! j = (if i = j then v else xs ! j)"
  by (simp add: nth_list_update)

lemma nth_update: "xs[i := v] ! j = (if i = j \<and> j < length xs then v else xs ! j)"
  by (cases "i < length xs") (auto simp: nth_list_update list_update_beyond)

lemma count_list_update:
  "i < length xs \<Longrightarrow>
    length (filter P (xs[i := y])) + of_bool (P (xs ! i)) = length (filter P xs) + of_bool (P y)"
proof (induction xs arbitrary: i)
  case Nil
  then show ?case by simp
next
  case (Cons x xs)
  show ?case
  proof (cases i)
    case 0
    then show ?thesis by simp
  next
    case (Suc k)
    with Cons.IH [of k] Cons.prems show ?thesis by auto
  qed
qed

lemma count_pos: "x \<in> set xs \<Longrightarrow> P x \<Longrightarrow> 0 < length (filter P xs)"
  by (induction xs) auto

lemma count_zero: "length (filter P xs) = 0 \<Longrightarrow> x \<in> set xs \<Longrightarrow> \<not> P x"
  using count_pos by fastforce

lemma count_nth_pos: "i < length xs \<Longrightarrow> P (xs ! i) \<Longrightarrow> 0 < length (filter P xs)"
  by (rule count_pos [OF nth_mem])

lemma count_upt_nth: "length (filter (\<lambda>i. P (xs ! i)) [0..<length xs]) = length (filter P xs)"
proof -
  have "filter P xs = filter P (map (\<lambda>i. xs ! i) [0..<length xs])" by (simp add: map_nth)
  also have "\<dots> = map (\<lambda>i. xs ! i) (filter (\<lambda>i. P (xs ! i)) [0..<length xs])"
    by (simp add: filter_map o_def)
  finally show ?thesis by simp
qed

subsection \<open>Linear searches\<close>

lemma find_SomeD: "find P xs = Some x \<Longrightarrow> P x \<and> x \<in> set xs"
  by (induction xs) (auto split: if_splits)

lemma find_upt_Some:
  "find P [a..<b] = Some i \<longleftrightarrow> a \<le> i \<and> i < b \<and> P i \<and> (\<forall>j. a \<le> j \<and> j < i \<longrightarrow> \<not> P j)"
proof
  assume "find P [a..<b] = Some i"
  then obtain k where k: "k < b - a" "P (a + k)" "i = a + k" "\<forall>j<k. \<not> P (a + j)"
    by (auto simp: find_Some_iff)
  have "\<not> P j" if "a \<le> j" "j < i" for j
    using k(3,4) that by (metis add_less_cancel_left le_iff_add)
  with k show "a \<le> i \<and> i < b \<and> P i \<and> (\<forall>j. a \<le> j \<and> j < i \<longrightarrow> \<not> P j)"
    by auto
next
  assume "a \<le> i \<and> i < b \<and> P i \<and> (\<forall>j. a \<le> j \<and> j < i \<longrightarrow> \<not> P j)"
  then show "find P [a..<b] = Some i"
    by (auto simp: find_Some_iff intro!: exI [of _ "i - a"])
qed

lemma find_upt_None: "find P [a..<b] = None \<longleftrightarrow> (\<forall>j. a \<le> j \<and> j < b \<longrightarrow> \<not> P j)"
  by (auto simp: find_None_iff)

end
