(* ===== verification/Bitmaps.thy ===== *)
theory Bitmaps
  imports Octans_Prelude
begin

text \<open>
  The three bitmaps of the scheduler (\<open>src/sched_internal.h\<close>, \<open>src/sched.c\<close>,
  \<open>src/sched_task.c\<close>): the wait queues (one bit per task slot), the per-CPU run queues (one
  bit per task slot) and the stack pool (one bit per stack slot). Each is an array of two
  32-bit words. The contract they share, a finite set with insertion, removal and a membership
  test, is the locale \<open>bitmap\<close>; each of them interprets it.
\<close>

subsection \<open>The bit operations, as the code writes them\<close>

text \<open>\<open>waitq_set_bit\<close>, \<open>waitq_clear_bit\<close>, \<open>waitq_test_bit\<close>: \<open>idx >> 5\<close> selects the word,
  \<open>idx & 31\<close> the bit.\<close>

definition waitq_set_bit :: "u32 list \<Rightarrow> nat \<Rightarrow> u32 list" where
  "waitq_set_bit q idx =
     q[drop_bit 5 idx := (q ! drop_bit 5 idx) OR push_bit (idx AND 31) 1]"

definition waitq_clear_bit :: "u32 list \<Rightarrow> nat \<Rightarrow> u32 list" where
  "waitq_clear_bit q idx =
     q[drop_bit 5 idx := (q ! drop_bit 5 idx) AND NOT (push_bit (idx AND 31) 1)]"

definition waitq_test_bit :: "u32 list \<Rightarrow> nat \<Rightarrow> u32" where
  "waitq_test_bit q idx = drop_bit (idx AND 31) (q ! drop_bit 5 idx) AND 1"

definition sched_waitq_init_locked :: "u32 list" where
  "sched_waitq_init_locked = [0, 0]"

text \<open>The bodies of \<open>sched_runq_add\<close> and \<open>sched_runq_del\<close> on the two words of one queue, and
  the test of \<open>sched_runq_pick_local\<close>, which use \<open>idx / 32\<close> and \<open>idx % 32\<close>.\<close>

definition runq_bit_add :: "u32 list \<Rightarrow> nat \<Rightarrow> u32 list" where
  "runq_bit_add bits idx =
     bits[idx div 32 := (bits ! (idx div 32)) OR push_bit (idx mod 32) 1]"

definition runq_bit_del :: "u32 list \<Rightarrow> nat \<Rightarrow> u32 list" where
  "runq_bit_del bits idx =
     bits[idx div 32 := (bits ! (idx div 32)) AND NOT (push_bit (idx mod 32) 1)]"

definition runq_bit_tst :: "u32 list \<Rightarrow> nat \<Rightarrow> bool" where
  "runq_bit_tst bits idx \<longleftrightarrow> (bits ! (idx div 32)) AND push_bit (idx mod 32) 1 \<noteq> 0"

text \<open>\<open>sched_stack_bitmap_set\<close>, \<open>sched_stack_bitmap_clr\<close>, \<open>sched_stack_bitmap_tst\<close>.\<close>

definition sched_stack_bitmap_set :: "u32 list \<Rightarrow> nat \<Rightarrow> u32 list" where
  "sched_stack_bitmap_set bm slot =
     bm[drop_bit 5 slot := (bm ! drop_bit 5 slot) OR push_bit (slot AND 31) 1]"

definition sched_stack_bitmap_clr :: "u32 list \<Rightarrow> nat \<Rightarrow> u32 list" where
  "sched_stack_bitmap_clr bm slot =
     bm[drop_bit 5 slot := (bm ! drop_bit 5 slot) AND NOT (push_bit (slot AND 31) 1)]"

definition sched_stack_bitmap_tst :: "u32 list \<Rightarrow> nat \<Rightarrow> u32" where
  "sched_stack_bitmap_tst bm slot = drop_bit (slot AND 31) (bm ! drop_bit 5 slot) AND 1"

subsection \<open>Reading the words as a set of bits\<close>

definition bits2_wf :: "u32 list \<Rightarrow> bool" where
  "bits2_wf q \<longleftrightarrow> length q = 2"

definition bits2_mem :: "u32 list \<Rightarrow> nat \<Rightarrow> bool" where
  "bits2_mem q i \<longleftrightarrow> bit (q ! (i div 32)) (i mod 32)"

lemma idx_shift [simp]: "drop_bit 5 (i :: nat) = i div 32"
  by (simp add: drop_bit_eq_div)

lemma idx_mask [simp]: "(i :: nat) AND 31 = i mod 32"
proof -
  have "i AND mask 5 = take_bit 5 i" by (simp add: take_bit_eq_mask)
  then show ?thesis by (simp add: take_bit_eq_mod mask_eq_exp_minus_1)
qed

lemma bit_or_push: "n < 32 \<Longrightarrow> bit ((w :: u32) OR 2 ^ n) m \<longleftrightarrow> bit w m \<or> m = n"
  by (auto simp: bit_or_iff bit_exp_iff)

lemma bit_and_not_push: "bit ((w :: u32) AND NOT (2 ^ n)) m \<longleftrightarrow> bit w m \<and> m \<noteq> n"
  by (auto simp: bit_and_iff bit_not_iff bit_exp_iff dest: bit_imp_le_length)

lemma drop_bit_and_1: "drop_bit n (w :: u32) AND 1 \<noteq> 0 \<longleftrightarrow> bit w n"
  by (simp add: and_one_eq odd_iff_mod_2_eq_one [symmetric] bit_iff_odd_drop_bit
      mod2_eq_if)

lemma and_push_bit_1: "(w :: u32) AND 2 ^ n \<noteq> 0 \<longleftrightarrow> bit w n"
  by (simp add: and_exp_eq_0_iff_not_bit)

lemma div_mod_32_eq: "(i :: nat) div 32 = j div 32 \<and> i mod 32 = j mod 32 \<longleftrightarrow> i = j"
  by (metis div_mult_mod_eq)

lemma bits2_mem_upd_or:
  assumes "bits2_wf q" "i < 64" "j < 64"
  shows "bits2_mem (q[i div 32 := (q ! (i div 32)) OR 2 ^ (i mod 32)]) j
    \<longleftrightarrow> j = i \<or> bits2_mem q j"
  using assms div_mod_32_eq [of i j]
  by (auto simp: bits2_mem_def bits2_wf_def nth_list_update bit_or_push)

lemma bits2_mem_upd_and:
  assumes "bits2_wf q" "i < 64" "j < 64"
  shows "bits2_mem (q[i div 32 := (q ! (i div 32)) AND NOT (2 ^ (i mod 32))]) j
    \<longleftrightarrow> j \<noteq> i \<and> bits2_mem q j"
  using assms div_mod_32_eq [of i j]
  by (auto simp: bits2_mem_def bits2_wf_def nth_list_update bit_and_not_push)

subsection \<open>The contract: a finite set of indices\<close>

locale bitmap =
  fixes wf :: "'b \<Rightarrow> bool"
    and ins :: "'b \<Rightarrow> nat \<Rightarrow> 'b"
    and del :: "'b \<Rightarrow> nat \<Rightarrow> 'b"
    and mem :: "'b \<Rightarrow> nat \<Rightarrow> bool"
    and empt :: "'b"
    and cap :: nat
  assumes wf_empt: "wf empt"
    and mem_empt: "i < cap \<Longrightarrow> \<not> mem empt i"
    and wf_ins: "wf b \<Longrightarrow> wf (ins b i)"
    and wf_del: "wf b \<Longrightarrow> wf (del b i)"
    and mem_ins: "wf b \<Longrightarrow> i < cap \<Longrightarrow> j < cap \<Longrightarrow> mem (ins b i) j \<longleftrightarrow> j = i \<or> mem b j"
    and mem_del: "wf b \<Longrightarrow> i < cap \<Longrightarrow> j < cap \<Longrightarrow> mem (del b i) j \<longleftrightarrow> j \<noteq> i \<and> mem b j"
begin

lemma members_ins:
  "wf b \<Longrightarrow> i < cap \<Longrightarrow> {j. j < cap \<and> mem (ins b i) j} = insert i {j. j < cap \<and> mem b j}"
  by (auto simp: mem_ins)

lemma members_del:
  "wf b \<Longrightarrow> i < cap \<Longrightarrow> {j. j < cap \<and> mem (del b i) j} = {j. j < cap \<and> mem b j} - {i}"
  by (auto simp: mem_del)

lemma members_empt: "{j. j < cap \<and> mem empt j} = {}"
  by (auto simp: mem_empt)

lemma finite_members: "finite {j. j < cap \<and> mem b j}"
  by simp

lemma card_members_ins:
  "wf b \<Longrightarrow> i < cap \<Longrightarrow> \<not> mem b i \<Longrightarrow>
    card {j. j < cap \<and> mem (ins b i) j} = Suc (card {j. j < cap \<and> mem b j})"
  by (simp add: members_ins)

lemma del_ins_mem:
  "wf b \<Longrightarrow> i < cap \<Longrightarrow> j < cap \<Longrightarrow> \<not> mem b i \<Longrightarrow> mem (del (ins b i) i) j = mem b j"
  by (auto simp: mem_del mem_ins wf_ins)

text \<open>The search the code repeats: the first member at or after a start, or none.\<close>

lemma find_member_Some:
  "find (mem b) [a..<cap] = Some i \<Longrightarrow> i < cap \<and> a \<le> i \<and> mem b i"
  by (simp add: find_upt_Some)

end

lemmas bits2_op_defs =
  waitq_set_bit_def waitq_clear_bit_def runq_bit_add_def runq_bit_del_def
  sched_stack_bitmap_set_def sched_stack_bitmap_clr_def

lemma waitq_test_bit_mem: "waitq_test_bit q i \<noteq> 0 \<longleftrightarrow> bits2_mem q i"
  by (simp add: waitq_test_bit_def bits2_mem_def drop_bit_and_1)

lemma runq_bit_tst_mem: "runq_bit_tst q i \<longleftrightarrow> bits2_mem q i"
  by (simp add: runq_bit_tst_def bits2_mem_def and_push_bit_1)

lemma sched_stack_bitmap_tst_mem: "sched_stack_bitmap_tst q i \<noteq> 0 \<longleftrightarrow> bits2_mem q i"
  by (simp add: sched_stack_bitmap_tst_def bits2_mem_def drop_bit_and_1)

lemma bits2_wf_upd [simp]: "bits2_wf (q[i := v]) = bits2_wf q"
  by (simp add: bits2_wf_def)

lemma bits2_mem_zero: "i < 64 \<Longrightarrow> \<not> bits2_mem [0, 0] i"
  by (auto simp: bits2_mem_def less_Suc_eq nth_Cons split: nat.splits)

interpretation wq: bitmap bits2_wf waitq_set_bit waitq_clear_bit
  "\<lambda>q i. waitq_test_bit q i \<noteq> 0" sched_waitq_init_locked 64
  by unfold_locales
    (auto simp: bits2_op_defs waitq_test_bit_mem bits2_mem_upd_or bits2_mem_upd_and
      sched_waitq_init_locked_def bits2_mem_zero bits2_wf_def)

interpretation rq: bitmap bits2_wf runq_bit_add runq_bit_del runq_bit_tst "[0, 0]" 64
  by unfold_locales
    (auto simp: bits2_op_defs runq_bit_tst_mem bits2_mem_upd_or bits2_mem_upd_and
      bits2_mem_zero bits2_wf_def)

interpretation sp: bitmap bits2_wf sched_stack_bitmap_set sched_stack_bitmap_clr
  "\<lambda>q i. sched_stack_bitmap_tst q i \<noteq> 0" "[0, 0]" 64
  by unfold_locales
    (auto simp: bits2_op_defs sched_stack_bitmap_tst_mem bits2_mem_upd_or bits2_mem_upd_and
      bits2_mem_zero bits2_wf_def)

end
