(* ===== verification/Ring_Spec.thy ===== *)
theory Ring_Spec
  imports Octans_Prelude
begin

text \<open>
  The contract of a bounded first-in first-out buffer and the facts about circular arrays
  that its two providers share: the kernel pipe (theory \<open>Pipe\<close>, \<open>src/sched_fd.c\<close>) and the DMA
  submission ring (theory \<open>Dma_Ring\<close>, \<open>src/dma_ring.c\<close>). The locale \<open>bounded_fifo\<close> is the
  one-element contract; \<open>byte_channel\<close> extends it with the bulk read and write loops.
\<close>

subsection \<open>Circular arrays as lists\<close>

definition ring_list :: "'a list \<Rightarrow> nat \<Rightarrow> nat \<Rightarrow> 'a list" where
  "ring_list buf h n = map (\<lambda>i. buf ! ((h + i) mod length buf)) [0..<n]"

lemma length_ring_list [simp]: "length (ring_list buf h n) = n"
  by (simp add: ring_list_def)

lemma ring_list_empty [simp]: "ring_list buf h 0 = []"
  by (simp add: ring_list_def)

lemma ring_slots_distinct:
  assumes "i < n" "n < (c :: nat)"
  shows "(h + i) mod c \<noteq> (h + n) mod c"
proof
  assume "(h + i) mod c = (h + n) mod c"
  then have "c dvd (h + n) - (h + i)"
    using assms mod_eq_dvd_iff_nat [of "h + i" "h + n" c] by simp
  then show False using assms by (auto dest: dvd_imp_le)
qed

lemma ring_list_put:
  assumes "n < length buf"
  shows "ring_list (buf[(h + n) mod length buf := x]) h (Suc n) = ring_list buf h n @ [x]"
proof -
  have "(h + n) mod length buf < length buf"
    using assms by (intro mod_less_divisor) linarith
  moreover have "buf[(h + n) mod length buf := x] ! ((h + i) mod length buf)
      = buf ! ((h + i) mod length buf)" if "i < n" for i
    using ring_slots_distinct [OF that assms, of h] by simp
  ultimately show ?thesis by (simp add: ring_list_def)
qed

lemma ring_list_get:
  assumes "0 < n" "0 < length buf"
  shows "ring_list buf h n = buf ! (h mod length buf) # ring_list buf (Suc h mod length buf) (n - 1)"
proof -
  obtain m where n: "n = Suc m" using assms(1) by (cases n) auto
  have "[0..<Suc m] = 0 # map Suc [0..<m]"
    by (simp add: map_Suc_upt upt_conv_Cons)
  then show ?thesis
    by (simp add: n ring_list_def mod_add_left_eq)
qed

subsection \<open>One element at a time\<close>

locale bounded_fifo =
  fixes inv :: "'s \<Rightarrow> bool"
    and contents :: "'s \<Rightarrow> 'a list"
    and room :: "'s \<Rightarrow> nat"
    and put :: "'a \<Rightarrow> 's \<Rightarrow> 's"
    and front :: "'s \<Rightarrow> 'a"
    and get :: "'s \<Rightarrow> 's"
  assumes put_inv: "inv s \<Longrightarrow> 0 < room s \<Longrightarrow> inv (put x s)"
    and put_contents: "inv s \<Longrightarrow> 0 < room s \<Longrightarrow> contents (put x s) = contents s @ [x]"
    and put_room: "inv s \<Longrightarrow> 0 < room s \<Longrightarrow> room (put x s) = room s - 1"
    and get_inv: "inv s \<Longrightarrow> contents s \<noteq> [] \<Longrightarrow> inv (get s)"
    and get_contents: "inv s \<Longrightarrow> contents s \<noteq> [] \<Longrightarrow> contents (get s) = tl (contents s)"
    and get_room: "inv s \<Longrightarrow> contents s \<noteq> [] \<Longrightarrow> room (get s) = Suc (room s)"
    and front_contents: "inv s \<Longrightarrow> contents s \<noteq> [] \<Longrightarrow> front s = hd (contents s)"
begin

lemma put_not_empty: "inv s \<Longrightarrow> 0 < room s \<Longrightarrow> contents (put x s) \<noteq> []"
  by (simp add: put_contents)

lemma get_after_put_empty:
  "inv s \<Longrightarrow> 0 < room s \<Longrightarrow> contents s = [] \<Longrightarrow> contents (get (put x s)) = []"
  by (simp add: put_contents put_inv get_contents)

lemma front_after_put:
  "inv s \<Longrightarrow> 0 < room s \<Longrightarrow>
    front (put x s) = (if contents s = [] then x else front s)"
  by (simp add: front_contents put_contents put_inv)

lemma get_put_room:
  "inv s \<Longrightarrow> 0 < room s \<Longrightarrow> room (get (put x s)) = room s"
  by (simp add: get_room put_inv put_contents put_room)

end

subsection \<open>Bulk transfers\<close>

locale byte_channel = bounded_fifo +
  fixes wr :: "'a \<Rightarrow> 'b list \<Rightarrow> nat \<Rightarrow> 'a \<times> nat"
    and rd :: "nat \<Rightarrow> 'a \<Rightarrow> 'b list \<Rightarrow> 'a \<times> 'b list"
  assumes wr_Nil: "wr s [] k = (s, k)"
    and wr_Cons: "inv s \<Longrightarrow> wr s (x # xs) k = (if 0 < room s then wr (put x s) xs (Suc k) else (s, k))"
    and rd_0: "rd 0 s acc = (s, acc)"
    and rd_Suc: "inv s \<Longrightarrow> rd (Suc n) s acc =
          (if contents s = [] then (s, acc) else rd n (get s) (acc @ [front s]))"
begin

text \<open>A bulk write appends the longest prefix that fits, and reports its length.\<close>

lemma wr_spec:
  "inv s \<Longrightarrow> wr s xs k = (s', k') \<Longrightarrow>
    inv s' \<and> k' = k + min (length xs) (room s) \<and>
    contents s' = contents s @ take (room s) xs \<and>
    room s' = room s - min (length xs) (room s)"
proof (induction xs arbitrary: s k)
  case Nil
  then show ?case by (simp add: wr_Nil)
next
  case (Cons x xs)
  show ?case
  proof (cases "0 < room s")
    case False
    with Cons.prems show ?thesis by (simp add: wr_Cons)
  next
    case True
    with Cons.prems have *: "wr (put x s) xs (Suc k) = (s', k')" by (simp add: wr_Cons)
    from Cons.IH [OF put_inv [OF Cons.prems(1) True] *] Cons.prems(1) True
    show ?thesis by (cases "room s") (auto simp: put_contents put_room)
  qed
qed

text \<open>A bulk read takes the longest prefix of the contents that was asked for.\<close>

lemma rd_spec:
  "inv s \<Longrightarrow> rd n s acc = (s', acc') \<Longrightarrow>
    inv s' \<and> acc' = acc @ take n (contents s) \<and> contents s' = drop n (contents s)"
proof (induction n arbitrary: s acc)
  case 0
  then show ?case by (simp add: rd_0)
next
  case (Suc n)
  show ?case
  proof (cases "contents s = []")
    case True
    with Suc.prems show ?thesis by (simp add: rd_Suc)
  next
    case False
    with Suc.prems have *: "rd n (get s) (acc @ [front s]) = (s', acc')" by (simp add: rd_Suc)
    from False obtain c cs where c: "contents s = c # cs" by (cases "contents s") auto
    from Suc.IH [OF get_inv [OF Suc.prems(1) False] *] Suc.prems(1) False c
    show ?thesis by (simp add: get_contents front_contents)
  qed
qed

text \<open>What was written into an empty channel comes back, in order.\<close>

lemma wr_rd_roundtrip:
  assumes "inv s" "contents s = []" "length xs \<le> room s"
    and "wr s xs 0 = (s1, k)" and "rd (length xs) s1 [] = (s2, ys)"
  shows "ys = xs \<and> k = length xs \<and> contents s2 = []"
proof -
  from wr_spec [OF assms(1,4)] assms(2,3)
  have "inv s1" "contents s1 = xs" "k = length xs" by simp_all
  with rd_spec [OF \<open>inv s1\<close> assms(5)] show ?thesis by simp
qed

end

end
