(* ===== verification/Pipe.thy ===== *)
theory Pipe
  imports Ring_Spec
begin

text \<open>
  The pipe table of \<open>src/sched_fd.c\<close> (lines 4-88, and the transfer loops of
  \<open>sched_fd_pipe_read\<close> and \<open>sched_fd_pipe_write\<close>): sixteen circular buffers of 256 bytes, each
  with a count of the descriptors open on its read end and on its write end. A pipe is
  allocated by \<open>sched_fd_pipe\<close> and freed when both counts reach zero. The lock \<open>g_pipe_lock\<close>
  makes each operation atomic, so an operation is one function on the table.
\<close>

subsection \<open>State\<close>

abbreviation (input) "SCHED_PIPE_MAX \<equiv> (16 :: nat)"
abbreviation (input) "SCHED_PIPE_CAP \<equiv> (256 :: u32)"

record sched_pipe =
  p_used :: bool
  p_read_refs :: u32
  p_write_refs :: u32
  p_head :: u32
  p_len :: u32
  p_buf :: "u8 list"

record pipe_table =
  g_pipe_inited :: bool
  g_pipes :: "sched_pipe list"

text \<open>The descriptor types, \<open>SCHED_FD_TYPE_*\<close>, with their codes.\<close>

datatype fd_type =
    TYPE_NONE | TYPE_STDIN | TYPE_STDOUT | TYPE_STDERR | TYPE_DEV_NULL | TYPE_DEV_ZERO
  | TYPE_DEV_TTY | TYPE_SOCKET | TYPE_REGULAR | TYPE_PIPE_READ | TYPE_PIPE_WRITE

fun fd_type_code :: "fd_type \<Rightarrow> u32" where
  "fd_type_code TYPE_NONE = 0"
| "fd_type_code TYPE_STDIN = 1"
| "fd_type_code TYPE_STDOUT = 2"
| "fd_type_code TYPE_STDERR = 3"
| "fd_type_code TYPE_DEV_NULL = 4"
| "fd_type_code TYPE_DEV_ZERO = 5"
| "fd_type_code TYPE_DEV_TTY = 6"
| "fd_type_code TYPE_SOCKET = 7"
| "fd_type_code TYPE_REGULAR = 8"
| "fd_type_code TYPE_PIPE_READ = 9"
| "fd_type_code TYPE_PIPE_WRITE = 10"

subsection \<open>Operations on the table\<close>

definition sched_pipe_init_once :: "pipe_table \<Rightarrow> pipe_table" where
  "sched_pipe_init_once t =
     (if g_pipe_inited t then t
      else t\<lparr>g_pipes := map (\<lambda>p. p\<lparr>p_used := False, p_read_refs := 0, p_write_refs := 0,
                                   p_head := 0, p_len := 0\<rparr>) (g_pipes t),
             g_pipe_inited := True\<rparr>)"

definition upd_pipe :: "pipe_table \<Rightarrow> nat \<Rightarrow> (sched_pipe \<Rightarrow> sched_pipe) \<Rightarrow> pipe_table" where
  "upd_pipe t i f = t\<lparr>g_pipes := (g_pipes t)[i := f (g_pipes t ! i)]\<rparr>"

definition sched_pipe_alloc_locked :: "pipe_table \<Rightarrow> pipe_table \<times> nat option" where
  "sched_pipe_alloc_locked t =
     (case find (\<lambda>i. \<not> p_used (g_pipes t ! i)) [0..<SCHED_PIPE_MAX] of
        Some i \<Rightarrow> (upd_pipe t i (\<lambda>p. p\<lparr>p_used := True, p_read_refs := 0, p_write_refs := 0,
                                       p_head := 0, p_len := 0\<rparr>), Some i)
      | None \<Rightarrow> (t, None))"

definition sched_pipe_endpoint_inc :: "fd_type \<Rightarrow> u32 \<Rightarrow> pipe_table \<Rightarrow> pipe_table" where
  "sched_pipe_endpoint_inc type pipe_id t =
     (if type \<noteq> TYPE_PIPE_READ \<and> type \<noteq> TYPE_PIPE_WRITE then t
      else let t = sched_pipe_init_once t; i = unat pipe_id in
        if i < SCHED_PIPE_MAX \<and> p_used (g_pipes t ! i)
        then (if type = TYPE_PIPE_READ
              then upd_pipe t i (\<lambda>p. p\<lparr>p_read_refs := p_read_refs p + 1\<rparr>)
              else upd_pipe t i (\<lambda>p. p\<lparr>p_write_refs := p_write_refs p + 1\<rparr>))
        else t)"

text \<open>The body of \<open>sched_pipe_endpoint_dec\<close> on the pipe itself: one end loses a descriptor,
  and the pipe is freed once both ends have none.\<close>

definition pipe_release_if_unused :: "sched_pipe \<Rightarrow> sched_pipe" where
  "pipe_release_if_unused p =
     (if p_read_refs p = 0 \<and> p_write_refs p = 0
      then p\<lparr>p_used := False, p_head := 0, p_len := 0\<rparr> else p)"

definition pipe_drop_ref :: "fd_type \<Rightarrow> sched_pipe \<Rightarrow> sched_pipe" where
  "pipe_drop_ref type p =
     (if type = TYPE_PIPE_READ
      then (if p_read_refs p \<noteq> 0 then p\<lparr>p_read_refs := p_read_refs p - 1\<rparr> else p)
      else if p_write_refs p \<noteq> 0 then p\<lparr>p_write_refs := p_write_refs p - 1\<rparr> else p)"

definition sched_pipe_endpoint_dec :: "fd_type \<Rightarrow> u32 \<Rightarrow> pipe_table \<Rightarrow> pipe_table" where
  "sched_pipe_endpoint_dec type pipe_id t =
     (if type \<noteq> TYPE_PIPE_READ \<and> type \<noteq> TYPE_PIPE_WRITE then t
      else let t = sched_pipe_init_once t; i = unat pipe_id in
        if i < SCHED_PIPE_MAX \<and> p_used (g_pipes t ! i)
        then upd_pipe t i (\<lambda>p. pipe_release_if_unused (pipe_drop_ref type p))
        else t)"

subsection \<open>The transfer loops\<close>

text \<open>One iteration of the write loop stores a byte at the tail, one iteration of the read
  loop takes the byte at the head. The loops run while bytes are left to transfer and the
  buffer has room, or bytes.\<close>

definition pipe_put :: "u8 \<Rightarrow> sched_pipe \<Rightarrow> sched_pipe" where
  "pipe_put b p =
     (let tail = (p_head p + p_len p) mod SCHED_PIPE_CAP
      in p\<lparr>p_buf := (p_buf p)[unat tail := b], p_len := p_len p + 1\<rparr>)"

definition pipe_front :: "sched_pipe \<Rightarrow> u8" where
  "pipe_front p = p_buf p ! unat (p_head p)"

definition pipe_get :: "sched_pipe \<Rightarrow> sched_pipe" where
  "pipe_get p = p\<lparr>p_head := (p_head p + 1) mod SCHED_PIPE_CAP, p_len := p_len p - 1\<rparr>"

fun pipe_write_loop :: "sched_pipe \<Rightarrow> u8 list \<Rightarrow> nat \<Rightarrow> sched_pipe \<times> nat" where
  "pipe_write_loop p [] written = (p, written)"
| "pipe_write_loop p (b # src) written =
     (if p_len p < SCHED_PIPE_CAP then pipe_write_loop (pipe_put b p) src (Suc written)
      else (p, written))"

fun pipe_read_loop :: "nat \<Rightarrow> sched_pipe \<Rightarrow> u8 list \<Rightarrow> sched_pipe \<times> u8 list" where
  "pipe_read_loop 0 p dst = (p, dst)"
| "pipe_read_loop (Suc n) p dst =
     (if p_len p \<noteq> 0 then pipe_read_loop n (pipe_get p) (dst @ [pipe_front p]) else (p, dst))"

subsection \<open>The pipe is a bounded FIFO of bytes\<close>

definition pipe_wf :: "sched_pipe \<Rightarrow> bool" where
  "pipe_wf p \<longleftrightarrow> length (p_buf p) = 256 \<and> unat (p_head p) < 256 \<and> unat (p_len p) \<le> 256"

definition pipe_contents :: "sched_pipe \<Rightarrow> u8 list" where
  "pipe_contents p = ring_list (p_buf p) (unat (p_head p)) (unat (p_len p))"

definition pipe_room :: "sched_pipe \<Rightarrow> nat" where
  "pipe_room p = 256 - unat (p_len p)"

lemma pipe_contents_Nil: "pipe_contents p = [] \<longleftrightarrow> p_len p = 0"
proof -
  have "pipe_contents p = [] \<longleftrightarrow> length (pipe_contents p) = 0" by simp
  also have "\<dots> \<longleftrightarrow> p_len p = 0" by (simp only: pipe_contents_def length_ring_list unat_eq_0_iff)
  finally show ?thesis .
qed

lemma pipe_not_full_iff: "pipe_wf p \<Longrightarrow> p_len p < SCHED_PIPE_CAP \<longleftrightarrow> 0 < pipe_room p"
  by (auto simp: pipe_room_def word_less_nat_alt)

lemma unat_ring_add:
  "unat (h :: u32) < 256 \<Longrightarrow> unat (n :: u32) \<le> 256 \<Longrightarrow>
    unat ((h + n) mod SCHED_PIPE_CAP) = (unat h + unat n) mod 256"
  by (simp add: unat_mod_distrib unat_word_ariths)

lemma pipe_put_fields:
  assumes "pipe_wf p" "0 < pipe_room p"
  shows "p_head (pipe_put b p) = p_head p"
    and "unat (p_len (pipe_put b p)) = Suc (unat (p_len p))"
    and "p_buf (pipe_put b p) = (p_buf p)[(unat (p_head p) + unat (p_len p)) mod 256 := b]"
  using assms
  by (auto simp: pipe_put_def pipe_wf_def pipe_room_def unat_ring_add
      intro!: unat_inc [where n = 256])

lemma pipe_get_fields:
  assumes "pipe_wf p" "p_len p \<noteq> 0"
  shows "unat (p_head (pipe_get p)) = Suc (unat (p_head p)) mod 256"
    and "unat (p_len (pipe_get p)) = unat (p_len p) - 1"
    and "p_buf (pipe_get p) = p_buf p"
proof -
  have "unat ((p_head p + 1) mod 256) = (unat (p_head p) + unat (1 :: u32)) mod 256"
    using assms(1) by (intro unat_ring_add) (auto simp: pipe_wf_def)
  then show "unat (p_head (pipe_get p)) = Suc (unat (p_head p)) mod 256"
    by (simp add: pipe_get_def)
qed (use assms in \<open>simp_all add: pipe_get_def unat_dec\<close>)

interpretation pf: byte_channel pipe_wf pipe_contents pipe_room pipe_put pipe_front pipe_get
  pipe_write_loop pipe_read_loop
proof unfold_locales
  fix p :: sched_pipe and b
  assume wf: "pipe_wf p" and room: "0 < pipe_room p"
  note f = pipe_put_fields [OF wf room]
  show "pipe_wf (pipe_put b p)"
    using wf room f by (simp add: pipe_wf_def pipe_room_def)
  show "pipe_contents (pipe_put b p) = pipe_contents p @ [b]"
    using wf room f ring_list_put [of "unat (p_len p)" "p_buf p" "unat (p_head p)" b]
    by (simp add: pipe_contents_def pipe_wf_def pipe_room_def)
  show "pipe_room (pipe_put b p) = pipe_room p - 1"
    using f by (simp add: pipe_room_def)
next
  fix p :: sched_pipe
  assume wf: "pipe_wf p" and ne: "pipe_contents p \<noteq> []"
  then have len: "p_len p \<noteq> 0" by (simp add: pipe_contents_Nil)
  then have pos: "0 < unat (p_len p)" by (simp add: unat_gt_0)
  note f = pipe_get_fields [OF wf len]
  show "pipe_wf (pipe_get p)"
    using wf f by (auto simp: pipe_wf_def)
  have split: "pipe_contents p = pipe_front p # pipe_contents (pipe_get p)"
    using wf f pos ring_list_get [of "unat (p_len p)" "p_buf p" "unat (p_head p)"]
    by (simp add: pipe_contents_def pipe_wf_def pipe_front_def)
  then show "pipe_contents (pipe_get p) = tl (pipe_contents p)"
    and "pipe_front p = hd (pipe_contents p)" by simp_all
  show "pipe_room (pipe_get p) = Suc (pipe_room p)"
    using f pos wf by (auto simp: pipe_room_def pipe_wf_def)
qed (simp_all add: pipe_not_full_iff pipe_contents_Nil)

end
