(* ===== verification/Fd_Table.thy ===== *)
theory Fd_Table
  imports Pipe
begin

text \<open>
  The per-task descriptor table of \<open>src/sched_fd.c\<close>. A task slot holds 32 descriptors
  (\<open>fdtab\<close>) that refer by index to 32 open files (\<open>ofiles\<close>), which count the descriptors that
  refer to them. The descriptors of all tasks that refer to a pipe end are counted in the pipe
  table. The operations act on the table of the current task, if there is one
  (\<open>sched_current_slot_fd_locked\<close>), under its \<open>fd_lock\<close>; they are functions on the pair of that
  table and the pipe table (\<open>fd_env\<close>).
\<close>

subsection \<open>State\<close>

abbreviation (input) "SCHED_MAX_FDS \<equiv> (32 :: nat)"
abbreviation (input) "SCHED_FD_OFILE_INVALID \<equiv> (NOT 0 :: u32)"

abbreviation (input) "SCHED_FD_OK \<equiv> (0 :: int)"
abbreviation (input) "SCHED_FD_EBADF \<equiv> (-1 :: int)"
abbreviation (input) "SCHED_FD_EMFILE \<equiv> (-2 :: int)"
abbreviation (input) "SCHED_FD_EINVAL \<equiv> (-3 :: int)"
abbreviation (input) "SCHED_FD_ESPIPE \<equiv> (-4 :: int)"
abbreviation (input) "SCHED_FD_EAGAIN \<equiv> (-5 :: int)"
abbreviation (input) "SCHED_FD_EPIPE \<equiv> (-6 :: int)"

abbreviation (input) "SCHED_FD_O_ACCMODE \<equiv> (0x3 :: u32)"
abbreviation (input) "SCHED_FD_O_RDONLY \<equiv> (0x0 :: u32)"
abbreviation (input) "SCHED_FD_O_WRONLY \<equiv> (0x1 :: u32)"
abbreviation (input) "SCHED_FD_O_RDWR \<equiv> (0x2 :: u32)"
abbreviation (input) "SCHED_FD_O_NONBLOCK \<equiv> (0x800 :: u32)"
abbreviation (input) "SCHED_FD_CLOEXEC \<equiv> (0x1 :: u32)"

record ofile =
  of_used :: bool
  of_refs :: u32
  of_type :: fd_type
  of_status_flags :: u32
  of_fs_backend :: u32
  of_file_id :: u32
  of_file_size :: u32
  of_file_offset :: u32
  of_file_is_dir :: bool
  of_sock_ptr :: u32

record fdent =
  fe_used :: bool
  fe_ofile_idx :: u32
  fe_fd_flags :: u32

record fd_slot =
  ofiles :: "ofile list"
  fdtab :: "fdent list"

record fd_env =
  fv_slot :: "fd_slot option"
  fv_pipes :: pipe_table

definition upd_ofile :: "fd_slot \<Rightarrow> nat \<Rightarrow> (ofile \<Rightarrow> ofile) \<Rightarrow> fd_slot" where
  "upd_ofile s j f = s\<lparr>ofiles := (ofiles s)[j := f (ofiles s ! j)]\<rparr>"

definition upd_fdent :: "fd_slot \<Rightarrow> nat \<Rightarrow> (fdent \<Rightarrow> fdent) \<Rightarrow> fd_slot" where
  "upd_fdent s i f = s\<lparr>fdtab := (fdtab s)[i := f (fdtab s ! i)]\<rparr>"

subsection \<open>Initialising and copying a table\<close>

text \<open>\<open>sched_ofile_reset\<close> leaves the field \<open>sock_ptr\<close> alone.\<close>

definition sched_ofile_reset :: "ofile \<Rightarrow> ofile" where
  "sched_ofile_reset f = f\<lparr>of_used := False, of_refs := 0, of_type := TYPE_NONE,
     of_status_flags := 0, of_fs_backend := 0, of_file_id := 0, of_file_size := 0,
     of_file_offset := 0, of_file_is_dir := False\<rparr>"

definition sched_fdent_reset :: "fdent \<Rightarrow> fdent" where
  "sched_fdent_reset e = e\<lparr>fe_used := False, fe_ofile_idx := SCHED_FD_OFILE_INVALID, fe_fd_flags := 0\<rparr>"

definition sched_fd_table_clear :: "fd_slot \<Rightarrow> fd_slot" where
  "sched_fd_table_clear s =
     s\<lparr>ofiles := map sched_ofile_reset (ofiles s), fdtab := map sched_fdent_reset (fdtab s)\<rparr>"

definition open_stdio :: "nat \<Rightarrow> fd_type \<Rightarrow> u32 \<Rightarrow> fd_slot \<Rightarrow> fd_slot" where
  "open_stdio n type flags s =
     upd_fdent (upd_ofile s n (\<lambda>f. f\<lparr>of_used := True, of_refs := 1, of_type := type,
                                      of_status_flags := flags\<rparr>))
               n (\<lambda>e. e\<lparr>fe_used := True, fe_ofile_idx := of_nat n\<rparr>)"

definition sched_fd_table_init_stdio :: "fd_slot \<Rightarrow> pipe_table \<Rightarrow> fd_slot \<times> pipe_table" where
  "sched_fd_table_init_stdio s t =
     (open_stdio 2 TYPE_STDERR SCHED_FD_O_WRONLY
       (open_stdio 1 TYPE_STDOUT SCHED_FD_O_WRONLY
         (open_stdio 0 TYPE_STDIN SCHED_FD_O_RDONLY (sched_fd_table_clear s))),
      sched_pipe_init_once t)"

text \<open>\<open>sched_fd_table_clone\<close> copies every field of an open file but \<open>sock_ptr\<close>, with the
  reference count restarted from zero, then counts the copied descriptors one by one.\<close>

definition clone_ofile :: "ofile \<Rightarrow> ofile \<Rightarrow> ofile" where
  "clone_ofile d f = f\<lparr>of_refs := 0, of_sock_ptr := of_sock_ptr d\<rparr>"

fun clone_count_loop :: "nat list \<Rightarrow> fd_slot \<Rightarrow> pipe_table \<Rightarrow> fd_slot \<times> pipe_table \<times> int" where
  "clone_count_loop [] s t = (s, t, SCHED_FD_OK)"
| "clone_count_loop (i # is) s t =
     (let e = fdtab s ! i; of_idx = unat (fe_ofile_idx e) in
      if \<not> fe_used e then clone_count_loop is s t
      else if of_idx \<ge> SCHED_MAX_FDS \<or> \<not> of_used (ofiles s ! of_idx) then (s, t, SCHED_FD_EBADF)
      else let s = upd_ofile s of_idx (\<lambda>f. f\<lparr>of_refs := of_refs f + 1\<rparr>) in
        clone_count_loop is s
          (sched_pipe_endpoint_inc (of_type (ofiles s ! of_idx)) (of_fs_backend (ofiles s ! of_idx)) t))"

definition sched_fd_table_clone :: "fd_slot \<Rightarrow> fd_slot \<Rightarrow> pipe_table \<Rightarrow> fd_slot \<times> pipe_table \<times> int" where
  "sched_fd_table_clone dst src t =
     (let dst = sched_fd_table_clear dst;
          dst = dst\<lparr>ofiles := map2 clone_ofile (ofiles dst) (ofiles src), fdtab := fdtab src\<rparr>
      in clone_count_loop [0..<SCHED_MAX_FDS] dst t)"

text \<open>The tables as the zero-initialised statics and \<open>sched_clear_task\<close> leave them, and the
  environment \<open>sched_init\<close> builds for the first task.\<close>

definition cleared_fd_slot :: fd_slot where
  "cleared_fd_slot =
     \<lparr>ofiles = replicate SCHED_MAX_FDS
        \<lparr>of_used = False, of_refs = 0, of_type = TYPE_NONE, of_status_flags = 0,
         of_fs_backend = 0, of_file_id = 0, of_file_size = 0, of_file_offset = 0,
         of_file_is_dir = False, of_sock_ptr = 0\<rparr>,
      fdtab = replicate SCHED_MAX_FDS \<lparr>fe_used = False, fe_ofile_idx = 0, fe_fd_flags = 0\<rparr>\<rparr>"

definition cleared_pipes :: pipe_table where
  "cleared_pipes = \<lparr>g_pipe_inited = False, g_pipes = replicate SCHED_PIPE_MAX
     \<lparr>p_used = False, p_read_refs = 0, p_write_refs = 0, p_head = 0, p_len = 0,
      p_buf = replicate 256 0\<rparr>\<rparr>"

definition boot_fd_env :: fd_env where
  "boot_fd_env = (case sched_fd_table_init_stdio cleared_fd_slot cleared_pipes of
     (s, t) \<Rightarrow> \<lparr>fv_slot = Some s, fv_pipes = t\<rparr>)"

subsection \<open>Lookup and allocation\<close>

definition sched_slot_ofile_by_fd :: "fd_slot \<Rightarrow> int \<Rightarrow> nat option" where
  "sched_slot_ofile_by_fd s fd =
     (if fd < 0 \<or> fd \<ge> int SCHED_MAX_FDS then None
      else let e = fdtab s ! nat fd; of_idx = unat (fe_ofile_idx e) in
        if \<not> fe_used e then None
        else if of_idx \<ge> SCHED_MAX_FDS then None
        else if \<not> of_used (ofiles s ! of_idx) \<or> of_refs (ofiles s ! of_idx) = 0 then None
        else Some of_idx)"

definition sched_slot_find_free_fd :: "fd_slot \<Rightarrow> nat \<Rightarrow> nat option" where
  "sched_slot_find_free_fd s start =
     (if start \<ge> SCHED_MAX_FDS then None
      else find (\<lambda>i. \<not> fe_used (fdtab s ! i)) [start..<SCHED_MAX_FDS])"

definition sched_slot_find_free_ofile :: "fd_slot \<Rightarrow> nat option" where
  "sched_slot_find_free_ofile s = find (\<lambda>j. \<not> of_used (ofiles s ! j)) [0..<SCHED_MAX_FDS]"

definition sched_fd_is_readable_type :: "fd_type \<Rightarrow> bool" where
  "sched_fd_is_readable_type type \<longleftrightarrow>
     type \<in> {TYPE_STDIN, TYPE_DEV_ZERO, TYPE_DEV_NULL, TYPE_DEV_TTY, TYPE_REGULAR,
             TYPE_PIPE_READ, TYPE_SOCKET}"

definition sched_fd_is_writable_type :: "fd_type \<Rightarrow> bool" where
  "sched_fd_is_writable_type type \<longleftrightarrow>
     type \<in> {TYPE_STDOUT, TYPE_STDERR, TYPE_DEV_NULL, TYPE_DEV_ZERO, TYPE_DEV_TTY,
             TYPE_REGULAR, TYPE_PIPE_WRITE, TYPE_SOCKET}"

subsection \<open>Closing\<close>

definition drop_ofile_ref :: "ofile \<Rightarrow> ofile" where
  "drop_ofile_ref f =
     (let f = (if of_refs f \<noteq> 0 then f\<lparr>of_refs := of_refs f - 1\<rparr> else f)
      in if of_refs f = 0 then sched_ofile_reset f else f)"

definition sched_slot_close_fd :: "fd_slot \<Rightarrow> pipe_table \<Rightarrow> int \<Rightarrow> fd_slot \<times> pipe_table \<times> int" where
  "sched_slot_close_fd s t fd =
     (case sched_slot_ofile_by_fd s fd of
        None \<Rightarrow> (s, t, SCHED_FD_EBADF)
      | Some j \<Rightarrow>
          (upd_ofile (upd_fdent s (nat fd) sched_fdent_reset) j drop_ofile_ref,
           sched_pipe_endpoint_dec (of_type (ofiles s ! j)) (of_fs_backend (ofiles s ! j)) t,
           SCHED_FD_OK))"

fun close_fds_loop :: "nat list \<Rightarrow> fd_slot \<Rightarrow> pipe_table \<Rightarrow> fd_slot \<times> pipe_table" where
  "close_fds_loop [] s t = (s, t)"
| "close_fds_loop (i # is) s t =
     (if fe_used (fdtab s ! i)
      then (case sched_slot_close_fd s t (int i) of (s', t', _) \<Rightarrow> close_fds_loop is s' t')
      else close_fds_loop is s t)"

definition sched_slot_close_all_fds :: "fd_slot \<Rightarrow> pipe_table \<Rightarrow> fd_slot \<times> pipe_table" where
  "sched_slot_close_all_fds s t = close_fds_loop [0..<SCHED_MAX_FDS] s t"

fun close_cloexec_loop :: "nat list \<Rightarrow> fd_slot \<Rightarrow> pipe_table \<Rightarrow> int \<Rightarrow> fd_slot \<times> pipe_table \<times> int" where
  "close_cloexec_loop [] s t closed = (s, t, closed)"
| "close_cloexec_loop (i # is) s t closed =
     (if \<not> fe_used (fdtab s ! i) then close_cloexec_loop is s t closed
      else if fe_fd_flags (fdtab s ! i) AND SCHED_FD_CLOEXEC = 0
      then close_cloexec_loop is s t closed
      else (case sched_slot_close_fd s t (int i) of (s', t', rc) \<Rightarrow>
              close_cloexec_loop is s' t' (if rc = SCHED_FD_OK then closed + 1 else closed)))"

end
