(* ===== verification/Fd_Ops.thy ===== *)
theory Fd_Ops
  imports Fd_Table
begin

text \<open>
  The descriptor operations of \<open>src/sched_fd.c\<close> that system calls use: duplication, flags,
  opening, pipes, seeking and offsets. Each acts on the current task's table; without a
  current task it fails.
\<close>

definition with_slot ::
  "fd_env \<Rightarrow> 'r \<Rightarrow> (fd_slot \<Rightarrow> pipe_table \<Rightarrow> fd_slot \<times> pipe_table \<times> 'r) \<Rightarrow> fd_env \<times> 'r" where
  "with_slot e no_task f =
     (case fv_slot e of
        None \<Rightarrow> (e, no_task)
      | Some s \<Rightarrow> (case f s (fv_pipes e) of
           (s', t', r) \<Rightarrow> (\<lparr>fv_slot = Some s', fv_pipes = t'\<rparr>, r)))"

definition read_ofile :: "fd_env \<Rightarrow> int \<Rightarrow> 'r \<Rightarrow> 'r \<Rightarrow> (ofile \<Rightarrow> 'r) \<Rightarrow> 'r" where
  "read_ofile e fd no_task bad f =
     (case fv_slot e of
        None \<Rightarrow> no_task
      | Some s \<Rightarrow> (case sched_slot_ofile_by_fd s fd of
           None \<Rightarrow> bad | Some j \<Rightarrow> f (ofiles s ! j)))"

subsection \<open>Close and duplicate\<close>

definition sched_fd_close :: "int \<Rightarrow> fd_env \<Rightarrow> fd_env \<times> int" where
  "sched_fd_close fd e = with_slot e SCHED_FD_EBADF (\<lambda>s t. sched_slot_close_fd s t fd)"

definition install_dup :: "fd_slot \<Rightarrow> nat \<Rightarrow> u32 \<Rightarrow> u32 \<Rightarrow> nat \<Rightarrow> fd_slot" where
  "install_dup s newfd old_idx flags j =
     upd_ofile (upd_fdent s newfd
                  (\<lambda>_. \<lparr>fe_used = True, fe_ofile_idx = old_idx, fe_fd_flags = flags\<rparr>))
       j (\<lambda>f. f\<lparr>of_refs := of_refs f + 1\<rparr>)"

definition slot_dup_min ::
  "int \<Rightarrow> int \<Rightarrow> u32 \<Rightarrow> fd_slot \<Rightarrow> pipe_table \<Rightarrow> fd_slot \<times> pipe_table \<times> int" where
  "slot_dup_min oldfd minfd fd_flags s t =
     (if minfd < 0 then (s, t, SCHED_FD_EINVAL)
      else if minfd \<ge> int SCHED_MAX_FDS then (s, t, SCHED_FD_EBADF)
      else (case sched_slot_ofile_by_fd s oldfd of
          None \<Rightarrow> (s, t, SCHED_FD_EBADF)
        | Some j \<Rightarrow> (case sched_slot_find_free_fd s (nat minfd) of
            None \<Rightarrow> (s, t, SCHED_FD_EMFILE)
          | Some newfd \<Rightarrow>
              (install_dup s newfd (fe_ofile_idx (fdtab s ! nat oldfd))
                 (fd_flags AND SCHED_FD_CLOEXEC) j,
               sched_pipe_endpoint_inc (of_type (ofiles s ! j)) (of_fs_backend (ofiles s ! j)) t,
               int newfd))))"

definition sched_fd_dup_min :: "int \<Rightarrow> int \<Rightarrow> u32 \<Rightarrow> fd_env \<Rightarrow> fd_env \<times> int" where
  "sched_fd_dup_min oldfd minfd fd_flags e =
     with_slot e SCHED_FD_EBADF (slot_dup_min oldfd minfd fd_flags)"

definition sched_fd_dup :: "int \<Rightarrow> fd_env \<Rightarrow> fd_env \<times> int" where
  "sched_fd_dup oldfd e = sched_fd_dup_min oldfd 0 0 e"

definition slot_dup2 ::
  "int \<Rightarrow> int \<Rightarrow> fd_slot \<Rightarrow> pipe_table \<Rightarrow> fd_slot \<times> pipe_table \<times> int" where
  "slot_dup2 oldfd newfd s t =
     (if newfd < 0 \<or> newfd \<ge> int SCHED_MAX_FDS then (s, t, SCHED_FD_EINVAL)
      else (case sched_slot_ofile_by_fd s oldfd of
          None \<Rightarrow> (s, t, SCHED_FD_EBADF)
        | Some j \<Rightarrow>
            if oldfd = newfd then (s, t, newfd)
            else
              let (s, t) = (if fe_used (fdtab s ! nat newfd)
                            then (case sched_slot_close_fd s t newfd of (s', t', _) \<Rightarrow> (s', t'))
                            else (s, t))
              in (install_dup s (nat newfd) (fe_ofile_idx (fdtab s ! nat oldfd)) 0 j,
                  sched_pipe_endpoint_inc (of_type (ofiles s ! j)) (of_fs_backend (ofiles s ! j)) t,
                  newfd)))"

definition sched_fd_dup2 :: "int \<Rightarrow> int \<Rightarrow> fd_env \<Rightarrow> fd_env \<times> int" where
  "sched_fd_dup2 oldfd newfd e = with_slot e SCHED_FD_EBADF (slot_dup2 oldfd newfd)"

definition sched_fd_close_cloexec :: "fd_env \<Rightarrow> fd_env \<times> int" where
  "sched_fd_close_cloexec e =
     with_slot e SCHED_FD_EBADF (\<lambda>s t. close_cloexec_loop [0..<SCHED_MAX_FDS] s t 0)"

subsection \<open>Flags\<close>

text \<open>\<open>out\<close> says whether the out-pointer is non-null; the written value is the second result.\<close>

definition sched_fd_fcntl_getfl :: "int \<Rightarrow> bool \<Rightarrow> fd_env \<Rightarrow> int \<times> u32 option" where
  "sched_fd_fcntl_getfl fd out e =
     (if \<not> out then (SCHED_FD_EINVAL, None)
      else read_ofile e fd (SCHED_FD_EBADF, None) (SCHED_FD_EBADF, None)
             (\<lambda>f. (SCHED_FD_OK, Some (of_status_flags f))))"

definition sched_fd_fcntl_getfd :: "int \<Rightarrow> bool \<Rightarrow> fd_env \<Rightarrow> int \<times> u32 option" where
  "sched_fd_fcntl_getfd fd out e =
     (if \<not> out then (SCHED_FD_EINVAL, None)
      else (case fv_slot e of
          None \<Rightarrow> (SCHED_FD_EBADF, None)
        | Some s \<Rightarrow> (case sched_slot_ofile_by_fd s fd of
            None \<Rightarrow> (SCHED_FD_EBADF, None)
          | Some _ \<Rightarrow> (SCHED_FD_OK, Some (fe_fd_flags (fdtab s ! nat fd))))))"

definition sched_fd_fcntl_setfd :: "int \<Rightarrow> u32 \<Rightarrow> fd_env \<Rightarrow> fd_env \<times> int" where
  "sched_fd_fcntl_setfd fd flags e =
     with_slot e SCHED_FD_EBADF (\<lambda>s t.
       case sched_slot_ofile_by_fd s fd of
         None \<Rightarrow> (s, t, SCHED_FD_EBADF)
       | Some _ \<Rightarrow> (upd_fdent s (nat fd) (\<lambda>d. d\<lparr>fe_fd_flags := flags AND SCHED_FD_CLOEXEC\<rparr>),
                    t, SCHED_FD_OK))"

definition sched_fd_fcntl_setfl :: "int \<Rightarrow> u32 \<Rightarrow> fd_env \<Rightarrow> fd_env \<times> int" where
  "sched_fd_fcntl_setfl fd flags e =
     with_slot e SCHED_FD_EBADF (\<lambda>s t.
       case sched_slot_ofile_by_fd s fd of
         None \<Rightarrow> (s, t, SCHED_FD_EBADF)
       | Some j \<Rightarrow> (upd_ofile s j (\<lambda>f. f\<lparr>of_status_flags :=
                       (of_status_flags f AND NOT SCHED_FD_O_NONBLOCK) OR
                       (flags AND SCHED_FD_O_NONBLOCK)\<rparr>), t, SCHED_FD_OK))"

subsection \<open>Queries\<close>

definition sched_fd_can_read :: "int \<Rightarrow> fd_env \<Rightarrow> bool" where
  "sched_fd_can_read fd e = read_ofile e fd False False (\<lambda>f.
     let acc = of_status_flags f AND SCHED_FD_O_ACCMODE in
     if acc = SCHED_FD_O_RDONLY \<or> acc = SCHED_FD_O_RDWR
     then sched_fd_is_readable_type (of_type f) else False)"

definition sched_fd_can_write :: "int \<Rightarrow> fd_env \<Rightarrow> bool" where
  "sched_fd_can_write fd e = read_ofile e fd False False (\<lambda>f.
     let acc = of_status_flags f AND SCHED_FD_O_ACCMODE in
     if acc = SCHED_FD_O_WRONLY \<or> acc = SCHED_FD_O_RDWR
     then sched_fd_is_writable_type (of_type f) else False)"

definition sched_fd_is_nonblock :: "int \<Rightarrow> fd_env \<Rightarrow> bool" where
  "sched_fd_is_nonblock fd e =
     read_ofile e fd False False (\<lambda>f. of_status_flags f AND SCHED_FD_O_NONBLOCK \<noteq> 0)"

definition sched_fd_is_open :: "int \<Rightarrow> fd_env \<Rightarrow> bool" where
  "sched_fd_is_open fd e =
     (case fv_slot e of
        None \<Rightarrow> False
      | Some s \<Rightarrow> if fd < 0 \<or> fd \<ge> int SCHED_MAX_FDS then False else fe_used (fdtab s ! nat fd))"

definition sched_fd_is_stdin :: "int \<Rightarrow> fd_env \<Rightarrow> bool" where
  "sched_fd_is_stdin fd e = read_ofile e fd False False (\<lambda>f. of_type f = TYPE_STDIN)"

definition sched_fd_is_tty :: "int \<Rightarrow> fd_env \<Rightarrow> bool" where
  "sched_fd_is_tty fd e = read_ofile e fd False False (\<lambda>f.
     of_type f = TYPE_STDIN \<or> of_type f = TYPE_STDOUT \<or> of_type f = TYPE_STDERR \<or>
     of_type f = TYPE_DEV_TTY)"

definition sched_fd_get_type :: "int \<Rightarrow> bool \<Rightarrow> fd_env \<Rightarrow> int \<times> fd_type option" where
  "sched_fd_get_type fd out e =
     (if \<not> out then (SCHED_FD_EINVAL, None)
      else read_ofile e fd (SCHED_FD_EBADF, None) (SCHED_FD_EBADF, None)
             (\<lambda>f. (SCHED_FD_OK, Some (of_type f))))"

text \<open>The five out-parameters of \<open>sched_fd_regular_get\<close>, in order: backend, file id, size,
  offset, directory flag.\<close>

definition sched_fd_regular_get :: "int \<Rightarrow> fd_env \<Rightarrow> int \<times> (u32 \<times> u32 \<times> u32 \<times> u32 \<times> bool) option" where
  "sched_fd_regular_get fd e =
     read_ofile e fd (SCHED_FD_EBADF, None) (SCHED_FD_EBADF, None) (\<lambda>f.
       if of_type f \<noteq> TYPE_REGULAR then (SCHED_FD_EBADF, None)
       else (SCHED_FD_OK, Some (of_fs_backend f, of_file_id f, of_file_size f,
                                of_file_offset f, of_file_is_dir f)))"

subsection \<open>Opening\<close>

definition install_open :: "fd_slot \<Rightarrow> nat \<Rightarrow> nat \<Rightarrow> (ofile \<Rightarrow> ofile) \<Rightarrow> fd_slot" where
  "install_open s fd j mk =
     upd_fdent (upd_ofile s j (\<lambda>f. mk (f\<lparr>of_used := True, of_refs := 1\<rparr>)))
       fd (\<lambda>_. \<lparr>fe_used = True, fe_ofile_idx = of_nat j, fe_fd_flags = 0\<rparr>)"

definition slot_open :: "(ofile \<Rightarrow> ofile) \<Rightarrow> fd_slot \<Rightarrow> pipe_table \<Rightarrow> fd_slot \<times> pipe_table \<times> int" where
  "slot_open mk s t =
     (case sched_slot_find_free_fd s 0 of
        None \<Rightarrow> (s, t, SCHED_FD_EMFILE)
      | Some fd \<Rightarrow> (case sched_slot_find_free_ofile s of
          None \<Rightarrow> (s, t, SCHED_FD_EMFILE)
        | Some j \<Rightarrow> (install_open s fd j mk, t, int fd)))"

definition special_fd_type :: "u32 \<Rightarrow> fd_type option" where
  "special_fd_type special =
     (if special = 1 then Some TYPE_DEV_NULL
      else if special = 2 then Some TYPE_DEV_ZERO
      else if special = 3 then Some TYPE_DEV_TTY
      else if special = 4 then Some TYPE_SOCKET
      else None)"

definition sched_fd_open_special :: "u32 \<Rightarrow> u32 \<Rightarrow> fd_env \<Rightarrow> fd_env \<times> int" where
  "sched_fd_open_special special status_flags e =
     with_slot e SCHED_FD_EBADF (\<lambda>s t.
       case special_fd_type special of
         None \<Rightarrow> (s, t, SCHED_FD_EINVAL)
       | Some type \<Rightarrow> slot_open (\<lambda>f. f\<lparr>of_type := type,
             of_status_flags := status_flags AND (SCHED_FD_O_ACCMODE OR SCHED_FD_O_NONBLOCK),
             of_fs_backend := 0, of_file_id := 0, of_file_size := 0, of_file_offset := 0,
             of_file_is_dir := False\<rparr>) s t)"

definition sched_fd_open_regular ::
  "u32 \<Rightarrow> u32 \<Rightarrow> u32 \<Rightarrow> u32 \<Rightarrow> bool \<Rightarrow> fd_env \<Rightarrow> fd_env \<times> int" where
  "sched_fd_open_regular status_flags backend file_id file_size is_dir e =
     with_slot e SCHED_FD_EBADF (\<lambda>s t.
       let acc = status_flags AND SCHED_FD_O_ACCMODE in
       if \<not> (acc = SCHED_FD_O_RDONLY \<or> acc = SCHED_FD_O_WRONLY \<or> acc = SCHED_FD_O_RDWR)
       then (s, t, SCHED_FD_EINVAL)
       else slot_open (\<lambda>f. f\<lparr>of_type := TYPE_REGULAR,
             of_status_flags := status_flags AND (SCHED_FD_O_ACCMODE OR SCHED_FD_O_NONBLOCK),
             of_fs_backend := backend, of_file_id := file_id, of_file_size := file_size,
             of_file_offset := 0, of_file_is_dir := is_dir\<rparr>) s t)"

text \<open>\<open>sched_fd_pipe\<close> looks for two free descriptors and two free open files before it takes
  anything, marking the first open file while it looks for the second. The pair of
  descriptors is what it stores at \<open>pipefd_addr\<close>.\<close>

definition pipe_end :: "fd_type \<Rightarrow> u32 \<Rightarrow> nat \<Rightarrow> ofile \<Rightarrow> ofile" where
  "pipe_end type flags pipe_id f = f\<lparr>of_type := type, of_status_flags := flags,
     of_fs_backend := of_nat pipe_id, of_file_id := 0, of_file_size := 0, of_file_offset := 0,
     of_file_is_dir := False\<rparr>"

definition slot_pipe ::
  "fd_slot \<Rightarrow> pipe_table \<Rightarrow> fd_slot \<times> pipe_table \<times> (int \<times> (nat \<times> nat) option)" where
  "slot_pipe s t =
     (case sched_slot_find_free_fd s 0 of
        None \<Rightarrow> (s, t, (SCHED_FD_EMFILE, None))
      | Some read_fd \<Rightarrow> (case sched_slot_find_free_fd s (read_fd + 1) of
          None \<Rightarrow> (s, t, (SCHED_FD_EMFILE, None))
        | Some write_fd \<Rightarrow> (case sched_slot_find_free_ofile s of
            None \<Rightarrow> (s, t, (SCHED_FD_EMFILE, None))
          | Some read_of \<Rightarrow>
              (case sched_slot_find_free_ofile (upd_ofile s read_of (\<lambda>f. f\<lparr>of_used := True\<rparr>)) of
                None \<Rightarrow> (upd_ofile s read_of (\<lambda>f. f\<lparr>of_used := False\<rparr>), t, (SCHED_FD_EMFILE, None))
              | Some write_of \<Rightarrow>
                  let s = upd_ofile s read_of (\<lambda>f. f\<lparr>of_used := False\<rparr>) in
                  (case sched_pipe_alloc_locked (sched_pipe_init_once t) of
                    (t', None) \<Rightarrow> (s, t', (SCHED_FD_EMFILE, None))
                  | (t', Some p) \<Rightarrow>
                     (install_open
                        (install_open s read_fd read_of (pipe_end TYPE_PIPE_READ SCHED_FD_O_RDONLY p))
                        write_fd write_of (pipe_end TYPE_PIPE_WRITE SCHED_FD_O_WRONLY p),
                      upd_pipe t' p (\<lambda>q. q\<lparr>p_read_refs := 1, p_write_refs := 1\<rparr>),
                      (SCHED_FD_OK, Some (read_fd, write_fd))))))))"

definition sched_fd_pipe :: "fd_env \<Rightarrow> fd_env \<times> (int \<times> (nat \<times> nat) option)" where
  "sched_fd_pipe e = with_slot e (SCHED_FD_EBADF, None) slot_pipe"

subsection \<open>Offsets of regular files\<close>

text \<open>\<open>offset\<close> is an \<open>int32_t\<close>: a word read as signed. The magnitude of a negative offset is
  computed without overflow as \<open>(uint32_t)(-(offset + 1)) + 1u\<close>.\<close>

definition seek_base :: "u32 \<Rightarrow> ofile \<Rightarrow> u32 option" where
  "seek_base whence f =
     (if whence = 0 then Some 0
      else if whence = 1 then Some (of_file_offset f)
      else if whence = 2 then Some (of_file_size f)
      else None)"

definition seek_next :: "u32 \<Rightarrow> u32 \<Rightarrow> u32 option" where
  "seek_next base offset =
     (if sint offset < 0
      then (let mag = (- (offset + 1)) + 1 in if base < mag then None else Some (base - mag))
      else (if base > 0xFFFFFFFF - offset then None else Some (base + offset)))"

definition sched_fd_lseek :: "int \<Rightarrow> u32 \<Rightarrow> u32 \<Rightarrow> fd_env \<Rightarrow> fd_env \<times> (int \<times> u32 option)" where
  "sched_fd_lseek fd offset whence e =
     with_slot e (SCHED_FD_EBADF, None) (\<lambda>s t.
       case sched_slot_ofile_by_fd s fd of
         None \<Rightarrow> (s, t, (SCHED_FD_EBADF, None))
       | Some j \<Rightarrow>
           if of_type (ofiles s ! j) \<noteq> TYPE_REGULAR then (s, t, (SCHED_FD_ESPIPE, None))
           else (case seek_base whence (ofiles s ! j) of
               None \<Rightarrow> (s, t, (SCHED_FD_EINVAL, None))
             | Some base \<Rightarrow> (case seek_next base offset of
                 None \<Rightarrow> (s, t, (SCHED_FD_EINVAL, None))
               | Some next \<Rightarrow> (upd_ofile s j (\<lambda>f. f\<lparr>of_file_offset := next\<rparr>), t,
                               (SCHED_FD_OK, Some next)))))"

definition advance_offset :: "u32 \<Rightarrow> ofile \<Rightarrow> u32" where
  "advance_offset delta f =
     (let cur = of_file_offset f; next = cur + delta;
          next = (if next < cur then 0xFFFFFFFF else next)
      in if next > of_file_size f then of_file_size f else next)"

definition sched_fd_regular_advance :: "int \<Rightarrow> u32 \<Rightarrow> fd_env \<Rightarrow> fd_env \<times> (int \<times> u32 option)" where
  "sched_fd_regular_advance fd delta e =
     with_slot e (SCHED_FD_EBADF, None) (\<lambda>s t.
       case sched_slot_ofile_by_fd s fd of
         None \<Rightarrow> (s, t, (SCHED_FD_EBADF, None))
       | Some j \<Rightarrow>
           if of_type (ofiles s ! j) \<noteq> TYPE_REGULAR then (s, t, (SCHED_FD_EBADF, None))
           else let next = advance_offset delta (ofiles s ! j) in
             (upd_ofile s j (\<lambda>f. f\<lparr>of_file_offset := next\<rparr>), t, (SCHED_FD_OK, Some next)))"

definition commit_write :: "u32 \<Rightarrow> u32 \<Rightarrow> ofile \<Rightarrow> ofile" where
  "commit_write written new_size f =
     (let f = (if new_size > of_file_size f then f\<lparr>of_file_size := new_size\<rparr> else f);
          cur = of_file_offset f; next = cur + written;
          next = (if next < cur then of_file_size f else next);
          next = (if next > of_file_size f then of_file_size f else next)
      in f\<lparr>of_file_offset := next\<rparr>)"

definition sched_fd_regular_commit_write ::
  "int \<Rightarrow> u32 \<Rightarrow> u32 \<Rightarrow> fd_env \<Rightarrow> fd_env \<times> (int \<times> u32 option)" where
  "sched_fd_regular_commit_write fd written new_size e =
     with_slot e (SCHED_FD_EBADF, None) (\<lambda>s t.
       case sched_slot_ofile_by_fd s fd of
         None \<Rightarrow> (s, t, (SCHED_FD_EBADF, None))
       | Some j \<Rightarrow>
           if of_type (ofiles s ! j) \<noteq> TYPE_REGULAR then (s, t, (SCHED_FD_EBADF, None))
           else let f = commit_write written new_size (ofiles s ! j) in
             (upd_ofile s j (\<lambda>_. f), t, (SCHED_FD_OK, Some (of_file_offset f))))"

subsection \<open>Pipe transfers\<close>

definition sched_fd_pipe_id_for_fd :: "int \<Rightarrow> fd_type \<Rightarrow> fd_env \<Rightarrow> int \<times> nat option" where
  "sched_fd_pipe_id_for_fd fd want_type e =
     read_ofile e fd (SCHED_FD_EBADF, None) (SCHED_FD_EBADF, None) (\<lambda>f.
       if of_type f \<noteq> want_type \<or> unat (of_fs_backend f) \<ge> SCHED_PIPE_MAX
       then (SCHED_FD_EBADF, None)
       else (SCHED_FD_OK, Some (unat (of_fs_backend f))))"

text \<open>The result of a read is the return code and the bytes stored at \<open>dst\<close>.\<close>

definition sched_fd_pipe_read :: "int \<Rightarrow> nat \<Rightarrow> fd_env \<Rightarrow> fd_env \<times> (int \<times> u8 list)" where
  "sched_fd_pipe_read fd len e =
     (if len = 0 then (e, (0, []))
      else (case sched_fd_pipe_id_for_fd fd TYPE_PIPE_READ e of
          (rc, None) \<Rightarrow> (e, (rc, []))
        | (_, Some p) \<Rightarrow>
            let t = sched_pipe_init_once (fv_pipes e); e = e\<lparr>fv_pipes := t\<rparr> in
            if \<not> p_used (g_pipes t ! p) then (e, (SCHED_FD_EBADF, []))
            else (case pipe_read_loop len (g_pipes t ! p) [] of (q, dst) \<Rightarrow>
              let e = e\<lparr>fv_pipes := upd_pipe t p (\<lambda>_. q)\<rparr> in
              if dst \<noteq> [] then (e, (int (length dst), dst))
              else if p_write_refs q = 0 then (e, (0, []))
              else (e, (SCHED_FD_EAGAIN, [])))))"

definition sched_fd_pipe_write :: "int \<Rightarrow> u8 list \<Rightarrow> fd_env \<Rightarrow> fd_env \<times> int" where
  "sched_fd_pipe_write fd src e =
     (if src = [] then (e, 0)
      else (case sched_fd_pipe_id_for_fd fd TYPE_PIPE_WRITE e of
          (rc, None) \<Rightarrow> (e, rc)
        | (_, Some p) \<Rightarrow>
            let t = sched_pipe_init_once (fv_pipes e); e = e\<lparr>fv_pipes := t\<rparr> in
            if \<not> p_used (g_pipes t ! p) then (e, SCHED_FD_EBADF)
            else if p_read_refs (g_pipes t ! p) = 0 then (e, SCHED_FD_EPIPE)
            else (case pipe_write_loop (g_pipes t ! p) src 0 of (q, written) \<Rightarrow>
              let e = e\<lparr>fv_pipes := upd_pipe t p (\<lambda>_. q)\<rparr> in
              if written \<noteq> 0 then (e, int written) else (e, SCHED_FD_EAGAIN))))"

definition sched_fd_pipe_read_ready :: "int \<Rightarrow> fd_env \<Rightarrow> bool" where
  "sched_fd_pipe_read_ready fd e =
     (case sched_fd_pipe_id_for_fd fd TYPE_PIPE_READ e of
        (_, None) \<Rightarrow> False
      | (_, Some p) \<Rightarrow>
          let q = g_pipes (sched_pipe_init_once (fv_pipes e)) ! p in
          p_used q \<and> (p_len q \<noteq> 0 \<or> p_write_refs q = 0))"

definition sched_fd_pipe_write_ready :: "int \<Rightarrow> fd_env \<Rightarrow> bool" where
  "sched_fd_pipe_write_ready fd e =
     (case sched_fd_pipe_id_for_fd fd TYPE_PIPE_WRITE e of
        (_, None) \<Rightarrow> False
      | (_, Some p) \<Rightarrow>
          let q = g_pipes (sched_pipe_init_once (fv_pipes e)) ! p in
          p_used q \<and> p_read_refs q \<noteq> 0 \<and> p_len q < SCHED_PIPE_CAP)"

subsection \<open>Sockets\<close>

definition sched_fd_sock_get :: "int \<Rightarrow> fd_env \<Rightarrow> int \<times> u32 option" where
  "sched_fd_sock_get fd e =
     read_ofile e fd (-1, None) (-1, None) (\<lambda>f.
       if of_type f \<noteq> TYPE_SOCKET then (-1, None) else (0, Some (of_sock_ptr f)))"

definition sched_fd_sock_set :: "int \<Rightarrow> u32 \<Rightarrow> fd_env \<Rightarrow> fd_env" where
  "sched_fd_sock_set fd sock e =
     fst (with_slot e () (\<lambda>s t.
       case sched_slot_ofile_by_fd s fd of
         None \<Rightarrow> (s, t, ())
       | Some j \<Rightarrow> (if of_type (ofiles s ! j) = TYPE_SOCKET
                    then upd_ofile s j (\<lambda>f. f\<lparr>of_sock_ptr := sock\<rparr>) else s, t, ())))"

definition sched_fd_sock_refs :: "int \<Rightarrow> fd_env \<Rightarrow> int \<times> u32 option" where
  "sched_fd_sock_refs fd e =
     read_ofile e fd (-1, None) (-1, None) (\<lambda>f.
       if of_type f \<noteq> TYPE_SOCKET then (-1, None) else (0, Some (of_refs f)))"

end
