(* ===== verification/Fd_Inv.thy ===== *)
theory Fd_Inv
  imports Fd_Ops
begin

text \<open>
  The invariant of the descriptor tables and its preservation. Within one table every
  descriptor refers to an open file in use, and every open file counts exactly the descriptors
  that refer to it (\<open>fd_wf\<close>). Across tables, each end of a pipe counts exactly the
  descriptors, of all tasks, that are open on it: \<open>fd_inv ext s t\<close> says so for the table \<open>s\<close>
  of one task and the pipe table \<open>t\<close>, where \<open>ext\<close> is what the other tasks contribute. Every
  operation keeps \<open>fd_inv ext\<close> for any \<open>ext\<close>, so it keeps the counts of the whole system right.
\<close>

subsection \<open>Counting\<close>

abbreviation is_pipe_type :: "fd_type \<Rightarrow> bool" where
  "is_pipe_type T \<equiv> T = TYPE_PIPE_READ \<or> T = TYPE_PIPE_WRITE"

definition fd_count :: "fd_slot \<Rightarrow> nat \<Rightarrow> nat" where
  "fd_count s j = length (filter (\<lambda>e. fe_used e \<and> unat (fe_ofile_idx e) = j) (fdtab s))"

definition on_pipe :: "fd_slot \<Rightarrow> fd_type \<Rightarrow> nat \<Rightarrow> fdent \<Rightarrow> bool" where
  "on_pipe s T p e \<longleftrightarrow> fe_used e \<and>
     of_type (ofiles s ! unat (fe_ofile_idx e)) = T \<and>
     unat (of_fs_backend (ofiles s ! unat (fe_ofile_idx e))) = p"

definition pipe_fds :: "fd_slot \<Rightarrow> fd_type \<Rightarrow> nat \<Rightarrow> nat" where
  "pipe_fds s T p = length (filter (on_pipe s T p) (fdtab s))"

definition pipe_refs :: "fd_type \<Rightarrow> sched_pipe \<Rightarrow> nat" where
  "pipe_refs T q = unat (if T = TYPE_PIPE_READ then p_read_refs q else p_write_refs q)"

definition fd_wf :: "fd_slot \<Rightarrow> bool" where
  "fd_wf s \<longleftrightarrow> length (ofiles s) = SCHED_MAX_FDS \<and> length (fdtab s) = SCHED_MAX_FDS \<and>
     (\<forall>i < SCHED_MAX_FDS. fe_used (fdtab s ! i) \<longrightarrow> unat (fe_ofile_idx (fdtab s ! i)) < SCHED_MAX_FDS) \<and>
     (\<forall>j < SCHED_MAX_FDS. unat (of_refs (ofiles s ! j)) = fd_count s j) \<and>
     (\<forall>j < SCHED_MAX_FDS. of_used (ofiles s ! j) \<longleftrightarrow> of_refs (ofiles s ! j) \<noteq> 0) \<and>
     (\<forall>j < SCHED_MAX_FDS. of_used (ofiles s ! j) \<and> is_pipe_type (of_type (ofiles s ! j)) \<longrightarrow>
        unat (of_fs_backend (ofiles s ! j)) < SCHED_PIPE_MAX)"

definition pipes_ok :: "pipe_table \<Rightarrow> bool" where
  "pipes_ok t \<longleftrightarrow> g_pipe_inited t \<and> length (g_pipes t) = SCHED_PIPE_MAX \<and>
     (\<forall>p < SCHED_PIPE_MAX. pipe_wf (g_pipes t ! p) \<and>
        (p_used (g_pipes t ! p) \<longleftrightarrow>
           p_read_refs (g_pipes t ! p) \<noteq> 0 \<or> p_write_refs (g_pipes t ! p) \<noteq> 0))"

definition fd_inv :: "(fd_type \<Rightarrow> nat \<Rightarrow> nat) \<Rightarrow> fd_slot \<Rightarrow> pipe_table \<Rightarrow> bool" where
  "fd_inv ext s t \<longleftrightarrow> fd_wf s \<and> pipes_ok t \<and>
     (\<forall>T p. is_pipe_type T \<longrightarrow> p < SCHED_PIPE_MAX \<longrightarrow>
        pipe_refs T (g_pipes t ! p) = ext T p + pipe_fds s T p \<and> ext T p < 2 ^ 31)"

lemma fd_wfD:
  assumes "fd_wf s"
  shows "length (ofiles s) = 32" and "length (fdtab s) = 32"
    and "\<And>i. i < 32 \<Longrightarrow> fe_used (fdtab s ! i) \<Longrightarrow> unat (fe_ofile_idx (fdtab s ! i)) < 32"
    and "\<And>j. j < 32 \<Longrightarrow> unat (of_refs (ofiles s ! j)) = fd_count s j"
    and "\<And>j. j < 32 \<Longrightarrow> of_used (ofiles s ! j) \<longleftrightarrow> of_refs (ofiles s ! j) \<noteq> 0"
    and "\<And>j. j < 32 \<Longrightarrow> of_used (ofiles s ! j) \<Longrightarrow> is_pipe_type (of_type (ofiles s ! j)) \<Longrightarrow>
          unat (of_fs_backend (ofiles s ! j)) < 16"
  using assms by (auto simp: fd_wf_def)

lemma upd_sel [simp]:
  "fdtab (upd_ofile s j f) = fdtab s"
  "ofiles (upd_fdent s i g) = ofiles s"
  "ofiles (upd_ofile s j f) = (ofiles s)[j := f (ofiles s ! j)]"
  "fdtab (upd_fdent s i g) = (fdtab s)[i := g (fdtab s ! i)]"
  by (simp_all add: upd_ofile_def upd_fdent_def)

lemma fd_count_upd_ofile [simp]: "fd_count (upd_ofile s k f) j = fd_count s j"
  by (simp add: fd_count_def)

lemma fd_count_upd_fdent:
  "i < length (fdtab s) \<Longrightarrow>
    fd_count (upd_fdent s i g) j
      + of_bool (fe_used (fdtab s ! i) \<and> unat (fe_ofile_idx (fdtab s ! i)) = j)
    = fd_count s j
      + of_bool (fe_used (g (fdtab s ! i)) \<and> unat (fe_ofile_idx (g (fdtab s ! i))) = j)"
  unfolding fd_count_def upd_sel by (rule count_list_update)

lemma fd_count_le: "fd_wf s \<Longrightarrow> fd_count s j \<le> 32"
  using length_filter_le [of _ "fdtab s"] by (simp add: fd_count_def fd_wf_def)

lemma fd_count_pos:
  "i < length (fdtab s) \<Longrightarrow> fe_used (fdtab s ! i) \<Longrightarrow> 0 < fd_count s (unat (fe_ofile_idx (fdtab s ! i)))"
  unfolding fd_count_def by (rule count_nth_pos) auto

lemma fd_count_zeroD:
  "fd_count s j = 0 \<Longrightarrow> e \<in> set (fdtab s) \<Longrightarrow> fe_used e \<Longrightarrow> unat (fe_ofile_idx e) \<noteq> j"
  unfolding fd_count_def by (auto simp: filter_empty_conv)

text \<open>Updating an open file keeps the pipe counts if it keeps type and pipe, or if no
  descriptor refers to it.\<close>

lemma pipe_fds_upd_ofile_same:
  "of_type (f (ofiles s ! j)) = of_type (ofiles s ! j) \<Longrightarrow>
   of_fs_backend (f (ofiles s ! j)) = of_fs_backend (ofiles s ! j) \<Longrightarrow>
   pipe_fds (upd_ofile s j f) T p = pipe_fds s T p"
proof -
  assume *: "of_type (f (ofiles s ! j)) = of_type (ofiles s ! j)"
    "of_fs_backend (f (ofiles s ! j)) = of_fs_backend (ofiles s ! j)"
  have "on_pipe (upd_ofile s j f) T p = on_pipe s T p"
  proof
    fix e
    show "on_pipe (upd_ofile s j f) T p e = on_pipe s T p e"
      using * by (cases "unat (fe_ofile_idx e) = j"; cases "j < length (ofiles s)")
        (auto simp: on_pipe_def list_update_beyond)
  qed
  then show ?thesis by (simp add: pipe_fds_def)
qed

lemma pipe_fds_upd_ofile_free:
  assumes "fd_count s j = 0"
  shows "pipe_fds (upd_ofile s j f) T p = pipe_fds s T p"
proof -
  have "on_pipe (upd_ofile s j f) T p e = on_pipe s T p e" if "e \<in> set (fdtab s)" for e
    using fd_count_zeroD [OF assms that] by (auto simp: on_pipe_def)
  then have "filter (on_pipe (upd_ofile s j f) T p) (fdtab s) = filter (on_pipe s T p) (fdtab s)"
    by (rule filter_cong [OF refl])
  then show ?thesis by (simp add: pipe_fds_def)
qed

lemma pipe_fds_upd_fdent:
  assumes "i < length (fdtab s)"
  shows "pipe_fds (upd_fdent s i g) T p + of_bool (on_pipe s T p (fdtab s ! i))
    = pipe_fds s T p + of_bool (on_pipe s T p (g (fdtab s ! i)))"
proof -
  have "on_pipe (upd_fdent s i g) T p = on_pipe s T p" by (auto simp: on_pipe_def fun_eq_iff)
  then show ?thesis using count_list_update [OF assms] by (simp add: pipe_fds_def)
qed

lemma pipe_fds_le: "fd_wf s \<Longrightarrow> pipe_fds s T p \<le> 32"
  using length_filter_le [of _ "fdtab s"] by (simp add: pipe_fds_def fd_wf_def)

subsection \<open>Lookup\<close>

lemma ofile_by_fd_SomeD:
  assumes "sched_slot_ofile_by_fd s fd = Some j"
  shows "0 \<le> fd" and "nat fd < 32" and "fe_used (fdtab s ! nat fd)"
    and "j = unat (fe_ofile_idx (fdtab s ! nat fd))" and "j < 32"
    and "of_used (ofiles s ! j)" and "of_refs (ofiles s ! j) \<noteq> 0"
  using assms by (auto simp: sched_slot_ofile_by_fd_def Let_def split: if_splits)

text \<open>In a well-formed table a descriptor in use refers to an open file in use, so the lookup
  succeeds exactly on the descriptors in use.\<close>

lemma fd_used_ofile:
  assumes wf: "fd_wf s" and i: "i < 32" "fe_used (fdtab s ! i)" and j: "j = unat (fe_ofile_idx (fdtab s ! i))"
  shows "j < 32" and "of_used (ofiles s ! j)" and "of_refs (ofiles s ! j) \<noteq> 0" and "0 < fd_count s j"
proof -
  show j32: "j < 32" using fd_wfD(3) [OF wf i] j by simp
  show cnt: "0 < fd_count s j"
    unfolding j using fd_wfD(2) [OF wf] i by (intro fd_count_pos) auto
  then have "0 < unat (of_refs (ofiles s ! j))" using fd_wfD(4) [OF wf j32] by simp
  then show refs: "of_refs (ofiles s ! j) \<noteq> 0" by auto
  with fd_wfD(5) [OF wf j32] show "of_used (ofiles s ! j)" by simp
qed

lemma ofile_by_fd_wf:
  assumes "fd_wf s"
  shows "sched_slot_ofile_by_fd s fd =
    (if 0 \<le> fd \<and> fd < 32 \<and> fe_used (fdtab s ! nat fd)
     then Some (unat (fe_ofile_idx (fdtab s ! nat fd))) else None)"
proof (cases "0 \<le> fd \<and> fd < 32 \<and> fe_used (fdtab s ! nat fd)")
  case True
  then have "nat fd < 32" by linarith
  with fd_used_ofile [OF assms this] True show ?thesis
    by (simp add: sched_slot_ofile_by_fd_def Let_def)
next
  case False
  then show ?thesis by (auto simp: sched_slot_ofile_by_fd_def Let_def)
qed

lemma find_free_fd_Some:
  "sched_slot_find_free_fd s a = Some i \<longleftrightarrow>
    a \<le> i \<and> i < 32 \<and> \<not> fe_used (fdtab s ! i) \<and> (\<forall>k. a \<le> k \<and> k < i \<longrightarrow> fe_used (fdtab s ! k))"
  by (auto simp: sched_slot_find_free_fd_def find_upt_Some)

lemma find_free_fd_None:
  "sched_slot_find_free_fd s a = None \<longleftrightarrow> (\<forall>k. a \<le> k \<and> k < 32 \<longrightarrow> fe_used (fdtab s ! k))"
  by (auto simp: sched_slot_find_free_fd_def find_upt_None)

lemma find_free_ofile_Some:
  "sched_slot_find_free_ofile s = Some j \<Longrightarrow> j < 32 \<and> \<not> of_used (ofiles s ! j)"
  by (simp add: sched_slot_find_free_ofile_def find_upt_Some)

subsection \<open>The pipe table under one operation\<close>

lemma init_once_ok [simp]: "pipes_ok t \<Longrightarrow> sched_pipe_init_once t = t"
  by (simp add: sched_pipe_init_once_def pipes_ok_def)

lemma upd_pipe_sel [simp]:
  "g_pipe_inited (upd_pipe t i f) = g_pipe_inited t"
  "g_pipes (upd_pipe t i f) = (g_pipes t)[i := f (g_pipes t ! i)]"
  by (simp_all add: upd_pipe_def)

lemma pipes_okD:
  assumes "pipes_ok t"
  shows "length (g_pipes t) = 16"
    and "\<And>p. p < 16 \<Longrightarrow> pipe_wf (g_pipes t ! p)"
    and "\<And>p. p < 16 \<Longrightarrow> p_used (g_pipes t ! p) \<longleftrightarrow>
          p_read_refs (g_pipes t ! p) \<noteq> 0 \<or> p_write_refs (g_pipes t ! p) \<noteq> 0"
  using assms by (auto simp: pipes_ok_def)

lemma pipe_refs_used:
  "pipes_ok t \<Longrightarrow> p < 16 \<Longrightarrow> 0 < pipe_refs T (g_pipes t ! p) \<Longrightarrow> p_used (g_pipes t ! p)"
  by (auto simp: pipe_refs_def pipes_okD(3) split: if_splits)

lemma pipes_ok_upd:
  "pipes_ok t \<Longrightarrow> p < 16 \<Longrightarrow> pipe_wf (f (g_pipes t ! p)) \<Longrightarrow>
    (p_used (f (g_pipes t ! p)) \<longleftrightarrow>
      p_read_refs (f (g_pipes t ! p)) \<noteq> 0 \<or> p_write_refs (f (g_pipes t ! p)) \<noteq> 0) \<Longrightarrow>
    pipes_ok (upd_pipe t p f)"
  by (auto simp: pipes_ok_def nth_list_update)

lemma endpoint_inc_other [simp]: "\<not> is_pipe_type T \<Longrightarrow> sched_pipe_endpoint_inc T b t = t"
  by (simp add: sched_pipe_endpoint_inc_def)

lemma endpoint_dec_other [simp]: "\<not> is_pipe_type T \<Longrightarrow> sched_pipe_endpoint_dec T b t = t"
  by (simp add: sched_pipe_endpoint_dec_def)

text \<open>One more descriptor on an open end, one fewer: the count of that end moves by one, all
  other counts stay, and the table stays consistent (a pipe is in use exactly while one of its
  ends is open).\<close>

lemma endpoint_inc_spec:
  assumes ok: "pipes_ok t" and T: "is_pipe_type T" and b: "unat b < 16"
    and pos: "0 < pipe_refs T (g_pipes t ! unat b)"
    and bound: "pipe_refs T (g_pipes t ! unat b) < 2 ^ 32 - 1"
  shows "pipes_ok (sched_pipe_endpoint_inc T b t)"
    and "p < 16 \<Longrightarrow> is_pipe_type T' \<Longrightarrow>
      pipe_refs T' (g_pipes (sched_pipe_endpoint_inc T b t) ! p)
        = pipe_refs T' (g_pipes t ! p) + of_bool (T' = T \<and> p = unat b)"
proof -
  have used: "p_used (g_pipes t ! unat b)" using pipe_refs_used [OF ok b pos] .
  define f where "f = (\<lambda>q :: sched_pipe. if T = TYPE_PIPE_READ then q\<lparr>p_read_refs := p_read_refs q + 1\<rparr>
                          else q\<lparr>p_write_refs := p_write_refs q + 1\<rparr>)"
  have eq: "sched_pipe_endpoint_inc T b t = upd_pipe t (unat b) f"
    using T b used ok by (auto simp: sched_pipe_endpoint_inc_def f_def Let_def)
  define q where "q = g_pipes t ! unat b"
  have refs: "pipe_refs T' (f q) = pipe_refs T' q + of_bool (T' = T)" if "is_pipe_type T'" for T'
  proof (cases "T = TYPE_PIPE_READ")
    case True
    then have "unat (p_read_refs q + 1) = Suc (unat (p_read_refs q))"
      using bound by (intro unat_inc [where n = "2 ^ 32 - 1"]) (auto simp: pipe_refs_def q_def)
    with True that show ?thesis by (auto simp: pipe_refs_def f_def)
  next
    case False
    then have "unat (p_write_refs q + 1) = Suc (unat (p_write_refs q))"
      using bound T by (intro unat_inc [where n = "2 ^ 32 - 1"]) (auto simp: pipe_refs_def q_def)
    with False T that show ?thesis by (auto simp: pipe_refs_def f_def)
  qed
  have wf: "pipe_wf (f q)" using pipes_okD(2) [OF ok b] by (simp add: f_def q_def pipe_wf_def)
  have "0 < pipe_refs T (f q)" using refs [OF T] by simp
  then have "p_used (f q) \<longleftrightarrow> p_read_refs (f q) \<noteq> 0 \<or> p_write_refs (f q) \<noteq> 0"
    using used by (auto simp: pipe_refs_def f_def q_def split: if_splits)
  with wf show "pipes_ok (sched_pipe_endpoint_inc T b t)"
    unfolding eq using ok b by (intro pipes_ok_upd) (simp_all add: q_def)
  show "pipe_refs T' (g_pipes (sched_pipe_endpoint_inc T b t) ! p)
      = pipe_refs T' (g_pipes t ! p) + of_bool (T' = T \<and> p = unat b)"
    if "p < 16" "is_pipe_type T'"
    using that refs [OF that(2)] pipes_okD(1) [OF ok] b unfolding eq
    by (cases "p = unat b") (auto simp: q_def)
qed

lemma pipe_drop_ref_refs:
  assumes "is_pipe_type T" "is_pipe_type T'" "0 < pipe_refs T q"
  shows "pipe_refs T' (pipe_drop_ref T q) = pipe_refs T' q - of_bool (T' = T)"
  using assms by (auto simp: pipe_drop_ref_def pipe_refs_def unat_dec split: if_splits)

lemma pipe_release_refs [simp]: "pipe_refs T (pipe_release_if_unused q) = pipe_refs T q"
  by (simp add: pipe_release_if_unused_def pipe_refs_def)

lemma endpoint_dec_spec:
  assumes ok: "pipes_ok t" and T: "is_pipe_type T" and b: "unat b < 16"
    and pos: "0 < pipe_refs T (g_pipes t ! unat b)"
  shows "pipes_ok (sched_pipe_endpoint_dec T b t)"
    and "p < 16 \<Longrightarrow> is_pipe_type T' \<Longrightarrow>
      pipe_refs T' (g_pipes (sched_pipe_endpoint_dec T b t) ! p)
        = pipe_refs T' (g_pipes t ! p) - of_bool (T' = T \<and> p = unat b)"
proof -
  define f where "f = (\<lambda>q :: sched_pipe. pipe_release_if_unused (pipe_drop_ref T q))"
  have used: "p_used (g_pipes t ! unat b)" using pipe_refs_used [OF ok b pos] .
  have eq: "sched_pipe_endpoint_dec T b t = upd_pipe t (unat b) f"
    using T b used ok by (auto simp: sched_pipe_endpoint_dec_def f_def Let_def)
  define q where "q = g_pipes t ! unat b"
  have refs: "pipe_refs T' (f q) = pipe_refs T' q - of_bool (T' = T)" if "is_pipe_type T'" for T'
    using pipe_drop_ref_refs [OF T that] pos by (simp add: f_def q_def)
  have wf: "pipe_wf q" using pipes_okD(2) [OF ok b] by (simp add: q_def)
  have "pipe_wf (f q)"
    using wf by (auto simp: f_def pipe_release_if_unused_def pipe_drop_ref_def pipe_wf_def)
  moreover have "p_used (f q) \<longleftrightarrow> p_read_refs (f q) \<noteq> 0 \<or> p_write_refs (f q) \<noteq> 0"
    using used by (auto simp: f_def q_def pipe_release_if_unused_def pipe_drop_ref_def)
  ultimately show "pipes_ok (sched_pipe_endpoint_dec T b t)"
    unfolding eq using ok b by (intro pipes_ok_upd) (simp_all add: q_def)
  show "pipe_refs T' (g_pipes (sched_pipe_endpoint_dec T b t) ! p)
      = pipe_refs T' (g_pipes t ! p) - of_bool (T' = T \<and> p = unat b)"
    if "p < 16" "is_pipe_type T'"
    using that refs [OF that(2)] pipes_okD(1) [OF ok] b unfolding eq
    by (cases "p = unat b") (auto simp: q_def)
qed

subsection \<open>Attaching a descriptor to an open file\<close>

lemma fd_invD:
  assumes "fd_inv ext s t"
  shows "fd_wf s" and "pipes_ok t"
    and "\<And>T p. is_pipe_type T \<Longrightarrow> p < 16 \<Longrightarrow> pipe_refs T (g_pipes t ! p) = ext T p + pipe_fds s T p"
    and "\<And>T p. is_pipe_type T \<Longrightarrow> p < 16 \<Longrightarrow> ext T p < 2 ^ 31"
  using assms by (auto simp: fd_inv_def)

lemma unat_refs_inc:
  assumes "fd_wf s" "j < 32"
  shows "unat (of_refs (ofiles s ! j) + 1) = Suc (fd_count s j)"
  using assms fd_wfD(4) [OF assms] fd_count_le [OF assms(1), of j]
  by (subst unat_inc [where n = 33]) auto

lemma of_bool_cancel: "x + of_bool P = y + of_bool Q \<Longrightarrow> \<not> P \<Longrightarrow> x = y + of_bool Q"
  for x y :: nat
  by simp

text \<open>The new descriptor must be free; the open file is in use by another one.\<close>

lemma install_dup_wf:
  assumes wf: "fd_wf s" and i: "i < 32" "\<not> fe_used (fdtab s ! i)"
    and j: "unat idx = j" "j < 32" "of_used (ofiles s ! j)"
  shows "fd_wf (install_dup s i idx fl j)"
    and "pipe_fds (install_dup s i idx fl j) T p = pipe_fds s T p
      + of_bool (of_type (ofiles s ! j) = T \<and> unat (of_fs_backend (ofiles s ! j)) = p)"
proof -
  note D = fd_wfD [OF wf]
  let ?e = "\<lambda>_ :: fdent. \<lparr>fe_used = True, fe_ofile_idx = idx, fe_fd_flags = fl\<rparr>"
  have cnt: "fd_count (upd_fdent s i ?e) k = fd_count s k + of_bool (k = j)" for k
    using fd_count_upd_fdent [of i s ?e k] i D(2) j(1) by auto
  show "fd_wf (install_dup s i idx fl j)"
    unfolding fd_wf_def install_dup_def upd_sel fd_count_upd_ofile cnt
    using D i j unat_refs_inc [OF wf j(2)]
    by (auto simp: nth_list_update unat_eq_0_iff [symmetric] simp del: unat_eq_0_iff)
  have "pipe_fds (install_dup s i idx fl j) T p = pipe_fds (upd_fdent s i ?e) T p"
    unfolding install_dup_def by (rule pipe_fds_upd_ofile_same) simp_all
  with pipe_fds_upd_fdent [of i s ?e T p] i D(2) j(1)
  show "pipe_fds (install_dup s i idx fl j) T p = pipe_fds s T p
      + of_bool (of_type (ofiles s ! j) = T \<and> unat (of_fs_backend (ofiles s ! j)) = p)"
    by (auto simp: on_pipe_def)
qed

lemma attached_pipe_pos:
  assumes "fd_inv ext s t" "i < 32" "fe_used (fdtab s ! i)" "j = unat (fe_ofile_idx (fdtab s ! i))"
    and "is_pipe_type (of_type (ofiles s ! j))"
  shows "unat (of_fs_backend (ofiles s ! j)) < 16"
    and "0 < pipe_fds s (of_type (ofiles s ! j)) (unat (of_fs_backend (ofiles s ! j)))"
    and "0 < pipe_refs (of_type (ofiles s ! j)) (g_pipes t ! unat (of_fs_backend (ofiles s ! j)))"
proof -
  note wf = fd_invD(1) [OF assms(1)]
  note o = fd_used_ofile [OF wf assms(2-4)]
  show b: "unat (of_fs_backend (ofiles s ! j)) < 16"
    using fd_wfD(6) [OF wf o(1,2) assms(5)] .
  show pos: "0 < pipe_fds s (of_type (ofiles s ! j)) (unat (of_fs_backend (ofiles s ! j)))"
    unfolding pipe_fds_def using fd_wfD(2) [OF wf] assms(2-4)
    by (intro count_nth_pos [of i]) (auto simp: on_pipe_def)
  then show "0 < pipe_refs (of_type (ofiles s ! j)) (g_pipes t ! unat (of_fs_backend (ofiles s ! j)))"
    using fd_invD(3) [OF assms(1,5) b] by simp
qed

lemma attach_inv:
  assumes inv: "fd_inv ext s t" and i: "i < 32" "\<not> fe_used (fdtab s ! i)"
    and k: "k < 32" "fe_used (fdtab s ! k)" and j: "j = unat idx" "idx = fe_ofile_idx (fdtab s ! k)"
  shows "fd_inv ext (install_dup s i idx fl j)
    (sched_pipe_endpoint_inc (of_type (ofiles s ! j)) (of_fs_backend (ofiles s ! j)) t)"
proof -
  note wf = fd_invD(1) [OF inv] and ok = fd_invD(2) [OF inv]
  have j': "j = unat (fe_ofile_idx (fdtab s ! k))" using j by simp
  note o = fd_used_ofile [OF wf k j']
  note d = install_dup_wf [OF wf i j(1) [symmetric] o(1,2), of fl]
  let ?T = "of_type (ofiles s ! j)" and ?b = "of_fs_backend (ofiles s ! j)"
  show ?thesis
  proof (cases "is_pipe_type ?T")
    case False
    with d inv show ?thesis by (auto simp: fd_inv_def)
  next
    case True
    note a = attached_pipe_pos [OF inv k j' True]
    have "pipe_refs ?T (g_pipes t ! unat ?b) < 2 ^ 32 - 1"
      using fd_invD(3,4) [OF inv True a(1)] pipe_fds_le [OF wf, of ?T "unat ?b"] by simp
    note e = endpoint_inc_spec [OF ok True a(1) a(3) this]
    show ?thesis
      unfolding fd_inv_def using d e fd_invD(3,4) [OF inv] by auto
  qed
qed

subsection \<open>Closing a descriptor\<close>

lemma drop_ofile_ref_fields:
  assumes "of_refs f \<noteq> 0"
  shows "unat (of_refs (drop_ofile_ref f)) = unat (of_refs f) - 1"
    and "of_used f \<Longrightarrow> of_used (drop_ofile_ref f) \<longleftrightarrow> of_refs (drop_ofile_ref f) \<noteq> 0"
    and "of_refs (drop_ofile_ref f) \<noteq> 0 \<Longrightarrow> of_type (drop_ofile_ref f) = of_type f"
    and "of_refs (drop_ofile_ref f) \<noteq> 0 \<Longrightarrow> of_fs_backend (drop_ofile_ref f) = of_fs_backend f"
proof -
  show "unat (of_refs (drop_ofile_ref f)) = unat (of_refs f) - 1"
    using unat_dec [OF assms] assms by (auto simp: drop_ofile_ref_def sched_ofile_reset_def Let_def)
qed (use assms in \<open>auto simp: drop_ofile_ref_def sched_ofile_reset_def Let_def\<close>)

lemma close_slot_wf:
  assumes wf: "fd_wf s" and i: "i < 32" "fe_used (fdtab s ! i)"
    and j: "j = unat (fe_ofile_idx (fdtab s ! i))"
  defines "s' \<equiv> upd_ofile (upd_fdent s i sched_fdent_reset) j drop_ofile_ref"
  shows "fd_wf s'" and "pipe_fds s' T p = pipe_fds s T p
      - of_bool (of_type (ofiles s ! j) = T \<and> unat (of_fs_backend (ofiles s ! j)) = p)"
proof -
  note D = fd_wfD [OF wf] and o = fd_used_ofile [OF wf i j]
  let ?u = "upd_fdent s i sched_fdent_reset" and ?f = "drop_ofile_ref (ofiles s ! j)"
  note r = drop_ofile_ref_fields [OF o(3)]
  have cnt: "fd_count ?u k = fd_count s k - of_bool (k = j)" for k
    using fd_count_upd_fdent [of i s sched_fdent_reset k] i D(2) j o(4)
    by (auto simp: sched_fdent_reset_def)
  have refs: "unat (of_refs ?f) = fd_count ?u j" using r(1) D(4) [OF o(1)] cnt by simp
  show "fd_wf s'"
    unfolding fd_wf_def s'_def upd_sel fd_count_upd_ofile
  proof (intro conjI allI impI)
    fix k :: nat assume k: "k < 32"
    show "unat (of_refs ((ofiles s)[j := ?f] ! k)) = fd_count ?u k"
      using D(1,4) k o(1) refs cnt by (cases "k = j") auto
    show "of_used ((ofiles s)[j := ?f] ! k) \<longleftrightarrow> of_refs ((ofiles s)[j := ?f] ! k) \<noteq> 0"
      using D(1,5) k o(1,2) r(2) by (cases "k = j") auto
    show "unat (of_fs_backend ((ofiles s)[j := ?f] ! k)) < 16"
      if "of_used ((ofiles s)[j := ?f] ! k) \<and> is_pipe_type (of_type ((ofiles s)[j := ?f] ! k))"
      using that D(1,6) k o(1,2) r(2-4) by (cases "k = j") auto
    show "unat (fe_ofile_idx ((fdtab s)[i := sched_fdent_reset (fdtab s ! i)] ! k)) < 32"
      if "fe_used ((fdtab s)[i := sched_fdent_reset (fdtab s ! i)] ! k)"
      using that D(2,3) k i by (cases "k = i") (auto simp: sched_fdent_reset_def)
  qed (simp_all add: D)
  have "pipe_fds s' T p = pipe_fds ?u T p"
  proof (cases "of_refs ?f = 0")
    case True
    with refs have "fd_count ?u j = 0" by simp
    then show ?thesis unfolding s'_def by (rule pipe_fds_upd_ofile_free)
  next
    case False
    then show ?thesis unfolding s'_def using r(3,4) by (intro pipe_fds_upd_ofile_same) simp_all
  qed
  with pipe_fds_upd_fdent [of i s sched_fdent_reset T p] i D(2) j
  show "pipe_fds s' T p = pipe_fds s T p
      - of_bool (of_type (ofiles s ! j) = T \<and> unat (of_fs_backend (ofiles s ! j)) = p)"
    by (auto simp: on_pipe_def sched_fdent_reset_def)
qed

lemma close_fd_inv:
  assumes inv: "fd_inv ext s t" and c: "sched_slot_close_fd s t fd = (s', t', rc)"
  shows "fd_inv ext s' t'"
proof (cases "sched_slot_ofile_by_fd s fd")
  case None
  with inv c show ?thesis by (simp add: sched_slot_close_fd_def)
next
  case (Some j)
  note wf = fd_invD(1) [OF inv] and ok = fd_invD(2) [OF inv]
  note b = ofile_by_fd_SomeD [OF Some]
  let ?T = "of_type (ofiles s ! j)" and ?b = "of_fs_backend (ofiles s ! j)"
  note w = close_slot_wf [OF wf b(2,3,4)]
  from c Some have eq: "s' = upd_ofile (upd_fdent s (nat fd) sched_fdent_reset) j drop_ofile_ref"
      "t' = sched_pipe_endpoint_dec ?T ?b t"
    by (simp_all add: sched_slot_close_fd_def)
  show ?thesis
  proof (cases "is_pipe_type ?T")
    case False
    with w inv show ?thesis unfolding eq by (auto simp: fd_inv_def)
  next
    case True
    note a = attached_pipe_pos [OF inv b(2,3,4) True]
    note e = endpoint_dec_spec [OF ok True a(1,3)]
    show ?thesis
      unfolding eq fd_inv_def using w e fd_invD(3,4) [OF inv] a(2) by auto
  qed
qed

lemma close_fd_result:
  "fd_wf s \<Longrightarrow> sched_slot_close_fd s t fd = (s', t', rc) \<Longrightarrow>
    (rc = SCHED_FD_OK \<longleftrightarrow> 0 \<le> fd \<and> fd < 32 \<and> fe_used (fdtab s ! nat fd)) \<and>
    fdtab s' = (if rc = SCHED_FD_OK then (fdtab s)[nat fd := sched_fdent_reset (fdtab s ! nat fd)]
                else fdtab s)"
  by (auto simp: sched_slot_close_fd_def ofile_by_fd_wf split: if_splits)

lemma close_fds_loop_inv:
  "fd_inv ext s t \<Longrightarrow> close_fds_loop is s t = (s', t') \<Longrightarrow> fd_inv ext s' t'"
proof (induction "is" s t rule: close_fds_loop.induct)
  case (2 i "is" s t)
  show ?case
  proof (cases "fe_used (fdtab s ! i)")
    case True
    obtain s1 t1 rc where c: "sched_slot_close_fd s t (int i) = (s1, t1, rc)"
      by (cases "sched_slot_close_fd s t (int i)") auto
    with 2 True show ?thesis using close_fd_inv [OF 2(3) c] by simp
  next
    case False
    with 2 show ?thesis by simp
  qed
qed simp

lemma close_fds_loop_closes:
  "fd_inv ext s t \<Longrightarrow> set is \<subseteq> {..<32} \<Longrightarrow> close_fds_loop is s t = (s', t') \<Longrightarrow>
    i < 32 \<Longrightarrow> fe_used (fdtab s' ! i) \<longleftrightarrow> fe_used (fdtab s ! i) \<and> i \<notin> set is"
proof (induction "is" s t rule: close_fds_loop.induct)
  case (2 k "is" s t)
  note wf = fd_invD(1) [OF 2(3)]
  show ?case
  proof (cases "fe_used (fdtab s ! k)")
    case True
    obtain s1 t1 rc where c: "sched_slot_close_fd s t (int k) = (s1, t1, rc)"
      by (cases "sched_slot_close_fd s t (int k)") auto
    have k: "k < 32" using 2(4) by simp
    with close_fd_result [OF wf c] True
    have "fdtab s1 = (fdtab s)[k := sched_fdent_reset (fdtab s ! k)]" by simp
    moreover have "fe_used (fdtab s' ! i) \<longleftrightarrow> fe_used (fdtab s1 ! i) \<and> i \<notin> set is"
      using 2(1) [OF True c [symmetric] refl] close_fd_inv [OF 2(3) c] 2(4-6) True c by simp
    ultimately show ?thesis
      using fd_wfD(2) [OF wf] k by (auto simp: nth_list_update sched_fdent_reset_def)
  next
    case False
    with 2 show ?thesis by auto
  qed
qed simp

end
