(* ===== verification/Fd_Correct.thy ===== *)
theory Fd_Correct
  imports Fd_Inv
begin

text \<open>
  Correctness of the descriptor operations: every operation keeps the reference counts of open
  files and pipe ends exact (\<open>fd_inv\<close>), allocation takes the lowest free descriptor, a copied
  table is equal to its original, seeking never wraps, and pipe transfers are first-in
  first-out.
\<close>

subsection \<open>Opening\<close>

lemma install_open_wf:
  assumes wf: "fd_wf s" and i: "i < 32" "\<not> fe_used (fdtab s ! i)"
    and j: "j < 32" "\<not> of_used (ofiles s ! j)"
    and mk: "\<And>f. of_used (mk f) = of_used f" "\<And>f. of_refs (mk f) = of_refs f"
      "\<And>f. is_pipe_type (of_type (mk f)) \<Longrightarrow> unat (of_fs_backend (mk f)) < 16"
  shows "fd_wf (install_open s i j mk)"
    and "pipe_fds (install_open s i j mk) T p = pipe_fds s T p
      + of_bool (of_type (ofiles (install_open s i j mk) ! j) = T \<and>
                 unat (of_fs_backend (ofiles (install_open s i j mk) ! j)) = p)"
proof -
  note D = fd_wfD [OF wf]
  let ?e = "\<lambda>_ :: fdent. \<lparr>fe_used = True, fe_ofile_idx = of_nat j, fe_fd_flags = 0\<rparr>"
  let ?f = "\<lambda>f :: ofile. mk (f\<lparr>of_used := True, of_refs := 1\<rparr>)"
  let ?s1 = "upd_ofile s j ?f"
  have idx: "unat (of_nat j :: u32) = j" using j(1) by (simp add: unat_of_nat_u32)
  have zero: "fd_count s j = 0" using D(4,5) [OF j(1)] j(2) by auto
  have cnt: "fd_count (upd_fdent ?s1 i ?e) k = fd_count s k + of_bool (k = j)" for k
    using fd_count_upd_fdent [of i ?s1 ?e k] i D(2) idx by auto
  show "fd_wf (install_open s i j mk)"
    unfolding install_open_def fd_wf_def
  proof (intro conjI allI impI)
    fix k :: nat assume k: "k < 32"
    show "unat (of_refs (ofiles (upd_fdent ?s1 i ?e) ! k)) = fd_count (upd_fdent ?s1 i ?e) k"
      using D(1,4) k j zero cnt mk(2) by (cases "k = j") auto
    show "of_used (ofiles (upd_fdent ?s1 i ?e) ! k) \<longleftrightarrow>
        of_refs (ofiles (upd_fdent ?s1 i ?e) ! k) \<noteq> 0"
      using D(1,5) k j mk(1,2) by (cases "k = j") auto
    show "unat (of_fs_backend (ofiles (upd_fdent ?s1 i ?e) ! k)) < 16"
      if "of_used (ofiles (upd_fdent ?s1 i ?e) ! k) \<and>
          is_pipe_type (of_type (ofiles (upd_fdent ?s1 i ?e) ! k))"
      using that D(1,6) k j mk(3) by (cases "k = j") auto
    show "unat (fe_ofile_idx (fdtab (upd_fdent ?s1 i ?e) ! k)) < 32"
      if "fe_used (fdtab (upd_fdent ?s1 i ?e) ! k)"
      using that D(2,3) k i idx j by (cases "k = i") auto
  qed (simp_all add: D)
  have "pipe_fds ?s1 T p = pipe_fds s T p" by (rule pipe_fds_upd_ofile_free [OF zero])
  moreover have "pipe_fds (upd_fdent ?s1 i ?e) T p = pipe_fds ?s1 T p
      + of_bool (on_pipe ?s1 T p (?e (fdtab s ! i)))"
    using pipe_fds_upd_fdent [of i ?s1 ?e T p] i D(2) by (simp add: on_pipe_def)
  ultimately show "pipe_fds (install_open s i j mk) T p = pipe_fds s T p
      + of_bool (of_type (ofiles (install_open s i j mk) ! j) = T \<and>
                 unat (of_fs_backend (ofiles (install_open s i j mk) ! j)) = p)"
    using D(1) j(1) idx by (simp add: install_open_def on_pipe_def)
qed

lemma slot_open_inv:
  assumes inv: "fd_inv ext s t" and c: "slot_open mk s t = (s', t', rc)"
    and mk: "\<And>f. of_used (mk f) = of_used f" "\<And>f. of_refs (mk f) = of_refs f"
      "\<And>f. \<not> is_pipe_type (of_type (mk f))"
  shows "fd_inv ext s' t'"
proof -
  note wf = fd_invD(1) [OF inv]
  from c consider "s' = s" "t' = t" | i j where
      "sched_slot_find_free_fd s 0 = Some i" "sched_slot_find_free_ofile s = Some j"
      "s' = install_open s i j mk" "t' = t"
    by (auto simp: slot_open_def split: option.splits)
  then show ?thesis
  proof cases
    case 2
    then have i: "i < 32" "\<not> fe_used (fdtab s ! i)" and j: "j < 32" "\<not> of_used (ofiles s ! j)"
      by (auto simp: find_free_fd_Some dest: find_free_ofile_Some)
    have "\<And>f. is_pipe_type (of_type (mk f)) \<Longrightarrow> unat (of_fs_backend (mk f)) < 16"
      using mk(3) by blast
    note o = install_open_wf [OF wf i j mk(1,2) this]
    have "ofiles s' ! j = mk ((ofiles s ! j)\<lparr>of_used := True, of_refs := 1\<rparr>)"
      using fd_wfD(1) [OF wf] j by (simp add: 2 install_open_def)
    then have "\<not> is_pipe_type (of_type (ofiles s' ! j))" using mk(3) by simp
    then have "pipe_fds s' T p = pipe_fds s T p" if "is_pipe_type T" for T p
      using o(2) [of T p] that unfolding 2 by auto
    with o(1) inv show ?thesis unfolding 2 by (auto simp: fd_inv_def)
  qed (use inv in simp)
qed

subsection \<open>Updates that touch no count\<close>

lemma neutral_ofile_inv:
  assumes inv: "fd_inv ext s t"
    and f: "of_used (f (ofiles s ! j)) = of_used (ofiles s ! j)"
      "of_refs (f (ofiles s ! j)) = of_refs (ofiles s ! j)"
      "of_type (f (ofiles s ! j)) = of_type (ofiles s ! j)"
      "of_fs_backend (f (ofiles s ! j)) = of_fs_backend (ofiles s ! j)"
  shows "fd_inv ext (upd_ofile s j f) t"
proof -
  note wf = fd_invD(1) [OF inv] note D = fd_wfD [OF wf]
  have "of_used ((ofiles s)[j := f (ofiles s ! j)] ! k) = of_used (ofiles s ! k)"
    "of_refs ((ofiles s)[j := f (ofiles s ! j)] ! k) = of_refs (ofiles s ! k)"
    "of_type ((ofiles s)[j := f (ofiles s ! j)] ! k) = of_type (ofiles s ! k)"
    "of_fs_backend ((ofiles s)[j := f (ofiles s ! j)] ! k) = of_fs_backend (ofiles s ! k)" for k
    using f by (cases "k = j"; cases "j < length (ofiles s)"; simp add: list_update_beyond)+
  then have "fd_wf (upd_ofile s j f)"
    using wf by (simp add: fd_wf_def)
  then show ?thesis
    using inv f by (simp add: fd_inv_def pipe_fds_upd_ofile_same)
qed

lemma neutral_fdent_inv:
  assumes inv: "fd_inv ext s t" and i: "i < 32"
    and g: "fe_used (g (fdtab s ! i)) = fe_used (fdtab s ! i)"
      "fe_ofile_idx (g (fdtab s ! i)) = fe_ofile_idx (fdtab s ! i)"
  shows "fd_inv ext (upd_fdent s i g) t"
proof -
  note wf = fd_invD(1) [OF inv] note D = fd_wfD [OF wf]
  have "fd_count (upd_fdent s i g) k = fd_count s k" for k
    using fd_count_upd_fdent [of i s g k] i D(2) g by simp
  moreover have "pipe_fds (upd_fdent s i g) T p = pipe_fds s T p" for T p
    using pipe_fds_upd_fdent [of i s g T p] i D(2) g by (simp add: on_pipe_def)
  ultimately show ?thesis
    using inv D g i by (auto simp: fd_inv_def fd_wf_def nth_list_update)
qed

subsection \<open>Duplicating\<close>

lemma dup_min_inv:
  assumes inv: "fd_inv ext s t" and c: "slot_dup_min oldfd minfd fl s t = (s', t', rc)"
  shows "fd_inv ext s' t'"
proof -
  from c consider "s' = s" "t' = t" | i j where
      "sched_slot_ofile_by_fd s oldfd = Some j" "sched_slot_find_free_fd s (nat minfd) = Some i"
      "s' = install_dup s i (fe_ofile_idx (fdtab s ! nat oldfd)) (fl AND SCHED_FD_CLOEXEC) j"
      "t' = sched_pipe_endpoint_inc (of_type (ofiles s ! j)) (of_fs_backend (ofiles s ! j)) t"
    by (auto simp: slot_dup_min_def split: option.splits if_splits)
  then show ?thesis
  proof cases
    case 2
    note b = ofile_by_fd_SomeD [OF 2(1)]
    from 2(2) have i: "i < 32" "\<not> fe_used (fdtab s ! i)" by (auto simp: find_free_fd_Some)
    show ?thesis unfolding 2(3,4) by (rule attach_inv [OF inv i b(2,3,4) refl])
  qed (use inv in simp)
qed

text \<open>The lowest free descriptor at or above the requested minimum is taken, and it then refers
  to the open file of the old one.\<close>

lemma dup_min_result:
  assumes wf: "fd_wf s" and fd: "0 \<le> oldfd" "oldfd < 32" "fe_used (fdtab s ! nat oldfd)"
    and m: "0 \<le> minfd" "minfd < 32"
    and c: "slot_dup_min oldfd minfd fl s t = (s', t', rc)"
  shows "(rc = SCHED_FD_EMFILE \<and> (\<forall>k < 32. minfd \<le> int k \<longrightarrow> fe_used (fdtab s ! k))) \<or>
    (\<exists>i. rc = int i \<and> i < 32 \<and> minfd \<le> rc \<and> \<not> fe_used (fdtab s ! i) \<and>
       (\<forall>k < i. minfd \<le> int k \<longrightarrow> fe_used (fdtab s ! k)) \<and>
       sched_slot_ofile_by_fd s' rc = sched_slot_ofile_by_fd s oldfd)"
proof -
  define j where "j = unat (fe_ofile_idx (fdtab s ! nat oldfd))"
  have n: "nat oldfd < 32" using fd by linarith
  note o = fd_used_ofile [OF wf n fd(3) j_def]
  have look: "sched_slot_ofile_by_fd s oldfd = Some j"
    using fd ofile_by_fd_wf [OF wf, of oldfd] by (simp add: j_def)
  show ?thesis
  proof (cases "sched_slot_find_free_fd s (nat minfd)")
    case None
    with c look m have "rc = SCHED_FD_EMFILE" by (simp add: slot_dup_min_def)
    with None show ?thesis by (auto simp: find_free_fd_None)
  next
    case (Some i)
    then have i: "nat minfd \<le> i" "i < 32" "\<not> fe_used (fdtab s ! i)"
        "\<forall>k. nat minfd \<le> k \<and> k < i \<longrightarrow> fe_used (fdtab s ! k)" by (auto simp: find_free_fd_Some)
    from c look m Some have rc: "rc = int i"
      and s': "s' = install_dup s i (fe_ofile_idx (fdtab s ! nat oldfd)) (fl AND SCHED_FD_CLOEXEC) j"
      by (simp_all add: slot_dup_min_def)
    have wf': "fd_wf s'"
      unfolding s' by (rule install_dup_wf(1) [OF wf i(2,3) j_def [symmetric] o(1,2)])
    have "fdtab s' ! i = \<lparr>fe_used = True, fe_ofile_idx = fe_ofile_idx (fdtab s ! nat oldfd),
        fe_fd_flags = fl AND SCHED_FD_CLOEXEC\<rparr>"
      using fd_wfD(2) [OF wf] i(2) by (simp add: s' install_dup_def)
    then have "sched_slot_ofile_by_fd s' rc = Some j"
      using ofile_by_fd_wf [OF wf', of rc] i rc by (simp add: j_def)
    with rc i look m show ?thesis by (intro disjI2 exI [of _ i]) auto
  qed
qed

lemma dup2_inv:
  assumes inv: "fd_inv ext s t" and c: "slot_dup2 oldfd newfd s t = (s', t', rc)"
  shows "fd_inv ext s' t'"
proof (cases "(newfd < 0 \<or> newfd \<ge> 32) \<or> sched_slot_ofile_by_fd s oldfd = None \<or> oldfd = newfd")
  case True
  with c inv show ?thesis by (auto simp: slot_dup2_def split: option.splits if_splits)
next
  case False
  then obtain j where j: "sched_slot_ofile_by_fd s oldfd = Some j" by auto
  note b = ofile_by_fd_SomeD [OF j] and wf = fd_invD(1) [OF inv]
  have n: "nat newfd < 32" "nat newfd \<noteq> nat oldfd" using False b(1) by auto
  define st where "st = (if fe_used (fdtab s ! nat newfd)
    then (case sched_slot_close_fd s t newfd of (s', t', _) \<Rightarrow> (s', t')) else (s, t))"
  obtain s1 t1 where st: "st = (s1, t1)" by (cases st) auto
  have s1: "fd_inv ext s1 t1 \<and> \<not> fe_used (fdtab s1 ! nat newfd) \<and>
      fdtab s1 ! nat oldfd = fdtab s ! nat oldfd"
  proof (cases "fe_used (fdtab s ! nat newfd)")
    case True
    obtain rc1 where c1: "sched_slot_close_fd s t newfd = (s1, t1, rc1)"
      using st True by (cases "sched_slot_close_fd s t newfd") (auto simp: st_def)
    have "fdtab s1 = (fdtab s)[nat newfd := sched_fdent_reset (fdtab s ! nat newfd)]"
      using close_fd_result [OF wf c1] True False by auto
    with close_fd_inv [OF inv c1] n fd_wfD(2) [OF wf] show ?thesis
      by (simp add: sched_fdent_reset_def)
  qed (use inv st in \<open>auto simp: st_def\<close>)
  have eq: "s' = install_dup s1 (nat newfd) (fe_ofile_idx (fdtab s1 ! nat oldfd)) 0 j"
      "t' = sched_pipe_endpoint_inc (of_type (ofiles s1 ! j)) (of_fs_backend (ofiles s1 ! j)) t1"
    using c j False st by (auto simp: slot_dup2_def st_def [symmetric])
  show ?thesis
    unfolding eq using s1 b n
    by (intro attach_inv [where k = "nat oldfd"]) auto
qed

subsection \<open>Closing on exec, and closing everything\<close>

lemma close_cloexec_loop_inv:
  "fd_inv ext s t \<Longrightarrow> close_cloexec_loop is s t n = (s', t', n') \<Longrightarrow> fd_inv ext s' t'"
proof (induction "is" s t n rule: close_cloexec_loop.induct)
  case (2 i "is" s t n)
  obtain s1 t1 rc where c: "sched_slot_close_fd s t (int i) = (s1, t1, rc)"
    by (cases "sched_slot_close_fd s t (int i)") auto
  with 2 close_fd_inv [OF 2(4) c] show ?case by (auto split: if_splits)
qed simp

text \<open>After \<open>sched_slot_close_all_fds\<close> no descriptor is open, so the task no longer holds any
  pipe end: the pipe counts are those of the other tasks alone.\<close>

lemma close_all_spec:
  assumes inv: "fd_inv ext s t" and c: "sched_slot_close_all_fds s t = (s', t')"
  shows "fd_inv ext s' t'" and "\<forall>i < 32. \<not> fe_used (fdtab s' ! i)"
    and "\<forall>j < 32. \<not> of_used (ofiles s' ! j)" and "pipe_fds s' T p = 0"
proof -
  from c have loop: "close_fds_loop [0..<32] s t = (s', t')" by (simp add: sched_slot_close_all_fds_def)
  show inv': "fd_inv ext s' t'" by (rule close_fds_loop_inv [OF inv loop])
  note wf = fd_invD(1) [OF inv']
  show none: "\<forall>i < 32. \<not> fe_used (fdtab s' ! i)"
    using close_fds_loop_closes [OF inv _ loop] by (auto simp: atLeast0LessThan)
  then have none': "\<not> fe_used e" if "e \<in> set (fdtab s')" for e
    using that fd_wfD(2) [OF wf] by (auto simp: in_set_conv_nth)
  then have "fd_count s' j = 0" for j by (auto simp: fd_count_def filter_empty_conv)
  then show "\<forall>j < 32. \<not> of_used (ofiles s' ! j)"
    using fd_wfD(4,5) [OF wf] by (metis unat_eq_0_iff)
  show "pipe_fds s' T p = 0"
    using none' by (auto simp: pipe_fds_def on_pipe_def filter_empty_conv)
qed

subsection \<open>Creating a pipe\<close>

lemma upd_ofile_id: "f (ofiles s ! j) = ofiles s ! j \<Longrightarrow> upd_ofile s j f = s"
  by (simp add: upd_ofile_def)

lemma pipe_alloc_spec:
  assumes ok: "pipes_ok t"
    and a: "sched_pipe_alloc_locked t = (t', Some p)"
  shows "p < 16" and "\<not> p_used (g_pipes t ! p)"
    and "pipes_ok (upd_pipe t' p (\<lambda>q. q\<lparr>p_read_refs := 1, p_write_refs := 1\<rparr>))"
    and "is_pipe_type T \<Longrightarrow> q < 16 \<Longrightarrow>
      pipe_refs T (g_pipes (upd_pipe t' p (\<lambda>q. q\<lparr>p_read_refs := 1, p_write_refs := 1\<rparr>)) ! q)
        = pipe_refs T (g_pipes t ! q) + of_bool (q = p)"
    and "pipe_contents (g_pipes (upd_pipe t' p (\<lambda>q. q\<lparr>p_read_refs := 1, p_write_refs := 1\<rparr>)) ! p) = []"
proof -
  from a have t': "t' = upd_pipe t p (\<lambda>p. p\<lparr>p_used := True, p_read_refs := 0, p_write_refs := 0,
      p_head := 0, p_len := 0\<rparr>)"
    and p: "p < 16" "\<not> p_used (g_pipes t ! p)"
    by (auto simp: sched_pipe_alloc_locked_def find_upt_Some split: option.splits)
  show "p < 16" "\<not> p_used (g_pipes t ! p)" by fact+
  have zero: "pipe_refs T (g_pipes t ! p) = 0" for T
    using pipe_refs_used [OF ok p(1), of T] p(2) by auto
  note l = pipes_okD(1) [OF ok]
  show "pipes_ok (upd_pipe t' p (\<lambda>q. q\<lparr>p_read_refs := 1, p_write_refs := 1\<rparr>))"
    unfolding t' using ok p(1) by (auto simp: pipes_ok_def nth_list_update pipe_wf_def)
  show "pipe_refs T (g_pipes (upd_pipe t' p (\<lambda>q. q\<lparr>p_read_refs := 1, p_write_refs := 1\<rparr>)) ! q)
      = pipe_refs T (g_pipes t ! q) + of_bool (q = p)" if "q < 16"
    using zero [of T] l p(1) that by (cases "q = p") (auto simp: t' pipe_refs_def)
  show "pipe_contents (g_pipes (upd_pipe t' p (\<lambda>q. q\<lparr>p_read_refs := 1, p_write_refs := 1\<rparr>)) ! p) = []"
    using l p(1) by (simp add: t' pipe_contents_Nil)
qed

lemma slot_pipe_cases:
  assumes c: "slot_pipe s t = (s', t', r)" and ok: "pipes_ok t" and len: "length (ofiles s) = 32"
  obtains (fail) "s' = s" "pipes_ok t' \<and> t' = t" "r = (SCHED_FD_EMFILE, None)"
  | (made) rfd wfd rof wof p t1 where
      "rfd < wfd" "wfd < 32" "\<not> fe_used (fdtab s ! rfd)" "\<not> fe_used (fdtab s ! wfd)"
      "rof < 32" "wof < 32" "rof \<noteq> wof" "\<not> of_used (ofiles s ! rof)" "\<not> of_used (ofiles s ! wof)"
      "sched_pipe_alloc_locked t = (t1, Some p)"
      "s' = install_open (install_open s rfd rof (pipe_end TYPE_PIPE_READ SCHED_FD_O_RDONLY p))
              wfd wof (pipe_end TYPE_PIPE_WRITE SCHED_FD_O_WRONLY p)"
      "t' = upd_pipe t1 p (\<lambda>q. q\<lparr>p_read_refs := 1, p_write_refs := 1\<rparr>)"
      "r = (SCHED_FD_OK, Some (rfd, wfd))"
proof -
  have none: "t1 = t" if "sched_pipe_alloc_locked t = (t1, None)" for t1
    using that by (auto simp: sched_pipe_alloc_locked_def split: option.splits)
  have undo: "upd_ofile s j (\<lambda>f. f\<lparr>of_used := False\<rparr>) = s" if "sched_slot_find_free_ofile s = Some j" for j
    using find_free_ofile_Some [OF that] by (intro upd_ofile_id) simp
  have second: "j \<noteq> i \<and> j < 32 \<and> \<not> of_used (ofiles s ! j)"
    if "sched_slot_find_free_ofile s = Some i"
      "sched_slot_find_free_ofile (upd_ofile s i (\<lambda>f. f\<lparr>of_used := True\<rparr>)) = Some j" for i j
    using find_free_ofile_Some [OF that(1)] find_free_ofile_Some [OF that(2)]
    by (cases "j = i") (auto simp: len)
  have init: "sched_pipe_init_once t = t" using ok by simp
  show ?thesis
  proof (cases "sched_slot_find_free_fd s 0")
    case None
    with c ok show ?thesis by (intro fail) (simp_all add: slot_pipe_def)
  next
    case (Some rfd) note 1 = this
    show ?thesis
    proof (cases "sched_slot_find_free_fd s (rfd + 1)")
      case None
      with 1 c ok show ?thesis by (intro fail) (simp_all add: slot_pipe_def)
    next
      case (Some wfd) note 2 = this
      show ?thesis
      proof (cases "sched_slot_find_free_ofile s")
        case None
        with 1 2 c ok show ?thesis by (intro fail) (simp_all add: slot_pipe_def)
      next
        case (Some rof) note 3 = this
        show ?thesis
        proof (cases "sched_slot_find_free_ofile (upd_ofile s rof (\<lambda>f. f\<lparr>of_used := True\<rparr>))")
          case None
          with 1 2 3 c ok undo [OF 3] show ?thesis by (intro fail) (simp_all add: slot_pipe_def)
        next
          case (Some wof) note 4 = this
          obtain t1 po where 5: "sched_pipe_alloc_locked t = (t1, po)"
            by (cases "sched_pipe_alloc_locked t") auto
          show ?thesis
          proof (cases po)
            case None
            with 1 2 3 4 5 c ok undo [OF 3] init none show ?thesis
              by (intro fail) (simp_all add: slot_pipe_def)
          next
            case (Some p)
            have eq: "s' = install_open
                (install_open s rfd rof (pipe_end TYPE_PIPE_READ SCHED_FD_O_RDONLY p))
                wfd wof (pipe_end TYPE_PIPE_WRITE SCHED_FD_O_WRONLY p)"
              "t' = upd_pipe t1 p (\<lambda>q. q\<lparr>p_read_refs := 1, p_write_refs := 1\<rparr>)"
              "r = (SCHED_FD_OK, Some (rfd, wfd))"
              using c undo [OF 3] init by (simp_all add: slot_pipe_def 1 2 [simplified] 3 4 5 Some)
            show ?thesis
              by (rule made [OF _ _ _ _ _ _ _ _ _ 5 [unfolded Some] eq])
                (use 1 2 second [OF 3 4] find_free_ofile_Some [OF 3] in \<open>auto simp: find_free_fd_Some\<close>)
          qed
        qed
      qed
    qed
  qed
qed

lemma slot_pipe_inv:
  assumes inv: "fd_inv ext s t" and c: "slot_pipe s t = (s', t', r)"
  shows "fd_inv ext s' t'"
  using c fd_invD(2) [OF inv] fd_wfD(1) [OF fd_invD(1) [OF inv]]
proof (cases rule: slot_pipe_cases)
  case fail
  with inv show ?thesis by simp
next
  case (made rfd wfd rof wof p t1)
  note wf = fd_invD(1) [OF inv] and ok = fd_invD(2) [OF inv]
  note al = pipe_alloc_spec [OF ok made(10)]
  let ?R = "pipe_end TYPE_PIPE_READ SCHED_FD_O_RDONLY p" and ?W = "pipe_end TYPE_PIPE_WRITE SCHED_FD_O_WRONLY p"
  let ?s1 = "install_open s rfd rof ?R"
  have mk: "of_used (pipe_end T fl p f) = of_used f" "of_refs (pipe_end T fl p f) = of_refs f"
      "of_type (pipe_end T fl p f) = T" "unat (of_fs_backend (pipe_end T fl p f)) = p" for T fl f
    using al(1) by (simp_all add: pipe_end_def unat_of_nat_u32)
  have r: "rfd < 32" using made(1,2) by simp
  have "\<And>f. is_pipe_type (of_type (?R f)) \<Longrightarrow> unat (of_fs_backend (?R f)) < 16"
    using mk al(1) by simp
  note o1 = install_open_wf [OF wf r made(3,5,8) mk(1,2) this]
  have s1: "\<not> fe_used (fdtab ?s1 ! wfd)" "\<not> of_used (ofiles ?s1 ! wof)" "of_type (ofiles ?s1 ! rof) = TYPE_PIPE_READ"
    "unat (of_fs_backend (ofiles ?s1 ! rof)) = p"
    using made(1,4,5,7,9) fd_wfD(1,2) [OF wf] mk by (simp_all add: install_open_def)
  have "\<And>f. is_pipe_type (of_type (?W f)) \<Longrightarrow> unat (of_fs_backend (?W f)) < 16"
    using mk al(1) by simp
  note o2 = install_open_wf [OF o1(1) made(2) s1(1) made(6) s1(2) mk(1,2) this]
  have s2: "of_type (ofiles s' ! wof) = TYPE_PIPE_WRITE" "unat (of_fs_backend (ofiles s' ! wof)) = p"
    using made(6) fd_wfD(1) [OF o1(1)] mk unfolding made(11)
    by (simp_all add: install_open_def [of ?s1])
  have "pipe_fds s' T q = pipe_fds s T q + of_bool (q = p)" if "is_pipe_type T" for T q
    using o1(2) [of T q] o2(2) [of T q] s1 s2 that unfolding made(11) by auto
  with o2(1) al inv show ?thesis unfolding made(11,12) fd_inv_def by auto
qed

subsection \<open>Copying a table\<close>

definition same_but_refs :: "ofile \<Rightarrow> ofile \<Rightarrow> bool" where
  "same_but_refs f g \<longleftrightarrow> g = f\<lparr>of_refs := of_refs g\<rparr>"

lemma same_but_refs_refl [simp]: "same_but_refs f f"
  by (simp add: same_but_refs_def)

lemma same_but_refs_upd: "same_but_refs f g \<Longrightarrow> same_but_refs f (g\<lparr>of_refs := r\<rparr>)"
  by (cases f; cases g) (simp add: same_but_refs_def)

lemma same_but_refs_trans: "same_but_refs f g \<Longrightarrow> same_but_refs g h \<Longrightarrow> same_but_refs f h"
  by (cases f; cases g; cases h) (simp add: same_but_refs_def)

lemma same_but_refsD:
  assumes "same_but_refs f g"
  shows "of_used g = of_used f" "of_type g = of_type f" "of_fs_backend g = of_fs_backend f"
  by (subst assms [unfolded same_but_refs_def], simp)+

text \<open>The counting loop of the copy: it succeeds, changes reference counts only, and adds to
  each open file and to each pipe end the number of descriptors it visited on it.\<close>

lemma clone_loop_spec:
  assumes "length (ofiles s) = 32" and "pipes_ok t" and "set is \<subseteq> {..<32}"
    and "\<And>i. i \<in> set is \<Longrightarrow> fe_used (fdtab s ! i) \<Longrightarrow>
      unat (fe_ofile_idx (fdtab s ! i)) < 32 \<and>
      of_used (ofiles s ! unat (fe_ofile_idx (fdtab s ! i)))"
    and "\<And>i T p. i \<in> set is \<Longrightarrow> on_pipe s T p (fdtab s ! i) \<Longrightarrow> is_pipe_type T \<Longrightarrow>
      p < 16 \<and> 0 < pipe_refs T (g_pipes t ! p)"
    and "\<And>T p. is_pipe_type T \<Longrightarrow> p < 16 \<Longrightarrow> pipe_refs T (g_pipes t ! p) + length is < 2 ^ 32 - 1"
    and "\<And>j. j < 32 \<Longrightarrow> unat (of_refs (ofiles s ! j)) + length is < 2 ^ 32 - 1"
    and "clone_count_loop is s t = (s', t', rc)"
  shows "rc = SCHED_FD_OK \<and> fdtab s' = fdtab s \<and> length (ofiles s') = 32 \<and> pipes_ok t' \<and>
    (\<forall>j < 32. same_but_refs (ofiles s ! j) (ofiles s' ! j) \<and>
       unat (of_refs (ofiles s' ! j)) = unat (of_refs (ofiles s ! j)) +
         length (filter (\<lambda>i. fe_used (fdtab s ! i) \<and> unat (fe_ofile_idx (fdtab s ! i)) = j) is)) \<and>
    (\<forall>T p. is_pipe_type T \<longrightarrow> p < 16 \<longrightarrow> pipe_refs T (g_pipes t' ! p) =
       pipe_refs T (g_pipes t ! p) + length (filter (\<lambda>i. on_pipe s T p (fdtab s ! i)) is))"
  using assms
proof (induction "is" arbitrary: s t)
  case Nil
  then show ?case by simp
next
  case (Cons i "is")
  define j where "j = unat (fe_ofile_idx (fdtab s ! i))"
  show ?case
  proof (cases "fe_used (fdtab s ! i)")
    case False
    with Cons.prems(8) have c: "clone_count_loop is s t = (s', t', rc)" by (simp add: Let_def)
    have off: "\<not> on_pipe s T p (fdtab s ! i)" for T p using False by (simp add: on_pipe_def)
    have 3: "set is \<subseteq> {..<32}" using Cons.prems(3) by simp
    have 4: "unat (fe_ofile_idx (fdtab s ! k)) < 32 \<and> of_used (ofiles s ! unat (fe_ofile_idx (fdtab s ! k)))"
      if "k \<in> set is" "fe_used (fdtab s ! k)" for k
      using Cons.prems(4) [of k] that by simp
    have 5: "p < 16 \<and> 0 < pipe_refs T (g_pipes t ! p)"
      if "k \<in> set is" "on_pipe s T p (fdtab s ! k)" "is_pipe_type T" for k T p
      using Cons.prems(5) [of k T p] that by auto
    have 6: "pipe_refs T (g_pipes t ! p) + length is < 2 ^ 32 - 1"
      if "is_pipe_type T" "p < 16" for T p
      using Cons.prems(6) [OF that] by simp
    have 7: "unat (of_refs (ofiles s ! k)) + length is < 2 ^ 32 - 1" if "k < 32" for k
      using Cons.prems(7) [OF that] by simp
    from Cons.IH [OF Cons.prems(1,2) 3 4 5 6 7 c] False off show ?thesis by simp
  next
    case True
    let ?T = "of_type (ofiles s ! j)" and ?b = "of_fs_backend (ofiles s ! j)"
    let ?s1 = "upd_ofile s j (\<lambda>f. f\<lparr>of_refs := of_refs f + 1\<rparr>)"
    let ?t1 = "sched_pipe_endpoint_inc ?T ?b t"
    have j: "j < 32" "of_used (ofiles s ! j)" using Cons.prems(4) [of i] True by (auto simp: j_def)
    have c: "clone_count_loop is ?s1 ?t1 = (s', t', rc)"
      using Cons.prems(1,8) True j by (simp add: Let_def j_def [symmetric])
    have on: "on_pipe ?s1 T p e = on_pipe s T p e" for T p e
      using Cons.prems(1) j
      by (cases "unat (fe_ofile_idx e) = j") (auto simp: on_pipe_def)
    have onj: "on_pipe s T p (fdtab s ! i) \<longleftrightarrow> T = ?T \<and> p = unat ?b" for T p
      using True by (auto simp: on_pipe_def j_def)
    have t1: "pipes_ok ?t1 \<and> (\<forall>T p. is_pipe_type T \<longrightarrow> p < 16 \<longrightarrow>
        pipe_refs T (g_pipes ?t1 ! p) = pipe_refs T (g_pipes t ! p) + of_bool (T = ?T \<and> p = unat ?b))"
    proof (cases "is_pipe_type ?T")
      case False
      with Cons.prems(2) show ?thesis by auto
    next
      case pipe: True
      have b: "unat ?b < 16 \<and> 0 < pipe_refs ?T (g_pipes t ! unat ?b)"
        using Cons.prems(5) [of i ?T "unat ?b"] onj pipe by auto
      then have "pipe_refs ?T (g_pipes t ! unat ?b) < 2 ^ 32 - 1"
        using Cons.prems(6) [OF pipe, of "unat ?b"] by simp
      with endpoint_inc_spec [OF Cons.prems(2) pipe _ _ this] b show ?thesis by simp
    qed
    have r1: "unat (of_refs (ofiles ?s1 ! k)) = unat (of_refs (ofiles s ! k)) + of_bool (k = j)"
      and same: "same_but_refs (ofiles s ! k) (ofiles ?s1 ! k)" if "k < 32" for k
    proof -
      have "unat (of_refs (ofiles s ! j) + 1) = Suc (unat (of_refs (ofiles s ! j)))"
        using Cons.prems(7) [OF j(1)] by (intro unat_inc [where n = "2 ^ 32 - 1"]) auto
      then show "unat (of_refs (ofiles ?s1 ! k)) = unat (of_refs (ofiles s ! k)) + of_bool (k = j)"
        using Cons.prems(1) that by (cases "k = j") auto
      show "same_but_refs (ofiles s ! k) (ofiles ?s1 ! k)"
        using Cons.prems(1) that by (cases "k = j") (auto simp: same_but_refs_upd)
    qed
    have 3: "set is \<subseteq> {..<32}" using Cons.prems(3) by simp
    have 4: "unat (fe_ofile_idx (fdtab ?s1 ! k)) < 32 \<and>
        of_used (ofiles ?s1 ! unat (fe_ofile_idx (fdtab ?s1 ! k)))"
      if "k \<in> set is" "fe_used (fdtab ?s1 ! k)" for k
      using Cons.prems(4) [of k] that same_but_refsD(1) [OF same] by simp
    have 5: "p < 16 \<and> 0 < pipe_refs T (g_pipes ?t1 ! p)"
      if "k \<in> set is" "on_pipe ?s1 T p (fdtab ?s1 ! k)" "is_pipe_type T" for k T p
      using Cons.prems(5) [of k T p] that t1 on by auto
    have 6: "pipe_refs T (g_pipes ?t1 ! p) + length is < 2 ^ 32 - 1"
      if "is_pipe_type T" "p < 16" for T p
      using Cons.prems(6) [OF that] t1 that by auto
    have 7: "unat (of_refs (ofiles ?s1 ! k)) + length is < 2 ^ 32 - 1" if "k < 32" for k
      using Cons.prems(7) [OF that] r1 [OF that] by (cases "k = j") auto
    have 1: "length (ofiles ?s1) = 32" using Cons.prems(1) by simp
    have IH: "rc = SCHED_FD_OK \<and> fdtab s' = fdtab ?s1 \<and> length (ofiles s') = 32 \<and> pipes_ok t' \<and>
      (\<forall>j < 32. same_but_refs (ofiles ?s1 ! j) (ofiles s' ! j) \<and>
         unat (of_refs (ofiles s' ! j)) = unat (of_refs (ofiles ?s1 ! j)) +
           length (filter (\<lambda>i. fe_used (fdtab ?s1 ! i) \<and> unat (fe_ofile_idx (fdtab ?s1 ! i)) = j) is)) \<and>
      (\<forall>T p. is_pipe_type T \<longrightarrow> p < 16 \<longrightarrow> pipe_refs T (g_pipes t' ! p) =
         pipe_refs T (g_pipes ?t1 ! p) + length (filter (\<lambda>i. on_pipe ?s1 T p (fdtab ?s1 ! i)) is))"
      by (rule Cons.IH [OF 1 conjunct1 [OF t1] 3 _ _ _ _ c]; (rule 4 5 6 7; assumption))
    have sb: "same_but_refs (ofiles s ! k) (ofiles s' ! k)" if "k < 32" for k
      using IH same_but_refs_trans [OF same [OF that]] that by blast
    have refs: "unat (of_refs (ofiles s' ! k)) = unat (of_refs (ofiles s ! k)) + length
        (filter (\<lambda>i. fe_used (fdtab s ! i) \<and> unat (fe_ofile_idx (fdtab s ! i)) = k) (i # is))"
      if "k < 32" for k
    proof -
      from IH that have "unat (of_refs (ofiles s' ! k)) = unat (of_refs (ofiles ?s1 ! k)) + length
          (filter (\<lambda>i. fe_used (fdtab ?s1 ! i) \<and> unat (fe_ofile_idx (fdtab ?s1 ! i)) = k) is)"
        by blast
      also note r1 [OF that]
      finally show ?thesis using True by (simp add: j_def)
    qed
    have pipes: "pipe_refs T (g_pipes t' ! p) = pipe_refs T (g_pipes t ! p) +
        length (filter (\<lambda>i. on_pipe s T p (fdtab s ! i)) (i # is))"
      if "is_pipe_type T" "p < 16" for T p
    proof -
      from IH that have "pipe_refs T (g_pipes t' ! p) = pipe_refs T (g_pipes ?t1 ! p) +
          length (filter (\<lambda>i. on_pipe ?s1 T p (fdtab ?s1 ! i)) is)"
        by blast
      also have "pipe_refs T (g_pipes ?t1 ! p) =
          pipe_refs T (g_pipes t ! p) + of_bool (T = ?T \<and> p = unat ?b)"
        using t1 that by blast
      finally show ?thesis using onj [of T p] by (simp add: on)
    qed
    from IH have "rc = SCHED_FD_OK" "fdtab s' = fdtab s" "length (ofiles s') = 32" "pipes_ok t'"
      by simp_all
    with sb refs pipes show ?thesis by blast
  qed
qed

text \<open>The copy of a well-formed table succeeds and equals the original in every field of every
  open file but \<open>sock_ptr\<close>, which keeps the value it had in the destination.\<close>

lemma clone_spec:
  assumes inv: "fd_inv ext src t" and len: "length (ofiles dst) = 32" "length (fdtab dst) = 32"
    and small: "\<And>T p. is_pipe_type T \<Longrightarrow> p < 16 \<Longrightarrow> ext T p < 2 ^ 30"
    and c: "sched_fd_table_clone dst src t = (d, t', rc)"
  shows "rc = SCHED_FD_OK" and "fdtab d = fdtab src"
    and "\<And>j. j < 32 \<Longrightarrow> ofiles d ! j = (ofiles src ! j)\<lparr>of_sock_ptr := of_sock_ptr (ofiles dst ! j)\<rparr>"
    and "\<And>T p. pipe_fds d T p = pipe_fds src T p"
    and "fd_inv (\<lambda>T p. ext T p + pipe_fds src T p) d t'"
    and "fd_inv (\<lambda>T p. ext T p + pipe_fds d T p) src t'"
proof -
  note wf = fd_invD(1) [OF inv] and ok = fd_invD(2) [OF inv] note D = fd_wfD [OF wf]
  define s where "s = (sched_fd_table_clear dst)\<lparr>ofiles :=
      map2 clone_ofile (ofiles (sched_fd_table_clear dst)) (ofiles src), fdtab := fdtab src\<rparr>"
  have loop: "clone_count_loop [0..<32] s t = (d, t', rc)"
    using c by (simp add: sched_fd_table_clone_def s_def Let_def)
  have tab: "fdtab s = fdtab src" and slen: "length (ofiles s) = 32"
    using len D(1) by (simp_all add: s_def sched_fd_table_clear_def)
  have sof: "ofiles s ! j = (ofiles src ! j)\<lparr>of_refs := 0, of_sock_ptr := of_sock_ptr (ofiles dst ! j)\<rparr>"
    if "j < 32" for j
    using len D(1) that by (simp add: s_def sched_fd_table_clear_def clone_ofile_def sched_ofile_reset_def)
  have on: "on_pipe s T p (fdtab src ! i) = on_pipe src T p (fdtab src ! i)" if "i < 32" for i T p
    using sof [of "unat (fe_ofile_idx (fdtab src ! i))"] D(3) [OF that] by (auto simp: on_pipe_def)
  have bound: "pipe_refs T (g_pipes t ! p) + length [0..<32] < 2 ^ 32 - 1"
    if "is_pipe_type T" "p < 16" for T p
    using fd_invD(3) [OF inv that] small [OF that] pipe_fds_le [OF wf, of T p] by simp
  have L: "rc = SCHED_FD_OK \<and> fdtab d = fdtab s \<and> length (ofiles d) = 32 \<and> pipes_ok t' \<and>
    (\<forall>j < 32. same_but_refs (ofiles s ! j) (ofiles d ! j) \<and>
       unat (of_refs (ofiles d ! j)) = unat (of_refs (ofiles s ! j)) +
         length (filter (\<lambda>i. fe_used (fdtab s ! i) \<and> unat (fe_ofile_idx (fdtab s ! i)) = j) [0..<32])) \<and>
    (\<forall>T p. is_pipe_type T \<longrightarrow> p < 16 \<longrightarrow> pipe_refs T (g_pipes t' ! p) =
       pipe_refs T (g_pipes t ! p) + length (filter (\<lambda>i. on_pipe s T p (fdtab s ! i)) [0..<32]))"
  proof (rule clone_loop_spec [OF slen ok _ _ _ bound _ loop])
    show "unat (fe_ofile_idx (fdtab s ! i)) < 32 \<and> of_used (ofiles s ! unat (fe_ofile_idx (fdtab s ! i)))"
      if "i \<in> set [0..<32]" "fe_used (fdtab s ! i)" for i
      using fd_used_ofile [OF wf, of i] that sof tab by simp
    show "p < 16 \<and> 0 < pipe_refs T (g_pipes t ! p)"
      if "i \<in> set [0..<32]" "on_pipe s T p (fdtab s ! i)" "is_pipe_type T" for i T p
      using that attached_pipe_pos [OF inv, of i] on [of i T p] tab
      by (auto simp: on_pipe_def)
    show "unat (of_refs (ofiles s ! j)) + length [0..<32] < 2 ^ 32 - 1" if "j < 32" for j
      using sof [OF that] by simp
  qed (auto simp: subset_iff)
  from L tab show rc: "rc = SCHED_FD_OK" and tabd: "fdtab d = fdtab src" by simp_all
  have refs: "unat (of_refs (ofiles d ! j)) = fd_count src j" if "j < 32" for j
    using L that sof [OF that] tab D(2)
      count_upt_nth [of "\<lambda>e. fe_used e \<and> unat (fe_ofile_idx e) = j" "fdtab src"]
    by (simp add: fd_count_def)
  show ofd: "ofiles d ! j = (ofiles src ! j)\<lparr>of_sock_ptr := of_sock_ptr (ofiles dst ! j)\<rparr>"
    if "j < 32" for j
  proof -
    have "of_refs (ofiles d ! j) = of_refs (ofiles src ! j)"
      using refs [OF that] D(4) [OF that] by (simp add: word_unat_eq_iff)
    moreover have "ofiles d ! j = (ofiles s ! j)\<lparr>of_refs := of_refs (ofiles d ! j)\<rparr>"
      using L that unfolding same_but_refs_def by blast
    ultimately show ?thesis using sof [OF that] by (cases "ofiles src ! j") simp
  qed
  have ond: "on_pipe d T p e = on_pipe src T p e" if "e \<in> set (fdtab src)" for T p e
  proof -
    from that obtain i where "i < 32" "e = fdtab src ! i" using D(2) by (auto simp: in_set_conv_nth)
    then show ?thesis using ofd [of "unat (fe_ofile_idx e)"] D(3) [of i] by (auto simp: on_pipe_def)
  qed
  show pfd: "pipe_fds d T p = pipe_fds src T p" for T p
    unfolding pipe_fds_def tabd using ond by (intro arg_cong [where f = length] filter_cong) auto
  have cnt: "fd_count d j = fd_count src j" for j by (simp add: fd_count_def tabd)
  have wfd: "fd_wf d"
    using wf L refs ofd by (auto simp: fd_wf_def tabd cnt)
  have visited: "length (filter (\<lambda>i. on_pipe s T p (fdtab s ! i)) [0..<32]) = pipe_fds src T p" for T p
  proof -
    have "filter (\<lambda>i. on_pipe s T p (fdtab s ! i)) [0..<32] = filter (\<lambda>i. on_pipe src T p (fdtab src ! i)) [0..<32]"
      using on by (intro filter_cong) (auto simp: tab)
    then show ?thesis
      using count_upt_nth [of "on_pipe src T p" "fdtab src"] D(2) by (simp add: pipe_fds_def)
  qed
  have pr: "pipe_refs T (g_pipes t' ! p) = ext T p + pipe_fds src T p + pipe_fds src T p"
    if "is_pipe_type T" "p < 16" for T p
  proof -
    from L that have "pipe_refs T (g_pipes t' ! p) =
       pipe_refs T (g_pipes t ! p) + length (filter (\<lambda>i. on_pipe s T p (fdtab s ! i)) [0..<32])"
      by blast
    then show ?thesis using fd_invD(3) [OF inv that] by (simp add: visited)
  qed
  have lim: "ext T p + pipe_fds src T p < 2 ^ 31" if "is_pipe_type T" "p < 16" for T p
    using small [OF that] pipe_fds_le [OF wf, of T p] by simp
  show "fd_inv (\<lambda>T p. ext T p + pipe_fds src T p) d t'"
    unfolding fd_inv_def using wfd L pr pfd lim by auto
  show "fd_inv (\<lambda>T p. ext T p + pipe_fds d T p) src t'"
    unfolding fd_inv_def using wf L pr pfd lim by auto
qed

subsection \<open>Standard descriptors\<close>

lemma init_stdio_spec:
  assumes len: "length (ofiles s) = 32" "length (fdtab s) = 32"
    and c: "sched_fd_table_init_stdio s t = (s', t')"
  shows "fd_wf s'" and "is_pipe_type T \<Longrightarrow> pipe_fds s' T p = 0"
    and "t' = sched_pipe_init_once t"
    and "map (\<lambda>fd. map_option (\<lambda>j. of_type (ofiles s' ! j)) (sched_slot_ofile_by_fd s' fd)) [0, 1, 2, 3]
      = [Some TYPE_STDIN, Some TYPE_STDOUT, Some TYPE_STDERR, None]"
proof -
  define r where "r = sched_fd_table_clear s"
  have r: "length (ofiles r) = 32" "length (fdtab r) = 32"
      "\<And>i. i < 32 \<Longrightarrow> \<not> fe_used (fdtab r ! i)" "\<And>j. j < 32 \<Longrightarrow> \<not> of_used (ofiles r ! j)"
      "\<And>j. j < 32 \<Longrightarrow> of_refs (ofiles r ! j) = 0"
    using len by (simp_all add: r_def sched_fd_table_clear_def sched_fdent_reset_def sched_ofile_reset_def)
  have none: "\<not> fe_used e" if "e \<in> set (fdtab r)" for e
    using that r(2,3) by (auto simp: in_set_conv_nth)
  then have "fd_count r j = 0" "pipe_fds r T p = 0" for j T p
    by (auto simp: fd_count_def pipe_fds_def on_pipe_def filter_empty_conv)
  then have wfr: "fd_wf r" using r by (simp add: fd_wf_def)
  define mk where "mk = (\<lambda>(T :: fd_type) (fl :: u32) f :: ofile. f\<lparr>of_type := T, of_status_flags := fl\<rparr>)"
  have step: "fd_wf (open_stdio n T fl q) \<and>
      (\<forall>T' p. is_pipe_type T' \<longrightarrow> pipe_fds (open_stdio n T fl q) T' p = pipe_fds q T' p)"
    if wf: "fd_wf q" and n: "n < 32" "\<not> fe_used (fdtab q ! n)" "\<not> of_used (ofiles q ! n)"
      and flg: "fe_fd_flags (fdtab q ! n) = 0" and T: "\<not> is_pipe_type T" for q n T fl
  proof -
    have eq: "open_stdio n T fl q = install_open q n n (mk T fl)"
      using flg by (cases "fdtab q ! n") (simp add: open_stdio_def install_open_def mk_def upd_fdent_def upd_ofile_def)
    have m: "of_used (mk T fl f) = of_used f" "of_refs (mk T fl f) = of_refs f" "of_type (mk T fl f) = T" for f
      by (simp_all add: mk_def)
    have "\<And>f. is_pipe_type (of_type (mk T fl f)) \<Longrightarrow> unat (of_fs_backend (mk T fl f)) < 16"
      using m(3) T by simp
    note o = install_open_wf [OF wf n(1,2,1,3) m(1,2) this]
    have "of_type (ofiles (install_open q n n (mk T fl)) ! n) = T"
      using fd_wfD(1) [OF wf] n(1) m(3) by (simp add: install_open_def)
    with o T show ?thesis unfolding eq by auto
  qed
  have flags: "fe_fd_flags (fdtab r ! i) = 0" if "i < 32" for i
    using that len by (simp add: r_def sched_fd_table_clear_def sched_fdent_reset_def)
  let ?s0 = "open_stdio 0 TYPE_STDIN SCHED_FD_O_RDONLY r"
  let ?s1 = "open_stdio 1 TYPE_STDOUT SCHED_FD_O_WRONLY ?s0"
  let ?s2 = "open_stdio 2 TYPE_STDERR SCHED_FD_O_WRONLY ?s1"
  have eq: "s' = ?s2" and t': "t' = sched_pipe_init_once t"
    using c by (simp_all add: sched_fd_table_init_stdio_def r_def)
  have s0: "fd_wf ?s0 \<and> (\<forall>T' p. is_pipe_type T' \<longrightarrow> pipe_fds ?s0 T' p = pipe_fds r T' p)"
    using wfr r flags by (intro step) simp_all
  have s1: "fd_wf ?s1 \<and> (\<forall>T' p. is_pipe_type T' \<longrightarrow> pipe_fds ?s1 T' p = pipe_fds ?s0 T' p)"
    using s0 r flags by (intro step) (simp_all add: open_stdio_def)
  have s2: "fd_wf ?s2 \<and> (\<forall>T' p. is_pipe_type T' \<longrightarrow> pipe_fds ?s2 T' p = pipe_fds ?s1 T' p)"
    using s1 r flags by (intro step) (simp_all add: open_stdio_def)
  show "fd_wf s'" using s2 eq by simp
  show "pipe_fds s' T p = 0" if "is_pipe_type T"
    using that s0 s1 s2 eq \<open>\<And>T p. pipe_fds r T p = 0\<close> by auto
  show "t' = sched_pipe_init_once t" by (rule t')
  show "map (\<lambda>fd. map_option (\<lambda>j. of_type (ofiles s' ! j)) (sched_slot_ofile_by_fd s' fd)) [0, 1, 2, 3]
      = [Some TYPE_STDIN, Some TYPE_STDOUT, Some TYPE_STDERR, None]"
    using r unfolding eq by (simp add: sched_slot_ofile_by_fd_def open_stdio_def Let_def)
qed

subsection \<open>Duplicating onto a descriptor\<close>

lemma close_fd_ofile_other:
  assumes c: "sched_slot_close_fd s t fd = (s', t', rc)" and o: "sched_slot_ofile_by_fd s fd \<noteq> Some j"
  shows "ofiles s' ! j = ofiles s ! j"
  using c o by (auto simp: sched_slot_close_fd_def split: option.splits)

lemma drop_ofile_ref_keeps:
  "unat (of_refs f) \<noteq> 1 \<Longrightarrow> of_refs f \<noteq> 0 \<Longrightarrow> same_but_refs f (drop_ofile_ref f)"
proof -
  assume "unat (of_refs f) \<noteq> 1" "of_refs f \<noteq> 0"
  then have "of_refs f \<noteq> 0" "of_refs f \<noteq> 1" by auto
  then show ?thesis by (simp add: drop_ofile_ref_def same_but_refs_def)
qed

lemma fd_count_two:
  assumes "i < length (fdtab s)" "k < length (fdtab s)" "i \<noteq> k"
    and "fe_used (fdtab s ! i)" "unat (fe_ofile_idx (fdtab s ! i)) = j"
    and "fe_used (fdtab s ! k)" "unat (fe_ofile_idx (fdtab s ! k)) = j"
  shows "2 \<le> fd_count s j"
proof -
  let ?g = "\<lambda>e. e\<lparr>fe_used := False\<rparr>"
  have "fd_count (upd_fdent s i ?g) j + 1 = fd_count s j"
    using fd_count_upd_fdent [of i s ?g j] assms by simp
  moreover have "0 < fd_count (upd_fdent s i ?g) j"
    using fd_count_pos [of k "upd_fdent s i ?g"] assms by auto
  ultimately show ?thesis by linarith
qed

lemma close_fd_keeps_shared:
  assumes wf: "fd_wf s" and c: "sched_slot_close_fd s t fd = (s', t', rc)"
    and o: "sched_slot_ofile_by_fd s other = Some j" and ne: "fd \<noteq> other"
  shows "same_but_refs (ofiles s ! j) (ofiles s' ! j)"
proof (cases "sched_slot_ofile_by_fd s fd = Some j")
  case False
  then show ?thesis using close_fd_ofile_other [OF c] by (simp add: same_but_refs_def)
next
  case True
  note D = fd_wfD [OF wf] and a = ofile_by_fd_SomeD [OF True] and b = ofile_by_fd_SomeD [OF o]
  have "2 \<le> fd_count s j"
    using fd_count_two [of "nat fd" s "nat other" j] a b ne D by auto
  with D(4) [of j] a have "2 \<le> unat (of_refs (ofiles s ! j))" by auto
  then have "same_but_refs (ofiles s ! j) (drop_ofile_ref (ofiles s ! j))"
    by (intro drop_ofile_ref_keeps) auto
  with True c a D(1) show ?thesis by (auto simp: sched_slot_close_fd_def)
qed

lemma dup2_result:
  assumes inv: "fd_inv ext s t" and o: "sched_slot_ofile_by_fd s oldfd = Some j"
    and n: "0 \<le> newfd" "newfd < 32" "oldfd \<noteq> newfd"
    and c: "slot_dup2 oldfd newfd s t = (s', t', rc)"
  shows "rc = newfd" and "sched_slot_ofile_by_fd s' newfd = Some j"
    and "fe_fd_flags (fdtab s' ! nat newfd) = 0"
    and "\<And>fd. fd \<noteq> newfd \<Longrightarrow> sched_slot_ofile_by_fd s' fd = sched_slot_ofile_by_fd s fd"
    and "same_but_refs (ofiles s ! j) (ofiles s' ! j)"
proof -
  note b = ofile_by_fd_SomeD [OF o] and wf = fd_invD(1) [OF inv]
  note D = fd_wfD [OF wf]
  obtain s1 t1 where st: "(if fe_used (fdtab s ! nat newfd)
      then (case sched_slot_close_fd s t newfd of (s', t', _) \<Rightarrow> (s', t')) else (s, t)) = (s1, t1)"
    by fastforce
  have s': "s' = install_dup s1 (nat newfd) (fe_ofile_idx (fdtab s1 ! nat oldfd)) 0 j" and rc: "rc = newfd"
    using c o n st by (auto simp: slot_dup2_def)
  have s1: "(fdtab s1 = fdtab s \<or>
      fdtab s1 = (fdtab s)[nat newfd := sched_fdent_reset (fdtab s ! nat newfd)]) \<and>
      length (ofiles s1) = 32 \<and> same_but_refs (ofiles s ! j) (ofiles s1 ! j)"
  proof (cases "fe_used (fdtab s ! nat newfd)")
    case True
    obtain rc1 where c1: "sched_slot_close_fd s t newfd = (s1, t1, rc1)"
      using st True by (cases "sched_slot_close_fd s t newfd") auto
    from close_fd_inv [OF inv c1] have "length (ofiles s1) = 32" by (auto dest: fd_invD fd_wfD)
    with close_fd_result [OF wf c1] close_fd_keeps_shared [OF wf c1 o] n show ?thesis
      by (auto split: if_splits)
  qed (use st D in \<open>auto simp: same_but_refs_def\<close>)
  have ne: "nat oldfd \<noteq> nat newfd" using b n by auto
  have tab: "fdtab s' = (fdtab s)[nat newfd := \<lparr>fe_used = True,
      fe_ofile_idx = fe_ofile_idx (fdtab s ! nat oldfd), fe_fd_flags = 0\<rparr>]"
    using s1 ne unfolding s' install_dup_def by auto
  have wf': "fd_wf s'" using dup2_inv [OF inv c] by (rule fd_invD)
  show "rc = newfd" by (rule rc)
  show "fe_fd_flags (fdtab s' ! nat newfd) = 0" using tab n D by simp
  show "sched_slot_ofile_by_fd s' newfd = Some j"
    using ofile_by_fd_wf [OF wf', of newfd] ofile_by_fd_wf [OF wf, of oldfd] o tab n D
    by (simp split: if_splits)
  show "sched_slot_ofile_by_fd s' fd = sched_slot_ofile_by_fd s fd" if "fd \<noteq> newfd" for fd
  proof (cases "0 \<le> fd")
    case True
    with that n have "nat fd \<noteq> nat newfd" by auto
    with ofile_by_fd_wf [OF wf', of fd] ofile_by_fd_wf [OF wf, of fd] tab show ?thesis by simp
  qed (simp add: sched_slot_ofile_by_fd_def)
  show "same_but_refs (ofiles s ! j) (ofiles s' ! j)"
    using s1 b(5) same_but_refs_upd [of "ofiles s ! j" "ofiles s1 ! j"]
    unfolding s' install_dup_def by simp
qed

subsection \<open>A new pipe\<close>

lemma slot_pipe_result:
  assumes inv: "fd_inv ext s t" and c: "slot_pipe s t = (s', t', (0, Some (r, w)))"
  obtains p where "p < 16" "r < w" "w < 32"
    "sched_fd_pipe_id_for_fd (int r) TYPE_PIPE_READ \<lparr>fv_slot = Some s', fv_pipes = t'\<rparr> = (0, Some p)"
    "sched_fd_pipe_id_for_fd (int w) TYPE_PIPE_WRITE \<lparr>fv_slot = Some s', fv_pipes = t'\<rparr> = (0, Some p)"
    "pipe_contents (g_pipes t' ! p) = []" "p_read_refs (g_pipes t' ! p) = 1"
    "p_write_refs (g_pipes t' ! p) = 1"
proof -
  note wf = fd_invD(1) [OF inv] and ok = fd_invD(2) [OF inv]
  note D = fd_wfD [OF wf]
  from c ok D(1) show ?thesis
  proof (cases rule: slot_pipe_cases)
    case (made rfd wfd rof wof p t1)
    note p = pipe_alloc_spec [OF ok made(10)]
    have t1: "length (g_pipes t1) = 16" using pipes_okD(1) [OF p(3)] by (simp add: pipes_ok_def)
    have "unat (of_nat rof :: u32) = rof" "unat (of_nat wof :: u32) = wof" "unat (of_nat p :: u32) = p"
      using made p(1) by (simp_all add: unat_of_nat_u32)
    with made p t1 D(1,2) show ?thesis
      by (intro that [of p])
        (auto simp: sched_fd_pipe_id_for_fd_def read_ofile_def sched_slot_ofile_by_fd_def Let_def
          install_open_def pipe_end_def nth_list_update)
  qed simp
qed

end
