(* ===== verification/Fd_Props.thy ===== *)
theory Fd_Props
  imports Fd_Correct
begin

text \<open>
  The properties of the descriptor layer (\<open>src/sched_fd.c\<close>): runs of calls keep all counts
  exact; duplication, pipes, seeking and table copies do what their callers rely on.
\<close>

subsection \<open>Calls and runs\<close>

text \<open>Every operation of the descriptor layer that changes state, as a value, so that a run is
  a list of calls.\<close>

datatype fd_call =
    CClose int | CDup int | CDupMin int int u32 | CDup2 int int | CCloexec
  | CSetfd int u32 | CSetfl int u32 | COpenSpecial u32 u32 | COpenRegular u32 u32 u32 u32 bool
  | CPipe | CLseek int u32 u32 | CAdvance int u32 | CCommit int u32 u32
  | CPipeRead int nat | CPipeWrite int "u8 list" | CSockSet int u32

fun fd_exec :: "fd_call \<Rightarrow> fd_env \<Rightarrow> fd_env" where
  "fd_exec (CClose fd) e = fst (sched_fd_close fd e)"
| "fd_exec (CDup fd) e = fst (sched_fd_dup fd e)"
| "fd_exec (CDupMin fd m fl) e = fst (sched_fd_dup_min fd m fl e)"
| "fd_exec (CDup2 a b) e = fst (sched_fd_dup2 a b e)"
| "fd_exec CCloexec e = fst (sched_fd_close_cloexec e)"
| "fd_exec (CSetfd fd fl) e = fst (sched_fd_fcntl_setfd fd fl e)"
| "fd_exec (CSetfl fd fl) e = fst (sched_fd_fcntl_setfl fd fl e)"
| "fd_exec (COpenSpecial k fl) e = fst (sched_fd_open_special k fl e)"
| "fd_exec (COpenRegular fl b i n d) e = fst (sched_fd_open_regular fl b i n d e)"
| "fd_exec CPipe e = fst (sched_fd_pipe e)"
| "fd_exec (CLseek fd off wh) e = fst (sched_fd_lseek fd off wh e)"
| "fd_exec (CAdvance fd n) e = fst (sched_fd_regular_advance fd n e)"
| "fd_exec (CCommit fd w n) e = fst (sched_fd_regular_commit_write fd w n e)"
| "fd_exec (CPipeRead fd n) e = fst (sched_fd_pipe_read fd n e)"
| "fd_exec (CPipeWrite fd bs) e = fst (sched_fd_pipe_write fd bs e)"
| "fd_exec (CSockSet fd p) e = sched_fd_sock_set fd p e"

definition fd_run :: "fd_call list \<Rightarrow> fd_env \<Rightarrow> fd_env" where
  "fd_run cs e = fold fd_exec cs e"

definition fd_env_inv :: "(fd_type \<Rightarrow> nat \<Rightarrow> nat) \<Rightarrow> fd_env \<Rightarrow> bool" where
  "fd_env_inv ext e \<longleftrightarrow>
     (case fv_slot e of None \<Rightarrow> pipes_ok (fv_pipes e) | Some s \<Rightarrow> fd_inv ext s (fv_pipes e))"

lemma fd_env_inv_pipes: "fd_env_inv ext e \<Longrightarrow> pipes_ok (fv_pipes e)"
  by (auto simp: fd_env_inv_def dest: fd_invD split: option.splits)

lemma with_slot_inv:
  assumes "fd_env_inv ext e"
    and "\<And>s t s' t' r. fd_inv ext s t \<Longrightarrow> f s t = (s', t', r) \<Longrightarrow> fd_inv ext s' t'"
  shows "fd_env_inv ext (fst (with_slot e r0 f))"
  using assms by (fastforce simp: fd_env_inv_def with_slot_def split: option.splits prod.splits)

subsection \<open>Transfers keep the counts\<close>

lemma read_loop_refs:
  "pipe_read_loop n p acc = (p', acc') \<Longrightarrow>
    p_used p' = p_used p \<and> p_read_refs p' = p_read_refs p \<and> p_write_refs p' = p_write_refs p"
  by (induction n p acc rule: pipe_read_loop.induct) (auto simp: pipe_get_def split: if_splits)

lemma write_loop_refs:
  "pipe_write_loop p src k = (p', k') \<Longrightarrow>
    p_used p' = p_used p \<and> p_read_refs p' = p_read_refs p \<and> p_write_refs p' = p_write_refs p"
  by (induction p src k rule: pipe_write_loop.induct)
    (auto simp: pipe_put_def Let_def split: if_splits)

lemma transfer_inv:
  assumes inv: "fd_env_inv ext e" and p: "p < 16" and wf: "pipe_wf q"
    and same: "p_used q = p_used (g_pipes (fv_pipes e) ! p)"
      "p_read_refs q = p_read_refs (g_pipes (fv_pipes e) ! p)"
      "p_write_refs q = p_write_refs (g_pipes (fv_pipes e) ! p)"
  shows "fd_env_inv ext (e\<lparr>fv_pipes := upd_pipe (fv_pipes e) p (\<lambda>_. q)\<rparr>)"
proof -
  note ok = fd_env_inv_pipes [OF inv]
  have "pipes_ok (upd_pipe (fv_pipes e) p (\<lambda>_. q))"
    using pipes_okD(3) [OF ok p] wf same by (intro pipes_ok_upd [OF ok p]) simp_all
  moreover have "pipe_refs T (g_pipes (upd_pipe (fv_pipes e) p (\<lambda>_. q)) ! k)
      = pipe_refs T (g_pipes (fv_pipes e) ! k)" if "k < 16" for T k
    using pipes_okD(1) [OF ok] p same that by (cases "k = p") (auto simp: pipe_refs_def)
  ultimately show ?thesis
    using inv by (auto simp: fd_env_inv_def fd_inv_def split: option.splits)
qed

lemma pipe_id_for_fd_SomeD:
  assumes "sched_fd_pipe_id_for_fd fd T e = (rc, Some p)"
  obtains s j where "fv_slot e = Some s" "sched_slot_ofile_by_fd s fd = Some j"
    "of_type (ofiles s ! j) = T" "p = unat (of_fs_backend (ofiles s ! j))" "p < 16"
  using assms
  by (auto simp: sched_fd_pipe_id_for_fd_def read_ofile_def split: option.splits if_splits)

lemma pipe_read_inv:
  assumes inv: "fd_env_inv ext e"
  shows "fd_env_inv ext (fst (sched_fd_pipe_read fd n e))"
proof (cases "n = 0")
  case True
  with inv show ?thesis by (simp add: sched_fd_pipe_read_def)
next
  case n: False
  note ok = fd_env_inv_pipes [OF inv]
  obtain rc po where id: "sched_fd_pipe_id_for_fd fd TYPE_PIPE_READ e = (rc, po)"
    by (cases "sched_fd_pipe_id_for_fd fd TYPE_PIPE_READ e") auto
  show ?thesis
  proof (cases po)
    case None
    with id inv n show ?thesis by (simp add: sched_fd_pipe_read_def)
  next
    case (Some p)
    from pipe_id_for_fd_SomeD [OF id [unfolded Some]] have p: "p < 16" by metis
    obtain q acc where l: "pipe_read_loop n (g_pipes (fv_pipes e) ! p) [] = (q, acc)"
      by (cases "pipe_read_loop n (g_pipes (fv_pipes e) ! p) []") auto
    have "fd_env_inv ext (e\<lparr>fv_pipes := upd_pipe (fv_pipes e) p (\<lambda>_. q)\<rparr>)"
      using read_loop_refs [OF l] pf.rd_spec [OF pipes_okD(2) [OF ok p] l]
      by (intro transfer_inv [OF inv p]) simp_all
    with id Some n inv l ok show ?thesis
      by (simp add: sched_fd_pipe_read_def Let_def)
  qed
qed

lemma pipe_write_inv:
  assumes inv: "fd_env_inv ext e"
  shows "fd_env_inv ext (fst (sched_fd_pipe_write fd src e))"
proof (cases "src = []")
  case True
  with inv show ?thesis by (simp add: sched_fd_pipe_write_def)
next
  case n: False
  note ok = fd_env_inv_pipes [OF inv]
  obtain rc po where id: "sched_fd_pipe_id_for_fd fd TYPE_PIPE_WRITE e = (rc, po)"
    by (cases "sched_fd_pipe_id_for_fd fd TYPE_PIPE_WRITE e") auto
  show ?thesis
  proof (cases po)
    case None
    with id inv n show ?thesis by (simp add: sched_fd_pipe_write_def)
  next
    case (Some p)
    from pipe_id_for_fd_SomeD [OF id [unfolded Some]] have p: "p < 16" by metis
    obtain q k where l: "pipe_write_loop (g_pipes (fv_pipes e) ! p) src 0 = (q, k)"
      by (cases "pipe_write_loop (g_pipes (fv_pipes e) ! p) src 0") auto
    have "fd_env_inv ext (e\<lparr>fv_pipes := upd_pipe (fv_pipes e) p (\<lambda>_. q)\<rparr>)"
      using write_loop_refs [OF l] pf.wr_spec [OF pipes_okD(2) [OF ok p] l]
      by (intro transfer_inv [OF inv p]) simp_all
    with id Some n inv l ok show ?thesis
      by (simp add: sched_fd_pipe_write_def Let_def)
  qed
qed

text \<open>Operations that update one field of one open file, or one flag of one descriptor.\<close>

lemma open_special_not_pipe: "special_fd_type k = Some T \<Longrightarrow> \<not> is_pipe_type T"
  by (auto simp: special_fd_type_def split: if_splits)

lemma setfd_slot_inv:
  "fd_inv ext s t \<Longrightarrow>
    (case sched_slot_ofile_by_fd s fd of None \<Rightarrow> (s, t, SCHED_FD_EBADF)
     | Some _ \<Rightarrow> (upd_fdent s (nat fd) (\<lambda>d. d\<lparr>fe_fd_flags := fl\<rparr>), t, SCHED_FD_OK)) = (s', t', r) \<Longrightarrow>
    fd_inv ext s' t'"
  using neutral_fdent_inv [of ext s t "nat fd" "\<lambda>d. d\<lparr>fe_fd_flags := fl\<rparr>"] ofile_by_fd_SomeD(2)
  by (auto split: option.splits)

lemma open_special_slot_inv:
  assumes "fd_inv ext s t"
    and "(case special_fd_type k of None \<Rightarrow> (s, t, SCHED_FD_EINVAL)
     | Some T \<Rightarrow> slot_open (\<lambda>f. f\<lparr>of_type := T, of_status_flags := fl, of_fs_backend := 0,
         of_file_id := 0, of_file_size := 0, of_file_offset := 0, of_file_is_dir := False\<rparr>) s t)
       = (s', t', r)"
  shows "fd_inv ext s' t'"
proof (cases "special_fd_type k")
  case None
  with assms show ?thesis by simp
next
  case (Some T)
  with assms(2) have "slot_open (\<lambda>f. f\<lparr>of_type := T, of_status_flags := fl, of_fs_backend := 0,
      of_file_id := 0, of_file_size := 0, of_file_offset := 0, of_file_is_dir := False\<rparr>) s t
    = (s', t', r)" by simp
  from slot_open_inv [OF assms(1) this] open_special_not_pipe [OF Some] show ?thesis by simp
qed

lemma fd_exec_inv:
  assumes inv: "fd_env_inv ext e"
  shows "fd_env_inv ext (fd_exec c e)"
proof (cases c)
  case (CClose fd)
  show ?thesis unfolding CClose fd_exec.simps sched_fd_close_def
    by (rule with_slot_inv [OF inv]) (rule close_fd_inv)
next
  case (CDup fd)
  show ?thesis unfolding CDup fd_exec.simps sched_fd_dup_def sched_fd_dup_min_def
    by (rule with_slot_inv [OF inv]) (rule dup_min_inv)
next
  case (CDupMin fd m fl)
  show ?thesis unfolding CDupMin fd_exec.simps sched_fd_dup_min_def
    by (rule with_slot_inv [OF inv]) (rule dup_min_inv)
next
  case (CDup2 a b)
  show ?thesis unfolding CDup2 fd_exec.simps sched_fd_dup2_def
    by (rule with_slot_inv [OF inv]) (rule dup2_inv)
next
  case CCloexec
  show ?thesis unfolding CCloexec fd_exec.simps sched_fd_close_cloexec_def
    by (rule with_slot_inv [OF inv]) (rule close_cloexec_loop_inv)
next
  case (CSetfd fd fl)
  show ?thesis unfolding CSetfd fd_exec.simps sched_fd_fcntl_setfd_def
    by (rule with_slot_inv [OF inv]) (rule setfd_slot_inv)
next
  case (CSetfl fd fl)
  show ?thesis unfolding CSetfl fd_exec.simps sched_fd_fcntl_setfl_def
    by (rule with_slot_inv [OF inv]) (auto intro!: neutral_ofile_inv split: option.splits)
next
  case (COpenSpecial k fl)
  show ?thesis unfolding COpenSpecial fd_exec.simps sched_fd_open_special_def
    by (rule with_slot_inv [OF inv]) (rule open_special_slot_inv)
next
  case (COpenRegular fl b i n d)
  show ?thesis unfolding COpenRegular fd_exec.simps sched_fd_open_regular_def Let_def
    by (rule with_slot_inv [OF inv])
      (simp split: if_splits, elim slot_open_inv [rotated]; simp)
next
  case CPipe
  show ?thesis unfolding CPipe fd_exec.simps sched_fd_pipe_def
    by (rule with_slot_inv [OF inv]) (rule slot_pipe_inv)
next
  case (CLseek fd off wh)
  show ?thesis unfolding CLseek fd_exec.simps sched_fd_lseek_def
    by (rule with_slot_inv [OF inv])
      (auto intro!: neutral_ofile_inv split: option.splits if_splits)
next
  case (CAdvance fd n)
  show ?thesis unfolding CAdvance fd_exec.simps sched_fd_regular_advance_def Let_def
    by (rule with_slot_inv [OF inv])
      (auto intro!: neutral_ofile_inv split: option.splits if_splits)
next
  case (CCommit fd w n)
  show ?thesis unfolding CCommit fd_exec.simps sched_fd_regular_commit_write_def Let_def
    by (rule with_slot_inv [OF inv])
      (auto simp: commit_write_def Let_def intro!: neutral_ofile_inv split: option.splits if_splits)
next
  case (CSockSet fd p)
  show ?thesis unfolding CSockSet fd_exec.simps sched_fd_sock_set_def
    by (rule with_slot_inv [OF inv])
      (auto intro!: neutral_ofile_inv split: option.splits if_splits)
qed (simp_all add: inv pipe_read_inv pipe_write_inv)

subsection \<open>Starting state\<close>

lemma cleared_lengths [simp]:
  "length (ofiles cleared_fd_slot) = 32" "length (fdtab cleared_fd_slot) = 32"
  by (simp_all add: cleared_fd_slot_def)

lemma cleared_pipes_ok: "pipes_ok (sched_pipe_init_once cleared_pipes)"
  by (simp add: pipes_ok_def sched_pipe_init_once_def cleared_pipes_def pipe_wf_def)

lemma cleared_pipes_refs: "p < 16 \<Longrightarrow> pipe_refs T (g_pipes (sched_pipe_init_once cleared_pipes) ! p) = 0"
  by (simp add: sched_pipe_init_once_def cleared_pipes_def pipe_refs_def)

lemma boot_inv: "fd_env_inv (\<lambda>_ _. 0) boot_fd_env"
proof -
  obtain s t where st: "sched_fd_table_init_stdio cleared_fd_slot cleared_pipes = (s, t)"
    by (cases "sched_fd_table_init_stdio cleared_fd_slot cleared_pipes") auto
  note i = init_stdio_spec [OF cleared_lengths st]
  have "fd_inv (\<lambda>_ _. 0) s t"
    using i cleared_pipes_ok cleared_pipes_refs by (simp add: fd_inv_def)
  with st show ?thesis by (simp add: boot_fd_env_def fd_env_inv_def)
qed

subsection \<open>Pipe ends\<close>

lemma pipe_id_used:
  assumes inv: "fd_env_inv ext e" and T: "is_pipe_type T"
    and id: "sched_fd_pipe_id_for_fd fd T e = (rc, Some p)"
  shows "p < 16" and "p_used (g_pipes (fv_pipes e) ! p)" and "pipe_wf (g_pipes (fv_pipes e) ! p)"
proof -
  from pipe_id_for_fd_SomeD [OF id] obtain s j where
    s: "fv_slot e = Some s" "sched_slot_ofile_by_fd s fd = Some j"
      "of_type (ofiles s ! j) = T" "p = unat (of_fs_backend (ofiles s ! j))" and p: "p < 16"
    by metis
  from inv s(1) have i: "fd_inv ext s (fv_pipes e)" by (simp add: fd_env_inv_def)
  note b = ofile_by_fd_SomeD [OF s(2)] and ok = fd_invD(2) [OF i]
  have "is_pipe_type (of_type (ofiles s ! j))" using s(3) T by simp
  from attached_pipe_pos(3) [OF i b(2,3,4) this] s(3,4)
  have "0 < pipe_refs T (g_pipes (fv_pipes e) ! p)" by simp
  then show "p_used (g_pipes (fv_pipes e) ! p)" by (rule pipe_refs_used [OF ok p])
  show "p < 16" by (rule p)
  show "pipe_wf (g_pipes (fv_pipes e) ! p)" by (rule pipes_okD(2) [OF ok p])
qed

lemma pipe_write_result:
  assumes inv: "fd_env_inv ext e" and src: "src \<noteq> []"
    and id: "sched_fd_pipe_id_for_fd fd TYPE_PIPE_WRITE e = (rc0, Some p)"
    and w: "sched_fd_pipe_write fd src e = (e', rc)"
  defines "q \<equiv> g_pipes (fv_pipes e) ! p" and "q' \<equiv> g_pipes (fv_pipes e') ! p"
  shows "if p_read_refs q = 0 then rc = SCHED_FD_EPIPE \<and> e' = e
    else let k = min (length src) (pipe_room q) in
      rc = (if k = 0 then SCHED_FD_EAGAIN else int k) \<and>
      pipe_contents q' = pipe_contents q @ take k src \<and> fv_slot e' = fv_slot e \<and>
      p_read_refs q' = p_read_refs q \<and> p_write_refs q' = p_write_refs q"
proof -
  note ok = fd_env_inv_pipes [OF inv]
  note u = pipe_id_used [OF inv _ id, simplified]
  obtain r k where l: "pipe_write_loop (g_pipes (fv_pipes e) ! p) src 0 = (r, k)"
    by (cases "pipe_write_loop (g_pipes (fv_pipes e) ! p) src 0") auto
  have "take (pipe_room q) src = take (min (length src) (pipe_room q)) src"
    by (simp add: min_def)
  with pf.wr_spec [OF u(3) l] write_loop_refs [OF l] w src id ok u pipes_okD(1) [OF ok]
  show ?thesis
    by (auto simp: sched_fd_pipe_write_def l q_def q'_def Let_def)
qed

lemma pipe_read_result:
  assumes inv: "fd_env_inv ext e" and n: "0 < n"
    and id: "sched_fd_pipe_id_for_fd fd TYPE_PIPE_READ e = (rc0, Some p)"
    and r: "sched_fd_pipe_read fd n e = (e', rc, dst)"
  defines "q \<equiv> g_pipes (fv_pipes e) ! p" and "q' \<equiv> g_pipes (fv_pipes e') ! p"
  shows "dst = take n (pipe_contents q) \<and> pipe_contents q' = drop n (pipe_contents q) \<and>
    rc = (if dst \<noteq> [] then int (length dst)
          else if p_write_refs q = 0 then 0 else SCHED_FD_EAGAIN)"
proof -
  note ok = fd_env_inv_pipes [OF inv]
  note u = pipe_id_used [OF inv _ id, simplified]
  obtain r' acc where l: "pipe_read_loop n (g_pipes (fv_pipes e) ! p) [] = (r', acc)"
    by (cases "pipe_read_loop n (g_pipes (fv_pipes e) ! p) []") auto
  with pf.rd_spec [OF u(3) l] read_loop_refs [OF l] r n id ok u pipes_okD(1) [OF ok]
  show ?thesis
    by (auto simp: sched_fd_pipe_read_def q_def q'_def Let_def split: if_splits)
qed

subsection \<open>Offsets\<close>

text \<open>The overflow checks of \<open>sched_fd_lseek\<close> decide exactly whether the sum of the base and the
  signed offset is a 32-bit offset, also for the most negative offset.\<close>

lemma seek_next_exact:
  "seek_next base off =
     (let r = uint base + sint off in
      if 0 \<le> r \<and> r < 2 ^ 32 then Some (word_of_int r) else None)"
proof -
  note s = uint_of_sint [of off]
  have b: "0 \<le> uint base" "uint base < 2 ^ 32" "0 \<le> uint off" "uint off < 2 ^ 32"
    using uint_lt2p [of base] uint_lt2p [of off] by simp_all
  show ?thesis
  proof (cases "sint off < 0")
    case True
    note um = uint_minus_neg [OF True]
    have lt: "base < - off \<longleftrightarrow> uint base + sint off < 0"
      unfolding word_less_def um by linarith
    have "base - - off = word_of_int (uint base + sint off)" by simp
    with True lt b show ?thesis by (simp add: seek_next_def Let_def)
  next
    case False
    have "off \<le> 0xFFFFFFFF" using b by (simp add: word_le_def)
    then have sub: "uint (0xFFFFFFFF - off) = 0xFFFFFFFF - uint off"
      by (simp add: uint_minus_simple_alt)
    have gt: "base > 0xFFFFFFFF - off \<longleftrightarrow> \<not> (uint base + sint off < 2 ^ 32)"
      using False s by (simp add: word_less_def sub) linarith
    have "base + off = word_of_int (uint base + sint off)" by simp
    with False gt b s show ?thesis by (simp add: seek_next_def Let_def)
  qed
qed

lemma advance_offset_min:
  "unat (advance_offset d f) = min (unat (of_file_offset f) + unat d) (unat (of_file_size f))"
proof -
  let ?c = "of_file_offset f" and ?z = "of_file_size f"
  have lim: "unat ?z < 2 ^ 32" "unat ?c < 2 ^ 32" "unat d < 2 ^ 32" using unat_lt_u32 by auto
  have ov: "?c + d < ?c \<longleftrightarrow> unat ?c + unat d \<ge> 2 ^ 32"
    using lim by (auto simp: word_less_nat_alt unat_word_ariths mod_if)
  show ?thesis
  proof (cases "unat ?c + unat d \<ge> 2 ^ 32")
    case True
    with ov lim show ?thesis
      by (auto simp: advance_offset_def Let_def word_less_nat_alt)
  next
    case False
    then have "unat (?c + d) = unat ?c + unat d" by (simp add: unat_word_ariths)
    with False ov lim show ?thesis
      by (auto simp: advance_offset_def Let_def word_less_nat_alt min_def)
  qed
qed

subsection \<open>Properties\<close>

text \<open>Two concrete environments: the first task after \<open>pipe\<close>, and after opening a regular
  file of 100 bytes.\<close>

definition pipe_env :: fd_env where
  "pipe_env = fst (sched_fd_pipe boot_fd_env)"

lemma pipe_env_inv: "fd_env_inv (\<lambda>_ _. 0) pipe_env"
  using fd_exec_inv [OF boot_inv, of CPipe] by (simp add: pipe_env_def)

lemma pipe_env_ids:
  "sched_fd_pipe_id_for_fd 3 TYPE_PIPE_READ pipe_env = (0, Some 0)"
  "sched_fd_pipe_id_for_fd 4 TYPE_PIPE_WRITE pipe_env = (0, Some 0)"
  by code_simp+

definition regular_env :: fd_env where
  "regular_env = fst (sched_fd_open_regular SCHED_FD_O_RDWR 0 7 100 False boot_fd_env)"

text \<open>C1. Any sequence of descriptor calls, with any arguments, keeps every reference count
  exact: each open file counts the descriptors that refer to it, each pipe end counts the
  descriptors of all tasks open on it (\<open>ext\<close> is what the other tasks hold), and a pipe is
  allocated exactly while one of its ends is open.\<close>

theorem fd_run_keeps_counts:
  assumes "fd_env_inv ext e"
  shows "fd_env_inv ext (fd_run cs e)"
  using assms unfolding fd_run_def
  by (induction cs arbitrary: e) (auto intro: fd_exec_inv)

theorem fd_run_keeps_counts_witness:
  "fd_env_inv (\<lambda>_ _. 0) boot_fd_env \<and>
   fd_env_inv (\<lambda>_ _. 0) (fd_run [CPipe, CDup2 3 0, CPipeWrite 4 [1, 2], CClose 3, CPipeRead 0 9] boot_fd_env)"
  using boot_inv fd_run_keeps_counts [OF boot_inv] by simp

text \<open>C2. What is written to the write end of a new pipe is read from its read end, in order,
  up to the capacity of 256 bytes: a write of any non-empty sequence stores its first 256 bytes and
  returns how many they are, and a read of \<open>n\<close> bytes then returns the first \<open>n\<close> of them.\<close>

theorem sched_fd_pipe_roundtrip:
  assumes inv: "fd_env_inv ext e" and mk: "sched_fd_pipe e = (e1, (SCHED_FD_OK, Some (r, w)))"
    and wr: "sched_fd_pipe_write (int w) src e1 = (e2, k)" and src: "src \<noteq> []"
    and rd: "sched_fd_pipe_read (int r) n e2 = (e3, (k', dst))" and n: "0 < n"
  shows "k = int (min 256 (length src)) \<and> dst = take n (take 256 src) \<and> k' = int (length dst)"
proof -
  from mk obtain s s1 where s: "fv_slot e = Some s" "fv_slot e1 = Some s1"
      and c: "slot_pipe s (fv_pipes e) = (s1, fv_pipes e1, (0, Some (r, w)))"
    by (auto simp: sched_fd_pipe_def with_slot_def split: option.splits prod.splits)
  have e1: "e1 = \<lparr>fv_slot = Some s1, fv_pipes = fv_pipes e1\<rparr>" using s by simp
  have i: "fd_inv ext s (fv_pipes e)" using inv s by (simp add: fd_env_inv_def)
  from slot_pipe_result [OF i c, folded e1] obtain p where
    p: "sched_fd_pipe_id_for_fd (int r) TYPE_PIPE_READ e1 = (0, Some p)"
      "sched_fd_pipe_id_for_fd (int w) TYPE_PIPE_WRITE e1 = (0, Some p)"
      "pipe_contents (g_pipes (fv_pipes e1) ! p) = []" "p_read_refs (g_pipes (fv_pipes e1) ! p) = 1"
    by metis
  have inv1: "fd_env_inv ext e1"
    using slot_pipe_inv [OF i c] s by (simp add: fd_env_inv_def)
  have room: "pipe_room (g_pipes (fv_pipes e1) ! p) = 256"
    using p(3) by (simp add: pipe_contents_Nil pipe_room_def)
  have w: "k = int (min (length src) 256) \<and> fv_slot e2 = fv_slot e1 \<and>
      pipe_contents (g_pipes (fv_pipes e2) ! p) = take (min (length src) 256) src"
    using pipe_write_result [OF inv1 src p(2) wr] p(3,4) room src by (simp add: Let_def)
  then have p2: "sched_fd_pipe_id_for_fd (int r) TYPE_PIPE_READ e2 = (0, Some p)"
    using p(1) by (simp add: sched_fd_pipe_id_for_fd_def read_ofile_def)
  have "fd_env_inv ext e2" using pipe_write_inv [OF inv1, of "int w" src] wr by simp
  from pipe_read_result [OF this n p2 rd] w n src show ?thesis
    by (auto simp: min_def)
qed

theorem sched_fd_pipe_roundtrip_witness:
  "\<exists>e1 e2 e3. sched_fd_pipe boot_fd_env = (e1, (0, Some (3, 4))) \<and>
     sched_fd_pipe_write 4 [7, 8, 9] e1 = (e2, 3) \<and>
     sched_fd_pipe_read 3 2 e2 = (e3, (2, [7, 8]))"
proof -
  obtain e1 where 1: "sched_fd_pipe boot_fd_env = (e1, (0, Some (3, 4)))"
  proof -
    have "snd (sched_fd_pipe boot_fd_env) = (0, Some (3, 4))" by code_simp
    then show ?thesis using that by (metis prod.collapse)
  qed
  obtain e2 k where 2: "sched_fd_pipe_write (int 4) [7, 8, 9] e1 = (e2, k)" by fastforce
  obtain e3 k' d where 3: "sched_fd_pipe_read (int 3) 2 e2 = (e3, (k', d))"
    by (metis prod.collapse)
  from sched_fd_pipe_roundtrip [OF boot_inv 1 2 _ 3] 1 2 3 show ?thesis by simp
qed

text \<open>C3. A write to a pipe with no reader fails with \<open>EPIPE\<close> and changes nothing; to a full pipe
  it fails with \<open>EAGAIN\<close>; otherwise it appends as many bytes as there is room for and returns
  their number. It never changes what is stored already, or the counts of open ends.
  \<open>sched_fd_pipe_write_ready\<close> says in advance whether the write will make progress.\<close>

theorem sched_fd_pipe_write_correct:
  assumes inv: "fd_env_inv ext e" and src: "src \<noteq> []"
    and id: "sched_fd_pipe_id_for_fd fd TYPE_PIPE_WRITE e = (rc0, Some p)"
    and w: "sched_fd_pipe_write fd src e = (e', rc)"
    and q: "q = g_pipes (fv_pipes e) ! p" and q': "q' = g_pipes (fv_pipes e') ! p"
    and k: "k = min (length src) (pipe_room q)"
  shows "(p_read_refs q = 0 \<longrightarrow> rc = SCHED_FD_EPIPE \<and> e' = e) \<and>
    (p_read_refs q \<noteq> 0 \<longrightarrow> rc = (if k = 0 then SCHED_FD_EAGAIN else int k) \<and>
       pipe_contents q' = pipe_contents q @ take k src \<and>
       p_read_refs q' = p_read_refs q \<and> p_write_refs q' = p_write_refs q) \<and>
    (sched_fd_pipe_write_ready fd e \<longleftrightarrow> 0 < rc)"
proof -
  note u = pipe_id_used [OF inv _ id, simplified] and ok = fd_env_inv_pipes [OF inv]
  have "sched_fd_pipe_write_ready fd e \<longleftrightarrow> p_read_refs q \<noteq> 0 \<and> 0 < pipe_room q"
    using id u ok pipe_not_full_iff [OF u(3)] by (simp add: sched_fd_pipe_write_ready_def Let_def q)
  moreover have "min (length src) x = 0 \<longleftrightarrow> x = 0" for x using src by (cases src) (auto simp: min_def)
  ultimately show ?thesis
    using pipe_write_result [OF inv src id w] src unfolding q q' k
    by (auto simp: Let_def split: if_splits)
qed

theorem sched_fd_pipe_write_correct_witness:
  "snd (sched_fd_pipe_write 4 [7, 8, 9] pipe_env) = 3 \<and>
   pipe_contents (g_pipes (fv_pipes (fst (sched_fd_pipe_write 4 [7, 8, 9] pipe_env))) ! 0) = [7, 8, 9]"
proof -
  have f: "p_read_refs (g_pipes (fv_pipes pipe_env) ! 0) = 1"
    "pipe_contents (g_pipes (fv_pipes pipe_env) ! 0) = []"
    "pipe_room (g_pipes (fv_pipes pipe_env) ! 0) = 256"
    by code_simp+
  obtain e' rc where w: "sched_fd_pipe_write 4 [7, 8, 9] pipe_env = (e', rc)" by fastforce
  from sched_fd_pipe_write_correct [OF pipe_env_inv _ pipe_env_ids(2) w refl refl refl] f w
  show ?thesis by simp
qed

text \<open>C4. A read of \<open>n > 0\<close> bytes takes the first \<open>n\<close> bytes of the pipe, or all there are; on an
  empty pipe it returns 0 (end of file) when no writer is left and \<open>EAGAIN\<close> when one is.
  \<open>sched_fd_pipe_read_ready\<close> says in advance that the read will not return \<open>EAGAIN\<close>.\<close>

theorem sched_fd_pipe_read_correct:
  assumes inv: "fd_env_inv ext e" and n: "0 < n"
    and id: "sched_fd_pipe_id_for_fd fd TYPE_PIPE_READ e = (rc0, Some p)"
    and r: "sched_fd_pipe_read fd n e = (e', (rc, dst))"
    and q: "q = g_pipes (fv_pipes e) ! p"
  shows "dst = take n (pipe_contents q) \<and>
    pipe_contents (g_pipes (fv_pipes e') ! p) = drop n (pipe_contents q) \<and>
    rc = (if pipe_contents q \<noteq> [] then int (min n (length (pipe_contents q)))
          else if p_write_refs q = 0 then 0 else SCHED_FD_EAGAIN) \<and>
    (sched_fd_pipe_read_ready fd e \<longleftrightarrow> rc \<noteq> SCHED_FD_EAGAIN)"
proof -
  note u = pipe_id_used [OF inv _ id, simplified] and ok = fd_env_inv_pipes [OF inv]
  have "sched_fd_pipe_read_ready fd e \<longleftrightarrow> pipe_contents q \<noteq> [] \<or> p_write_refs q = 0"
    using id u ok by (simp add: sched_fd_pipe_read_ready_def Let_def q pipe_contents_Nil)
  then show ?thesis using pipe_read_result [OF inv n id r] n unfolding q by auto
qed

theorem sched_fd_pipe_read_correct_witness:
  "snd (sched_fd_pipe_read 3 5 pipe_env) = (SCHED_FD_EAGAIN, []) \<and>
   \<not> sched_fd_pipe_read_ready 3 pipe_env"
proof -
  have f: "p_write_refs (g_pipes (fv_pipes pipe_env) ! 0) = 1"
    "pipe_contents (g_pipes (fv_pipes pipe_env) ! 0) = []"
    by code_simp+
  obtain e' rc dst where r: "sched_fd_pipe_read 3 5 pipe_env = (e', (rc, dst))"
    by (metis prod.collapse)
  from sched_fd_pipe_read_correct [OF pipe_env_inv _ pipe_env_ids(1) r refl] f r
  show ?thesis by simp
qed

text \<open>\<open>F_DUPFD\<close> on an open descriptor returns the lowest free descriptor at or above the
  minimum, which then refers to the same open file, and fails only when there is none.\<close>

theorem sched_fd_dup_min_lowest:
  assumes inv: "fd_env_inv ext e" and s: "fv_slot e = Some s"
    and fd: "0 \<le> oldfd" "oldfd < 32" "fe_used (fdtab s ! nat oldfd)" and m: "0 \<le> minfd" "minfd < 32"
    and c: "sched_fd_dup_min oldfd minfd fl e = (e', rc)" and s': "fv_slot e' = Some s'"
  shows "(rc = SCHED_FD_EMFILE \<and> (\<forall>k < 32. minfd \<le> int k \<longrightarrow> fe_used (fdtab s ! k))) \<or>
    (minfd \<le> rc \<and> rc < 32 \<and> \<not> fe_used (fdtab s ! nat rc) \<and>
     (\<forall>k < nat rc. minfd \<le> int k \<longrightarrow> fe_used (fdtab s ! k)) \<and>
     sched_slot_ofile_by_fd s' rc = sched_slot_ofile_by_fd s oldfd)"
proof -
  from c s s' obtain t' where c: "slot_dup_min oldfd minfd fl s (fv_pipes e) = (s', t', rc)"
    by (auto simp: sched_fd_dup_min_def with_slot_def split: prod.splits)
  have "fd_wf s" using inv s by (simp add: fd_env_inv_def fd_invD)
  from dup_min_result [OF this fd m c] show ?thesis by auto
qed

theorem sched_fd_dup_min_lowest_witness:
  "snd (sched_fd_dup_min 1 0 0 boot_fd_env) = 3"
proof -
  obtain s where s: "fv_slot boot_fd_env = Some s" "fe_used (fdtab s ! 0)" "fe_used (fdtab s ! 1)"
      "fe_used (fdtab s ! 2)" "\<not> fe_used (fdtab s ! 3)"
  proof -
    have "fv_slot boot_fd_env \<noteq> None \<and> map (\<lambda>i. fe_used (fdtab (the (fv_slot boot_fd_env)) ! i)) [0, 1, 2, 3]
        = [True, True, True, False]" by code_simp
    then show ?thesis using that by auto
  qed
  obtain e' rc where c: "sched_fd_dup_min 1 0 0 boot_fd_env = (e', rc)" by fastforce
  have "fv_slot e' \<noteq> None" using c s by (auto simp: sched_fd_dup_min_def with_slot_def split: prod.splits)
  then obtain s' where s': "fv_slot e' = Some s'" by auto
  from sched_fd_dup_min_lowest [OF boot_inv s(1) _ _ _ _ _ c s'] s(3) s(5)
  have "0 \<le> rc \<and> \<not> fe_used (fdtab s ! nat rc) \<and> (\<forall>k < nat rc. fe_used (fdtab s ! k))"
    by auto
  moreover from this s(5) have "nat rc \<le> 3" by (meson not_le_imp_less)
  ultimately have "nat rc = 3" using s(2-4) by (auto simp: le_Suc_eq numeral_3_eq_3 numeral_2_eq_2)
  with \<open>0 \<le> rc \<and> _\<close> c show ?thesis by simp
qed

text \<open>C5. \<open>dup2\<close> from an open descriptor makes the target refer to the same open file, without
  the close-on-exec flag, whatever the target was before; all other descriptors refer to what
  they referred to, and the open file itself is unchanged.\<close>

theorem sched_fd_dup2_correct:
  assumes inv: "fd_env_inv ext e" and s: "fv_slot e = Some s"
    and o: "sched_slot_ofile_by_fd s oldfd = Some j" and n: "0 \<le> newfd" "newfd < 32" "oldfd \<noteq> newfd"
    and c: "sched_fd_dup2 oldfd newfd e = (e', rc)" and s': "fv_slot e' = Some s'"
  shows "rc = newfd \<and> fe_fd_flags (fdtab s' ! nat newfd) = 0 \<and>
    (\<forall>fd. sched_slot_ofile_by_fd s' fd = (if fd = newfd then Some j else sched_slot_ofile_by_fd s fd)) \<and>
    same_but_refs (ofiles s ! j) (ofiles s' ! j)"
proof -
  from c s s' obtain t' where c: "slot_dup2 oldfd newfd s (fv_pipes e) = (s', t', rc)"
    by (auto simp: sched_fd_dup2_def with_slot_def split: prod.splits)
  have "fd_inv ext s (fv_pipes e)" using inv s by (simp add: fd_env_inv_def)
  from dup2_result [OF this o n c] show ?thesis by auto
qed

theorem sched_fd_dup2_correct_witness:
  "\<exists>s s'. fv_slot boot_fd_env = Some s \<and> fv_slot (fst (sched_fd_dup2 2 0 boot_fd_env)) = Some s' \<and>
     sched_slot_ofile_by_fd s' 0 = sched_slot_ofile_by_fd s 2"
proof -
  obtain s where s: "fv_slot boot_fd_env = Some s" "sched_slot_ofile_by_fd s 2 = Some 2"
  proof -
    have "map_option (\<lambda>s. sched_slot_ofile_by_fd s 2) (fv_slot boot_fd_env) = Some (Some 2)" by code_simp
    then show ?thesis using that by auto
  qed
  obtain e' rc where c: "sched_fd_dup2 2 0 boot_fd_env = (e', rc)" by fastforce
  have "fv_slot e' \<noteq> None" using c s by (auto simp: sched_fd_dup2_def with_slot_def split: prod.splits)
  then obtain s' where s': "fv_slot e' = Some s'" by auto
  from sched_fd_dup2_correct [OF boot_inv s _ _ _ c s'] s s' c show ?thesis by auto
qed

text \<open>C6. Copying a table for a new task succeeds and gives the child a table with the same
  descriptors, each referring to an open file equal to the parent's in every field but
  \<open>sock_ptr\<close>, which the copy does not transfer; the counts of the child's open files and of all
  pipe ends are exact afterwards, both as the child and as the parent see them.\<close>

theorem sched_fd_table_clone_correct:
  assumes inv: "fd_inv ext src t" and len: "length (ofiles dst) = 32" "length (fdtab dst) = 32"
    and small: "\<And>T p. is_pipe_type T \<Longrightarrow> p < 16 \<Longrightarrow> ext T p < 2 ^ 30"
    and c: "sched_fd_table_clone dst src t = (d, t', rc)"
  shows "rc = SCHED_FD_OK \<and> fdtab d = fdtab src \<and>
    (\<forall>j < 32. ofiles d ! j = (ofiles src ! j)\<lparr>of_sock_ptr := of_sock_ptr (ofiles dst ! j)\<rparr>) \<and>
    fd_inv (\<lambda>T p. ext T p + pipe_fds src T p) d t' \<and>
    fd_inv (\<lambda>T p. ext T p + pipe_fds d T p) src t'"
  using clone_spec [OF inv len small c] by simp

theorem sched_fd_table_clone_correct_witness:
  "\<exists>src d t'. fv_slot pipe_env = Some src \<and>
     sched_fd_table_clone cleared_fd_slot src (fv_pipes pipe_env) = (d, t', 0) \<and> fdtab d = fdtab src"
proof -
  obtain src where s: "fv_slot pipe_env = Some src"
    using pipe_env_ids(1) by (auto simp: sched_fd_pipe_id_for_fd_def read_ofile_def split: option.splits)
  obtain d t' rc where c: "sched_fd_table_clone cleared_fd_slot src (fv_pipes pipe_env) = (d, t', rc)"
    by (metis prod.collapse)
  have "fd_inv (\<lambda>_ _. 0) src (fv_pipes pipe_env)" using pipe_env_inv s by (simp add: fd_env_inv_def)
  from sched_fd_table_clone_correct [OF this cleared_lengths _ c] s c show ?thesis by simp
qed

text \<open>C7. Closing all descriptors of a task leaves it none open, releases every open file, and
  gives back its share of every pipe end: a pipe that only this task had open is free again.\<close>

theorem sched_slot_close_all_fds_releases:
  assumes inv: "fd_inv ext s t" and c: "sched_slot_close_all_fds s t = (s', t')"
  shows "(\<forall>i < 32. \<not> fe_used (fdtab s' ! i)) \<and> (\<forall>j < 32. \<not> of_used (ofiles s' ! j)) \<and>
    (\<forall>p < 16. pipe_refs TYPE_PIPE_READ (g_pipes t' ! p) = ext TYPE_PIPE_READ p \<and>
       pipe_refs TYPE_PIPE_WRITE (g_pipes t' ! p) = ext TYPE_PIPE_WRITE p \<and>
       (p_used (g_pipes t' ! p) \<longleftrightarrow> 0 < ext TYPE_PIPE_READ p + ext TYPE_PIPE_WRITE p))"
proof -
  note a = close_all_spec [OF inv c]
  have r: "pipe_refs T (g_pipes t' ! p) = ext T p" if "is_pipe_type T" "p < 16" for T p
    using fd_invD(3) [OF a(1) that] a(4) by simp
  have "p_used (g_pipes t' ! p) \<longleftrightarrow> 0 < ext TYPE_PIPE_READ p + ext TYPE_PIPE_WRITE p" if "p < 16" for p
  proof -
    have "p_read_refs (g_pipes t' ! p) = 0 \<longleftrightarrow> ext TYPE_PIPE_READ p = 0"
      "p_write_refs (g_pipes t' ! p) = 0 \<longleftrightarrow> ext TYPE_PIPE_WRITE p = 0"
      using r [OF _ that, of TYPE_PIPE_READ, unfolded pipe_refs_def, simplified]
        r [OF _ that, of TYPE_PIPE_WRITE, unfolded pipe_refs_def, simplified]
      by (metis unat_eq_0_iff)+
    with fd_invD(2) [OF a(1)] that show ?thesis by (auto simp: pipes_ok_def)
  qed
  with a(2,3) r show ?thesis by simp
qed

theorem sched_slot_close_all_fds_releases_witness:
  "\<exists>s s' t'. fv_slot pipe_env = Some s \<and> p_used (g_pipes (fv_pipes pipe_env) ! 0) \<and>
     sched_slot_close_all_fds s (fv_pipes pipe_env) = (s', t') \<and> \<not> p_used (g_pipes t' ! 0)"
proof -
  obtain s where s: "fv_slot pipe_env = Some s"
    using pipe_env_ids(1) by (auto simp: sched_fd_pipe_id_for_fd_def read_ofile_def split: option.splits)
  obtain s' t' where c: "sched_slot_close_all_fds s (fv_pipes pipe_env) = (s', t')" by fastforce
  have "fd_inv (\<lambda>_ _. 0) s (fv_pipes pipe_env)" using pipe_env_inv s by (simp add: fd_env_inv_def)
  from sched_slot_close_all_fds_releases [OF this c] have "\<not> p_used (g_pipes t' ! 0)" by auto
  moreover have "p_used (g_pipes (fv_pipes pipe_env) ! 0)" by code_simp
  ultimately show ?thesis using s c by blast
qed

text \<open>C8. \<open>lseek\<close> on a regular file moves to the mathematical sum of the base that \<open>whence\<close>
  selects and the signed offset, and fails with \<open>EINVAL\<close>, moving nothing, exactly when that sum
  is not a 32-bit offset or \<open>whence\<close> is none of 0, 1, 2.\<close>

theorem sched_fd_lseek_exact:
  assumes s: "fv_slot e = Some s" and o: "sched_slot_ofile_by_fd s fd = Some j"
    and f: "f = ofiles s ! j" "of_type f = TYPE_REGULAR"
    and c: "sched_fd_lseek fd off whence e = (e', (rc, out))"
    and base: "base = (if whence = 0 then 0 else if whence = 1 then uint (of_file_offset f)
                       else uint (of_file_size f))"
    and pos: "pos = base + sint off"
  shows "if whence \<le> 2 \<and> 0 \<le> pos \<and> pos < 2 ^ 32
    then rc = SCHED_FD_OK \<and> out = Some (word_of_int pos) \<and>
      fv_slot e' = Some (upd_ofile s j (\<lambda>f. f\<lparr>of_file_offset := word_of_int pos\<rparr>))
    else rc = SCHED_FD_EINVAL \<and> out = None \<and> e' = e"
proof (cases "whence \<le> 2")
  case True
  then have w: "whence = 0 \<or> whence = 1 \<or> whence = 2"
  proof -
    have "unat whence \<le> 2" using True by (simp add: word_le_nat_alt)
    then have "unat whence = 0 \<or> unat whence = 1 \<or> unat whence = 2" by linarith
    then show ?thesis unfolding word_unat_eq_iff by simp
  qed
  then obtain b where b: "seek_base whence f = Some b" "uint b = base"
    using base by (auto simp: seek_base_def)
  from c s o f b(1) True show ?thesis
    unfolding pos b(2) [symmetric]
    by (auto simp: sched_fd_lseek_def with_slot_def seek_next_exact Let_def split: if_splits)
next
  case False
  then have "seek_base whence f = None" by (auto simp: seek_base_def)
  with False c s o f show ?thesis by (auto simp: sched_fd_lseek_def with_slot_def)
qed

theorem sched_fd_lseek_exact_witness:
  "snd (sched_fd_lseek 3 (-10) 2 regular_env) = (0, Some 90)"
proof -
  obtain s where s: "fv_slot regular_env = Some s" "sched_slot_ofile_by_fd s 3 = Some 3"
      "of_type (ofiles s ! 3) = TYPE_REGULAR" "of_file_size (ofiles s ! 3) = 100"
  proof -
    have "map_option (\<lambda>s. (sched_slot_ofile_by_fd s 3, of_type (ofiles s ! 3), of_file_size (ofiles s ! 3)))
        (fv_slot regular_env) = Some (Some 3, TYPE_REGULAR, 100)" by code_simp
    then show ?thesis using that by auto
  qed
  obtain e' rc out where c: "sched_fd_lseek 3 (-10) 2 regular_env = (e', (rc, out))"
    by (metis prod.collapse)
  from sched_fd_lseek_exact [OF s(1,2) refl s(3) c refl refl] s(4) c show ?thesis by simp
qed

text \<open>Reading from a regular file moves its offset forward by the bytes read but never past
  the end of the file, also when the addition would wrap.\<close>

theorem sched_fd_regular_advance_bounded:
  assumes s: "fv_slot e = Some s" and o: "sched_slot_ofile_by_fd s fd = Some j"
    and f: "f = ofiles s ! j" "of_type f = TYPE_REGULAR"
    and c: "sched_fd_regular_advance fd n e = (e', (rc, out))"
  shows "\<exists>off. rc = SCHED_FD_OK \<and> out = Some off \<and>
    unat off = min (unat (of_file_offset f) + unat n) (unat (of_file_size f)) \<and>
    fv_slot e' = Some (upd_ofile s j (\<lambda>f. f\<lparr>of_file_offset := off\<rparr>))"
  using c s o f advance_offset_min [of n f]
  by (auto simp: sched_fd_regular_advance_def with_slot_def Let_def)

theorem sched_fd_regular_advance_bounded_witness:
  "snd (sched_fd_regular_advance 3 0xFFFFFFFF regular_env) = (0, Some 100)"
proof -
  obtain s where s: "fv_slot regular_env = Some s" "sched_slot_ofile_by_fd s 3 = Some 3"
      "of_type (ofiles s ! 3) = TYPE_REGULAR" "of_file_size (ofiles s ! 3) = 100"
      "of_file_offset (ofiles s ! 3) = 0"
  proof -
    have "map_option (\<lambda>s. (sched_slot_ofile_by_fd s 3, of_type (ofiles s ! 3), of_file_size (ofiles s ! 3),
        of_file_offset (ofiles s ! 3)))
        (fv_slot regular_env) = Some (Some 3, TYPE_REGULAR, 100, 0)" by code_simp
    then show ?thesis using that by auto
  qed
  obtain e' rc out where c: "sched_fd_regular_advance 3 0xFFFFFFFF regular_env = (e', (rc, out))"
    by (metis prod.collapse)
  from sched_fd_regular_advance_bounded [OF s(1,2) refl s(3) c] s(4,5) obtain off where
    "rc = 0" "out = Some off" "unat off = 100" by auto
  moreover from this have "off = 100" unfolding word_unat_eq_iff by simp
  ultimately show ?thesis using c by simp
qed

end
