(* ===== verification/Spinlock.thy ===== *)
theory Spinlock
  imports Octans_Prelude
begin

text \<open>
  The spin lock of \<open>src/spinlock.c\<close> as a concurrent program. Every shared access of the code
  (the compare-and-swap, the acquiring load, the releasing store, the accesses to the lock's
  saved mask) and every access to the processor's interrupt mask register is one step of one
  processor, and the steps of all processors interleave freely. A processor also calls
  \<open>spinlock_lock\<close> when it is outside, calls \<open>spinlock_unlock\<close> when it holds the lock, and may
  change its interrupt mask while it is outside. The field \<open>sc_entry\<close> is a ghost: the mask at
  the time of the call. The null-pointer returns are not modelled, a lock is always given.

  The invariant below gives mutual exclusion, interrupts masked in the critical section, and
  the restoration of the mask. It is what allows the other theories to take the body of a
  locked section as one function on the state that the lock protects.
\<close>

subsection \<open>State and instructions\<close>

record spinlock =
  lk_v :: u32
  lk_irq_mask_prev :: u32

definition spinlock_init :: spinlock where
  "spinlock_init = \<lparr>lk_v = 0, lk_irq_mask_prev = 0\<rparr>"

datatype spin_pc =
    Outside
  | Lock_read_mask | Lock_write_mask | Lock_cas | Lock_wait | Lock_save_mask
  | Holding
  | Unlock_load_mask | Unlock_release | Unlock_write_mask

record spin_cpu =
  sc_pc :: spin_pc
  sc_irq_mask :: u32
  sc_prev :: u32
  sc_entry :: u32

definition spin_try_acquire :: "spinlock \<Rightarrow> spinlock \<times> bool" where
  "spin_try_acquire l = (if lk_v l = 0 then (l\<lparr>lk_v := 1\<rparr>, True) else (l, False))"

definition spin_load_acquire :: "spinlock \<Rightarrow> u32" where
  "spin_load_acquire l = lk_v l"

definition spin_irq_mask_read :: "spin_cpu \<Rightarrow> u32" where
  "spin_irq_mask_read c = sc_irq_mask c AND 1"

definition spin_irq_mask_write :: "u32 \<Rightarrow> spin_cpu \<Rightarrow> spin_cpu" where
  "spin_irq_mask_write masked c = c\<lparr>sc_irq_mask := (if masked \<noteq> 0 then 1 else 0)\<rparr>"

fun spinlock_lock_step :: "spinlock \<Rightarrow> spin_cpu \<Rightarrow> spinlock \<times> spin_cpu" where
  "spinlock_lock_step l c =
     (case sc_pc c of
        Lock_read_mask \<Rightarrow> (l, c\<lparr>sc_prev := spin_irq_mask_read c, sc_pc := Lock_write_mask\<rparr>)
      | Lock_write_mask \<Rightarrow> (l, (spin_irq_mask_write 1 c)\<lparr>sc_pc := Lock_cas\<rparr>)
      | Lock_cas \<Rightarrow> (case spin_try_acquire l of
            (l', True) \<Rightarrow> (l', c\<lparr>sc_pc := Lock_save_mask\<rparr>)
          | (l', False) \<Rightarrow> (l', c\<lparr>sc_pc := Lock_wait\<rparr>))
      | Lock_wait \<Rightarrow> (l, if spin_load_acquire l \<noteq> 0 then c else c\<lparr>sc_pc := Lock_cas\<rparr>)
      | Lock_save_mask \<Rightarrow> (l\<lparr>lk_irq_mask_prev := sc_prev c\<rparr>, c\<lparr>sc_pc := Holding\<rparr>)
      | _ \<Rightarrow> (l, c))"

fun spinlock_unlock_step :: "spinlock \<Rightarrow> spin_cpu \<Rightarrow> spinlock \<times> spin_cpu" where
  "spinlock_unlock_step l c =
     (case sc_pc c of
        Unlock_load_mask \<Rightarrow> (l, c\<lparr>sc_prev := lk_irq_mask_prev l, sc_pc := Unlock_release\<rparr>)
      | Unlock_release \<Rightarrow> (l\<lparr>lk_v := 0\<rparr>, c\<lparr>sc_pc := Unlock_write_mask\<rparr>)
      | Unlock_write_mask \<Rightarrow> (l, (spin_irq_mask_write (sc_prev c) c)\<lparr>sc_pc := Outside\<rparr>)
      | _ \<Rightarrow> (l, c))"

definition in_lock :: "spin_cpu \<Rightarrow> bool" where
  "in_lock c \<longleftrightarrow> sc_pc c \<in> {Lock_read_mask, Lock_write_mask, Lock_cas, Lock_wait, Lock_save_mask}"

definition in_unlock :: "spin_cpu \<Rightarrow> bool" where
  "in_unlock c \<longleftrightarrow> sc_pc c \<in> {Unlock_load_mask, Unlock_release, Unlock_write_mask}"

subsection \<open>The system\<close>

type_synonym spin_sys = "spinlock \<times> spin_cpu list"

inductive spin_step :: "spin_sys \<Rightarrow> spin_sys \<Rightarrow> bool" where
  call_lock: "i < length cs \<Longrightarrow> sc_pc (cs ! i) = Outside \<Longrightarrow>
    spin_step (l, cs) (l, cs[i := (cs ! i)\<lparr>sc_pc := Lock_read_mask, sc_entry := sc_irq_mask (cs ! i)\<rparr>])"
| lock_instr: "i < length cs \<Longrightarrow> in_lock (cs ! i) \<Longrightarrow> spinlock_lock_step l (cs ! i) = (l', c') \<Longrightarrow>
    spin_step (l, cs) (l', cs[i := c'])"
| call_unlock: "i < length cs \<Longrightarrow> sc_pc (cs ! i) = Holding \<Longrightarrow>
    spin_step (l, cs) (l, cs[i := (cs ! i)\<lparr>sc_pc := Unlock_load_mask\<rparr>])"
| unlock_instr: "i < length cs \<Longrightarrow> in_unlock (cs ! i) \<Longrightarrow> spinlock_unlock_step l (cs ! i) = (l', c') \<Longrightarrow>
    spin_step (l, cs) (l', cs[i := c'])"
| set_mask: "i < length cs \<Longrightarrow> sc_pc (cs ! i) = Outside \<Longrightarrow>
    spin_step (l, cs) (l, cs[i := spin_irq_mask_write m (cs ! i)])"

definition spin_initial :: "spin_sys \<Rightarrow> bool" where
  "spin_initial s \<longleftrightarrow> fst s = spinlock_init \<and> (\<forall>c \<in> set (snd s). sc_pc c = Outside)"

inductive spin_reach :: "spin_sys \<Rightarrow> bool" where
  start: "spin_initial s \<Longrightarrow> spin_reach s"
| step: "spin_reach s \<Longrightarrow> spin_step s s' \<Longrightarrow> spin_reach s'"

subsection \<open>Invariant\<close>

text \<open>A processor owns the lock from its successful compare-and-swap to its releasing store.\<close>

definition owns :: "spin_cpu \<Rightarrow> bool" where
  "owns c \<longleftrightarrow> sc_pc c \<in> {Lock_save_mask, Holding, Unlock_load_mask, Unlock_release}"

definition cpu_ok :: "spinlock \<Rightarrow> spin_cpu \<Rightarrow> bool" where
  "cpu_ok l c \<longleftrightarrow>
     (owns c \<longrightarrow> lk_v l \<noteq> 0) \<and>
     (sc_pc c \<notin> {Outside, Lock_read_mask, Lock_write_mask} \<longrightarrow> sc_irq_mask c = 1) \<and>
     (sc_pc c \<in> {Lock_write_mask, Lock_cas, Lock_wait, Lock_save_mask, Unlock_release, Unlock_write_mask}
        \<longrightarrow> sc_prev c = sc_entry c AND 1) \<and>
     (sc_pc c \<in> {Lock_read_mask} \<longrightarrow> sc_entry c = sc_irq_mask c) \<and>
     (sc_pc c \<in> {Holding, Unlock_load_mask} \<longrightarrow> lk_irq_mask_prev l = sc_entry c AND 1)"

definition spin_inv :: "spin_sys \<Rightarrow> bool" where
  "spin_inv s \<longleftrightarrow> (\<forall>i < length (snd s). cpu_ok (fst s) (snd s ! i)) \<and>
     (\<forall>i < length (snd s). \<forall>j < length (snd s). owns (snd s ! i) \<longrightarrow> owns (snd s ! j) \<longrightarrow> i = j)"

lemma cpu_ok_ownsD: "cpu_ok l c \<Longrightarrow> owns c \<Longrightarrow> lk_v l \<noteq> 0 \<and> sc_irq_mask c = 1"
  by (cases "sc_pc c") (simp_all add: cpu_ok_def owns_def)

text \<open>A step of processor \<open>i\<close> keeps the invariant when the processor's own part is kept, it owns
  the lock only if no one else does, and it changes the lock's fields only when it owns it or
  takes it.\<close>

lemma spin_inv_update:
  assumes inv: "spin_inv (l, cs)" and i: "i < length cs"
    and ok: "cpu_ok l' c'"
    and v: "lk_v l' = lk_v l \<or> owns (cs ! i) \<or> lk_v l = 0"
    and p: "lk_irq_mask_prev l' = lk_irq_mask_prev l \<or> owns (cs ! i)"
    and o: "owns c' \<Longrightarrow> owns (cs ! i) \<or> lk_v l = 0"
  shows "spin_inv (l', cs[i := c'])"
proof -
  from inv have ok0: "\<And>k. k < length cs \<Longrightarrow> cpu_ok l (cs ! k)"
    and uniq: "\<And>j k. j < length cs \<Longrightarrow> k < length cs \<Longrightarrow> owns (cs ! j) \<Longrightarrow> owns (cs ! k) \<Longrightarrow> j = k"
    by (auto simp: spin_inv_def)
  have free: "\<not> owns (cs ! k)" if "k < length cs" "k \<noteq> i" "owns (cs ! i) \<or> lk_v l = 0" for k
    using that i uniq [of i k] cpu_ok_ownsD [OF ok0 [OF that(1)]] by blast
  have other: "cpu_ok l' (cs ! k)" if "k < length cs" "k \<noteq> i" for k
  proof (cases "owns (cs ! i) \<or> lk_v l = 0")
    case True
    with free [OF that] have "\<not> owns (cs ! k)" by simp
    with ok0 [OF that(1)] show ?thesis
      by (cases "sc_pc (cs ! k)") (simp_all add: cpu_ok_def owns_def)
  next
    case False
    with v p have "lk_v l' = lk_v l" "lk_irq_mask_prev l' = lk_irq_mask_prev l" by auto
    with ok0 [OF that(1)] show ?thesis by (auto simp: cpu_ok_def)
  qed
  have "j = k" if "j < length cs" "k < length cs" "owns (cs[i := c'] ! j)" "owns (cs[i := c'] ! k)" for j k
    using that uniq [of j k] free [of j] free [of k] o by (cases "j = i"; cases "k = i") auto
  moreover have "cpu_ok l' (cs[i := c'] ! k)" if "k < length cs" for k
    using that i ok other [OF that] by (cases "k = i") auto
  ultimately show ?thesis by (auto simp: spin_inv_def)
qed

text \<open>What one instruction does, in the terms of this lemma.\<close>

definition cpu_step_ok :: "spinlock \<Rightarrow> spin_cpu \<Rightarrow> spinlock \<Rightarrow> spin_cpu \<Rightarrow> bool" where
  "cpu_step_ok l c l' c' \<longleftrightarrow> cpu_ok l' c' \<and>
     (lk_v l' = lk_v l \<or> owns c \<or> lk_v l = 0) \<and>
     (lk_irq_mask_prev l' = lk_irq_mask_prev l \<or> owns c) \<and>
     (owns c' \<longrightarrow> owns c \<or> lk_v l = 0)"

lemma lock_step_ok:
  assumes "cpu_ok l c" "in_lock c" "spinlock_lock_step l c = (l', c')"
  shows "cpu_step_ok l c l' c'"
  using assms
  by (cases "sc_pc c"; cases "lk_v l = 0")
    (simp_all add: cpu_step_ok_def cpu_ok_def owns_def in_lock_def spin_try_acquire_def
      spin_load_acquire_def spin_irq_mask_read_def spin_irq_mask_write_def, auto)

lemma unlock_step_ok:
  assumes "cpu_ok l c" "in_unlock c" "spinlock_unlock_step l c = (l', c')"
  shows "cpu_step_ok l c l' c'"
  using assms
  by (cases "sc_pc c")
    (simp_all add: cpu_step_ok_def cpu_ok_def owns_def in_unlock_def spin_irq_mask_write_def, auto)

lemma spin_inv_cpu_step:
  "spin_inv (l, cs) \<Longrightarrow> i < length cs \<Longrightarrow> cpu_step_ok l (cs ! i) l' c' \<Longrightarrow> spin_inv (l', cs[i := c'])"
  by (rule spin_inv_update) (auto simp: cpu_step_ok_def)

lemma spin_step_inv: "spin_step s s' \<Longrightarrow> spin_inv s \<Longrightarrow> spin_inv s'"
proof (induction rule: spin_step.induct)
  case (call_lock i cs l)
  have "cpu_step_ok l (cs ! i) l ((cs ! i)\<lparr>sc_pc := Lock_read_mask, sc_entry := sc_irq_mask (cs ! i)\<rparr>)"
    by (simp add: cpu_step_ok_def cpu_ok_def owns_def)
  with call_lock show ?case by (intro spin_inv_cpu_step)
next
  case (lock_instr i cs l l' c')
  then show ?case by (intro spin_inv_cpu_step lock_step_ok) (auto simp: spin_inv_def)
next
  case (call_unlock i cs l)
  then have "cpu_ok l (cs ! i)" by (simp add: spin_inv_def)
  with call_unlock(2) have "cpu_step_ok l (cs ! i) l ((cs ! i)\<lparr>sc_pc := Unlock_load_mask\<rparr>)"
    by (simp add: cpu_step_ok_def cpu_ok_def owns_def)
  with call_unlock show ?case by (intro spin_inv_cpu_step)
next
  case (unlock_instr i cs l l' c')
  then show ?case by (intro spin_inv_cpu_step unlock_step_ok) (auto simp: spin_inv_def)
next
  case (set_mask i cs l m)
  then have "cpu_step_ok l (cs ! i) l (spin_irq_mask_write m (cs ! i))"
    by (simp add: cpu_step_ok_def cpu_ok_def owns_def spin_irq_mask_write_def)
  with set_mask show ?case by (intro spin_inv_cpu_step)
qed

lemma spin_reach_inv: "spin_reach s \<Longrightarrow> spin_inv s"
proof (induction rule: spin_reach.induct)
  case (start s)
  then show ?case
    by (auto simp: spin_initial_def spin_inv_def cpu_ok_def owns_def all_set_conv_all_nth)
qed (rule spin_step_inv)

lemma spin_reachD:
  assumes "spin_reach (l, cs)" and "i < length cs"
  shows "cpu_ok l (cs ! i)"
    and "j < length cs \<Longrightarrow> owns (cs ! i) \<Longrightarrow> owns (cs ! j) \<Longrightarrow> i = j"
  using spin_reach_inv [OF assms(1)] assms(2) by (auto simp: spin_inv_def)

lemma mask_and_one: "(if m AND 1 \<noteq> (0 :: u32) then 1 else 0) = m AND (1 :: u32)"
  by (simp add: and_one_eq mod_2_eq_odd)

subsection \<open>Properties\<close>

text \<open>A concrete reachable state: of two processors, the first has taken the lock.\<close>

definition idle_cpu :: spin_cpu where
  "idle_cpu = \<lparr>sc_pc = Outside, sc_irq_mask = 0, sc_prev = 0, sc_entry = 0\<rparr>"

definition held_state :: spin_sys where
  "held_state = (\<lparr>lk_v = 1, lk_irq_mask_prev = 0\<rparr>,
     [\<lparr>sc_pc = Holding, sc_irq_mask = 1, sc_prev = 0, sc_entry = 0\<rparr>, idle_cpu])"

lemma held_state_reach: "spin_reach held_state"
proof -
  let ?c = "\<lambda>pc m. \<lparr>sc_pc = pc, sc_irq_mask = m, sc_prev = 0, sc_entry = 0 :: u32\<rparr>"
  note defs = in_lock_def spin_irq_mask_read_def spin_irq_mask_write_def spin_try_acquire_def
    spinlock_init_def
  have 0: "spin_reach (spinlock_init, [?c Outside 0, idle_cpu])"
    by (rule spin_reach.start) (simp add: spin_initial_def idle_cpu_def)
  have 1: "spin_reach (spinlock_init, [?c Lock_read_mask 0, idle_cpu])"
    using spin_reach.step [OF 0 spin_step.call_lock [of 0]] by simp
  have 2: "spin_reach (spinlock_init, [?c Lock_write_mask 0, idle_cpu])"
    using spin_reach.step [OF 1 spin_step.lock_instr [of 0]] by (simp add: defs)
  have 3: "spin_reach (spinlock_init, [?c Lock_cas 1, idle_cpu])"
    using spin_reach.step [OF 2 spin_step.lock_instr [of 0]] by (simp add: defs)
  have 4: "spin_reach (\<lparr>lk_v = 1, lk_irq_mask_prev = 0\<rparr>, [?c Lock_save_mask 1, idle_cpu])"
    using spin_reach.step [OF 3 spin_step.lock_instr [of 0]] by (simp add: defs)
  show ?thesis
    using spin_reach.step [OF 4 spin_step.lock_instr [of 0]] by (simp add: defs held_state_def)
qed

text \<open>C9. Whatever the interleaving, at most one processor is between the successful
  compare-and-swap and the releasing store, and it has its interrupts masked there.\<close>

theorem spinlock_mutual_exclusion:
  assumes "spin_reach (l, cs)" and "i < length cs" and "owns (cs ! i)"
  shows "sc_irq_mask (cs ! i) = 1 \<and> lk_v l \<noteq> 0 \<and> (\<forall>j < length cs. owns (cs ! j) \<longrightarrow> j = i)"
  using cpu_ok_ownsD [OF spin_reachD(1) [OF assms(1,2)] assms(3)] spin_reachD(2) [OF assms(1,2)] assms(3)
  by blast

theorem spinlock_mutual_exclusion_witness:
  "\<not> owns (snd held_state ! 1)"
  using spinlock_mutual_exclusion [of "fst held_state" "snd held_state" 0] held_state_reach
  by (simp add: held_state_def owns_def idle_cpu_def)

text \<open>A processor that returns from \<open>spinlock_unlock\<close> has the interrupt mask it had when it
  called \<open>spinlock_lock\<close>, although the saved mask is kept in the lock that others then take.\<close>

theorem spinlock_restores_mask:
  assumes "spin_reach (l, cs)" and "i < length cs" and "sc_pc (cs ! i) = Unlock_write_mask"
    and "spinlock_unlock_step l (cs ! i) = (l', c')"
  shows "sc_pc c' = Outside \<and> sc_irq_mask c' = sc_entry (cs ! i) AND 1 \<and> l' = l"
proof -
  have "sc_prev (cs ! i) = sc_entry (cs ! i) AND 1"
    using spin_reachD(1) [OF assms(1,2)] assms(3) by (simp add: cpu_ok_def)
  moreover have "(l', c') = (l, (spin_irq_mask_write (sc_prev (cs ! i)) (cs ! i))\<lparr>sc_pc := Outside\<rparr>)"
    using assms(3,4) by simp
  ultimately show ?thesis
    using mask_and_one [of "sc_entry (cs ! i)"] by (simp add: spin_irq_mask_write_def)
qed

theorem spinlock_restores_mask_witness:
  "\<exists>l cs. spin_reach (l, cs) \<and> sc_irq_mask (cs ! 0) = 1 \<and>
     sc_irq_mask (snd (spinlock_unlock_step l (cs ! 0))) = 0"
proof -
  let ?c = "\<lambda>pc. \<lparr>sc_pc = pc, sc_irq_mask = 1, sc_prev = 0, sc_entry = 0 :: u32\<rparr>"
  let ?l = "\<lambda>v. \<lparr>lk_v = v, lk_irq_mask_prev = 0\<rparr>"
  have 1: "spin_reach (?l 1, [?c Unlock_load_mask, idle_cpu])"
    using spin_reach.step [OF held_state_reach [unfolded held_state_def] spin_step.call_unlock [of 0]] by simp
  have 2: "spin_reach (?l 1, [?c Unlock_release, idle_cpu])"
    using spin_reach.step [OF 1 spin_step.unlock_instr [of 0]] by (simp add: in_unlock_def)
  have 3: "spin_reach (?l 0, [?c Unlock_write_mask, idle_cpu])"
    using spin_reach.step [OF 2 spin_step.unlock_instr [of 0]] by (simp add: in_unlock_def)
  obtain l' c' where e: "spinlock_unlock_step (?l 0) (?c Unlock_write_mask) = (l', c')" by fastforce
  have "sc_irq_mask c' = 0" using spinlock_restores_mask [OF 3, of 0 l' c'] e by (simp del: spinlock_unlock_step.simps)
  with 3 e show ?thesis by fastforce
qed

text \<open>When the lock is free and only this processor moves, \<open>spinlock_lock\<close> returns holding
  it after four instructions, the saved mask being the caller's.\<close>

theorem spinlock_lock_uncontended:
  assumes "lk_v l = 0" and "sc_pc c = Lock_read_mask"
  shows "((\<lambda>(l, c). spinlock_lock_step l c) ^^ 4) (l, c) =
    (\<lparr>lk_v = 1, lk_irq_mask_prev = sc_irq_mask c AND 1\<rparr>,
     c\<lparr>sc_pc := Holding, sc_irq_mask := 1, sc_prev := sc_irq_mask c AND 1\<rparr>)"
  using assms
  by (cases l) (simp add: numeral_eq_Suc spin_try_acquire_def spin_irq_mask_read_def
    spin_irq_mask_write_def)

theorem spinlock_lock_uncontended_witness:
  "((\<lambda>(l, c). spinlock_lock_step l c) ^^ 4) (spinlock_init, idle_cpu\<lparr>sc_pc := Lock_read_mask\<rparr>) =
    (\<lparr>lk_v = 1, lk_irq_mask_prev = 0\<rparr>, idle_cpu\<lparr>sc_pc := Holding, sc_irq_mask := 1\<rparr>)"
  using spinlock_lock_uncontended [of spinlock_init "idle_cpu\<lparr>sc_pc := Lock_read_mask\<rparr>"]
  by (simp add: spinlock_init_def idle_cpu_def)

end
