(* ===== verification/Divmod.thy ===== *)
theory Divmod
  imports Octans_Prelude "HOL-Library.Signed_Division" "HOL-Library.Monad_Syntax"
begin

text \<open>
  The 64-bit division helpers of \<open>src/compiler_rt_divmod.c\<close>, which the compiler calls for
  \<open>/\<close> and \<open>%\<close> on 64-bit integers. The routine shifts the divisor left until it is within a
  factor of two of the dividend and then subtracts bit by bit. The first loop is written as a
  partial function, as it runs forever on a zero divisor; the caller excludes that. Pointers to
  the remainder are the second component of the result.
\<close>

subsection \<open>The routines\<close>

definition uabsdi :: "u64 \<Rightarrow> u64" where
  "uabsdi V = (if sint V < 0 then 0 - V else V)"

partial_function (option) udiv_normalize :: "u64 \<Rightarrow> u64 \<Rightarrow> nat \<Rightarrow> (u64 \<times> nat) option" where
  "udiv_normalize A Div Shift =
     (if drop_bit 63 Div = 0 \<and> Div \<le> drop_bit 1 A
      then udiv_normalize A (push_bit 1 Div) (Suc Shift) else Some (Div, Shift))"

definition udiv_bit :: "u64 \<Rightarrow> u64 \<Rightarrow> u64 \<Rightarrow> u64 \<times> u64" where
  "udiv_bit A Div Quot =
     (let Quot = push_bit 1 Quot in if A \<ge> Div then (A - Div, Quot OR 1) else (A, Quot))"

fun udiv_bits :: "nat \<Rightarrow> u64 \<Rightarrow> u64 \<Rightarrow> u64 \<Rightarrow> u64 \<times> u64" where
  "udiv_bits 0 A Div Quot = udiv_bit A Div Quot"
| "udiv_bits (Suc Shift) A Div Quot =
     (case udiv_bit A Div Quot of (A', Quot') \<Rightarrow> udiv_bits Shift A' (drop_bit 1 Div) Quot')"

definition udivmoddi4 :: "u64 \<Rightarrow> u64 \<Rightarrow> (u64 \<times> u64) option" where
  "udivmoddi4 A B =
     (if B = 0 then Some (0, 0)
      else if A < B then Some (0, A)
      else do { (Div, Shift) \<leftarrow> udiv_normalize A B 0;
                let (R, Q) = udiv_bits Shift A Div 0;
                Some (Q, R) })"

definition udivdi3 :: "u64 \<Rightarrow> u64 \<Rightarrow> u64 option" where
  "udivdi3 A B = map_option fst (udivmoddi4 A B)"

definition umoddi3 :: "u64 \<Rightarrow> u64 \<Rightarrow> u64 option" where
  "umoddi3 A B = map_option snd (udivmoddi4 A B)"

definition divdi3 :: "u64 \<Rightarrow> u64 \<Rightarrow> u64 option" where
  "divdi3 A B =
     (if B = 0 then Some 0
      else let Neg = ((sint A < 0) \<noteq> (sint B < 0)) in
        map_option (\<lambda>Q. if Neg then - Q else Q) (udivdi3 (uabsdi A) (uabsdi B)))"

definition moddi3 :: "u64 \<Rightarrow> u64 \<Rightarrow> u64 option" where
  "moddi3 A B =
     (if B = 0 then Some 0
      else map_option (\<lambda>R. if sint A < 0 then - R else R) (umoddi3 (uabsdi A) (uabsdi B)))"

subsection \<open>Shifts as arithmetic\<close>

lemma unat_lt_u64: "unat (x :: u64) < 2 ^ 64"
  using unsigned_less [of x] by simp

lemma unat_shl1: "unat x < 2 ^ 63 \<Longrightarrow> unat (push_bit 1 (x :: u64)) = 2 * unat x"
  by (simp add: push_bit_eq_mult unat_word_ariths)

lemma unat_shr: "unat (drop_bit n (x :: u64)) = unat x div 2 ^ n"
  unfolding unat_drop_bit_eq by (rule drop_bit_eq_div)

lemma shl1_or_1: "push_bit 1 (q :: u64) OR 1 = push_bit 1 q + 1"
  by (rule disjunctive_add_eq_or [symmetric]) (simp add: and_one_eq mod_2_eq_odd)

lemma top_bit_clear: "drop_bit 63 (x :: u64) = 0 \<longleftrightarrow> unat x < 2 ^ 63"
proof -
  have "drop_bit 63 x = 0 \<longleftrightarrow> unat (drop_bit 63 x) = 0" by simp
  also have "\<dots> \<longleftrightarrow> unat x < 2 ^ 63" by (simp only: unat_shr) (simp add: div_eq_0_iff)
  finally show ?thesis .
qed

subsection \<open>The loops\<close>

text \<open>The first loop ends with the divisor shifted so that the dividend is below twice it.\<close>

lemma udiv_normalize_result:
  assumes "0 < unat D"
  shows "\<exists>D' k. udiv_normalize A D s = Some (D', s + k) \<and> unat D' = unat D * 2 ^ k \<and> unat A < 2 * unat D'"
  using assms
proof (induction "2 ^ 64 - unat D" arbitrary: D s rule: less_induct)
  case less
  show ?case
  proof (cases "drop_bit 63 D = 0 \<and> D \<le> drop_bit 1 A")
    case True
    then have d: "unat D < 2 ^ 63" by (simp add: top_bit_clear)
    note e = unat_shl1 [OF d]
    have "2 ^ 64 - unat (push_bit 1 D) < 2 ^ 64 - unat D" unfolding e using d less(2) by simp
    from less(1) [OF this, of "Suc s"] less(2) e obtain D' k where
      "udiv_normalize A (push_bit 1 D) (Suc s) = Some (D', Suc s + k)"
      "unat D' = 2 * unat D * 2 ^ k" "unat A < 2 * unat D'" by auto
    with True show ?thesis
      by (subst udiv_normalize.simps) (auto intro!: exI [of _ D'] exI [of _ "Suc k"])
  next
    case False
    have "unat A < 2 * unat D"
    proof (cases "drop_bit 63 D = 0")
      case True
      with False have "drop_bit 1 A < D" by auto
      then have "unat A div 2 < unat D" by (simp only: word_less_nat_alt unat_shr power_one_right)
      then show ?thesis by linarith
    next
      case False
      then have "2 ^ 63 \<le> unat D" by (simp add: top_bit_clear)
      then show ?thesis using unat_lt_u64 [of A] by simp
    qed
    with False show ?thesis
      by (subst udiv_normalize.simps) (auto intro!: exI [of _ D] exI [of _ 0])
  qed
qed

lemma udiv_bit_result:
  assumes q: "unat Q < 2 ^ 63" and a: "unat A < 2 * unat D" and e: "udiv_bit A D Q = (A', Q')"
  shows "unat A' < unat D" and "unat Q' = 2 * unat Q + unat A div unat D"
    and "unat A' = unat A mod unat D"
proof -
  note q2 = unat_shl1 [OF q]
  have q3: "unat (push_bit 1 Q OR 1) = 2 * unat Q + 1"
    unfolding shl1_or_1 using q q2 by (subst unat_inc [where n = "2 ^ 64 - 1"]) simp_all
  have "unat A' < unat D \<and> unat Q' = 2 * unat Q + unat A div unat D \<and> unat A' = unat A mod unat D"
  proof (cases "D \<le> A")
    case True
    then have le: "unat D \<le> unat A" by (simp add: word_le_nat_alt)
    with a have "unat A div unat D = 1" "unat A mod unat D = unat A - unat D"
      by (simp_all add: le_div_geq le_mod_geq)
    moreover have "A' = A - D" "Q' = push_bit 1 Q OR 1"
      using True e by (auto simp: udiv_bit_def Let_def)
    ultimately show ?thesis using q3 le a True by (simp only: unat_sub) linarith
  next
    case False
    then have "unat A < unat D" by (simp add: word_le_nat_alt not_le)
    moreover have "A' = A" "Q' = push_bit 1 Q"
      using False e by (auto simp: udiv_bit_def Let_def)
    ultimately show ?thesis using q2 by simp
  qed
  then show "unat A' < unat D" and "unat Q' = 2 * unat Q + unat A div unat D"
    and "unat A' = unat A mod unat D" by auto
qed


text \<open>The second loop divides by the unshifted divisor.\<close>

lemma udiv_bits_result:
  assumes "0 < b" and "unat D = b * 2 ^ s" and "unat A < 2 * unat D"
    and "unat Q * 2 ^ Suc s + unat A div b < 2 ^ 64" and "udiv_bits s A D Q = (R, Q')"
  shows "unat Q' = unat Q * 2 ^ Suc s + unat A div b \<and> unat R = unat A mod b"
  using assms
proof (induction s A D Q rule: udiv_bits.induct)
  case (1 A D Q)
  have "unat Q < 2 ^ 63" using 1(4) by simp
  with udiv_bit_result [OF this 1(3)] 1(2,5) show ?case by auto
next
  case (2 s A D Q)
  obtain A' Q1 where e: "udiv_bit A D Q = (A', Q1)" by fastforce
  have "unat Q * 2 ^ Suc (Suc s) < 2 ^ 64" using 2(5) by linarith
  moreover have "unat Q * 2 \<le> unat Q * 2 ^ Suc (Suc s)" by simp
  ultimately have "unat Q * 2 < 2 ^ 64" by (rule le_less_trans [rotated])
  then have "unat Q < 2 ^ 63" by simp
  note u = udiv_bit_result [OF this 2(4) e]
  have D: "unat (drop_bit 1 D) = b * 2 ^ s" unfolding unat_shr using 2(3) by simp
  have split: "unat A div b = (unat A div unat D) * 2 ^ Suc s + unat A' div b"
    and md: "unat A' mod b = unat A mod b"
  proof -
    have "unat A = (unat A div unat D) * unat D + unat A'" using u(3) by simp
    also have "\<dots> = b * ((unat A div unat D) * 2 ^ Suc s) + unat A'" using 2(3) by simp
    finally have a: "unat A = b * ((unat A div unat D) * 2 ^ Suc s) + unat A'" .
    show "unat A div b = (unat A div unat D) * 2 ^ Suc s + unat A' div b"
      by (subst a) (use 2(2) in simp)
    show "unat A' mod b = unat A mod b" using arg_cong [OF a, of "\<lambda>x. x mod b"] by simp
  qed
  have sum: "unat Q1 * 2 ^ Suc s + unat A' div b = unat Q * 2 ^ Suc (Suc s) + unat A div b"
    unfolding split u(2) by (simp add: algebra_simps)
  have "unat Q' = unat Q1 * 2 ^ Suc s + unat A' div b \<and> unat R = unat A' mod b"
  proof (rule 2(1) [OF e [symmetric] 2(2) D])
    show "unat A' < 2 * unat (drop_bit 1 D)" using u(1) D 2(3) by simp
    show "unat Q1 * 2 ^ Suc s + unat A' div b < 2 ^ 64" unfolding sum by (rule 2(5))
    show "udiv_bits s A' (drop_bit 1 D) Q1 = (R, Q')" using 2(6) e by simp
  qed
  with sum md show ?case by simp
qed

lemma udivmoddi4_result: "udivmoddi4 A B = Some (A div B, if B = 0 then 0 else A mod B)"
proof (cases "B = 0 \<or> A < B")
  case True
  have "A div B = 0 \<and> A mod B = A" if "A < B"
    using that unfolding word_unat_eq_iff unat_div_distrib unat_mod_distrib
    by (simp add: word_less_nat_alt)
  with True show ?thesis by (auto simp: udivmoddi4_def)
next
  case False
  then have b: "0 < unat B" by (simp add: unat_gt_0)
  from udiv_normalize_result [OF b, of A 0] obtain D k where
    n: "udiv_normalize A B 0 = Some (D, k)" "unat D = unat B * 2 ^ k" "unat A < 2 * unat D" by auto
  obtain R Q where l: "udiv_bits k A D 0 = (R, Q)" by fastforce
  have "unat A div unat B < 2 ^ 64"
    using unat_lt_u64 [of A] div_le_dividend [of "unat A" "unat B"] by linarith
  with udiv_bits_result [OF b n(2,3) _ l] have "unat Q = unat A div unat B \<and> unat R = unat A mod unat B"
    by simp
  then have "Q = A div B" "R = A mod B"
    by (simp_all add: word_unat_eq_iff unat_div_distrib unat_mod_distrib)
  with False n(1) l show ?thesis by (simp add: udivmoddi4_def)
qed

subsection \<open>Signed division\<close>

lemma sint_eq_word: "(w :: u64) = word_of_int (sint w)"
  by simp

lemma uint_uabsdi: "uint (uabsdi V) = \<bar>sint V\<bar>"
proof -
  have r: "- (2 ^ 63) \<le> sint V" "sint V < 2 ^ 63" using sint_ge [of V] sint_lt [of V] by simp_all
  have u: "uint (word_of_int x :: u64) = x" if "0 \<le> x" "x < 2 ^ 64" for x
    using that by (simp add: uint_word_of_int)
  show ?thesis
  proof (cases "sint V < 0")
    case True
    have "uabsdi V = word_of_int (- sint V)" using True by (simp add: uabsdi_def)
    with u [of "- sint V"] True r show ?thesis by simp
  next
    case False
    have "uabsdi V = word_of_int (sint V)" using False by (simp add: uabsdi_def)
    with u [of "sint V"] False r show ?thesis by simp
  qed
qed

lemma uabsdi_0: "uabsdi B = 0 \<longleftrightarrow> B = 0"
proof -
  have "uabsdi B = 0 \<longleftrightarrow> uint (uabsdi B) = 0" by (rule uint_0_iff [symmetric])
  also have "\<dots> \<longleftrightarrow> B = 0" unfolding uint_uabsdi by (simp add: signed_eq_0_iff)
  finally show ?thesis .
qed

lemma udiv_abs: "uabsdi A div uabsdi B = word_of_int (\<bar>sint A\<bar> div \<bar>sint B\<bar>)"
  using uint_uabsdi [of A] uint_uabsdi [of B] by (metis word_div_def)

lemma umod_abs: "uabsdi A mod uabsdi B = word_of_int (\<bar>sint A\<bar> mod \<bar>sint B\<bar>)"
  using uint_uabsdi [of A] uint_uabsdi [of B] by (metis word_mod_def)

subsection \<open>Properties\<close>

text \<open>C10. The unsigned routine terminates on all inputs and computes the quotient and the
  remainder; a zero divisor gives zero for both.\<close>

theorem udivmoddi4_correct:
  "udivmoddi4 A B = Some (A div B, if B = 0 then 0 else A mod B) \<and>
   udivdi3 A B = Some (A div B) \<and> umoddi3 A B = Some (if B = 0 then 0 else A mod B)"
  by (simp add: udivdi3_def umoddi3_def udivmoddi4_result)

text \<open>The signed routines compute C's division, which rounds towards zero, and its
  remainder, modulo \<open>2 ^ 64\<close>; the one quotient that is not representable,
  \<open>INT64_MIN / -1\<close>, wraps, and a zero divisor gives zero for both.\<close>

theorem divdi3_moddi3_correct:
  "divdi3 A B = Some (word_of_int (sint A sdiv sint B)) \<and>
   moddi3 A B = Some (if B = 0 then 0 else word_of_int (sint A smod sint B))"
proof -
  have q: "word_of_int (sint A sdiv sint B) =
      (if B = 0 then 0 else if (sint A < 0) \<noteq> (sint B < 0) then - (uabsdi A div uabsdi B)
       else uabsdi A div uabsdi B)"
    unfolding udiv_abs by (auto simp: signed_divide_int_def sgn_if)
  have r: "word_of_int (sint A smod sint B) =
      (if sint A < 0 then - (uabsdi A mod uabsdi B) else uabsdi A mod uabsdi B)" if "B \<noteq> 0"
    unfolding umod_abs using that
    by (auto simp: signed_modulo_int_def signed_divide_int_def sgn_if minus_mult_div_eq_mod minus_div_mult_eq_mod)
  show ?thesis
    using q r by (simp add: divdi3_def moddi3_def udivdi3_def umoddi3_def udivmoddi4_result uabsdi_0)
qed

end
