(* ===== verification/Timedate.thy ===== *)
theory Timedate
  imports Octans_Prelude "HOL-Library.Signed_Division"
begin

text \<open>
  The conversion of a Unix time to a calendar date in \<open>src/timedate.c\<close> and
  \<open>include/kernel/timedate.h\<close>. An \<open>int64_t\<close> is an \<open>int\<close>: every intermediate value stays far
  inside 64 bits for a 64-bit time stamp (the largest is the argument itself). The
  \<open>uint32_t\<close> values are words, the conversions to \<open>int\<close> truncate to 32 bits, and \<open>/\<close> and \<open>%\<close>
  on signed values round towards zero (\<open>sdiv\<close>, \<open>smod\<close>).

  The specification is the Gregorian calendar itself: leap years, lengths of months and the
  number of days between a date and 1970-01-01.
\<close>

subsection \<open>The code\<close>

record DateTime =
  dt_year :: int
  dt_month :: int
  dt_day :: int
  dt_hour :: int
  dt_minute :: int
  dt_second :: int

definition to_c_int :: "int \<Rightarrow> int" where
  "to_c_int x = signed_take_bit 31 x"

definition floor_div :: "int \<Rightarrow> int \<Rightarrow> int" where
  "floor_div a b = (let q = a sdiv b; r = a smod b in
     if r \<noteq> 0 \<and> (r > 0) \<noteq> (b > 0) then q - 1 else q)"

definition floor_mod :: "int \<Rightarrow> int \<Rightarrow> int" where
  "floor_mod a b = (let r = a smod b in if r \<noteq> 0 \<and> (r > 0) \<noteq> (b > 0) then r + b else r)"

definition civil_from_days :: "int \<Rightarrow> int \<times> int \<times> int" where
  "civil_from_days z =
     (let z = z + 719468;
          era = (if z \<ge> 0 then z else z - 146096) sdiv 146097;
          doe = word_of_int (z - era * 146097) :: u32;
          yoe = (doe - doe div 1460 + doe div 36524 - doe div 146096) div 365;
          y = uint yoe + era * 400;
          doy = doe - (365 * yoe + yoe div 4 - yoe div 100);
          mp = (5 * doy + 2) div 153;
          d = doy - (153 * mp + 2) div 5 + 1;
          m = mp + (if mp < 10 then 3 else - 9)
      in (to_c_int (y + of_bool (m \<le> 2)), to_c_int (uint m), to_c_int (uint d)))"

definition unix_to_datetime_utc :: "int \<Rightarrow> DateTime" where
  "unix_to_datetime_utc ts =
     (let days = floor_div ts 86400; rem = floor_mod ts 86400;
          (year, month, day) = civil_from_days days
      in \<lparr>dt_year = year, dt_month = month, dt_day = day,
          dt_hour = to_c_int (rem sdiv 3600),
          dt_minute = to_c_int ((rem smod 3600) sdiv 60),
          dt_second = to_c_int (rem smod 60)\<rparr>)"

subsection \<open>The calendar\<close>

definition leap :: "int \<Rightarrow> bool" where
  "leap y \<longleftrightarrow> (y mod 4 = 0 \<and> y mod 100 \<noteq> 0) \<or> y mod 400 = 0"

definition days_in_month :: "int \<Rightarrow> int \<Rightarrow> int" where
  "days_in_month y m =
     (if m = 2 then (if leap y then 29 else 28)
      else if m \<in> {4, 6, 9, 11} then 30 else 31)"

definition valid_date :: "int \<Rightarrow> int \<Rightarrow> int \<Rightarrow> bool" where
  "valid_date y m d \<longleftrightarrow> 1 \<le> m \<and> m \<le> 12 \<and> 1 \<le> d \<and> d \<le> days_in_month y m"

text \<open>Leap years up to and including year \<open>y\<close>, counted from year 1.\<close>

definition leaps_upto :: "int \<Rightarrow> int" where
  "leaps_upto y = y div 4 - y div 100 + y div 400"

definition days_before_month :: "int \<Rightarrow> int \<Rightarrow> int" where
  "days_before_month y m = sum_list (map (days_in_month y) [1..m - 1])"

definition days_from_civil :: "int \<Rightarrow> int \<Rightarrow> int \<Rightarrow> int" where
  "days_from_civil y m d =
     365 * (y - 1970) + (leaps_upto (y - 1) - leaps_upto 1969) + days_before_month y m + (d - 1)"

text \<open>\<open>leaps_upto\<close> counts what it says: it grows by one exactly at a leap year.\<close>

lemma leaps_upto_step: "leaps_upto y = leaps_upto (y - 1) + of_bool (leap y)"
proof -
  have step: "y div k = (y - 1) div k + of_bool (y mod k = 0)" if "1 < k" for k :: int
  proof (cases "y mod k = 0")
    case True
    then obtain c where c: "y = k * c" by auto
    have "(k * c - 1) div k = c - 1" using that by (intro int_div_pos_eq [where r = "k - 1"]) (auto simp: algebra_simps)
    with True c that show ?thesis by simp
  next
    case False
    have r: "0 < y mod k" "y mod k < k" using False that pos_mod_bound [of k y] pos_mod_sign [of k y] by linarith+
    have "(y - 1) div k = y div k"
      using r by (intro int_div_pos_eq [where r = "y mod k - 1"]) (auto simp: algebra_simps)
    with False show ?thesis by simp
  qed
  have "4 dvd y" if "100 dvd y" using that by (auto elim!: dvdE)
  moreover have "100 dvd y" if "400 dvd y" using that by (auto elim!: dvdE)
  ultimately have "y mod 400 = 0 \<Longrightarrow> y mod 100 = 0" "y mod 100 = 0 \<Longrightarrow> y mod 4 = 0"
    by (auto simp: dvd_eq_mod_eq_0)
  then show ?thesis
    unfolding leaps_upto_def leap_def step [of 4, simplified] step [of 100, simplified] step [of 400, simplified]
    by auto
qed

subsection \<open>Rounding\<close>

lemma neg_div: "0 < k \<Longrightarrow> (- n) div k = - ((n + k - 1) div k)" for n k :: int
proof -
  assume k: "0 < k"
  let ?x = "n + k - 1"
  have r: "0 \<le> ?x mod k" "?x mod k < k" using k by simp_all
  show ?thesis
  proof (rule int_div_pos_eq [where r = "k - 1 - ?x mod k"])
    have "?x = k * (?x div k) + ?x mod k" by simp
    then show "- n = k * - (?x div k) + (k - 1 - ?x mod k)" by linarith
  qed (use r in linarith)+
qed

lemma floor_div_eq: "0 < b \<Longrightarrow> floor_div a b = a div b"
  and floor_mod_eq: "0 < b \<Longrightarrow> floor_mod a b = a mod b" for a b :: int
proof -
  assume b: "0 < b"
  have "floor_div a b = a div b \<and> floor_mod a b = a mod b"
  proof (cases "0 \<le> a")
    case True
    have "a mod b = 0 \<or> 0 < a mod b" using pos_mod_sign [OF b, of a] by linarith
    with b True show ?thesis
      by (auto simp: floor_div_def floor_mod_def signed_divide_int_def signed_modulo_int_def sgn_if
        Let_def minus_div_mult_eq_mod)
  next
    case False
    define n where "n = - a"
    have n: "a = - n" "0 < n" using False by (simp_all add: n_def)
    have q: "a sdiv b = - (n div b)" using b n by (simp add: signed_divide_int_def sgn_if)
    have r: "a smod b = - (n mod b)"
      using b n unfolding signed_modulo_int_def q by (simp add: minus_mult_div_eq_mod [symmetric] algebra_simps)
    have "floor_div a b = (- n) div b \<and> floor_mod a b = (- n) mod b"
      using b pos_mod_bound [OF b, of n] pos_mod_sign [OF b, of n]
      by (auto simp: floor_div_def floor_mod_def q r Let_def zdiv_zminus1_eq_if zmod_zminus1_eq_if)
    with n show ?thesis by simp
  qed
  then show "floor_div a b = a div b" "floor_mod a b = a mod b" by auto
qed

lemma era_eq: "(if z \<ge> 0 then z else z - 146096) sdiv 146097 = z div (146097 :: int)"
proof (cases "z \<ge> 0")
  case False
  define n where "n = - z"
  have z: "z = - n" "0 < n" using False by (simp_all add: n_def)
  have "(z - 146096) sdiv 146097 = - ((n + 146096) div 146097)"
    using z by (simp add: signed_divide_int_def sgn_if add.commute)
  with False z show ?thesis using neg_div [of 146097 n] by simp
qed (simp add: signed_divide_int_def sgn_if)

subsection \<open>The year of the era\<close>

definition era_days :: "int \<Rightarrow> int" where
  "era_days d = d - d div 1460 + d div 36524 - d div 146096"

definition year_start :: "int \<Rightarrow> int" where
  "year_start y = 365 * y + leaps_upto y"

lemma era_days_step: "era_days d \<le> era_days (d + 1)"
proof -
  have inc: "(d + 1) div k = d div k \<or> (d + 1) div k = d div k + 1" if "0 < k" for d k :: int
    using that by (smt (verit) div_add_self2 zdiv_mono1)
  define x where "x = d div 36524"
  define x' where "x' = (d + 1) div 36524"
  have 4: "d div 146096 = x div 4" "(d + 1) div 146096 = x' div 4"
    unfolding x_def x'_def by (simp_all add: div_mult2_eq [of _ 36524 4, simplified] zdiv_zmult2_eq [of 4 _ 36524, simplified])
  have "x' = x \<or> x' = x + 1" using inc [of 36524 d] by (simp add: x_def x'_def)
  with inc [of 4 x] have "x' div 4 - x div 4 \<le> x' - x" by (smt (verit) zdiv_mono1)
  with inc [of 1460 d] show ?thesis unfolding era_days_def 4 x_def [symmetric] x'_def [symmetric] by auto
qed

lemma era_days_mono: "a \<le> b \<Longrightarrow> era_days a \<le> era_days b"
proof (induction "nat (b - a)" arbitrary: b)
  case (Suc n)
  then have "era_days a \<le> era_days (b - 1)" by (intro Suc(1)) auto
  also have "\<dots> \<le> era_days b" using era_days_step [of "b - 1"] by simp
  finally show ?case .
qed simp

lemma era_years: "list_all (\<lambda>y. era_days (year_start y) div 365 = y \<and>
    era_days (year_start (y + 1) - 1) div 365 = y) [0..399]"
  by code_simp

lemma between_steps:
  fixes f :: "nat \<Rightarrow> int"
  shows "f 0 \<le> d \<Longrightarrow> d < f n \<Longrightarrow> \<exists>i < n. f i \<le> d \<and> d < f (Suc i)"
proof (induction n)
  case (Suc n)
  then show ?case by (cases "f n \<le> d") (auto simp: less_Suc_eq)
qed simp

lemma year_of_era:
  assumes "0 \<le> d" "d < 146097" "y = era_days d div 365"
  shows "0 \<le> y" "y < 400" "year_start y \<le> d" "d < year_start (y + 1)"
proof -
  have "year_start 0 = 0" "year_start 400 = 146097" by (simp_all add: year_start_def leaps_upto_def)
  then obtain i where i: "i < 400" "year_start (int i) \<le> d" "d < year_start (int i + 1)"
    using between_steps [of "\<lambda>i. year_start (int i)" d 400] assms(1,2) by (auto simp: add.commute)
  have "int i \<in> set [0..399]" using i by simp
  then have c: "era_days (year_start (int i)) div 365 = int i"
      "era_days (year_start (int i + 1) - 1) div 365 = int i"
    using era_years unfolding list_all_iff by blast+
  have "era_days (year_start (int i)) \<le> era_days d" by (rule era_days_mono [OF i(2)])
  moreover have "era_days d \<le> era_days (year_start (int i + 1) - 1)"
    by (rule era_days_mono) (use i(3) in simp)
  ultimately have "y = int i"
    using c assms(3) zdiv_mono1 [of _ _ 365] by (metis order_antisym zero_less_numeral)
  with i show "0 \<le> y" "y < 400" "year_start y \<le> d" "d < year_start (y + 1)" by auto
qed

lemma year_length: "year_start (y + 1) = year_start y + 365 + of_bool (leap (y + 1))"
  using leaps_upto_step [of "y + 1"] by (simp add: year_start_def)

lemma year_start_era: "year_start (e * 400 + y) = e * 146097 + year_start y"
proof -
  have "(e * 400 + y) div 4 = e * 100 + y div 4" "(e * 400 + y) div 100 = e * 4 + y div 100"
    "(e * 400 + y) div 400 = e + y div 400"
    using div_mult_self1 [of 4 y "e * 100"] div_mult_self1 [of 100 y "e * 4"]
    by (simp_all add: algebra_simps)
  then show ?thesis by (simp add: year_start_def leaps_upto_def)
qed

lemma leap_era: "leap (e * 400 + y) = leap y"
proof -
  have "(e * 400 + y) mod k = y mod k" if "k dvd 400" for k
    using that by (metis dvd_mult mod_mult_self3 add.commute dvd_eq_mod_eq_0 mod_add_right_eq add.right_neutral)
  then show ?thesis by (simp add: leap_def)
qed

subsection \<open>Month and day\<close>

text \<open>Day \<open>d\<close> of a year that starts in March is in month \<open>mp\<close>, counted from March, and the
  first of that month is \<open>(153 mp + 2) div 5\<close> days after the first of March.\<close>

definition march_ok :: "int \<Rightarrow> int \<Rightarrow> int \<Rightarrow> int \<Rightarrow> bool" where
  "march_ok d mp k m \<longleftrightarrow> 0 \<le> mp \<and> mp \<le> 11 \<and> 1 \<le> k \<and> (153 * mp + 2) div 5 \<le> d \<and>
    k \<le> (if m = 2 then (if d = 365 then 29 else 28) else if m \<in> {4, 6, 9, 11} then 30 else 31)"

lemma march_days: "list_all (\<lambda>d. march_ok d ((5 * d + 2) div 153)
    (d - (153 * ((5 * d + 2) div 153) + 2) div 5 + 1)
    (if (5 * d + 2) div 153 < 10 then (5 * d + 2) div 153 + 3 else (5 * d + 2) div 153 - 9)) [0..365]"
  by code_simp

lemma march_day:
  assumes "0 \<le> d" "d \<le> 365" "mp = (5 * d + 2) div 153" "k = d - (153 * mp + 2) div 5 + 1"
    "m = (if mp < 10 then mp + 3 else mp - 9)"
  shows "march_ok d mp k m"
proof -
  have "d \<in> set [0..365]" using assms by simp
  from march_days [unfolded list_all_iff, rule_format, OF this] show ?thesis
    unfolding assms(4,5) by (simp only: assms(3))
qed

lemma days_before_month_eq:
  assumes "0 \<le> mp" "mp \<le> 11"
  shows "days_before_month y (if mp < 10 then mp + 3 else mp - 9) =
    (if mp < 10 then 59 + of_bool (leap y) else - 306) + (153 * mp + 2) div 5"
proof -
  have "mp \<in> set [0..11]" using assms by simp
  then have "mp \<in> {0, 1, 2, 3, 4, 5, 6, 7, 8, 9, 10, 11}" by (simp add: upto_rec1)
  then show ?thesis
    by (elim insertE emptyE) (simp_all add: days_before_month_def days_in_month_def upto_rec1)
qed

text \<open>The calculation on integers: the date it gives is valid and is day \<open>z\<close>.\<close>

definition civil :: "int \<Rightarrow> int \<times> int \<times> int" where
  "civil z = (let era = (z + 719468) div 146097; doe = (z + 719468) mod 146097;
       yoe = era_days doe div 365; doy = doe - year_start yoe; mp = (5 * doy + 2) div 153;
       d = doy - (153 * mp + 2) div 5 + 1; m = (if mp < 10 then mp + 3 else mp - 9)
     in (era * 400 + yoe + of_bool (m \<le> 2), m, d))"

lemma civil_correct:
  assumes "civil z = (y, m, d)"
  shows "valid_date y m d" and "days_from_civil y m d = z"
proof -
  define era where "era = (z + 719468) div 146097"
  define doe where "doe = (z + 719468) mod 146097"
  define yoe where "yoe = era_days doe div 365"
  define doy where "doy = doe - year_start yoe"
  define mp where "mp = (5 * doy + 2) div 153"
  define Y where "Y = era * 400 + yoe"
  have res: "m = (if mp < 10 then mp + 3 else mp - 9)" "d = doy - (153 * mp + 2) div 5 + 1"
      "y = Y + of_bool (m \<le> 2)"
    using assms [unfolded civil_def Let_def, folded era_def doe_def, folded yoe_def,
      folded doy_def, folded mp_def, folded Y_def] by auto
  have doe: "0 \<le> doe" "doe < 146097" by (simp_all add: doe_def)
  note yr = year_of_era [OF doe yoe_def]
  have doy: "0 \<le> doy" "doy < 365 + of_bool (leap (yoe + 1))"
    using yr year_length [of yoe] by (simp_all add: doy_def)
  then have "doy \<le> 365" by (simp split: if_splits add: of_bool_def)
  note mo = march_day [OF doy(1) this mp_def res(2,1), unfolded march_ok_def]
  then have mo1: "0 \<le> mp" "mp \<le> 11" and mo2: "1 \<le> d"
    "d \<le> (if m = 2 then (if doy = 365 then 29 else 28) else if m \<in> {4, 6, 9, 11} then 30 else 31)"
    by simp_all
  have lp: "leap (Y + 1) = leap (yoe + 1)"
    using leap_era [of era "yoe + 1"] by (simp add: Y_def algebra_simps)
  have m2: "m \<le> 2 \<longleftrightarrow> 10 \<le> mp" "1 \<le> m" "m \<le> 12" using mo1 by (auto simp: res)
  show "valid_date y m d"
  proof (cases "m = 2")
    case True
    then have "y = Y + 1" by (simp add: res)
    with True mo2 doy(2) lp show ?thesis
      by (auto simp: valid_date_def days_in_month_def split: if_splits)
  next
    case False
    with mo2 m2 show ?thesis by (simp add: valid_date_def days_in_month_def)
  qed
  have z: "z = era * 146097 + year_start yoe + doy - 719468"
    using mult_div_mod_eq [of 146097 "z + 719468"] by (simp add: doy_def era_def doe_def)
  have zY: "z = year_start Y + doy - 719468"
    unfolding z Y_def year_start_era by simp
  note dbm = days_before_month_eq [OF mo1(1,2), of y, folded res(1)]
  have L: "leaps_upto 1969 = 477" by (simp add: leaps_upto_def)
  show "days_from_civil y m d = z"
  proof (cases "mp < 10")
    case True
    then have y: "y = Y" using m2 res(3) by simp
    have "leaps_upto Y = leaps_upto (Y - 1) + of_bool (leap Y)" by (rule leaps_upto_step)
    with True dbm y show ?thesis
      unfolding days_from_civil_def zY L res(2) year_start_def by simp
  next
    case False
    then have y: "y = Y + 1" using m2 res(3) by simp
    with False dbm show ?thesis
      unfolding days_from_civil_def zY L res(2) year_start_def by simp
  qed
qed

subsection \<open>The code computes the calculation on integers\<close>

lemma uint_ops:
  fixes a b :: u32
  shows "uint b \<le> uint a \<Longrightarrow> uint (a - b) = uint a - uint b"
    and "uint a + uint b < 2 ^ 32 \<Longrightarrow> uint (a + b) = uint a + uint b"
    and "uint a * uint b < 2 ^ 32 \<Longrightarrow> uint (a * b) = uint a * uint b"
    and "uint (a div b) = uint a div uint b"
proof -
  have r: "0 \<le> uint a" "0 \<le> uint b" "uint a < 2 ^ 32" using uint_lt2p [of a] by simp_all
  have m: "x mod 2 ^ 32 = x" if "0 \<le> x" "x < 2 ^ 32" for x :: int
    using that by (rule mod_pos_pos_trivial)
  show "uint (a - b) = uint a - uint b" if *: "uint b \<le> uint a"
  proof -
    have "(uint a - uint b) mod 2 ^ 32 = uint a - uint b"
      by (rule m) (use r * in linarith)+
    then show ?thesis by (simp add: uint_word_ariths)
  qed
  show "uint (a + b) = uint a + uint b" if *: "uint a + uint b < 2 ^ 32"
  proof -
    have "(uint a + uint b) mod 2 ^ 32 = uint a + uint b"
      by (rule m) (use r * in \<open>simp_all\<close>)
    then show ?thesis by (simp add: uint_word_ariths)
  qed
  show "uint (a * b) = uint a * uint b" if *: "uint a * uint b < 2 ^ 32"
  proof -
    have "(uint a * uint b) mod 2 ^ 32 = uint a * uint b"
      by (rule m) (use r * in \<open>simp_all\<close>)
    then show ?thesis by (simp add: uint_word_ariths)
  qed
  show "uint (a div b) = uint a div uint b" by (rule uint_div_distrib)
qed

lemma to_c_int_id: "- (2 ^ 31) \<le> x \<Longrightarrow> x < 2 ^ 31 \<Longrightarrow> to_c_int x = x"
  unfolding to_c_int_def by (rule signed_take_bit_int_eq_self) simp_all

lemma word_doy:
  assumes doe: "uint (doe :: u32) = d" "0 \<le> d" "d < 146097"
  defines "yoe \<equiv> (doe - doe div 1460 + doe div 36524 - doe div 146096) div 365"
  defines "doy \<equiv> doe - (365 * yoe + yoe div 4 - yoe div 100)"
  shows "uint yoe = era_days d div 365" and "uint doy = d - year_start (era_days d div 365)"
proof -
  let ?y = "era_days d div 365"
  note yr = year_of_era [OF doe(2,3) refl]
  have le: "d div 1460 \<le> d" "0 \<le> d div 1460" "0 \<le> d div 36524" "d div 36524 \<le> d"
      "0 \<le> d div 146096" "d div 146096 \<le> d div 36524"
    using doe by (simp_all add: div_le_dividend int_div_less_self zdiv_mono2) 
  have a: "uint (doe - doe div 1460) = d - d div 1460"
    by (subst uint_ops(1)) (use doe le in \<open>simp_all add: uint_ops(4)\<close>)
  have b: "uint (doe - doe div 1460 + doe div 36524) = d - d div 1460 + d div 36524"
    by (subst uint_ops(2)) (use doe le a in \<open>simp_all add: uint_ops(4)\<close>)
  have c: "uint (doe - doe div 1460 + doe div 36524 - doe div 146096) = era_days d"
    unfolding era_days_def by (subst uint_ops(1)) (use doe le b in \<open>simp_all add: uint_ops(4)\<close>)
  show y: "uint yoe = ?y" unfolding yoe_def by (simp add: uint_ops(4) c)
  have q: "uint (365 * yoe) = 365 * ?y"
    by (subst uint_ops(3)) (use y yr in simp_all)
  have r: "uint (365 * yoe + yoe div 4) = 365 * ?y + ?y div 4"
    by (subst uint_ops(2)) (use y yr q in \<open>simp_all add: uint_ops(4)\<close>)
  have yl: "?y div 100 \<le> ?y" "0 \<le> ?y div 4" "?y div 400 = 0"
    using yr zdiv_mono2 [of ?y 1 100] by (simp_all add: pos_imp_zdiv_nonneg_iff)
  have s: "uint (365 * yoe + yoe div 4 - yoe div 100) = year_start ?y"
    by (subst uint_ops(1)) (use y yl yr(1) r in \<open>simp_all add: uint_ops(4) year_start_def leaps_upto_def\<close>)
  show "uint doy = d - year_start ?y"
    unfolding doy_def by (subst uint_ops(1)) (use s doe yr in simp_all)
qed

lemma word_month:
  assumes doy: "uint (doy :: u32) = d" "0 \<le> d" "d \<le> 365"
  defines "mp \<equiv> (5 * doy + 2) div 153" and "p \<equiv> (5 * d + 2) div 153"
  shows "uint (doy - (153 * mp + 2) div 5 + 1) = d - (153 * p + 2) div 5 + 1"
    and "uint (mp + (if mp < 10 then 3 else - 9)) = (if p < 10 then p + 3 else p - 9)"
proof -
  note mo = march_day [OF doy(2,3) p_def [THEN meta_eq_to_obj_eq] refl refl, unfolded march_ok_def]
  have a: "uint (5 * doy) = 5 * d" by (subst uint_ops(3)) (use doy in simp_all)
  have b: "uint (5 * doy + 2) = 5 * d + 2" by (subst uint_ops(2)) (use doy a in simp_all)
  have mp: "uint mp = p" unfolding mp_def p_def by (simp add: uint_ops(4) b)
  have c: "uint (153 * mp) = 153 * p" by (subst uint_ops(3)) (use mp mo in simp_all)
  have e: "uint (153 * mp + 2) = 153 * p + 2" by (subst uint_ops(2)) (use mp mo c in simp_all)
  have f: "uint (doy - (153 * mp + 2) div 5) = d - (153 * p + 2) div 5"
    by (subst uint_ops(1)) (use mo doy e in \<open>simp_all add: uint_ops(4)\<close>)
  show "uint (doy - (153 * mp + 2) div 5 + 1) = d - (153 * p + 2) div 5 + 1"
    by (subst uint_ops(2)) (use mo doy f in auto)
  have lt: "mp < 10 \<longleftrightarrow> p < 10" by (simp add: word_less_def mp)
  show "uint (mp + (if mp < 10 then 3 else - 9)) = (if p < 10 then p + 3 else p - 9)"
  proof (cases "p < 10")
    case True
    have "uint (mp + 3) = p + 3" by (subst uint_ops(2)) (use mp mo in simp_all)
    with True lt show ?thesis by simp
  next
    case False
    have "uint (mp - 9) = p - 9" by (subst uint_ops(1)) (use mp mo False in simp_all)
    with False lt show ?thesis by simp
  qed
qed

lemma civil_from_days_eq:
  "civil_from_days z = (case civil z of (y, m, d) \<Rightarrow> (to_c_int y, m, d))"
proof -
  define era where "era = (z + 719468) div 146097"
  define D where "D = (z + 719468) mod 146097"
  define doe :: u32 where "doe = word_of_int D"
  define yoe where "yoe = (doe - doe div 1460 + doe div 36524 - doe div 146096) div 365"
  define doy where "doy = doe - (365 * yoe + yoe div 4 - yoe div 100)"
  define mp where "mp = (5 * doy + 2) div 153"
  define Y where "Y = era_days D div 365"
  define E where "E = D - year_start Y"
  define p where "p = (5 * E + 2) div 153"
  have D: "0 \<le> D" "D < 146097" by (simp_all add: D_def)
  have doe: "uint doe = D" using D by (simp add: doe_def uint_word_of_int)
  note y = word_doy [OF doe D, folded yoe_def, folded doy_def Y_def, folded E_def]
  note yr = year_of_era [OF D Y_def]
  have E: "0 \<le> E" "E \<le> 365" using yr year_length [of Y] by (auto simp: E_def of_bool_def split: if_splits)
  note w = word_month [OF y(2) E, folded mp_def p_def]
  note mo = march_day [OF E p_def refl refl, unfolded march_ok_def]
  have m2: "mp + (if mp < 10 then 3 else - 9) \<le> 2 \<longleftrightarrow> (if p < 10 then p + 3 else p - 9) \<le> 2"
    by (simp add: word_le_def w(2) del: uint_ops)
  have D': "z + 719468 - era * 146097 = D"
    using minus_div_mult_eq_mod [of "z + 719468" 146097] by (simp add: era_def D_def)
  have "civil_from_days z = (to_c_int (uint yoe + era * 400 + of_bool (mp + (if mp < 10 then 3 else - 9) \<le> 2)),
      to_c_int (uint (mp + (if mp < 10 then 3 else - 9))), to_c_int (uint (doy - (153 * mp + 2) div 5 + 1)))"
    unfolding civil_from_days_def Let_def era_eq
    by (simp only: era_def [symmetric] D' doe_def [symmetric] yoe_def [symmetric] doy_def [symmetric]
        mp_def [symmetric])
  also have "\<dots> = (to_c_int (era * 400 + Y + of_bool ((if p < 10 then p + 3 else p - 9) \<le> 2)),
      (if p < 10 then p + 3 else p - 9), E - (153 * p + 2) div 5 + 1)"
    unfolding m2 w y(1) using mo by (subst (2 3) to_c_int_id) (auto simp: add.commute split: if_splits)
  also have "\<dots> = (case civil z of (y, m, d) \<Rightarrow> (to_c_int y, m, d))"
    unfolding civil_def Let_def era_def [symmetric] D_def [symmetric] Y_def [symmetric] E_def [symmetric]
      p_def [symmetric] by simp
  finally show ?thesis .
qed

lemma unix_to_datetime_utc_eq:
  assumes "civil (ts div 86400) = (y, m, d)"
  shows "unix_to_datetime_utc ts = \<lparr>dt_year = to_c_int y, dt_month = m, dt_day = d,
    dt_hour = ts mod 86400 div 3600, dt_minute = ts mod 86400 mod 3600 div 60, dt_second = ts mod 86400 mod 60\<rparr>"
proof -
  have r: "0 \<le> ts mod 86400" "ts mod 86400 < 86400" by simp_all
  let ?r = "ts mod 86400"
  have s: "?r sdiv 3600 = ?r div 3600" "?r smod 3600 = ?r mod 3600" "?r smod 60 = ?r mod 60"
      "(?r mod 3600) sdiv 60 = ?r mod 3600 div 60"
    using r by (auto simp: signed_divide_int_def signed_modulo_int_def sgn_if minus_div_mult_eq_mod)
  have le: "- (2 ^ 31) \<le> x" if "0 \<le> x" for x :: int using that by simp
  have lt: "x < 2 ^ 31" if "x < 86400" for x :: int using that by simp
  have d: "x div k < 86400" if "0 \<le> x" "x < 86400" "1 \<le> k" for x k :: int
    using that zdiv_mono2 [of x 1 k] by simp
  have m: "?r mod 3600 < 86400" "?r mod 60 < 86400"
    using pos_mod_bound [of 3600 ?r] pos_mod_bound [of 60 ?r] by simp_all
  have "to_c_int (?r div 3600) = ?r div 3600"
    by (intro to_c_int_id le lt d r) (use r in \<open>simp_all add: pos_imp_zdiv_nonneg_iff\<close>)
  moreover have "to_c_int (?r mod 3600 div 60) = ?r mod 3600 div 60"
    by (intro to_c_int_id le lt d m) (simp_all add: pos_imp_zdiv_nonneg_iff)
  moreover have "to_c_int (?r mod 60) = ?r mod 60"
    by (intro to_c_int_id le lt m) simp
  ultimately show ?thesis
    unfolding unix_to_datetime_utc_def Let_def floor_div_eq [OF zero_less_numeral]
      floor_mod_eq [OF zero_less_numeral] civil_from_days_eq assms s prod.case by (simp only:)
qed

text \<open>The year fits an \<open>int\<close> for time stamps of up to 1.9 thousand million years.\<close>

lemma civil_year_bound:
  assumes "\<bar>ts\<bar> \<le> 60000000000000000" and "civil (ts div 86400) = (y, m, d)"
  shows "\<bar>y\<bar> < 2 ^ 31"
proof -
  let ?z = "ts div 86400 + 719468"
  have "- 694444444445 \<le> ts div 86400" "ts div 86400 \<le> 694444444445"
    using zdiv_mono1 [of "-60000000000000000" ts 86400] zdiv_mono1 [of ts 60000000000000000 86400] assms(1)
    by (auto simp: abs_le_iff)
  then have e: "- 4753306 \<le> ?z div 146097" "?z div 146097 \<le> 4753315"
    using zdiv_mono1 [of "- 694444444445 + 719468" ?z 146097] zdiv_mono1 [of ?z "694444444445 + 719468" 146097]
    by auto
  define E where "E = ?z div 146097"
  define yoe where "yoe = era_days (?z mod 146097) div 365"
  have yoe: "0 \<le> yoe" "yoe < 400"
    by (rule year_of_era [OF _ _ yoe_def], simp, simp)+
  have "\<exists>b. y = E * 400 + yoe + of_bool b"
    using assms(2) unfolding civil_def Let_def yoe_def [symmetric] E_def [symmetric] prod.inject by blast
  then have "y = E * 400 + yoe \<or> y = E * 400 + yoe + 1" by (auto simp: of_bool_def)
  moreover have "- 4753306 \<le> E" "E \<le> 4753315" using e unfolding E_def [symmetric] .
  ultimately show ?thesis using yoe by auto
qed

text \<open>Hours, minutes and seconds of a second of the day.\<close>

lemma clock_split:
  fixes r :: int
  assumes "0 \<le> r" "r < 86400"
  shows "r div 3600 * 3600 + (r mod 3600 div 60 * 60 + r mod 60) = r"
    and "0 \<le> r div 3600 \<and> r div 3600 < 24 \<and> 0 \<le> r mod 3600 div 60 \<and> r mod 3600 div 60 < 60 \<and>
      0 \<le> r mod 60 \<and> r mod 60 < 60"
proof -
  have "r mod 60 = r mod 3600 mod 60" by (rule mod_mod_cancel [symmetric]) simp
  then have "r mod 3600 div 60 * 60 + r mod 60 = r mod 3600" by (simp only: div_mult_mod_eq)
  then show "r div 3600 * 3600 + (r mod 3600 div 60 * 60 + r mod 60) = r" by (simp only: div_mult_mod_eq)
  have "r mod 3600 < 3600" by simp
  then have "r div 3600 < 24" "r mod 3600 div 60 < 60"
    using assms(2) zdiv_mono1 [of r "24 * 3600 - 1" 3600] zdiv_mono1 [of "r mod 3600" "60 * 60 - 1" 60]
    by auto
  then show "0 \<le> r div 3600 \<and> r div 3600 < 24 \<and> 0 \<le> r mod 3600 div 60 \<and> r mod 3600 div 60 < 60 \<and>
      0 \<le> r mod 60 \<and> r mod 60 < 60"
    using assms by (simp add: pos_imp_zdiv_nonneg_iff)
qed

subsection \<open>Property\<close>

text \<open>C11. The conversion is right for the Gregorian calendar: the date is a valid one, its
  distance from 1970-01-01 in days, with the hours, minutes and seconds, is the time stamp,
  also for times before 1970. (Beyond the bound the stored year is truncated to an \<open>int\<close>.)\<close>

theorem unix_to_datetime_utc_correct:
  assumes "\<bar>ts\<bar> \<le> 60000000000000000" and "dt = unix_to_datetime_utc ts"
  shows "valid_date (dt_year dt) (dt_month dt) (dt_day dt) \<and>
    days_from_civil (dt_year dt) (dt_month dt) (dt_day dt) * 86400
      + dt_hour dt * 3600 + dt_minute dt * 60 + dt_second dt = ts \<and>
    0 \<le> dt_hour dt \<and> dt_hour dt < 24 \<and> 0 \<le> dt_minute dt \<and> dt_minute dt < 60 \<and>
    0 \<le> dt_second dt \<and> dt_second dt < 60"
proof -
  obtain y m d where c: "civil (ts div 86400) = (y, m, d)" by (cases "civil (ts div 86400)") auto
  have y: "to_c_int y = y" using civil_year_bound [OF assms(1) c] by (intro to_c_int_id) auto
  note dt = assms(2) [unfolded unix_to_datetime_utc_eq [OF c] y]
  have r: "0 \<le> ts mod 86400" "ts mod 86400 < 86400" by simp_all
  note k = clock_split [OF r]
  have "ts div 86400 * 86400 + (ts mod 86400 div 3600 * 3600 +
      (ts mod 86400 mod 3600 div 60 * 60 + ts mod 86400 mod 60)) = ts"
    unfolding k(1) by (rule div_mult_mod_eq)
  with k(2) civil_correct [OF c] show ?thesis
    unfolding dt DateTime.select_convs by (simp only: add.assoc simp_thms)
qed

theorem unix_to_datetime_utc_correct_witness:
  "unix_to_datetime_utc (-1) = \<lparr>dt_year = 1969, dt_month = 12, dt_day = 31, dt_hour = 23, dt_minute = 59, dt_second = 59\<rparr> \<and>
   days_from_civil 1969 12 31 * 86400 + 23 * 3600 + 59 * 60 + 59 = - 1"
proof -
  have "unix_to_datetime_utc (-1) = \<lparr>dt_year = 1969, dt_month = 12, dt_day = 31, dt_hour = 23, dt_minute = 59, dt_second = 59\<rparr>"
    by code_simp
  with unix_to_datetime_utc_correct [of "- 1", OF _ refl] show ?thesis by simp
qed

end
