(* ===== verification/Dma_Ring.thy ===== *)
theory Dma_Ring
  imports Ring_Spec
begin

text \<open>
  The rings that the kernel shares with a DMA device: \<open>src/dma_ring.c\<close>, and the translation of
  a buffer address to a device address, \<open>iommu_dma_iova\<close> of \<open>src/iommu.c\<close>.

  The layout of a descriptor and a completion, the bounds on a ring's size and the descriptor
  flags come from \<open>lampvm/device_abi.h\<close>, which is not part of the repository. The bounds, sizes
  and flags are a parameter (\<open>dma_abi\<close>) of the definitions that use them; a descriptor has the
  fields the code assigns, and a completion is opaque (a type variable). The device's side of a
  ring is an index that it passes through a register (\<open>device_head\<close>, \<open>device_tail\<close>).
\<close>

subsection \<open>Device addresses\<close>

abbreviation (input) "KERNEL_MEM_SIZE \<equiv> (0x04000000 :: u32)"
abbreviation (input) "IOMMU_DMA_IOVA_BASE \<equiv> (0x01000000 :: u32)"

text \<open>The result is the device address stored through \<open>iova_out\<close>, if any; \<open>active\<close> is
  \<open>g_iommu_active\<close>.\<close>

definition iommu_dma_iova :: "bool \<Rightarrow> u32 \<Rightarrow> u32 \<Rightarrow> u32 option" where
  "iommu_dma_iova active pa_addr len =
     (if len = 0 then None
      else if pa_addr \<ge> KERNEL_MEM_SIZE \<or> len > KERNEL_MEM_SIZE - pa_addr then None
      else if \<not> active then Some pa_addr
      else if pa_addr > 0xFFFFFFFF - IOMMU_DMA_IOVA_BASE then None
      else Some (IOMMU_DMA_IOVA_BASE + pa_addr))"

subsection \<open>Rings\<close>

record dma_abi =
  RING_MIN_COUNT :: u32
  RING_MAX_COUNT :: u32
  DESC_F_IRQ :: u32
  DESC_F_END :: u32
  sizeof_desc :: u32
  sizeof_completion :: u32

record lamp_dma_desc =
  addr_lo :: u32
  addr_hi :: u32
  length_ :: u32
  flags_ :: u32
  cookie_ :: u32
  reserved0 :: u32
  reserved1 :: u32
  reserved2 :: u32

record 'c dma_ring =
  dr_submissions :: "lamp_dma_desc list option"
  dr_completions :: "'c list option"
  dr_submission_count :: u32
  dr_completion_count :: u32
  dr_submission_iova :: u32
  dr_completion_iova :: u32
  dr_submission_tail :: u32
  dr_completion_head :: u32

definition dma_ring_count_valid :: "dma_abi \<Rightarrow> u32 \<Rightarrow> bool" where
  "dma_ring_count_valid abi count \<longleftrightarrow>
     count \<ge> RING_MIN_COUNT abi \<and> count \<le> RING_MAX_COUNT abi \<and> count AND (count - 1) = 0"

definition zero_desc :: lamp_dma_desc where
  "zero_desc = \<lparr>addr_lo = 0, addr_hi = 0, length_ = 0, flags_ = 0, cookie_ = 0,
     reserved0 = 0, reserved1 = 0, reserved2 = 0\<rparr>"

text \<open>The arrays are given by their physical addresses; \<open>dma_zero\<close> fills them with zero
  descriptors and completions (\<open>zc\<close> is the all-zero completion). A null array is \<open>None\<close>.\<close>

definition dma_ring_init ::
  "dma_abi \<Rightarrow> bool \<Rightarrow> 'c \<Rightarrow> u32 option \<Rightarrow> u32 \<Rightarrow> u32 option \<Rightarrow> u32 \<Rightarrow> 'c dma_ring option" where
  "dma_ring_init abi active zc submissions submission_count completions completion_count =
     (case (submissions, completions) of
        (Some sub_pa, Some com_pa) \<Rightarrow>
          if \<not> dma_ring_count_valid abi submission_count \<or> \<not> dma_ring_count_valid abi completion_count
          then None
          else (case iommu_dma_iova active sub_pa (submission_count * sizeof_desc abi) of
              None \<Rightarrow> None
            | Some submission_iova \<Rightarrow>
                (case iommu_dma_iova active com_pa (completion_count * sizeof_completion abi) of
                  None \<Rightarrow> None
                | Some completion_iova \<Rightarrow>
                    Some \<lparr>dr_submissions = Some (replicate (unat submission_count) zero_desc),
                          dr_completions = Some (replicate (unat completion_count) zc),
                          dr_submission_count = submission_count,
                          dr_completion_count = completion_count,
                          dr_submission_iova = submission_iova,
                          dr_completion_iova = completion_iova,
                          dr_submission_tail = 0, dr_completion_head = 0\<rparr>))
      | _ \<Rightarrow> None)"

definition mk_desc :: "dma_abi \<Rightarrow> u32 \<Rightarrow> u32 \<Rightarrow> u32 \<Rightarrow> u32 \<Rightarrow> lamp_dma_desc" where
  "mk_desc abi iova len flags cookie =
     \<lparr>addr_lo = iova, addr_hi = 0, length_ = len,
      flags_ = flags AND (DESC_F_IRQ abi OR DESC_F_END abi), cookie_ = cookie,
      reserved0 = 0, reserved1 = 0, reserved2 = 0\<rparr>"

text \<open>The first result says whether the descriptor was queued.\<close>

definition dma_ring_submit ::
  "dma_abi \<Rightarrow> bool \<Rightarrow> u32 \<Rightarrow> u32 \<Rightarrow> u32 \<Rightarrow> u32 \<Rightarrow> u32 \<Rightarrow> 'c dma_ring \<Rightarrow> bool \<times> 'c dma_ring" where
  "dma_ring_submit abi active device_head buffer_pa len flags cookie ring =
     (case dr_submissions ring of
        None \<Rightarrow> (False, ring)
      | Some descs \<Rightarrow>
          if len = 0 \<or> device_head \<ge> dr_submission_count ring then (False, ring)
          else (case iommu_dma_iova active buffer_pa len of
              None \<Rightarrow> (False, ring)
            | Some buffer_iova \<Rightarrow>
                let next = (dr_submission_tail ring + 1) AND (dr_submission_count ring - 1) in
                if next = device_head then (False, ring)
                else (True, ring\<lparr>dr_submissions :=
                               Some (descs[unat (dr_submission_tail ring) :=
                                       mk_desc abi buffer_iova len flags cookie]),
                               dr_submission_tail := next\<rparr>)))"

definition dma_ring_reap :: "u32 \<Rightarrow> 'c dma_ring \<Rightarrow> 'c option \<times> 'c dma_ring" where
  "dma_ring_reap device_tail ring =
     (case dr_completions ring of
        None \<Rightarrow> (None, ring)
      | Some cs \<Rightarrow>
          if device_tail \<ge> dr_completion_count ring \<or> dr_completion_head ring = device_tail
          then (None, ring)
          else (Some (cs ! unat (dr_completion_head ring)),
                ring\<lparr>dr_completion_head :=
                  (dr_completion_head ring + 1) AND (dr_completion_count ring - 1)\<rparr>))"

subsection \<open>Powers of two\<close>

lemma pow2_of_and_pred: "0 < n \<Longrightarrow> n AND (n - 1) = 0 \<Longrightarrow> \<exists>k. n = 2 ^ k" for n :: nat
proof (induction n rule: less_induct)
  case (less n)
  show ?case
  proof (cases "even n")
    case False
    then obtain b where b: "n = 2 * b + 1" by (elim oddE)
    have "n AND (n - 1) = 2 * b" unfolding b by (subst and_rec) simp
    with less b have "n = 2 ^ 0" by simp
    then show ?thesis by blast
  next
    case True
    then obtain m where m: "n = 2 * m" by auto
    with less(2) have "0 < m" by simp
    then have p: "n - 1 = 2 * (m - 1) + 1" using m by simp
    have "n AND (n - 1) = 2 * (m AND (m - 1))"
      unfolding p unfolding m by (subst and_rec) simp
    with less(3) have "m AND (m - 1) = 0" by simp
    with less(1) [of m] m \<open>0 < m\<close> obtain k where "m = 2 ^ k" by auto
    with m have "n = 2 ^ Suc k" by simp
    then show ?thesis by blast
  qed
qed

lemma mask_pow2:
  fixes n x :: nat
  assumes "0 < n" "n AND (n - 1) = 0"
  shows "x AND (n - 1) = x mod n"
proof -
  from pow2_of_and_pred [OF assms] obtain k where "n = 2 ^ k" by auto
  moreover have "x AND (2 ^ k - 1) = x mod 2 ^ k"
    by (metis take_bit_eq_mask mask_nat_def take_bit_eq_mod)
  ultimately show ?thesis by simp
qed

text \<open>So the ring index wraps as \<open>mod\<close>, for a count that \<open>dma_ring_count_valid\<close> accepts.\<close>

definition ring_count_ok :: "u32 \<Rightarrow> bool" where
  "ring_count_ok n \<longleftrightarrow> 0 < unat n \<and> n AND (n - 1) = 0"

lemma ring_count_ok_valid:
  "0 < RING_MIN_COUNT abi \<Longrightarrow> dma_ring_count_valid abi n \<Longrightarrow> ring_count_ok n"
  by (auto simp: dma_ring_count_valid_def ring_count_ok_def word_less_nat_alt word_le_nat_alt)

lemma ring_next:
  assumes "ring_count_ok n" "unat i < unat n"
  shows "unat ((i + 1) AND (n - 1)) = Suc (unat i) mod unat n"
proof -
  have n0: "n \<noteq> 0" using assms(1) by (auto simp: ring_count_ok_def)
  have "unat (n AND (n - 1)) = unat n AND (unat n - 1)"
    by (simp add: unsigned_and_eq unat_dec [OF n0])
  with assms(1) have z: "unat n AND (unat n - 1) = 0" by (simp add: ring_count_ok_def)
  have "unat (i + 1) = Suc (unat i)"
    using assms(2) unat_lt_u32 [of n] by (intro unat_inc [where n = "unat n"]) simp_all
  then have "unat ((i + 1) AND (n - 1)) = Suc (unat i) AND (unat n - 1)"
    by (simp add: unsigned_and_eq unat_dec [OF n0])
  then show ?thesis using mask_pow2 [OF _ z] assms(1) by (simp add: ring_count_ok_def)
qed

subsection \<open>Index rings\<close>

text \<open>A ring of \<open>n\<close> entries between a head \<open>h\<close>, where entries are taken, and a tail \<open>t\<close>,
  where they are added. It is empty when the two are equal, so it holds at most \<open>n - 1\<close>.\<close>

definition rg_inv :: "'a list \<Rightarrow> u32 \<Rightarrow> u32 \<Rightarrow> u32 \<Rightarrow> bool" where
  "rg_inv buf n h t \<longleftrightarrow> ring_count_ok n \<and> length buf = unat n \<and> unat h < unat n \<and> unat t < unat n"

definition rg_used :: "u32 \<Rightarrow> u32 \<Rightarrow> u32 \<Rightarrow> nat" where
  "rg_used n h t = (unat t + unat n - unat h) mod unat n"

definition rg_list :: "'a list \<Rightarrow> u32 \<Rightarrow> u32 \<Rightarrow> u32 \<Rightarrow> 'a list" where
  "rg_list buf n h t = ring_list buf (unat h) (rg_used n h t)"

definition rg_room :: "u32 \<Rightarrow> u32 \<Rightarrow> u32 \<Rightarrow> nat" where
  "rg_room n h t = unat n - 1 - rg_used n h t"

abbreviation rg_next :: "u32 \<Rightarrow> u32 \<Rightarrow> u32" where
  "rg_next n i \<equiv> (i + 1) AND (n - 1)"

lemma ring_distance:
  fixes t h c :: nat
  assumes "t < c" "h < c"
  shows "(h + (t + c - h) mod c) mod c = t" and "(t + c - h) mod c < c"
    and "(t + c - h) mod c < c - 1 \<Longrightarrow> (Suc t mod c + c - h) mod c = Suc ((t + c - h) mod c)"
    and "h \<noteq> t \<Longrightarrow> (t + c - Suc h mod c) mod c = (t + c - h) mod c - 1"
    and "Suc t mod c = h \<longleftrightarrow> (t + c - h) mod c = c - 1" and "(t + c - h) mod c = 0 \<longleftrightarrow> h = t"
  using assms by (auto simp: mod_if mod_Suc split: if_splits)

lemma rg_full:
  assumes inv: "rg_inv buf n h t"
  shows "0 < rg_room n h t \<longleftrightarrow> rg_next n t \<noteq> h"
proof -
  from inv have t: "unat t < unat n" "unat h < unat n" and ok: "ring_count_ok n"
    by (auto simp: rg_inv_def)
  have used: "rg_used n h t < unat n" "Suc (unat t) mod unat n = unat h \<longleftrightarrow> rg_used n h t = unat n - 1"
    using ring_distance(2,5) [OF t] by (simp_all add: rg_used_def)
  have "rg_next n t = h \<longleftrightarrow> Suc (unat t) mod unat n = unat h"
    unfolding word_unat_eq_iff by (simp only: ring_next [OF ok t(1)])
  with used show ?thesis by (auto simp: rg_room_def)
qed

lemma rg_empty:
  assumes "rg_inv buf n h t"
  shows "rg_list buf n h t = [] \<longleftrightarrow> h = t"
proof -
  have "rg_list buf n h t = [] \<longleftrightarrow> rg_used n h t = 0"
    by (simp add: rg_list_def flip: length_0_conv)
  also have "\<dots> \<longleftrightarrow> unat h = unat t"
    using ring_distance(6) [of "unat t" "unat n" "unat h"] assms by (simp add: rg_inv_def rg_used_def)
  finally show ?thesis by (simp add: word_unat_eq_iff)
qed

lemma rg_put:
  assumes inv: "rg_inv buf n h t" and room: "0 < rg_room n h t"
  shows "rg_inv (buf[unat t := x]) n h (rg_next n t)"
    and "rg_list (buf[unat t := x]) n h (rg_next n t) = rg_list buf n h t @ [x]"
    and "rg_room n h (rg_next n t) = rg_room n h t - 1"
proof -
  from inv have t: "unat t < unat n" "unat h < unat n" and len: "length buf = unat n"
    and ok: "ring_count_ok n" by (auto simp: rg_inv_def)
  note dist = ring_distance [OF t] and nx = ring_next [OF ok t(1)]
  have lt: "rg_used n h t < unat n - 1" using room by (simp add: rg_room_def)
  have used: "rg_used n h (rg_next n t) = Suc (rg_used n h t)"
    using dist(3) lt unfolding rg_used_def nx by simp
  show "rg_inv (buf[unat t := x]) n h (rg_next n t)" using inv nx by (simp add: rg_inv_def)
  show "rg_room n h (rg_next n t) = rg_room n h t - 1" unfolding rg_room_def used by simp
  have "unat t = (unat h + rg_used n h t) mod length buf" using dist(1) len by (simp add: rg_used_def)
  then show "rg_list (buf[unat t := x]) n h (rg_next n t) = rg_list buf n h t @ [x]"
    unfolding rg_list_def used using ring_list_put [of "rg_used n h t" buf "unat h" x] lt len by simp
qed

lemma rg_get:
  assumes inv: "rg_inv buf n h t" and ne: "rg_list buf n h t \<noteq> []"
  shows "rg_inv buf n (rg_next n h) t"
    and "rg_list buf n h t = buf ! unat h # rg_list buf n (rg_next n h) t"
    and "rg_room n (rg_next n h) t = Suc (rg_room n h t)"
proof -
  from inv have t: "unat t < unat n" "unat h < unat n" and len: "length buf = unat n"
    and ok: "ring_count_ok n" by (auto simp: rg_inv_def)
  note dist = ring_distance [OF t] and nx = ring_next [OF ok t(2)]
  have pos: "0 < rg_used n h t" using ne by (cases "rg_used n h t") (simp_all add: rg_list_def)
  have "unat h \<noteq> unat t" using ne rg_empty [OF inv] by (simp add: word_unat_eq_iff)
  then have used: "rg_used n (rg_next n h) t = rg_used n h t - 1"
    using dist(4) unfolding rg_used_def nx by simp
  have "rg_used n h t < unat n" using dist(2) by (simp add: rg_used_def)
  with pos show "rg_room n (rg_next n h) t = Suc (rg_room n h t)" unfolding rg_room_def used by simp
  show "rg_inv buf n (rg_next n h) t" using inv nx by (simp add: rg_inv_def)
  show "rg_list buf n h t = buf ! unat h # rg_list buf n (rg_next n h) t"
    unfolding rg_list_def used nx using ring_list_get [OF pos, of buf "unat h"] t len by simp
qed

subsection \<open>The submission ring\<close>

text \<open>Its state is the kernel's ring and the device's head. \<open>sub_put\<close> is the body of
  \<open>dma_ring_submit\<close> once its checks have passed. The device takes the descriptor at its head
  and advances it: that is what the head it reports in its register means.\<close>

type_synonym 'c sub_state = "'c dma_ring \<times> u32"

definition sub_descs :: "'c dma_ring \<Rightarrow> lamp_dma_desc list" where
  "sub_descs r = (case dr_submissions r of None \<Rightarrow> [] | Some ds \<Rightarrow> ds)"

definition sub_inv :: "'c sub_state \<Rightarrow> bool" where
  "sub_inv = (\<lambda>(r, head). dr_submissions r \<noteq> None \<and>
     rg_inv (sub_descs r) (dr_submission_count r) head (dr_submission_tail r))"

definition sub_contents :: "'c sub_state \<Rightarrow> lamp_dma_desc list" where
  "sub_contents = (\<lambda>(r, head). rg_list (sub_descs r) (dr_submission_count r) head (dr_submission_tail r))"

definition sub_room :: "'c sub_state \<Rightarrow> nat" where
  "sub_room = (\<lambda>(r, head). rg_room (dr_submission_count r) head (dr_submission_tail r))"

definition sub_put :: "lamp_dma_desc \<Rightarrow> 'c sub_state \<Rightarrow> 'c sub_state" where
  "sub_put d = (\<lambda>(r, head).
     (r\<lparr>dr_submissions := Some ((sub_descs r)[unat (dr_submission_tail r) := d]),
        dr_submission_tail := rg_next (dr_submission_count r) (dr_submission_tail r)\<rparr>, head))"

definition sub_front :: "'c sub_state \<Rightarrow> lamp_dma_desc" where
  "sub_front = (\<lambda>(r, head). sub_descs r ! unat head)"

definition device_take :: "'c sub_state \<Rightarrow> 'c sub_state" where
  "device_take = (\<lambda>(r, head). (r, rg_next (dr_submission_count r) head))"

lemma sub_descs_upd [simp]: "sub_descs (r\<lparr>dr_submissions := Some ds, dr_submission_tail := t\<rparr>) = ds"
  by (simp add: sub_descs_def)

lemmas sub_defs = sub_inv_def sub_contents_def sub_room_def sub_front_def sub_put_def device_take_def

interpretation sq: bounded_fifo sub_inv sub_contents sub_room sub_put sub_front device_take
proof unfold_locales
  fix s :: "'c sub_state" and d
  obtain r h where s: "s = (r, h)" by fastforce
  {
    assume "sub_inv s" "0 < sub_room s"
    then have i: "rg_inv (sub_descs r) (dr_submission_count r) h (dr_submission_tail r)"
      and p: "0 < rg_room (dr_submission_count r) h (dr_submission_tail r)"
      by (simp_all add: s sub_defs)
    note put = rg_put(1,2) [OF i p, of d] rg_put(3) [OF i p]
    show "sub_inv (sub_put d s)" "sub_contents (sub_put d s) = sub_contents s @ [d]"
      "sub_room (sub_put d s) = sub_room s - 1"
      using put by (simp_all add: s sub_defs)
  }
  {
    assume "sub_inv s" "sub_contents s \<noteq> []"
    then have i: "rg_inv (sub_descs r) (dr_submission_count r) h (dr_submission_tail r)"
      and ne: "rg_list (sub_descs r) (dr_submission_count r) h (dr_submission_tail r) \<noteq> []"
      and some: "dr_submissions r \<noteq> None"
      by (simp_all add: s sub_defs)
    note get = rg_get [OF i ne]
    show "sub_inv (device_take s)" "sub_contents (device_take s) = tl (sub_contents s)"
      "sub_front s = hd (sub_contents s)" "sub_room (device_take s) = Suc (sub_room s)"
      using get some by (simp_all add: s sub_defs)
  }
qed

subsection \<open>The completion ring\<close>

text \<open>Here the device adds at the tail it reports, and \<open>dma_ring_reap\<close> takes at the head.\<close>

type_synonym 'c com_state = "'c dma_ring \<times> u32"

definition com_list :: "'c dma_ring \<Rightarrow> 'c list" where
  "com_list r = (case dr_completions r of None \<Rightarrow> [] | Some cs \<Rightarrow> cs)"

definition com_inv :: "'c com_state \<Rightarrow> bool" where
  "com_inv = (\<lambda>(r, tail). dr_completions r \<noteq> None \<and>
     rg_inv (com_list r) (dr_completion_count r) (dr_completion_head r) tail)"

definition com_contents :: "'c com_state \<Rightarrow> 'c list" where
  "com_contents = (\<lambda>(r, tail). rg_list (com_list r) (dr_completion_count r) (dr_completion_head r) tail)"

definition com_room :: "'c com_state \<Rightarrow> nat" where
  "com_room = (\<lambda>(r, tail). rg_room (dr_completion_count r) (dr_completion_head r) tail)"

definition device_post :: "'c \<Rightarrow> 'c com_state \<Rightarrow> 'c com_state" where
  "device_post c = (\<lambda>(r, tail). (r\<lparr>dr_completions := Some ((com_list r)[unat tail := c])\<rparr>,
     rg_next (dr_completion_count r) tail))"

definition com_front :: "'c com_state \<Rightarrow> 'c" where
  "com_front = (\<lambda>(r, tail). com_list r ! unat (dr_completion_head r))"

definition com_get :: "'c com_state \<Rightarrow> 'c com_state" where
  "com_get = (\<lambda>(r, tail).
     (r\<lparr>dr_completion_head := rg_next (dr_completion_count r) (dr_completion_head r)\<rparr>, tail))"

lemmas com_defs = com_inv_def com_contents_def com_room_def com_front_def com_get_def device_post_def
  com_list_def

interpretation cq: bounded_fifo com_inv com_contents com_room device_post com_front com_get
proof unfold_locales
  fix s :: "'c com_state" and c
  obtain r t where s: "s = (r, t)" by fastforce
  {
    assume "com_inv s" "0 < com_room s"
    then have i: "rg_inv (com_list r) (dr_completion_count r) (dr_completion_head r) t"
      and p: "0 < rg_room (dr_completion_count r) (dr_completion_head r) t"
      by (simp_all add: s com_inv_def com_room_def)
    note put = rg_put(1,2) [OF i p, of c] rg_put(3) [OF i p]
    show "com_inv (device_post c s)" "com_contents (device_post c s) = com_contents s @ [c]"
      "com_room (device_post c s) = com_room s - 1"
      using put by (simp_all add: s com_defs)
  }
  {
    assume "com_inv s" "com_contents s \<noteq> []"
    then have i: "rg_inv (com_list r) (dr_completion_count r) (dr_completion_head r) t"
      and ne: "rg_list (com_list r) (dr_completion_count r) (dr_completion_head r) t \<noteq> []"
      and some: "dr_completions r \<noteq> None"
      by (simp_all add: s com_inv_def com_contents_def)
    note get = rg_get [OF i ne]
    show "com_inv (com_get s)" "com_contents (com_get s) = tl (com_contents s)"
      "com_front s = hd (com_contents s)" "com_room (com_get s) = Suc (com_room s)"
      using get some by (simp_all add: s com_defs)
  }
qed

subsection \<open>The operations in these terms\<close>

lemma dma_ring_submit_put:
  assumes inv: "sub_inv (ring, head)"
  shows "dma_ring_submit abi active head pa len flags cookie ring =
    (case iommu_dma_iova active pa len of
       Some iova \<Rightarrow> if 0 < sub_room (ring, head)
         then (True, fst (sub_put (mk_desc abi iova len flags cookie) (ring, head))) else (False, ring)
     | None \<Rightarrow> (False, ring))"
proof -
  from inv obtain ds where ds: "dr_submissions ring = Some ds" by (auto simp: sub_inv_def)
  from inv have i: "rg_inv (sub_descs ring) (dr_submission_count ring) head (dr_submission_tail ring)"
    by (simp add: sub_inv_def)
  then have "\<not> head \<ge> dr_submission_count ring" by (simp add: rg_inv_def word_le_nat_alt not_le)
  moreover have "iommu_dma_iova active pa 0 = None" by (simp add: iommu_dma_iova_def)
  ultimately show ?thesis
    using rg_full [OF i] ds
    by (auto simp: dma_ring_submit_def sub_room_def sub_put_def sub_descs_def Let_def split: option.splits)
qed

lemma dma_ring_reap_get:
  assumes inv: "com_inv (ring, tail)"
  shows "dma_ring_reap tail ring =
    (if com_contents (ring, tail) = [] then (None, ring)
     else (Some (com_front (ring, tail)), fst (com_get (ring, tail))))"
proof -
  from inv obtain cs where cs: "dr_completions ring = Some cs" by (auto simp: com_inv_def)
  from inv have i: "rg_inv (com_list ring) (dr_completion_count ring) (dr_completion_head ring) tail"
    by (simp add: com_inv_def)
  then have "\<not> tail \<ge> dr_completion_count ring" by (simp add: rg_inv_def word_le_nat_alt not_le)
  then show ?thesis
    using rg_empty [OF i] cs
    by (auto simp: dma_ring_reap_def com_contents_def com_front_def com_get_def com_list_def)
qed

lemma iova_bounds:
  "iommu_dma_iova active pa len = Some iova \<Longrightarrow>
    unat iova = unat pa + (if active then 0x01000000 else 0) \<and> 0 < unat len \<and> unat pa + unat len \<le> 0x04000000"
  by (auto simp: iommu_dma_iova_def word_le_nat_alt word_less_nat_alt unat_sub unat_gt_0 unat_word_ariths
      not_le not_less split: if_splits)

subsection \<open>Properties\<close>

text \<open>A concrete ABI and a ring of four entries each way.\<close>

definition test_abi :: dma_abi where
  "test_abi = \<lparr>RING_MIN_COUNT = 2, RING_MAX_COUNT = 1024, DESC_F_IRQ = 1, DESC_F_END = 2,
     sizeof_desc = 32, sizeof_completion = 16\<rparr>"

definition test_ring :: "nat dma_ring" where
  "test_ring = the (dma_ring_init test_abi True 0 (Some 0x1000) 4 (Some 0x2000) 4)"

lemma test_ring_init: "dma_ring_init test_abi True 0 (Some 0x1000) 4 (Some 0x2000) 4 = Some test_ring"
  by (simp add: test_ring_def dma_ring_init_def test_abi_def dma_ring_count_valid_def iommu_dma_iova_def)

lemma init_rings:
  assumes "0 < RING_MIN_COUNT abi"
    and "dma_ring_init abi active zc subs sc coms cc = Some r"
  shows "sub_inv (r, 0) \<and> sub_contents (r, 0) = [] \<and> sub_room (r, 0) = unat sc - 1"
    and "com_inv (r, 0) \<and> com_contents (r, 0) = [] \<and> com_room (r, 0) = unat cc - 1"
proof -
  from assms(2) obtain si ci where
    v: "dma_ring_count_valid abi sc" "dma_ring_count_valid abi cc" and
    r: "r = \<lparr>dr_submissions = Some (replicate (unat sc) zero_desc),
      dr_completions = Some (replicate (unat cc) zc), dr_submission_count = sc,
      dr_completion_count = cc, dr_submission_iova = si, dr_completion_iova = ci,
      dr_submission_tail = 0, dr_completion_head = 0\<rparr>"
    by (auto simp: dma_ring_init_def split: option.splits if_splits)
  note ok = v [THEN ring_count_ok_valid [OF assms(1)]]
  then have p: "0 < unat sc" "0 < unat cc" by (simp_all add: ring_count_ok_def)
  have u: "rg_used n 0 0 = 0" for n by (simp add: rg_used_def)
  show "sub_inv (r, 0) \<and> sub_contents (r, 0) = [] \<and> sub_room (r, 0) = unat sc - 1"
    using ok p by (simp add: r sub_defs rg_inv_def rg_list_def rg_room_def u sub_descs_def)
  show "com_inv (r, 0) \<and> com_contents (r, 0) = [] \<and> com_room (r, 0) = unat cc - 1"
    using ok p by (simp add: r com_defs rg_inv_def rg_list_def rg_room_def u)
qed

lemma test_ring_sub: "sub_inv (test_ring, 0)" "sub_contents (test_ring, 0) = []" "sub_room (test_ring, 0) = 3"
  and test_ring_com: "com_inv (test_ring, 0)" "com_contents (test_ring, 0) = []" "com_room (test_ring, 0) = 3"
  using init_rings [OF _ test_ring_init] by (simp_all add: test_abi_def)

text \<open>Initialising gives two empty rings that hold all but one of their entries, for every
  size that the code accepts, provided the ABI's minimum is positive.\<close>

theorem dma_ring_init_correct:
  assumes "0 < RING_MIN_COUNT abi"
    and "dma_ring_init abi active zc subs sc coms cc = Some r"
  shows "sub_inv (r, 0) \<and> sub_contents (r, 0) = [] \<and> sub_room (r, 0) = unat sc - 1 \<and>
    com_inv (r, 0) \<and> com_contents (r, 0) = [] \<and> com_room (r, 0) = unat cc - 1"
  using init_rings [OF assms] by simp

theorem dma_ring_init_correct_witness: "sub_room (test_ring, 0) = 3 \<and> com_inv (test_ring, 0)"
  using dma_ring_init_correct [OF _ test_ring_init] by (simp add: test_abi_def)

text \<open>C12. A submission succeeds exactly when the buffer lies in memory and the ring has room; it
  then appends one descriptor, with the device address of the buffer and only the two known
  flags, behind those the device has not taken, which are untouched. A failed one changes
  nothing.\<close>

theorem dma_ring_submit_correct:
  assumes inv: "sub_inv (ring, head)"
    and s: "dma_ring_submit abi active head pa len flags cookie ring = (ok, ring')"
  shows "(ok \<longleftrightarrow> 0 < sub_room (ring, head) \<and> 0 < len \<and> pa < KERNEL_MEM_SIZE \<and> len \<le> KERNEL_MEM_SIZE - pa) \<and>
    sub_inv (ring', head) \<and>
    sub_contents (ring', head) = sub_contents (ring, head) @
      (if ok then [mk_desc abi (if active then IOMMU_DMA_IOVA_BASE + pa else pa) len flags cookie] else []) \<and>
    (ok \<or> ring' = ring)"
proof -
  have small: "\<not> pa > 0xFFFFFFFF - IOMMU_DMA_IOVA_BASE" if "pa < KERNEL_MEM_SIZE"
    using that by (simp add: word_less_nat_alt)
  have iova: "iommu_dma_iova active pa len =
    (if 0 < len \<and> pa < KERNEL_MEM_SIZE \<and> len \<le> KERNEL_MEM_SIZE - pa
     then Some (if active then IOMMU_DMA_IOVA_BASE + pa else pa) else None)"
    using small by (cases "pa < KERNEL_MEM_SIZE") (auto simp: iommu_dma_iova_def not_le not_less word_gt_0)
  have h: "snd (sub_put d (ring, head)) = head" for d by (simp add: sub_put_def)
  note P = sq.put_inv [OF inv] sq.put_contents [OF inv]
  show ?thesis
    using s P h inv unfolding dma_ring_submit_put [OF inv] iova
    by (auto split: if_splits simp: prod_eq_iff intro!: P) (metis h prod.collapse)+
qed

theorem dma_ring_submit_correct_witness:
  "\<exists>ring'. dma_ring_submit test_abi True 0 0x3000 512 7 42 test_ring = (True, ring') \<and>
     sub_contents (ring', 0) = [mk_desc test_abi 0x01003000 512 7 42]"
proof -
  obtain ok ring' where s: "dma_ring_submit test_abi True 0 0x3000 512 7 42 test_ring = (ok, ring')" by fastforce
  from dma_ring_submit_correct [OF test_ring_sub(1) s] test_ring_sub(2,3) s show ?thesis by auto
qed

text \<open>Reaping returns the oldest completion that the device has posted and has not been
  reaped, and removes it; it returns nothing exactly when there is none.\<close>

theorem dma_ring_reap_correct:
  assumes inv: "com_inv (ring, tail)" and r: "dma_ring_reap tail ring = (c, ring')"
  shows "com_inv (ring', tail) \<and>
    (case com_contents (ring, tail) of
       [] \<Rightarrow> c = None \<and> ring' = ring
     | x # xs \<Rightarrow> c = Some x \<and> com_contents (ring', tail) = xs)"
proof -
  have t: "(fst (com_get (ring, tail)), tail) = com_get (ring, tail)" by (simp add: com_get_def)
  show ?thesis
    using r inv cq.get_inv [OF inv] cq.get_contents [OF inv] cq.front_contents [OF inv]
    unfolding dma_ring_reap_get [OF inv]
    by (cases "com_contents (ring, tail)") (auto simp: t)
qed

theorem dma_ring_reap_correct_witness:
  "\<exists>ring'. dma_ring_reap 1 (fst (device_post 42 (test_ring, 0))) = (Some 42, ring')"
proof -
  have p: "device_post 42 (test_ring, 0) = (fst (device_post 42 (test_ring, 0)), 1)"
    by (simp add: device_post_def test_ring_def dma_ring_init_def test_abi_def dma_ring_count_valid_def
        iommu_dma_iova_def)
  note i = cq.put_inv [OF test_ring_com(1), of 42, simplified test_ring_com(3), simplified]
    and c = cq.put_contents [OF test_ring_com(1), of 42, simplified test_ring_com(3), simplified]
  obtain x ring' where r: "dma_ring_reap 1 (fst (device_post 42 (test_ring, 0))) = (x, ring')" by fastforce
  have i': "com_inv (fst (device_post 42 (test_ring, 0)), 1)" using i p by metis
  have "com_contents (fst (device_post 42 (test_ring, 0)), 1) = [42]" using c p test_ring_com(2) by (metis append_Nil)
  with dma_ring_reap_correct [OF i' r] r show ?thesis by auto
qed

end
