(* ===== verification/Mmu.thy ===== *)
theory Mmu
  imports Octans_Prelude "HOL-Library.Monad_Syntax"
begin

text \<open>
  The page tables of the kernel, \<open>src/mmu.c\<close>: one first-level table of 1024 entries that each
  cover 4 MB, and 17 second-level tables that map the 65 MB of memory and frame buffer onto
  themselves. The addresses of the tables and of the linker's section symbols are a parameter
  (\<open>mmu_layout\<close>). The registers of the MMU are modelled by the list of writes they receive
  (newest first) and, for the control register, the value it reads back (\<open>mmu_ctrl\<close>, a function
  of the last write that the platform fixes). The boot information record is an argument of
  \<open>mmu_init\<close>.
\<close>

subsection \<open>State\<close>

abbreviation (input) "MMU_PTE_P \<equiv> (0x1 :: u32)"
abbreviation (input) "MMU_PTE_W \<equiv> (0x2 :: u32)"
abbreviation (input) "MMU_PTE_U \<equiv> (0x4 :: u32)"
abbreviation (input) "MMU_PTE_X \<equiv> (0x8 :: u32)"
abbreviation (input) "MMU_PROT_READ \<equiv> (0x1 :: u32)"
abbreviation (input) "MMU_PROT_WRITE \<equiv> (0x2 :: u32)"
abbreviation (input) "MMU_PROT_EXEC \<equiv> (0x4 :: u32)"
abbreviation (input) "MMU_PROT_USER \<equiv> (0x8 :: u32)"
abbreviation (input) "MMU_VA_MAP_LIMIT \<equiv> (0x0412C000 :: u32)"
abbreviation (input) "MMU_L2_TABLES \<equiv> (17 :: nat)"
abbreviation (input) "PAGE_FRAME \<equiv> (0xFFFFF000 :: u32)"

record mmu_layout =
  l1_addr :: u32
  l2_addr :: u32
  text_start :: u32
  text_end :: u32
  rodata_start :: u32
  rodata_end :: u32

datatype mmu_reg = REG_CTRL | REG_ROOT_LO | REG_ROOT_HI | REG_FAULT_STATUS | REG_TLB_FLUSH

record mmu_state =
  g_mmu_enabled :: bool
  g_root_pa_lo :: u32
  g_l1 :: "u32 list"
  g_l2 :: "u32 list list"
  mmu_writes :: "(mmu_reg \<times> u32) list"

definition mmio_write32 :: "mmu_reg \<Rightarrow> u32 \<Rightarrow> mmu_state \<Rightarrow> mmu_state" where
  "mmio_write32 r v st = st\<lparr>mmu_writes := (r, v) # mmu_writes st\<rparr>"

subsection \<open>The code\<close>

definition align_down_4k :: "u32 \<Rightarrow> u32" where
  "align_down_4k v = v AND NOT (4096 - 1)"

definition align_up_4k :: "u32 \<Rightarrow> u32" where
  "align_up_4k v = (v + 4096 - 1) AND NOT (4096 - 1)"

definition mmu_prot_to_pte_flags :: "u32 \<Rightarrow> u32" where
  "mmu_prot_to_pte_flags prot =
     (let flags = 0;
          flags = (if prot AND MMU_PROT_WRITE \<noteq> 0 then flags OR MMU_PTE_W else flags);
          flags = (if prot AND MMU_PROT_EXEC \<noteq> 0 then flags OR MMU_PTE_X else flags)
      in if prot AND MMU_PROT_USER \<noteq> 0 then flags OR MMU_PTE_U else flags)"

definition l2_table_addr :: "mmu_layout \<Rightarrow> nat \<Rightarrow> u32" where
  "l2_table_addr lay pde = l2_addr lay + of_nat pde * 4096"

text \<open>The loop of \<open>mmu_map_identity_page\<close> over the entries of one second-level table.\<close>

definition pde_flags_of :: "u32 list \<Rightarrow> u32" where
  "pde_flags_of tbl =
     fold (\<lambda>e flags. if e AND MMU_PTE_P = 0 then flags
                     else flags OR (e AND (MMU_PTE_W OR MMU_PTE_U OR MMU_PTE_X))) tbl 0"

definition mmu_map_identity_page :: "mmu_layout \<Rightarrow> u32 \<Rightarrow> u32 \<Rightarrow> mmu_state \<Rightarrow> int \<times> mmu_state" where
  "mmu_map_identity_page lay va prot st =
     (if va \<ge> MMU_VA_MAP_LIMIT then (-1, st)
      else let pde = unat (drop_bit 22 va); pte = unat (drop_bit 12 va AND 0x3FF) in
        if pde \<ge> MMU_L2_TABLES then (-1, st)
        else let tbl = (g_l2 st ! pde)[pte := (va AND PAGE_FRAME) OR MMU_PTE_P OR mmu_prot_to_pte_flags prot] in
          (0, st\<lparr>g_l2 := (g_l2 st)[pde := tbl],
                 g_l1 := (g_l1 st)[pde := (l2_table_addr lay pde AND PAGE_FRAME) OR MMU_PTE_P OR
                                           pde_flags_of tbl]\<rparr>))"

definition mmu_kernel_page_prot :: "mmu_layout \<Rightarrow> u32 \<Rightarrow> u32" where
  "mmu_kernel_page_prot lay pa =
     (let text_lo = align_down_4k (text_start lay); text_hi = align_up_4k (text_end lay);
          ro_lo = align_down_4k (rodata_start lay); ro_hi = align_up_4k (rodata_end lay)
      in if pa \<ge> text_lo \<and> pa < text_hi then MMU_PROT_READ OR MMU_PROT_EXEC
         else if pa \<ge> ro_lo \<and> pa < ro_hi then MMU_PROT_READ
         else MMU_PROT_READ OR MMU_PROT_WRITE)"

definition kernel_pte :: "mmu_layout \<Rightarrow> u32 \<Rightarrow> u32" where
  "kernel_pte lay pa =
     (if pa \<ge> MMU_VA_MAP_LIMIT then 0
      else (pa AND PAGE_FRAME) OR MMU_PTE_P OR mmu_prot_to_pte_flags (mmu_kernel_page_prot lay pa))"

definition page_addr :: "nat \<Rightarrow> nat \<Rightarrow> u32" where
  "page_addr pde pte = push_bit 22 (of_nat pde) OR push_bit 12 (of_nat pte)"

definition kernel_pde_flags :: "mmu_layout \<Rightarrow> nat \<Rightarrow> u32" where
  "kernel_pde_flags lay pde =
     fold (\<lambda>pte flags. let pa = page_addr pde pte in
             if pa \<ge> MMU_VA_MAP_LIMIT then flags
             else flags OR mmu_prot_to_pte_flags (mmu_kernel_page_prot lay pa)) [0..<1024] 0"

definition mmu_build_kernel_identity_map :: "mmu_layout \<Rightarrow> mmu_state \<Rightarrow> mmu_state" where
  "mmu_build_kernel_identity_map lay st =
     st\<lparr>g_l2 := map (\<lambda>pde. map (\<lambda>pte. kernel_pte lay (page_addr pde pte)) [0..<1024]) [0..<MMU_L2_TABLES],
        g_l1 := map (\<lambda>pde. (l2_table_addr lay pde AND PAGE_FRAME) OR MMU_PTE_P OR kernel_pde_flags lay pde)
                  [0..<MMU_L2_TABLES] @ replicate (1024 - MMU_L2_TABLES) 0\<rparr>"

text \<open>The result of \<open>mmu_enable_local\<close> is the enable bit read back.\<close>

definition mmu_enable_local :: "(u32 \<Rightarrow> u32) \<Rightarrow> u32 \<Rightarrow> mmu_state \<Rightarrow> bool \<times> mmu_state" where
  "mmu_enable_local mmu_ctrl root_pa_lo st =
     (let st = mmio_write32 REG_CTRL 0 st;
          st = mmio_write32 REG_ROOT_LO root_pa_lo st;
          st = mmio_write32 REG_ROOT_HI 0 st;
          st = mmio_write32 REG_FAULT_STATUS 1 st;
          st = mmio_write32 REG_CTRL 1 st
      in (mmu_ctrl 1 AND 1 \<noteq> 0, st))"

definition mmu_flush_all :: "mmu_state \<Rightarrow> mmu_state" where
  "mmu_flush_all st = (if \<not> g_mmu_enabled st then st else mmio_write32 REG_TLB_FLUSH 2 st)"

partial_function (option) mmu_map_loop ::
  "mmu_layout \<Rightarrow> u32 \<Rightarrow> u32 \<Rightarrow> u32 \<Rightarrow> mmu_state \<Rightarrow> (int \<times> mmu_state) option" where
  "mmu_map_loop lay page end prot st =
     (if page < end
      then (case mmu_map_identity_page lay page prot st of
              (r, st') \<Rightarrow> if r \<noteq> 0 then Some (-1, st') else mmu_map_loop lay (page + 4096) end prot st')
      else Some (0, st))"

definition mmu_map_identity :: "mmu_layout \<Rightarrow> u32 \<Rightarrow> u32 \<Rightarrow> u32 \<Rightarrow> mmu_state \<Rightarrow> (int \<times> mmu_state) option" where
  "mmu_map_identity lay va len prot st =
     (if len = 0 then Some (0, st)
      else if va \<ge> MMU_VA_MAP_LIMIT \<or> len > MMU_VA_MAP_LIMIT - va then Some (-1, st)
      else let start = align_down_4k va; end = align_up_4k (va + len) in
        if end < start \<or> end > MMU_VA_MAP_LIMIT then Some (-1, st)
        else do { (result, st) \<leftarrow> mmu_map_loop lay start end prot st;
                  Some (result, if result = 0 then mmu_flush_all st else st) })"

text \<open>The boot record as \<open>vm_info_load_boot\<close> delivers it: its features and its page size.\<close>

definition mmu_init :: "mmu_layout \<Rightarrow> (u32 \<Rightarrow> u32) \<Rightarrow> (u32 \<times> u32) option \<Rightarrow> mmu_state \<Rightarrow> mmu_state" where
  "mmu_init lay mmu_ctrl info st =
     (let st = st\<lparr>g_mmu_enabled := False, g_root_pa_lo := 0\<rparr> in
      case info of
        None \<Rightarrow> st
      | Some (features, page_size) \<Rightarrow>
          if features AND 0x80 = 0 then st
          else if page_size \<noteq> 4096 then st
          else let st = mmu_build_kernel_identity_map lay st;
                   st = st\<lparr>g_root_pa_lo := l1_addr lay\<rparr>;
                   (on, st) = mmu_enable_local mmu_ctrl (g_root_pa_lo st) st
               in st\<lparr>g_mmu_enabled := on\<rparr>)"

definition mmu_init_ap :: "(u32 \<Rightarrow> u32) \<Rightarrow> mmu_state \<Rightarrow> mmu_state" where
  "mmu_init_ap mmu_ctrl st =
     (if \<not> g_mmu_enabled st \<or> g_root_pa_lo st = 0 then st
      else snd (mmu_enable_local mmu_ctrl (g_root_pa_lo st) st))"

definition mmu_enabled :: "mmu_state \<Rightarrow> u32" where
  "mmu_enabled st = (if g_mmu_enabled st then 1 else 0)"

subsection \<open>Words as addresses\<close>

lemma page_frame_mask: "PAGE_FRAME = NOT (mask 12)"
  by (simp add: mask_eq_exp_minus_1)

lemma not_4095: "NOT (4096 - 1 :: u32) = NOT (mask 12)"
  by (simp add: mask_eq_exp_minus_1)

lemma unat_frame: "unat (v AND NOT (mask 12) :: u32) = unat v div 4096 * 4096"
proof -
  have "v AND NOT (mask 12) = push_bit 12 (drop_bit 12 v)"
    by (rule bit_word_eqI) (auto simp: bit_simps)
  also have "unat \<dots> = unat v div 4096 * 4096"
  proof -
    have "unat (push_bit 12 (drop_bit 12 v)) = (unat v div 4096 * 4096) mod 2 ^ 32"
      unfolding unsigned_push_bit_eq unat_drop_bit_eq by (simp add: take_bit_eq_mod push_bit_eq_mult drop_bit_eq_div)
    then show ?thesis using unat_lt_u32 [of v] by (simp add: le_less_trans [OF div_times_less_eq_dividend])
  qed
  finally show ?thesis .
qed


subsection \<open>Page numbers\<close>

definition page_no :: "u32 \<Rightarrow> nat" where
  "page_no va = unat va div 4096"

definition pte_at :: "mmu_state \<Rightarrow> nat \<Rightarrow> u32" where
  "pte_at st n = g_l2 st ! (n div 1024) ! (n mod 1024)"

definition identity_pte :: "u32 \<Rightarrow> nat \<Rightarrow> u32" where
  "identity_pte prot n = of_nat (n * 4096) OR MMU_PTE_P OR mmu_prot_to_pte_flags prot"

definition mmu_wf :: "mmu_layout \<Rightarrow> mmu_state \<Rightarrow> bool" where
  "mmu_wf lay st \<longleftrightarrow> length (g_l1 st) = 1024 \<and> length (g_l2 st) = MMU_L2_TABLES \<and>
     (\<forall>pde < MMU_L2_TABLES. length (g_l2 st ! pde) = 1024 \<and>
        g_l1 st ! pde = (l2_table_addr lay pde AND PAGE_FRAME) OR MMU_PTE_P OR pde_flags_of (g_l2 st ! pde))"

lemma pde_index: "unat (drop_bit 22 (va :: u32)) = page_no va div 1024"
  unfolding unat_drop_bit_eq page_no_def by (simp add: drop_bit_eq_div div_mult2_eq [symmetric])

lemma pte_index: "unat (drop_bit 12 (va :: u32) AND 0x3FF) = page_no va mod 1024"
proof -
  have "drop_bit 12 va AND 0x3FF = take_bit 10 (drop_bit 12 va)"
    by (simp add: take_bit_eq_mask mask_eq_exp_minus_1)
  then show ?thesis
    unfolding page_no_def
    by (simp only: unsigned_take_bit_eq unat_drop_bit_eq) (simp add: take_bit_eq_mod drop_bit_eq_div)
qed

lemma frame_of_page: "va AND PAGE_FRAME = of_nat (page_no va * 4096)"
proof -
  have "unat (va AND PAGE_FRAME) = page_no va * 4096"
    unfolding page_frame_mask unat_frame page_no_def ..
  then show ?thesis by (metis of_nat_unat ucast_id)
qed

lemma page_no_limit: "va < MMU_VA_MAP_LIMIT \<Longrightarrow> page_no va < 16684"
  by (simp add: page_no_def word_less_nat_alt div_less_iff_less_mult)

lemma page_eqI: "n div 1024 = k div 1024 \<Longrightarrow> n mod 1024 = k mod 1024 \<Longrightarrow> n = (k :: nat)"
  by (metis div_mult_mod_eq)

text \<open>Mapping one page changes one entry and keeps the first-level entry in step.\<close>

lemma map_page_spec:
  assumes wf: "mmu_wf lay st" and va: "va < MMU_VA_MAP_LIMIT"
  obtains st' where "mmu_map_identity_page lay va prot st = (0, st')" "mmu_wf lay st'"
    "\<And>n. n < 17408 \<Longrightarrow> pte_at st' n = (if n = page_no va then identity_pte prot n else pte_at st n)"
    "g_mmu_enabled st' = g_mmu_enabled st" "mmu_writes st' = mmu_writes st"
proof -
  let ?p = "page_no va"
  have p: "?p div 1024 < 17" using page_no_limit [OF va] by (simp add: div_less_iff_less_mult)
  define tbl where "tbl = (g_l2 st ! (?p div 1024))[?p mod 1024 := identity_pte prot ?p]"
  define st' where "st' = st\<lparr>g_l2 := (g_l2 st)[?p div 1024 := tbl],
    g_l1 := (g_l1 st)[?p div 1024 := (l2_table_addr lay (?p div 1024) AND PAGE_FRAME) OR MMU_PTE_P OR pde_flags_of tbl]\<rparr>"
  have eq: "mmu_map_identity_page lay va prot st = (0, st')"
    using va p unfolding mmu_map_identity_page_def pde_index pte_index frame_of_page [of va] Let_def
    by (simp add: st'_def tbl_def identity_pte_def not_le)
  have len: "length (g_l1 st) = 1024" "length (g_l2 st) = 17" "\<And>k. k < 17 \<Longrightarrow> length (g_l2 st ! k) = 1024"
    using wf by (auto simp: mmu_wf_def)
  have "mmu_wf lay st'"
    using wf p unfolding mmu_wf_def st'_def by (auto simp: tbl_def nth_list_update)
  moreover have "pte_at st' n = (if n = ?p then identity_pte prot n else pte_at st n)" if "n < 17408" for n
    using len p that page_eqI [of n ?p]
    by (auto simp: pte_at_def st'_def tbl_def nth_list_update)
  ultimately show thesis by (intro that [OF eq]) (simp_all add: st'_def)
qed

text \<open>The loop maps the pages from its current one up to the end, and returns.\<close>

lemma map_loop_spec:
  assumes "mmu_wf lay st" and "unat page = p * 4096" and "unat end = e * 4096" and "e \<le> 16684"
  shows "\<exists>st'. mmu_map_loop lay page end prot st = Some (0, st') \<and> mmu_wf lay st' \<and>
    (\<forall>n < 17408. pte_at st' n = (if p \<le> n \<and> n < e then identity_pte prot n else pte_at st n)) \<and>
    g_mmu_enabled st' = g_mmu_enabled st \<and> mmu_writes st' = mmu_writes st"
  using assms
proof (induction "e - p" arbitrary: p page st)
  case 0
  then have "\<not> page < end" by (simp add: word_less_nat_alt)
  with 0 show ?case by (subst mmu_map_loop.simps) auto
next
  case (Suc k)
  then have lt: "page < end" and pe: "p < e" by (simp_all add: word_less_nat_alt)
  then have va: "page < MMU_VA_MAP_LIMIT" using Suc.prems by (simp add: word_less_nat_alt)
  have pn: "page_no page = p" using Suc.prems(2) by (simp add: page_no_def)
  from map_page_spec [OF Suc.prems(1) va, of prot, unfolded pn] obtain st1 where
    1: "mmu_map_identity_page lay page prot st = (0, st1)" "mmu_wf lay st1"
      "\<And>n. n < 17408 \<Longrightarrow> pte_at st1 n = (if n = p then identity_pte prot n else pte_at st n)"
      "g_mmu_enabled st1 = g_mmu_enabled st" "mmu_writes st1 = mmu_writes st" by blast
  have nx: "unat (page + 4096) = Suc p * 4096"
    using Suc.prems(2,4) pe by (simp add: unat_word_ariths)
  have "k = e - Suc p" using Suc.hyps(2) by linarith
  from Suc.hyps(1) [OF this 1(2) nx Suc.prems(3,4)] obtain st' where
    "mmu_map_loop lay (page + 4096) end prot st1 = Some (0, st')" "mmu_wf lay st'"
    "\<forall>n < 17408. pte_at st' n = (if Suc p \<le> n \<and> n < e then identity_pte prot n else pte_at st1 n)"
    "g_mmu_enabled st' = g_mmu_enabled st1" "mmu_writes st' = mmu_writes st1" by blast
  with 1 lt pe show ?case by (subst mmu_map_loop.simps) (auto simp: not_le less_Suc_eq_le)
qed


subsection \<open>Ranges of bytes\<close>

lemma align_down_page: "unat (align_down_4k v) = page_no v * 4096"
  unfolding align_down_4k_def not_4095 unat_frame page_no_def ..

lemma align_up_page:
  assumes "unat v \<le> 0x0412C000"
  shows "unat (align_up_4k v) = (unat v + 4095) div 4096 * 4096"
proof -
  have "unat (v + 4095) = unat v + 4095" using assms by (simp add: unat_word_ariths)
  moreover have "v + 4096 - 1 = v + 4095" by simp
  ultimately show ?thesis unfolding align_up_4k_def not_4095 unat_frame by (simp only:)
qed

text \<open>The pages that contain a byte of the range \<open>va, va + len\<close>.\<close>

definition touches :: "u32 \<Rightarrow> u32 \<Rightarrow> nat \<Rightarrow> bool" where
  "touches va len n \<longleftrightarrow> (\<exists>b. unat va \<le> b \<and> b < unat va + unat len \<and> b div 4096 = n)"

lemma touches_iff:
  assumes "0 < unat len"
  shows "touches va len n \<longleftrightarrow> page_no va \<le> n \<and> n < (unat va + unat len + 4095) div 4096"
proof
  assume "touches va len n"
  then obtain b where b: "unat va \<le> b" "b < unat va + unat len" "b div 4096 = n"
    by (auto simp: touches_def)
  have "page_no va \<le> n" using div_le_mono [OF b(1), of 4096] b(3) by (simp add: page_no_def)
  moreover have "n * 4096 \<le> b" using b(3) by auto
  then have "Suc n * 4096 \<le> unat va + unat len + 4095" using b(2) by simp
  then have "Suc n \<le> (unat va + unat len + 4095) div 4096" by (simp add: less_eq_div_iff_mult_less_eq)
  ultimately show "page_no va \<le> n \<and> n < (unat va + unat len + 4095) div 4096" by simp
next
  assume n: "page_no va \<le> n \<and> n < (unat va + unat len + 4095) div 4096"
  then have "Suc n \<le> (unat va + unat len + 4095) div 4096" by simp
  then have "Suc n * 4096 \<le> unat va + unat len + 4095" by (subst (asm) less_eq_div_iff_mult_less_eq) simp_all
  then have hi: "n * 4096 < unat va + unat len" by simp
  show "touches va len n"
  proof (cases "page_no va = n")
    case True
    then show ?thesis using assms unfolding touches_def by (intro exI [of _ "unat va"]) (simp add: page_no_def)
  next
    case False
    with n have "page_no va < n" by simp
    then have "unat va < n * 4096" by (simp add: page_no_def div_less_iff_less_mult)
    then show ?thesis using hi unfolding touches_def by (intro exI [of _ "n * 4096"]) simp
  qed
qed

lemma map_identity_spec:
  assumes wf: "mmu_wf lay st" and len: "len \<noteq> 0"
    and ok: "va < MMU_VA_MAP_LIMIT" "len \<le> MMU_VA_MAP_LIMIT - va"
  obtains st' where "mmu_map_identity lay va len prot st = Some (0, mmu_flush_all st')" "mmu_wf lay st'"
    "\<And>n. n < 17408 \<Longrightarrow> pte_at st' n = (if touches va len n then identity_pte prot n else pte_at st n)"
    "g_mmu_enabled st' = g_mmu_enabled st" "mmu_writes st' = mmu_writes st"
proof -
  have sum: "unat va + unat len \<le> 0x0412C000"
    using ok by (simp add: word_le_nat_alt word_less_nat_alt unat_sub)
  then have add: "unat (va + len) = unat va + unat len" by (simp add: unat_word_ariths)
  let ?e = "(unat va + unat len + 4095) div 4096"
  have e: "unat (align_up_4k (va + len)) = ?e * 4096" using align_up_page [of "va + len"] sum add by simp
  have e_le: "?e \<le> 16684" using sum by (simp add: div_le_dividend less_Suc_eq_le [symmetric] div_less_iff_less_mult)
  have pos: "0 < unat len" using len by (simp add: unat_gt_0)
  have le: "page_no va \<le> ?e" unfolding page_no_def by (rule div_le_mono) simp
  from map_loop_spec [OF wf align_down_page e e_le, of va prot] obtain st' where l:
    "mmu_map_loop lay (align_down_4k va) (align_up_4k (va + len)) prot st = Some (0, st')" "mmu_wf lay st'"
    "\<forall>n < 17408. pte_at st' n = (if page_no va \<le> n \<and> n < ?e then identity_pte prot n else pte_at st n)"
    "g_mmu_enabled st' = g_mmu_enabled st" "mmu_writes st' = mmu_writes st" by blast
  have "\<not> align_up_4k (va + len) < align_down_4k va" "\<not> align_up_4k (va + len) > MMU_VA_MAP_LIMIT"
    using e le e_le align_down_page [of va] by (simp_all add: word_less_nat_alt)
  then have "mmu_map_identity lay va len prot st = Some (0, mmu_flush_all st')"
    using len ok l(1) by (simp add: mmu_map_identity_def Let_def not_le not_less)
  then show thesis by (rule that) (use l touches_iff [OF pos] in auto)
qed


subsection \<open>The kernel map\<close>

lemma page_addr_eq:
  assumes "pte < 1024"
  shows "page_addr pde pte = of_nat ((pde * 1024 + pte) * 4096)"
proof -
  have t: "take_bit 10 pte = pte" using assms by (simp add: take_bit_nat_eq_self)
  have "push_bit 10 pde AND pte = push_bit 10 pde AND take_bit 10 pte" by (simp only: t)
  also have "\<dots> = 0" by (rule bit_eqI) (auto simp: bit_simps)
  finally have "push_bit 10 pde + pte = push_bit 10 pde OR pte" by (rule disjunctive_add_eq_or)
  then have "push_bit 12 (push_bit 10 pde OR pte) = (pde * 1024 + pte) * 4096"
    by (simp add: push_bit_eq_mult)
  moreover have "push_bit 12 (push_bit 10 pde OR pte) = push_bit 22 pde OR push_bit 12 pte"
    by simp
  ultimately show ?thesis
    unfolding page_addr_def by (metis of_nat_or_eq push_bit_of_nat)
qed

lemma flag_cases: "mmu_prot_to_pte_flags prot \<in> {0, 2, 4, 6, 8, 10, 12, 14}"
  by (simp add: mmu_prot_to_pte_flags_def Let_def)

lemma low_bits:
  fixes a c :: u32
  assumes "c AND NOT (mask 12) = 0"
  shows "((a AND PAGE_FRAME) OR f) AND c = f AND c"
proof -
  have "(a AND PAGE_FRAME) AND c = a AND (c AND NOT (mask 12))"
    unfolding page_frame_mask by (simp only: ac_simps)
  then show ?thesis using assms by (simp add: bit.conj_disj_distrib2)
qed

text \<open>The flags of an entry are those it was made with.\<close>

lemma pte_flags:
  fixes a prot :: u32
  defines "e \<equiv> (a AND PAGE_FRAME) OR MMU_PTE_P OR mmu_prot_to_pte_flags prot"
  shows "e AND MMU_PTE_P \<noteq> 0" and "e AND (MMU_PTE_W OR MMU_PTE_U OR MMU_PTE_X) = mmu_prot_to_pte_flags prot"
    and "e AND MMU_PTE_W = mmu_prot_to_pte_flags prot AND MMU_PTE_W"
    and "e AND MMU_PTE_X = mmu_prot_to_pte_flags prot AND MMU_PTE_X"
proof -
  have m: "(1 :: u32) AND NOT (mask 12) = 0" "(14 :: u32) AND NOT (mask 12) = 0"
    "(2 :: u32) AND NOT (mask 12) = 0" "(8 :: u32) AND NOT (mask 12) = 0"
    by (simp_all add: mask_eq_exp_minus_1)
  note l = m [THEN low_bits [where a = a and f = "MMU_PTE_P OR mmu_prot_to_pte_flags prot"], folded e_def]
  have w: "MMU_PTE_W OR MMU_PTE_U OR MMU_PTE_X = 14" by simp
  show "e AND MMU_PTE_P \<noteq> 0" "e AND (MMU_PTE_W OR MMU_PTE_U OR MMU_PTE_X) = mmu_prot_to_pte_flags prot"
    "e AND MMU_PTE_W = mmu_prot_to_pte_flags prot AND MMU_PTE_W"
    "e AND MMU_PTE_X = mmu_prot_to_pte_flags prot AND MMU_PTE_X"
    unfolding w l using flag_cases [of prot] by (elim insertE emptyE; simp)+
qed

lemma kernel_pde_flags_eq:
  "kernel_pde_flags lay pde = pde_flags_of (map (\<lambda>pte. kernel_pte lay (page_addr pde pte)) [0..<1024])"
proof -
  have "(let pa = page_addr pde pte in if pa \<ge> MMU_VA_MAP_LIMIT then f
      else f OR mmu_prot_to_pte_flags (mmu_kernel_page_prot lay pa)) =
    (if kernel_pte lay (page_addr pde pte) AND MMU_PTE_P = 0 then f
     else f OR (kernel_pte lay (page_addr pde pte) AND (MMU_PTE_W OR MMU_PTE_U OR MMU_PTE_X)))" for f pte
    using pte_flags(1,2) [of "page_addr pde pte" "mmu_kernel_page_prot lay (page_addr pde pte)"]
    by (simp add: kernel_pte_def Let_def)
  then show ?thesis
    unfolding kernel_pde_flags_def pde_flags_of_def fold_map o_def by (simp only:)
qed

lemma build_wf: "mmu_wf lay (mmu_build_kernel_identity_map lay st)"
  by (simp add: mmu_wf_def mmu_build_kernel_identity_map_def nth_append kernel_pde_flags_eq)

lemma build_pte:
  assumes "n < 17408"
  shows "pte_at (mmu_build_kernel_identity_map lay st) n =
    (if n < 16684 then identity_pte (mmu_kernel_page_prot lay (of_nat (n * 4096))) n else 0)"
proof -
  have i: "n div 1024 < 17" "n mod 1024 < 1024" using assms by (simp_all add: div_less_iff_less_mult)
  have a: "page_addr (n div 1024) (n mod 1024) = of_nat (n * 4096)"
    unfolding page_addr_eq [OF i(2)] div_mult_mod_eq ..
  have u: "unat (of_nat (n * 4096) :: u32) = n * 4096"
    using assms by (intro unat_of_nat_u32) simp
  have "pte_at (mmu_build_kernel_identity_map lay st) n = kernel_pte lay (of_nat (n * 4096))"
    using i unfolding a [symmetric]
    by (simp add: pte_at_def mmu_build_kernel_identity_map_def del: of_nat_mult)
  moreover have "of_nat (n * 4096) \<ge> MMU_VA_MAP_LIMIT \<longleftrightarrow> \<not> n < 16684"
    unfolding word_le_nat_alt u by auto
  moreover have "of_nat (n * 4096) AND PAGE_FRAME = (of_nat (n * 4096) :: u32)"
    unfolding frame_of_page page_no_def u by simp
  ultimately show ?thesis by (simp add: kernel_pte_def identity_pte_def)
qed

lemma identity_pte_flags:
  assumes "n < 17408"
  shows "identity_pte prot n AND MMU_PTE_W = mmu_prot_to_pte_flags prot AND MMU_PTE_W"
    and "identity_pte prot n AND MMU_PTE_X = mmu_prot_to_pte_flags prot AND MMU_PTE_X"
proof -
  have u: "unat (of_nat (n * 4096) :: u32) = n * 4096" using assms by (intro unat_of_nat_u32) simp
  have "of_nat (n * 4096) AND PAGE_FRAME = (of_nat (n * 4096) :: u32)"
    unfolding frame_of_page page_no_def u by simp
  then show "identity_pte prot n AND MMU_PTE_W = mmu_prot_to_pte_flags prot AND MMU_PTE_W"
    and "identity_pte prot n AND MMU_PTE_X = mmu_prot_to_pte_flags prot AND MMU_PTE_X"
    using pte_flags(3,4) [of "of_nat (n * 4096)" prot] by (simp_all add: identity_pte_def)
qed

lemma kernel_prot_wx:
  "mmu_prot_to_pte_flags (mmu_kernel_page_prot lay pa) AND MMU_PTE_W = 0 \<or>
   mmu_prot_to_pte_flags (mmu_kernel_page_prot lay pa) AND MMU_PTE_X = 0"
  by (simp add: mmu_kernel_page_prot_def mmu_prot_to_pte_flags_def Let_def)

subsection \<open>Properties\<close>

text \<open>The section that a page belongs to: the page has a byte between the two symbols.\<close>

definition in_section :: "u32 \<Rightarrow> u32 \<Rightarrow> nat \<Rightarrow> bool" where
  "in_section lo hi n \<longleftrightarrow> unat lo < (n + 1) * 4096 \<and> n * 4096 < unat hi"

lemma section_range:
  assumes n: "n < 17408" and hi: "unat hi \<le> 2 ^ 32 - 4096"
  shows "align_down_4k lo \<le> of_nat (n * 4096) \<and> of_nat (n * 4096) < align_up_4k hi \<longleftrightarrow> in_section lo hi n"
proof -
  have u: "unat (of_nat (n * 4096) :: u32) = n * 4096" using n by (intro unat_of_nat_u32) simp
  have lo: "unat (align_down_4k lo) = unat lo div 4096 * 4096"
    unfolding align_down_4k_def not_4095 by (rule unat_frame)
  have "unat (hi + 4096 - 1) = unat hi + 4095"
  proof -
    have "hi + 4096 - 1 = hi + 4095" by simp
    then show ?thesis using hi by (simp add: unat_word_ariths)
  qed
  then have hi': "unat (align_up_4k hi) = (unat hi + 4095) div 4096 * 4096"
    unfolding align_up_4k_def not_4095 unat_frame by simp
  have "unat lo div 4096 * 4096 \<le> n * 4096 \<longleftrightarrow> unat lo < (n + 1) * 4096"
    using less_Suc_eq_le [of "unat lo div 4096" n] by (simp add: div_less_iff_less_mult)
  moreover have "n * 4096 < (unat hi + 4095) div 4096 * 4096 \<longleftrightarrow> n * 4096 < unat hi"
    using less_eq_div_iff_mult_less_eq [of 4096 "Suc n" "unat hi + 4095"] by (auto simp: Suc_le_eq [symmetric])
  ultimately show ?thesis unfolding word_le_nat_alt word_less_nat_alt u lo hi' in_section_def by simp
qed

text \<open>C13. The table that \<open>mmu_init\<close> builds maps each of the 16684 pages of memory and frame
  buffer to itself and nothing else. A page with a byte of the program text is present and executable but not
  writable, one with a byte of the constants is present only, every other is present and writable but not
  executable, and none is open to user programs; the first-level entries hold the union of the rights below
  them. The linker's symbols have to lie below the last page of the address space.\<close>

theorem mmu_build_kernel_identity_map_correct:
  assumes "n < 17408" and "st' = mmu_build_kernel_identity_map lay st"
    and "unat (text_end lay) \<le> 2 ^ 32 - 4096" "unat (rodata_end lay) \<le> 2 ^ 32 - 4096"
  shows "mmu_wf lay st' \<and>
    pte_at st' n =
      (if n \<ge> 16684 then 0
       else of_nat (n * 4096) OR
         (if in_section (text_start lay) (text_end lay) n then MMU_PTE_P OR MMU_PTE_X
          else if in_section (rodata_start lay) (rodata_end lay) n then MMU_PTE_P
          else MMU_PTE_P OR MMU_PTE_W)) \<and>
    (pte_at st' n AND MMU_PTE_W = 0 \<or> pte_at st' n AND MMU_PTE_X = 0)"
proof -
  have "mmu_prot_to_pte_flags (mmu_kernel_page_prot lay (of_nat (n * 4096))) =
      (if in_section (text_start lay) (text_end lay) n then MMU_PTE_X
       else if in_section (rodata_start lay) (rodata_end lay) n then 0 else MMU_PTE_W)"
    unfolding mmu_kernel_page_prot_def Let_def section_range [OF assms(1,3)] section_range [OF assms(1,4)]
    by (simp add: mmu_prot_to_pte_flags_def)
  then have e: "identity_pte (mmu_kernel_page_prot lay (of_nat (n * 4096))) n = of_nat (n * 4096) OR
      (if in_section (text_start lay) (text_end lay) n then MMU_PTE_P OR MMU_PTE_X
       else if in_section (rodata_start lay) (rodata_end lay) n then MMU_PTE_P else MMU_PTE_P OR MMU_PTE_W)"
    by (simp add: identity_pte_def)
  have "pte_at st' n AND MMU_PTE_W = 0 \<or> pte_at st' n AND MMU_PTE_X = 0"
    unfolding assms(2) build_pte [OF assms(1)]
    using identity_pte_flags [OF assms(1)] kernel_prot_wx [of lay "of_nat (n * 4096)"] by simp
  moreover have "pte_at st' n = (if n \<ge> 16684 then 0 else identity_pte (mmu_kernel_page_prot lay (of_nat (n * 4096))) n)"
    unfolding assms(2) build_pte [OF assms(1)] by simp
  ultimately show ?thesis unfolding e using build_wf [of lay st] assms(2) by simp
qed

definition test_layout :: mmu_layout where
  "test_layout = \<lparr>l1_addr = 0x100000, l2_addr = 0x101000, text_start = 0x10000, text_end = 0x20000,
     rodata_start = 0x20000, rodata_end = 0x28000\<rparr>"

definition blank_mmu :: mmu_state where
  "blank_mmu = \<lparr>g_mmu_enabled = True, g_root_pa_lo = 0, g_l1 = [], g_l2 = [], mmu_writes = []\<rparr>"

definition test_mmu :: mmu_state where
  "test_mmu = mmu_build_kernel_identity_map test_layout blank_mmu"

theorem mmu_build_kernel_identity_map_correct_witness:
  "pte_at test_mmu 16 = 0x10009 \<and> pte_at test_mmu 32 = 0x20001 \<and> pte_at test_mmu 64 = 0x40003"
proof -
  note t = mmu_build_kernel_identity_map_correct [OF _ test_mmu_def]
  show ?thesis
    using t [of 16] t [of 32] t [of 64] by (simp add: in_section_def test_layout_def)
qed

text \<open>C14. \<open>mmu_map_identity\<close> always returns. It succeeds exactly on ranges within the mappable
  space (an empty range changes nothing); it then maps exactly the pages that contain a byte of
  the range to themselves with the given protection, keeps all others and the first-level
  entries in step, and flushes all translation buffers when paging is on. Otherwise it returns
  -1 and changes nothing.\<close>

theorem mmu_map_identity_correct:
  assumes wf: "mmu_wf lay st"
  shows "\<exists>r st'. mmu_map_identity lay va len prot st = Some (r, st') \<and> mmu_wf lay st' \<and>
    (r = 0 \<longleftrightarrow> len = 0 \<or> (va < MMU_VA_MAP_LIMIT \<and> len \<le> MMU_VA_MAP_LIMIT - va)) \<and>
    (r \<noteq> 0 \<longrightarrow> r = -1 \<and> st' = st) \<and>
    (r = 0 \<longrightarrow> (\<forall>n < 17408. pte_at st' n = (if touches va len n then identity_pte prot n else pte_at st n))) \<and>
    (r = 0 \<and> len \<noteq> 0 \<and> g_mmu_enabled st \<longrightarrow> mmu_writes st' = (REG_TLB_FLUSH, 2) # mmu_writes st)"
proof (cases "len \<noteq> 0 \<and> va < MMU_VA_MAP_LIMIT \<and> len \<le> MMU_VA_MAP_LIMIT - va")
  case True
  then obtain st' where s: "mmu_map_identity lay va len prot st = Some (0, mmu_flush_all st')" "mmu_wf lay st'"
    "\<And>n. n < 17408 \<Longrightarrow> pte_at st' n = (if touches va len n then identity_pte prot n else pte_at st n)"
    "g_mmu_enabled st' = g_mmu_enabled st" "mmu_writes st' = mmu_writes st"
    using map_identity_spec [OF wf, of len va prot] by blast
  have f: "mmu_wf lay (mmu_flush_all st') = mmu_wf lay st'" "pte_at (mmu_flush_all st') n = pte_at st' n"
    "g_mmu_enabled st \<Longrightarrow> mmu_writes (mmu_flush_all st') = (REG_TLB_FLUSH, 2) # mmu_writes st" for n
    using s(4,5) by (simp_all add: mmu_flush_all_def mmio_write32_def mmu_wf_def pte_at_def)
  show ?thesis using True s f by (intro exI [of _ 0] exI [of _ "mmu_flush_all st'"]) simp
next
  case False
  have "\<not> touches va 0 n" for n by (simp add: touches_def)
  with False wf show ?thesis
    by (cases "len = 0") (auto simp: mmu_map_identity_def not_le not_less)
qed

theorem mmu_map_identity_correct_witness:
  "\<exists>st'. mmu_map_identity test_layout 0x02000FFF 2 MMU_PROT_USER test_mmu = Some (0, st') \<and>
     pte_at st' 0x2000 = 0x02000005 \<and> pte_at st' 0x2001 = 0x02001005 \<and> pte_at st' 0x2002 = 0x02002003"
proof -
  have wf: "mmu_wf test_layout test_mmu" unfolding test_mmu_def by (rule build_wf)
  have t: "touches 0x02000FFF 2 0x2000" "touches 0x02000FFF 2 0x2001" "\<not> touches 0x02000FFF 2 0x2002"
    by (simp_all add: touches_iff page_no_def)
  have p: "pte_at test_mmu 0x2002 = 0x02002003"
    unfolding test_mmu_def
    by (subst build_pte) (simp_all add: identity_pte_def mmu_kernel_page_prot_def test_layout_def
        mmu_prot_to_pte_flags_def align_down_4k_def align_up_4k_def Let_def)
  from mmu_map_identity_correct [OF wf, of "0x02000FFF" 2 MMU_PROT_USER] obtain r st' where
    "mmu_map_identity test_layout 0x02000FFF 2 MMU_PROT_USER test_mmu = Some (r, st')" "r = 0"
    "\<forall>n < 17408. pte_at st' n = (if touches 0x02000FFF 2 n then identity_pte MMU_PROT_USER n else pte_at test_mmu n)"
    by auto
  with t p show ?thesis
    by (intro exI [of _ st']) (simp add: identity_pte_def mmu_prot_to_pte_flags_def Let_def)
qed

end
