(* ===== verification/Iommu.thy ===== *)
theory Iommu
  imports Dma_Ring Mmu
begin

text \<open>
  The device page table of \<open>src/iommu.c\<close>: it maps the 64 MB window of device addresses from
  \<open>0x01000000\<close> onto physical memory from 0, through one first-level and sixteen second-level
  tables. The addresses of the tables are parameters. The device is not modelled: the theorem below states
  what it is given, the entries of the tables and the values of its registers, and relates them to
  \<open>iommu_dma_iova\<close>, through which every driver obtains its device addresses.
\<close>

subsection \<open>The code\<close>

abbreviation (input) "IOMMU_DMA_PAGES \<equiv> (16384 :: nat)"
abbreviation (input) "IOMMU_PTE_PRW \<equiv> (0x7 :: u32)"

datatype iommu_reg =
    IO_CTRL | IO_DEVSEL | IO_DEV_CTRL | IO_IOVA_BASE_LO | IO_IOVA_BASE_HI | IO_IOVA_SIZE
  | IO_PA_BASE_LO | IO_PA_BASE_HI | IO_ROOT_LO | IO_ROOT_HI | IO_FAULT_STATUS

record iommu_state =
  g_iommu_active :: bool
  g_iommu_initialized :: bool
  g_iommu_l1 :: "u32 list"
  g_iommu_l2 :: "u32 list list"
  iommu_writes :: "(iommu_reg \<times> u32) list"

definition iommu_map_page :: "u32 \<Rightarrow> nat \<Rightarrow> u32 list \<times> u32 list list \<Rightarrow> u32 list \<times> u32 list list" where
  "iommu_map_page l2_base page = (\<lambda>(l1, l2).
     let iova = IOMMU_DMA_IOVA_BASE + of_nat page * 4096;
         pa = of_nat page * 4096;
         pde = unat (drop_bit 22 iova);
         pte = unat (drop_bit 12 iova AND 0x3FF);
         table = page div 1024
     in (l1[pde := ((l2_base + of_nat table * 4096) AND PAGE_FRAME) OR 1],
         l2[table := (l2 ! table)[pte := (pa AND PAGE_FRAME) OR IOMMU_PTE_PRW]]))"

definition iommu_build_tables :: "u32 \<Rightarrow> u32 list \<times> u32 list list" where
  "iommu_build_tables l2_base =
     fold (iommu_map_page l2_base) [0..<IOMMU_DMA_PAGES]
       (replicate 1024 0, replicate 16 (replicate 1024 0))"

definition iommu_build_disk_page_table :: "u32 \<Rightarrow> iommu_state \<Rightarrow> iommu_state" where
  "iommu_build_disk_page_table l2_base st =
     st\<lparr>g_iommu_l1 := fst (iommu_build_tables l2_base), g_iommu_l2 := snd (iommu_build_tables l2_base)\<rparr>"

definition iommu_write :: "iommu_reg \<Rightarrow> u32 \<Rightarrow> iommu_state \<Rightarrow> iommu_state" where
  "iommu_write r v st = st\<lparr>iommu_writes := (r, v) # iommu_writes st\<rparr>"

definition iommu_program_device :: "u32 \<Rightarrow> u32 \<Rightarrow> iommu_state \<Rightarrow> iommu_state" where
  "iommu_program_device l1_base dev_id st =
     (let st = iommu_write IO_DEVSEL dev_id st;
          st = iommu_write IO_DEV_CTRL 0 st;
          st = iommu_write IO_IOVA_BASE_LO IOMMU_DMA_IOVA_BASE st;
          st = iommu_write IO_IOVA_BASE_HI 0 st;
          st = iommu_write IO_IOVA_SIZE KERNEL_MEM_SIZE st;
          st = iommu_write IO_PA_BASE_LO 0 st;
          st = iommu_write IO_PA_BASE_HI 0 st;
          st = iommu_write IO_ROOT_LO l1_base st;
          st = iommu_write IO_ROOT_HI 0 st
      in iommu_write IO_DEV_CTRL (1 OR 2) st)"

text \<open>\<open>info\<close> is the feature word of the boot record, if there is one; \<open>cap\<close> is the capability
  register.\<close>

definition iommu_init :: "u32 \<Rightarrow> u32 \<Rightarrow> u32 option \<Rightarrow> u32 \<Rightarrow> iommu_state \<Rightarrow> iommu_state" where
  "iommu_init l1_base l2_base info cap st =
     (if g_iommu_initialized st then st
      else let st = st\<lparr>g_iommu_initialized := True, g_iommu_active := False\<rparr> in
        (case info of
           None \<Rightarrow> st
         | Some features \<Rightarrow>
             if features AND 0x40 = 0 then st
             else if cap AND 0xFF \<le> 2 then st
             else let st = iommu_build_disk_page_table l2_base st;
                      st = iommu_write IO_CTRL 0 st;
                      st = iommu_program_device l1_base 0 st;
                      st = iommu_program_device l1_base 1 st;
                      st = iommu_program_device l1_base 2 st;
                      st = iommu_write IO_FAULT_STATUS 1 st;
                      st = iommu_write IO_CTRL 1 st
                  in st\<lparr>g_iommu_active := True\<rparr>))"

definition iommu_active :: "iommu_state \<Rightarrow> u32" where
  "iommu_active st = (if g_iommu_active st then 1 else 0)"

subsection \<open>The entries\<close>

definition iommu_l1_entry :: "u32 \<Rightarrow> nat \<Rightarrow> u32" where
  "iommu_l1_entry l2_base table = ((l2_base + of_nat table * 4096) AND PAGE_FRAME) OR 1"

definition iommu_l2_entry :: "nat \<Rightarrow> u32" where
  "iommu_l2_entry page = (of_nat (page * 4096) AND PAGE_FRAME) OR IOMMU_PTE_PRW"

lemma iova_page:
  assumes "page < 16384"
  shows "page_no (IOMMU_DMA_IOVA_BASE + of_nat page * 4096) = 4096 + page"
proof -
  have "unat (of_nat page * 4096 :: u32) = page * 4096"
    using unat_of_nat_u32 [of "page * 4096"] assms by simp
  then have "unat (IOMMU_DMA_IOVA_BASE + of_nat page * 4096) = (4096 + page) * 4096"
    using assms by (simp add: unat_word_ariths)
  then show ?thesis by (simp add: page_no_def)
qed

lemma map_page_eq:
  assumes "page < 16384"
  shows "iommu_map_page l2_base page (l1, l2) =
    (l1[4 + page div 1024 := iommu_l1_entry l2_base (page div 1024)],
     l2[page div 1024 := (l2 ! (page div 1024))[page mod 1024 := iommu_l2_entry page]])"
proof -
  have "(4096 + page) div 1024 = 4 + page div 1024" by simp
  moreover have "(4096 + page) mod 1024 = page mod 1024"
    using mod_mult_self2 [of page 1024 4] by (simp add: add.commute)
  ultimately show ?thesis
    unfolding iommu_map_page_def Let_def pde_index pte_index iova_page [OF assms] iommu_l1_entry_def
      iommu_l2_entry_def by simp
qed

text \<open>After the pages below \<open>n\<close> have been mapped:\<close>

definition tables_upto :: "u32 \<Rightarrow> nat \<Rightarrow> u32 list \<times> u32 list list \<Rightarrow> bool" where
  "tables_upto l2_base n tb \<longleftrightarrow> length (fst tb) = 1024 \<and> length (snd tb) = 16 \<and>
     (\<forall>t < 16. length (snd tb ! t) = 1024) \<and>
     (\<forall>k < 1024. fst tb ! k = (if 4 \<le> k \<and> (k - 4) * 1024 < n then iommu_l1_entry l2_base (k - 4) else 0)) \<and>
     (\<forall>t < 16. \<forall>j < 1024. snd tb ! t ! j = (if t * 1024 + j < n then iommu_l2_entry (t * 1024 + j) else 0))"

lemma tables_step:
  assumes inv: "tables_upto l2_base n tb" and n: "n < 16384"
  shows "tables_upto l2_base (Suc n) (iommu_map_page l2_base n tb)"
proof -
  obtain l1 l2 where tb: "tb = (l1, l2)" by fastforce
  let ?t = "n div 1024" and ?j = "n mod 1024"
  have t: "?t < 16" using n by (simp add: div_less_iff_less_mult)
  have nt: "?t * 1024 + ?j = n" by (rule div_mult_mod_eq)
  have l1: "(k - 4) * 1024 < Suc n \<longleftrightarrow> (k - 4) * 1024 < n \<or> k - 4 = ?t" if "4 \<le> k" for k
    using nt by (auto simp: less_Suc_eq_le div_less_iff_less_mult less_eq_div_iff_mult_less_eq [symmetric])
  have l2: "t * 1024 + j < Suc n \<longleftrightarrow> t * 1024 + j < n \<or> (t = ?t \<and> j = ?j)" if "j < 1024" for t j :: nat
    using that nt by (auto simp: less_Suc_eq)
  show ?thesis
    using inv t n unfolding tables_upto_def tb map_page_eq [OF n]
    by (auto simp: nth_list_update l1 l2 nt)
qed


lemma tables_built: "tables_upto l2_base 16384 (iommu_build_tables l2_base)"
proof -
  have "tables_upto l2_base n (fold (iommu_map_page l2_base) [0..<n]
      (replicate 1024 0, replicate 16 (replicate 1024 0)))" if "n \<le> 16384" for n
    using that
  proof (induction n)
    case 0
    show ?case by (simp add: tables_upto_def)
  next
    case (Suc n)
    then show ?case using tables_step [of l2_base n] by simp
  qed
  then show ?thesis unfolding iommu_build_tables_def by simp
qed

subsection \<open>Reading the tables\<close>

definition table_base_ok :: "u32 \<Rightarrow> bool" where
  "table_base_ok l2_base \<longleftrightarrow> l2_base AND PAGE_FRAME = l2_base \<and> unat l2_base < 2 ^ 32 - 16 * 4096"

lemma frame_of_nat: "n < 2 ^ 20 \<Longrightarrow> of_nat (n * 4096) AND PAGE_FRAME = (of_nat (n * 4096) :: u32)"
proof -
  assume "n < 2 ^ 20"
  then have u: "unat (of_nat (n * 4096) :: u32) = n * 4096" by (intro unat_of_nat_u32) simp
  show ?thesis unfolding frame_of_page page_no_def u by simp
qed

lemma or_frame: "f AND NOT (mask 12) = 0 \<Longrightarrow> ((a AND PAGE_FRAME) OR f) AND PAGE_FRAME = a AND PAGE_FRAME"
  unfolding page_frame_mask by (simp add: bit.conj_disj_distrib2 and.assoc)

lemma l1_entry:
  assumes b: "table_base_ok l2_base" and t: "t < 16"
  shows "iommu_l1_entry l2_base t AND 1 \<noteq> 0"
    and "unat ((iommu_l1_entry l2_base t AND PAGE_FRAME) - l2_base) div 4096 = t"
proof -
  have m: "(1 :: u32) AND NOT (mask 12) = 0" by (simp add: mask_eq_exp_minus_1)
  have u: "unat (of_nat (t * 4096) :: u32) = t * 4096" using t by (intro unat_of_nat_u32) simp
  have s: "unat (l2_base + of_nat t * 4096) = unat l2_base + t * 4096"
    using b t u by (simp add: table_base_ok_def unat_word_ariths)
  have al: "unat l2_base = page_no l2_base * 4096"
    using b unat_frame [of l2_base] by (simp add: table_base_ok_def page_frame_mask page_no_def)
  have "(l2_base + of_nat t * 4096) AND PAGE_FRAME = l2_base + of_nat t * 4096"
  proof -
    have "unat ((l2_base + of_nat t * 4096) AND PAGE_FRAME) = unat (l2_base + of_nat t * 4096)"
      unfolding page_frame_mask unat_frame s by (subst (1 2) al) simp
    then show ?thesis by (simp only: word_unat_eq_iff)
  qed
  then have f: "iommu_l1_entry l2_base t AND PAGE_FRAME = l2_base + of_nat t * 4096"
    unfolding iommu_l1_entry_def or_frame [OF m] .
  show "iommu_l1_entry l2_base t AND 1 \<noteq> 0"
    unfolding iommu_l1_entry_def using low_bits [OF m, of "l2_base + of_nat t * 4096" 1] by simp
  show "unat ((iommu_l1_entry l2_base t AND PAGE_FRAME) - l2_base) div 4096 = t"
    unfolding f using u by simp
qed

lemma l2_entry:
  assumes "n < 16384"
  shows "iommu_l2_entry n AND 1 \<noteq> 0" and "iommu_l2_entry n AND PAGE_FRAME = of_nat (n * 4096)"
proof -
  have m: "(1 :: u32) AND NOT (mask 12) = 0" "(7 :: u32) AND NOT (mask 12) = 0"
    by (simp_all add: mask_eq_exp_minus_1)
  show "iommu_l2_entry n AND 1 \<noteq> 0"
    unfolding iommu_l2_entry_def using low_bits [OF m(1), of "of_nat (n * 4096)" 7] by simp
  show "iommu_l2_entry n AND PAGE_FRAME = of_nat (n * 4096)"
    unfolding iommu_l2_entry_def or_frame [OF m(2)] using assms by (intro frame_of_nat) simp
qed

lemma addr_split: "of_nat (page_no v * 4096) OR (v AND 0xFFF) = (v :: u32)"
proof -
  have "(0xFFF :: u32) = mask 12" by (simp add: mask_eq_exp_minus_1)
  then show ?thesis
    unfolding frame_of_page [symmetric] page_frame_mask
    by (intro bit_word_eqI) (auto simp: bit_simps)
qed

text \<open>The two entries that belong to a device address: the first-level one names one of the
  sixteen tables, the second-level one the page of the physical address, present, readable and writable. The
  offsets in the page agree.\<close>

definition tables_lead :: "u32 \<Rightarrow> iommu_state \<Rightarrow> u32 \<Rightarrow> u32 \<Rightarrow> bool" where
  "tables_lead l2_base st iova pa \<longleftrightarrow>
     (\<exists>t < 16. g_iommu_l1 st ! (unat iova div 2 ^ 22) = (l2_base + of_nat t * 4096) OR 1 \<and>
        g_iommu_l2 st ! t ! (unat iova div 4096 mod 1024) = (pa AND PAGE_FRAME) OR (1 OR 2 OR 4)) \<and>
     iova AND 0xFFF = pa AND 0xFFF"

lemma l1_entry_aligned:
  assumes b: "table_base_ok l2_base" and t: "t < 16"
  shows "iommu_l1_entry l2_base t = (l2_base + of_nat t * 4096) OR 1"
proof -
  have s: "unat (l2_base + of_nat t * 4096) = unat l2_base + t * 4096"
    using b t unat_of_nat_u32 [of "t * 4096"] by (simp add: table_base_ok_def unat_word_ariths)
  have al: "unat l2_base = page_no l2_base * 4096"
    using b unat_frame [of l2_base] by (simp add: table_base_ok_def page_frame_mask page_no_def)
  have "unat ((l2_base + of_nat t * 4096) AND PAGE_FRAME) = unat (l2_base + of_nat t * 4096)"
    unfolding page_frame_mask unat_frame s by (subst (1 2) al) simp
  then show ?thesis unfolding iommu_l1_entry_def by (simp only: word_unat_eq_iff [symmetric])
qed

lemma low_offset: "unat (v AND 0xFFF :: u32) = unat v mod 4096"
proof -
  have "(v AND 0xFFF :: u32) = take_bit 12 v" by (simp add: take_bit_eq_mask mask_eq_exp_minus_1)
  then show ?thesis by (simp only: unsigned_take_bit_eq) (simp add: take_bit_eq_mod)
qed

lemma built_lead:
  assumes b: "table_base_ok l2_base" and a: "a < KERNEL_MEM_SIZE"
    and st: "(g_iommu_l1 st, g_iommu_l2 st) = iommu_build_tables l2_base"
  shows "tables_lead l2_base st (IOMMU_DMA_IOVA_BASE + a) a"
proof -
  define n where "n = page_no a"
  have n: "n < 16384" using a by (simp add: n_def page_no_def word_less_nat_alt div_less_iff_less_mult)
  have u: "unat (IOMMU_DMA_IOVA_BASE + a) = 4096 * 4096 + unat a"
    using a by (simp add: word_less_nat_alt unat_word_ariths)
  have p: "unat (IOMMU_DMA_IOVA_BASE + a) div 4096 = 4096 + n" unfolding u n_def page_no_def by simp
  have i: "unat (IOMMU_DMA_IOVA_BASE + a) div 2 ^ 22 = 4 + n div 1024"
    using arg_cong [OF p, of "\<lambda>x. x div 1024"] by (simp add: div_mult2_eq [symmetric])
  have j: "unat (IOMMU_DMA_IOVA_BASE + a) div 4096 mod 1024 = n mod 1024"
    unfolding p using mod_mult_self2 [of n 1024 4] by (simp add: add.commute)
  have t: "n div 1024 < 16" "n mod 1024 < 1024" using n by (simp_all add: div_less_iff_less_mult)
  note T = tables_built [of l2_base, folded st, unfolded tables_upto_def fst_conv snd_conv]
  have "g_iommu_l1 st ! (4 + n div 1024) = iommu_l1_entry l2_base (n div 1024)"
    using T n t by (auto simp: div_mult_mod_eq less_le_trans [OF _ le_add1])
  moreover have "g_iommu_l2 st ! (n div 1024) ! (n mod 1024) = iommu_l2_entry n"
    using T n t by simp
  moreover have "iommu_l2_entry n = (a AND PAGE_FRAME) OR (1 OR 2 OR 4)"
  proof -
    have "of_nat (n * 4096) AND PAGE_FRAME = (of_nat (n * 4096) :: u32)" using n by (intro frame_of_nat) simp
    moreover have "a AND PAGE_FRAME = of_nat (n * 4096)" unfolding n_def by (rule frame_of_page)
    ultimately show ?thesis unfolding iommu_l2_entry_def by simp
  qed
  moreover have "(IOMMU_DMA_IOVA_BASE + a) AND 0xFFF = a AND 0xFFF"
    unfolding word_unat_eq_iff low_offset u by (rule mod_mult_self4)
  ultimately show ?thesis
    unfolding tables_lead_def i j using t l1_entry_aligned [OF b t(1)] by auto
qed

text \<open>Every present entry stays inside: it names one of the tables, or a page of the 64 MB of memory.\<close>

definition tables_bounded :: "u32 \<Rightarrow> iommu_state \<Rightarrow> bool" where
  "tables_bounded l2_base st \<longleftrightarrow>
     (\<forall>k < 1024. g_iommu_l1 st ! k = 0 \<or> (\<exists>t < 16. g_iommu_l1 st ! k = (l2_base + of_nat t * 4096) OR 1)) \<and>
     (\<forall>t < 16. \<forall>j < 1024. g_iommu_l2 st ! t ! j AND PAGE_FRAME < KERNEL_MEM_SIZE)"

lemma built_bounded:
  assumes b: "table_base_ok l2_base" and st: "(g_iommu_l1 st, g_iommu_l2 st) = iommu_build_tables l2_base"
  shows "tables_bounded l2_base st"
proof -
  note T = tables_built [of l2_base, folded st, unfolded tables_upto_def fst_conv snd_conv]
  have "\<exists>t < 16. g_iommu_l1 st ! k = (l2_base + of_nat t * 4096) OR 1" if "k < 1024" "g_iommu_l1 st ! k \<noteq> 0" for k
  proof -
    have "4 \<le> k \<and> (k - 4) * 1024 < 16384" using T that by (metis (no_types, lifting))
    then have "k - 4 < 16" "g_iommu_l1 st ! k = iommu_l1_entry l2_base (k - 4)" using T that by auto
    then show ?thesis using l1_entry_aligned [OF b] by auto
  qed
  moreover have "g_iommu_l2 st ! t ! j AND PAGE_FRAME < KERNEL_MEM_SIZE" if "t < 16" "j < 1024" for t j
  proof -
    have "iommu_l2_entry (t * 1024 + j) AND PAGE_FRAME = of_nat ((t * 1024 + j) * 4096)"
      using that by (intro l2_entry(2)) simp
    moreover have "unat (of_nat ((t * 1024 + j) * 4096) :: u32) = (t * 1024 + j) * 4096"
      using that by (intro unat_of_nat_u32) simp
    ultimately show ?thesis using T that by (simp add: word_less_nat_alt del: of_nat_mult of_nat_add)
  qed
  ultimately show ?thesis by (auto simp: tables_bounded_def)
qed

subsection \<open>The registers\<close>

text \<open>The registers behind \<open>IO_DEVSEL\<close> exist once per device: what was last written to one of them while the
  device was selected.\<close>

fun selected :: "(iommu_reg \<times> u32) list \<Rightarrow> u32 option" where
  "selected [] = None"
| "selected ((r, v) # ws) = (if r = IO_DEVSEL then Some v else selected ws)"

fun device_register :: "u32 \<Rightarrow> iommu_reg \<Rightarrow> (iommu_reg \<times> u32) list \<Rightarrow> u32 option" where
  "device_register d r [] = None"
| "device_register d r ((q, v) # ws) = (if q = r \<and> selected ws = Some d then Some v else device_register d r ws)"

definition device_on :: "u32 \<Rightarrow> u32 \<Rightarrow> (iommu_reg \<times> u32) list \<Rightarrow> bool" where
  "device_on l1_base d ws \<longleftrightarrow>
     device_register d IO_ROOT_LO ws = Some l1_base \<and> device_register d IO_ROOT_HI ws = Some 0 \<and>
     device_register d IO_IOVA_BASE_LO ws = Some IOMMU_DMA_IOVA_BASE \<and> device_register d IO_IOVA_BASE_HI ws = Some 0 \<and>
     device_register d IO_IOVA_SIZE ws = Some KERNEL_MEM_SIZE \<and> device_register d IO_DEV_CTRL ws = Some 3"

subsection \<open>Property\<close>

text \<open>C15. \<open>iommu_init\<close> turns translation on exactly if the boot record announces the device and the device
  serves at least three masters. Then disk, network and audio are given the first-level table, the window
  from \<open>0x01000000\<close> of the size of memory and paged translation, the unit is switched on last, and
  \<open>iommu_dma_iova\<close> gives for a buffer in memory, and for nothing else, an address in the window through which the
  tables lead every byte to the byte's physical address, with the right to read and to write; no entry
  leads outside memory. Otherwise no register is written and a buffer's device address is its physical one.\<close>

theorem iommu_dma_iova_translates:
  assumes b: "table_base_ok l2_base" and fresh: "\<not> g_iommu_initialized st"
    and st': "st' = iommu_init l1_base l2_base info cap st"
    and k: "k < len"
  shows "(iommu_dma_iova (g_iommu_active st') pa len = None \<longleftrightarrow> unat KERNEL_MEM_SIZE < unat pa + unat len) \<and>
    (if (\<exists>features. info = Some features \<and> features AND 0x40 \<noteq> 0) \<and> 2 < cap AND 0xFF
     then g_iommu_active st' \<and> device_on l1_base 0 (iommu_writes st') \<and> device_on l1_base 1 (iommu_writes st') \<and>
       device_on l1_base 2 (iommu_writes st') \<and> hd (iommu_writes st') = (IO_CTRL, 1) \<and> tables_bounded l2_base st' \<and>
       (\<forall>iova. iommu_dma_iova (g_iommu_active st') pa len = Some iova \<longrightarrow>
          tables_lead l2_base st' (iova + k) (pa + k) \<and> (iova + k) - IOMMU_DMA_IOVA_BASE < KERNEL_MEM_SIZE)
     else \<not> g_iommu_active st' \<and> iommu_writes st' = iommu_writes st \<and>
       (\<forall>iova. iommu_dma_iova (g_iommu_active st') pa len = Some iova \<longrightarrow> iova = pa))"
proof -
  have kl: "unat k < unat len" using k by (simp add: word_less_nat_alt)
  have dom: "iommu_dma_iova active pa len = None \<longleftrightarrow> unat KERNEL_MEM_SIZE < unat pa + unat len" for active
    using kl by (auto simp: iommu_dma_iova_def word_le_nat_alt word_less_nat_alt unat_sub_if_size word_size not_le)
  let ?on = "(\<exists>features. info = Some features \<and> features AND 0x40 \<noteq> 0) \<and> 2 < cap AND 0xFF"
  show ?thesis
  proof (cases ?on)
    case False
    then have "\<not> g_iommu_active st' \<and> iommu_writes st' = iommu_writes st"
      using fresh by (cases info) (auto simp: st' iommu_init_def Let_def not_less)
    then show ?thesis using False dom by (auto simp: iommu_dma_iova_def split: if_splits)
  next
    case True
    then obtain features where f: "info = Some features" "features AND 0x40 \<noteq> 0" "\<not> cap AND 0xFF \<le> 2"
      by (auto simp: not_le)
    have r: "g_iommu_active st'" "(g_iommu_l1 st', g_iommu_l2 st') = iommu_build_tables l2_base"
      "hd (iommu_writes st') = (IO_CTRL, 1)"
      using fresh f by (simp_all add: st' iommu_init_def Let_def iommu_program_device_def iommu_write_def
          iommu_build_disk_page_table_def)
    have d: "device_on l1_base 0 (iommu_writes st')" "device_on l1_base 1 (iommu_writes st')"
      "device_on l1_base 2 (iommu_writes st')"
      using fresh f by (simp_all add: st' iommu_init_def Let_def iommu_program_device_def iommu_write_def
          iommu_build_disk_page_table_def device_on_def)
    have "tables_lead l2_base st' (iova + k) (pa + k) \<and> (iova + k) - IOMMU_DMA_IOVA_BASE < KERNEL_MEM_SIZE"
      if i: "iommu_dma_iova (g_iommu_active st') pa len = Some iova" for iova
    proof -
      have "unat pa + unat len \<le> unat KERNEL_MEM_SIZE" using dom i by (metis not_le option.distinct(1))
      then have a: "pa + k < KERNEL_MEM_SIZE" using kl by (simp add: word_less_nat_alt unat_word_ariths)
      have "iova = IOMMU_DMA_IOVA_BASE + pa" using i r(1) by (auto simp: iommu_dma_iova_def split: if_splits)
      then have e: "iova + k = IOMMU_DMA_IOVA_BASE + (pa + k)" by simp
      show ?thesis unfolding e using built_lead [OF b a r(2)] a by simp
    qed
    then show ?thesis using True dom r(1,3) d built_bounded [OF b r(2)] by simp
  qed
qed

definition blank_iommu :: iommu_state where
  "blank_iommu = \<lparr>g_iommu_active = False, g_iommu_initialized = False, g_iommu_l1 = [], g_iommu_l2 = [],
     iommu_writes = []\<rparr>"

theorem iommu_dma_iova_translates_witness:
  "tables_lead 0x200000 (iommu_init 0x100000 0x200000 (Some 0x40) 3 blank_iommu) 0x01003005 0x3005 \<and>
   iommu_dma_iova (g_iommu_active (iommu_init 0x100000 0x200000 (Some 0x40) 2 blank_iommu)) 0x3000 16 = Some 0x3000"
proof -
  have b: "table_base_ok 0x200000" by (simp add: table_base_ok_def)
  have f: "\<not> g_iommu_initialized blank_iommu" by (simp add: blank_iommu_def)
  have k: "5 < (16 :: u32)" by simp
  note t = iommu_dma_iova_translates [OF b f refl k, where pa = "0x3000" and l1_base = "0x100000" and
      info = "Some 0x40" and cap = 3]
    iommu_dma_iova_translates [OF b f refl k, where pa = "0x3000" and l1_base = "0x100000" and
      info = "Some 0x40" and cap = 2]
  have i: "iommu_dma_iova True 0x3000 16 = Some 0x01003000" "iommu_dma_iova False 0x3000 16 = Some 0x3000"
    by (simp_all add: iommu_dma_iova_def)
  have a: "g_iommu_active (iommu_init 0x100000 0x200000 (Some 0x40) 3 blank_iommu)"
    "\<not> g_iommu_active (iommu_init 0x100000 0x200000 (Some 0x40) 2 blank_iommu)" using t by simp_all
  from t(1) have "\<forall>iova. iommu_dma_iova True 0x3000 16 = Some iova \<longrightarrow>
      tables_lead 0x200000 (iommu_init 0x100000 0x200000 (Some 0x40) 3 blank_iommu) (iova + 5) (0x3000 + 5)"
    using a(1) by simp
  then show ?thesis using a i by simp
qed

end
