(* ===== verification/Ctx_Switch.thy ===== *)
theory Ctx_Switch
  imports Octans_Prelude
begin

text \<open>
  The context switch of \<open>src/sched.c\<close>, which is written in assembly: \<open>sched_ctx_swap\<close> saves the
  processor's context in one \<open>sched_stack_ctx_t\<close> and loads another, \<open>sched_ctx_capture\<close> only
  saves. The code is the list of its instructions, with the offsets and port numbers its macros
  expand to, and a machine with 32 registers, the processor's context ports and memory executes
  it. The two context structures are separate objects, so memory is addressed by an object and
  an offset in it. The meaning of the seven instructions used is that of their names.
\<close>

subsection \<open>The machine\<close>

datatype instr =
    Mov nat nat
  | Movi nat u32
  | In nat nat
  | Out nat nat
  | Load32 nat nat nat
  | Store32 nat nat nat
  | Ret

record machine =
  regs :: "nat \<Rightarrow> u32"
  ports :: "u32 \<Rightarrow> u32"
  mem :: "u32 \<Rightarrow> nat \<Rightarrow> u32"

definition set_reg :: "nat \<Rightarrow> u32 \<Rightarrow> machine \<Rightarrow> machine" where
  "set_reg r v m = m\<lparr>regs := (regs m)(r := v)\<rparr>"

fun exec_instr :: "instr \<Rightarrow> machine \<Rightarrow> machine" where
  "exec_instr (Mov d s) m = set_reg d (regs m s) m"
| "exec_instr (Movi d v) m = set_reg d v m"
| "exec_instr (In d p) m = set_reg d (ports m (regs m p)) m"
| "exec_instr (Out s p) m = m\<lparr>ports := (ports m)(regs m p := regs m s)\<rparr>"
| "exec_instr (Load32 d b off) m = set_reg d (mem m (regs m b) off) m"
| "exec_instr (Store32 s b off) m =
     m\<lparr>mem := (mem m)(regs m b := (mem m (regs m b))(off := regs m s))\<rparr>"
| "exec_instr Ret m = m"

definition exec_code :: "instr list \<Rightarrow> machine \<Rightarrow> machine" where
  "exec_code = fold exec_instr"

subsection \<open>The code\<close>

definition sched_ctx_swap_code :: "instr list" where
  "sched_ctx_swap_code = [
     Mov 2 0, Mov 3 1, Movi 5 0xF2, In 4 5, Store32 4 2 24, Movi 5 0xF7, In 4 5,
     Store32 4 2 28, Movi 4 0x1, Movi 5 0xF2, Out 4 5, Movi 5 0xF4, In 4 5, Store32 4 2 0,
     Movi 5 0xF5, In 4 5, Store32 4 2 4, Movi 5 0xF6, In 4 5, Store32 4 2 8, Movi 5 0xF0,
     In 4 5, Store32 4 2 12, Movi 5 0xF1, In 4 5, Store32 4 2 16, Movi 5 0xF3, In 4 5,
     Store32 4 2 20, Store32 8 2 72, Store32 9 2 76, Store32 10 2 80, Store32 11 2 84,
     Store32 12 2 88, Store32 13 2 92, Store32 14 2 96, Store32 15 2 100, Store32 16 2 104,
     Store32 17 2 108, Store32 18 2 112, Store32 19 2 116, Store32 20 2 120, Store32 21 2 124,
     Store32 22 2 128, Store32 23 2 132, Store32 24 2 136, Store32 25 2 140, Store32 26 2 144,
     Store32 27 2 148, Store32 28 2 152, Store32 29 2 156, Store32 30 2 160, Store32 31 2 164,
     Movi 5 0xF4, Load32 4 3 0, Out 4 5, Movi 5 0xF5, Load32 4 3 4, Out 4 5, Movi 5 0xF6,
     Load32 4 3 8, Out 4 5, Movi 5 0xF7, Load32 4 3 28, Out 4 5, Movi 5 0xF0, Load32 4 3 12,
     Out 4 5, Movi 5 0xF1, Load32 4 3 16, Out 4 5, Movi 5 0xF3, Load32 4 3 20, Out 4 5,
     Load32 8 3 72, Load32 9 3 76, Load32 10 3 80, Load32 11 3 84, Load32 12 3 88,
     Load32 13 3 92, Load32 14 3 96, Load32 15 3 100, Load32 16 3 104, Load32 17 3 108,
     Load32 18 3 112, Load32 19 3 116, Load32 20 3 120, Load32 21 3 124, Load32 22 3 128,
     Load32 23 3 132, Load32 24 3 136, Load32 25 3 140, Load32 26 3 144, Load32 27 3 148,
     Load32 28 3 152, Load32 29 3 156, Load32 30 3 160, Load32 31 3 164, Movi 5 0xF2,
     Load32 4 3 24, Out 4 5, Ret]"

definition sched_ctx_capture_code :: "instr list" where
  "sched_ctx_capture_code = [
     Mov 2 0, Movi 5 0xF2, In 4 5, Store32 4 2 24, Movi 5 0xF7, In 4 5, Store32 4 2 28,
     Movi 5 0xF4, In 4 5, Store32 4 2 0, Movi 5 0xF5, In 4 5, Store32 4 2 4, Movi 5 0xF6,
     In 4 5, Store32 4 2 8, Movi 5 0xF0, In 4 5, Store32 4 2 12, Movi 5 0xF1, In 4 5,
     Store32 4 2 16, Movi 5 0xF3, In 4 5, Store32 4 2 20, Store32 8 2 72, Store32 9 2 76,
     Store32 10 2 80, Store32 11 2 84, Store32 12 2 88, Store32 13 2 92, Store32 14 2 96,
     Store32 15 2 100, Store32 16 2 104, Store32 17 2 108, Store32 18 2 112, Store32 19 2 116,
     Store32 20 2 120, Store32 21 2 124, Store32 22 2 128, Store32 23 2 132, Store32 24 2 136,
     Store32 25 2 140, Store32 26 2 144, Store32 27 2 148, Store32 28 2 152, Store32 29 2 156,
     Store32 30 2 160, Store32 31 2 164, Ret]"

text \<open>Calls pass the first argument in register 0 and the second in register 1.\<close>

definition sched_ctx_swap :: "u32 \<Rightarrow> u32 \<Rightarrow> machine \<Rightarrow> machine" where
  "sched_ctx_swap from to m = exec_code sched_ctx_swap_code (set_reg 1 to (set_reg 0 from m))"

definition sched_ctx_capture :: "u32 \<Rightarrow> machine \<Rightarrow> machine" where
  "sched_ctx_capture out m = exec_code sched_ctx_capture_code (set_reg 0 out m)"

subsection \<open>What a context structure holds\<close>

text \<open>The value that the processor has for the word at an offset of the structure: the stack
  bases and pointers, the interrupt flags, and the registers.\<close>

definition cpu_word :: "machine \<Rightarrow> nat \<Rightarrow> u32" where
  "cpu_word m off =
     (if off = 0 then ports m 0xF4 else if off = 4 then ports m 0xF5
      else if off = 8 then ports m 0xF6 else if off = 12 then ports m 0xF0
      else if off = 16 then ports m 0xF1 else if off = 20 then ports m 0xF3
      else if off = 24 then ports m 0xF2 else if off = 28 then ports m 0xF7
      else regs m ((off - 40) div 4))"

definition ctx_offsets :: "nat list" where
  "ctx_offsets = [0, 4, 8, 12, 16, 20, 24, 28,
     72, 76, 80, 84, 88, 92, 96, 100, 104, 108, 112, 116, 120, 124, 128, 132, 136, 140, 144, 148,
     152, 156, 160, 164]"

lemmas machine_defs = exec_code_def set_reg_def cpu_word_def ctx_offsets_def

lemma capture_words:
  "list_all (\<lambda>off. mem (sched_ctx_capture out m) out off = cpu_word m off) ctx_offsets"
  by (simp add: sched_ctx_capture_def sched_ctx_capture_code_def machine_defs)

lemma swap_saves:
  "from \<noteq> to \<Longrightarrow> list_all (\<lambda>off. mem (sched_ctx_swap from to m) from off = cpu_word m off) ctx_offsets"
  by (simp add: sched_ctx_swap_def sched_ctx_swap_code_def machine_defs)

lemma swap_loads:
  "from \<noteq> to \<Longrightarrow> list_all (\<lambda>off. cpu_word (sched_ctx_swap from to m) off = mem m to off) ctx_offsets"
  by (simp add: sched_ctx_swap_def sched_ctx_swap_code_def machine_defs)

lemma swap_keeps:
  "from \<noteq> to \<Longrightarrow> p \<noteq> from \<Longrightarrow> mem (sched_ctx_swap from to m) p = mem m p"
  by (simp add: sched_ctx_swap_def sched_ctx_swap_code_def machine_defs)

lemma swap_keeps_fields:
  "from \<noteq> to \<Longrightarrow> off \<notin> set ctx_offsets \<Longrightarrow> mem (sched_ctx_swap from to m) from off = mem m from off"
  by (simp add: sched_ctx_swap_def sched_ctx_swap_code_def machine_defs)

subsection \<open>Property\<close>

text \<open>C16. A task that is switched out is resumed exactly where it was: once \<open>sched_ctx_swap\<close>
  has saved its context, any later switch to it, on any processor and after anything that left
  its context structure alone, gives the processor the same stack bases, stack pointers,
  interrupt flags and registers 8 to 31 as at the switch. The switch writes nothing else.\<close>

theorem sched_ctx_swap_resumes:
  assumes sw: "task \<noteq> sched" "m1 = sched_ctx_swap task sched m"
    and kept: "mem m2 task = mem m1 task"
    and bk: "sched' \<noteq> task" "m3 = sched_ctx_swap sched' task m2"
    and off: "off \<in> set ctx_offsets"
  shows "cpu_word m3 off = cpu_word m off \<and> cpu_word m1 off = mem m sched off \<and>
    (\<forall>p. p \<noteq> task \<longrightarrow> mem m1 p = mem m p)"
proof -
  have "mem m1 task off = cpu_word m off" "cpu_word m1 off = mem m sched off"
    using swap_saves [OF sw(1), of m] swap_loads [OF sw(1), of m] off
    by (auto simp: sw(2) list_all_iff)
  moreover have "cpu_word m3 off = mem m2 task off"
    using swap_loads [OF bk(1), of m2] off by (auto simp: bk(2) list_all_iff)
  ultimately show ?thesis
    using kept swap_keeps [OF sw(1)] by (simp add: sw(2))
qed

theorem sched_ctx_swap_resumes_witness:
  "cpu_word (sched_ctx_swap 1 2 (sched_ctx_swap 2 1
     \<lparr>regs = \<lambda>r. of_nat r, ports = \<lambda>p. p, mem = \<lambda>p off. 7\<rparr>)) 164 = 31"
  using sched_ctx_swap_resumes [of 2 1 _ "\<lparr>regs = \<lambda>r. of_nat r, ports = \<lambda>p. p, mem = \<lambda>p off. 7\<rparr>",
    OF _ refl refl _ refl, of 1 164]
  by (simp add: ctx_offsets_def cpu_word_def)

end
