(* ===== verification/Kmem.thy ===== *)
theory Kmem
  imports Octans_Prelude
begin

text \<open>
  The memory that the scheduler writes itself (stacks, the user image saved for \<open>vfork\<close>), as a
  function from addresses to bytes, and the copy, fill and relocation routines of
  \<open>src/sched_task.c\<close>. Words are stored with their least significant byte first. The lengths
  that the callers pass are below \<open>2 ^ 25\<close>, so the counters of the loops do not wrap.
\<close>

type_synonym memory = "u32 \<Rightarrow> u8"

definition mem_read32 :: "memory \<Rightarrow> u32 \<Rightarrow> u32" where
  "mem_read32 m a = ucast (m a) OR push_bit 8 (ucast (m (a + 1)))
     OR push_bit 16 (ucast (m (a + 2))) OR push_bit 24 (ucast (m (a + 3)))"

definition mem_write32 :: "u32 \<Rightarrow> u32 \<Rightarrow> memory \<Rightarrow> memory" where
  "mem_write32 a v m = m(a := ucast v, a + 1 := ucast (drop_bit 8 v),
     a + 2 := ucast (drop_bit 16 v), a + 3 := ucast (drop_bit 24 v))"

subsection \<open>Copying\<close>

definition copy8 :: "u32 \<Rightarrow> u32 \<Rightarrow> nat \<Rightarrow> memory \<Rightarrow> memory" where
  "copy8 dst src i m = m(dst + of_nat i := m (src + of_nat i))"

definition copy32 :: "u32 \<Rightarrow> u32 \<Rightarrow> nat \<Rightarrow> memory \<Rightarrow> memory" where
  "copy32 dst src i m = mem_write32 (dst + of_nat i) (mem_read32 m (src + of_nat i)) m"

text \<open>The three loops of the unaligned case: bytes up to the first index where both addresses
  are aligned, words while four bytes are left, and the rest in bytes.\<close>

function copy_head :: "u32 \<Rightarrow> u32 \<Rightarrow> nat \<Rightarrow> nat \<Rightarrow> memory \<Rightarrow> nat \<times> memory" where
  "copy_head dst src len i m =
     (if i < len \<and> ((dst + of_nat i) OR (src + of_nat i)) AND 3 \<noteq> 0
      then copy_head dst src len (i + 1) (copy8 dst src i m) else (i, m))"
  by pat_completeness auto
termination by (relation "measure (\<lambda>(_, _, len, i, _). len - i)") auto

function copy_words :: "u32 \<Rightarrow> u32 \<Rightarrow> nat \<Rightarrow> nat \<Rightarrow> memory \<Rightarrow> nat \<times> memory" where
  "copy_words dst src len i m =
     (if i + 4 \<le> len then copy_words dst src len (i + 4) (copy32 dst src i m) else (i, m))"
  by pat_completeness auto
termination by (relation "measure (\<lambda>(_, _, len, i, _). len - i)") auto

function copy_tail :: "u32 \<Rightarrow> u32 \<Rightarrow> nat \<Rightarrow> nat \<Rightarrow> memory \<Rightarrow> memory" where
  "copy_tail dst src len i m =
     (if i < len then copy_tail dst src len (i + 1) (copy8 dst src i m) else m)"
  by pat_completeness auto
termination by (relation "measure (\<lambda>(_, _, len, i, _). len - i)") auto

declare copy_head.simps [simp del] copy_words.simps [simp del] copy_tail.simps [simp del]

definition sched_mem_copy_u8 :: "u32 \<Rightarrow> u32 \<Rightarrow> nat \<Rightarrow> memory \<Rightarrow> memory" where
  "sched_mem_copy_u8 dst src len m =
     (if (dst OR src OR of_nat len) AND 3 = 0 then fold (\<lambda>w. copy32 dst src (4 * w)) [0..<len div 4] m
      else let (i, m) = copy_head dst src len 0 m; (i, m) = copy_words dst src len i m
           in copy_tail dst src len i m)"

definition sched_mem_set_u8 :: "u32 \<Rightarrow> u8 \<Rightarrow> nat \<Rightarrow> memory \<Rightarrow> memory" where
  "sched_mem_set_u8 dst v len m = fold (\<lambda>i m. m(dst + of_nat i := v)) [0..<len] m"

subsection \<open>Relocation\<close>

definition sched_addr_in_range :: "u32 \<Rightarrow> u32 \<Rightarrow> u32 \<Rightarrow> bool" where
  "sched_addr_in_range v lo hi \<longleftrightarrow> v \<ge> lo \<and> v < hi"

definition sched_addr_reloc :: "u32 \<Rightarrow> u32 \<Rightarrow> u32 \<Rightarrow> u32 \<Rightarrow> u32" where
  "sched_addr_reloc v lo hi delta = (if \<not> sched_addr_in_range v lo hi then v else v + delta)"

definition sched_reloc_words ::
    "u32 \<Rightarrow> nat \<Rightarrow> u32 \<times> u32 \<times> u32 \<Rightarrow> u32 \<times> u32 \<times> u32 \<Rightarrow> memory \<Rightarrow> memory" where
  "sched_reloc_words base bytes = (\<lambda>(lo0, hi0, d0) (lo1, hi1, d1).
     fold (\<lambda>i m. let p = base + of_nat i * 4; v = mem_read32 m p;
                     v = sched_addr_reloc v lo0 hi0 d0; v = sched_addr_reloc v lo1 hi1 d1
                 in mem_write32 p v m) [0..<bytes div 4])"

subsection \<open>What the routines do\<close>

text \<open>Bytes \<open>i\<close> below \<open>n\<close> from a base, and two such ranges that do not meet.\<close>

definition in_range :: "u32 \<Rightarrow> nat \<Rightarrow> u32 \<Rightarrow> bool" where
  "in_range base n a \<longleftrightarrow> unat (a - base) < n"

definition apart :: "u32 \<Rightarrow> nat \<Rightarrow> u32 \<Rightarrow> nat \<Rightarrow> bool" where
  "apart a n b l \<longleftrightarrow> (\<forall>x. \<not> (in_range a n x \<and> in_range b l x))"

definition mem_copy :: "u32 \<Rightarrow> u32 \<Rightarrow> nat \<Rightarrow> memory \<Rightarrow> memory" where
  "mem_copy dst src n m = (\<lambda>a. if in_range dst n a then m (src + (a - dst)) else m a)"

definition mem_fill :: "u32 \<Rightarrow> nat \<Rightarrow> u8 \<Rightarrow> memory \<Rightarrow> memory" where
  "mem_fill base n v m = (\<lambda>a. if in_range base n a then v else m a)"

lemma in_range_off: "i < n \<Longrightarrow> n \<le> 2 ^ 32 \<Longrightarrow> in_range base n (base + of_nat i)"
  by (simp add: in_range_def unat_of_nat_u32)

lemma in_range_Suc:
  assumes "n < 2 ^ 32"
  shows "in_range base (Suc n) a \<longleftrightarrow> in_range base n a \<or> a = base + of_nat n"
proof -
  have "unat (a - base) = n \<longleftrightarrow> a = base + of_nat n"
  proof
    assume n: "unat (a - base) = n"
    have "(of_nat (unat (a - base)) :: u32) = a - base" by simp
    then show "a = base + of_nat n" by (simp add: n algebra_simps)
  next
    assume "a = base + of_nat n"
    then show "unat (a - base) = n" using assms by (simp add: unat_of_nat_u32)
  qed
  then show ?thesis by (auto simp: in_range_def less_Suc_eq)
qed

lemma apartI:
  assumes "n \<le> unat (b - a)" and "l \<le> unat (a - b)"
  shows "apart a n b l"
proof -
  have False if "unat (x - a) < n" "unat (x - b) < l" for x
  proof (cases "x - b \<le> x - a")
    case True
    have "unat ((x - a) - (x - b)) = unat (x - a) - unat (x - b)"
      by (rule unat_sub [OF True])
    then show False using that assms(1) by simp
  next
    case False
    then have "unat ((x - b) - (x - a)) = unat (x - b) - unat (x - a)"
      by (intro unat_sub) simp
    then show False using that assms(2) by simp
  qed
  then show ?thesis by (auto simp: apart_def in_range_def)
qed

lemma mem_copy_Suc:
  assumes "n < 2 ^ 32"
  shows "mem_copy dst src (Suc n) m = (mem_copy dst src n m)(dst + of_nat n := m (src + of_nat n))"
  by (rule ext) (simp add: mem_copy_def in_range_Suc [OF assms])

lemma mem_copy_0 [simp]: "mem_copy dst src 0 m = m"
  by (simp add: mem_copy_def in_range_def)

lemma read32_bytes:
  "ucast (mem_read32 m a) = m a"
  "ucast (drop_bit 8 (mem_read32 m a)) = m (a + 1)"
  "ucast (drop_bit 16 (mem_read32 m a)) = m (a + 2)"
  "ucast (drop_bit 24 (mem_read32 m a)) = m (a + 3)"
  unfolding mem_read32_def
  by (rule bit_eqI; auto simp: bit_simps add.commute [of 8] dest: bit_imp_le_length)+

text \<open>Words in memory are a store of separate cells.\<close>

lemma write_read32 [simp]: "mem_read32 (mem_write32 a v m) a = v"
proof (rule bit_word_eqI)
  fix n assume "n < LENGTH(32)"
  then consider "n < 8" | "8 \<le> n" "n < 16" | "16 \<le> n" "n < 24" | "24 \<le> n" "n < 32" by fastforce
  then show "bit (mem_read32 (mem_write32 a v m) a) n = bit v n"
    by cases (auto simp: mem_read32_def mem_write32_def bit_simps le_diff_conv2)
qed

lemma apart_byte: "apart a n b l \<Longrightarrow> in_range b l x \<Longrightarrow> \<not> in_range a n x"
  by (auto simp: apart_def)

lemma apart_sub:
  assumes "apart a n b l" "i + p \<le> n" "j + q \<le> l" "n < 2 ^ 32" "l < 2 ^ 32"
  shows "apart (a + of_nat i) p (b + of_nat j) q"
proof -
  have r: "in_range c n x" if "in_range (c + of_nat i) p x" "i + p \<le> n" "n < 2 ^ 32" for c :: u32 and i p n x
  proof -
    have u: "unat (x - (c + of_nat i)) < p" using that(1) by (simp add: in_range_def)
    have e: "x - c = (x - (c + of_nat i)) + of_nat i" by simp
    have "unat (x - c) = unat (x - (c + of_nat i)) + i"
      unfolding e using u that(2,3) by (subst unat_add_lem [THEN iffD1]) (simp_all add: unat_of_nat_u32)
    then show ?thesis using u that(2) by (simp add: in_range_def)
  qed
  show ?thesis
    using assms r [of a i p _ n] r [of b j q _ l] unfolding apart_def by blast
qed

lemma in_range_4: "in_range a 4 x \<longleftrightarrow> x = a \<or> x = a + 1 \<or> x = a + 2 \<or> x = a + 3"
proof -
  have "in_range a 4 x = in_range a (Suc (Suc (Suc (Suc 0)))) x" by (simp add: eval_nat_numeral)
  then show ?thesis by (auto simp: in_range_Suc) (auto simp: in_range_def)
qed

lemma write32_other: "\<not> in_range a 4 x \<Longrightarrow> mem_write32 a v m x = m x"
  by (auto simp: mem_write32_def in_range_4)

lemma read32_cong: "(\<And>x. in_range a 4 x \<Longrightarrow> m x = m' x) \<Longrightarrow> mem_read32 m a = mem_read32 m' a"
  by (simp add: mem_read32_def in_range_4)

lemma write_read32_apart: "apart a 4 b 4 \<Longrightarrow> mem_read32 (mem_write32 a v m) b = mem_read32 m b"
  by (rule read32_cong) (simp add: write32_other apart_byte)

lemma src_kept:
  assumes "apart dst len src len" "len < 2 ^ 32" "i \<le> len" "j < len"
  shows "mem_copy dst src i m (src + of_nat j) = m (src + of_nat j)"
proof -
  have "in_range src len (src + of_nat j)" using assms by (intro in_range_off) auto
  then have "\<not> in_range dst len (src + of_nat j)" using assms by (auto simp: apart_def)
  then show ?thesis using assms by (auto simp: mem_copy_def in_range_def)
qed

lemma copy8_step:
  assumes "apart dst len src len" "len < 2 ^ 32" "i < len"
  shows "copy8 dst src i (mem_copy dst src i m) = mem_copy dst src (Suc i) m"
  using assms by (simp add: copy8_def mem_copy_Suc src_kept [OF assms(1,2)])

lemma copy32_step:
  assumes a: "apart dst len src len" "len < 2 ^ 32" and i: "i + 4 \<le> len"
  shows "copy32 dst src i (mem_copy dst src i m) = mem_copy dst src (i + 4) m"
proof -
  have e: "i + 4 = Suc (Suc (Suc (Suc i)))" by simp
  have s: "mem_copy dst src i m (src + of_nat (i + k)) = m (src + of_nat (i + k))" if "k < 4" for k
    using i that by (intro src_kept [OF a]) auto
  have o: "src + of_nat i + 1 = src + of_nat (i + 1)" "src + of_nat i + 2 = src + of_nat (i + 2)"
    "src + of_nat i + 3 = src + of_nat (i + 3)"
    by (simp_all add: algebra_simps)
  show ?thesis
    using i a(2) s [of 0] s [of 1] s [of 2] s [of 3]
    unfolding copy32_def mem_write32_def read32_bytes o
    by (simp add: e mem_copy_Suc algebra_simps)
qed

lemma copy_head_spec:
  assumes a: "apart dst len src len" "len < 2 ^ 32"
  shows "i \<le> len \<Longrightarrow> \<exists>j. i \<le> j \<and> j \<le> len \<and>
     copy_head dst src len i (mem_copy dst src i m) = (j, mem_copy dst src j m)"
proof (induction "len - i" arbitrary: i)
  case (Suc n)
  show ?case
  proof (cases "((dst + of_nat i) OR (src + of_nat i)) AND 3 = 0")
    case False
    have i: "i < len" "n = len - Suc i" using Suc.hyps(2) by auto
    have "copy_head dst src len i (mem_copy dst src i m) =
        copy_head dst src len (Suc i) (mem_copy dst src (Suc i) m)"
      using False i by (subst copy_head.simps) (simp add: copy8_step [OF a])
    with Suc.hyps(1) [of "Suc i"] i show ?thesis by (auto intro: Suc_leD)
  qed (use Suc.prems in \<open>auto simp: copy_head.simps [of dst src len i]\<close>)
qed (auto simp: copy_head.simps)

lemma copy_words_spec:
  assumes a: "apart dst len src len" "len < 2 ^ 32"
  shows "i \<le> len \<Longrightarrow> \<exists>j. i \<le> j \<and> j \<le> len \<and>
     copy_words dst src len i (mem_copy dst src i m) = (j, mem_copy dst src j m)"
proof (induction "len - i" arbitrary: i rule: less_induct)
  case less
  show ?case
  proof (cases "i + 4 \<le> len")
    case True
    have "copy_words dst src len i (mem_copy dst src i m) =
        copy_words dst src len (i + 4) (mem_copy dst src (i + 4) m)"
      using True by (subst copy_words.simps) (simp add: copy32_step [OF a])
    moreover have "len - (i + 4) < len - i" using True by linarith
    ultimately show ?thesis using less.hyps [of "i + 4"] True by (auto dest: add_leD1)
  qed (use less.prems in \<open>auto simp: copy_words.simps [of dst src len i]\<close>)
qed

lemma copy_tail_spec:
  assumes a: "apart dst len src len" "len < 2 ^ 32"
  shows "i \<le> len \<Longrightarrow> copy_tail dst src len i (mem_copy dst src i m) = mem_copy dst src len m"
proof (induction "len - i" arbitrary: i)
  case (Suc n)
  then show ?case
    by (subst copy_tail.simps) (simp add: copy8_step [OF a])
qed (simp add: copy_tail.simps)

lemma copy_aligned_spec:
  assumes a: "apart dst len src len" "len < 2 ^ 32"
  shows "4 * n \<le> len \<Longrightarrow> fold (\<lambda>w. copy32 dst src (4 * w)) [0..<n] m = mem_copy dst src (4 * n) m"
proof (induction n)
  case (Suc n)
  then show ?case using copy32_step [OF a, of "4 * n"] by (simp add: algebra_simps)
qed simp

lemma mem_copy_u8_eq:
  assumes "apart dst len src len" and "len < 2 ^ 32"
  shows "sched_mem_copy_u8 dst src len m = mem_copy dst src len m"
proof (cases "(dst OR src OR of_nat len) AND 3 = 0")
  case True
  have "\<not> bit (of_nat len :: u32) 0" "\<not> bit (of_nat len :: u32) 1"
    using arg_cong [OF True, of "\<lambda>w. bit w 0"] arg_cong [OF True, of "\<lambda>w. bit w 1"]
    by (simp_all add: bit_simps numeral_3_eq_3)
  then have "\<not> bit len 0" "\<not> bit len 1"
    by (simp_all add: bit_simps)
  then have "even len" "even (len div 2)" by (simp_all add: bit_Suc bit_0)
  then have "4 * (len div 4) = len" by presburger
  with copy_aligned_spec [OF assms, of "len div 4" m] True show ?thesis
    by (simp add: sched_mem_copy_u8_def)
next
  case False
  obtain i where i: "i \<le> len" "copy_head dst src len 0 m = (i, mem_copy dst src i m)"
    using copy_head_spec [OF assms, of 0 m] by auto
  obtain j where j: "j \<le> len" "copy_words dst src len i (mem_copy dst src i m) = (j, mem_copy dst src j m)"
    using copy_words_spec [OF assms i(1), of m] by auto
  show ?thesis
    using False i j copy_tail_spec [OF assms j(1), of m]
    by (simp add: sched_mem_copy_u8_def)
qed

text \<open>C17. \<open>sched_mem_copy_u8\<close>, whose aligned case copies words and whose general case has three
  loops, copies exactly \<open>len\<close> bytes between ranges that do not meet and changes nothing else.\<close>

theorem sched_mem_copy_u8_correct:
  assumes "apart dst len src len" and "len < 2 ^ 32"
  shows "sched_mem_copy_u8 dst src len m = mem_copy dst src len m"
  by (rule mem_copy_u8_eq [OF assms])

theorem sched_mem_copy_u8_correct_witness:
  "sched_mem_copy_u8 2 8 5 (\<lambda>a. ucast a) 6 = 12"
  using sched_mem_copy_u8_correct [of 2 5 8 "\<lambda>a. ucast a"]
  by (simp add: apartI in_range_def mem_copy_def)

end
