(* ===== verification/Sched_State.thy ===== *)
theory Sched_State
  imports Bitmaps Fd_Props Kmem
begin

text \<open>
  The state of the scheduler (\<open>src/sched_internal.h\<close>, \<open>src/sched.c\<close>) and the primitives that
  its operations are built from. Every operation of the scheduler is one critical section of
  \<open>g_sched_lock\<close>, so it is a function on the whole state, with the processor that executes it
  as an argument. The run queues' own locks are only taken inside those sections.

  A task is identified by its slot, an index below 64; slot 0 is the idle task. A processor
  executes either the loop of \<open>sched_run\<close> or a task; where its control is, is recorded in
  \<open>k_ctl\<close>, in place of the program counter: \<open>C_task i\<close> from the switch to task \<open>i\<close> until the
  switch back, \<open>C_back i\<close> from there until the loop has dealt with the return.

  Memory that the scheduler writes itself (stacks, the image saved for \<open>vfork\<close>) is a function
  from addresses to bytes. The context switch is its effect on the two structures and on the
  processor's context, as theory \<open>Ctx_Switch\<close> proves it of the assembly code.
\<close>

subsection \<open>Constants\<close>

abbreviation (input) "SCHED_MAX_TASKS \<equiv> (64 :: nat)"
abbreviation (input) "SCHED_MAX_CPUS \<equiv> (32 :: nat)"
abbreviation (input) "SCHED_QUANTUM_TICKS \<equiv> (4 :: u32)"
abbreviation (input) "VM_CALL_STACK_ENTRIES \<equiv> (2048 :: u32)"
abbreviation (input) "VM_CALL_STACK_BYTES \<equiv> (16384 :: u32)"
abbreviation (input) "VM_DATA_STACK_ENTRIES \<equiv> (2048 :: u32)"
abbreviation (input) "VM_DATA_STACK_BYTES \<equiv> (8192 :: u32)"
abbreviation (input) "VM_ISR_STACK_ENTRIES \<equiv> (2048 :: u32)"
abbreviation (input) "VM_STACK_SLOT_BYTES \<equiv> (73728 :: u32)"
abbreviation (input) "VM_STACK_POOL_SLOTS \<equiv> (64 :: nat)"
abbreviation (input) "USER_REGION_BASE \<equiv> (0x02000000 :: u32)"
abbreviation (input) "USER_REGION_SIZE \<equiv> (0x01000000 :: u32)"
abbreviation (input) "USER_STACK_TOP \<equiv> (0x03000000 :: u32)"
abbreviation (input) "USER_STACK_RESERVE \<equiv> (0x00080000 :: u32)"
abbreviation (input) "VM_STACK_POOL_BASE \<equiv> (0x04000000 - 73728 * 64 :: u32)"

subsection \<open>Tasks\<close>

datatype task_state = UNUSED | RUNNABLE | RUNNING | SLEEPING | BLOCKED | ZOMBIE
datatype task_kind = KIND_KERNEL | KIND_USER
datatype exec_state = EXEC_NONE | EXEC_KERNEL | EXEC_USER

record sched_task =
  tid :: u32
  pid :: u32
  ppid :: int
  state :: task_state
  kind :: task_kind
  exec_st :: exec_state
  wake_tick :: u32
  run_ticks :: u32
  arg :: u32

record sched_stack_ctx =
  sc_call_base :: u32
  sc_data_base :: u32
  sc_isr_base :: u32
  sc_csp :: u32
  sc_dsp :: u32
  sc_isp :: u32
  sc_irq_masked :: u32
  sc_in_interrupt :: u32
  sc_pool_slot :: nat
  sc_valid :: bool
  sc_regs :: "u32 list"

record sched_sigaction =
  sa_handler :: u32
  sa_flags :: u32
  sa_mask :: u32
  sa_restorer :: u32

text \<open>A wait queue that a task can sleep on: the child queue of a slot, or one of the queues of
  the rest of the kernel (console, network, ...), by number.\<close>

datatype waitq_ref = Child_waitq nat | Ext_waitq nat

text \<open>The saved user stack pointers of a processor or task.\<close>

record user_sp =
  us_csp :: u32
  us_dsp :: u32
  us_call_base :: u32
  us_data_base :: u32

record task_slot =
  pub :: sched_task
  used :: bool
  is_idle :: bool
  quantum_used :: u32
  run_cpu :: nat
  parent_tid :: int
  exit_code :: u32
  entry :: u32
  task_name :: "string option"
  vfork_child_active :: bool
  waitq :: "waitq_ref option"
  child_waitq :: "u32 list"
  fds :: fd_slot
  stack_ctx :: sched_stack_ctx
  vfork_resume_ctx :: sched_stack_ctx
  saved_user :: user_sp
  vfork_resume_ret :: u32
  vfork_resume_valid :: bool
  syscall_abi_addr :: u32
  cwd :: string
  file_umask :: u32
  sig_mask :: u32
  sig_pending :: u32
  sig_frame_top :: u32
  sig_action :: "sched_sigaction list"

subsection \<open>The kernel's scheduling state\<close>

datatype cpu_ctl = C_loop | C_task nat | C_back nat

record kstate =
  k_ticks :: u32
  k_user_ticks :: u32
  k_system_ticks :: u32
  k_idle_ticks :: u32
  k_need_resched :: bool
  k_tasks :: "task_slot list"
  k_current :: "nat list"
  k_next_tid :: u32
  k_spawn_rr :: u32
  k_runq :: "u32 list list"
  k_stack_bitmap :: "u32 list"
  k_stack_reserved :: nat
  k_sched_ctx :: "sched_stack_ctx list"
  k_waitqs :: "u32 list list"
  k_pipes :: pipe_table
  k_online :: nat
  k_mem :: memory
  k_mmu_calls :: "(u32 \<times> u32 \<times> u32) list"
  k_vfork_valid :: bool
  k_vfork_child :: u32
  k_irq_saved :: "user_sp list"
  k_irq_from_user :: "bool list"
  k_irq_frame_masked :: "nat \<Rightarrow> u32"
  k_live :: "sched_stack_ctx list"
  k_ctl :: "cpu_ctl list"

abbreviation task :: "kstate \<Rightarrow> nat \<Rightarrow> task_slot" where
  "task k i \<equiv> k_tasks k ! i"

definition upd_task :: "nat \<Rightarrow> (task_slot \<Rightarrow> task_slot) \<Rightarrow> kstate \<Rightarrow> kstate" where
  "upd_task i f k = k\<lparr>k_tasks := (k_tasks k)[i := f (k_tasks k ! i)]\<rparr>"

definition set_state :: "task_state \<Rightarrow> task_slot \<Rightarrow> task_slot" where
  "set_state st t = t\<lparr>pub := (pub t)\<lparr>state := st\<rparr>\<rparr>"

definition set_wake_tick :: "u32 \<Rightarrow> task_slot \<Rightarrow> task_slot" where
  "set_wake_tick w t = t\<lparr>pub := (pub t)\<lparr>wake_tick := w\<rparr>\<rparr>"

subsection \<open>Cleared structures\<close>

definition zero_ctx :: sched_stack_ctx where
  "zero_ctx = \<lparr>sc_call_base = 0, sc_data_base = 0, sc_isr_base = 0, sc_csp = 0, sc_dsp = 0,
     sc_isp = 0, sc_irq_masked = 0, sc_in_interrupt = 0, sc_pool_slot = 0, sc_valid = False,
     sc_regs = replicate 32 0\<rparr>"

text \<open>\<open>sched_clear_task\<close> zeroes every byte of the slot.\<close>

definition sched_clear_task :: task_slot where
  "sched_clear_task =
     \<lparr>pub = \<lparr>tid = 0, pid = 0, ppid = 0, state = UNUSED, kind = KIND_KERNEL, exec_st = EXEC_NONE,
             wake_tick = 0, run_ticks = 0, arg = 0\<rparr>,
      used = False, is_idle = False, quantum_used = 0, run_cpu = 0, parent_tid = 0, exit_code = 0,
      entry = 0, task_name = None, vfork_child_active = False, waitq = None, child_waitq = [0, 0],
      fds = cleared_fd_slot, stack_ctx = zero_ctx, vfork_resume_ctx = zero_ctx,
      saved_user = \<lparr>us_csp = 0, us_dsp = 0, us_call_base = 0, us_data_base = 0\<rparr>,
      vfork_resume_ret = 0, vfork_resume_valid = False, syscall_abi_addr = 0, cwd = [], file_umask = 0, sig_mask = 0,
      sig_pending = 0, sig_frame_top = 0,
      sig_action = replicate 32 \<lparr>sa_handler = 0, sa_flags = 0, sa_mask = 0, sa_restorer = 0\<rparr>\<rparr>"

subsection \<open>Processors and run queues\<close>

definition sched_cpu_cap :: "kstate \<Rightarrow> nat" where
  "sched_cpu_cap k =
     (let n = k_online k; n = (if n = 0 then 1 else n)
      in if n > SCHED_MAX_CPUS then SCHED_MAX_CPUS else n)"

definition sched_cpu_normalize :: "kstate \<Rightarrow> nat \<Rightarrow> nat" where
  "sched_cpu_normalize k cpu_id = (if cpu_id \<ge> sched_cpu_cap k then 0 else cpu_id)"

definition sched_mark_resched_all :: "kstate \<Rightarrow> kstate" where
  "sched_mark_resched_all k = k\<lparr>k_need_resched := True\<rparr>"

definition upd_runq :: "nat \<Rightarrow> (u32 list \<Rightarrow> u32 list) \<Rightarrow> kstate \<Rightarrow> kstate" where
  "upd_runq c f k = k\<lparr>k_runq := (k_runq k)[c := f (k_runq k ! c)]\<rparr>"

definition sched_runq_add :: "nat \<Rightarrow> nat \<Rightarrow> kstate \<Rightarrow> kstate" where
  "sched_runq_add cpu_id idx k =
     (let cpu_id = sched_cpu_normalize k cpu_id in
      if idx = 0 \<or> idx \<ge> SCHED_MAX_TASKS then k
      else upd_runq cpu_id (\<lambda>bits. runq_bit_add bits idx) k)"

definition sched_runq_del :: "nat \<Rightarrow> nat \<Rightarrow> kstate \<Rightarrow> kstate" where
  "sched_runq_del cpu_id idx k =
     (let cpu_id = sched_cpu_normalize k cpu_id in
      if idx = 0 \<or> idx \<ge> SCHED_MAX_TASKS then k
      else upd_runq cpu_id (\<lambda>bits. runq_bit_del bits idx) k)"

text \<open>The search starts after \<open>start_idx\<close> and wraps around; 0 says that the queue is empty.\<close>

definition sched_runq_pick_local :: "kstate \<Rightarrow> nat \<Rightarrow> nat \<Rightarrow> nat" where
  "sched_runq_pick_local k cpu_id start_idx =
     (let bits = k_runq k ! sched_cpu_normalize k cpu_id in
      case find (\<lambda>cand. cand \<noteq> 0 \<and> runq_bit_tst bits cand)
             (map (\<lambda>off. (start_idx + off) mod SCHED_MAX_TASKS) [1..<SCHED_MAX_TASKS + 1]) of
        Some idx \<Rightarrow> idx | None \<Rightarrow> 0)"

definition sched_runq_steal_to :: "nat \<Rightarrow> nat" where
  "sched_runq_steal_to dst_cpu_id = 0"

definition sched_idx_runnable :: "kstate \<Rightarrow> nat \<Rightarrow> bool" where
  "sched_idx_runnable k idx =
     (if idx = 0 then False
      else if idx \<ge> SCHED_MAX_TASKS then False
      else if \<not> used (task k idx) then False
      else state (pub (task k idx)) = RUNNABLE)"

definition sched_pick_next_idx :: "kstate \<Rightarrow> nat \<Rightarrow> nat \<Rightarrow> nat" where
  "sched_pick_next_idx k cpu_id start_idx =
     (let idx = sched_runq_pick_local k cpu_id start_idx in
      if idx \<noteq> 0 then idx else sched_runq_steal_to cpu_id)"

definition sched_alloc_slot :: "kstate \<Rightarrow> nat option" where
  "sched_alloc_slot k = find (\<lambda>i. \<not> used (task k i)) [1..<SCHED_MAX_TASKS]"

definition sched_current_slot :: "kstate \<Rightarrow> nat \<Rightarrow> nat option" where
  "sched_current_slot k cpu =
     (let idx = k_current k ! cpu in
      if idx \<ge> SCHED_MAX_TASKS then None
      else if \<not> used (task k idx) then None
      else Some idx)"

definition sched_find_by_tid :: "kstate \<Rightarrow> u32 \<Rightarrow> nat option" where
  "sched_find_by_tid k t =
     (if t = 0 then Some 0
      else find (\<lambda>i. used (task k i) \<and> tid (pub (task k i)) = t) [1..<SCHED_MAX_TASKS])"

subsection \<open>Memory and stacks\<close>

definition sched_stack_pool_slot_base :: "nat \<Rightarrow> u32" where
  "sched_stack_pool_slot_base slot = VM_STACK_POOL_BASE + VM_STACK_SLOT_BYTES * of_nat slot"

definition sched_stack_zero_slot :: "u32 \<Rightarrow> memory \<Rightarrow> memory" where
  "sched_stack_zero_slot base m = mem_fill base (unat VM_STACK_SLOT_BYTES) 0 m"

definition fresh_stack_ctx :: "nat \<Rightarrow> sched_stack_ctx \<Rightarrow> sched_stack_ctx" where
  "fresh_stack_ctx slot ctx =
     (let base = sched_stack_pool_slot_base slot in
      ctx\<lparr>sc_call_base := base, sc_data_base := base + VM_CALL_STACK_BYTES,
          sc_isr_base := base + (VM_CALL_STACK_BYTES + VM_DATA_STACK_BYTES),
          sc_csp := VM_CALL_STACK_ENTRIES, sc_dsp := VM_DATA_STACK_ENTRIES,
          sc_isp := VM_ISR_STACK_ENTRIES, sc_irq_masked := 0, sc_in_interrupt := 0,
          sc_pool_slot := slot, sc_valid := True,
          sc_regs := (sc_regs ctx)[30 := base + VM_STACK_SLOT_BYTES, 31 := base + VM_STACK_SLOT_BYTES]\<rparr>)"

definition sched_stack_alloc_locked :: "nat \<Rightarrow> kstate \<Rightarrow> kstate \<times> int" where
  "sched_stack_alloc_locked i k =
     (case find (\<lambda>slot. sched_stack_bitmap_tst (k_stack_bitmap k) slot = 0)
             [k_stack_reserved k..<VM_STACK_POOL_SLOTS] of
        None \<Rightarrow> (k, -1)
      | Some slot \<Rightarrow>
          (upd_task i (\<lambda>t. t\<lparr>stack_ctx := fresh_stack_ctx slot (stack_ctx t)\<rparr>)
             (k\<lparr>k_stack_bitmap := sched_stack_bitmap_set (k_stack_bitmap k) slot,
                k_mem := sched_stack_zero_slot (sched_stack_pool_slot_base slot) (k_mem k)\<rparr>),
           0))"

text \<open>\<open>boot_addr\<close> is the address of \<open>sched_task_bootstrap\<close>, \<open>text_base\<close> that of \<open>__text_start\<close>.\<close>

definition sched_stack_prepare_bootstrap_locked :: "u32 \<Rightarrow> u32 \<Rightarrow> nat \<Rightarrow> kstate \<Rightarrow> kstate" where
  "sched_stack_prepare_bootstrap_locked boot_addr text_base i k =
     (let ctx = stack_ctx (task k i) in
      if \<not> sc_valid ctx then k
      else let call_idx = VM_CALL_STACK_ENTRIES - 1;
               ret_addr = sc_call_base ctx + call_idx * 8;
               boot = (if boot_addr < text_base then boot_addr + text_base else boot_addr)
           in upd_task i (\<lambda>t. t\<lparr>stack_ctx := (stack_ctx t)\<lparr>sc_csp := call_idx,
                  sc_dsp := VM_DATA_STACK_ENTRIES, sc_isp := VM_ISR_STACK_ENTRIES\<rparr>\<rparr>)
                (k\<lparr>k_mem := mem_write32 (ret_addr + 4) 0 (mem_write32 ret_addr boot (k_mem k))\<rparr>))"

definition sched_stack_free_locked :: "nat \<Rightarrow> kstate \<Rightarrow> kstate" where
  "sched_stack_free_locked i k =
     (let ctx = stack_ctx (task k i) in
      if \<not> sc_valid ctx then k
      else if sc_pool_slot ctx \<ge> VM_STACK_POOL_SLOTS then k
      else if sc_pool_slot ctx < k_stack_reserved k then k
      else upd_task i (\<lambda>t. t\<lparr>stack_ctx := (stack_ctx t)\<lparr>sc_valid := False\<rparr>\<rparr>)
             (k\<lparr>k_stack_bitmap := sched_stack_bitmap_clr (k_stack_bitmap k) (sc_pool_slot ctx)\<rparr>))"

definition sched_stack_pool_init_locked :: "nat \<Rightarrow> kstate \<Rightarrow> kstate" where
  "sched_stack_pool_init_locked target_cpus k =
     (let reserve = target_cpus; reserve = (if reserve = 0 then 1 else reserve);
          reserve = (if reserve > VM_STACK_POOL_SLOTS then VM_STACK_POOL_SLOTS else reserve)
      in k\<lparr>k_stack_bitmap := fold (\<lambda>i bm. sched_stack_bitmap_set bm i) [0..<reserve] [0, 0],
           k_stack_reserved := reserve\<rparr>)"

subsection \<open>The context switch\<close>

text \<open>Registers 8 to 31 and the context ports are exchanged; registers 0 to 7 belong to the
  caller of the switch and are not part of the context.\<close>

definition ctx_save :: "sched_stack_ctx \<Rightarrow> sched_stack_ctx \<Rightarrow> sched_stack_ctx" where
  "ctx_save live from = live\<lparr>sc_pool_slot := sc_pool_slot from, sc_valid := sc_valid from,
     sc_regs := take 8 (sc_regs from) @ drop 8 (sc_regs live)\<rparr>"

definition ctx_load :: "sched_stack_ctx \<Rightarrow> sched_stack_ctx \<Rightarrow> sched_stack_ctx" where
  "ctx_load live to = to\<lparr>sc_pool_slot := sc_pool_slot live, sc_valid := sc_valid live,
     sc_regs := take 8 (sc_regs live) @ drop 8 (sc_regs to)\<rparr>"

end
