(* ===== verification/Sched_Ops.thy ===== *)
theory Sched_Ops
  imports Sched_State
begin

text \<open>
  The operations of the scheduler: \<open>src/sched.c\<close> from line 531 on and the task operations of
  \<open>src/sched_task.c\<close>. \<open>cpu\<close> is the processor that executes the operation. A function whose
  code ends in \<open>sched_switch_current_to_scheduler\<close> after it has released the lock is split into
  its critical section, with the suffix \<open>_locked\<close>, and the composition.
\<close>

subsection \<open>Wait queues\<close>

primrec waitq_bits :: "kstate \<Rightarrow> waitq_ref \<Rightarrow> u32 list" where
  "waitq_bits k (Child_waitq i) = child_waitq (task k i)"
| "waitq_bits k (Ext_waitq n) = k_waitqs k ! n"

primrec upd_waitq :: "waitq_ref \<Rightarrow> (u32 list \<Rightarrow> u32 list) \<Rightarrow> kstate \<Rightarrow> kstate" where
  "upd_waitq (Child_waitq i) f k = upd_task i (\<lambda>t. t\<lparr>child_waitq := f (child_waitq t)\<rparr>) k"
| "upd_waitq (Ext_waitq n) f k = k\<lparr>k_waitqs := (k_waitqs k)[n := f (k_waitqs k ! n)]\<rparr>"

definition sched_detach_waitq :: "nat \<Rightarrow> kstate \<Rightarrow> kstate" where
  "sched_detach_waitq i k =
     (case waitq (task k i) of
        None \<Rightarrow> k
      | Some q \<Rightarrow> upd_task i (\<lambda>t. t\<lparr>waitq := None\<rparr>) (upd_waitq q (\<lambda>b. waitq_clear_bit b i) k))"

definition enter_waitq :: "nat \<Rightarrow> waitq_ref \<Rightarrow> kstate \<Rightarrow> kstate" where
  "enter_waitq i q k =
     upd_waitq q (\<lambda>b. waitq_set_bit b i) (upd_task i (\<lambda>t. t\<lparr>waitq := Some q\<rparr>) k)"

text \<open>The two updates of a task's state that go with an update of its run queue.\<close>

definition put_runnable :: "nat \<Rightarrow> nat \<Rightarrow> kstate \<Rightarrow> kstate" where
  "put_runnable c i k =
     sched_runq_add c i (upd_task i (\<lambda>t. (set_state RUNNABLE t)\<lparr>run_cpu := c\<rparr>) k)"

definition take_off_runq :: "task_state \<Rightarrow> nat \<Rightarrow> kstate \<Rightarrow> kstate" where
  "take_off_runq st i k = sched_runq_del (run_cpu (task k i)) i (upd_task i (set_state st) k)"

definition reset_quantum :: "nat \<Rightarrow> kstate \<Rightarrow> kstate" where
  "reset_quantum i k = upd_task i (\<lambda>t. t\<lparr>quantum_used := 0\<rparr>) k"

definition wake_up :: "nat \<Rightarrow> kstate \<Rightarrow> kstate" where
  "wake_up i k =
     (let k = sched_detach_waitq i k;
          k = upd_task i (set_wake_tick 0) k;
          k = put_runnable (sched_cpu_normalize k (run_cpu (task k i))) i k;
          k = reset_quantum i k
      in sched_mark_resched_all k)"

definition sched_wake_slot :: "nat \<Rightarrow> kstate \<Rightarrow> kstate" where
  "sched_wake_slot i k =
     (if \<not> used (task k i) \<or> is_idle (task k i) then k
      else if state (pub (task k i)) \<noteq> BLOCKED \<and> state (pub (task k i)) \<noteq> SLEEPING then k
      else wake_up i k)"

definition try_wake_sleeper :: "u32 \<Rightarrow> nat \<Rightarrow> kstate \<Rightarrow> kstate" where
  "try_wake_sleeper now i k =
     (let t = task k i in
      if \<not> used t then k
      else if state (pub t) \<noteq> SLEEPING \<and> state (pub t) \<noteq> BLOCKED then k
      else if wake_tick (pub t) = 0 \<or> wake_tick (pub t) > now then k
      else wake_up i k)"

definition sched_try_wake_sleepers :: "u32 \<Rightarrow> kstate \<Rightarrow> kstate" where
  "sched_try_wake_sleepers now k = fold (try_wake_sleeper now) [0..<SCHED_MAX_TASKS] k"

definition sched_waitq_sleep_locked :: "nat \<Rightarrow> waitq_ref \<Rightarrow> u32 \<Rightarrow> kstate \<Rightarrow> kstate" where
  "sched_waitq_sleep_locked cpu q timeout_ticks k =
     (case sched_current_slot k cpu of
        None \<Rightarrow> k
      | Some i \<Rightarrow>
          if is_idle (task k i) then k
          else let now = k_ticks k;
                   k = sched_detach_waitq i k;
                   k = enter_waitq i q k;
                   k = take_off_runq BLOCKED i k;
                   k = upd_task i (set_wake_tick (if timeout_ticks \<noteq> 0 then now + timeout_ticks else 0)) k;
                   k = reset_quantum i k
               in sched_mark_resched_all k)"

definition sched_waitq_sleep :: "nat \<Rightarrow> waitq_ref \<Rightarrow> u32 \<Rightarrow> kstate \<Rightarrow> kstate" where
  "sched_waitq_sleep cpu q timeout_ticks k = sched_waitq_sleep_locked cpu q timeout_ticks k"

definition sched_waitq_wake_one :: "waitq_ref \<Rightarrow> kstate \<Rightarrow> kstate" where
  "sched_waitq_wake_one q k =
     (case find (\<lambda>i. waitq_test_bit (waitq_bits k q) i \<noteq> 0) [1..<SCHED_MAX_TASKS] of
        None \<Rightarrow> k | Some i \<Rightarrow> sched_wake_slot i k)"

definition wake_if_waiting :: "waitq_ref \<Rightarrow> nat \<Rightarrow> kstate \<Rightarrow> kstate" where
  "wake_if_waiting q i k =
     (if waitq_test_bit (waitq_bits k q) i = 0 then k else sched_wake_slot i k)"

definition sched_waitq_wake_all :: "waitq_ref \<Rightarrow> kstate \<Rightarrow> kstate" where
  "sched_waitq_wake_all q k = fold (wake_if_waiting q) [1..<SCHED_MAX_TASKS] k"

subsection \<open>Switching between a task and the scheduler\<close>

definition save_user_sp :: "user_sp \<Rightarrow> task_slot \<Rightarrow> task_slot" where
  "save_user_sp sp t =
     (if us_csp sp < VM_CALL_STACK_ENTRIES \<or> us_csp (saved_user t) = 0
      then t\<lparr>saved_user := sp\<rparr> else t)"

definition back_in_loop :: "cpu_ctl \<Rightarrow> cpu_ctl" where
  "back_in_loop ctl = (case ctl of C_task i \<Rightarrow> C_back i | _ \<Rightarrow> ctl)"

text \<open>\<open>sched_ctx_swap\<close> from the task to the loop of this processor: the task's structure gets the
  processor's context, the processor the loop's.\<close>

definition swap_to_scheduler :: "nat \<Rightarrow> nat \<Rightarrow> kstate \<Rightarrow> kstate" where
  "swap_to_scheduler cpu i k =
     (let live = k_live k ! cpu in
      upd_task i (\<lambda>t. t\<lparr>stack_ctx := ctx_save live (stack_ctx t)\<rparr>)
        (k\<lparr>k_live := (k_live k)[cpu := ctx_load live (k_sched_ctx k ! cpu)],
           k_ctl := (k_ctl k)[cpu := back_in_loop (k_ctl k ! cpu)]\<rparr>))"

definition sched_switch_current_to_scheduler :: "nat \<Rightarrow> kstate \<Rightarrow> kstate" where
  "sched_switch_current_to_scheduler cpu k =
     (let idx = k_current k ! cpu in
      if idx = 0 \<or> idx \<ge> SCHED_MAX_TASKS then k
      else if \<not> used (task k idx) \<or> is_idle (task k idx) \<or> \<not> sc_valid (stack_ctx (task k idx)) then k
      else let k = upd_task idx (save_user_sp (k_irq_saved k ! cpu)) k;
               k = k\<lparr>k_sched_ctx := (k_sched_ctx k)[cpu :=
                     (k_sched_ctx k ! cpu)\<lparr>sc_irq_masked := 0, sc_in_interrupt := 0\<rparr>]\<rparr>
           in swap_to_scheduler cpu idx k)"

definition swap_to_task :: "nat \<Rightarrow> nat \<Rightarrow> kstate \<Rightarrow> kstate" where
  "swap_to_task cpu i k =
     (let live = k_live k ! cpu in
      k\<lparr>k_sched_ctx := (k_sched_ctx k)[cpu := ctx_save live (k_sched_ctx k ! cpu)],
        k_live := (k_live k)[cpu := ctx_load live (stack_ctx (task k i))],
        k_ctl := (k_ctl k)[cpu := C_task i]\<rparr>)"

text \<open>One round of the loop of \<open>sched_run\<close>: up to the switch to a task, or to the \<open>continue\<close>;
  and from the return of that switch to the end of the round.\<close>

definition sched_run_dispatch :: "u32 \<Rightarrow> u32 \<Rightarrow> nat \<Rightarrow> kstate \<Rightarrow> kstate" where
  "sched_run_dispatch boot_addr text_base cpu k =
     (let next = k_current k ! cpu;
          (k, next) = (if k_need_resched k \<or> \<not> sched_idx_runnable k next
                       then (k\<lparr>k_need_resched := False\<rparr>, sched_pick_next_idx k cpu next)
                       else (k, next))
      in if next = 0 then k\<lparr>k_current := (k_current k)[cpu := 0]\<rparr>
         else if \<not> used (task k next) \<or> entry (task k next) = 0 \<or> state (pub (task k next)) \<noteq> RUNNABLE
         then (sched_runq_del cpu next k)
                \<lparr>k_need_resched := True, k_current := (k_current k)[cpu := 0]\<rparr>
         else let k = k\<lparr>k_current := (k_current k)[cpu := next]\<rparr>;
                  k = upd_task next (\<lambda>t. t\<lparr>run_cpu := cpu\<rparr>) k;
                  k = sched_runq_del cpu next k;
                  k = (if kind (pub (task k next)) = KIND_KERNEL \<and>
                          sc_csp (stack_ctx (task k next)) = VM_CALL_STACK_ENTRIES
                       then sched_stack_prepare_bootstrap_locked boot_addr text_base next k else k);
                  k = upd_task next (set_state RUNNING) k;
                  k = upd_task next (\<lambda>t. t\<lparr>pub := (pub t)\<lparr>run_ticks := run_ticks (pub t) + 1\<rparr>\<rparr>) k;
                  k = k\<lparr>k_irq_saved := (k_irq_saved k)[cpu := saved_user (task k next)]\<rparr>
              in swap_to_task cpu next k)"

definition sched_run_return :: "nat \<Rightarrow> kstate \<Rightarrow> kstate" where
  "sched_run_return cpu k =
     (case k_ctl k ! cpu of
        C_back next \<Rightarrow>
          (let k = k\<lparr>k_current := (k_current k)[cpu := 0], k_ctl := (k_ctl k)[cpu := C_loop]\<rparr> in
           if state (pub (task k next)) = RUNNING
           then sched_runq_add cpu next (upd_task next (set_state RUNNABLE) k)
           else k)
      | _ \<Rightarrow> k)"

definition sched_yield_locked :: "nat \<Rightarrow> kstate \<Rightarrow> kstate \<times> bool" where
  "sched_yield_locked cpu k =
     (case sched_current_slot k cpu of
        None \<Rightarrow> (k, False)
      | Some i \<Rightarrow>
          let (k, should_switch) = (if state (pub (task k i)) = RUNNING
                                    then (put_runnable cpu i k, True) else (k, False));
              k = reset_quantum i k
          in (sched_mark_resched_all k, should_switch))"

definition sched_yield :: "nat \<Rightarrow> kstate \<Rightarrow> kstate" where
  "sched_yield cpu k =
     (let (k, should_switch) = sched_yield_locked cpu k
      in if should_switch then sched_switch_current_to_scheduler cpu k else k)"

definition sched_sleep_ticks_locked :: "nat \<Rightarrow> u32 \<Rightarrow> kstate \<Rightarrow> kstate" where
  "sched_sleep_ticks_locked cpu ticks k =
     (case sched_current_slot k cpu of
        None \<Rightarrow> k
      | Some i \<Rightarrow>
          if is_idle (task k i) then k
          else let now = k_ticks k;
                   k = upd_task i (set_wake_tick (now + (if ticks \<noteq> 0 then ticks else 1))) k;
                   k = take_off_runq SLEEPING i k;
                   k = reset_quantum i k
               in sched_mark_resched_all k)"

definition sched_sleep_ticks :: "nat \<Rightarrow> u32 \<Rightarrow> kstate \<Rightarrow> kstate" where
  "sched_sleep_ticks cpu ticks k =
     (case sched_current_slot k cpu of
        None \<Rightarrow> k
      | Some i \<Rightarrow> if is_idle (task k i) then k
                  else sched_switch_current_to_scheduler cpu (sched_sleep_ticks_locked cpu ticks k))"

text \<open>The task's entry function has returned to \<open>sched_task_bootstrap\<close>.\<close>

definition sched_bootstrap_return :: "nat \<Rightarrow> kstate \<Rightarrow> kstate" where
  "sched_bootstrap_return cpu k =
     (let idx = k_current k ! cpu in
      if idx < SCHED_MAX_TASKS \<and> used (task k idx) \<and> state (pub (task k idx)) = RUNNING
      then sched_mark_resched_all (reset_quantum idx (put_runnable cpu idx k))
      else k)"

text \<open>One round of the loop of \<open>sched_block_until_runnable\<close>: \<open>True\<close> if it goes on.\<close>

definition sched_block_step :: "nat \<Rightarrow> kstate \<Rightarrow> kstate \<times> bool" where
  "sched_block_step cpu k =
     (case sched_current_slot k cpu of
        Some i \<Rightarrow> if \<not> is_idle (task k i) \<and>
                     (state (pub (task k i)) = BLOCKED \<or> state (pub (task k i)) = SLEEPING)
                  then (sched_switch_current_to_scheduler cpu k, True) else (k, False)
      | None \<Rightarrow> (k, False))"

end
