(* ===== verification/Sched_Life.thy ===== *)
theory Sched_Life
  imports Sched_Ops
begin

text \<open>
  The life of a task (\<open>src/sched.c\<close> and \<open>src/sched_task.c\<close>): initialisation, creation, exit,
  \<open>waitpid\<close>, the timer tick, the restoration of a \<open>vfork\<close> parent's memory, and the accessors of
  a task's working directory, kind and accounting.
\<close>

subsection \<open>Descriptor tables of tasks\<close>

definition slot_close_all_fds :: "nat \<Rightarrow> kstate \<Rightarrow> kstate" where
  "slot_close_all_fds i k =
     (let (s, p) = sched_slot_close_all_fds (fds (task k i)) (k_pipes k)
      in upd_task i (\<lambda>t. t\<lparr>fds := s\<rparr>) (k\<lparr>k_pipes := p\<rparr>))"

definition slot_init_stdio :: "nat \<Rightarrow> kstate \<Rightarrow> kstate" where
  "slot_init_stdio i k =
     (let (s, p) = sched_fd_table_init_stdio (fds (task k i)) (k_pipes k)
      in upd_task i (\<lambda>t. t\<lparr>fds := s\<rparr>) (k\<lparr>k_pipes := p\<rparr>))"

definition slot_clone_fds :: "nat \<Rightarrow> nat \<Rightarrow> kstate \<Rightarrow> kstate \<times> int" where
  "slot_clone_fds dst src k =
     (let (s, p, rc) = sched_fd_table_clone (fds (task k dst)) (fds (task k src)) (k_pipes k)
      in (upd_task dst (\<lambda>t. t\<lparr>fds := s\<rparr>) (k\<lparr>k_pipes := p\<rparr>), rc))"

definition clear_task :: "nat \<Rightarrow> kstate \<Rightarrow> kstate" where
  "clear_task i k = upd_task i (\<lambda>t. sched_clear_task) k"

subsection \<open>Working directory\<close>

text \<open>A path is the string before its terminating zero.\<close>

definition sched_cwd_copy :: "string \<Rightarrow> string" where
  "sched_cwd_copy src =
     (if src = [] then ''/''
      else let dst = take 63 src in if hd dst \<noteq> CHR ''/'' then ''/'' else dst)"

definition sched_current_getcwd :: "nat \<Rightarrow> nat \<Rightarrow> kstate \<Rightarrow> string option" where
  "sched_current_getcwd cpu cap k =
     (if cap = 0 then None
      else case sched_current_slot k cpu of
        None \<Rightarrow> None
      | Some i \<Rightarrow> if length (cwd (task k i)) < cap then Some (cwd (task k i)) else None)"

definition sched_current_setcwd :: "nat \<Rightarrow> string \<Rightarrow> kstate \<Rightarrow> kstate \<times> int" where
  "sched_current_setcwd cpu path k =
     (if path = [] \<or> hd path \<noteq> CHR ''/'' then (k, -1)
      else case sched_current_slot k cpu of
        None \<Rightarrow> (k, -1)
      | Some i \<Rightarrow> (upd_task i (\<lambda>t. t\<lparr>cwd := sched_cwd_copy path\<rparr>) k, 0))"

definition sched_current_umask :: "nat \<Rightarrow> u32 \<Rightarrow> kstate \<Rightarrow> kstate \<times> u32" where
  "sched_current_umask cpu new_mask k =
     (case sched_current_slot k cpu of
        Some i \<Rightarrow> if is_idle (task k i) then (k, 0x12)
                  else (upd_task i (\<lambda>t. t\<lparr>file_umask := new_mask AND 0x1FF\<rparr>) k,
                        file_umask (task k i) AND 0x1FF)
      | None \<Rightarrow> (k, 0x12))"

definition sched_current_umask_get :: "nat \<Rightarrow> kstate \<Rightarrow> u32" where
  "sched_current_umask_get cpu k =
     (case sched_current_slot k cpu of
        Some i \<Rightarrow> if is_idle (task k i) then 0x12 else file_umask (task k i) AND 0x1FF
      | None \<Rightarrow> 0x12)"

subsection \<open>The memory of a vfork parent\<close>

abbreviation (input) "SCHED_VFORK_SNAPSHOT_BASE \<equiv> (0x01000000 :: u32)"
abbreviation (input) "SCHED_VFORK_STACK_SNAPSHOT_BASE \<equiv> (0x00680000 :: u32)"
abbreviation (input) "SCHED_VFORK_IMAGE_SNAPSHOT_BYTES \<equiv> (0xF80000 :: nat)"
abbreviation (input) "USER_STACK_BYTES \<equiv> (0x80000 :: nat)"

definition vfork_save_memory :: "memory \<Rightarrow> memory" where
  "vfork_save_memory m =
     sched_mem_copy_u8 SCHED_VFORK_STACK_SNAPSHOT_BASE (USER_STACK_TOP - USER_STACK_RESERVE) USER_STACK_BYTES
       (sched_mem_copy_u8 SCHED_VFORK_SNAPSHOT_BASE USER_REGION_BASE SCHED_VFORK_IMAGE_SNAPSHOT_BYTES m)"

definition vfork_restore_memory :: "memory \<Rightarrow> memory" where
  "vfork_restore_memory m =
     sched_mem_copy_u8 (USER_STACK_TOP - USER_STACK_RESERVE) SCHED_VFORK_STACK_SNAPSHOT_BASE USER_STACK_BYTES
       (sched_mem_copy_u8 USER_REGION_BASE SCHED_VFORK_SNAPSHOT_BASE SCHED_VFORK_IMAGE_SNAPSHOT_BYTES m)"

definition sched_vfork_snapshot_parent_user_locked :: "nat \<Rightarrow> kstate \<Rightarrow> kstate" where
  "sched_vfork_snapshot_parent_user_locked child k =
     k\<lparr>k_mem := vfork_save_memory (k_mem k), k_vfork_valid := True,
       k_vfork_child := tid (pub (task k child))\<rparr>"

text \<open>The three calls of \<open>mmu_map_identity\<close> are recorded in \<open>k_mmu_calls\<close>.\<close>

definition sched_vfork_restore_parent_user_locked :: "nat \<Rightarrow> kstate \<Rightarrow> kstate" where
  "sched_vfork_restore_parent_user_locked child k =
     (if \<not> k_vfork_valid k \<or> k_vfork_child k \<noteq> tid (pub (task k child)) then k
      else k\<lparr>k_mmu_calls := k_mmu_calls k @
               [(USER_REGION_BASE, of_nat SCHED_VFORK_IMAGE_SNAPSHOT_BYTES, 0xF),
                (USER_STACK_TOP - USER_STACK_RESERVE, USER_STACK_RESERVE, 0xB),
                (USER_REGION_BASE, of_nat SCHED_VFORK_IMAGE_SNAPSHOT_BYTES, 0xF)],
             k_mem := vfork_restore_memory (k_mem k),
             k_vfork_valid := False, k_vfork_child := 0\<rparr>)"

definition sched_vfork_release_parent :: "nat \<Rightarrow> kstate \<Rightarrow> kstate" where
  "sched_vfork_release_parent cpu k =
     (case sched_current_slot k cpu of
        None \<Rightarrow> k
      | Some i \<Rightarrow>
          if is_idle (task k i) \<or> \<not> vfork_child_active (task k i) then k
          else let k = sched_vfork_restore_parent_user_locked i k;
                   k = upd_task i (\<lambda>t. t\<lparr>vfork_child_active := False\<rparr>) k
               in if parent_tid (task k i) < 0 then k
                  else case sched_find_by_tid k (word_of_int (parent_tid (task k i))) of
                    None \<Rightarrow> k
                  | Some p \<Rightarrow> wake_if_waiting (Child_waitq p) p k)"

subsection \<open>Exit\<close>

definition wake_child_waiters :: "nat \<Rightarrow> kstate \<Rightarrow> kstate" where
  "wake_child_waiters p k = fold (wake_if_waiting (Child_waitq p)) [1..<SCHED_MAX_TASKS] k"

definition sched_exit_code_locked :: "nat \<Rightarrow> u32 \<Rightarrow> kstate \<Rightarrow> kstate" where
  "sched_exit_code_locked cpu code k =
     (case sched_current_slot k cpu of
        None \<Rightarrow> k
      | Some i \<Rightarrow>
          if is_idle (task k i) then k
          else let k = sched_detach_waitq i k;
                   k = sched_vfork_restore_parent_user_locked i k;
                   k = upd_task i (\<lambda>t. t\<lparr>vfork_child_active := False\<rparr>) k;
                   k = slot_close_all_fds i k;
                   k = upd_task i (\<lambda>t. t\<lparr>exit_code := code\<rparr>) k;
                   k = take_off_runq ZOMBIE i k;
                   k = upd_task i (set_wake_tick 0) k;
                   k = reset_quantum i k;
                   k = (if parent_tid (task k i) < 0 then k
                        else case sched_find_by_tid k (word_of_int (parent_tid (task k i))) of
                          None \<Rightarrow> k
                        | Some p \<Rightarrow>
                            let k = (if vfork_resume_valid (task k p) then sched_wake_slot p k else k)
                            in wake_child_waiters p k)
               in sched_mark_resched_all k)"

definition sched_exit_code :: "nat \<Rightarrow> u32 \<Rightarrow> kstate \<Rightarrow> kstate" where
  "sched_exit_code cpu code k =
     sched_switch_current_to_scheduler cpu (sched_exit_code_locked cpu code k)"

subsection \<open>Creation\<close>

definition spawn_reset :: "string option \<Rightarrow> u32 \<Rightarrow> task_slot \<Rightarrow> task_slot" where
  "spawn_reset name ent t =
     t\<lparr>used := True, is_idle := False, entry := ent, task_name := name,
       vfork_child_active := False, syscall_abi_addr := 0, waitq := None,
       child_waitq := sched_waitq_init_locked, quantum_used := 0, exit_code := 0\<rparr>"

definition spawn_public :: "int \<Rightarrow> u32 \<Rightarrow> sched_task \<Rightarrow> sched_task" where
  "spawn_public parent_pid argument p =
     p\<lparr>ppid := parent_pid, kind := KIND_KERNEL, exec_st := EXEC_KERNEL, state := RUNNABLE,
       wake_tick := 0, run_ticks := 0, arg := argument\<rparr>"

text \<open>A field of the parent, or what the code takes when there is none.\<close>

definition of_parent :: "nat option \<Rightarrow> (task_slot \<Rightarrow> 'a) \<Rightarrow> 'a \<Rightarrow> kstate \<Rightarrow> 'a" where
  "of_parent parent f dflt k = (case parent of Some p \<Rightarrow> f (task k p) | None \<Rightarrow> dflt)"

text \<open>The number that the next task gets; 0 stays reserved for the idle task.\<close>

definition take_tid :: "nat \<Rightarrow> kstate \<Rightarrow> kstate" where
  "take_tid i k =
     (let t = k_next_tid k in
      upd_task i (\<lambda>s. s\<lparr>pub := (pub s)\<lparr>tid := t, pid := t\<rparr>\<rparr>)
        (k\<lparr>k_next_tid := (if t + 1 = 0 then 1 else t + 1)\<rparr>))"

text \<open>\<open>sched_spawn\<close> up to the allocation of the stack.\<close>

definition spawn_fill :: "nat \<Rightarrow> string option \<Rightarrow> u32 \<Rightarrow> u32 \<Rightarrow> nat \<Rightarrow> kstate \<Rightarrow> kstate" where
  "spawn_fill cpu name ent argument i k =
     (let k = upd_task i (spawn_reset name ent) k;
          parent = sched_current_slot k cpu;
          k = upd_task i (\<lambda>t. t\<lparr>parent_tid := of_parent parent (\<lambda>p. sint (tid (pub p))) 0 k\<rparr>) k;
          k = take_tid i k;
          k = upd_task i (\<lambda>t. t\<lparr>pub :=
                spawn_public (of_parent parent (\<lambda>p. sint (pid (pub p))) 0 k) argument (pub t)\<rparr>) k
      in upd_task i (\<lambda>t. t\<lparr>cwd := of_parent parent (\<lambda>p. sched_cwd_copy (cwd p)) ''/'' k,
                            file_umask := of_parent parent file_umask 0x12 k\<rparr>) k)"

definition sched_spawn ::
    "u32 \<Rightarrow> u32 \<Rightarrow> nat \<Rightarrow> string option \<Rightarrow> u32 \<Rightarrow> u32 \<Rightarrow> kstate \<Rightarrow> kstate \<times> int" where
  "sched_spawn boot_addr text_base cpu name ent argument k =
     (if ent = 0 then (k, -1)
      else case sched_alloc_slot k of
        None \<Rightarrow> (k, -1)
      | Some i \<Rightarrow>
          (case sched_stack_alloc_locked i (spawn_fill cpu name ent argument i k) of
             (k, rc) \<Rightarrow>
               if rc \<noteq> 0 then (clear_task i k, -1)
               else let k = sched_stack_prepare_bootstrap_locked boot_addr text_base i k;
                        c = sched_cpu_normalize k (unat (k_spawn_rr k) mod sched_cpu_cap k);
                        k = upd_task i (\<lambda>t. t\<lparr>run_cpu := c\<rparr>) k;
                        k = k\<lparr>k_spawn_rr := k_spawn_rr k + 1\<rparr>;
                        k = slot_init_stdio i k;
                        k = sched_runq_add (run_cpu (task k i)) i k;
                        k = sched_mark_resched_all k
                    in (k, sint (tid (pub (task k i))))))"

subsection \<open>Waiting for children\<close>

definition sched_task_is_child_of :: "task_slot \<Rightarrow> int \<Rightarrow> int \<Rightarrow> bool" where
  "sched_task_is_child_of t parent_tid' pid' =
     (if \<not> used t \<or> is_idle t then False
      else if parent_tid t \<noteq> parent_tid' then False
      else if pid' = -1 then True
      else tid (pub t) = word_of_int pid')"

definition sched_try_reap_child :: "int \<Rightarrow> int \<Rightarrow> kstate \<Rightarrow> kstate \<times> int \<times> u32 option" where
  "sched_try_reap_child parent_tid' pid' k =
     (let child = (\<lambda>i. sched_task_is_child_of (task k i) parent_tid' pid') in
      case find (\<lambda>i. child i \<and> state (pub (task k i)) = ZOMBIE) [1..<SCHED_MAX_TASKS] of
        Some i \<Rightarrow>
          let status = push_bit 8 (exit_code (task k i) AND 0xFF);
              child_tid = sint (tid (pub (task k i)));
              k = sched_runq_del (run_cpu (task k i)) i k;
              k = sched_stack_free_locked i k
          in (clear_task i k, child_tid, Some status)
      | None \<Rightarrow> (k, if find child [1..<SCHED_MAX_TASKS] = None then -1 else 0, None))"

definition sched_waitpid :: "nat \<Rightarrow> int \<Rightarrow> u32 \<Rightarrow> kstate \<Rightarrow> kstate \<times> int \<times> u32 option" where
  "sched_waitpid cpu pid' options k =
     (case sched_current_slot k cpu of
        None \<Rightarrow> (k, -1, None)
      | Some i \<Rightarrow>
          if is_idle (task k i) then (k, -1, None)
          else case sched_try_reap_child (sint (tid (pub (task k i)))) pid' k of
            (k, rc, status) \<Rightarrow>
              if rc \<noteq> 0 then (k, rc, status)
              else if options AND 1 \<noteq> 0 then (k, 0, status)
              else (sched_waitq_sleep_locked cpu (Child_waitq i) 0 k, -2, status))"

subsection \<open>The timer\<close>

definition schedule_tick :: "nat \<Rightarrow> kstate \<Rightarrow> kstate" where
  "schedule_tick cpu k =
     (let k = k\<lparr>k_ticks := k_ticks k + 1\<rparr>;
          k = sched_try_wake_sleepers (k_ticks k) k;
          cur = k_current k ! cpu
      in if cur \<ge> SCHED_MAX_TASKS then k
         else let t = task k cur;
                  k = (if \<not> used t \<or> is_idle t then k\<lparr>k_idle_ticks := k_idle_ticks k + 1\<rparr>
                       else if kind (pub t) = KIND_USER
                       then k\<lparr>k_user_ticks := k_user_ticks k + 1\<rparr>
                       else k\<lparr>k_system_ticks := k_system_ticks k + 1\<rparr>)
              in if used t \<and> \<not> is_idle t \<and> state (pub t) = RUNNING
                 then let k = upd_task cur (\<lambda>t. t\<lparr>quantum_used := quantum_used t + 1\<rparr>) k
                      in if quantum_used (task k cur) \<ge> SCHED_QUANTUM_TICKS
                         then k\<lparr>k_need_resched := True\<rparr> else k
                 else k)"

definition sched_ticks :: "kstate \<Rightarrow> u32" where
  "sched_ticks k = k_ticks k"

subsection \<open>Initialisation\<close>

text \<open>\<open>idle_entry\<close> is the address of \<open>sched_idle_task\<close>.\<close>

definition sched_init :: "u32 \<Rightarrow> nat \<Rightarrow> kstate \<Rightarrow> kstate" where
  "sched_init idle_entry target_cpus k =
     (let k = k\<lparr>k_tasks := replicate SCHED_MAX_TASKS sched_clear_task,
               k_ticks := 0, k_user_ticks := 0, k_system_ticks := 0, k_idle_ticks := 0,
               k_need_resched := False\<rparr>;
          k = sched_stack_pool_init_locked target_cpus k;
          k = k\<lparr>k_current := replicate SCHED_MAX_CPUS 0,
               k_runq := replicate SCHED_MAX_CPUS [0, 0], k_next_tid := 1, k_spawn_rr := 0\<rparr>;
          k = upd_task 0 (\<lambda>t. t\<lparr>used := True, is_idle := True, entry := idle_entry,
                task_name := Some ''idle'', parent_tid := -1, exit_code := 0,
                child_waitq := sched_waitq_init_locked,
                pub := (pub t)\<lparr>tid := 0, pid := 0, ppid := -1, state := RUNNABLE,
                  kind := KIND_KERNEL, exec_st := EXEC_KERNEL, wake_tick := 0, run_ticks := 0,
                  arg := 0\<rparr>,
                cwd := ''/'', file_umask := 0x12, run_cpu := 0\<rparr>) k
      in slot_init_stdio 0 k)"

subsection \<open>Accessors\<close>

definition sched_current_tid :: "nat \<Rightarrow> kstate \<Rightarrow> int" where
  "sched_current_tid cpu k =
     (case sched_current_slot k cpu of None \<Rightarrow> -1 | Some i \<Rightarrow> sint (tid (pub (task k i))))"

definition sched_current_ppid :: "nat \<Rightarrow> kstate \<Rightarrow> int" where
  "sched_current_ppid cpu k =
     (case sched_current_slot k cpu of None \<Rightarrow> -1 | Some i \<Rightarrow> ppid (pub (task k i)))"

definition sched_task_set_kind :: "nat \<Rightarrow> u32 \<Rightarrow> kstate \<Rightarrow> kstate" where
  "sched_task_set_kind cpu kd k =
     (case sched_current_slot k cpu of
        None \<Rightarrow> k
      | Some i \<Rightarrow> upd_task i (\<lambda>t. t\<lparr>pub := (pub t)\<lparr>kind := (if kd = 1 then KIND_USER else KIND_KERNEL)\<rparr>\<rparr>) k)"

definition sched_task_set_exec_state :: "nat \<Rightarrow> u32 \<Rightarrow> kstate \<Rightarrow> kstate" where
  "sched_task_set_exec_state cpu es k =
     (case sched_current_slot k cpu of
        None \<Rightarrow> k
      | Some i \<Rightarrow> upd_task i (\<lambda>t. t\<lparr>pub := (pub t)\<lparr>exec_st :=
          (if es = 1 then EXEC_KERNEL else if es = 2 then EXEC_USER else EXEC_NONE)\<rparr>\<rparr>) k)"

definition sched_task_get_kind :: "nat \<Rightarrow> kstate \<Rightarrow> task_kind" where
  "sched_task_get_kind cpu k =
     (case sched_current_slot k cpu of None \<Rightarrow> KIND_KERNEL | Some i \<Rightarrow> kind (pub (task k i)))"

definition sched_task_get_exec_state :: "nat \<Rightarrow> kstate \<Rightarrow> exec_state" where
  "sched_task_get_exec_state cpu k =
     (case sched_current_slot k cpu of None \<Rightarrow> EXEC_NONE | Some i \<Rightarrow> exec_st (pub (task k i)))"

definition sched_save_current_user_irq_ctx :: "nat \<Rightarrow> kstate \<Rightarrow> kstate" where
  "sched_save_current_user_irq_ctx cpu k =
     (let sp = k_irq_saved k ! cpu in
      if us_csp sp > VM_CALL_STACK_ENTRIES \<or> us_dsp sp > VM_DATA_STACK_ENTRIES \<or>
         us_call_base sp = 0 \<or> us_data_base sp = 0 then k
      else case sched_current_slot k cpu of
        None \<Rightarrow> k
      | Some i \<Rightarrow> if \<not> is_idle (task k i) \<and> kind (pub (task k i)) = KIND_USER
                  then upd_task i (\<lambda>t. t\<lparr>saved_user := sp\<rparr>) k else k)"

record sched_stats =
  ss_ticks :: u32
  ss_user_ticks :: u32
  ss_system_ticks :: u32
  ss_idle_ticks :: u32
  ss_task_count :: nat
  ss_runnable :: nat
  ss_running :: nat
  ss_sleeping :: nat
  ss_blocked :: nat
  ss_zombie :: nat
  ss_user_tasks :: nat
  ss_stack_bytes :: u32
  ss_online_cpus :: nat

definition count_task :: "task_slot \<Rightarrow> sched_stats \<Rightarrow> sched_stats" where
  "count_task t out =
     (if \<not> used t \<or> is_idle t then out
      else let out = out\<lparr>ss_task_count := ss_task_count out + 1\<rparr>;
               out = (if kind (pub t) = KIND_USER
                      then out\<lparr>ss_user_tasks := ss_user_tasks out + 1\<rparr> else out);
               out = (if sc_valid (stack_ctx t)
                      then out\<lparr>ss_stack_bytes := ss_stack_bytes out + VM_STACK_SLOT_BYTES\<rparr> else out)
           in case state (pub t) of
                RUNNABLE \<Rightarrow> out\<lparr>ss_runnable := ss_runnable out + 1\<rparr>
              | RUNNING \<Rightarrow> out\<lparr>ss_running := ss_running out + 1\<rparr>
              | SLEEPING \<Rightarrow> out\<lparr>ss_sleeping := ss_sleeping out + 1\<rparr>
              | BLOCKED \<Rightarrow> out\<lparr>ss_blocked := ss_blocked out + 1\<rparr>
              | ZOMBIE \<Rightarrow> out\<lparr>ss_zombie := ss_zombie out + 1\<rparr>
              | UNUSED \<Rightarrow> out)"

definition sched_stats_snapshot :: "kstate \<Rightarrow> sched_stats" where
  "sched_stats_snapshot k =
     fold count_task (k_tasks k)
       \<lparr>ss_ticks = k_ticks k, ss_user_ticks = k_user_ticks k, ss_system_ticks = k_system_ticks k,
        ss_idle_ticks = k_idle_ticks k, ss_task_count = 0, ss_runnable = 0, ss_running = 0,
        ss_sleeping = 0, ss_blocked = 0, ss_zombie = 0, ss_user_tasks = 0, ss_stack_bytes = 0,
        ss_online_cpus = sched_cpu_cap k\<rparr>"

record proc_task_info =
  pi_pid :: u32
  pi_ppid :: int
  pi_state :: task_state
  pi_kind :: task_kind
  pi_run_ticks :: u32
  pi_stack_bytes :: u32
  pi_name :: string

definition sched_proc_task_copy :: "task_slot \<Rightarrow> proc_task_info" where
  "sched_proc_task_copy t =
     \<lparr>pi_pid = pid (pub t), pi_ppid = ppid (pub t), pi_state = state (pub t),
      pi_kind = kind (pub t), pi_run_ticks = run_ticks (pub t),
      pi_stack_bytes = (if sc_valid (stack_ctx t) then VM_STACK_SLOT_BYTES else 0),
      pi_name = take 15 (case task_name t of Some n \<Rightarrow> n | None \<Rightarrow> ''task'')\<rparr>"

definition sched_proc_task_by_slot :: "nat \<Rightarrow> kstate \<Rightarrow> proc_task_info option" where
  "sched_proc_task_by_slot i k =
     (if i = 0 \<or> i \<ge> SCHED_MAX_TASKS then None
      else if used (task k i) \<and> \<not> is_idle (task k i) then Some (sched_proc_task_copy (task k i))
      else None)"

definition sched_proc_task_by_pid :: "u32 \<Rightarrow> kstate \<Rightarrow> proc_task_info option" where
  "sched_proc_task_by_pid p k =
     (if p = 0 then None
      else case find (\<lambda>i. used (task k i) \<and> \<not> is_idle (task k i) \<and> pid (pub (task k i)) = p)
                  [1..<SCHED_MAX_TASKS] of
        Some i \<Rightarrow> Some (sched_proc_task_copy (task k i)) | None \<Rightarrow> None)"

end
