(* ===== verification/Sched_Signal.thy ===== *)
theory Sched_Signal
  imports Sched_Life
begin

text \<open>
  Signals (\<open>src/sched_task.c\<close> 800-888 and 1387-1679) and the access to the interrupted user
  context that they use (\<open>irq_user_context_get\<close> and \<open>irq_user_context_set\<close> of \<open>src/irq.c\<close>).
  Delivery stores the user's context in a frame on the user stack and diverts the return from
  the interrupt to the handler; \<open>sigreturn\<close> reads the frame back.
\<close>

subsection \<open>Signal sets\<close>

abbreviation (input) "SCHED_SIGNAL_MAX \<equiv> (31 :: nat)"
abbreviation (input) "SCHED_SIGNAL_DFL \<equiv> (0 :: u32)"
abbreviation (input) "SCHED_SIGNAL_IGN \<equiv> (1 :: u32)"
abbreviation (input) "SCHED_SIGNAL_KILL \<equiv> (9 :: nat)"
abbreviation (input) "SCHED_SIGNAL_SEGV \<equiv> (11 :: nat)"
abbreviation (input) "SCHED_SIGNAL_CHLD \<equiv> (17 :: nat)"
abbreviation (input) "SCHED_SIGNAL_STOP \<equiv> (19 :: nat)"
abbreviation (input) "SCHED_SIGNAL_OK \<equiv> (0 :: int)"
abbreviation (input) "SCHED_SIGNAL_EINVAL \<equiv> (-1 :: int)"
abbreviation (input) "SCHED_SIGNAL_ESRCH \<equiv> (-2 :: int)"

definition sched_signal_valid :: "nat \<Rightarrow> bool" where
  "sched_signal_valid sig \<longleftrightarrow> 1 \<le> sig \<and> sig \<le> SCHED_SIGNAL_MAX"

definition sched_signal_bit :: "nat \<Rightarrow> u32" where
  "sched_signal_bit sig = (if sched_signal_valid sig then push_bit (sig - 1) 1 else 0)"

definition sched_signal_uncatchable_mask :: u32 where
  "sched_signal_uncatchable_mask = sched_signal_bit SCHED_SIGNAL_KILL OR sched_signal_bit SCHED_SIGNAL_STOP"

definition sched_signal_is_default_terminate :: "nat \<Rightarrow> bool" where
  "sched_signal_is_default_terminate sig = (if sig = SCHED_SIGNAL_CHLD then False else sched_signal_valid sig)"

definition sched_signal_user_code_addr :: "u32 \<Rightarrow> bool" where
  "sched_signal_user_code_addr addr \<longleftrightarrow>
     addr \<ge> USER_REGION_BASE \<and> addr < USER_REGION_BASE + USER_REGION_SIZE"

definition sched_signal_user_stack_range :: "u32 \<Rightarrow> u32 \<Rightarrow> bool" where
  "sched_signal_user_stack_range addr len =
     (if len = 0 \<or> addr < USER_STACK_TOP - USER_STACK_RESERVE \<or> addr \<ge> USER_STACK_TOP then False
      else len \<le> USER_STACK_TOP - addr)"

definition sched_signal_arch_stack_valid :: "u32 \<Rightarrow> u32 \<Rightarrow> bool" where
  "sched_signal_arch_stack_valid base len \<longleftrightarrow>
     base \<noteq> 0 \<and> base < 0x04000000 \<and> len \<le> 0x04000000 - base"

subsection \<open>Actions, masks, and sending\<close>

definition live_current :: "kstate \<Rightarrow> nat \<Rightarrow> nat option" where
  "live_current k cpu =
     (case sched_current_slot k cpu of
        None \<Rightarrow> None | Some i \<Rightarrow> if is_idle (task k i) then None else Some i)"

definition sched_signal_action ::
    "nat \<Rightarrow> nat \<Rightarrow> sched_sigaction option \<Rightarrow> kstate \<Rightarrow> kstate \<times> int \<times> sched_sigaction option" where
  "sched_signal_action cpu sig act k =
     (if \<not> sched_signal_valid sig \<or> sig = SCHED_SIGNAL_KILL \<or> sig = SCHED_SIGNAL_STOP
      then (k, SCHED_SIGNAL_EINVAL, None)
      else case live_current k cpu of
        None \<Rightarrow> (k, SCHED_SIGNAL_ESRCH, None)
      | Some i \<Rightarrow>
          (case act of None \<Rightarrow> k
            | Some a \<Rightarrow> upd_task i (\<lambda>t. t\<lparr>sig_action := (sig_action t)[sig := a]\<rparr>) k,
           SCHED_SIGNAL_OK, Some (sig_action (task k i) ! sig)))"

definition sched_signal_mask :: "nat \<Rightarrow> u32 \<Rightarrow> u32 \<Rightarrow> kstate \<Rightarrow> kstate \<times> int \<times> u32 option" where
  "sched_signal_mask cpu how sigs k =
     (let sigs = sigs AND NOT sched_signal_uncatchable_mask in
      case live_current k cpu of
        None \<Rightarrow> (k, SCHED_SIGNAL_ESRCH, None)
      | Some i \<Rightarrow>
          let old = sig_mask (task k i);
              next = (if how = 0 then Some (old OR sigs) else if how = 1 then Some (old AND NOT sigs)
                      else if how = 2 then Some sigs else None)
          in case next of
               None \<Rightarrow> (k, SCHED_SIGNAL_EINVAL, Some old)
             | Some m \<Rightarrow>
                 (upd_task i (\<lambda>t. t\<lparr>sig_mask := m AND NOT sched_signal_uncatchable_mask\<rparr>) k,
                  SCHED_SIGNAL_OK, Some old))"

definition sched_signal_wake_parent_locked :: "nat \<Rightarrow> kstate \<Rightarrow> kstate" where
  "sched_signal_wake_parent_locked i k =
     (if parent_tid (task k i) < 0 then k
      else case sched_find_by_tid k (word_of_int (parent_tid (task k i))) of
        None \<Rightarrow> k | Some p \<Rightarrow> wake_child_waiters p k)"

definition sched_signal_terminate_slot_locked :: "nat \<Rightarrow> nat \<Rightarrow> kstate \<Rightarrow> kstate" where
  "sched_signal_terminate_slot_locked i sig k =
     (if \<not> used (task k i) \<or> is_idle (task k i) \<or> state (pub (task k i)) = ZOMBIE then k
      else let k = sched_detach_waitq i k;
               k = sched_vfork_restore_parent_user_locked i k;
               k = upd_task i (\<lambda>t. t\<lparr>vfork_child_active := False\<rparr>) k;
               k = slot_close_all_fds i k;
               k = upd_task i (\<lambda>t. t\<lparr>exit_code := 128 + (of_nat sig AND 0x7F), sig_pending := 0\<rparr>) k;
               k = take_off_runq ZOMBIE i k;
               k = upd_task i (set_wake_tick 0) k;
               k = reset_quantum i k;
               k = sched_signal_wake_parent_locked i k
           in sched_mark_resched_all k)"

definition kill_target :: "int \<Rightarrow> kstate \<Rightarrow> nat option" where
  "kill_target pid' k =
     find (\<lambda>i. let t = task k i in
             used t \<and> \<not> is_idle t \<and> state (pub t) \<noteq> ZOMBIE \<and>
             (pid (pub t) = word_of_int pid' \<or> tid (pub t) = word_of_int pid'))
       [1..<SCHED_MAX_TASKS]"

text \<open>The critical section of \<open>sched_signal_kill\<close>; the last component says that the caller is to
  exit once it has released the lock.\<close>

definition sched_signal_kill_locked :: "nat \<Rightarrow> int \<Rightarrow> nat \<Rightarrow> kstate \<Rightarrow> kstate \<times> int \<times> bool" where
  "sched_signal_kill_locked cpu pid' sig k =
     (if sig \<noteq> 0 \<and> \<not> sched_signal_valid sig then (k, SCHED_SIGNAL_EINVAL, False)
      else if pid' \<le> 0 then (k, SCHED_SIGNAL_EINVAL, False)
      else case kill_target pid' k of
        None \<Rightarrow> (k, SCHED_SIGNAL_ESRCH, False)
      | Some i \<Rightarrow>
          if sig = 0 then (k, SCHED_SIGNAL_OK, False)
          else let sigbit = sched_signal_bit sig;
                   special = (sig = SCHED_SIGNAL_KILL \<or> sig = SCHED_SIGNAL_STOP);
                   act = sig_action (task k i) ! sig
          in if \<not> special \<and> sa_handler act = SCHED_SIGNAL_IGN then (k, SCHED_SIGNAL_OK, False)
             else let k = upd_task i (\<lambda>t. t\<lparr>sig_pending := sig_pending t OR sigbit\<rparr>) k
             in if sig_mask (task k i) AND sigbit \<noteq> 0 \<and> \<not> special then (k, SCHED_SIGNAL_OK, False)
                else if sa_handler act = SCHED_SIGNAL_DFL \<and> sched_signal_is_default_terminate sig
                then if sched_current_slot k cpu = Some i then (k, SCHED_SIGNAL_OK, True)
                     else (sched_signal_terminate_slot_locked i sig k, SCHED_SIGNAL_OK, False)
                else (k, SCHED_SIGNAL_OK, False))"

definition sched_signal_kill :: "nat \<Rightarrow> int \<Rightarrow> nat \<Rightarrow> kstate \<Rightarrow> kstate \<times> int" where
  "sched_signal_kill cpu pid' sig k =
     (let (k, rc, terminate_self) = sched_signal_kill_locked cpu pid' sig k
      in (if terminate_self then sched_exit_code cpu (128 + (of_nat sig AND 0x7F)) k else k, rc))"

definition sched_signal_exec_reset :: "nat \<Rightarrow> kstate \<Rightarrow> kstate" where
  "sched_signal_exec_reset cpu k =
     (case live_current k cpu of
        None \<Rightarrow> k
      | Some i \<Rightarrow> upd_task i (\<lambda>t. t\<lparr>sig_pending := 0, sig_frame_top := 0,
          sig_action := map (\<lambda>sig. let a = sig_action t ! sig in
              if 1 \<le> sig \<and> sa_handler a \<noteq> SCHED_SIGNAL_IGN
              then \<lparr>sa_handler = SCHED_SIGNAL_DFL, sa_flags = 0, sa_mask = 0, sa_restorer = 0\<rparr> else a)
            [0..<length (sig_action t)]\<rparr>) k)"

subsection \<open>The interrupted user context\<close>

record irq_user_context =
  cx_regs :: "u32 list"
  cx_flags :: u32
  cx_ip :: u32
  cx_csp :: u32
  cx_dsp :: u32
  cx_call_base :: u32
  cx_data_base :: u32
  cx_irq_masked :: u32

definition isr_slot :: "u32 \<Rightarrow> u32 \<Rightarrow> u32" where
  "isr_slot isr_base index = isr_base + index * 8"

definition irq_isr_slot_read32 :: "u32 \<Rightarrow> u32 \<Rightarrow> memory \<Rightarrow> u32" where
  "irq_isr_slot_read32 isr_base index m = mem_read32 m (isr_slot isr_base index)"

definition irq_isr_slot_write32 :: "u32 \<Rightarrow> u32 \<Rightarrow> u32 \<Rightarrow> memory \<Rightarrow> memory" where
  "irq_isr_slot_write32 isr_base index v m =
     mem_write32 (isr_slot isr_base index + 4) 0 (mem_write32 (isr_slot isr_base index) v m)"

definition irq_user_context_get :: "nat \<Rightarrow> kstate \<Rightarrow> irq_user_context option" where
  "irq_user_context_get cpu k =
     (if \<not> k_irq_from_user k ! cpu then None
      else let isp = sc_isp (k_live k ! cpu); isr_base = sc_isr_base (k_live k ! cpu);
               sp = k_irq_saved k ! cpu
           in if isp > VM_ISR_STACK_ENTRIES - 34 \<or> isr_base = 0 then None
              else Some \<lparr>cx_regs = map (\<lambda>r. irq_isr_slot_read32 isr_base (isp + (31 - of_nat r)) (k_mem k)) [0..<32],
                 cx_flags = irq_isr_slot_read32 isr_base (isp + 32) (k_mem k),
                 cx_ip = irq_isr_slot_read32 isr_base (isp + 33) (k_mem k),
                 cx_csp = us_csp sp, cx_dsp = us_dsp sp, cx_call_base = us_call_base sp,
                 cx_data_base = us_data_base sp,
                 cx_irq_masked = k_irq_frame_masked k (cpu * 2048 + unat isp)\<rparr>)"

definition irq_user_context_set :: "nat \<Rightarrow> irq_user_context \<Rightarrow> kstate \<Rightarrow> kstate \<times> int" where
  "irq_user_context_set cpu ctx k =
     (if cx_csp ctx > VM_CALL_STACK_ENTRIES \<or> cx_dsp ctx > VM_DATA_STACK_ENTRIES then (k, -1)
      else if \<not> k_irq_from_user k ! cpu then (k, -1)
      else let isp = sc_isp (k_live k ! cpu); isr_base = sc_isr_base (k_live k ! cpu)
           in if isp > VM_ISR_STACK_ENTRIES - 34 \<or> isr_base = 0 then (k, -1)
              else let m = fold (\<lambda>r. irq_isr_slot_write32 isr_base (isp + (31 - of_nat r)) (cx_regs ctx ! r))
                             [0..<32] (k_mem k);
                       m = irq_isr_slot_write32 isr_base (isp + 32) (cx_flags ctx) m;
                       m = irq_isr_slot_write32 isr_base (isp + 33) (cx_ip ctx) m
                   in (k\<lparr>k_mem := m,
                         k_irq_saved := (k_irq_saved k)[cpu := \<lparr>us_csp = cx_csp ctx, us_dsp = cx_dsp ctx,
                            us_call_base = cx_call_base ctx, us_data_base = cx_data_base ctx\<rparr>],
                         k_irq_frame_masked := (k_irq_frame_masked k)
                            (cpu * 2048 + unat isp := (if cx_irq_masked ctx \<noteq> 0 then 1 else 0))\<rparr>, 0))"

subsection \<open>Signal frames\<close>

record signal_frame =
  sf_magic :: u32
  sf_version :: u32
  sf_size :: u32
  sf_signo :: u32
  sf_prev_frame :: u32
  sf_old_mask :: u32
  sf_csp :: u32
  sf_dsp :: u32
  sf_call_base :: u32
  sf_data_base :: u32
  sf_irq_masked :: u32
  sf_flags :: u32
  sf_ip :: u32
  sf_regs :: "u32 list"

abbreviation (input) "SIGNAL_FRAME_BYTES \<equiv> (180 :: u32)"
abbreviation (input) "SCHED_SIGNAL_FRAME_MAGIC \<equiv> (0x30474953 :: u32)"
abbreviation (input) "SCHED_SIGNAL_FRAME_VERSION \<equiv> (1 :: u32)"

definition frame_words :: "signal_frame \<Rightarrow> u32 list" where
  "frame_words f = [sf_magic f, sf_version f, sf_size f, sf_signo f, sf_prev_frame f, sf_old_mask f,
     sf_csp f, sf_dsp f, sf_call_base f, sf_data_base f, sf_irq_masked f, sf_flags f, sf_ip f] @ sf_regs f"

definition sched_signal_frame_store :: "u32 \<Rightarrow> signal_frame \<Rightarrow> memory \<Rightarrow> memory" where
  "sched_signal_frame_store addr f m =
     fold (\<lambda>i. mem_write32 (addr + 4 * of_nat i) (frame_words f ! i)) [0..<45] m"

definition sched_signal_frame_load :: "u32 \<Rightarrow> memory \<Rightarrow> signal_frame" where
  "sched_signal_frame_load addr m =
     (let w = (\<lambda>i. mem_read32 m (addr + 4 * of_nat i)) in
      \<lparr>sf_magic = w 0, sf_version = w 1, sf_size = w 2, sf_signo = w 3, sf_prev_frame = w 4,
       sf_old_mask = w 5, sf_csp = w 6, sf_dsp = w 7, sf_call_base = w 8, sf_data_base = w 9,
       sf_irq_masked = w 10, sf_flags = w 11, sf_ip = w 12, sf_regs = map w [13..<45]\<rparr>)"

subsection \<open>Delivery and return\<close>

text \<open>The loop that takes pending signals, lowest first, until one needs an action: the signal
  taken and the pending set that is left.\<close>

function next_signal :: "(nat \<Rightarrow> sched_sigaction) \<Rightarrow> u32 \<Rightarrow> u32 \<Rightarrow> u32 \<times> nat option" where
  "next_signal act blocked pending =
     (let deliverable = pending AND NOT blocked in
      if deliverable = 0 then (pending, None)
      else case find (\<lambda>sig. deliverable AND sched_signal_bit sig \<noteq> 0) [1..<SCHED_SIGNAL_MAX + 1] of
        None \<Rightarrow> (pending, None)
      | Some sig \<Rightarrow>
          let pending = pending AND NOT (sched_signal_bit sig); h = sa_handler (act sig)
          in if h = SCHED_SIGNAL_IGN \<or> h = SCHED_SIGNAL_DFL \<and> \<not> sched_signal_is_default_terminate sig
             then next_signal act blocked pending else (pending, Some sig))"
  by pat_completeness auto

lemma drop_signal_less:
  assumes "(p AND NOT blocked) AND sched_signal_bit sig \<noteq> 0"
  shows "unat (p AND NOT (sched_signal_bit sig)) < unat p"
proof -
  have "p AND NOT (sched_signal_bit sig) \<noteq> p"
    using assms by (metis (no_types, opaque_lifting) and.assoc and.commute and.left_commute
        bit.conj_cancel_right and_zero_eq)
  moreover have "p AND NOT (sched_signal_bit sig) \<le> p" by (rule word_and_le2)
  ultimately show ?thesis by (simp add: word_less_nat_alt [symmetric])
qed

termination next_signal
  by (relation "measure (\<lambda>(_, _, p). unat p)") (auto simp: find_upt_Some drop_signal_less)

declare next_signal.simps [simp del]

definition handler_usable :: "sched_sigaction \<Rightarrow> irq_user_context \<Rightarrow> bool" where
  "handler_usable a ctx \<longleftrightarrow>
     sched_signal_user_code_addr (sa_handler a) \<and> sched_signal_user_code_addr (sa_restorer a) \<and>
     cx_csp ctx \<noteq> 0 \<and> cx_csp ctx \<le> VM_CALL_STACK_ENTRIES \<and> cx_dsp ctx \<le> VM_DATA_STACK_ENTRIES \<and>
     sched_signal_arch_stack_valid (cx_call_base ctx) VM_CALL_STACK_BYTES \<and>
     sched_signal_arch_stack_valid (cx_data_base ctx) VM_DATA_STACK_BYTES \<and>
     cx_regs ctx ! 30 \<ge> USER_STACK_TOP - USER_STACK_RESERVE + SIGNAL_FRAME_BYTES \<and>
     cx_regs ctx ! 30 \<le> USER_STACK_TOP"

definition signal_frame_addr :: "irq_user_context \<Rightarrow> u32" where
  "signal_frame_addr ctx = (cx_regs ctx ! 30 - SIGNAL_FRAME_BYTES) AND NOT 0xF"

definition make_frame :: "nat \<Rightarrow> irq_user_context \<Rightarrow> task_slot \<Rightarrow> signal_frame" where
  "make_frame sig ctx t =
     \<lparr>sf_magic = SCHED_SIGNAL_FRAME_MAGIC, sf_version = SCHED_SIGNAL_FRAME_VERSION,
      sf_size = SIGNAL_FRAME_BYTES, sf_signo = of_nat sig, sf_prev_frame = sig_frame_top t,
      sf_old_mask = sig_mask t, sf_csp = cx_csp ctx, sf_dsp = cx_dsp ctx,
      sf_call_base = cx_call_base ctx, sf_data_base = cx_data_base ctx,
      sf_irq_masked = cx_irq_masked ctx, sf_flags = cx_flags ctx, sf_ip = cx_ip ctx,
      sf_regs = cx_regs ctx\<rparr>"

definition enter_handler :: "nat \<Rightarrow> sched_sigaction \<Rightarrow> irq_user_context \<Rightarrow> irq_user_context" where
  "enter_handler sig a ctx =
     ctx\<lparr>cx_csp := cx_csp ctx - 1,
         cx_regs := (cx_regs ctx)[0 := of_nat sig, 1 := signal_frame_addr ctx, 30 := signal_frame_addr ctx],
         cx_ip := sa_handler a\<rparr>"

definition sched_signal_deliver_pending :: "nat \<Rightarrow> kstate \<Rightarrow> kstate" where
  "sched_signal_deliver_pending cpu k =
     (case irq_user_context_get cpu k of
        None \<Rightarrow> k
      | Some ctx \<Rightarrow>
        (case live_current k cpu of
           None \<Rightarrow> k
         | Some i \<Rightarrow>
           if kind (pub (task k i)) \<noteq> KIND_USER then k
           else case next_signal (\<lambda>sig. sig_action (task k i) ! sig) (sig_mask (task k i))
                       (sig_pending (task k i)) of
             (pending, found) \<Rightarrow>
               let k = upd_task i (\<lambda>t. t\<lparr>sig_pending := pending\<rparr>) k in
               (case found of
                  None \<Rightarrow> k
                | Some sig \<Rightarrow>
                    let a = sig_action (task k i) ! sig; addr = signal_frame_addr ctx
                    in if sa_handler a = SCHED_SIGNAL_DFL
                       then sched_exit_code cpu (128 + (of_nat sig AND 0x7F)) k
                       else if \<not> handler_usable a ctx \<or>
                               \<not> sched_signal_user_stack_range addr SIGNAL_FRAME_BYTES
                       then sched_exit_code cpu (128 + of_nat SCHED_SIGNAL_SEGV) k
                       else let m = sched_signal_frame_store addr (make_frame sig ctx (task k i)) (k_mem k);
                                return_slot = cx_call_base ctx + (cx_csp ctx - 1) * 8;
                                m = mem_write32 (return_slot + 4) 0
                                      (mem_write32 return_slot (sa_restorer a) m);
                                k = k\<lparr>k_mem := m\<rparr>;
                                k = upd_task i (\<lambda>t. t\<lparr>
                                      sig_mask := (sig_mask t OR sa_mask a OR sched_signal_bit sig)
                                        AND NOT sched_signal_uncatchable_mask,
                                      sig_frame_top := addr\<rparr>) k
                            in case irq_user_context_set cpu (enter_handler sig a ctx) k of
                                 (k, rc) \<Rightarrow>
                                   if rc \<noteq> 0 then sched_exit_code cpu (128 + of_nat SCHED_SIGNAL_SEGV) k
                                   else k)))"

definition frame_ok :: "signal_frame \<Rightarrow> bool" where
  "frame_ok f \<longleftrightarrow>
     sf_magic f = SCHED_SIGNAL_FRAME_MAGIC \<and> sf_version f = SCHED_SIGNAL_FRAME_VERSION \<and>
     sf_size f = SIGNAL_FRAME_BYTES \<and> sched_signal_user_code_addr (sf_ip f) \<and>
     sf_regs f ! 30 \<ge> USER_STACK_TOP - USER_STACK_RESERVE \<and> sf_regs f ! 30 \<le> USER_STACK_TOP \<and>
     sf_csp f \<le> VM_CALL_STACK_ENTRIES \<and> sf_dsp f \<le> VM_DATA_STACK_ENTRIES \<and>
     sched_signal_arch_stack_valid (sf_call_base f) VM_CALL_STACK_BYTES \<and>
     sched_signal_arch_stack_valid (sf_data_base f) VM_DATA_STACK_BYTES \<and>
     (sf_prev_frame f \<noteq> 0 \<longrightarrow> sched_signal_user_stack_range (sf_prev_frame f) SIGNAL_FRAME_BYTES)"

definition frame_context :: "signal_frame \<Rightarrow> irq_user_context" where
  "frame_context f =
     \<lparr>cx_regs = sf_regs f, cx_flags = sf_flags f, cx_ip = sf_ip f, cx_csp = sf_csp f,
      cx_dsp = sf_dsp f, cx_call_base = sf_call_base f, cx_data_base = sf_data_base f,
      cx_irq_masked = sf_irq_masked f\<rparr>"

definition sched_signal_sigreturn :: "nat \<Rightarrow> u32 \<Rightarrow> kstate \<Rightarrow> kstate \<times> int" where
  "sched_signal_sigreturn cpu frame_addr k =
     (if irq_user_context_get cpu k = None \<or>
         \<not> sched_signal_user_stack_range frame_addr SIGNAL_FRAME_BYTES
      then (k, SCHED_SIGNAL_EINVAL)
      else case live_current k cpu of
        None \<Rightarrow> (k, SCHED_SIGNAL_EINVAL)
      | Some i \<Rightarrow>
          if kind (pub (task k i)) \<noteq> KIND_USER \<or> sig_frame_top (task k i) \<noteq> frame_addr
          then (k, SCHED_SIGNAL_EINVAL)
          else let f = sched_signal_frame_load frame_addr (k_mem k)
          in if \<not> frame_ok f then (k, SCHED_SIGNAL_EINVAL)
             else let k = upd_task i (\<lambda>t. t\<lparr>
                          sig_mask := sf_old_mask f AND NOT sched_signal_uncatchable_mask,
                          sig_frame_top := sf_prev_frame f\<rparr>) k
             in case irq_user_context_set cpu (frame_context f) k of
                  (k, rc) \<Rightarrow> if rc \<noteq> 0 then (k, SCHED_SIGNAL_EINVAL) else (k, SCHED_SIGNAL_OK))"

end
