(* ===== verification/Sched_Inv.thy ===== *)
theory Sched_Inv
  imports Sched_Signal
begin

text \<open>
  The invariant of the scheduler. It says how the task table, the run queues, the wait queues,
  the map of stacks and the processors' control agree. It reads of a task only the components
  in \<open>sched_view\<close>, so an update of any other field keeps it (\<open>kinv_cong\<close>). The lemmas on the
  building blocks of the operations (changing a state together with the run queue, entering and
  leaving a wait queue, entering and leaving a processor, taking and freeing a slot) are
  composed in theory \<open>Sched_Steps\<close>.
\<close>

subsection \<open>Reading an updated state\<close>

lemma upd_task_sel [simp]:
  "k_tasks (upd_task i f k) = (k_tasks k)[i := f (k_tasks k ! i)]"
  "k_current (upd_task i f k) = k_current k" "k_runq (upd_task i f k) = k_runq k"
  "k_online (upd_task i f k) = k_online k" "k_ctl (upd_task i f k) = k_ctl k"
  "k_waitqs (upd_task i f k) = k_waitqs k" "k_stack_bitmap (upd_task i f k) = k_stack_bitmap k"
  "k_stack_reserved (upd_task i f k) = k_stack_reserved k" "k_ticks (upd_task i f k) = k_ticks k"
  "k_live (upd_task i f k) = k_live k" "k_sched_ctx (upd_task i f k) = k_sched_ctx k"
  "k_mem (upd_task i f k) = k_mem k" "k_irq_saved (upd_task i f k) = k_irq_saved k"
  "k_pipes (upd_task i f k) = k_pipes k" "k_next_tid (upd_task i f k) = k_next_tid k"
  "k_spawn_rr (upd_task i f k) = k_spawn_rr k" "k_need_resched (upd_task i f k) = k_need_resched k"
  "k_irq_from_user (upd_task i f k) = k_irq_from_user k"
  "k_irq_frame_masked (upd_task i f k) = k_irq_frame_masked k"
  "k_vfork_valid (upd_task i f k) = k_vfork_valid k" "k_vfork_child (upd_task i f k) = k_vfork_child k"
  by (simp_all add: upd_task_def)

lemma upd_runq_sel [simp]:
  "k_runq (upd_runq c f k) = (k_runq k)[c := f (k_runq k ! c)]"
  "k_tasks (upd_runq c f k) = k_tasks k" "k_current (upd_runq c f k) = k_current k"
  "k_online (upd_runq c f k) = k_online k" "k_ctl (upd_runq c f k) = k_ctl k"
  "k_waitqs (upd_runq c f k) = k_waitqs k" "k_stack_bitmap (upd_runq c f k) = k_stack_bitmap k"
  "k_stack_reserved (upd_runq c f k) = k_stack_reserved k" "k_ticks (upd_runq c f k) = k_ticks k"
  "k_live (upd_runq c f k) = k_live k" "k_sched_ctx (upd_runq c f k) = k_sched_ctx k"
  "k_mem (upd_runq c f k) = k_mem k" "k_irq_saved (upd_runq c f k) = k_irq_saved k"
  "k_pipes (upd_runq c f k) = k_pipes k" "k_need_resched (upd_runq c f k) = k_need_resched k"
  by (simp_all add: upd_runq_def)

lemma cap_cong [simp]:
  "sched_cpu_cap (upd_task i f k) = sched_cpu_cap k"
  "sched_cpu_cap (upd_runq c g k) = sched_cpu_cap k"
  by (simp_all add: sched_cpu_cap_def)

lemma cpu_cap_le: "sched_cpu_cap k \<le> 32" "0 < sched_cpu_cap k"
  by (simp_all add: sched_cpu_cap_def Let_def)

lemma cpu_normalize_id [simp]: "c < sched_cpu_cap k \<Longrightarrow> sched_cpu_normalize k c = c"
  by (simp add: sched_cpu_normalize_def)

subsection \<open>The invariant\<close>

definition sched_view :: "task_slot \<Rightarrow>
    (bool \<times> bool \<times> task_state \<times> nat) \<times> (bool \<times> waitq_ref option \<times> u32 list) \<times> (bool \<times> nat)" where
  "sched_view t = ((used t, is_idle t, state (pub t), run_cpu t),
     (entry t \<noteq> 0, waitq t, child_waitq t), (sc_valid (stack_ctx t), sc_pool_slot (stack_ctx t)))"

text \<open>A task in a wait queue is asleep: whoever changes its state in another way has detached it.\<close>

abbreviation asleep :: "task_state \<Rightarrow> bool" where
  "asleep st \<equiv> st = BLOCKED \<or> st = SLEEPING"

abbreviation live_task :: "kstate \<Rightarrow> nat \<Rightarrow> bool" where
  "live_task k i \<equiv> 0 < i \<and> i < 64 \<and> used (task k i)"

abbreviation on_cpu :: "kstate \<Rightarrow> nat \<Rightarrow> nat \<Rightarrow> bool" where
  "on_cpu k c i \<equiv> k_ctl k ! c = C_task i \<or> k_ctl k ! c = C_back i"

definition shape_ok :: "kstate \<Rightarrow> bool" where
  "shape_ok k \<longleftrightarrow> length (k_tasks k) = 64 \<and> length (k_current k) = 32 \<and> length (k_runq k) = 32 \<and>
     length (k_ctl k) = 32 \<and> (\<forall>b \<in> set (k_runq k). bits2_wf b) \<and>
     used (task k 0) \<and> is_idle (task k 0) \<and> state (pub (task k 0)) = RUNNABLE \<and> (\<forall>i. 0 < i \<and> i < 64 \<longrightarrow> \<not> is_idle (task k i))"

definition runq_ok :: "kstate \<Rightarrow> bool" where
  "runq_ok k \<longleftrightarrow> (\<forall>c < 32. \<forall>i. 0 < i \<and> i < 64 \<longrightarrow>
     (runq_bit_tst (k_runq k ! c) i \<longleftrightarrow>
       used (task k i) \<and> state (pub (task k i)) = RUNNABLE \<and> run_cpu (task k i) = c))"

definition cpu_state_ok :: "kstate \<Rightarrow> bool" where
  "cpu_state_ok k \<longleftrightarrow>
     (\<forall>i. live_task k i \<longrightarrow> run_cpu (task k i) < sched_cpu_cap k \<and> entry (task k i) \<noteq> 0) \<and>
     (\<forall>c < 32. k_ctl k ! c = C_loop \<longrightarrow> k_current k ! c = 0) \<and>
     (\<forall>c < 32. \<forall>i. on_cpu k c i \<longrightarrow>
        c < sched_cpu_cap k \<and> live_task k i \<and> k_current k ! c = i \<and> run_cpu (task k i) = c) \<and>
     (\<forall>i. live_task k i \<and> state (pub (task k i)) = RUNNING \<longrightarrow> on_cpu k (run_cpu (task k i)) i)"

primrec waitq_valid :: "kstate \<Rightarrow> waitq_ref \<Rightarrow> bool" where
  "waitq_valid k (Child_waitq j) = (j < 64)"
| "waitq_valid k (Ext_waitq n) = (n < length (k_waitqs k))"

definition waitq_ok :: "kstate \<Rightarrow> bool" where
  "waitq_ok k \<longleftrightarrow>
     (\<forall>q. waitq_valid k q \<longrightarrow> bits2_wf (waitq_bits k q) \<and>
        (\<forall>i < 64. waitq_test_bit (waitq_bits k q) i \<noteq> 0 \<longleftrightarrow> waitq (task k i) = Some q)) \<and>
     (\<forall>i < 64. \<forall>q. waitq (task k i) = Some q \<longrightarrow>
        waitq_valid k q \<and> used (task k i) \<and> asleep (state (pub (task k i))) \<and>
        (\<forall>j. q = Child_waitq j \<longrightarrow> j = i))"

definition stack_ok :: "kstate \<Rightarrow> bool" where
  "stack_ok k \<longleftrightarrow> k_stack_reserved k \<le> 64 \<and> bits2_wf (k_stack_bitmap k) \<and>
     (\<forall>i. live_task k i \<longrightarrow> sc_valid (stack_ctx (task k i)) \<and>
        k_stack_reserved k \<le> sc_pool_slot (stack_ctx (task k i)) \<and> sc_pool_slot (stack_ctx (task k i)) < 64) \<and>
     (\<forall>i j. live_task k i \<and> live_task k j \<and>
        sc_pool_slot (stack_ctx (task k i)) = sc_pool_slot (stack_ctx (task k j)) \<longrightarrow> i = j) \<and>
     (\<forall>s. k_stack_reserved k \<le> s \<and> s < 64 \<longrightarrow>
        (sched_stack_bitmap_tst (k_stack_bitmap k) s \<noteq> 0 \<longleftrightarrow>
          (\<exists>i. live_task k i \<and> sc_pool_slot (stack_ctx (task k i)) = s)))"

definition kinv :: "kstate \<Rightarrow> bool" where
  "kinv k \<longleftrightarrow> shape_ok k \<and> runq_ok k \<and> cpu_state_ok k \<and> waitq_ok k \<and> stack_ok k"

lemmas kinv_parts = shape_ok_def runq_ok_def cpu_state_ok_def waitq_ok_def stack_ok_def

subsection \<open>What it reads\<close>

lemma sched_viewD:
  assumes "sched_view t = sched_view t'"
  shows "used t = used t'" "is_idle t = is_idle t'" "state (pub t) = state (pub t')"
    "run_cpu t = run_cpu t'" "(entry t \<noteq> 0) = (entry t' \<noteq> 0)" "waitq t = waitq t'"
    "child_waitq t = child_waitq t'" "sc_valid (stack_ctx t) = sc_valid (stack_ctx t')"
    "sc_pool_slot (stack_ctx t) = sc_pool_slot (stack_ctx t')"
  using assms by (simp_all add: sched_view_def)

definition same_sched :: "kstate \<Rightarrow> kstate \<Rightarrow> bool" where
  "same_sched k k' \<longleftrightarrow> map sched_view (k_tasks k') = map sched_view (k_tasks k) \<and>
     k_current k' = k_current k \<and> k_runq k' = k_runq k \<and> k_online k' = k_online k \<and>
     k_ctl k' = k_ctl k \<and> k_waitqs k' = k_waitqs k \<and> k_stack_bitmap k' = k_stack_bitmap k \<and>
     k_stack_reserved k' = k_stack_reserved k"

lemma same_sched_refl [simp]: "same_sched k k"
  by (simp add: same_sched_def)

lemma same_sched_trans: "same_sched k k' \<Longrightarrow> same_sched k' k'' \<Longrightarrow> same_sched k k''"
  by (simp add: same_sched_def)

lemma same_sched_upd:
  assumes "\<And>t. sched_view (f t) = sched_view t"
  shows "same_sched k (upd_task i f k)"
proof -
  have "map sched_view ((k_tasks k)[i := f (k_tasks k ! i)]) = map sched_view (k_tasks k)"
    by (cases "i < length (k_tasks k)") (simp_all add: map_update assms list_update_same_conv list_update_beyond)
  then show ?thesis by (simp add: same_sched_def)
qed

lemma same_sched_task:
  assumes "same_sched k k'" "length (k_tasks k) = 64" "i < 64"
  shows "sched_view (task k' i) = sched_view (task k i)"
proof -
  have e: "map sched_view (k_tasks k') = map sched_view (k_tasks k)"
    using assms(1) by (simp add: same_sched_def)
  then have "length (k_tasks k') = 64" using assms(2) by (metis length_map)
  with e assms(2,3) show ?thesis by (metis nth_map)
qed

lemma kinv_cong:
  assumes kinv: "kinv k" and s: "same_sched k k'"
  shows "kinv k'"
proof -
  have len: "length (k_tasks k) = 64" using kinv by (simp add: kinv_def shape_ok_def)
  have len': "length (k_tasks k') = 64"
    using s len unfolding same_sched_def by (metis length_map)
  note v = sched_viewD [OF same_sched_task [OF s len]]
  have wb: "waitq_valid k' q \<Longrightarrow> waitq_bits k' q = waitq_bits k q" "waitq_valid k' q = waitq_valid k q" for q
    using s v(7) by (cases q; simp add: same_sched_def)+
  have lt: "live_task k' i = live_task k i" for i using v(1) [of i] by auto
  have cap: "sched_cpu_cap k' = sched_cpu_cap k" using s by (simp add: same_sched_def sched_cpu_cap_def)
  have sh: "shape_ok k'"
    using kinv s len' v(1,2,3) by (simp add: kinv_def shape_ok_def same_sched_def)
  moreover have "runq_ok k'"
    using kinv s v(1,3,4) by (simp add: kinv_def runq_ok_def same_sched_def)
  moreover have "cpu_state_ok k'"
    using kinv s v(1,3,4,5) cap by (simp add: kinv_def cpu_state_ok_def same_sched_def cong: conj_cong imp_cong)
  moreover have "waitq_ok k'"
    using kinv s v(1,3,6) wb by (simp add: kinv_def waitq_ok_def same_sched_def)
  moreover have "stack_ok k'"
    using kinv s v(1,8,9) by (simp add: kinv_def stack_ok_def same_sched_def cong: conj_cong imp_cong)
  ultimately show ?thesis by (simp add: kinv_def)
qed

subsection \<open>Changing a task's state together with its run queue\<close>

lemma task_upd: "task (upd_task i f k) j = (if i = j \<and> j < length (k_tasks k) then f (task k j) else task k j)"
  by (simp add: nth_update)

lemma kinv_lens:
  assumes "kinv k"
  shows "length (k_tasks k) = 64" "length (k_current k) = 32" "length (k_runq k) = 32"
    "length (k_ctl k) = 32" "c < 32 \<Longrightarrow> bits2_wf (k_runq k ! c)"
  using assms by (simp_all add: kinv_def shape_ok_def)

lemma kinv_live:
  assumes "kinv k" "0 < i" "i < 64"
  shows "\<not> is_idle (task k i)"
    and "used (task k i) \<Longrightarrow> run_cpu (task k i) < sched_cpu_cap k"
    and "used (task k i) \<Longrightarrow> run_cpu (task k i) < 32"
    and "used (task k i) \<Longrightarrow> entry (task k i) \<noteq> 0"
    and "used (task k i) \<Longrightarrow> sc_valid (stack_ctx (task k i))"
  using assms cpu_cap_le(1) [of k]
  by (auto simp: kinv_def shape_ok_def cpu_state_ok_def stack_ok_def intro: less_le_trans)

lemma kinv_on_cpu:
  assumes "kinv k" "c < 32" "on_cpu k c i"
  shows "0 < i" "i < 64" "used (task k i)" "k_current k ! c = i" "run_cpu (task k i) = c" "c < sched_cpu_cap k"
  using assms unfolding kinv_def cpu_state_ok_def by blast+

lemma kinv_running:
  assumes "kinv k" "live_task k i" "state (pub (task k i)) = RUNNING"
  shows "on_cpu k (run_cpu (task k i)) i"
  using assms by (auto simp: kinv_def cpu_state_ok_def)

lemma kinv_loop: "kinv k \<Longrightarrow> c < 32 \<Longrightarrow> k_ctl k ! c = C_loop \<Longrightarrow> k_current k ! c = 0"
  by (simp add: kinv_def cpu_state_ok_def)

lemma waitq_bits_upd:
  assumes "\<And>t. child_waitq (f t) = child_waitq t"
  shows "waitq_bits (upd_task i f k) q = waitq_bits k q"
  using assms by (cases q) (simp_all add: nth_update)

text \<open>A state that differs from one with the invariant in the state of one task and in that
  task's bit of its run queue.\<close>

definition restated :: "task_state \<Rightarrow> nat \<Rightarrow> kstate \<Rightarrow> kstate \<Rightarrow> bool" where
  "restated st i k k' \<longleftrightarrow> same_sched (upd_runq (run_cpu (task k i))
       (\<lambda>b. if st = RUNNABLE then runq_bit_add b i else runq_bit_del b i) (upd_task i (set_state st) k)) k'"

lemma set_state_sel [simp]:
  "used (set_state st t) = used t" "is_idle (set_state st t) = is_idle t"
  "state (pub (set_state st t)) = st" "run_cpu (set_state st t) = run_cpu t"
  "entry (set_state st t) = entry t" "waitq (set_state st t) = waitq t"
  "child_waitq (set_state st t) = child_waitq t" "stack_ctx (set_state st t) = stack_ctx t"
  "kind (pub (set_state st t)) = kind (pub t)" "wake_tick (pub (set_state st t)) = wake_tick (pub t)"
  "tid (pub (set_state st t)) = tid (pub t)" "pid (pub (set_state st t)) = pid (pub t)"
  "saved_user (set_state st t) = saved_user t" "parent_tid (set_state st t) = parent_tid t"
  by (simp_all add: set_state_def)

lemma restate_core:
  assumes inv: "kinv k" and i: "live_task k i"
    and st: "st = RUNNING \<Longrightarrow> on_cpu k (run_cpu (task k i)) i" "\<not> asleep st \<Longrightarrow> waitq (task k i) = None"
  shows "kinv (upd_runq (run_cpu (task k i))
       (\<lambda>b. if st = RUNNABLE then runq_bit_add b i else runq_bit_del b i) (upd_task i (set_state st) k))"
proof -
  let ?c = "run_cpu (task k i)"
  define k' where "k' = upd_runq ?c
       (\<lambda>b. if st = RUNNABLE then runq_bit_add b i else runq_bit_del b i) (upd_task i (set_state st) k)"
  note len = kinv_lens [OF inv]
  have c: "?c < 32" using kinv_live(3) [OF inv] i by auto
  have t: "task k' j = (if j = i then set_state st (task k i) else task k j)" for j
    using i len(1) by (auto simp: k'_def nth_update)
  have r: "k_runq k' ! d = (if d = ?c then if st = RUNNABLE then runq_bit_add (k_runq k ! d) i
      else runq_bit_del (k_runq k ! d) i else k_runq k ! d)" if "d < 32" for d
    using c that len(3) by (auto simp: k'_def nth_update)
  have wb: "waitq_bits k' q = waitq_bits k q" for q
    by (cases q) (simp_all add: k'_def nth_update)
  have wv: "waitq_valid k' q = waitq_valid k q" for q by (cases q) (simp_all add: k'_def)
  have o: "k_ctl k' = k_ctl k" "k_current k' = k_current k" "sched_cpu_cap k' = sched_cpu_cap k"
    "k_stack_reserved k' = k_stack_reserved k" "k_stack_bitmap k' = k_stack_bitmap k"
    "length (k_tasks k') = 64" "length (k_runq k') = 32"
    by (simp_all add: k'_def len)
  have "bits2_wf b" if "b \<in> set (k_runq k')" for b
    using that len(5) c o(7) by (auto simp: in_set_conv_nth r bits2_op_defs)
  then have "shape_ok k'" using inv i by (auto simp: kinv_def shape_ok_def t o)
  moreover have "runq_ok k'"
    using inv len i unfolding kinv_def runq_ok_def
    by (auto simp: t r rq.mem_ins rq.mem_del)
  moreover have "cpu_state_ok k'"
    using inv st(1) unfolding kinv_def cpu_state_ok_def by (auto simp: t o)
  moreover have "waitq_ok k'"
  proof -
    have "asleep st \<or> waitq (task k i) = None" using st(2) by metis
    then show ?thesis using inv unfolding kinv_def waitq_ok_def wb wv by (auto simp: t)
  qed
  moreover have "stack_ok k'"
  proof -
    have "stack_ctx (task k' j) = stack_ctx (task k j)" "used (task k' j) = used (task k j)" for j
      by (simp_all add: t)
    then show ?thesis using inv by (simp add: kinv_def stack_ok_def o)
  qed
  ultimately show ?thesis by (simp add: kinv_def k'_def)
qed

lemma kinv_restated:
  assumes "kinv k" "live_task k i" "restated st i k k'"
    and "st = RUNNING \<Longrightarrow> on_cpu k (run_cpu (task k i)) i" "\<not> asleep st \<Longrightarrow> waitq (task k i) = None"
  shows "kinv k'"
  using kinv_cong [OF restate_core [OF assms(1,2,4,5)]] assms(3) by (auto simp: restated_def)

subsection \<open>Wait queues\<close>

lemma kinv_waitq:
  assumes "kinv k" "i < 64" "waitq (task k i) = Some q"
  shows "waitq_valid k q" "used (task k i)" "asleep (state (pub (task k i)))" "q = Child_waitq j \<Longrightarrow> j = i"
  using assms by (auto simp: kinv_def waitq_ok_def)

lemma awake_no_waitq:
  assumes "kinv k" "i < 64" "\<not> asleep (state (pub (task k i)))"
  shows "waitq (task k i) = None"
  using kinv_waitq(3) [OF assms(1,2)] assms(3) by (cases "waitq (task k i)") simp_all

lemma kinv_waitq_mem:
  "kinv k \<Longrightarrow> waitq_valid k q \<Longrightarrow> i < 64 \<Longrightarrow>
    waitq_test_bit (waitq_bits k q) i \<noteq> 0 \<longleftrightarrow> waitq (task k i) = Some q"
  by (simp add: kinv_def waitq_ok_def)

lemma upd_waitq_sel [simp]:
  "k_current (upd_waitq q f k) = k_current k" "k_runq (upd_waitq q f k) = k_runq k"
  "k_online (upd_waitq q f k) = k_online k" "k_ctl (upd_waitq q f k) = k_ctl k"
  "k_stack_bitmap (upd_waitq q f k) = k_stack_bitmap k" "k_ticks (upd_waitq q f k) = k_ticks k"
  "k_stack_reserved (upd_waitq q f k) = k_stack_reserved k" "k_live (upd_waitq q f k) = k_live k"
  "length (k_tasks (upd_waitq q f k)) = length (k_tasks k)"
  "length (k_waitqs (upd_waitq q f k)) = length (k_waitqs k)"
  by (cases q; simp)+

lemma upd_waitq_task [simp]:
  "sched_view (task (upd_waitq q f k) j) = sched_view (task k j) \<or> q = Child_waitq j"
  "used (task (upd_waitq q f k) j) = used (task k j)"
  "is_idle (task (upd_waitq q f k) j) = is_idle (task k j)"
  "pub (task (upd_waitq q f k) j) = pub (task k j)"
  "run_cpu (task (upd_waitq q f k) j) = run_cpu (task k j)"
  "entry (task (upd_waitq q f k) j) = entry (task k j)"
  "waitq (task (upd_waitq q f k) j) = waitq (task k j)"
  "stack_ctx (task (upd_waitq q f k) j) = stack_ctx (task k j)"
  "parent_tid (task (upd_waitq q f k) j) = parent_tid (task k j)"
  by (cases q; auto simp: nth_update)+

lemma upd_waitq_bits:
  assumes "waitq_valid k q" "length (k_tasks k) = 64"
  shows "waitq_bits (upd_waitq q f k) q' = (if q' = q then f (waitq_bits k q) else waitq_bits k q')"
  using assms by (cases q; cases q') (auto simp: nth_update)

text \<open>Setting a task's queue and changing its bit there: \<open>g\<close> inserts or removes.\<close>

lemma requeue_core:
  assumes inv: "kinv k" and i: "live_task k i" and q: "waitq_valid k q"
    and own: "\<And>j. q = Child_waitq j \<Longrightarrow> j = i"
    and g: "\<And>b. bits2_wf b \<Longrightarrow> bits2_wf (g b)"
      "\<And>b j. bits2_wf b \<Longrightarrow> j < 64 \<Longrightarrow>
         waitq_test_bit (g b) j \<noteq> 0 \<longleftrightarrow> (if j = i then w = Some q else waitq_test_bit b j \<noteq> 0)"
    and w: "w = None \<and> waitq (task k i) = Some q \<or>
      w = Some q \<and> waitq (task k i) = None \<and> asleep (state (pub (task k i)))"
    and t1: "\<And>j. used (task k' j) = used (task k j) \<and> is_idle (task k' j) = is_idle (task k j) \<and>
      state (pub (task k' j)) = state (pub (task k j)) \<and> run_cpu (task k' j) = run_cpu (task k j) \<and>
      entry (task k' j) = entry (task k j) \<and> stack_ctx (task k' j) = stack_ctx (task k j)"
    and t2: "\<And>j. waitq (task k' j) = (if j = i then w else waitq (task k j))"
    and b: "\<And>q'. waitq_bits k' q' = (if q' = q then g (waitq_bits k q) else waitq_bits k q')"
    and o: "k_ctl k' = k_ctl k" "k_current k' = k_current k" "sched_cpu_cap k' = sched_cpu_cap k"
      "k_stack_reserved k' = k_stack_reserved k" "k_stack_bitmap k' = k_stack_bitmap k"
      "k_runq k' = k_runq k" "length (k_tasks k') = 64" "length (k_waitqs k') = length (k_waitqs k)"
  shows "kinv k'"
proof -
  have wv: "waitq_valid k' q' = waitq_valid k q'" for q' by (cases q') (simp_all add: o)
  have "shape_ok k'" using inv by (simp add: kinv_def shape_ok_def t1 o)
  moreover have "runq_ok k'" using inv by (simp add: kinv_def runq_ok_def t1 o)
  moreover have "cpu_state_ok k'"
    using inv by (simp add: kinv_def cpu_state_ok_def t1 o cong: conj_cong imp_cong)
  moreover have "stack_ok k'" using inv by (simp add: kinv_def stack_ok_def t1 o)
  moreover have "waitq_ok k'"
  proof -
    have 1: "bits2_wf (waitq_bits k q')" if "waitq_valid k q'" for q'
      using inv that by (simp add: kinv_def waitq_ok_def)
    have 2: "waitq_test_bit (waitq_bits k' q') j \<noteq> 0 \<longleftrightarrow> waitq (task k' j) = Some q'"
      if "waitq_valid k q'" "j < 64" for q' j
      using kinv_waitq_mem [OF inv that(1,2)] g(2) [OF 1 [OF q] that(2)] w by (auto simp: b t2)
    show ?thesis
      unfolding waitq_ok_def wv
    proof (intro conjI allI impI)
      fix q' assume "waitq_valid k q'"
      then show "bits2_wf (waitq_bits k' q')" using 1 by (auto simp: b intro: g(1))
      fix j :: nat assume "j < 64"
      then show "(waitq_test_bit (waitq_bits k' q') j \<noteq> 0) = (waitq (task k' j) = Some q')"
        using 2 \<open>waitq_valid k q'\<close> by simp
    next
      fix j q' assume j: "j < 64" "waitq (task k' j) = Some q'"
      show "waitq_valid k q'" "used (task k' j)" "asleep (state (pub (task k' j)))"
        using j w i q kinv_waitq [OF inv j(1)] by (auto simp: t1 t2 split: if_splits)
      fix l assume "q' = Child_waitq l"
      then show "l = j" using j w own kinv_waitq(4) [OF inv j(1)] by (auto simp: t2 split: if_splits)
    qed
  qed
  ultimately show ?thesis by (simp add: kinv_def)
qed

lemma kinv_enter_waitq:
  assumes inv: "kinv k" and i: "live_task k i" and q: "waitq_valid k q"
    and own: "\<And>j. q = Child_waitq j \<Longrightarrow> j = i"
    and n: "waitq (task k i) = None" "asleep (state (pub (task k i)))"
  shows "kinv (enter_waitq i q k)"
proof (rule requeue_core [OF inv i q own, where g = "\<lambda>b. waitq_set_bit b i" and w = "Some q"])
  let ?k = "upd_task i (\<lambda>t. t\<lparr>waitq := Some q\<rparr>) k"
  have len: "length (k_tasks ?k) = 64" using kinv_lens(1) [OF inv] by simp
  have v: "waitq_valid ?k q" using q by (cases q) simp_all
  show "waitq_bits (enter_waitq i q k) q' =
      (if q' = q then waitq_set_bit (waitq_bits k q) i else waitq_bits k q')" for q'
    using upd_waitq_bits [OF v len] by (simp add: enter_waitq_def waitq_bits_upd)
qed (use i n kinv_lens(1) [OF inv] in \<open>auto simp: enter_waitq_def nth_update wq.wf_ins wq.mem_ins sched_cpu_cap_def\<close>)

lemma detach_None: "waitq (task k i) = None \<Longrightarrow> sched_detach_waitq i k = k"
  by (simp add: sched_detach_waitq_def)

lemma kinv_detach:
  assumes inv: "kinv k" and i: "live_task k i"
  shows "kinv (sched_detach_waitq i k)"
proof (cases "waitq (task k i)")
  case None
  then show ?thesis using inv by (simp add: detach_None)
next
  case (Some q)
  note q = kinv_waitq [OF inv _ Some]
  have v: "waitq_valid k q" using q(1) i by simp
  show ?thesis
  proof (rule requeue_core [OF inv i v, where g = "\<lambda>b. waitq_clear_bit b i" and w = None])
    show "j = i" if "q = Child_waitq j" for j using q(4) i that by simp
    show "waitq_bits (sched_detach_waitq i k) q' =
        (if q' = q then waitq_clear_bit (waitq_bits k q) i else waitq_bits k q')" for q'
      using upd_waitq_bits [OF v kinv_lens(1) [OF inv]]
      by (simp add: sched_detach_waitq_def Some waitq_bits_upd)
  qed (use i Some kinv_lens(1) [OF inv] in
      \<open>auto simp: sched_detach_waitq_def nth_update wq.wf_del wq.mem_del sched_cpu_cap_def\<close>)
qed

subsection \<open>Entering and leaving a processor\<close>

lemma cpu_state_okD:
  assumes "cpu_state_ok k"
  shows "live_task k i \<Longrightarrow> run_cpu (task k i) < sched_cpu_cap k"
    "live_task k i \<Longrightarrow> entry (task k i) \<noteq> 0"
    "c < 32 \<Longrightarrow> k_ctl k ! c = C_loop \<Longrightarrow> k_current k ! c = 0"
    "c < 32 \<Longrightarrow> on_cpu k c i \<Longrightarrow> c < sched_cpu_cap k \<and> live_task k i \<and> k_current k ! c = i \<and> run_cpu (task k i) = c"
    "live_task k i \<Longrightarrow> state (pub (task k i)) = RUNNING \<Longrightarrow> on_cpu k (run_cpu (task k i)) i"
  using assms unfolding cpu_state_ok_def by blast+

lemma cpu_state_okI:
  assumes "\<And>i. live_task k i \<Longrightarrow> run_cpu (task k i) < sched_cpu_cap k \<and> entry (task k i) \<noteq> 0"
    "\<And>c. c < 32 \<Longrightarrow> k_ctl k ! c = C_loop \<Longrightarrow> k_current k ! c = 0"
    "\<And>c i. c < 32 \<Longrightarrow> on_cpu k c i \<Longrightarrow>
       c < sched_cpu_cap k \<and> live_task k i \<and> k_current k ! c = i \<and> run_cpu (task k i) = c"
    "\<And>i. live_task k i \<Longrightarrow> state (pub (task k i)) = RUNNING \<Longrightarrow> on_cpu k (run_cpu (task k i)) i"
  shows "cpu_state_ok k"
  using assms unfolding cpu_state_ok_def by blast

lemma kinv_cpu_change:
  assumes inv: "kinv k" and cpu: "cpu_state_ok (k\<lparr>k_current := cur, k_ctl := ctl\<rparr>)"
    and len: "length cur = 32" "length ctl = 32"
  shows "kinv (k\<lparr>k_current := cur, k_ctl := ctl\<rparr>)"
proof -
  let ?k = "k\<lparr>k_current := cur, k_ctl := ctl\<rparr>"
  have wb: "waitq_bits ?k = waitq_bits k" "waitq_valid ?k = waitq_valid k"
    by (rule ext, rename_tac q, case_tac q; simp)+
  have "shape_ok ?k" "runq_ok ?k" "stack_ok ?k"
    using inv len by (simp_all add: kinv_def shape_ok_def runq_ok_def stack_ok_def)
  moreover have "waitq_ok ?k"
    using inv unfolding kinv_def waitq_ok_def wb by simp
  ultimately show ?thesis using cpu by (simp add: kinv_def)
qed

lemma kinv_cpu_enter:
  assumes inv: "kinv k" and c: "c < sched_cpu_cap k" "k_ctl k ! c = C_loop"
    and i: "live_task k i" "run_cpu (task k i) = c"
  shows "kinv (k\<lparr>k_current := (k_current k)[c := i], k_ctl := (k_ctl k)[c := C_task i]\<rparr>)"
proof (rule kinv_cpu_change [OF inv])
  have c32: "c < 32" using c(1) cpu_cap_le(1) [of k] by simp
  note len = kinv_lens [OF inv]
  let ?k = "k\<lparr>k_current := (k_current k)[c := i], k_ctl := (k_ctl k)[c := C_task i]\<rparr>"
  have ok: "cpu_state_ok k" using inv by (simp add: kinv_def)
  have o: "sched_cpu_cap ?k = sched_cpu_cap k" "k_tasks ?k = k_tasks k" by (simp_all add: sched_cpu_cap_def)
  have l: "k_ctl ?k ! d = (if d = c then C_task i else k_ctl k ! d)"
    "k_current ?k ! d = (if d = c then i else k_current k ! d)" for d
    using c32 len by (auto simp: nth_update)
  show "cpu_state_ok ?k"
  proof (rule cpu_state_okI; unfold l o)
    fix j assume "live_task k j" "state (pub (task k j)) = RUNNING"
    then show "(if run_cpu (task k j) = c then C_task i else k_ctl k ! run_cpu (task k j)) = C_task j \<or>
        (if run_cpu (task k j) = c then C_task i else k_ctl k ! run_cpu (task k j)) = C_back j"
      using cpu_state_okD(5) [OF ok, of j] c(2) by auto
  qed (use cpu_state_okD [OF ok] c i in \<open>auto split: if_splits\<close>)
qed (use kinv_lens [OF inv] in simp_all)

lemma kinv_cpu_leave:
  assumes inv: "kinv k" and c: "c < 32" "k_ctl k ! c = C_back i" "state (pub (task k i)) \<noteq> RUNNING"
  shows "kinv (k\<lparr>k_current := (k_current k)[c := 0], k_ctl := (k_ctl k)[c := C_loop]\<rparr>)"
proof (rule kinv_cpu_change [OF inv])
  note len = kinv_lens [OF inv]
  let ?k = "k\<lparr>k_current := (k_current k)[c := 0], k_ctl := (k_ctl k)[c := C_loop]\<rparr>"
  have ok: "cpu_state_ok k" using inv by (simp add: kinv_def)
  have o: "sched_cpu_cap ?k = sched_cpu_cap k" "k_tasks ?k = k_tasks k" by (simp_all add: sched_cpu_cap_def)
  have l: "k_ctl ?k ! d = (if d = c then C_loop else k_ctl k ! d)"
    "k_current ?k ! d = (if d = c then 0 else k_current k ! d)" for d
    using c len by (auto simp: nth_update)
  show "cpu_state_ok ?k"
  proof (rule cpu_state_okI; unfold l o)
    fix j assume "live_task k j" "state (pub (task k j)) = RUNNING"
    then show "(if run_cpu (task k j) = c then C_loop else k_ctl k ! run_cpu (task k j)) = C_task j \<or>
        (if run_cpu (task k j) = c then C_loop else k_ctl k ! run_cpu (task k j)) = C_back j"
      using cpu_state_okD(5) [OF ok, of j] c by auto
  qed (use cpu_state_okD [OF ok] in \<open>auto split: if_splits\<close>)
qed (use kinv_lens [OF inv] in simp_all)

lemma kinv_cpu_back:
  assumes inv: "kinv k"
  shows "kinv (k\<lparr>k_ctl := (k_ctl k)[c := back_in_loop (k_ctl k ! c)]\<rparr>)"
proof -
  let ?k = "k\<lparr>k_current := k_current k, k_ctl := (k_ctl k)[c := back_in_loop (k_ctl k ! c)]\<rparr>"
  have ok: "cpu_state_ok k" using inv by (simp add: kinv_def)
  have o: "sched_cpu_cap ?k = sched_cpu_cap k" "k_tasks ?k = k_tasks k" "k_current ?k = k_current k"
    by (simp_all add: sched_cpu_cap_def)
  have l: "(k_ctl ?k ! d = C_loop) = (k_ctl k ! d = C_loop)" "on_cpu ?k d i = on_cpu k d i" for d i
    by (auto simp: nth_update back_in_loop_def split: cpu_ctl.splits)
  have "cpu_state_ok ?k"
    using cpu_state_okD [OF ok] by (intro cpu_state_okI; unfold l o; blast)
  from kinv_cpu_change [OF inv this] kinv_lens [OF inv] show ?thesis by simp
qed

subsection \<open>Taking and freeing a slot\<close>

text \<open>\<open>slot_changed i k k'\<close>: the two states differ, in what the invariant reads, only in slot
  \<open>i\<close>, in the bits of \<open>i\<close> in the run queues and in one bit of the stack map.\<close>

definition slot_changed :: "nat \<Rightarrow> kstate \<Rightarrow> kstate \<Rightarrow> bool" where
  "slot_changed i k k' \<longleftrightarrow> length (k_tasks k') = length (k_tasks k) \<and> (\<forall>j. j \<noteq> i \<longrightarrow> task k' j = task k j) \<and>
     k_current k' = k_current k \<and> k_online k' = k_online k \<and> k_ctl k' = k_ctl k \<and>
     k_waitqs k' = k_waitqs k \<and> k_stack_reserved k' = k_stack_reserved k"

lemma slot_changed_inv:
  assumes inv: "kinv k" and i: "0 < i" "i < 64" and ch: "slot_changed i k k'"
    and off: "\<And>c. c < 32 \<Longrightarrow> \<not> on_cpu k c i"
    and nw: "waitq (task k i) = None" "waitq (task k' i) = None" "child_waitq (task k' i) = [0, 0]"
    and idle: "\<not> is_idle (task k' i)"
    and rq: "length (k_runq k') = 32" "\<And>c. c < 32 \<Longrightarrow> bits2_wf (k_runq k' ! c)"
      "\<And>c j. c < 32 \<Longrightarrow> j < 64 \<Longrightarrow> runq_bit_tst (k_runq k' ! c) j \<longleftrightarrow>
         (if j = i then used (task k' i) \<and> run_cpu (task k' i) = c else runq_bit_tst (k_runq k ! c) j)"
    and new: "used (task k' i) \<Longrightarrow> state (pub (task k' i)) = RUNNABLE \<and>
       run_cpu (task k' i) < sched_cpu_cap k \<and> entry (task k' i) \<noteq> 0"
    and st: "stack_ok k'"
  shows "kinv k'"
proof -
  have ch: "length (k_tasks k') = 64" "\<And>j. j \<noteq> i \<Longrightarrow> task k' j = task k j" "k_current k' = k_current k"
    "sched_cpu_cap k' = sched_cpu_cap k" "k_ctl k' = k_ctl k" "k_waitqs k' = k_waitqs k"
    using ch kinv_lens(1) [OF inv] by (simp_all add: slot_changed_def sched_cpu_cap_def)
  have "bits2_wf b" if "b \<in> set (k_runq k')" for b
    using that rq(1,2) by (auto simp: in_set_conv_nth)
  then have "shape_ok k'"
    using inv ch i idle rq(1) unfolding kinv_def shape_ok_def by (metis neq0_conv)
  moreover have "runq_ok k'"
    unfolding runq_ok_def
  proof (intro allI impI)
    fix c j :: nat assume "c < 32" "0 < j \<and> j < 64"
    then show "runq_bit_tst (k_runq k' ! c) j = (used (task k' j) \<and>
        state (pub (task k' j)) = RUNNABLE \<and> run_cpu (task k' j) = c)"
      using rq(3) [of c j] new ch(2) [of j] inv by (auto simp: kinv_def runq_ok_def)
  qed
  moreover have "cpu_state_ok k'"
  proof -
    have ok: "cpu_state_ok k" using inv by (simp add: kinv_def)
    have b: "on_cpu k c j \<Longrightarrow> c < 32 \<Longrightarrow> task k' j = task k j" for c j
      using off ch(2) by (cases "j = i") auto
    show ?thesis
    proof (rule cpu_state_okI; unfold ch(3-5))
      fix j assume "live_task k' j"
      then show "run_cpu (task k' j) < sched_cpu_cap k \<and> entry (task k' j) \<noteq> 0"
        using new cpu_state_okD(1,2) [OF ok, of j] ch(2) [of j] by (cases "j = i") auto
    next
      fix j assume "live_task k' j" "state (pub (task k' j)) = RUNNING"
      then show "on_cpu k (run_cpu (task k' j)) j"
        using new cpu_state_okD(5) [OF ok, of j] ch(2) [of j] by (cases "j = i") auto
    next
      fix c j assume "c < 32" "on_cpu k c j"
      then show "c < sched_cpu_cap k \<and> live_task k' j \<and> k_current k ! c = j \<and> run_cpu (task k' j) = c"
        using cpu_state_okD(4) [OF ok] b by simp
    qed (use cpu_state_okD(3) [OF ok] in simp)
  qed
  moreover have "waitq_ok k'"
  proof -
    have cb: "bits2_wf (child_waitq (task k i))"
      and ci: "waitq_test_bit (child_waitq (task k i)) j = 0" if "j < 64" for j
    proof -
      show "bits2_wf (child_waitq (task k i))"
        using inv i unfolding kinv_def waitq_ok_def
        by (metis waitq_bits.simps(1) waitq_valid.simps(1))
      have "waitq (task k j) \<noteq> Some (Child_waitq i)"
        using kinv_waitq(4) [OF inv that] nw(1) by auto
      then show "waitq_test_bit (child_waitq (task k i)) j = 0"
        using kinv_waitq_mem [OF inv _ that, of "Child_waitq i"] i by simp
    qed
    have z: "bits2_wf [0, 0]" "j < 64 \<Longrightarrow> waitq_test_bit [0, 0] j = 0" for j
      using bits2_mem_zero [of j] waitq_test_bit_mem [of "[0, 0]" j] by (auto simp: bits2_wf_def)
    have bits: "waitq_bits k' q = (if q = Child_waitq i then [0, 0] else waitq_bits k q)" for q
      using ch(2,6) nw(3) by (cases q) auto
    have wv: "waitq_valid k' q = waitq_valid k q" for q by (cases q) (simp_all add: ch)
    have w: "waitq (task k' j) = waitq (task k j)" for j
      using ch(2) nw by (cases "j = i") auto
    have noc: "waitq (task k j) \<noteq> Some (Child_waitq i)" if "j < 64" for j
      using kinv_waitq(4) [OF inv that] nw(1) by auto
    show ?thesis
      unfolding waitq_ok_def wv w bits
    proof (intro conjI allI impI)
      fix q assume q: "waitq_valid k q"
      then show "bits2_wf (if q = Child_waitq i then [0, 0] else waitq_bits k q)"
        using inv z(1) by (simp add: kinv_def waitq_ok_def)
      fix j :: nat assume j: "j < 64"
      show "(waitq_test_bit (if q = Child_waitq i then [0, 0] else waitq_bits k q) j \<noteq> 0) =
          (waitq (task k j) = Some q)"
        using kinv_waitq_mem [OF inv q j] noc [OF j] z(2) [OF j] by auto
    next
      fix j q assume j: "j < 64" "waitq (task k j) = Some q"
      then have "j \<noteq> i" using nw(1) by auto
      then show "waitq_valid k q" "used (task k' j)" "asleep (state (pub (task k' j)))"
        "\<And>l. q = Child_waitq l \<Longrightarrow> l = j"
        using kinv_waitq [OF inv j] ch(2) by simp_all
    qed
  qed
  ultimately show ?thesis using st by (simp add: kinv_def)
qed

lemma unused_facts:
  assumes "kinv k" "0 < i" "i < 64" "\<not> used (task k i)"
  shows "waitq (task k i) = None" "c < 32 \<Longrightarrow> \<not> on_cpu k c i" "c < 32 \<Longrightarrow> \<not> runq_bit_tst (k_runq k ! c) i"
  using assms kinv_waitq(2) [OF assms(1,3)] kinv_on_cpu(3) [OF assms(1)]
  by (cases "waitq (task k i)"; auto simp: kinv_def runq_ok_def)+

end
