(* ===== verification/Sched_Steps.thy ===== *)
theory Sched_Steps
  imports Sched_Inv
begin

text \<open>
  Every operation of the scheduler keeps the invariant of theory \<open>Sched_Inv\<close>. The relation that
  any number of processors, interleaved, execute is in theory \<open>Sched_Reach\<close>.
\<close>

subsection \<open>What an operation leaves alone\<close>

definition frame :: "kstate \<Rightarrow> kstate \<Rightarrow> bool" where
  "frame k k' \<longleftrightarrow> k_ctl k' = k_ctl k \<and> k_current k' = k_current k \<and> k_online k' = k_online k \<and>
     length (k_waitqs k') = length (k_waitqs k) \<and>
     (\<forall>j. used (task k' j) = used (task k j) \<and> run_cpu (task k' j) = run_cpu (task k j) \<and>
       is_idle (task k' j) = is_idle (task k j))"

lemma frame_refl [simp]: "frame k k"
  by (simp add: frame_def)

lemma frame_trans: "frame k k' \<Longrightarrow> frame k' k'' \<Longrightarrow> frame k k''"
  by (simp add: frame_def)

lemma frame_same:
  assumes "same_sched k k'" "length (k_tasks k) = 64"
  shows "k_ctl k' = k_ctl k" "k_current k' = k_current k" "k_online k' = k_online k"
  using assms by (simp_all add: same_sched_def)

lemma frameD:
  assumes "frame k k'"
  shows "k_ctl k' = k_ctl k" "k_current k' = k_current k" "sched_cpu_cap k' = sched_cpu_cap k"
    "used (task k' j) = used (task k j)" "run_cpu (task k' j) = run_cpu (task k j)"
    "is_idle (task k' j) = is_idle (task k j)" "waitq_valid k' q = waitq_valid k q"
  using assms by (cases q; simp add: frame_def sched_cpu_cap_def)+

lemma frame_upd:
  assumes "\<And>t. used (f t) = used t \<and> run_cpu (f t) = run_cpu t \<and> is_idle (f t) = is_idle t"
  shows "frame k (upd_task i f k)"
  using assms by (simp add: frame_def nth_update)

lemma frame_upd_runq [simp]: "frame k (upd_runq c f k)"
  by (simp add: frame_def)

lemma frame_upd_waitq [simp]: "frame k (upd_waitq q f k)"
  by (simp add: frame_def)

lemma frame_current:
  "frame k k' \<Longrightarrow> sched_current_slot k' cpu = sched_current_slot k cpu"
  by (simp add: sched_current_slot_def frameD Let_def)

subsection \<open>The building blocks\<close>

lemma reset_quantum_ok [simp]: "same_sched k (reset_quantum i k)" "frame k (reset_quantum i k)"
  unfolding reset_quantum_def
  by (rule same_sched_upd, simp add: sched_view_def) (rule frame_upd, simp)

lemma set_wake_tick_ok [simp]:
  "same_sched k (upd_task i (set_wake_tick w) k)" "frame k (upd_task i (set_wake_tick w) k)"
  by (rule same_sched_upd, simp add: sched_view_def set_wake_tick_def)
    (rule frame_upd, simp add: set_wake_tick_def)

lemma mark_ok [simp]: "same_sched k (sched_mark_resched_all k)" "frame k (sched_mark_resched_all k)"
  by (simp_all add: sched_mark_resched_all_def same_sched_def frame_def)

lemma tail_ok:
  "same_sched k (sched_mark_resched_all (reset_quantum i k))"
  "frame k (sched_mark_resched_all (reset_quantum i k))"
  by (rule same_sched_trans [OF reset_quantum_ok(1) mark_ok(1)])
    (rule frame_trans [OF reset_quantum_ok(2) mark_ok(2)])

lemma wake_tail_ok:
  "same_sched k (sched_mark_resched_all (reset_quantum i (upd_task i (set_wake_tick w) k)))"
  "frame k (sched_mark_resched_all (reset_quantum i (upd_task i (set_wake_tick w) k)))"
  by (rule same_sched_trans [OF set_wake_tick_ok(1) tail_ok(1)])
    (rule frame_trans [OF set_wake_tick_ok(2) tail_ok(2)])

lemma runq_add_upd:
  "0 < i \<Longrightarrow> i < 64 \<Longrightarrow> c < sched_cpu_cap k \<Longrightarrow>
    sched_runq_add c i k = upd_runq c (\<lambda>b. runq_bit_add b i) k"
  by (simp add: sched_runq_add_def)

lemma runq_del_upd:
  "0 < i \<Longrightarrow> i < 64 \<Longrightarrow> c < sched_cpu_cap k \<Longrightarrow>
    sched_runq_del c i k = upd_runq c (\<lambda>b. runq_bit_del b i) k"
  by (simp add: sched_runq_del_def)

lemma put_runnable_restated:
  assumes "kinv k" "live_task k i" "c = run_cpu (task k i)"
  shows "restated RUNNABLE i k (put_runnable c i k)" "frame k (put_runnable c i k)"
proof -
  have "upd_task i (\<lambda>t. (set_state RUNNABLE t)\<lparr>run_cpu := c\<rparr>) k = upd_task i (set_state RUNNABLE) k"
    by (simp add: upd_task_def set_state_def assms(3))
  then have e: "put_runnable c i k = upd_runq c (\<lambda>b. runq_bit_add b i) (upd_task i (set_state RUNNABLE) k)"
    using assms kinv_live(2) [OF assms(1), of i]
    by (simp add: put_runnable_def runq_add_upd)
  then show "restated RUNNABLE i k (put_runnable c i k)"
    by (simp add: restated_def assms(3))
  show "frame k (put_runnable c i k)"
    unfolding e by (rule frame_trans [OF frame_upd frame_upd_runq]) simp
qed

lemma take_off_restated:
  assumes "kinv k" "live_task k i" "st \<noteq> RUNNABLE"
  shows "restated st i k (take_off_runq st i k)" "frame k (take_off_runq st i k)"
proof -
  have e: "take_off_runq st i k =
      upd_runq (run_cpu (task k i)) (\<lambda>b. runq_bit_del b i) (upd_task i (set_state st) k)"
    using assms kinv_live(2) [OF assms(1), of i]
    by (simp add: take_off_runq_def runq_del_upd)
  then show "restated st i k (take_off_runq st i k)"
    using assms(3) by (simp add: restated_def)
  show "frame k (take_off_runq st i k)"
    unfolding e by (rule frame_trans [OF frame_upd frame_upd_runq]) simp
qed

lemma detach_frame: "frame k (sched_detach_waitq i k)"
  by (auto simp: sched_detach_waitq_def split: option.split
      intro: frame_trans [OF frame_upd_waitq frame_upd])

lemma detach_task:
  "waitq (task (sched_detach_waitq i k) j) =
     (if j = i \<and> i < length (k_tasks k) then None else waitq (task k j)) \<or> waitq (task k i) = None"
  "pub (task (sched_detach_waitq i k) j) = pub (task k j)"
  "parent_tid (task (sched_detach_waitq i k) j) = parent_tid (task k j)"
  by (auto simp: sched_detach_waitq_def nth_update split: option.split)

lemma detach_waitq_None:
  "length (k_tasks k) = 64 \<Longrightarrow> i < 64 \<Longrightarrow> waitq (task (sched_detach_waitq i k) i) = None"
  by (auto simp: sched_detach_waitq_def nth_update split: option.split)

text \<open>An operation that keeps the invariant and the frame.\<close>

definition keeps :: "kstate \<Rightarrow> kstate \<Rightarrow> bool" where
  "keeps k k' \<longleftrightarrow> (kinv k \<longrightarrow> kinv k' \<and> frame k k')"

lemma keepsI: "(kinv k \<Longrightarrow> kinv k' \<and> frame k k') \<Longrightarrow> keeps k k'"
  by (simp add: keeps_def)

lemma keeps_refl [simp]: "keeps k k"
  by (simp add: keeps_def)

lemma keeps_trans: "keeps k k' \<Longrightarrow> keeps k' k'' \<Longrightarrow> keeps k k''"
  by (auto simp: keeps_def intro: frame_trans)

lemma keeps_same: "same_sched k k' \<Longrightarrow> frame k k' \<Longrightarrow> keeps k k'"
  by (auto simp: keeps_def intro: kinv_cong)

lemma keeps_fold:
  "(\<And>x k. x \<in> set xs \<Longrightarrow> keeps k (f x k)) \<Longrightarrow> keeps k (fold f xs k)"
proof (induction xs arbitrary: k)
  case (Cons x xs)
  then have "keeps k (f x k)" "keeps (f x k) (fold f xs (f x k))" by simp_all
  then show ?case by (simp add: keeps_trans)
qed simp

lemma same_waitq:
  assumes "same_sched k k'" "kinv k" "i < 64"
  shows "waitq (task k' i) = waitq (task k i)"
  using sched_viewD(6) [OF same_sched_task [OF assms(1) _ assms(3)]] kinv_lens(1) [OF assms(2)] by simp

lemma wake_up_keeps: "live_task k i \<Longrightarrow> keeps k (wake_up i k)"
proof (rule keepsI)
  assume inv: "kinv k" and i: "live_task k i"
  define k1 where "k1 = sched_detach_waitq i k"
  define k2 where "k2 = upd_task i (set_wake_tick 0) k1"
  have 1: "kinv k1" "frame k k1"
    using kinv_detach [OF inv i] detach_frame by (simp_all add: k1_def)
  have 2: "kinv k2" "frame k k2"
    using kinv_cong [OF 1(1)] frame_trans [OF 1(2)] by (simp_all add: k2_def)
  have i2: "live_task k2 i" using i frameD [OF 2(2)] by simp
  define c where "c = sched_cpu_normalize k2 (run_cpu (task k2 i))"
  have c: "c = run_cpu (task k2 i)" using kinv_live(2) [OF 2(1)] i2 by (simp add: c_def)
  note p = put_runnable_restated [OF 2(1) i2 c]
  have "waitq (task k2 i) = None"
    using detach_waitq_None [OF kinv_lens(1) [OF inv]] same_waitq [of k1 k2 i] 1(1) i by (simp add: k1_def k2_def)
  then have 3: "kinv (put_runnable c i k2)" using kinv_restated [OF 2(1) i2 p(1)] by simp
  have w: "wake_up i k = sched_mark_resched_all (reset_quantum i (put_runnable c i k2))"
    by (simp add: wake_up_def Let_def k1_def k2_def c_def)
  show "kinv (wake_up i k) \<and> frame k (wake_up i k)"
    unfolding w
    by (intro conjI kinv_cong [OF 3 tail_ok(1)] frame_trans [OF frame_trans [OF 2(2) p(2)] tail_ok(2)])
qed

lemma wake_slot_keeps: "0 < i \<Longrightarrow> i < 64 \<Longrightarrow> keeps k (sched_wake_slot i k)"
  by (auto simp: sched_wake_slot_def intro: wake_up_keeps)

lemma kinv_idle:
  "kinv k \<Longrightarrow> used (task k 0) \<and> is_idle (task k 0) \<and> state (pub (task k 0)) = RUNNABLE"
  by (simp add: kinv_def shape_ok_def)

lemma try_wake_keeps: "i < 64 \<Longrightarrow> keeps k (try_wake_sleeper now i k)"
proof (rule keepsI)
  assume i: "i < 64" and inv: "kinv k"
  show "kinv (try_wake_sleeper now i k) \<and> frame k (try_wake_sleeper now i k)"
  proof (cases "i = 0")
    case True
    then show ?thesis using inv kinv_idle [OF inv] by (simp add: try_wake_sleeper_def Let_def)
  next
    case False
    then show ?thesis
      using inv i wake_up_keeps [of i k] by (auto simp: try_wake_sleeper_def Let_def keeps_def)
  qed
qed

lemma try_wake_sleepers_keeps: "keeps k (sched_try_wake_sleepers now k)"
  unfolding sched_try_wake_sleepers_def by (rule keeps_fold) (simp add: try_wake_keeps)

lemma wake_if_waiting_keeps: "0 < i \<Longrightarrow> i < 64 \<Longrightarrow> keeps k (wake_if_waiting q i k)"
  by (simp add: wake_if_waiting_def wake_slot_keeps)

lemma wake_all_keeps: "keeps k (sched_waitq_wake_all q k)"
  unfolding sched_waitq_wake_all_def by (rule keeps_fold) (simp add: wake_if_waiting_keeps)

lemma wake_one_keeps: "keeps k (sched_waitq_wake_one q k)"
  by (auto simp: sched_waitq_wake_one_def find_upt_Some wake_slot_keeps split: option.split)

lemma wake_child_waiters_keeps: "keeps k (wake_child_waiters p k)"
  unfolding wake_child_waiters_def by (rule keeps_fold) (simp add: wake_if_waiting_keeps)

lemma current_live:
  assumes "kinv k" "sched_current_slot k cpu = Some i" "\<not> is_idle (task k i)"
  shows "live_task k i" "k_current k ! cpu = i"
proof -
  show "k_current k ! cpu = i" using assms(2) by (auto simp: sched_current_slot_def Let_def split: if_splits)
  have "i \<noteq> 0" using kinv_idle [OF assms(1)] assms(3) by metis
  then show "live_task k i" using assms(2) by (auto simp: sched_current_slot_def Let_def split: if_splits)
qed

lemma enter_take_off_commute:
  assumes "kinv k" "live_task k i" "\<And>j. q = Child_waitq j \<Longrightarrow> j = i"
  shows "same_sched (enter_waitq i q (take_off_runq st i k)) (take_off_runq st i (enter_waitq i q k))"
    "frame k (take_off_runq st i (enter_waitq i q k))"
proof -
  have c: "run_cpu (task k i) < sched_cpu_cap k"
    "sched_cpu_cap (enter_waitq i q k) = sched_cpu_cap k" "run_cpu (task (enter_waitq i q k) i) = run_cpu (task k i)"
    using kinv_live(2) [OF assms(1)] assms(2) by (simp_all add: enter_waitq_def sched_cpu_cap_def nth_update)
  show "same_sched (enter_waitq i q (take_off_runq st i k)) (take_off_runq st i (enter_waitq i q k))"
    using c assms kinv_lens(1) [OF assms(1)]
    by (cases q) (simp_all add: same_sched_def take_off_runq_def enter_waitq_def runq_del_upd map_update
        sched_view_def set_state_def)
  have "frame k (enter_waitq i q k)"
    unfolding enter_waitq_def by (rule frame_trans [OF frame_upd frame_upd_waitq]) simp
  moreover have "frame (enter_waitq i q k) (take_off_runq st i (enter_waitq i q k))"
    unfolding take_off_runq_def using assms(2) c
    by (auto simp: runq_del_upd intro!: frame_trans [OF frame_upd frame_upd_runq])
  ultimately show "frame k (take_off_runq st i (enter_waitq i q k))" by (rule frame_trans)
qed

lemma waitq_sleep_keeps:
  assumes q: "waitq_valid k q" "\<And>i j. sched_current_slot k cpu = Some i \<Longrightarrow> q = Child_waitq j \<Longrightarrow> j = i"
  shows "keeps k (sched_waitq_sleep_locked cpu q timeout k)"
proof (rule keepsI)
  assume inv: "kinv k"
  show "kinv (sched_waitq_sleep_locked cpu q timeout k) \<and> frame k (sched_waitq_sleep_locked cpu q timeout k)"
  proof (cases "\<exists>i. sched_current_slot k cpu = Some i \<and> \<not> is_idle (task k i)")
    case False
    then show ?thesis using inv by (auto simp: sched_waitq_sleep_locked_def split: option.split)
  next
    case True
    then obtain i where cur: "sched_current_slot k cpu = Some i" and idle: "\<not> is_idle (task k i)" by auto
    note i = current_live(1) [OF inv cur idle]
    define k1 where "k1 = sched_detach_waitq i k"
    define k2 where "k2 = take_off_runq BLOCKED i k1"
    have 1: "kinv k1" "frame k k1" "waitq (task k1 i) = None"
      using kinv_detach [OF inv i] detach_frame detach_waitq_None [OF kinv_lens(1) [OF inv]] i
      by (simp_all add: k1_def)
    have i1: "live_task k1 i" using i frameD [OF 1(2)] by simp
    note t = take_off_restated [OF 1(1) i1, of BLOCKED, folded k2_def]
    have 2: "kinv k2" using kinv_restated [OF 1(1) i1 t(1)] by simp
    have f2: "frame k k2" using frame_trans [OF 1(2) t(2)] by simp
    have i2: "live_task k2 i" using i frameD [OF f2] by simp
    have w2: "waitq (task k2 i) = None" "asleep (state (pub (task k2 i)))"
      using 1(3) i kinv_lens(1) [OF 1(1)] kinv_live(2) [OF 1(1)] i1
      by (simp_all add: k2_def take_off_runq_def runq_del_upd nth_update)
    define k3 where "k3 = take_off_runq BLOCKED i (enter_waitq i q k1)"
    have own: "j = i" if "q = Child_waitq j" for j using q(2) cur that by simp
    have c: "same_sched (enter_waitq i q k2) k3" "frame k1 k3"
      unfolding k2_def k3_def using own by (intro enter_take_off_commute [OF 1(1) i1]; blast)+
    have v: "waitq_valid k2 q" using q(1) frameD(7) [OF f2] by simp
    have "kinv (enter_waitq i q k2)" using own by (intro kinv_enter_waitq [OF 2 i2 v _ w2])
    then have 3: "kinv k3" using c(1) by (rule kinv_cong)
    have f3: "frame k k3" using frame_trans [OF 1(2) c(2)] by simp
    have e: "sched_waitq_sleep_locked cpu q timeout k =
        sched_mark_resched_all (reset_quantum i (upd_task i
          (set_wake_tick (if timeout \<noteq> 0 then k_ticks k + timeout else 0)) k3))"
      using cur idle by (simp add: sched_waitq_sleep_locked_def Let_def k1_def k3_def)
    show ?thesis
      unfolding e
      by (intro conjI kinv_cong [OF 3 wake_tail_ok(1)] frame_trans [OF f3 wake_tail_ok(2)])
  qed
qed

subsection \<open>Sleeping, yielding, returning from the entry function\<close>

lemma keepsD:
  assumes "keeps k k'" "kinv k"
  shows "kinv k'" "frame k k'"
  using assms by (auto simp: keeps_def)

lemma take_off_keeps:
  assumes "live_task k i" "st \<noteq> RUNNABLE" "st \<noteq> RUNNING" "\<not> asleep st \<Longrightarrow> waitq (task k i) = None"
  shows "keeps k (take_off_runq st i k)"
  using assms kinv_restated take_off_restated by (intro keepsI) blast

lemma put_runnable_keeps:
  assumes "live_task k i" "kinv k \<Longrightarrow> c = run_cpu (task k i)" "waitq (task k i) = None"
  shows "keeps k (put_runnable c i k)"
proof (rule keepsI)
  assume inv: "kinv k"
  note p = put_runnable_restated [OF inv assms(1) assms(2) [OF inv]]
  show "kinv (put_runnable c i k) \<and> frame k (put_runnable c i k)"
    using kinv_restated [OF inv assms(1) p(1)] p(2) assms(3) by simp
qed

lemma sleep_keeps: "keeps k (sched_sleep_ticks_locked cpu ticks k)"
proof (rule keepsI)
  assume inv: "kinv k"
  show "kinv (sched_sleep_ticks_locked cpu ticks k) \<and> frame k (sched_sleep_ticks_locked cpu ticks k)"
  proof (cases "\<exists>i. sched_current_slot k cpu = Some i \<and> \<not> is_idle (task k i)")
    case False
    then show ?thesis using inv by (auto simp: sched_sleep_ticks_locked_def split: option.split)
  next
    case True
    then obtain i where cur: "sched_current_slot k cpu = Some i" and idle: "\<not> is_idle (task k i)" by auto
    note i = current_live(1) [OF inv cur idle]
    define k1 where "k1 = upd_task i (set_wake_tick (k_ticks k + (if ticks \<noteq> 0 then ticks else 1))) k"
    have 1: "keeps k k1" unfolding k1_def by (rule keeps_same) simp_all
    have i1: "live_task k1 i" using i frameD(4) [OF keepsD(2) [OF 1 inv]] by simp
    have "keeps k (take_off_runq SLEEPING i k1)"
      by (rule keeps_trans [OF 1 take_off_keeps [OF i1]]) simp_all
    then have "keeps k (sched_mark_resched_all (reset_quantum i (take_off_runq SLEEPING i k1)))"
      by (rule keeps_trans [OF _ keeps_same [OF tail_ok]])
    then show ?thesis
      using inv cur idle by (simp add: sched_sleep_ticks_locked_def Let_def k1_def keeps_def)
  qed
qed

text \<open>The task on a processor: its slot's \<open>run_cpu\<close> is that processor if it is marked as
  running.\<close>

lemma current_run_cpu:
  assumes "kinv k" "cpu < 32" "k_current k ! cpu = i" "0 < i"
  shows "on_cpu k cpu i" "run_cpu (task k i) = cpu" "live_task k i"
proof -
  have "k_ctl k ! cpu \<noteq> C_loop" using kinv_loop [OF assms(1,2)] assms(3,4) by auto
  then obtain j where j: "on_cpu k cpu j" by (cases "k_ctl k ! cpu") auto
  with kinv_on_cpu(4) [OF assms(1,2) j] assms(3) have "j = i" by simp
  with j show "on_cpu k cpu i" by simp
  then show "run_cpu (task k i) = cpu" "live_task k i"
    using kinv_on_cpu [OF assms(1,2)] by auto
qed

lemma yield_keeps: "cpu < 32 \<Longrightarrow> keeps k (fst (sched_yield_locked cpu k))"
proof (rule keepsI)
  assume inv: "kinv k" and cpu: "cpu < 32"
  show "kinv (fst (sched_yield_locked cpu k)) \<and> frame k (fst (sched_yield_locked cpu k))"
  proof (cases "\<exists>i. sched_current_slot k cpu = Some i \<and> state (pub (task k i)) = RUNNING")
    case False
    then show ?thesis
      using inv keepsD [OF keeps_same [OF tail_ok] inv]
      by (auto simp: sched_yield_locked_def split: option.split)
  next
    case True
    then obtain i where cur: "sched_current_slot k cpu = Some i" "state (pub (task k i)) = RUNNING" by auto
    have "\<not> is_idle (task k i)"
    proof
      assume "is_idle (task k i)"
      moreover have "i < 64" using cur(1) by (auto simp: sched_current_slot_def Let_def split: if_splits)
      ultimately have "i = 0" using kinv_live(1) [OF inv] by auto
      then show False using cur(2) kinv_idle [OF inv] by simp
    qed
    note i = current_live [OF inv cur(1) this]
    have "keeps k (put_runnable cpu i k)"
      using put_runnable_keeps [OF i(1)] current_run_cpu(2) [OF inv cpu i(2)] i(1) awake_no_waitq [OF inv, of i] cur(2)
      by simp
    then have "keeps k (sched_mark_resched_all (reset_quantum i (put_runnable cpu i k)))"
      by (rule keeps_trans [OF _ keeps_same [OF tail_ok]])
    then show ?thesis using inv cur by (simp add: sched_yield_locked_def keeps_def)
  qed
qed

lemma bootstrap_return_keeps: "cpu < 32 \<Longrightarrow> keeps k (sched_bootstrap_return cpu k)"
proof (rule keepsI)
  assume inv: "kinv k" and cpu: "cpu < 32"
  let ?i = "k_current k ! cpu"
  show "kinv (sched_bootstrap_return cpu k) \<and> frame k (sched_bootstrap_return cpu k)"
  proof (cases "?i < 64 \<and> used (task k ?i) \<and> state (pub (task k ?i)) = RUNNING")
    case True
    then have pos: "0 < ?i" using kinv_idle [OF inv] by (cases "?i = 0") auto
    note i = current_run_cpu [OF inv cpu refl pos]
    have "keeps k (sched_mark_resched_all (reset_quantum ?i (put_runnable cpu ?i k)))"
      using put_runnable_keeps [OF i(3)] i(2) awake_no_waitq [OF inv, of ?i] True by (intro keeps_trans [OF _ keeps_same [OF tail_ok]]) simp
    then show ?thesis using True inv by (simp add: sched_bootstrap_return_def keeps_def Let_def)
  qed (use inv in \<open>auto simp: sched_bootstrap_return_def Let_def\<close>)
qed

subsection \<open>Exit and termination\<close>

lemma neutral_upd:
  assumes "\<And>t. sched_view (f t) = sched_view t"
  shows "keeps k (upd_task i f k)"
  by (rule keeps_same [OF same_sched_upd [OF assms] frame_upd])
    (simp add: sched_viewD [OF assms])

lemma vfork_restore_ok [simp]:
  "same_sched k (sched_vfork_restore_parent_user_locked i k)"
  "frame k (sched_vfork_restore_parent_user_locked i k)"
  by (simp_all add: sched_vfork_restore_parent_user_locked_def same_sched_def frame_def)

lemma with_fds_ok:
  "same_sched k (upd_task i (\<lambda>t. t\<lparr>fds := s\<rparr>) (k\<lparr>k_pipes := p\<rparr>))"
  "frame k (upd_task i (\<lambda>t. t\<lparr>fds := s\<rparr>) (k\<lparr>k_pipes := p\<rparr>))"
proof -
  have "same_sched (k\<lparr>k_pipes := p\<rparr>) (upd_task i (\<lambda>t. t\<lparr>fds := s\<rparr>) (k\<lparr>k_pipes := p\<rparr>))"
    by (rule same_sched_upd) (simp add: sched_view_def)
  then show "same_sched k (upd_task i (\<lambda>t. t\<lparr>fds := s\<rparr>) (k\<lparr>k_pipes := p\<rparr>))"
    by (simp add: same_sched_def)
  show "frame k (upd_task i (\<lambda>t. t\<lparr>fds := s\<rparr>) (k\<lparr>k_pipes := p\<rparr>))"
    by (simp add: frame_def nth_update)
qed

lemma close_all_ok [simp]: "same_sched k (slot_close_all_fds i k)" "frame k (slot_close_all_fds i k)"
  by (simp_all add: slot_close_all_fds_def case_prod_beta with_fds_ok)

text \<open>The common part of \<open>sched_exit_code\<close> and \<open>sched_signal_terminate_slot_locked\<close>: \<open>f\<close>
  records the exit status.\<close>

definition bury :: "(task_slot \<Rightarrow> task_slot) \<Rightarrow> nat \<Rightarrow> kstate \<Rightarrow> kstate" where
  "bury f i k =
     (let k = sched_detach_waitq i k;
          k = sched_vfork_restore_parent_user_locked i k;
          k = upd_task i (\<lambda>t. t\<lparr>vfork_child_active := False\<rparr>) k;
          k = slot_close_all_fds i k;
          k = upd_task i f k;
          k = take_off_runq ZOMBIE i k;
          k = upd_task i (set_wake_tick 0) k
      in reset_quantum i k)"

lemma bury_keeps:
  assumes f: "\<And>t. sched_view (f t) = sched_view t" and i: "live_task k i"
  shows "keeps k (bury f i k)"
proof (rule keepsI)
  assume inv: "kinv k"
  define k1 where "k1 = sched_detach_waitq i k"
  define k2 where "k2 = upd_task i f (slot_close_all_fds i (upd_task i (\<lambda>t. t\<lparr>vfork_child_active := False\<rparr>)
     (sched_vfork_restore_parent_user_locked i k1)))"
  have 1: "kinv k1" "frame k k1" "waitq (task k1 i) = None"
    using kinv_detach [OF inv i] detach_frame detach_waitq_None [OF kinv_lens(1) [OF inv]] i
    by (simp_all add: k1_def)
  define a where "a = sched_vfork_restore_parent_user_locked i k1"
  define b where "b = upd_task i (\<lambda>t. t\<lparr>vfork_child_active := False\<rparr>) a"
  have ab: "same_sched a b" "frame a b"
    unfolding b_def by (rule same_sched_upd, simp add: sched_view_def) (rule frame_upd, simp)
  have k2: "k2 = upd_task i f (slot_close_all_fds i b)" by (simp add: k2_def a_def b_def)
  have c2: "same_sched b k2" "frame b k2"
    unfolding k2
    by (rule same_sched_trans [OF close_all_ok(1) same_sched_upd [OF f]])
      (rule frame_trans [OF close_all_ok(2) frame_upd], simp add: sched_viewD [OF f])
  have s: "same_sched k1 k2" and f2: "frame k k2"
    using same_sched_trans [OF vfork_restore_ok(1) [of k1 i, folded a_def] same_sched_trans [OF ab(1) c2(1)]]
      frame_trans [OF 1(2) frame_trans [OF vfork_restore_ok(2) [of k1 i, folded a_def] frame_trans [OF ab(2) c2(2)]]]
    by simp_all
  have 2: "kinv k2" using kinv_cong [OF 1(1) s] .
  have i2: "live_task k2 i" using i frameD(4) [OF f2] by simp
  have w2: "waitq (task k2 i) = None" using same_waitq [OF s 1(1)] 1(3) i by simp
  have "keeps k2 (take_off_runq ZOMBIE i k2)" using i2 w2 by (intro take_off_keeps) simp_all
  then have "keeps k2 (bury f i k)"
    unfolding bury_def Let_def k1_def [symmetric] k2_def [symmetric]
    by (intro keeps_trans [OF _ keeps_same [OF reset_quantum_ok]]
        keeps_trans [OF _ keeps_same [OF set_wake_tick_ok]])
  with 2 f2 show "kinv (bury f i k) \<and> frame k (bury f i k)"
    by (auto simp: keeps_def intro: frame_trans)
qed

lemma find_by_tid_lt: "sched_find_by_tid k t = Some p \<Longrightarrow> p < 64"
  by (auto simp: sched_find_by_tid_def find_upt_Some split: if_splits)

lemma wake_slot_keeps': "i < 64 \<Longrightarrow> keeps k (sched_wake_slot i k)"
proof (cases "i = 0")
  case True
  then show ?thesis
    by (intro keepsI) (use kinv_idle [of k] in \<open>simp add: sched_wake_slot_def\<close>)
qed (simp add: wake_slot_keeps)

definition notify_parent :: "bool \<Rightarrow> nat \<Rightarrow> kstate \<Rightarrow> kstate" where
  "notify_parent also_resumed i k =
     (if parent_tid (task k i) < 0 then k
      else case sched_find_by_tid k (word_of_int (parent_tid (task k i))) of
        None \<Rightarrow> k
      | Some p \<Rightarrow> wake_child_waiters p
          (if also_resumed \<and> vfork_resume_valid (task k p) then sched_wake_slot p k else k))"

lemma notify_keeps: "keeps k (notify_parent b i k)"
  by (auto simp: notify_parent_def wake_child_waiters_keeps split: option.split
      intro: keeps_trans [OF wake_slot_keeps' wake_child_waiters_keeps] dest: find_by_tid_lt)

lemma exit_locked_alt:
  "sched_exit_code_locked cpu code k =
     (case sched_current_slot k cpu of
        None \<Rightarrow> k
      | Some i \<Rightarrow> if is_idle (task k i) then k
          else sched_mark_resched_all (notify_parent True i (bury (\<lambda>t. t\<lparr>exit_code := code\<rparr>) i k)))"
  by (simp add: sched_exit_code_locked_def notify_parent_def bury_def Let_def
      cong: option.case_cong if_cong)

lemma terminate_alt:
  "sched_signal_terminate_slot_locked i sig k =
     (if \<not> used (task k i) \<or> is_idle (task k i) \<or> state (pub (task k i)) = ZOMBIE then k
      else sched_mark_resched_all (notify_parent False i
        (bury (\<lambda>t. t\<lparr>exit_code := 128 + (of_nat sig AND 0x7F), sig_pending := 0\<rparr>) i k)))"
  by (simp add: sched_signal_terminate_slot_locked_def sched_signal_wake_parent_locked_def
      notify_parent_def bury_def Let_def split: option.split)

lemma bury_notify_keeps:
  assumes "\<And>t. sched_view (f t) = sched_view t" "live_task k i"
  shows "keeps k (sched_mark_resched_all (notify_parent b i (bury f i k)))"
  by (rule keeps_trans [OF keeps_trans [OF bury_keeps [OF assms] notify_keeps] keeps_same [OF mark_ok]])

lemma exit_keeps: "keeps k (sched_exit_code_locked cpu code k)"
proof (rule keepsI)
  assume inv: "kinv k"
  show "kinv (sched_exit_code_locked cpu code k) \<and> frame k (sched_exit_code_locked cpu code k)"
  proof (cases "\<exists>i. sched_current_slot k cpu = Some i \<and> \<not> is_idle (task k i)")
    case False
    then show ?thesis using inv by (auto simp: exit_locked_alt split: option.split)
  next
    case True
    then obtain i where cur: "sched_current_slot k cpu = Some i" "\<not> is_idle (task k i)" by auto
    have "keeps k (sched_mark_resched_all (notify_parent True i (bury (\<lambda>t. t\<lparr>exit_code := code\<rparr>) i k)))"
      by (rule bury_notify_keeps [OF _ current_live(1) [OF inv cur]]) (simp add: sched_view_def)
    then show ?thesis using inv cur by (simp add: exit_locked_alt keeps_def)
  qed
qed

lemma terminate_keeps: "0 < i \<Longrightarrow> i < 64 \<Longrightarrow> keeps k (sched_signal_terminate_slot_locked i sig k)"
  by (auto simp: terminate_alt sched_view_def intro: bury_notify_keeps)

lemma kill_keeps: "keeps k (fst (sched_signal_kill_locked cpu p sig k))"
proof -
  have n: "keeps k (upd_task i (\<lambda>t. t\<lparr>sig_pending := sig_pending t OR b\<rparr>) k)" for i b
    by (rule neutral_upd) (simp add: sched_view_def)
  have "0 < i \<and> i < 64" if "kill_target p k = Some i" for i
    using that by (auto simp: kill_target_def find_upt_Some)
  then show ?thesis
    by (auto simp: sched_signal_kill_locked_def Let_def n split: option.split
        intro: keeps_trans [OF n terminate_keeps])
qed

subsection \<open>The context switch\<close>

lemma switch_kinv:
  assumes inv: "kinv k"
  shows "kinv (sched_switch_current_to_scheduler cpu k)"
proof (cases "k_current k ! cpu = 0 \<or> k_current k ! cpu \<ge> 64 \<or> \<not> used (task k (k_current k ! cpu)) \<or>
    is_idle (task k (k_current k ! cpu)) \<or> \<not> sc_valid (stack_ctx (task k (k_current k ! cpu)))")
  case True
  then show ?thesis using inv by (auto simp: sched_switch_current_to_scheduler_def Let_def)
next
  case False
  define i where "i = k_current k ! cpu"
  define k1 where "k1 = k\<lparr>k_ctl := (k_ctl k)[cpu := back_in_loop (k_ctl k ! cpu)]\<rparr>"
  have v: "sched_view ((save_user_sp sp t)\<lparr>stack_ctx := ctx_save l (stack_ctx (save_user_sp sp t))\<rparr>) =
      sched_view t" for sp l t
    by (simp add: sched_view_def save_user_sp_def ctx_save_def)
  have "same_sched k1 (sched_switch_current_to_scheduler cpu k)"
  proof -
    have "sched_switch_current_to_scheduler cpu k =
        swap_to_scheduler cpu i ((upd_task i (save_user_sp (k_irq_saved k ! cpu)) k)
          \<lparr>k_sched_ctx := (k_sched_ctx k)[cpu := (k_sched_ctx k ! cpu)\<lparr>sc_irq_masked := 0, sc_in_interrupt := 0\<rparr>]\<rparr>)"
      using False by (simp add: sched_switch_current_to_scheduler_def Let_def i_def)
    moreover have "map sched_view (k_tasks (sched_switch_current_to_scheduler cpu k)) = map sched_view (k_tasks k)"
      unfolding calculation
      by (cases "i < length (k_tasks k)")
        (simp_all add: swap_to_scheduler_def Let_def map_update v list_update_same_conv list_update_beyond)
    ultimately show ?thesis
      by (simp add: same_sched_def k1_def swap_to_scheduler_def Let_def)
  qed
  then show ?thesis using kinv_cong [OF kinv_cpu_back [OF inv, of cpu, folded k1_def]] by simp
qed

lemma bootstrap_prepare_ok:
  "same_sched k (sched_stack_prepare_bootstrap_locked b t i k)"
  "frame k (sched_stack_prepare_bootstrap_locked b t i k)"
proof -
  let ?f = "\<lambda>s. s\<lparr>stack_ctx := (stack_ctx s)\<lparr>sc_csp := 2047, sc_dsp := 2048, sc_isp := 2048\<rparr>\<rparr>"
  have "same_sched (k\<lparr>k_mem := m\<rparr>) (upd_task i ?f (k\<lparr>k_mem := m\<rparr>))" for m
    by (rule same_sched_upd) (simp add: sched_view_def)
  then have 1: "same_sched k (upd_task i ?f (k\<lparr>k_mem := m\<rparr>))" for m by (simp add: same_sched_def)
  have 2: "frame k (upd_task i ?f (k\<lparr>k_mem := m\<rparr>))" for m
    by (simp add: frame_def nth_update)
  show "same_sched k (sched_stack_prepare_bootstrap_locked b t i k)"
    "frame k (sched_stack_prepare_bootstrap_locked b t i k)"
    using 1 2 by (simp_all add: sched_stack_prepare_bootstrap_locked_def Let_def)
qed

lemma pick_local:
  assumes "kinv k" "c < sched_cpu_cap k" "sched_runq_pick_local k c start = i" "i \<noteq> 0"
  shows "live_task k i" "state (pub (task k i)) = RUNNABLE" "run_cpu (task k i) = c"
proof -
  have "find (\<lambda>cand. cand \<noteq> 0 \<and> runq_bit_tst (k_runq k ! c) cand)
      (map (\<lambda>off. (start + off) mod 64) [1..<65]) = Some i"
    using assms by (auto simp: sched_runq_pick_local_def Let_def split: option.splits)
  from find_SomeD [OF this] have "i < 64" "runq_bit_tst (k_runq k ! c) i" by auto
  moreover have "c < 32" using assms(2) cpu_cap_le(1) [of k] by simp
  ultimately show "live_task k i" "state (pub (task k i)) = RUNNABLE" "run_cpu (task k i) = c"
    using assms(1,4) by (auto simp: kinv_def runq_ok_def)
qed

lemma same_upd_at:
  assumes "sched_view (f (task k i)) = sched_view (task k i)"
  shows "same_sched k (upd_task i f k)"
proof -
  have "map sched_view ((k_tasks k)[i := f (k_tasks k ! i)]) = map sched_view (k_tasks k)"
    by (cases "i < length (k_tasks k)") (simp_all add: map_update assms list_update_same_conv list_update_beyond)
  then show ?thesis by (simp add: same_sched_def)
qed

lemma same_upd_runq: "same_sched k k' \<Longrightarrow> same_sched (upd_runq c f k) (upd_runq c f k')"
  by (simp add: same_sched_def)

lemma same_ctl: "same_sched k k' \<Longrightarrow> same_sched (k\<lparr>k_ctl := x\<rparr>) (k'\<lparr>k_ctl := x\<rparr>)"
  by (simp add: same_sched_def)

lemma same_set_state:
  assumes "same_sched k k'"
  shows "same_sched (upd_task i (set_state st) k) (upd_task i (set_state st) k')"
proof -
  have v: "sched_view t = sched_view t' \<Longrightarrow> sched_view (set_state st t) = sched_view (set_state st t')" for t t'
    by (simp add: sched_view_def)
  have m: "map sched_view (k_tasks k') = map sched_view (k_tasks k)"
    using assms by (simp add: same_sched_def)
  then have len: "length (k_tasks k') = length (k_tasks k)" by (metis length_map)
  have "map sched_view ((k_tasks k')[i := set_state st (task k' i)]) =
      map sched_view ((k_tasks k)[i := set_state st (task k i)])"
  proof (cases "i < length (k_tasks k)")
    case True
    then have "sched_view (task k' i) = sched_view (task k i)" using m len by (metis nth_map)
    from v [OF this] m show ?thesis by (simp add: map_update)
  qed (use m len in \<open>simp add: list_update_beyond\<close>)
  then show ?thesis using assms by (simp add: same_sched_def)
qed

lemma dispatch_none:
  assumes "kinv k" "cpu < sched_cpu_cap k" "k_ctl k ! cpu = C_loop"
    and "sched_runq_pick_local k cpu 0 = 0"
  shows "sched_run_dispatch b t cpu k = k\<lparr>k_need_resched := False, k_current := (k_current k)[cpu := 0]\<rparr>"
proof -
  have "k_current k ! cpu = 0"
    using kinv_loop [OF assms(1) _ assms(3)] assms(2) cpu_cap_le(1) [of k] by simp
  then show ?thesis
    using assms(4)
    by (simp add: sched_run_dispatch_def sched_idx_runnable_def sched_pick_next_idx_def sched_runq_steal_to_def Let_def)
qed

lemma dispatch_some:
  assumes inv: "kinv k" and cpu: "cpu < sched_cpu_cap k" "k_ctl k ! cpu = C_loop"
    and i: "sched_runq_pick_local k cpu 0 = i" "i \<noteq> 0"
  shows "same_sched (upd_runq cpu (\<lambda>b. runq_bit_del b i) (upd_task i (set_state RUNNING)
      (k\<lparr>k_current := (k_current k)[cpu := i], k_ctl := (k_ctl k)[cpu := C_task i]\<rparr>)))
    (sched_run_dispatch b t cpu k)"
proof -
  note p = pick_local [OF inv cpu(1) i]
  have cur: "k_current k ! cpu = 0"
    using kinv_loop [OF inv _ cpu(2)] cpu(1) cpu_cap_le(1) [of k] by simp
  let ?k0 = "k\<lparr>k_need_resched := False\<rparr>"
  define k1 where "k1 = ?k0\<lparr>k_current := (k_current k)[cpu := i]\<rparr>"
  define k2 where "k2 = upd_task i (\<lambda>s. s\<lparr>run_cpu := cpu\<rparr>) k1"
  define k3 where "k3 = upd_runq cpu (\<lambda>b. runq_bit_del b i) k2"
  define k4 where "k4 = (if kind (pub (task k3 i)) = KIND_KERNEL \<and> sc_csp (stack_ctx (task k3 i)) = 2048
     then sched_stack_prepare_bootstrap_locked b t i k3 else k3)"
  define k5 where "k5 = upd_task i (set_state RUNNING) k4"
  define k6 where "k6 = upd_task i (\<lambda>s. s\<lparr>pub := (pub s)\<lparr>run_ticks := run_ticks (pub s) + 1\<rparr>\<rparr>) k5"
  define k7 where "k7 = k6\<lparr>k_irq_saved := (k_irq_saved k6)[cpu := saved_user (task k6 i)]\<rparr>"
  have "sched_runq_del cpu i k2 = k3"
    using p(1) cpu(1) by (simp add: k3_def runq_del_upd k2_def k1_def sched_cpu_cap_def)
  then have e: "sched_run_dispatch b t cpu k = swap_to_task cpu i k7"
    using i cur p(1,2) kinv_live(4) [OF inv, of i]
    by (simp add: sched_run_dispatch_def sched_idx_runnable_def sched_pick_next_idx_def
        sched_runq_steal_to_def Let_def k7_def k6_def k5_def k4_def k3_def k2_def k1_def)
  have "same_sched k1 k2"
    unfolding k2_def by (rule same_upd_at) (use p(3) in \<open>simp add: sched_view_def k1_def\<close>)
  then have "same_sched (upd_runq cpu (\<lambda>b. runq_bit_del b i) k1) k3"
    unfolding k3_def by (rule same_upd_runq)
  then have "same_sched (upd_runq cpu (\<lambda>b. runq_bit_del b i) k1) k4"
    by (simp add: k4_def same_sched_trans [OF _ bootstrap_prepare_ok(1)])
  then have s5: "same_sched (upd_task i (set_state RUNNING) (upd_runq cpu (\<lambda>b. runq_bit_del b i) k1)) k5"
    unfolding k5_def by (rule same_set_state)
  moreover have "same_sched k5 k6"
    unfolding k6_def by (rule same_upd_at) (simp add: sched_view_def)
  moreover have "same_sched k6 k7" by (simp add: k7_def same_sched_def)
  ultimately have s7: "same_sched (upd_task i (set_state RUNNING) (upd_runq cpu (\<lambda>b. runq_bit_del b i) k1)) k7"
    by (blast intro: same_sched_trans)
  then have "k_ctl k7 = k_ctl k" by (simp add: same_sched_def k1_def)
  then have "same_sched (k7\<lparr>k_ctl := (k_ctl k)[cpu := C_task i]\<rparr>) (swap_to_task cpu i k7)"
    by (simp add: swap_to_task_def same_sched_def Let_def)
  from same_sched_trans [OF same_ctl [OF s7] this]
  show ?thesis unfolding e by (simp add: same_sched_def k1_def)
qed

lemma dispatch_kinv:
  assumes inv: "kinv k" and cpu: "cpu < sched_cpu_cap k" "k_ctl k ! cpu = C_loop"
  shows "kinv (sched_run_dispatch b t cpu k)"
proof (cases "sched_runq_pick_local k cpu 0 = 0")
  case True
  have c: "cpu < 32" using cpu(1) cpu_cap_le(1) [of k] by simp
  have "same_sched k (k\<lparr>k_need_resched := False, k_current := (k_current k)[cpu := 0]\<rparr>)"
    using kinv_loop [OF inv c cpu(2)] kinv_lens(2) [OF inv] c
    by (simp add: same_sched_def list_update_same_conv)
  with dispatch_none [OF inv cpu True] kinv_cong [OF inv] show ?thesis by simp
next
  case False
  define i where "i = sched_runq_pick_local k cpu 0"
  note p = pick_local [OF inv cpu(1) i_def [symmetric]]
  have c: "cpu < 32" using cpu(1) cpu_cap_le(1) [of k] by simp
  let ?k = "k\<lparr>k_current := (k_current k)[cpu := i], k_ctl := (k_ctl k)[cpu := C_task i]\<rparr>"
  have 1: "kinv ?k" using kinv_cpu_enter [OF inv cpu] p False by (simp add: i_def)
  have "kinv (upd_runq cpu (\<lambda>b. runq_bit_del b i) (upd_task i (set_state RUNNING) ?k))"
    using restate_core [OF 1, of i RUNNING] p False c kinv_lens(4) [OF inv] awake_no_waitq [OF inv, of i]
    by (simp add: i_def)
  from kinv_cong [OF this dispatch_some [OF inv cpu i_def [symmetric]]] False
  show ?thesis by (simp add: i_def)
qed

lemma return_kinv:
  assumes inv: "kinv k" and c: "cpu < 32"
  shows "kinv (sched_run_return cpu k)"
proof (cases "k_ctl k ! cpu")
  case (C_back i)
  have on: "on_cpu k cpu i" using C_back by simp
  note o = kinv_on_cpu [OF inv c on]
  have live: "live_task k i" using o by simp
  show ?thesis
  proof (cases "state (pub (task k i)) = RUNNING")
    case False
    then show ?thesis
      using kinv_cpu_leave [OF inv c C_back False] C_back by (simp add: sched_run_return_def Let_def)
  next
    case True
    let ?k = "upd_runq cpu (\<lambda>b. runq_bit_add b i) (upd_task i (set_state RUNNABLE) k)"
    have 1: "kinv ?k" 
      using restate_core [OF inv live, of RUNNABLE] o(5) awake_no_waitq [OF inv, of i] True live by simp
    have "state (pub (task ?k i)) \<noteq> RUNNING" using live kinv_lens(1) [OF inv] by (simp add: nth_update)
    from kinv_cpu_leave [OF 1 c _ this] C_back
    have 2: "kinv (?k\<lparr>k_current := (k_current ?k)[cpu := 0], k_ctl := (k_ctl ?k)[cpu := C_loop]\<rparr>)" by simp
    have "sched_run_return cpu k = upd_runq cpu (\<lambda>b. runq_bit_add b i) (upd_task i (set_state RUNNABLE)
        (k\<lparr>k_current := (k_current k)[cpu := 0], k_ctl := (k_ctl k)[cpu := C_loop]\<rparr>))"
      using True C_back o by (simp add: sched_run_return_def runq_add_upd Let_def sched_cpu_cap_def)
    then show ?thesis using kinv_cong [OF 2] by (simp add: same_sched_def)
  qed
qed (use inv in \<open>simp_all add: sched_run_return_def\<close>)

subsection \<open>The timer and the accessors\<close>

lemma fields_keeps [simp]:
  "keeps k (k\<lparr>k_ticks := a\<rparr>)" "keeps k (k\<lparr>k_need_resched := r\<rparr>)" "keeps k (k\<lparr>k_idle_ticks := a\<rparr>)"
  "keeps k (k\<lparr>k_user_ticks := a\<rparr>)" "keeps k (k\<lparr>k_system_ticks := a\<rparr>)"
  "keeps k (k\<lparr>k_live := l\<rparr>)" "keeps k (k\<lparr>k_mem := m\<rparr>)" "keeps k (k\<lparr>k_irq_saved := sp\<rparr>)"
  by (rule keeps_same; simp add: same_sched_def frame_def)+

lemma tick_keeps: "keeps k (schedule_tick cpu k)"
proof -
  define k1 where "k1 = sched_try_wake_sleepers (k_ticks k + 1) (k\<lparr>k_ticks := k_ticks k + 1\<rparr>)"
  have 1: "keeps k k1"
    unfolding k1_def by (rule keeps_trans [OF fields_keeps(1) try_wake_sleepers_keeps])
  let ?cur = "k_current k1 ! cpu"
  define k2 where "k2 = (let t = task k1 ?cur in
      if \<not> used t \<or> is_idle t then k1\<lparr>k_idle_ticks := k_idle_ticks k1 + 1\<rparr>
      else if kind (pub t) = KIND_USER then k1\<lparr>k_user_ticks := k_user_ticks k1 + 1\<rparr>
      else k1\<lparr>k_system_ticks := k_system_ticks k1 + 1\<rparr>)"
  define k3 where "k3 = upd_task ?cur (\<lambda>t. t\<lparr>quantum_used := quantum_used t + 1\<rparr>) k2"
  have 2: "keeps k1 k2" by (simp add: k2_def Let_def)
  have 3: "keeps k2 k3" unfolding k3_def by (rule neutral_upd) (simp add: sched_view_def)
  have "schedule_tick cpu k \<in> {k1, k2, k3, k3\<lparr>k_need_resched := True\<rparr>}"
    by (simp add: schedule_tick_def Let_def k1_def k2_def k3_def)
  then show ?thesis
    using keeps_trans [OF 1 2] keeps_trans [OF keeps_trans [OF 1 2] 3]
      keeps_trans [OF keeps_trans [OF keeps_trans [OF 1 2] 3] fields_keeps(2)] 1 by auto
qed

lemma setters_keep:
  "keeps k (sched_task_set_kind cpu kd k)" "keeps k (sched_task_set_exec_state cpu es k)"
  "keeps k (fst (sched_current_setcwd cpu path k))" "keeps k (fst (sched_current_umask cpu m k))"
  "keeps k (sched_save_current_user_irq_ctx cpu k)" "keeps k (fst (sched_signal_action cpu sig act k))"
  "keeps k (fst (sched_signal_mask cpu how s k))" "keeps k (sched_signal_exec_reset cpu k)"
  by (auto simp: sched_task_set_kind_def sched_task_set_exec_state_def sched_current_setcwd_def
      sched_current_umask_def sched_save_current_user_irq_ctx_def sched_signal_action_def
      sched_signal_mask_def sched_signal_exec_reset_def sched_view_def Let_def
      split: option.split intro!: neutral_upd)

lemma vfork_release_keeps: "keeps k (sched_vfork_release_parent cpu k)"
proof (rule keepsI)
  assume inv: "kinv k"
  show "kinv (sched_vfork_release_parent cpu k) \<and> frame k (sched_vfork_release_parent cpu k)"
  proof (cases "\<exists>i. sched_current_slot k cpu = Some i \<and> \<not> is_idle (task k i) \<and> vfork_child_active (task k i)")
    case False
    then show ?thesis using inv by (auto simp: sched_vfork_release_parent_def split: option.split)
  next
    case True
    then obtain i where i: "sched_current_slot k cpu = Some i" "\<not> is_idle (task k i)"
      "vfork_child_active (task k i)" by auto
    define k1 where "k1 = upd_task i (\<lambda>t. t\<lparr>vfork_child_active := False\<rparr>)
      (sched_vfork_restore_parent_user_locked i k)"
    have "keeps (sched_vfork_restore_parent_user_locked i k) k1"
      unfolding k1_def by (rule neutral_upd) (simp add: sched_view_def)
    then have 1: "keeps k k1" by (rule keeps_trans [OF keeps_same [OF vfork_restore_ok]])
    have w: "keeps k1 (wake_if_waiting (Child_waitq p) p k1)" if "p < 64" for p
      using that wake_slot_keeps' by (simp add: wake_if_waiting_def)
    have e: "sched_vfork_release_parent cpu k = (if parent_tid (task k1 i) < 0 then k1
        else case sched_find_by_tid k1 (word_of_int (parent_tid (task k1 i))) of
          None \<Rightarrow> k1 | Some p \<Rightarrow> wake_if_waiting (Child_waitq p) p k1)"
      using i by (simp add: sched_vfork_release_parent_def k1_def Let_def split: option.split)
    have "keeps k1 (sched_vfork_release_parent cpu k)"
      unfolding e using w find_by_tid_lt by (auto split: option.split)
    with 1 have "keeps k (sched_vfork_release_parent cpu k)" by (rule keeps_trans)
    with inv show ?thesis by (simp add: keeps_def)
  qed
qed

subsection \<open>Reaping\<close>

definition reap_target :: "int \<Rightarrow> int \<Rightarrow> kstate \<Rightarrow> nat option" where
  "reap_target ptid p k =
     find (\<lambda>i. sched_task_is_child_of (task k i) ptid p \<and> state (pub (task k i)) = ZOMBIE) [1..<64]"

definition reap_slot :: "nat \<Rightarrow> kstate \<Rightarrow> kstate" where
  "reap_slot i k = clear_task i (sched_stack_free_locked i (sched_runq_del (run_cpu (task k i)) i k))"

lemma try_reap_alt:
  "sched_try_reap_child ptid p k =
     (case reap_target ptid p k of
        Some i \<Rightarrow> (reap_slot i k, sint (tid (pub (task k i))), Some (push_bit 8 (exit_code (task k i) AND 0xFF)))
      | None \<Rightarrow> (k, if find (\<lambda>i. sched_task_is_child_of (task k i) ptid p) [1..<64] = None then -1 else 0, None))"
  by (simp add: sched_try_reap_child_def reap_target_def reap_slot_def Let_def split: option.split)

lemma reap_target_live:
  assumes "reap_target ptid p k = Some i"
  shows "live_task k i" "state (pub (task k i)) = ZOMBIE" "sched_task_is_child_of (task k i) ptid p"
  using assms by (auto simp: reap_target_def find_upt_Some sched_task_is_child_of_def split: if_splits)

lemma clear_sel [simp]:
  "\<not> used sched_clear_task" "\<not> is_idle sched_clear_task" "waitq sched_clear_task = None"
  "child_waitq sched_clear_task = [0, 0]"
  by (simp_all add: sched_clear_task_def)

lemma stack_okD:
  assumes "stack_ok k"
  shows "k_stack_reserved k \<le> 64" "bits2_wf (k_stack_bitmap k)"
    "live_task k i \<Longrightarrow> sc_valid (stack_ctx (task k i)) \<and>
       k_stack_reserved k \<le> sc_pool_slot (stack_ctx (task k i)) \<and> sc_pool_slot (stack_ctx (task k i)) < 64"
    "live_task k i \<Longrightarrow> live_task k j \<Longrightarrow>
       sc_pool_slot (stack_ctx (task k i)) = sc_pool_slot (stack_ctx (task k j)) \<Longrightarrow> i = j"
    "k_stack_reserved k \<le> s \<Longrightarrow> s < 64 \<Longrightarrow> sched_stack_bitmap_tst (k_stack_bitmap k) s \<noteq> 0 \<longleftrightarrow>
       (\<exists>i. live_task k i \<and> sc_pool_slot (stack_ctx (task k i)) = s)"
  using assms unfolding stack_ok_def by blast+

lemma stack_okI:
  assumes "k_stack_reserved k \<le> 64" "bits2_wf (k_stack_bitmap k)"
    "\<And>i. live_task k i \<Longrightarrow> sc_valid (stack_ctx (task k i)) \<and>
       k_stack_reserved k \<le> sc_pool_slot (stack_ctx (task k i)) \<and> sc_pool_slot (stack_ctx (task k i)) < 64"
    "\<And>i j. live_task k i \<Longrightarrow> live_task k j \<Longrightarrow>
       sc_pool_slot (stack_ctx (task k i)) = sc_pool_slot (stack_ctx (task k j)) \<Longrightarrow> i = j"
    "\<And>s. k_stack_reserved k \<le> s \<Longrightarrow> s < 64 \<Longrightarrow> sched_stack_bitmap_tst (k_stack_bitmap k) s \<noteq> 0 \<longleftrightarrow>
       (\<exists>i. live_task k i \<and> sc_pool_slot (stack_ctx (task k i)) = s)"
  shows "stack_ok k"
  using assms unfolding stack_ok_def by blast

lemma reap_fields:
  assumes inv: "kinv k" and i: "live_task k i"
  shows "k_tasks (reap_slot i k) = (k_tasks k)[i := sched_clear_task]"
    "k_runq (reap_slot i k) = (k_runq k)[run_cpu (task k i) := runq_bit_del (k_runq k ! run_cpu (task k i)) i]"
    "k_stack_bitmap (reap_slot i k) = sched_stack_bitmap_clr (k_stack_bitmap k) (sc_pool_slot (stack_ctx (task k i)))"
    "k_stack_reserved (reap_slot i k) = k_stack_reserved k" "k_ctl (reap_slot i k) = k_ctl k"
    "k_current (reap_slot i k) = k_current k" "k_online (reap_slot i k) = k_online k"
    "k_waitqs (reap_slot i k) = k_waitqs k"
proof -
  have s: "stack_ok k" using inv by (simp add: kinv_def)
  note st = stack_okD(3) [OF s i]
  show "k_tasks (reap_slot i k) = (k_tasks k)[i := sched_clear_task]"
    "k_runq (reap_slot i k) = (k_runq k)[run_cpu (task k i) := runq_bit_del (k_runq k ! run_cpu (task k i)) i]"
    "k_stack_bitmap (reap_slot i k) = sched_stack_bitmap_clr (k_stack_bitmap k) (sc_pool_slot (stack_ctx (task k i)))"
    "k_stack_reserved (reap_slot i k) = k_stack_reserved k" "k_ctl (reap_slot i k) = k_ctl k"
    "k_current (reap_slot i k) = k_current k" "k_online (reap_slot i k) = k_online k"
    "k_waitqs (reap_slot i k) = k_waitqs k"
    using st i kinv_live(2) [OF inv, of i]
    by (simp_all add: reap_slot_def clear_task_def sched_stack_free_locked_def Let_def runq_del_upd)
qed

lemma reap_kinv:
  assumes inv: "kinv k" and i: "live_task k i" "state (pub (task k i)) = ZOMBIE"
    and off: "\<And>c. c < 32 \<Longrightarrow> \<not> on_cpu k c i"
  shows "kinv (reap_slot i k)"
proof -
  note f = reap_fields [OF inv i(1)] and len = kinv_lens [OF inv]
  have s: "stack_ok k" and rk: "runq_ok k" using inv by (simp_all add: kinv_def)
  note sd = stack_okD [OF s]
  let ?k = "reap_slot i k" and ?p = "sc_pool_slot (stack_ctx (task k i))"
  have t: "task ?k j = (if j = i then sched_clear_task else task k j)" for j
    using i len(1) by (auto simp: f nth_update)
  have w: "waitq (task k i) = None"
    using awake_no_waitq [OF inv, of i] i by simp
  have lv: "live_task ?k j \<longleftrightarrow> j \<noteq> i \<and> live_task k j" for j by (simp add: t)
  have b: "sched_stack_bitmap_tst (k_stack_bitmap ?k) s \<noteq> 0 \<longleftrightarrow>
      s \<noteq> ?p \<and> sched_stack_bitmap_tst (k_stack_bitmap k) s \<noteq> 0" if "s < 64" for s
    using sd(2) sd(3) [OF i(1)] that by (simp add: f sp.mem_del)
  have st: "stack_ok ?k"
  proof -
    have e: "(\<exists>j. live_task ?k j \<and> sc_pool_slot (stack_ctx (task ?k j)) = s) \<longleftrightarrow>
        s \<noteq> ?p \<and> (\<exists>j. live_task k j \<and> sc_pool_slot (stack_ctx (task k j)) = s)" for s
    proof
      assume "\<exists>j. live_task ?k j \<and> sc_pool_slot (stack_ctx (task ?k j)) = s"
      then obtain j where "j \<noteq> i" "live_task k j" "sc_pool_slot (stack_ctx (task k j)) = s"
        unfolding lv by (auto simp: t)
      then show "s \<noteq> ?p \<and> (\<exists>j. live_task k j \<and> sc_pool_slot (stack_ctx (task k j)) = s)"
        using sd(4) [OF i(1), of j] by auto
    next
      assume a: "s \<noteq> ?p \<and> (\<exists>j. live_task k j \<and> sc_pool_slot (stack_ctx (task k j)) = s)"
      then obtain j where j: "live_task k j" "sc_pool_slot (stack_ctx (task k j)) = s" by blast
      moreover have "j \<noteq> i" using a j by auto
      ultimately show "\<exists>j. live_task ?k j \<and> sc_pool_slot (stack_ctx (task ?k j)) = s"
        unfolding lv by (auto simp: t intro!: exI [of _ j])
    qed
    show ?thesis
    proof (rule stack_okI; (unfold e f(4))?)
      show "bits2_wf (k_stack_bitmap ?k)" using sd(2) by (simp add: f sp.wf_del)
      fix j l assume j: "live_task ?k j"
      show "sc_valid (stack_ctx (task ?k j)) \<and> k_stack_reserved k \<le> sc_pool_slot (stack_ctx (task ?k j)) \<and>
          sc_pool_slot (stack_ctx (task ?k j)) < 64"
        using j sd(3) [of j] unfolding lv by (simp add: t)
      assume l: "live_task ?k l" "sc_pool_slot (stack_ctx (task ?k j)) = sc_pool_slot (stack_ctx (task ?k l))"
      show "j = l" using j l sd(4) [of j l] unfolding lv by (simp add: t)
    qed (use sd b in \<open>simp_all\<close>)
  qed
  show ?thesis
  proof (rule slot_changed_inv [OF inv _ _ _ off w _ _ _ _ _ _ _ st])
    show "slot_changed i k ?k" using t by (simp add: slot_changed_def f)
    fix c j :: nat assume c: "c < 32"
    show "bits2_wf (k_runq ?k ! c)" using len(5) c len(3) by (auto simp: f nth_update rq.wf_del)
    assume "j < 64"
    then show "runq_bit_tst (k_runq ?k ! c) j \<longleftrightarrow>
        (if j = i then used (task ?k i) \<and> run_cpu (task ?k i) = c else runq_bit_tst (k_runq k ! c) j)"
      using i c len rk by (auto simp: f nth_update rq.mem_del t runq_ok_def)
  qed (use i len in \<open>simp_all add: t f\<close>)
qed

lemma waitpid_kinv:
  assumes inv: "kinv k"
    and off: "\<And>i t c. sched_current_slot k cpu = Some i \<Longrightarrow>
      reap_target (sint (tid (pub (task k i)))) p k = Some t \<Longrightarrow> c < 32 \<Longrightarrow> \<not> on_cpu k c t"
  shows "kinv (fst (sched_waitpid cpu p options k))"
proof (cases "\<exists>i. sched_current_slot k cpu = Some i \<and> \<not> is_idle (task k i)")
  case False
  then show ?thesis using inv by (auto simp: sched_waitpid_def split: option.split)
next
  case True
  then obtain i where i: "sched_current_slot k cpu = Some i" "\<not> is_idle (task k i)" by auto
  show ?thesis
  proof (cases "reap_target (sint (tid (pub (task k i)))) p k")
    case None
    have "kinv (sched_waitq_sleep_locked cpu (Child_waitq i) 0 k)"
      using waitq_sleep_keeps [of k "Child_waitq i" cpu 0] i current_live(1) [OF inv i] inv
      by (simp add: keeps_def)
    then show ?thesis using inv i None by (simp add: sched_waitpid_def try_reap_alt)
  next
    case (Some t)
    note t = reap_target_live [OF Some]
    have r: "kinv (reap_slot t k)" using reap_kinv [OF inv t(1,2)] off [OF i(1) Some] by simp
    show ?thesis
    proof (cases "sint (tid (pub (task k t))) = 0")
      case False
      then show ?thesis using i Some r by (simp add: sched_waitpid_def try_reap_alt)
    next
      case True
      have "kinv (sched_waitq_sleep_locked cpu (Child_waitq i) 0 (reap_slot t k))"
      proof (rule keepsD(1) [OF waitq_sleep_keeps r])
        show "waitq_valid (reap_slot t k) (Child_waitq i)" using current_live(1) [OF inv i] by simp
        fix i' j assume "sched_current_slot (reap_slot t k) cpu = Some i'" "Child_waitq i = Child_waitq j"
        then show "j = i'"
          using current_live(2) [OF inv i] reap_fields(6) [OF inv t(1)]
          by (auto simp: sched_current_slot_def Let_def split: if_splits)
      qed
      with True r i Some show ?thesis by (simp add: sched_waitpid_def try_reap_alt)
    qed
  qed
qed

subsection \<open>Creation\<close>

lemma spawn_fill_fields:
  fixes k cpu name ent argument i
  defines "k' \<equiv> spawn_fill cpu name ent argument i k"
  assumes len: "length (k_tasks k) = 64" and i: "i < 64"
  shows "j \<noteq> i \<Longrightarrow> task k' j = task k j" "length (k_tasks k') = 64"
    "k_runq k' = k_runq k" "k_ctl k' = k_ctl k" "k_current k' = k_current k" "k_online k' = k_online k"
    "k_waitqs k' = k_waitqs k" "k_stack_reserved k' = k_stack_reserved k" "k_stack_bitmap k' = k_stack_bitmap k"
    "used (task k' i)" "\<not> is_idle (task k' i)" "state (pub (task k' i)) = RUNNABLE"
    "waitq (task k' i) = None" "child_waitq (task k' i) = [0, 0]" "entry (task k' i) = ent"
  using len i
  by (simp_all add: k'_def spawn_fill_def take_tid_def Let_def nth_update spawn_reset_def
      spawn_public_def sched_waitq_init_locked_def)

lemma fresh_stack_ctx_sel [simp]:
  "sc_valid (fresh_stack_ctx p c)" "sc_pool_slot (fresh_stack_ctx p c) = p"
  by (simp_all add: fresh_stack_ctx_def Let_def)

text \<open>The rest of \<open>sched_spawn\<close> once a stack \<open>p\<close> has been found.\<close>

definition spawn_finish :: "u32 \<Rightarrow> u32 \<Rightarrow> nat \<Rightarrow> kstate \<Rightarrow> kstate" where
  "spawn_finish b tx i k =
     (let k = sched_stack_prepare_bootstrap_locked b tx i k;
          c = sched_cpu_normalize k (unat (k_spawn_rr k) mod sched_cpu_cap k);
          k = upd_task i (\<lambda>t. t\<lparr>run_cpu := c\<rparr>) k;
          k = k\<lparr>k_spawn_rr := k_spawn_rr k + 1\<rparr>;
          k = slot_init_stdio i k;
          k = sched_runq_add (run_cpu (task k i)) i k
      in sched_mark_resched_all k)"

lemma init_stdio_ok: "same_sched k (slot_init_stdio i k)" "frame k (slot_init_stdio i k)"
  by (simp_all add: slot_init_stdio_def case_prod_beta with_fds_ok)

lemma spawn_cpu: "sched_cpu_normalize k (unat r mod sched_cpu_cap k) = unat r mod sched_cpu_cap k"
  "unat r mod sched_cpu_cap k < sched_cpu_cap k"
  using cpu_cap_le(2) [of k] by simp_all

lemma spawn_finish_fields:
  fixes b tx i k
  defines "k' \<equiv> spawn_finish b tx i k"
  defines "c \<equiv> unat (k_spawn_rr k) mod sched_cpu_cap k"
  assumes len: "length (k_tasks k) = 64" and i: "0 < i" "i < 64"
  shows "same_sched (upd_runq c (\<lambda>b. runq_bit_add b i) (upd_task i (\<lambda>t. t\<lparr>run_cpu := c\<rparr>) k)) k'"
proof -
  define k1 where "k1 = sched_stack_prepare_bootstrap_locked b tx i k"
  define k2 where "k2 = (upd_task i (\<lambda>t. t\<lparr>run_cpu := c\<rparr>) k1)
    \<lparr>k_spawn_rr := k_spawn_rr (upd_task i (\<lambda>t. t\<lparr>run_cpu := c\<rparr>) k1) + 1\<rparr>"
  define k3 where "k3 = slot_init_stdio i k2"
  have 1: "same_sched k k1" "k_spawn_rr k1 = k_spawn_rr k"
    using bootstrap_prepare_ok(1) [of k b tx i]
    by (simp_all add: k1_def sched_stack_prepare_bootstrap_locked_def Let_def)
  have cap: "sched_cpu_cap k1 = sched_cpu_cap k" using 1 by (simp add: same_sched_def sched_cpu_cap_def)
  have v: "sched_view t = sched_view t' \<Longrightarrow> sched_view (t\<lparr>run_cpu := c\<rparr>) = sched_view (t'\<lparr>run_cpu := c\<rparr>)" for t t'
    by (simp add: sched_view_def)
  have m: "map sched_view (k_tasks k1) = map sched_view (k_tasks k)" and len1: "length (k_tasks k1) = 64"
    using 1(1) len unfolding same_sched_def by (auto dest: arg_cong [of _ _ length])
  have "sched_view (task k1 i) = sched_view (task k i)" using m len len1 i by (metis nth_map)
  from v [OF this] have 2: "same_sched (upd_task i (\<lambda>t. t\<lparr>run_cpu := c\<rparr>) k) k2"
    using 1 m by (simp add: same_sched_def k2_def map_update)
  have 3: "same_sched k2 k3" unfolding k3_def by (rule init_stdio_ok(1))
  have cap3: "sched_cpu_cap k3 = sched_cpu_cap k"
    using 2 3 by (simp add: same_sched_def sched_cpu_cap_def)
  have r3: "run_cpu (task k3 i) = c"
    using sched_viewD(4) [OF same_sched_task [OF 3, of i]] len1 i by (simp add: k2_def nth_update)
  have nz: "sched_cpu_normalize k1 (unat (k_spawn_rr k1) mod sched_cpu_cap k1) = c"
    unfolding spawn_cpu(1) by (simp add: c_def cap 1(2))
  have "c < sched_cpu_cap k3" unfolding cap3 c_def by (rule spawn_cpu(2))
  then have e: "k' = sched_mark_resched_all (upd_runq c (\<lambda>b. runq_bit_add b i) k3)"
    unfolding k'_def spawn_finish_def Let_def k1_def [symmetric] nz k2_def [symmetric] k3_def [symmetric] r3
    using i by (simp add: runq_add_upd)
  show "same_sched (upd_runq c (\<lambda>b. runq_bit_add b i) (upd_task i (\<lambda>t. t\<lparr>run_cpu := c\<rparr>) k)) k'"
    unfolding e by (rule same_sched_trans [OF same_upd_runq [OF same_sched_trans [OF 2 3]] mark_ok(1)])
qed

lemma spawn_kinv:
  assumes inv: "kinv k"
  shows "kinv (fst (sched_spawn b tx cpu name ent argument k))"
proof (cases "ent = 0 \<or> sched_alloc_slot k = None")
  case True
  then show ?thesis using inv by (auto simp: sched_spawn_def)
next
  case False
  then obtain i where al: "sched_alloc_slot k = Some i" and ent: "ent \<noteq> 0" by auto
  have i: "0 < i" "i < 64" "\<not> used (task k i)" using al by (auto simp: sched_alloc_slot_def find_upt_Some)
  define k1 where "k1 = spawn_fill cpu name ent argument i k"
  note len = kinv_lens [OF inv] and un = unused_facts [OF inv i]
  note f = spawn_fill_fields [where cpu = cpu and name = name and ent = ent and argument = argument,
      OF len(1) i(2), folded k1_def]
  have s: "stack_ok k" and rk: "runq_ok k" using inv by (simp_all add: kinv_def)
  note sd = stack_okD [OF s]
  show ?thesis
  proof (cases "find (\<lambda>slot. sched_stack_bitmap_tst (k_stack_bitmap k1) slot = 0) [k_stack_reserved k1..<64]")
    case None
    let ?k = "clear_task i k1"
    have t: "task ?k j = (if j = i then sched_clear_task else task k j)" if "j < 64" for j
      using i f that by (simp add: clear_task_def nth_update)
    have lv: "live_task ?k j \<longleftrightarrow> live_task k j" for j using t [of j] i by (auto split: if_splits)
    have o: "k_stack_reserved ?k = k_stack_reserved k" by (simp add: clear_task_def f)
    have st: "stack_ok ?k"
    proof (rule stack_okI)
      fix j l assume j: "live_task ?k j"
      with i have ji: "j < 64" "j \<noteq> i" "live_task k j" unfolding lv by auto
      show "sc_valid (stack_ctx (task ?k j)) \<and> k_stack_reserved ?k \<le> sc_pool_slot (stack_ctx (task ?k j)) \<and>
          sc_pool_slot (stack_ctx (task ?k j)) < 64"
        using ji sd(3) [of j] by (simp add: t o)
      assume l: "live_task ?k l" "sc_pool_slot (stack_ctx (task ?k j)) = sc_pool_slot (stack_ctx (task ?k l))"
      then have "l < 64" "l \<noteq> i" "live_task k l" using i unfolding lv by auto
      then show "j = l" using ji l(2) sd(4) [of j l] by (simp add: t)
    next
      fix s assume "k_stack_reserved ?k \<le> s" "s < 64"
      moreover have "(\<exists>j. live_task ?k j \<and> sc_pool_slot (stack_ctx (task ?k j)) = s) \<longleftrightarrow>
          (\<exists>j. live_task k j \<and> sc_pool_slot (stack_ctx (task k j)) = s)"
        unfolding lv using t i(3) by (intro ex_cong1) auto
      ultimately show "(sched_stack_bitmap_tst (k_stack_bitmap ?k) s \<noteq> 0) =
          (\<exists>j. live_task ?k j \<and> sc_pool_slot (stack_ctx (task ?k j)) = s)"
        using sd(5) [of s] by (simp add: clear_task_def f(8,9))
    qed (use sd(1,2) f in \<open>simp_all add: clear_task_def\<close>)
    have "kinv ?k"
    proof (rule slot_changed_inv [OF inv i(1,2) _ un(2,1) _ _ _ _ _ _ _ st])
      show "slot_changed i k ?k" using f len i by (simp add: slot_changed_def clear_task_def nth_update)
      fix c j :: nat assume c: "c < 32" "j < 64"
      show "runq_bit_tst (k_runq ?k ! c) j \<longleftrightarrow>
          (if j = i then used (task ?k i) \<and> run_cpu (task ?k i) = c else runq_bit_tst (k_runq k ! c) j)"
        using c f(3) un(3) t [OF i(2)] by (simp add: clear_task_def)
    qed (use len f(3) t [OF i(2)] in \<open>simp_all add: clear_task_def\<close>)
    moreover have "fst (sched_spawn b tx cpu name ent argument k) = ?k"
      using al ent None by (simp add: sched_spawn_def sched_stack_alloc_locked_def k1_def)
    ultimately show ?thesis by simp
  next
    case (Some p)
    then have p: "k_stack_reserved k \<le> p" "p < 64" "sched_stack_bitmap_tst (k_stack_bitmap k) p = 0"
      using f(8,9) by (auto simp: find_upt_Some)
    define k2 where "k2 = fst (sched_stack_alloc_locked i k1)"
    define c where "c = unat (k_spawn_rr k2) mod sched_cpu_cap k2"
    define k3 where "k3 = upd_runq c (\<lambda>b. runq_bit_add b i) (upd_task i (\<lambda>t. t\<lparr>run_cpu := c\<rparr>) k2)"
    have k2: "k_tasks k2 = (k_tasks k1)[i := (task k1 i)\<lparr>stack_ctx := fresh_stack_ctx p (stack_ctx (task k1 i))\<rparr>]"
      "k_stack_bitmap k2 = sched_stack_bitmap_set (k_stack_bitmap k) p" "k_runq k2 = k_runq k"
      "k_ctl k2 = k_ctl k" "k_current k2 = k_current k" "k_online k2 = k_online k" "k_waitqs k2 = k_waitqs k"
      "k_stack_reserved k2 = k_stack_reserved k"
      using Some f by (simp_all add: k2_def sched_stack_alloc_locked_def)
    have c: "c < sched_cpu_cap k" "c < 32"
      using spawn_cpu(2) [of "k_spawn_rr k2" k2] cpu_cap_le(1) [of k] k2(6)
      by (simp_all add: c_def sched_cpu_cap_def)
    have t: "task k3 j = (if j = i then (task k1 i)\<lparr>stack_ctx := fresh_stack_ctx p (stack_ctx (task k1 i)), run_cpu := c\<rparr>
        else task k j)" if "j < 64" for j
      using i f that by (simp add: k3_def k2 nth_update)
    have o: "k_stack_reserved k3 = k_stack_reserved k" "k_stack_bitmap k3 = sched_stack_bitmap_set (k_stack_bitmap k) p"
      "k_runq k3 = (k_runq k)[c := runq_bit_add (k_runq k ! c) i]"
      by (simp_all add: k3_def k2)
    have lv: "live_task k3 j \<longleftrightarrow> j = i \<or> live_task k j" for j
      using t [of j] i f(10) by (auto split: if_splits)
    have sl: "sc_pool_slot (stack_ctx (task k3 j)) = (if j = i then p else sc_pool_slot (stack_ctx (task k j)))"
      "sc_valid (stack_ctx (task k3 j)) = (j = i \<or> sc_valid (stack_ctx (task k j)))" if "j < 64" for j
      using t [OF that] by simp_all
    have np: "sc_pool_slot (stack_ctx (task k j)) \<noteq> p" if "live_task k j" for j
      using sd(5) [OF p(1,2)] p(3) that by auto
    have st: "stack_ok k3"
    proof (rule stack_okI)
      fix j l assume j: "live_task k3 j"
      then show "sc_valid (stack_ctx (task k3 j)) \<and> k_stack_reserved k3 \<le> sc_pool_slot (stack_ctx (task k3 j)) \<and>
          sc_pool_slot (stack_ctx (task k3 j)) < 64"
        using sd(3) [of j] p unfolding lv by (auto simp: sl o i)
      assume "live_task k3 l" "sc_pool_slot (stack_ctx (task k3 j)) = sc_pool_slot (stack_ctx (task k3 l))"
      then show "j = l" using j sd(4) [of j l] np [of j] np [of l] i unfolding lv by (auto simp: sl split: if_splits)
    next
      fix s assume s: "k_stack_reserved k3 \<le> s" "s < 64"
      have "(\<exists>j. live_task k3 j \<and> sc_pool_slot (stack_ctx (task k3 j)) = s) \<longleftrightarrow>
          s = p \<or> (\<exists>j. live_task k j \<and> sc_pool_slot (stack_ctx (task k j)) = s)"
        (is "?l \<longleftrightarrow> ?r")
      proof
        assume ?l
        then obtain j where "live_task k3 j" "sc_pool_slot (stack_ctx (task k3 j)) = s" by blast
        then show ?r using i unfolding lv by (auto simp: sl split: if_splits)
      next
        assume ?r
        then show ?l
        proof
          assume "s = p"
          have "live_task k3 i" "sc_pool_slot (stack_ctx (task k3 i)) = p"
            using sl(1) [OF i(2)] unfolding lv by simp_all
          with \<open>s = p\<close> show ?l by blast
        next
          assume "\<exists>j. live_task k j \<and> sc_pool_slot (stack_ctx (task k j)) = s"
          then obtain j where j: "live_task k j" "sc_pool_slot (stack_ctx (task k j)) = s" by blast
          then have "j \<noteq> i" using i(3) by auto
          then have "live_task k3 j" "sc_pool_slot (stack_ctx (task k3 j)) = s"
            using j sl(1) [of j] unfolding lv by simp_all
          then show ?l by blast
        qed
      qed
      then show "(sched_stack_bitmap_tst (k_stack_bitmap k3) s \<noteq> 0) =
          (\<exists>j. live_task k3 j \<and> sc_pool_slot (stack_ctx (task k3 j)) = s)"
        using sd(2) sd(5) [of s] s p(2) by (simp add: o sp.mem_ins)
    qed (use sd(1,2) in \<open>simp_all add: o sp.wf_ins\<close>)
    have "kinv k3"
    proof (rule slot_changed_inv [OF inv i(1,2) _ un(2,1) _ _ _ _ _ _ _ st])
      show "slot_changed i k k3" using f len i by (simp add: slot_changed_def k3_def k2 nth_update)
      fix d j :: nat assume d: "d < 32"
      show "bits2_wf (k_runq k3 ! d)" using len(3,5) d by (auto simp: o nth_update rq.wf_ins)
      assume "j < 64"
      then show "runq_bit_tst (k_runq k3 ! d) j \<longleftrightarrow>
          (if j = i then used (task k3 i) \<and> run_cpu (task k3 i) = d else runq_bit_tst (k_runq k ! d) j)"
        using d c i len(3,5) un(3) f(10) t [OF i(2)] by (auto simp: o nth_update rq.mem_ins)
    qed (use len f(10-15) t [OF i(2)] c ent in \<open>simp_all add: o\<close>)
    moreover have "same_sched k3 (spawn_finish b tx i k2)"
      using spawn_finish_fields [of k2 i b tx] f(2) i by (simp add: k3_def c_def k2)
    moreover have "fst (sched_spawn b tx cpu name ent argument k) = spawn_finish b tx i k2"
      using al ent Some by (simp add: sched_spawn_def sched_stack_alloc_locked_def k1_def k2_def spawn_finish_def Let_def)
    ultimately show ?thesis using kinv_cong by simp
  qed
qed

end
