(* ===== verification/Sched_Facts.thy ===== *)
theory Sched_Facts
  imports Sched_Reach
begin

text \<open>
  What the operations of the scheduler do to the tasks: waking, searching for the tasks to wake,
  choosing the next task, ending a task and creating one. The invariant of theory \<open>Sched_Inv\<close>
  turns the searches of bit maps into statements on the tasks themselves.
\<close>

subsection \<open>Waking\<close>

text \<open>What waking reads and changes of a task.\<close>

definition tcore :: "task_slot \<Rightarrow> sched_task \<times> waitq_ref option \<times> bool \<times> bool" where
  "tcore t = (pub t, waitq t, used t, is_idle t)"

definition awake :: "sched_task \<times> waitq_ref option \<times> bool \<times> bool \<Rightarrow>
    sched_task \<times> waitq_ref option \<times> bool \<times> bool" where
  "awake = (\<lambda>(p, _, u, d). (p\<lparr>state := RUNNABLE, wake_tick := 0\<rparr>, None, u, d))"

lemma detach_tcore:
  assumes "length (k_tasks k) = 64"
  shows "tcore (task (sched_detach_waitq i k) j) =
    (if j = i \<and> i < 64 then (pub (task k i), None, used (task k i), is_idle (task k i)) else tcore (task k j))"
  using assms by (auto simp: sched_detach_waitq_def tcore_def nth_update split: option.split)

lemma detach_len: "length (k_tasks (sched_detach_waitq i k)) = length (k_tasks k)"
  by (simp add: sched_detach_waitq_def split: option.split)

lemma wake_up_tcore:
  assumes "kinv k" "live_task k i"
  shows "tcore (task (wake_up i k) j) = (if j = i then awake (tcore (task k i)) else tcore (task k j))"
proof -
  let ?d = "sched_detach_waitq i k"
  have len: "length (k_tasks ?d) = 64" using kinv_lens(1) [OF assms(1)] by (simp add: detach_len)
  have e: "tcore (task (wake_up i k) j) = (if j = i
      then (\<lambda>(p, w, u, d). (p\<lparr>state := RUNNABLE, wake_tick := 0\<rparr>, w, u, d)) (tcore (task ?d i))
      else tcore (task ?d j))"
    using assms(2) len
    by (auto simp: wake_up_def Let_def put_runnable_def sched_runq_add_def reset_quantum_def
        sched_mark_resched_all_def set_wake_tick_def set_state_def tcore_def nth_update)
  show ?thesis
    unfolding e detach_tcore [OF kinv_lens(1) [OF assms(1)]]
    using assms(2) by (auto simp: awake_def tcore_def)
qed

lemma wake_fold:
  assumes f: "\<And>k x. kinv k \<Longrightarrow> x \<in> X \<Longrightarrow> f x k = (if P (tcore (task k x)) then wake_up x k else k)"
    and live: "\<And>k x. kinv k \<Longrightarrow> x \<in> X \<Longrightarrow> P (tcore (task k x)) \<Longrightarrow> live_task k x"
  shows "kinv k \<Longrightarrow> set xs \<subseteq> X \<Longrightarrow> distinct xs \<Longrightarrow>
    tcore (task (fold f xs k) j) =
      (if j \<in> set xs \<and> P (tcore (task k j)) then awake (tcore (task k j)) else tcore (task k j))"
proof (induction xs arbitrary: k)
  case (Cons x xs)
  have inv: "kinv (f x k)"
    using f [OF Cons.prems(1)] live [OF Cons.prems(1)] keepsD(1) [OF wake_up_keeps] Cons.prems by auto
  have e: "tcore (task (f x k) j) =
      (if j = x \<and> P (tcore (task k x)) then awake (tcore (task k x)) else tcore (task k j))"
    using f [OF Cons.prems(1)] live [OF Cons.prems(1)] wake_up_tcore [OF Cons.prems(1)] Cons.prems(2) by auto
  show ?case using Cons.IH [OF inv] Cons.prems(2,3) e by auto
qed simp

lemma wake_slot_if:
  assumes "0 < i" "i < 64" "kinv k"
  shows "sched_wake_slot i k =
    (if used (task k i) \<and> asleep (state (pub (task k i))) then wake_up i k else k)"
  using kinv_live(1) [OF assms(3,1,2)] by (auto simp: sched_wake_slot_def)

lemma wake_if_waiting_alt:
  assumes "kinv k" "waitq_valid k q" "0 < i" "i < 64"
  shows "wake_if_waiting q i k = (if waitq (task k i) = Some q then wake_up i k else k)"
  using kinv_waitq_mem [OF assms(1,2,4)] kinv_waitq(2,3) [OF assms(1,4)] wake_slot_if [OF assms(3,4,1)]
  by (auto simp: wake_if_waiting_def)

lemma waitq_fold_tcore:
  assumes inv: "kinv k" and q: "waitq_valid k q"
  shows "tcore (task (fold (wake_if_waiting q) [1..<64] k) j) =
    (if waitq (task k j) = Some q \<and> 0 < j \<and> j < 64 then awake (tcore (task k j)) else tcore (task k j))"
proof -
  text \<open>The queue stays valid, so the search of a later slot still reads it.\<close>
  let ?f = "\<lambda>i k. if waitq_valid k q then wake_if_waiting q i k
      else if waitq (task k i) = Some q \<and> used (task k i) then wake_up i k else k"
  have v: "waitq_valid k' q \<Longrightarrow> kinv k' \<Longrightarrow> set xs \<subseteq> {1..<64} \<Longrightarrow>
      fold (wake_if_waiting q) xs k' = fold ?f xs k'" for k' xs
  proof (induction xs arbitrary: k')
    case (Cons x xs)
    then have k: "keeps k' (wake_if_waiting q x k')" by (intro wake_if_waiting_keeps) auto
    then have "kinv (wake_if_waiting q x k')" "waitq_valid (wake_if_waiting q x k') q"
      using Cons.prems keepsD(1) [OF k] frameD(7) [OF keepsD(2) [OF k]] by simp_all
    from Cons.IH [OF this(2,1)] Cons.prems show ?case by simp
  qed simp
  have "fold (wake_if_waiting q) [1..<64] k = fold ?f [1..<64] k" using v [OF q inv] by auto
  moreover have "tcore (task (fold ?f [1..<64] k) j) =
      (if j \<in> set [1..<64] \<and> (\<lambda>(_, w, u, _). w = Some q \<and> u) (tcore (task k j))
       then awake (tcore (task k j)) else tcore (task k j))"
  proof (rule wake_fold [where X = "{1..<64}", OF _ _ inv])
    fix k' x assume "kinv k'" "x \<in> {1..<64::nat}"
    then show "?f x k' = (if (\<lambda>(_, w, u, _). w = Some q \<and> u) (tcore (task k' x)) then wake_up x k' else k')"
      using wake_if_waiting_alt [of k' q x] kinv_waitq(2) [of k' x q] by (auto simp: tcore_def)
  qed (auto simp: tcore_def)
  ultimately show ?thesis using kinv_waitq(2) [OF inv] by (auto simp: tcore_def)
qed

lemma sleepers_tcore:
  assumes inv: "kinv k"
  shows "tcore (task (sched_try_wake_sleepers now k) j) =
    (if j < 64 \<and> used (task k j) \<and> asleep (state (pub (task k j))) \<and>
        wake_tick (pub (task k j)) \<noteq> 0 \<and> wake_tick (pub (task k j)) \<le> now
     then awake (tcore (task k j)) else tcore (task k j))"
proof -
  let ?P = "\<lambda>(p, _, u, _). u \<and> asleep (state p) \<and> wake_tick p \<noteq> 0 \<and> wake_tick p \<le> now"
  have "tcore (task (fold (try_wake_sleeper now) [0..<64] k) j) =
      (if j \<in> set [0..<64] \<and> ?P (tcore (task k j)) then awake (tcore (task k j)) else tcore (task k j))"
  proof (rule wake_fold [where X = "{..<64}", OF _ _ inv])
    fix k x assume "kinv k" "x \<in> {..<64::nat}" "?P (tcore (task k x))"
    then show "live_task k x" using kinv_idle [of k] by (cases "x = 0") (auto simp: tcore_def)
  qed (auto simp: try_wake_sleeper_def tcore_def Let_def)
  then show ?thesis by (auto simp: sched_try_wake_sleepers_def tcore_def)
qed

subsection \<open>Choosing the next task\<close>

lemma scan_order: "map (\<lambda>off. (0 + off) mod 64) [1..<65] = [1..<64] @ [0 :: nat]"
  by code_simp

lemma find_cong: "(\<And>x. x \<in> set xs \<Longrightarrow> P x = Q x) \<Longrightarrow> find P xs = find Q xs"
  by (induction xs) auto

lemma pick_from_zero:
  assumes inv: "kinv k" and c: "c < sched_cpu_cap k"
  shows "sched_runq_pick_local k c 0 =
    (case find (\<lambda>i. used (task k i) \<and> state (pub (task k i)) = RUNNABLE \<and> run_cpu (task k i) = c) [1..<64] of
       Some i \<Rightarrow> i | None \<Rightarrow> 0)"
proof -
  have c32: "c < 32" using c cpu_cap_le(1) [of k] by simp
  let ?R = "\<lambda>i. runq_bit_tst (k_runq k ! c) i"
  have a: "find P (xs @ [0 :: nat]) = (case find P xs of Some i \<Rightarrow> Some i | None \<Rightarrow> if P 0 then Some 0 else None)"
    for P xs by (induction xs) auto
  have "find (\<lambda>cand. cand \<noteq> 0 \<and> ?R cand) [1..<64] =
      find (\<lambda>i. used (task k i) \<and> state (pub (task k i)) = RUNNABLE \<and> run_cpu (task k i) = c) [1..<64]"
    using inv c32 by (intro find_cong) (auto simp: kinv_def runq_ok_def)
  then show ?thesis
    using c by (simp add: sched_runq_pick_local_def scan_order [simplified] a Let_def split: option.split)
qed

subsection \<open>Ending a task\<close>

lemma tcore_upd:
  assumes "\<And>t. tcore (f t) = tcore t"
  shows "tcore (task (upd_task i f k) j) = tcore (task k j)"
  using assms by (simp add: nth_update)

lemma runq_del_tasks: "k_tasks (sched_runq_del c i k) = k_tasks k"
  by (simp add: sched_runq_del_def Let_def)

lemma vfork_restore_tasks: "k_tasks (sched_vfork_restore_parent_user_locked i k) = k_tasks k"
  by (simp add: sched_vfork_restore_parent_user_locked_def)

lemma bury_tasks:
  "\<exists>s. k_tasks (bury f i k) = (k_tasks (sched_detach_waitq i k))[i :=
     (set_wake_tick 0 (set_state ZOMBIE (f ((task (sched_detach_waitq i k) i)
       \<lparr>vfork_child_active := False, fds := s\<rparr>))))\<lparr>quantum_used := 0\<rparr>]"
proof (cases "i < length (k_tasks (sched_detach_waitq i k))")
  case True
  then show ?thesis
    by (simp add: bury_def Let_def reset_quantum_def take_off_runq_def runq_del_tasks slot_close_all_fds_def
        case_prod_beta vfork_restore_tasks, metis)
qed (simp add: bury_def Let_def reset_quantum_def take_off_runq_def runq_del_tasks slot_close_all_fds_def
    case_prod_beta vfork_restore_tasks list_update_beyond)

lemma bury_task:
  assumes len: "length (k_tasks k) = 64" and i: "i < 64"
    and f: "\<And>t. tcore (f t) = tcore t" "\<And>t. parent_tid (f t) = parent_tid t"
      "\<And>t. vfork_resume_valid (f t) = vfork_resume_valid t"
  shows "j \<noteq> i \<Longrightarrow> tcore (task (bury f i k) j) = tcore (task k j)"
    "tcore (task (bury f i k) i) = ((pub (task k i))\<lparr>state := ZOMBIE, wake_tick := 0\<rparr>, None, used (task k i), is_idle (task k i))"
    "parent_tid (task (bury f i k) j) = parent_tid (task k j)"
    "vfork_resume_valid (task (bury f i k) j) = vfork_resume_valid (task k j)"
proof -
  let ?d = "sched_detach_waitq i k"
  have d: "length (k_tasks ?d) = 64" "parent_tid (task ?d j) = parent_tid (task k j)"
    "vfork_resume_valid (task ?d j) = vfork_resume_valid (task k j)" for j
    using len by (cases "waitq (task k i)"; cases "the (waitq (task k i))";
        auto simp: sched_detach_waitq_def nth_update)+
  have f': "pub (f t) = pub t" "waitq (f t) = waitq t" "used (f t) = used t" "is_idle (f t) = is_idle t" for t
    using f(1) [of t] by (simp_all add: tcore_def)
  obtain s where b: "k_tasks (bury f i k) = (k_tasks ?d)[i := (set_wake_tick 0 (set_state ZOMBIE
      (f ((task ?d i)\<lparr>vfork_child_active := False, fds := s\<rparr>))))\<lparr>quantum_used := 0\<rparr>]"
    using bury_tasks by blast
  show "j \<noteq> i \<Longrightarrow> tcore (task (bury f i k) j) = tcore (task k j)"
    using detach_tcore [OF len, of i j] by (simp add: b)
  show "tcore (task (bury f i k) i) = ((pub (task k i))\<lparr>state := ZOMBIE, wake_tick := 0\<rparr>, None, used (task k i), is_idle (task k i))"
    using d(1) i detach_tcore [OF len, of i i] by (simp add: b tcore_def f' set_state_def set_wake_tick_def)
  show "parent_tid (task (bury f i k) j) = parent_tid (task k j)"
    "vfork_resume_valid (task (bury f i k) j) = vfork_resume_valid (task k j)"
    using d i by (cases "j = i"; simp add: b f set_state_def set_wake_tick_def)+
qed

lemma find_by_tid_cong:
  assumes "\<And>i. 0 < i \<Longrightarrow> i < 64 \<Longrightarrow> used (task k' i) = used (task k i) \<and> tid (pub (task k' i)) = tid (pub (task k i))"
  shows "sched_find_by_tid k' t = sched_find_by_tid k t"
  using assms by (auto simp: sched_find_by_tid_def intro!: find_cong)

lemma child_waiters_tcore:
  assumes "kinv k" "p < 64"
  shows "tcore (task (wake_child_waiters p k) j) =
    (if j = p \<and> waitq (task k p) = Some (Child_waitq p) then awake (tcore (task k j)) else tcore (task k j))"
proof -
  have "waitq (task k p) = None" if "p = 0" using awake_no_waitq [OF assms] kinv_idle [OF assms(1)] that by simp
  then have "waitq (task k j) = Some (Child_waitq p) \<and> 0 < j \<and> j < 64 \<longleftrightarrow>
      j = p \<and> waitq (task k p) = Some (Child_waitq p)"
    using kinv_waitq(4) [OF assms(1), of j _ p] assms(2) by (cases "p = 0") auto
  with waitq_fold_tcore [OF assms(1), of "Child_waitq p" j] assms(2) show ?thesis
    by (simp add: wake_child_waiters_def)
qed

text \<open>Whom the end of task \<open>i\<close> concerns.\<close>

definition parent_slot :: "kstate \<Rightarrow> nat \<Rightarrow> nat option" where
  "parent_slot k i = (if parent_tid (task k i) < 0 then None
     else sched_find_by_tid k (word_of_int (parent_tid (task k i))))"

lemma notify_tcore:
  assumes inv: "kinv k" and p: "parent_slot k i = Some p" and w: "waitq (task k p) = Some (Child_waitq p)"
  shows "tcore (task (notify_parent b i k) j) = (if j = p then awake (tcore (task k p)) else tcore (task k j))"
proof -
  have p64: "p < 64" using p find_by_tid_lt by (auto simp: parent_slot_def split: if_splits)
  have e: "notify_parent b i k =
      wake_child_waiters p (if b \<and> vfork_resume_valid (task k p) then sched_wake_slot p k else k)"
    using p by (simp add: notify_parent_def parent_slot_def split: if_splits)
  have live: "live_task k p" "asleep (state (pub (task k p)))"
    using kinv_waitq(2,3) [OF inv p64 w] awake_no_waitq [OF inv p64] kinv_idle [OF inv] w
    by (cases "p = 0"; simp add: p64)+
  have s: "sched_wake_slot p k = wake_up p k" using wake_slot_if [of p k] live inv by simp
  have 1: "tcore (task (wake_up p k) l) = (if l = p then awake (tcore (task k p)) else tcore (task k l))" for l
    by (rule wake_up_tcore [OF inv live(1)])
  have "waitq (task (wake_up p k) p) = None" using 1 [of p] by (simp add: tcore_def awake_def split: prod.splits)
  then show ?thesis
    unfolding e s
    using child_waiters_tcore [OF keepsD(1) [OF wake_up_keeps [OF live(1)] inv] p64, of j] 1 [of j]
      child_waiters_tcore [OF inv p64, of j] w by (cases "j = p") auto
qed

lemma exit_effect:
  assumes inv: "kinv k" and i: "live_current k cpu = Some i"
    and p: "parent_slot k i = Some p" "p \<noteq> i" and w: "waitq (task k p) = Some (Child_waitq p)"
  shows "tcore (task (sched_exit_code_locked cpu code k) j) =
    (if j = p then awake (tcore (task k p))
     else if j = i then ((pub (task k i))\<lparr>state := ZOMBIE, wake_tick := 0\<rparr>, None, True, False)
     else tcore (task k j))"
proof -
  have cur: "sched_current_slot k cpu = Some i" "\<not> is_idle (task k i)"
    using i by (auto simp: live_current_def split: option.splits if_splits)
  note live = current_live(1) [OF inv cur]
  define k1 where "k1 = bury (\<lambda>t. t\<lparr>exit_code := code\<rparr>) i k"
  have t: "j \<noteq> i \<Longrightarrow> tcore (task k1 j) = tcore (task k j)"
    "tcore (task k1 i) = ((pub (task k i))\<lparr>state := ZOMBIE, wake_tick := 0\<rparr>, None, used (task k i), is_idle (task k i))"
    "parent_tid (task k1 j) = parent_tid (task k j)" for j
    unfolding k1_def using kinv_lens(1) [OF inv] live
    by (intro bury_task; simp add: tcore_def)+
  have inv1: "kinv k1"
    unfolding k1_def by (rule keepsD(1) [OF bury_keeps [OF _ live] inv]) (simp add: sched_view_def)
  have "used (task k1 j) = used (task k j) \<and> tid (pub (task k1 j)) = tid (pub (task k j))" for j
    using t(1) [of j] t(2) by (cases "j = i") (simp_all add: tcore_def)
  then have p1: "parent_slot k1 i = Some p"
    using p(1) find_by_tid_cong [of k1 k] by (simp add: parent_slot_def t(3) split: if_splits)
  have w1: "waitq (task k1 p) = Some (Child_waitq p)" using t(1) [OF p(2)] w by (simp add: tcore_def)
  have "sched_exit_code_locked cpu code k = sched_mark_resched_all (notify_parent True i k1)"
    using cur by (simp add: exit_locked_alt k1_def)
  then have "tcore (task (sched_exit_code_locked cpu code k) j) = tcore (task (notify_parent True i k1) j)"
    by (simp add: sched_mark_resched_all_def)
  also have "\<dots> = (if j = p then awake (tcore (task k1 p)) else tcore (task k1 j))"
    by (rule notify_tcore [OF inv1 p1 w1])
  finally show ?thesis using t(1) [of j] t(1) [OF p(2)] t(2) live cur(2) by auto
qed

subsection \<open>Creating a task\<close>

lemma runq_add_other:
  "k_tasks (sched_runq_add c i k) = k_tasks k" "k_next_tid (sched_runq_add c i k) = k_next_tid k"
  "k_spawn_rr (sched_runq_add c i k) = k_spawn_rr k" "k_ticks (sched_runq_add c i k) = k_ticks k"
  "k_stack_reserved (sched_runq_add c i k) = k_stack_reserved k"
  by (simp_all add: sched_runq_add_def Let_def upd_runq_def)

lemma spawn_finish_task:
  assumes len: "length (k_tasks k) = 64" and i: "0 < i" "i < 64"
  shows "j \<noteq> i \<Longrightarrow> task (spawn_finish b tx i k) j = task k j"
    "pub (task (spawn_finish b tx i k) i) = pub (task k i)"
    "parent_tid (task (spawn_finish b tx i k) i) = parent_tid (task k i)"
    "cwd (task (spawn_finish b tx i k) i) = cwd (task k i)"
    "file_umask (task (spawn_finish b tx i k) i) = file_umask (task k i)"
    "entry (task (spawn_finish b tx i k) i) = entry (task k i)"
    "k_spawn_rr (spawn_finish b tx i k) = k_spawn_rr k + 1" "k_ticks (spawn_finish b tx i k) = k_ticks k"
    "k_stack_reserved (spawn_finish b tx i k) = k_stack_reserved k"
    "k_next_tid (spawn_finish b tx i k) = k_next_tid k" "k_need_resched (spawn_finish b tx i k)"
    "sc_valid (stack_ctx (task k i)) \<Longrightarrow> sc_csp (stack_ctx (task (spawn_finish b tx i k) i)) = 2047"
proof -
  have n: "sched_cpu_normalize l (unat r mod sched_cpu_cap l) = unat r mod sched_cpu_cap l" for l r
    by (rule spawn_cpu(1))
  let ?k = "spawn_finish b tx i k"
  show "j \<noteq> i \<Longrightarrow> task ?k j = task k j" "pub (task ?k i) = pub (task k i)"
    "parent_tid (task ?k i) = parent_tid (task k i)" "cwd (task ?k i) = cwd (task k i)"
    "file_umask (task ?k i) = file_umask (task k i)" "entry (task ?k i) = entry (task k i)"
    "k_spawn_rr ?k = k_spawn_rr k + 1" "k_ticks ?k = k_ticks k" "k_stack_reserved ?k = k_stack_reserved k"
    "k_next_tid ?k = k_next_tid k" "k_need_resched ?k"
    "sc_valid (stack_ctx (task k i)) \<Longrightarrow> sc_csp (stack_ctx (task ?k i)) = 2047"
    using len i
    by (simp_all add: spawn_finish_def Let_def n sched_stack_prepare_bootstrap_locked_def slot_init_stdio_def
        case_prod_beta runq_add_other sched_mark_resched_all_def)
qed

lemma spawn_success:
  fixes k b tx cpu name ent argument
  defines "r \<equiv> sched_spawn b tx cpu name ent argument k"
  assumes inv: "kinv k" and ent: "ent \<noteq> 0" and al: "sched_alloc_slot k = Some i"
    and st: "find (\<lambda>s. sched_stack_bitmap_tst (k_stack_bitmap k) s = 0) [k_stack_reserved k..<64] = Some p"
  shows "snd r = sint (k_next_tid k)" "j \<noteq> i \<Longrightarrow> task (fst r) j = task k j"
    "tid (pub (task (fst r) i)) = k_next_tid k" "pid (pub (task (fst r) i)) = k_next_tid k"
    "state (pub (task (fst r) i)) = RUNNABLE" "used (task (fst r) i)" "arg (pub (task (fst r) i)) = argument"
    "sched_current_slot k cpu = Some c \<Longrightarrow> parent_tid (task (fst r) i) = sint (tid (pub (task k c))) \<and>
       cwd (task (fst r) i) = sched_cwd_copy (cwd (task k c)) \<and> file_umask (task (fst r) i) = file_umask (task k c)"
    "run_cpu (task (fst r) i) = unat (k_spawn_rr k) mod sched_cpu_cap k"
    "k_ctl (fst r) = k_ctl k" "k_online (fst r) = k_online k"
    "k_next_tid (fst r) = (if k_next_tid k + 1 = 0 then 1 else k_next_tid k + 1)"
    "entry (task (fst r) i) = ent" "sc_pool_slot (stack_ctx (task (fst r) i)) = p"
    "k_spawn_rr (fst r) = k_spawn_rr k + 1" "k_stack_reserved (fst r) = k_stack_reserved k" "k_ticks (fst r) = k_ticks k"
proof -
  have i: "0 < i" "i < 64" "\<not> used (task k i)" using al by (auto simp: sched_alloc_slot_def find_upt_Some)
  define k1 where "k1 = spawn_fill cpu name ent argument i k"
  define k2 where "k2 = fst (sched_stack_alloc_locked i k1)"
  note f = spawn_fill_fields [where cpu = cpu and name = name and ent = ent and argument = argument,
      OF kinv_lens(1) [OF inv] i(2), folded k1_def]
  have e1: "tid (pub (task k1 i)) = k_next_tid k" "pid (pub (task k1 i)) = k_next_tid k"
    "arg (pub (task k1 i)) = argument"
    "k_next_tid k1 = (if k_next_tid k + 1 = 0 then 1 else k_next_tid k + 1)" "k_spawn_rr k1 = k_spawn_rr k"
    "k_ticks k1 = k_ticks k"
    using kinv_lens(1) [OF inv] i(2) by (simp_all add: k1_def spawn_fill_def take_tid_def Let_def spawn_public_def)
  have e2: "k2 = upd_task i (\<lambda>t. t\<lparr>stack_ctx := fresh_stack_ctx p (stack_ctx t)\<rparr>)
       (k1\<lparr>k_stack_bitmap := sched_stack_bitmap_set (k_stack_bitmap k1) p,
          k_mem := sched_stack_zero_slot (sched_stack_pool_slot_base p) (k_mem k1)\<rparr>)"
    using st f(8,9) by (simp add: k2_def sched_stack_alloc_locked_def)
  have e3: "r = (spawn_finish b tx i k2, sint (tid (pub (task (spawn_finish b tx i k2) i))))"
    using al ent st f(8,9)
    by (simp add: r_def sched_spawn_def sched_stack_alloc_locked_def k1_def k2_def spawn_finish_def Let_def)
  have len2: "length (k_tasks k2) = 64" and nt: "k_next_tid k2 = k_next_tid k1"
    "k_spawn_rr k2 = k_spawn_rr k1" "k_stack_reserved k2 = k_stack_reserved k1" "k_ticks k2 = k_ticks k1"
    by (simp_all add: e2 f)
  note g = spawn_finish_task [OF len2 i(1,2), where b = b and tx = tx]
  have t2: "task k2 j = (if j = i then (task k1 i)\<lparr>stack_ctx := fresh_stack_ctx p (stack_ctx (task k1 i))\<rparr> else task k j)" for j
    using i f(1,2) by (simp add: e2 nth_update)
  show "snd r = sint (k_next_tid k)" "j \<noteq> i \<Longrightarrow> task (fst r) j = task k j"
    "tid (pub (task (fst r) i)) = k_next_tid k" "pid (pub (task (fst r) i)) = k_next_tid k"
    "state (pub (task (fst r) i)) = RUNNABLE" "arg (pub (task (fst r) i)) = argument"
    "k_next_tid (fst r) = (if k_next_tid k + 1 = 0 then 1 else k_next_tid k + 1)"
    "k_spawn_rr (fst r) = k_spawn_rr k + 1" "k_stack_reserved (fst r) = k_stack_reserved k" "k_ticks (fst r) = k_ticks k"
    using g e1 f(8,10,12) nt by (simp_all add: e3 t2)
  have cap: "sched_cpu_cap k2 = sched_cpu_cap k" "k_spawn_rr k2 = k_spawn_rr k"
    by (simp_all add: sched_cpu_cap_def e2 f e1)
  have s: "same_sched (upd_runq (unat (k_spawn_rr k) mod sched_cpu_cap k) (\<lambda>b. runq_bit_add b i)
      (upd_task i (\<lambda>t. t\<lparr>run_cpu := unat (k_spawn_rr k) mod sched_cpu_cap k\<rparr>) k2)) (fst r)"
    using spawn_finish_fields [of k2 i b tx] len2 i by (simp add: e3 cap)
  from same_sched_task [OF s, of i] len2 i(2) have v: "sched_view (task (fst r) i) =
      sched_view ((task k2 i)\<lparr>run_cpu := unat (k_spawn_rr k) mod sched_cpu_cap k\<rparr>)" by (simp add: nth_update)
  show "used (task (fst r) i)" "run_cpu (task (fst r) i) = unat (k_spawn_rr k) mod sched_cpu_cap k"
    "sc_pool_slot (stack_ctx (task (fst r) i)) = p"
    using sched_viewD [OF v] f(10) by (simp_all add: t2)
  show "entry (task (fst r) i) = ent" using g f(15) by (simp add: e3 t2)
  show "k_ctl (fst r) = k_ctl k" "k_online (fst r) = k_online k"
    using s by (simp_all add: same_sched_def e2 f)
  have o: "parent_tid (task (fst r) i) = parent_tid (task k1 i)" "cwd (task (fst r) i) = cwd (task k1 i)"
    "file_umask (task (fst r) i) = file_umask (task k1 i)"
    using g by (simp_all add: e3 t2)
  show "sched_current_slot k cpu = Some c \<Longrightarrow> parent_tid (task (fst r) i) = sint (tid (pub (task k c))) \<and>
       cwd (task (fst r) i) = sched_cwd_copy (cwd (task k c)) \<and> file_umask (task (fst r) i) = file_umask (task k c)"
  proof -
    assume c: "sched_current_slot k cpu = Some c"
    then have "c \<noteq> i" "k_current k ! cpu = c" "c < 64" "used (task k c)"
      using i(3) by (auto simp: sched_current_slot_def Let_def split: if_splits)
    then have "parent_tid (task k1 i) = sint (tid (pub (task k c)))" "cwd (task k1 i) = sched_cwd_copy (cwd (task k c))"
      "file_umask (task k1 i) = file_umask (task k c)"
      using kinv_lens(1) [OF inv] i(2)
      by (simp_all add: k1_def spawn_fill_def take_tid_def Let_def sched_current_slot_def of_parent_def)
    then show "parent_tid (task (fst r) i) = sint (tid (pub (task k c))) \<and>
       cwd (task (fst r) i) = sched_cwd_copy (cwd (task k c)) \<and> file_umask (task (fst r) i) = file_umask (task k c)"
      by (simp add: o)
  qed
qed

subsection \<open>Dispatching a task\<close>

lemma dispatch_task:
  fixes b tx cpu k i
  defines "k' \<equiv> sched_run_dispatch b tx cpu k"
  assumes inv: "kinv k" and cpu: "cpu < sched_cpu_cap k" "k_ctl k ! cpu = C_loop"
    and i: "sched_runq_pick_local k cpu 0 = i" "i \<noteq> 0"
  shows "j \<noteq> i \<Longrightarrow> task k' j = task k j"
    "pub (task k' i) = (pub (task k i))\<lparr>state := RUNNING, run_ticks := run_ticks (pub (task k i)) + 1\<rparr>"
    "parent_tid (task k' i) = parent_tid (task k i)" "used (task k' i)" "waitq (task k' i) = None"
    "k_ctl k' = (k_ctl k)[cpu := C_task i]" "k_current k' = (k_current k)[cpu := i]" "k_online k' = k_online k"
    "k_next_tid k' = k_next_tid k" "k_spawn_rr k' = k_spawn_rr k" "k_stack_reserved k' = k_stack_reserved k"
    "k_stack_bitmap k' = k_stack_bitmap k" "k_ticks k' = k_ticks k"
    "k_irq_saved k' = (k_irq_saved k)[cpu := saved_user (task k i)]" "run_cpu (task k' i) = cpu"
    "sc_pool_slot (stack_ctx (task k' i)) = sc_pool_slot (stack_ctx (task k i))" "\<not> is_idle (task k' i)"
proof -
  note p = pick_local [OF inv cpu(1) i] and len = kinv_lens [OF inv]
  have cur: "k_current k ! cpu = 0"
    using kinv_loop [OF inv _ cpu(2)] cpu(1) cpu_cap_le(1) [of k] by simp
  have w: "waitq (task k i) = None" "\<not> is_idle (task k i)" using awake_no_waitq [OF inv] kinv_live(1) [OF inv] p by simp_all
  show "j \<noteq> i \<Longrightarrow> task k' j = task k j"
    "pub (task k' i) = (pub (task k i))\<lparr>state := RUNNING, run_ticks := run_ticks (pub (task k i)) + 1\<rparr>"
    "parent_tid (task k' i) = parent_tid (task k i)" "used (task k' i)" "waitq (task k' i) = None"
    "k_ctl k' = (k_ctl k)[cpu := C_task i]" "k_current k' = (k_current k)[cpu := i]" "k_online k' = k_online k"
    "k_next_tid k' = k_next_tid k" "k_spawn_rr k' = k_spawn_rr k" "k_stack_reserved k' = k_stack_reserved k"
    "k_stack_bitmap k' = k_stack_bitmap k" "k_ticks k' = k_ticks k"
    "k_irq_saved k' = (k_irq_saved k)[cpu := saved_user (task k i)]" "run_cpu (task k' i) = cpu"
    "sc_pool_slot (stack_ctx (task k' i)) = sc_pool_slot (stack_ctx (task k i))" "\<not> is_idle (task k' i)"
    using i cur p(1,2) kinv_live(4) [OF inv, of i] len w
    by (simp_all add: k'_def sched_run_dispatch_def sched_idx_runnable_def sched_pick_next_idx_def
        sched_runq_steal_to_def Let_def sched_runq_del_def upd_runq_def sched_stack_prepare_bootstrap_locked_def
        swap_to_task_def set_state_def nth_update)
qed

subsection \<open>Fields that waking leaves alone\<close>

lemma fold_keeps: "(\<And>x k. g (f x k) = g k) \<Longrightarrow> g (fold f xs k) = g k"
  by (induction xs arbitrary: k) simp_all

lemma wake_up_fields:
  "exit_code (task (wake_up i k) j) = exit_code (task k j)"
  "parent_tid (task (wake_up i k) j) = parent_tid (task k j)"
  "k_current (wake_up i k) = k_current k" "k_ctl (wake_up i k) = k_ctl k"
  by (cases "waitq (task k i)"; cases "the (waitq (task k i))";
      simp add: wake_up_def Let_def sched_detach_waitq_def put_runnable_def sched_runq_add_def
        reset_quantum_def sched_mark_resched_all_def set_wake_tick_def set_state_def upd_runq_def nth_update)+

lemma notify_fields:
  "exit_code (task (notify_parent b i k) j) = exit_code (task k j)"
  "parent_tid (task (notify_parent b i k) j) = parent_tid (task k j)"
  "k_current (notify_parent b i k) = k_current k"
proof -
  have s: "g (sched_wake_slot p k) = g k" if "\<And>i k. g (wake_up i k) = g k" for g :: "kstate \<Rightarrow> 'a" and p k
    using that by (simp add: sched_wake_slot_def)
  have f: "g (wake_child_waiters p k) = g k" if "\<And>i k. g (wake_up i k) = g k" for g :: "kstate \<Rightarrow> 'a" and p k
    unfolding wake_child_waiters_def by (rule fold_keeps) (simp add: wake_if_waiting_def s [OF that])
  have "g (notify_parent b i k) = g k" if "\<And>i k. g (wake_up i k) = g k" for g :: "kstate \<Rightarrow> 'a"
    by (simp add: notify_parent_def f [OF that] s [OF that] split: option.split)
  note n = this
  show "exit_code (task (notify_parent b i k) j) = exit_code (task k j)"
    by (rule n [of "\<lambda>k. exit_code (task k j)"]) (simp add: wake_up_fields)
  show "parent_tid (task (notify_parent b i k) j) = parent_tid (task k j)"
    by (rule n [of "\<lambda>k. parent_tid (task k j)"]) (simp add: wake_up_fields)
  show "k_current (notify_parent b i k) = k_current k"
    by (rule n) (simp add: wake_up_fields)
qed

lemma bury_status:
  assumes "length (k_tasks k) = 64" "i < 64"
  shows "exit_code (task (bury (\<lambda>t. t\<lparr>exit_code := code\<rparr>) i k) i) = code"
  using bury_tasks [of "\<lambda>t. t\<lparr>exit_code := code\<rparr>" i k] assms
  by (auto simp: detach_len set_state_def set_wake_tick_def)

lemma waitq_sleep_task:
  assumes "length (k_tasks k) = 64" "live_current k cpu = Some i"
  shows "tcore (task (sched_waitq_sleep_locked cpu q n k) j) =
      (if j = i then ((pub (task k i))\<lparr>state := BLOCKED, wake_tick := (if n \<noteq> 0 then k_ticks k + n else 0)\<rparr>,
         Some q, True, False) else tcore (task k j))"
    "parent_tid (task (sched_waitq_sleep_locked cpu q n k) j) = parent_tid (task k j)"
    "k_ctl (sched_waitq_sleep_locked cpu q n k) = k_ctl k"
    "k_current (sched_waitq_sleep_locked cpu q n k) = k_current k"
    "k_online (sched_waitq_sleep_locked cpu q n k) = k_online k"
proof -
  have i: "sched_current_slot k cpu = Some i" "\<not> is_idle (task k i)" "i < 64" "used (task k i)"
    using assms(2) by (auto simp: live_current_def sched_current_slot_def Let_def split: option.splits if_splits)
  let ?d = "sched_detach_waitq i k"
  have d: "length (k_tasks ?d) = 64" "parent_tid (task ?d j) = parent_tid (task k j)"
    "k_ctl ?d = k_ctl k" "k_current ?d = k_current k" "k_ticks ?d = k_ticks k" "k_online ?d = k_online k" for j
    using assms(1) by (cases "waitq (task k i)"; cases "the (waitq (task k i))";
        auto simp: sched_detach_waitq_def nth_update)+
  note t = detach_tcore [OF assms(1), of i]
  have e: "length (k_tasks (enter_waitq i q l)) = length (k_tasks l)"
    "parent_tid (task (enter_waitq i q l) j) = parent_tid (task l j)"
    "tcore (task (enter_waitq i q l) j) =
       (if j = i \<and> i < length (k_tasks l) then (pub (task l i), Some q, used (task l i), is_idle (task l i))
        else tcore (task l j))"
    "k_ctl (enter_waitq i q l) = k_ctl l" "k_current (enter_waitq i q l) = k_current l"
    "k_ticks (enter_waitq i q l) = k_ticks l" "k_online (enter_waitq i q l) = k_online l" for l j
    by (cases q; auto simp: enter_waitq_def tcore_def nth_update)+
  have ti: "pub (task ?d i) = pub (task k i)" "used (task ?d i) = used (task k i)"
    "is_idle (task ?d i) = is_idle (task k i)"
    using t [of i] i(3) by (simp_all add: tcore_def)
  define w where "w = enter_waitq i q ?d"
  have w: "length (k_tasks w) = 64" "parent_tid (task w j) = parent_tid (task k j)"
    "tcore (task w j) = (if j = i then (pub (task k i), Some q, True, False) else tcore (task k j))"
    "k_ctl w = k_ctl k" "k_current w = k_current k" "k_online w = k_online k" for j
    using i d ti by (simp_all add: w_def e t)
  have s: "sched_waitq_sleep_locked cpu q n k = sched_mark_resched_all (reset_quantum i
      (upd_task i (set_wake_tick (if n \<noteq> 0 then k_ticks k + n else 0)) (take_off_runq BLOCKED i w)))"
    using i by (simp add: sched_waitq_sleep_locked_def Let_def w_def)
  have x: "tcore (task (sched_waitq_sleep_locked cpu q n k) j) =
      (if j = i then (\<lambda>(p, a, b, c). (p\<lparr>state := BLOCKED, wake_tick := (if n \<noteq> 0 then k_ticks k + n else 0)\<rparr>, a, b, c))
         (tcore (task w i)) else tcore (task w j))"
    using w(1) i(3)
    by (auto simp: s tcore_def sched_mark_resched_all_def reset_quantum_def take_off_runq_def runq_del_tasks
        set_wake_tick_def set_state_def nth_update)
  show "tcore (task (sched_waitq_sleep_locked cpu q n k) j) =
      (if j = i then ((pub (task k i))\<lparr>state := BLOCKED, wake_tick := (if n \<noteq> 0 then k_ticks k + n else 0)\<rparr>,
         Some q, True, False) else tcore (task k j))"
    unfolding x w(3) by simp
  show "parent_tid (task (sched_waitq_sleep_locked cpu q n k) j) = parent_tid (task k j)"
    using w(1,2) by (auto simp: s sched_mark_resched_all_def reset_quantum_def take_off_runq_def runq_del_tasks
        set_wake_tick_def set_state_def nth_update)
  show "k_ctl (sched_waitq_sleep_locked cpu q n k) = k_ctl k"
    "k_current (sched_waitq_sleep_locked cpu q n k) = k_current k"
    "k_online (sched_waitq_sleep_locked cpu q n k) = k_online k"
    using w(4-6) by (simp_all add: s sched_mark_resched_all_def reset_quantum_def take_off_runq_def
        sched_runq_del_def Let_def)
qed

lemma dispatch_waitqs: "k_waitqs (sched_run_dispatch b tx cpu k) = k_waitqs k"
  by (simp add: sched_run_dispatch_def Let_def case_prod_beta sched_runq_del_def upd_runq_def
      sched_stack_prepare_bootstrap_locked_def swap_to_task_def)

lemma spawn_waitqs: "k_waitqs (fst (sched_spawn b tx cpu name ent argument k)) = k_waitqs k"
proof -
  have a: "k_waitqs (sched_runq_add c i k) = k_waitqs k" "k_waitqs (slot_init_stdio i k) = k_waitqs k"
    "k_waitqs (sched_stack_prepare_bootstrap_locked b tx i k) = k_waitqs k" for c i k
    by (simp_all add: sched_runq_add_def Let_def upd_runq_def slot_init_stdio_def case_prod_beta
        sched_stack_prepare_bootstrap_locked_def)
  have f: "k_waitqs (spawn_fill cpu name ent argument i k) = k_waitqs k" for i
    by (simp add: spawn_fill_def take_tid_def Let_def)
  have s: "k_waitqs (fst (sched_stack_alloc_locked i k)) = k_waitqs k" for i k
    by (simp add: sched_stack_alloc_locked_def split: option.split)
  show ?thesis
    using s by (auto simp: sched_spawn_def Let_def a f clear_task_def sched_mark_resched_all_def
        split: option.split prod.split) (metis f fst_conv)+
qed

lemma waitq_sleep_len: "length (k_waitqs (sched_waitq_sleep_locked cpu q n k)) = length (k_waitqs k)"
proof -
  have "length (k_waitqs (sched_detach_waitq i k)) = length (k_waitqs k)" for i
    by (simp add: sched_detach_waitq_def split: option.split)
  then show ?thesis
    by (simp add: sched_waitq_sleep_locked_def Let_def sched_mark_resched_all_def reset_quantum_def
        take_off_runq_def sched_runq_del_def upd_runq_def enter_waitq_def split: option.split)
qed

lemma exit_status:
  assumes "kinv k" "live_current k cpu = Some i"
  shows "exit_code (task (sched_exit_code_locked cpu code k) i) = code"
    "parent_tid (task (sched_exit_code_locked cpu code k) j) = parent_tid (task k j)"
    "k_current (sched_exit_code_locked cpu code k) = k_current k"
proof -
  have cur: "sched_current_slot k cpu = Some i" "\<not> is_idle (task k i)"
    using assms(2) by (auto simp: live_current_def split: option.splits if_splits)
  have i: "i < 64" using current_live(1) [OF assms(1) cur] by simp
  let ?b = "bury (\<lambda>t. t\<lparr>exit_code := code\<rparr>) i k"
  have e: "sched_exit_code_locked cpu code k = sched_mark_resched_all (notify_parent True i ?b)"
    using cur by (simp add: exit_locked_alt)
  show "exit_code (task (sched_exit_code_locked cpu code k) i) = code"
    using bury_status [OF kinv_lens(1) [OF assms(1)] i]
    by (simp add: e sched_mark_resched_all_def notify_fields)
  show "parent_tid (task (sched_exit_code_locked cpu code k) j) = parent_tid (task k j)"
    using bury_task(3) [OF kinv_lens(1) [OF assms(1)] i, of "\<lambda>t. t\<lparr>exit_code := code\<rparr>" j]
    by (simp add: e sched_mark_resched_all_def notify_fields tcore_def)
  show "k_current (sched_exit_code_locked cpu code k) = k_current k"
    using keepsD(2) [OF exit_keeps assms(1)] by (simp add: frame_def)
qed

lemma wake_up_pub:
  "tid (pub (task (wake_up i k) j)) = tid (pub (task k j))"
  "j \<noteq> i \<Longrightarrow> pub (task (wake_up i k) j) = pub (task k j)"
  by (cases "waitq (task k i)"; cases "the (waitq (task k i))";
      simp add: wake_up_def Let_def sched_detach_waitq_def put_runnable_def sched_runq_add_def
        reset_quantum_def sched_mark_resched_all_def set_wake_tick_def set_state_def upd_runq_def nth_update)+

lemma wake_slot_zombie:
  "state (pub (task k i)) = ZOMBIE \<Longrightarrow> state (pub (task (sched_wake_slot p k) i)) = ZOMBIE"
  by (cases "p = i") (auto simp: sched_wake_slot_def wake_up_pub)

lemma fold_holds: "(\<And>x k. P k \<Longrightarrow> P (f x k)) \<Longrightarrow> P k \<Longrightarrow> P (fold f xs k)"
  by (induction xs arbitrary: k) simp_all

lemma notify_zombie:
  assumes "state (pub (task k i)) = ZOMBIE"
  shows "state (pub (task (notify_parent b i' k) i)) = ZOMBIE"
proof -
  have c: "state (pub (task (wake_child_waiters p k) i)) = ZOMBIE" if "state (pub (task k i)) = ZOMBIE" for p k
    unfolding wake_child_waiters_def
    by (rule fold_holds [where P = "\<lambda>k. state (pub (task k i)) = ZOMBIE"])
      (simp_all add: that wake_if_waiting_def wake_slot_zombie)
  show ?thesis using assms by (auto simp: notify_parent_def c wake_slot_zombie split: option.split)
qed

lemma notify_tid: "tid (pub (task (notify_parent b i k) j)) = tid (pub (task k j))"
proof -
  have s: "tid (pub (task (sched_wake_slot p k) j)) = tid (pub (task k j))" for p k
    by (simp add: sched_wake_slot_def wake_up_pub)
  have "tid (pub (task (wake_child_waiters p k) j)) = tid (pub (task k j))" for p k
    unfolding wake_child_waiters_def
    by (rule fold_keeps [of "\<lambda>k. tid (pub (task k j))"]) (simp add: wake_if_waiting_def s)
  then show ?thesis by (simp add: notify_parent_def s split: option.split)
qed

lemma exit_zombie:
  assumes "kinv k" "live_current k cpu = Some i"
  shows "state (pub (task (sched_exit_code_locked cpu code k) i)) = ZOMBIE"
    "tid (pub (task (sched_exit_code_locked cpu code k) j)) = tid (pub (task k j))"
proof -
  have cur: "sched_current_slot k cpu = Some i" "\<not> is_idle (task k i)"
    using assms(2) by (auto simp: live_current_def split: option.splits if_splits)
  have i: "i < 64" using current_live(1) [OF assms(1) cur] by simp
  let ?b = "bury (\<lambda>t. t\<lparr>exit_code := code\<rparr>) i k"
  have e: "sched_exit_code_locked cpu code k = sched_mark_resched_all (notify_parent True i ?b)"
    using cur by (simp add: exit_locked_alt)
  have t: "j \<noteq> i \<Longrightarrow> tcore (task ?b j) = tcore (task k j)"
    "tcore (task ?b i) = ((pub (task k i))\<lparr>state := ZOMBIE, wake_tick := 0\<rparr>, None, used (task k i), is_idle (task k i))" for j
    by (rule bury_task [OF kinv_lens(1) [OF assms(1)] i]; simp add: tcore_def)+
  show "state (pub (task (sched_exit_code_locked cpu code k) i)) = ZOMBIE"
    using t(2) by (simp add: e sched_mark_resched_all_def notify_zombie tcore_def)
  show "tid (pub (task (sched_exit_code_locked cpu code k) j)) = tid (pub (task k j))"
    using t(1) [of j] t(2) by (cases "j = i") (simp_all add: e sched_mark_resched_all_def notify_tid tcore_def)
qed

end
