(* ===== verification/Sched_Demo.thy ===== *)
theory Sched_Demo
  imports Sched_Facts
begin

text \<open>
  One run of the scheduler on two processors: the boot processor starts \<open>init\<close>, which starts
  \<open>sh\<close>, so that each processor has a task. The properties of theory \<open>Sched_Props\<close> are applied
  at its states.
\<close>

definition demo_boot :: kstate where
  "demo_boot = \<lparr>k_ticks = 0, k_user_ticks = 0, k_system_ticks = 0, k_idle_ticks = 0, k_need_resched = False,
     k_tasks = [], k_current = [], k_next_tid = 0, k_spawn_rr = 0, k_runq = [], k_stack_bitmap = [0, 0],
     k_stack_reserved = 0, k_sched_ctx = replicate 32 zero_ctx, k_waitqs = [[0, 0]], k_pipes = cleared_pipes,
     k_online = 2, k_mem = (\<lambda>a. 0), k_mmu_calls = [], k_vfork_valid = False, k_vfork_child = 0,
     k_irq_saved = replicate 32 \<lparr>us_csp = 0, us_dsp = 0, us_call_base = 0, us_data_base = 0\<rparr>,
     k_irq_from_user = replicate 32 False, k_irq_frame_masked = (\<lambda>i. 0), k_live = replicate 32 zero_ctx,
     k_ctl = replicate 32 C_loop\<rparr>"

definition demo_init :: kstate where
  "demo_init = sched_init 1 2 demo_boot"

definition demo_spawned :: kstate where
  "demo_spawned = fst (sched_spawn 0 0 0 (Some ''init'') 5 0 demo_init)"

definition demo_running :: kstate where
  "demo_running = sched_run_dispatch 0 0 0 demo_spawned"

definition demo_forked :: kstate where
  "demo_forked = fst (sched_spawn 0 0 0 (Some ''sh'') 5 0 demo_running)"

definition demo_two :: kstate where
  "demo_two = sched_run_dispatch 0 0 1 demo_forked"

lemma demo_init_reach: "kreach demo_init"
  unfolding demo_init_def by (rule kreach.init) (simp add: powered_on_def demo_boot_def)

lemma demo_spawned_reach: "kreach demo_spawned"
  unfolding demo_spawned_def by (rule kreach.step [OF demo_init_reach kstep.spawn])

lemmas demo_init_fields = init_fields [where idle = 1 and cpus = 2 and k = demo_boot, folded demo_init_def]

lemma demo_cap: "k_online k = 2 \<Longrightarrow> sched_cpu_cap k = 2"
  by (simp add: sched_cpu_cap_def)

lemma demo_init_online: "k_online demo_init = 2" "reserved_stacks 2 = 2"
  unfolding demo_init_fields by (simp_all add: demo_boot_def reserved_stacks_def)

lemma demo_init_ctl: "k_ctl demo_init = replicate 32 C_loop"
  unfolding demo_init_fields by (simp add: demo_boot_def)

lemma demo_init_alloc: "sched_alloc_slot demo_init = Some 1"
  by (simp add: sched_alloc_slot_def find_upt_Some demo_init_fields)

lemma demo_init_stack:
  "find (\<lambda>s. sched_stack_bitmap_tst (k_stack_bitmap demo_init) s = 0) [k_stack_reserved demo_init..<64] = Some 2"
  using bitmap_prefix [of 2] by (simp add: find_upt_Some demo_init_fields demo_init_online)

lemma demo_entry: "(5 :: u32) \<noteq> 0"
  by simp

lemma demo_init_current: "sched_current_slot demo_init 0 = Some 0"
  using demo_init_fields(1,6) by (simp add: sched_current_slot_def sched_view_def)

lemmas demo_spawned_fields = spawn_success [where b = 0 and tx = 0 and cpu = 0 and name = "Some ''init''" and
    ent = 5 and argument = 0, OF kreach_kinv [OF demo_init_reach] demo_entry demo_init_alloc demo_init_stack,
    folded demo_spawned_def]

lemma demo_spawned_task:
  "state (pub (task demo_spawned 1)) = RUNNABLE" "used (task demo_spawned 1)" "run_cpu (task demo_spawned 1) = 0"
  "tid (pub (task demo_spawned 1)) = 1" "k_online demo_spawned = 2" "k_ctl demo_spawned = replicate 32 C_loop"
  "1 < j \<Longrightarrow> j < 64 \<Longrightarrow> \<not> used (task demo_spawned j)" "k_spawn_rr demo_spawned = 1" "k_next_tid demo_spawned = 2"
  "sc_pool_slot (stack_ctx (task demo_spawned 1)) = 2" "k_stack_reserved demo_spawned = 2"
  using demo_spawned_fields demo_init_fields(3,11-13) demo_init_online demo_init_ctl
  by (simp_all add: demo_cap)

lemma demo_spawned_loop: "0 < sched_cpu_cap demo_spawned" "k_ctl demo_spawned ! 0 = C_loop"
  using demo_spawned_task by (simp_all add: demo_cap)

lemma demo_in_task: "k_online k = 2 \<Longrightarrow> k_ctl k ! c = C_task i \<Longrightarrow> c < 2 \<Longrightarrow> in_task k c"
  by (simp add: in_task_def demo_cap)

lemma demo_spawned_pick: "sched_runq_pick_local demo_spawned 0 0 = 1"
proof -
  have "find (\<lambda>i. used (task demo_spawned i) \<and> state (pub (task demo_spawned i)) = RUNNABLE \<and>
      run_cpu (task demo_spawned i) = 0) [1..<64] = Some 1"
    using demo_spawned_task by (simp add: find_upt_Some)
  then show ?thesis
    using pick_from_zero [OF kreach_kinv [OF demo_spawned_reach], of 0] demo_spawned_task(5) by (simp add: demo_cap)
qed

lemma demo_running_reach: "kreach demo_running"
  unfolding demo_running_def
  by (rule kreach.step [OF demo_spawned_reach kstep.dispatch]) (simp_all add: demo_cap demo_spawned_task)

lemmas demo_running_fields = dispatch_task [OF kreach_kinv [OF demo_spawned_reach] demo_spawned_loop demo_spawned_pick
    one_neq_zero, where b = 0 and tx = 0, folded demo_running_def]

lemma demo_running_task:
  "state (pub (task demo_running 1)) = RUNNING" "used (task demo_running 1)" "run_cpu (task demo_running 1) = 0"
  "tid (pub (task demo_running 1)) = 1" "k_online demo_running = 2"
  "k_ctl demo_running = (replicate 32 C_loop)[0 := C_task 1]" "k_current demo_running ! 0 = 1"
  "1 < j \<Longrightarrow> j < 64 \<Longrightarrow> \<not> used (task demo_running j)" "k_spawn_rr demo_running = 1" "k_next_tid demo_running = 2"
  "sc_pool_slot (stack_ctx (task demo_running 1)) = 2" "k_stack_reserved demo_running = 2"
  "\<not> is_idle (task demo_running 1)"
  using demo_running_fields demo_spawned_task kinv_lens(2) [OF kreach_kinv [OF demo_spawned_reach]]
  by (simp_all add: demo_cap)

lemma demo_running_current: "sched_current_slot demo_running 0 = Some 1"
  using demo_running_task by (simp add: sched_current_slot_def)

lemma below_two: "1 \<le> j \<and> j < 2 \<longleftrightarrow> j = (1 :: nat)"
  by auto

lemma demo_running_alloc: "sched_alloc_slot demo_running = Some 2"
  unfolding sched_alloc_slot_def find_upt_Some below_two using demo_running_task(2,8) by auto

lemma demo_running_stack:
  "find (\<lambda>s. sched_stack_bitmap_tst (k_stack_bitmap demo_running) s = 0)
     [k_stack_reserved demo_running..<64] = Some 3"
proof -
  have s: "stack_ok demo_running" using kreach_kinv [OF demo_running_reach] by (simp add: kinv_def)
  have live: "live_task demo_running i \<longleftrightarrow> i = 1" for i using demo_running_task(2) demo_running_task(8) [of i] by (cases "i = 1") auto
  have "sched_stack_bitmap_tst (k_stack_bitmap demo_running) s \<noteq> 0 \<longleftrightarrow> s = 2" if "2 \<le> s" "s < 64" for s
    using stack_okD(5) [OF s, of s] that demo_running_task(11,12) unfolding live by auto
  then show ?thesis by (auto simp: find_upt_Some demo_running_task(12))
qed

lemma demo_forked_reach: "kreach demo_forked"
  unfolding demo_forked_def by (rule kreach.step [OF demo_running_reach kstep.spawn])

lemmas demo_forked_fields = spawn_success [where b = 0 and tx = 0 and cpu = 0 and name = "Some ''sh''" and
    ent = 5 and argument = 0, OF kreach_kinv [OF demo_running_reach] demo_entry demo_running_alloc demo_running_stack,
    folded demo_forked_def]

lemma demo_forked_task:
  "task demo_forked 1 = task demo_running 1" "state (pub (task demo_forked 2)) = RUNNABLE" "used (task demo_forked 2)"
  "run_cpu (task demo_forked 2) = 1" "tid (pub (task demo_forked 2)) = 2" "parent_tid (task demo_forked 2) = 1"
  "k_online demo_forked = 2" "k_ctl demo_forked = (replicate 32 C_loop)[0 := C_task 1]"
  "2 < j \<Longrightarrow> j < 64 \<Longrightarrow> \<not> used (task demo_forked j)"
  using demo_forked_fields [unfolded demo_running_task] demo_running_task demo_running_current
  by (simp_all add: demo_cap)

lemma demo_forked_loop: "1 < sched_cpu_cap demo_forked" "k_ctl demo_forked ! 1 = C_loop"
  using demo_forked_task by (simp_all add: demo_cap)

lemma two_not_zero: "(2 :: nat) \<noteq> 0"
  by simp

lemma demo_forked_find:
  "find (\<lambda>i. used (task demo_forked i) \<and> state (pub (task demo_forked i)) = RUNNABLE \<and>
      run_cpu (task demo_forked i) = 1) [1..<64] = Some 2"
proof -
  have "run_cpu (task demo_forked 1) \<noteq> 1" using demo_forked_task(1) demo_running_task(3) by simp
  then show ?thesis unfolding find_upt_Some below_two using demo_forked_task(2-4) by auto
qed

lemma demo_forked_pick: "sched_runq_pick_local demo_forked 1 0 = 2"
  using pick_from_zero [OF kreach_kinv [OF demo_forked_reach] demo_forked_loop(1)] demo_forked_find by simp

lemma demo_two_reach: "kreach demo_two"
  unfolding demo_two_def
  by (rule kreach.step [OF demo_forked_reach kstep.dispatch]) (simp_all add: demo_cap demo_forked_task)

lemmas demo_two_fields = dispatch_task [OF kreach_kinv [OF demo_forked_reach] demo_forked_loop demo_forked_pick
    two_not_zero, where b = 0 and tx = 0, folded demo_two_def]

lemma demo_two_len: "0 < length (k_current demo_forked)" "1 < length (k_current demo_forked)"
  using kinv_lens(2) [OF kreach_kinv [OF demo_forked_reach]] by simp_all

lemma demo_current_running: "k_current demo_forked ! 0 = 1"
  using kinv_on_cpu(4) [OF kreach_kinv [OF demo_forked_reach], of 0 1] demo_forked_task(8) by simp

lemma demo_two_task:
  "task demo_two 1 = task demo_running 1" "state (pub (task demo_two 2)) = RUNNING" "used (task demo_two 2)"
  "run_cpu (task demo_two 2) = 1" "tid (pub (task demo_two 2)) = 2" "parent_tid (task demo_two 2) = 1"
  "k_online demo_two = 2" "k_ctl demo_two = (replicate 32 C_loop)[0 := C_task 1, 1 := C_task 2]"
  "2 < j \<Longrightarrow> j < 64 \<Longrightarrow> \<not> used (task demo_two j)" "k_current demo_two ! 0 = 1" "k_current demo_two ! 1 = 2"
  "\<not> is_idle (task demo_two 2)"
  using demo_two_fields(1-4,6-8,15,17) demo_forked_task demo_two_len demo_current_running
  by (simp_all add: nth_update)

lemma demo_two_ticks: "k_ticks demo_two = 0"
  using demo_two_fields(13) demo_forked_fields(17) demo_running_fields(13) demo_spawned_fields(17)
    demo_init_fields(10) by simp

lemma demo_two_current: "live_current demo_two 0 = Some 1" "live_current demo_two 1 = Some 2"
  unfolding live_current_def sched_current_slot_def Let_def demo_two_task(10,11)
  using demo_two_task(1,3,12) demo_running_task(2,13) by simp_all

end
