(* ===== verification/Sched_Props.thy ===== *)
theory Sched_Props
  imports Sched_Demo
begin

text \<open>
  The properties of the scheduler. Those of every reachable state rest on the invariant
  (\<open>kreach_kinv\<close>), those of one operation on the facts of theory \<open>Sched_Facts\<close>. Each is
  followed by its application to a state of the run in theory \<open>Sched_Demo\<close>.
\<close>

subsection \<open>Every reachable state\<close>





lemma stack_base:
  assumes "s < 64"
  shows "unat (sched_stack_pool_slot_base s) = 0x04000000 - 73728 * 64 + 73728 * s"
proof -
  have "sched_stack_pool_slot_base s = of_nat (0x04000000 - 73728 * 64 + 73728 * s)"
    by (simp add: sched_stack_pool_slot_base_def)
  moreover have "0x04000000 - 73728 * 64 + 73728 * s < 4294967296" using assms by simp
  ultimately show ?thesis by (simp only: unat_of_nat_u32)
qed



subsection \<open>Waking\<close>

lemma reach_wake: "kreach k \<Longrightarrow> kreach (sched_waitq_wake_all q k)"
  by (rule kreach.step [OF _ kstep.wake_all])

lemma runnable_queued:
  assumes "kinv k" "0 < i" "i < 64" "used (task k i)" "state (pub (task k i)) = RUNNABLE"
  shows "runq_bit_tst (k_runq k ! run_cpu (task k i)) i"
  using assms kinv_live(3) [OF assms(1-4)] by (auto simp: kinv_def runq_ok_def)

lemma waiter_live:
  assumes "kinv k" "j < 64" "waitq (task k j) = Some q"
  shows "0 < j" "used (task k j)"
  using assms kinv_waitq(2) [OF assms] awake_no_waitq [OF assms(1,2)] kinv_idle [OF assms(1)]
  by (cases "j = 0"; simp)+

text \<open>C21. No wake-up is lost: after \<open>sched_waitq_wake_all\<close> every task that slept in the queue is
  runnable, out of the wait queue, without a pending time-out and in the run queue of its
  processor, and every other task is as before.\<close>

theorem wake_all_wakes_waiters:
  fixes k q
  defines "k' \<equiv> sched_waitq_wake_all q k"
  assumes "kreach k" "waitq_valid k q" "j < 64"
  shows "if waitq (task k j) = Some q
     then state (pub (task k' j)) = RUNNABLE \<and> waitq (task k' j) = None \<and> wake_tick (pub (task k' j)) = 0 \<and>
       runq_bit_tst (k_runq k' ! run_cpu (task k' j)) j
     else pub (task k' j) = pub (task k j) \<and> waitq (task k' j) = waitq (task k j)"
proof -
  note inv = kreach_kinv [OF assms(2)] and inv' = kreach_kinv [OF reach_wake [OF assms(2)], of q, folded k'_def]
  have t: "tcore (task k' j) = (if waitq (task k j) = Some q \<and> 0 < j \<and> j < 64
      then awake (tcore (task k j)) else tcore (task k j))"
    unfolding k'_def sched_waitq_wake_all_def by (rule waitq_fold_tcore [OF inv assms(3)])
  show ?thesis
    using t waiter_live [OF inv assms(4), of q] assms(4) runnable_queued [OF inv', of j]
    by (auto simp: tcore_def awake_def)
qed

definition demo_waiting :: kstate where
  "demo_waiting = sched_waitq_sleep 0 (Ext_waitq 0) 0 demo_two"

lemma demo_two_waitqs: "length (k_waitqs demo_two) = 1"
proof -
  have "length (k_waitqs demo_init) = 1" unfolding demo_init_fields by (simp add: demo_boot_def)
  moreover have "k_waitqs demo_two = k_waitqs demo_init"
    unfolding demo_two_def demo_forked_def demo_running_def demo_spawned_def
    by (simp add: dispatch_waitqs spawn_waitqs)
  ultimately show ?thesis by simp
qed

lemma demo_waiting_reach: "kreach demo_waiting"
  unfolding demo_waiting_def
  by (rule kreach.step [OF demo_two_reach kstep.wait])
    (use demo_in_task [of demo_two 0 1] demo_two_task(7,8) demo_two_waitqs in simp_all)

lemmas demo_waiting_task = waitq_sleep_task [OF kinv_lens(1) [OF kreach_kinv [OF demo_two_reach]]
    demo_two_current(1), of "Ext_waitq 0" 0, folded sched_waitq_sleep_def, folded demo_waiting_def]

lemma demo_waiting_states:
  "waitq (task demo_waiting 1) = Some (Ext_waitq 0)" "state (pub (task demo_waiting 1)) = BLOCKED"
  "waitq (task demo_waiting 2) \<noteq> Some (Ext_waitq 0)" "state (pub (task demo_waiting 2)) = RUNNING"
  "waitq_valid demo_waiting (Ext_waitq 0)"
  using demo_waiting_task(1) [of 1] demo_waiting_task(1) [of 2] demo_two_task(2) demo_two_fields(5) demo_two_waitqs
  by (simp_all add: tcore_def demo_waiting_def sched_waitq_sleep_def waitq_sleep_len)

theorem wake_all_wakes_waiters_witness:
  "state (pub (task demo_waiting 1)) = BLOCKED \<and>
   state (pub (task (sched_waitq_wake_all (Ext_waitq 0) demo_waiting) 1)) = RUNNABLE \<and>
   state (pub (task (sched_waitq_wake_all (Ext_waitq 0) demo_waiting) 2)) = RUNNING"
  using wake_all_wakes_waiters [OF demo_waiting_reach demo_waiting_states(5), of 1]
    wake_all_wakes_waiters [OF demo_waiting_reach demo_waiting_states(5), of 2] demo_waiting_states by simp

text \<open>C22. The timer wakes sleepers in time: on the tick that reaches a task's wake time the task,
  asleep or blocked with a time-out, becomes runnable in the run queue of its processor; the
  tick changes the state of no other task.\<close>

theorem tick_wakes_due:
  fixes k cpu
  defines "k' \<equiv> schedule_tick cpu k"
  assumes "kreach k" "cpu < sched_cpu_cap k" "j < 64"
  shows "if used (task k j) \<and> asleep (state (pub (task k j))) \<and> wake_tick (pub (task k j)) \<noteq> 0 \<and>
       wake_tick (pub (task k j)) \<le> k_ticks k + 1
     then state (pub (task k' j)) = RUNNABLE \<and> waitq (task k' j) = None \<and>
       runq_bit_tst (k_runq k' ! run_cpu (task k' j)) j
     else pub (task k' j) = pub (task k j) \<and> waitq (task k' j) = waitq (task k j)"
proof -
  let ?k0 = "k\<lparr>k_ticks := k_ticks k + 1\<rparr>"
  note inv = kreach_kinv [OF assms(2)]
  have inv': "kinv k'" unfolding k'_def by (rule keepsD(1) [OF tick_keeps inv])
  have e: "task ?k0 j = task k j" by simp
  have inv0: "kinv ?k0" by (rule kinv_cong [OF inv]) (simp add: same_sched_def)
  have "tcore (task k' j) = tcore (task (sched_try_wake_sleepers (k_ticks k + 1) ?k0) j)"
    by (simp add: k'_def schedule_tick_def Let_def tcore_def nth_update)
  also note sleepers_tcore [OF inv0]
  finally have t: "tcore (task k' j) =
    (if j < 64 \<and> used (task k j) \<and> asleep (state (pub (task k j))) \<and>
        wake_tick (pub (task k j)) \<noteq> 0 \<and> wake_tick (pub (task k j)) \<le> k_ticks k + 1
     then awake (tcore (task k j)) else tcore (task k j))" by (simp only: e)
  have "0 < j" if "asleep (state (pub (task k j)))" using that kinv_idle [OF inv] by (cases "j = 0") auto
  with t assms(4) runnable_queued [OF inv', of j] show ?thesis by (auto simp: tcore_def awake_def)
qed

definition demo_sleeping :: kstate where
  "demo_sleeping = sched_sleep_ticks_locked 0 1 demo_two"

lemma demo_sleeping_reach: "kreach demo_sleeping"
  unfolding demo_sleeping_def
  by (rule kreach.step [OF demo_two_reach kstep.sleep])
    (use demo_in_task [of demo_two 0 1] demo_two_task(7,8) in simp)

lemma demo_sleeping_task:
  "state (pub (task demo_sleeping 1)) = SLEEPING" "wake_tick (pub (task demo_sleeping 1)) = 1"
  "used (task demo_sleeping 1)" "k_ticks demo_sleeping = 0" "k_online demo_sleeping = 2"
proof -
  have c: "sched_current_slot demo_two 0 = Some 1" "\<not> is_idle (task demo_two 1)"
    using demo_two_current(1) by (auto simp: live_current_def split: option.splits if_splits)
  have u: "1 < length (k_tasks demo_two)" "used (task demo_two 1)"
    using kinv_lens(1) [OF kreach_kinv [OF demo_two_reach]] demo_two_task(1) demo_running_task(2) by simp_all
  show "state (pub (task demo_sleeping 1)) = SLEEPING" "wake_tick (pub (task demo_sleeping 1)) = 1"
    "used (task demo_sleeping 1)" "k_ticks demo_sleeping = 0" "k_online demo_sleeping = 2"
    using c u demo_two_ticks demo_two_task(7)
    by (simp_all add: demo_sleeping_def sched_sleep_ticks_locked_def Let_def sched_mark_resched_all_def
        reset_quantum_def take_off_runq_def sched_runq_del_def upd_runq_def set_wake_tick_def set_state_def)
qed

theorem tick_wakes_due_witness:
  "state (pub (task demo_sleeping 1)) = SLEEPING \<and> state (pub (task (schedule_tick 1 demo_sleeping) 1)) = RUNNABLE"
  using tick_wakes_due [OF demo_sleeping_reach, of 1 1] demo_sleeping_task by (simp add: demo_cap)

subsection \<open>Dispatching\<close>

text \<open>C23. The dispatching loop on a processor takes the runnable task with the lowest slot that is
  assigned to the processor: it gets the processor, is marked as running and is taken from the
  run queue. If there is none, the processor idles. A lower slot thus always goes first.\<close>

theorem dispatch_takes_lowest:
  fixes b tx cpu k
  defines "k' \<equiv> sched_run_dispatch b tx cpu k"
  assumes "kreach k" "cpu < sched_cpu_cap k" "k_ctl k ! cpu = C_loop"
  shows "case find (\<lambda>i. used (task k i) \<and> state (pub (task k i)) = RUNNABLE \<and> run_cpu (task k i) = cpu) [1..<64] of
     None \<Rightarrow> k_ctl k' ! cpu = C_loop \<and> k_current k' ! cpu = 0 \<and> k_tasks k' = k_tasks k
   | Some i \<Rightarrow> k_ctl k' ! cpu = C_task i \<and> k_current k' ! cpu = i \<and> state (pub (task k' i)) = RUNNING \<and>
       \<not> runq_bit_tst (k_runq k' ! cpu) i \<and> k_irq_saved k' = (k_irq_saved k)[cpu := saved_user (task k i)] \<and>
       (\<forall>j. j \<noteq> i \<longrightarrow> task k' j = task k j)"
proof -
  note inv = kreach_kinv [OF assms(2)]
  have c: "cpu < 32" using assms(3) cpu_cap_le(1) [of k] by simp
  have reach': "kreach k'" unfolding k'_def by (rule kreach.step [OF assms(2) kstep.dispatch [OF assms(3,4)]])
  let ?F = "find (\<lambda>i. used (task k i) \<and> state (pub (task k i)) = RUNNABLE \<and> run_cpu (task k i) = cpu) [1..<64]"
  note pick = pick_from_zero [OF inv assms(3)]
  show ?thesis
  proof (cases ?F)
    case None
    then have "k' = k\<lparr>k_need_resched := False, k_current := (k_current k)[cpu := 0]\<rparr>"
      using dispatch_none [OF inv assms(3,4)] pick by (simp add: k'_def)
    then show ?thesis using None kinv_lens(2) [OF inv] c assms(4) by simp
  next
    case (Some i)
    then have i: "0 < i" "i < 64" by (simp_all add: find_upt_Some)
    have p: "sched_runq_pick_local k cpu 0 = i" "i \<noteq> 0" using pick Some i by simp_all
    note d = dispatch_task [OF inv assms(3,4) p, where b = b and tx = tx, folded k'_def]
    have r: "state (pub (task k' i)) = RUNNING" using d(2) by simp
    then have "\<not> runq_bit_tst (k_runq k' ! cpu) i"
      using kreach_kinv [OF reach'] c i by (auto simp: kinv_def runq_ok_def)
    then show ?thesis using Some d r c kinv_lens(2,4) [OF inv] by simp
  qed
qed

theorem dispatch_takes_lowest_witness:
  "k_ctl (sched_run_dispatch 0 0 1 demo_forked) ! 1 = C_task 2"
proof -
  have "find (\<lambda>i. used (task demo_forked i) \<and> state (pub (task demo_forked i)) = RUNNABLE \<and>
      run_cpu (task demo_forked i) = 1) [1..<64] = Some 2"
    using demo_forked_find .
  then show ?thesis
    using dispatch_takes_lowest [OF demo_forked_reach demo_forked_loop, of 0 0] by simp
qed

subsection \<open>Exit and wait\<close>

text \<open>C24. The end of a task reaches its parent: when a task exits while its parent waits for its
  children, the task becomes a zombie with the given exit code and out of every wait queue, the
  parent becomes runnable, and every other task is as before.\<close>

theorem exit_wakes_parent:
  fixes k cpu code
  defines "k' \<equiv> sched_exit_code_locked cpu code k"
  assumes "kreach k" "live_current k cpu = Some i" "parent_slot k i = Some p" "p \<noteq> i"
    and "waitq (task k p) = Some (Child_waitq p)"
  shows "state (pub (task k' i)) = ZOMBIE \<and> exit_code (task k' i) = code \<and> waitq (task k' i) = None \<and>
    state (pub (task k' p)) = RUNNABLE \<and> waitq (task k' p) = None \<and>
    runq_bit_tst (k_runq k' ! run_cpu (task k' p)) p \<and>
    (\<forall>j. j \<noteq> i \<and> j \<noteq> p \<longrightarrow> pub (task k' j) = pub (task k j) \<and> waitq (task k' j) = waitq (task k j))"
proof -
  note inv = kreach_kinv [OF assms(2)]
  have inv': "kinv k'" unfolding k'_def by (rule keepsD(1) [OF exit_keeps inv])
  note t = exit_effect [OF inv assms(3-6), of code, folded k'_def]
  have p: "p < 64" using assms(4) find_by_tid_lt by (auto simp: parent_slot_def split: if_splits)
  have "exit_code (task k' i) = code" unfolding k'_def by (rule exit_status [OF inv assms(3)])
  moreover have "runq_bit_tst (k_runq k' ! run_cpu (task k' p)) p"
    using t [of p] waiter_live [OF inv p assms(6)] p
    by (intro runnable_queued [OF inv']) (simp_all add: tcore_def awake_def)
  moreover have "pub (task k' j) = pub (task k j) \<and> waitq (task k' j) = waitq (task k j)" if "j \<noteq> i" "j \<noteq> p" for j
    using t [of j] that by (simp add: tcore_def)
  ultimately show ?thesis
    using t [of i] t [of p] assms(5) by (simp add: tcore_def awake_def)
qed

definition demo_parent_waits :: kstate where
  "demo_parent_waits = sched_waitq_sleep 0 (Child_waitq 1) 0 demo_two"

lemma demo_parent_waits_reach: "kreach demo_parent_waits"
  unfolding demo_parent_waits_def
  by (rule kreach.step [OF demo_two_reach kstep.wait])
    (use demo_in_task [of demo_two 0 1] demo_two_task(7,8) demo_two_current(1) in
      \<open>auto simp: live_current_def split: option.splits if_splits\<close>)

lemmas demo_parent_waits_task = waitq_sleep_task [OF kinv_lens(1) [OF kreach_kinv [OF demo_two_reach]]
    demo_two_current(1), of "Child_waitq 1" 0, folded sched_waitq_sleep_def, folded demo_parent_waits_def]

lemma demo_parent_waits_states:
  "live_current demo_parent_waits 1 = Some 2" "parent_slot demo_parent_waits 2 = Some 1"
  "waitq (task demo_parent_waits 1) = Some (Child_waitq 1)" "state (pub (task demo_parent_waits 1)) = BLOCKED"
proof -
  note t1 = demo_parent_waits_task(1) [of 1] and t2 = demo_parent_waits_task(1) [of 2]
  show w: "waitq (task demo_parent_waits 1) = Some (Child_waitq 1)" "state (pub (task demo_parent_waits 1)) = BLOCKED"
    using t1 by (simp_all add: tcore_def)
  show "live_current demo_parent_waits 1 = Some 2"
    using t2 demo_parent_waits_task(4) demo_two_task(3,11,12)
    by (simp add: live_current_def sched_current_slot_def tcore_def)
  have "find (\<lambda>i. used (task demo_parent_waits i) \<and> tid (pub (task demo_parent_waits i)) = 1) [1..<64] = Some 1"
    using t1 demo_two_task(1) demo_running_task(2,4) by (simp add: find_upt_Some tcore_def)
  moreover have "parent_tid (task demo_parent_waits 2) = 1"
    using demo_parent_waits_task(2) [of 2] demo_two_task(6) by simp
  ultimately show "parent_slot demo_parent_waits 2 = Some 1"
    by (simp add: parent_slot_def sched_find_by_tid_def)
qed

theorem exit_wakes_parent_witness:
  "state (pub (task demo_parent_waits 1)) = BLOCKED \<and>
   state (pub (task (sched_exit_code_locked 1 7 demo_parent_waits) 1)) = RUNNABLE \<and>
   state (pub (task (sched_exit_code_locked 1 7 demo_parent_waits) 2)) = ZOMBIE"
  using exit_wakes_parent [OF demo_parent_waits_reach demo_parent_waits_states(1-2) _ demo_parent_waits_states(3), of 7]
    demo_parent_waits_states(4) by simp

lemma exit_then_wait:
  fixes k cpu code i
  defines "k' \<equiv> sched_exit_code_locked cpu code k" and "t \<equiv> sint (tid (pub (task k i)))"
  assumes "kreach k" "live_current k cpu = Some i" "live_current k pc = Some p" "p \<noteq> i"
    and "parent_tid (task k i) = sint (tid (pub (task k p)))" "0 < t"
    and "\<forall>j. live_task k j \<and> tid (pub (task k j)) = tid (pub (task k i)) \<longrightarrow> j = i"
  shows "sched_waitpid pc t options k' = (reap_slot i k', t, Some (push_bit 8 (code AND 0xFF)))"
    "kinv k'" "live_task k' i" "k_ctl k' = k_ctl k"
proof -
  note inv = kreach_kinv [OF assms(3)]
  have cur: "sched_current_slot k cpu = Some i" "\<not> is_idle (task k i)" "sched_current_slot k pc = Some p" "\<not> is_idle (task k p)"
    using assms(4,5) by (auto simp: live_current_def split: option.splits if_splits)
  note i = current_live(1) [OF inv cur(1,2)]
  have kp: "keeps k k'" unfolding k'_def by (rule exit_keeps)
  note inv' = keepsD(1) [OF kp inv] and fr = frameD [OF keepsD(2) [OF kp inv]]
  note z = exit_zombie [OF inv assms(4), of code, folded k'_def] and st = exit_status [OF inv assms(4), of code, folded k'_def]
  have c': "sched_current_slot k' pc = Some p" "\<not> is_idle (task k' p)"
    using frame_current [OF keepsD(2) [OF kp inv], of pc] cur(3,4) fr(6) by simp_all
  have i': "live_task k' i" "\<not> is_idle (task k' i)" using i cur(2) fr(4,6) by simp_all
  have tw: "tid (pub (task k j)) = word_of_int t \<longleftrightarrow> tid (pub (task k j)) = tid (pub (task k i))" for j
    by (simp add: t_def)
  have ch: "sched_task_is_child_of (task k' j) (sint (tid (pub (task k' p)))) t \<longleftrightarrow>
      used (task k j) \<and> \<not> is_idle (task k j) \<and> parent_tid (task k j) = sint (tid (pub (task k p))) \<and>
      tid (pub (task k j)) = tid (pub (task k i))" for j
    using assms(8) fr(4,6) tw [of j] by (simp add: sched_task_is_child_of_def z(2) st(2))
  have r: "reap_target (sint (tid (pub (task k' p)))) t k' = Some i"
    unfolding reap_target_def find_upt_Some ch
  proof (intro conjI allI impI)
    fix j assume j: "1 \<le> j \<and> j < i"
    show "\<not> ((used (task k j) \<and> \<not> is_idle (task k j) \<and> parent_tid (task k j) = sint (tid (pub (task k p))) \<and>
        tid (pub (task k j)) = tid (pub (task k i))) \<and> state (pub (task k' j)) = ZOMBIE)"
      using spec [OF assms(9), of j] j i by auto
  qed (use i cur(2) assms(7) z(1) in auto)
  show "sched_waitpid pc t options k' = (reap_slot i k', t, Some (push_bit 8 (code AND 0xFF)))"
    using c' r assms(8) by (simp add: sched_waitpid_def try_reap_alt z(2) st(1) t_def)
  show "kinv k'" "live_task k' i" "k_ctl k' = k_ctl k" using inv' i' fr(1) by simp_all
qed


lemma demo_two_tids:
  assumes "live_task demo_two j" "tid (pub (task demo_two j)) = tid (pub (task demo_two 2))"
  shows "j = 2"
proof -
  have "j \<noteq> 1" using assms(2) demo_two_task(1,5) demo_running_task(4) by auto
  moreover have "\<not> 2 < j" using assms(1) demo_two_task(9) [of j] by blast
  ultimately show ?thesis using assms(1) by linarith
qed


subsection \<open>Creation\<close>

text \<open>C26. \<open>sched_spawn\<close> without an entry function, when the slots 1 to 63 are all used, or when every
  stack above the reserved ones is taken, fails and leaves every used task as it was, with the
  slot that it had begun to fill unused again. Otherwise it returns the next task number; the
  lowest unused slot above 0 holds a runnable task with this number, the given entry and argument,
  the caller as its parent and the lowest free stack, which is taken now, in the run queue of the
  processor that was next in turn; every other task is as before.\<close>

theorem spawn_result:
  fixes k b tx cpu name ent argument
  defines "r \<equiv> sched_spawn b tx cpu name ent argument k"
  assumes "kreach k" "sched_current_slot k cpu = Some c"
  shows "if ent = 0 \<or> (\<forall>j. 0 < j \<and> j < 64 \<longrightarrow> used (task k j)) \<or>
       (\<forall>s. k_stack_reserved k \<le> s \<and> s < 64 \<longrightarrow> sched_stack_bitmap_tst (k_stack_bitmap k) s \<noteq> 0)
     then snd r = -1 \<and> (\<forall>j < 64. used (task (fst r) j) = used (task k j) \<and>
       (used (task k j) \<longrightarrow> task (fst r) j = task k j)) \<and> k_runq (fst r) = k_runq k
     else \<exists>i p. 0 < i \<and> i < 64 \<and> \<not> used (task k i) \<and> (\<forall>j. 0 < j \<and> j < i \<longrightarrow> used (task k j)) \<and>
       k_stack_reserved k \<le> p \<and> p < 64 \<and> sched_stack_bitmap_tst (k_stack_bitmap k) p = 0 \<and>
       (\<forall>s. k_stack_reserved k \<le> s \<and> s < p \<longrightarrow> sched_stack_bitmap_tst (k_stack_bitmap k) s \<noteq> 0) \<and>
       (let t = task (fst r) i in
       snd r = sint (k_next_tid k) \<and> tid (pub t) = k_next_tid k \<and> used t \<and> state (pub t) = RUNNABLE \<and>
       entry t = ent \<and> arg (pub t) = argument \<and> parent_tid t = sint (tid (pub (task k c))) \<and>
       sc_pool_slot (stack_ctx t) = p \<and> sched_stack_bitmap_tst (k_stack_bitmap (fst r)) p \<noteq> 0 \<and>
       run_cpu t = unat (k_spawn_rr k) mod sched_cpu_cap k \<and>
       runq_bit_tst (k_runq (fst r) ! run_cpu t) i \<and> (\<forall>j. j \<noteq> i \<longrightarrow> task (fst r) j = task k j))"
proof -
  note inv = kreach_kinv [OF assms(2)]
  have inv': "kinv (fst r)" unfolding r_def by (rule spawn_kinv [OF inv])
  let ?find = "find (\<lambda>s. sched_stack_bitmap_tst (k_stack_bitmap k) s = 0) [k_stack_reserved k..<64]"
  have none: "sched_alloc_slot k = None \<longleftrightarrow> (\<forall>j. 0 < j \<and> j < 64 \<longrightarrow> used (task k j))"
    "?find = None \<longleftrightarrow> (\<forall>s. k_stack_reserved k \<le> s \<and> s < 64 \<longrightarrow> sched_stack_bitmap_tst (k_stack_bitmap k) s \<noteq> 0)"
    by (auto simp: sched_alloc_slot_def find_upt_None)
  consider (bad) "ent = 0 \<or> sched_alloc_slot k = None"
    | (full) i where "ent \<noteq> 0" "sched_alloc_slot k = Some i" "?find = None"
    | (ok) i p where "ent \<noteq> 0" "sched_alloc_slot k = Some i" "?find = Some p"
    by fastforce
  then show ?thesis
  proof cases
    case bad
    then have "r = (k, -1)" by (auto simp: r_def sched_spawn_def)
    with bad show ?thesis unfolding none [symmetric] by auto
  next
    case full
    have i: "i < 64" "\<not> used (task k i)" using full(2) by (auto simp: sched_alloc_slot_def find_upt_Some)
    note f = spawn_fill_fields [where cpu = cpu and name = name and ent = ent and argument = argument,
        OF kinv_lens(1) [OF inv] i(1)]
    have r: "r = (clear_task i (spawn_fill cpu name ent argument i k), -1)"
      using full f(8,9) by (simp add: r_def sched_spawn_def sched_stack_alloc_locked_def)
    have "task (fst r) j = (if j = i then sched_clear_task else task k j)" for j
      using f(1,2) i by (simp add: r clear_task_def nth_update)
    then show ?thesis using full i f(3) unfolding none [symmetric] by (auto simp: r clear_task_def)
  next
    case ok
    note s = spawn_success [OF inv ok, where b = b and tx = tx and cpu = cpu and name = name and argument = argument,
        folded r_def]
    have i: "0 < i" "i < 64" "\<not> used (task k i)" "\<And>j. 0 < j \<Longrightarrow> j < i \<Longrightarrow> used (task k j)"
      using ok(2) by (auto simp: sched_alloc_slot_def find_upt_Some)
    have p: "k_stack_reserved k \<le> p \<and> p < 64 \<and> sched_stack_bitmap_tst (k_stack_bitmap k) p = 0 \<and>
        (\<forall>s. k_stack_reserved k \<le> s \<and> s < p \<longrightarrow> sched_stack_bitmap_tst (k_stack_bitmap k) s \<noteq> 0)"
      using ok(3) by (simp add: find_upt_Some)
    have "stack_ok (fst r)" using inv' by (simp add: kinv_def)
    then have taken: "sched_stack_bitmap_tst (k_stack_bitmap (fst r)) p \<noteq> 0"
      using stack_okD(5) [of "fst r" p] p s(6,14,16) i(1,2) by auto
    have c: "\<not> (ent = 0 \<or> (\<forall>j. 0 < j \<and> j < 64 \<longrightarrow> used (task k j)) \<or>
       (\<forall>s. k_stack_reserved k \<le> s \<and> s < 64 \<longrightarrow> sched_stack_bitmap_tst (k_stack_bitmap k) s \<noteq> 0))"
      unfolding none [symmetric] using ok by simp
    have t: "runq_bit_tst (k_runq (fst r) ! run_cpu (task (fst r) i)) i"
      using runnable_queued [OF inv' i(1,2) s(6) s(5)] .
    have f: "(let t = task (fst r) i in
       snd r = sint (k_next_tid k) \<and> tid (pub t) = k_next_tid k \<and> used t \<and> state (pub t) = RUNNABLE \<and>
       entry t = ent \<and> arg (pub t) = argument \<and> parent_tid t = sint (tid (pub (task k c))) \<and>
       sc_pool_slot (stack_ctx t) = p \<and> sched_stack_bitmap_tst (k_stack_bitmap (fst r)) p \<noteq> 0 \<and>
       run_cpu t = unat (k_spawn_rr k) mod sched_cpu_cap k \<and>
       runq_bit_tst (k_runq (fst r) ! run_cpu t) i \<and> (\<forall>j. j \<noteq> i \<longrightarrow> task (fst r) j = task k j))"
      unfolding Let_def by (intro conjI allI impI t taken s s(8) [OF assms(3), THEN conjunct1])
    show ?thesis
      unfolding if_not_P [OF c] using i p f by blast
  qed
qed

theorem spawn_result_witness:
  "snd (sched_spawn 0 0 0 None 5 0 demo_running) = 2 \<and> snd (sched_spawn 0 0 0 None 0 0 demo_running) = -1 \<and>
   used (task (fst (sched_spawn 0 0 0 None 5 0 demo_running)) 2) \<and>
   entry (task (fst (sched_spawn 0 0 0 None 5 0 demo_running)) 2) = 5"
proof -
  have free: "\<not> (\<forall>j. 0 < j \<and> j < 64 \<longrightarrow> used (task demo_running j))"
    "\<not> (\<forall>s. k_stack_reserved demo_running \<le> s \<and> s < 64 \<longrightarrow>
        sched_stack_bitmap_tst (k_stack_bitmap demo_running) s \<noteq> 0)"
    using demo_running_task(8) [of 2] demo_running_stack by (force simp: find_upt_Some)+
  have slot: "i = 2" if "0 < i" "\<not> used (task demo_running i)" "\<forall>j. 0 < j \<and> j < i \<longrightarrow> used (task demo_running j)" for i
  proof -
    have "i \<noteq> 1" using that(2) demo_running_task(2) by auto
    moreover have "\<not> 2 < i" using that(3) demo_running_task(8) [of 2] by auto
    ultimately show ?thesis using that(1) by simp
  qed
  show ?thesis
    using spawn_result [OF demo_running_reach demo_running_current, of 5 0 0 None 0]
      spawn_result [OF demo_running_reach demo_running_current, of 0 0 0 None 0]
      free slot demo_running_task(10) by (auto simp: Let_def)
qed

subsection \<open>What the hypothesis of the step for waitpid excludes\<close>

text \<open>On two processors a parent can reap a child between the child's exit and its switch away from
  its processor. The child's slot is then free, and another task can take it and its stack,
  while the processor still executes in it; the switch that follows finds the slot unused and
  returns at once.\<close>

lemma reaped_on_its_cpu:
  fixes k
  defines "k \<equiv> fst (sched_waitpid 0 2 0 (sched_exit_code_locked 1 7 demo_two))"
  shows "k_ctl k ! 1 = C_task 2 \<and> \<not> used (task k 2) \<and> sched_switch_current_to_scheduler 1 k = k"
proof -
  have u: "\<forall>j. live_task demo_two j \<and> tid (pub (task demo_two j)) = tid (pub (task demo_two 2)) \<longrightarrow> j = 2"
    using demo_two_tids by blast
  note e = exit_then_wait [OF demo_two_reach demo_two_current(2,1) _ _ _ u, where code = 7]
  let ?k' = "sched_exit_code_locked 1 7 demo_two"
  have e: "fst (sched_waitpid 0 2 0 ?k') = reap_slot 2 ?k'" "kinv ?k'" "live_task ?k' 2" "k_ctl ?k' = k_ctl demo_two"
    using e demo_two_task(1,5,6) demo_running_task(4) by simp_all
  note f = reap_fields [OF e(2,3), folded e(1), folded k_def]
  have c: "k_ctl k ! 1 = C_task 2" using f(5) e(4) demo_two_task(8) by simp
  moreover have "\<not> used (task k 2)" using f(1) kinv_lens(1) [OF e(2)] by simp
  moreover have "k_current k ! 1 = 2" using f(6) kinv_on_cpu(4) [OF e(2), of 1 2] e(4) demo_two_task(8) by simp
  ultimately show ?thesis by (simp add: sched_switch_current_to_scheduler_def)
qed

end
