(* ===== verification/Signal_Props.thy ===== *)
theory Signal_Props
  imports Sched_Demo
begin

text \<open>
  Delivery of a signal and the return from its handler are inverse: \<open>sigreturn\<close> restores the
  interrupted context and the signal mask from the frame that the delivery stored.
\<close>

subsection \<open>Slots of the interrupt stack\<close>

lemma isr_slots_apart:
  assumes "i < 2048" "j < 2048" "i \<noteq> j"
  shows "apart (isr_slot b (of_nat i)) 8 (isr_slot b (of_nat j)) 8"
proof -
  have "8 \<le> unat (isr_slot b (of_nat j) - isr_slot b (of_nat i))" if "i < 2048" "j < 2048" "i \<noteq> j" for i j
  proof (cases "i < j")
    case True
    have "isr_slot b (of_nat j) - isr_slot b (of_nat i) = of_nat ((j - i) * 8)"
      using True by (simp add: isr_slot_def of_nat_diff algebra_simps)
    moreover have "(j - i) * 8 < 4294967296" using that by simp
    ultimately have "unat (isr_slot b (of_nat j) - isr_slot b (of_nat i)) = (j - i) * 8"
      by (simp only: unat_of_nat_u32)
    then show ?thesis using True by simp
  next
    case False
    then have "isr_slot b (of_nat j) - isr_slot b (of_nat i) = - of_nat ((i - j) * 8)"
      by (simp add: isr_slot_def of_nat_diff algebra_simps)
    also have "\<dots> = of_nat (4294967296 - (i - j) * 8)"
      using that False by (simp add: of_nat_diff)
    finally have "isr_slot b (of_nat j) - isr_slot b (of_nat i) = of_nat (4294967296 - (i - j) * 8)" .
    moreover have "4294967296 - (i - j) * 8 < 4294967296" using that False by simp
    ultimately have "unat (isr_slot b (of_nat j) - isr_slot b (of_nat i)) = 4294967296 - (i - j) * 8"
      by (simp only: unat_of_nat_u32)
    then show ?thesis using that by simp
  qed
  then show ?thesis using assms by (intro apartI) auto
qed

lemma isr_write_read:
  assumes "i < 2048" "j < 2048"
  shows "mem_read32 (irq_isr_slot_write32 b (of_nat i) v m) (isr_slot b (of_nat j)) =
    (if i = j then v else mem_read32 m (isr_slot b (of_nat j)))"
proof (cases "i = j")
  case True
  have "apart (isr_slot b (of_nat i) + of_nat 4) 4 (isr_slot b (of_nat i)) 4"
    by (rule apartI) simp_all
  then show ?thesis using True by (simp add: irq_isr_slot_write32_def write_read32_apart)
next
  case False
  note a = isr_slots_apart [OF assms False, of b]
  have "apart (isr_slot b (of_nat i)) 4 (isr_slot b (of_nat j)) 4"
    "apart (isr_slot b (of_nat i) + 4) 4 (isr_slot b (of_nat j)) 4"
    using apart_sub [OF a, of 0 4 0 4] apart_sub [OF a, of 4 4 0 4] by simp_all
  then show ?thesis using False by (simp add: irq_isr_slot_write32_def write_read32_apart)
qed

lemma isr_fold_other:
  assumes "\<And>r. r \<in> set rs \<Longrightarrow> f r < 2048 \<and> f r \<noteq> j" "j < 2048"
  shows "mem_read32 (fold (\<lambda>r. irq_isr_slot_write32 b (of_nat (f r)) (w r)) rs m) (isr_slot b (of_nat j)) =
    mem_read32 m (isr_slot b (of_nat j))"
  using assms by (induction rs arbitrary: m) (simp_all add: isr_write_read)

lemma isr_fold_read:
  assumes "\<And>r. r \<in> set rs \<Longrightarrow> f r < 2048" "inj_on f (set rs)" "distinct rs" "r \<in> set rs"
  shows "mem_read32 (fold (\<lambda>r. irq_isr_slot_write32 b (of_nat (f r)) (w r)) rs m) (isr_slot b (of_nat (f r))) = w r"
  using assms
proof (induction rs arbitrary: m)
  case (Cons x rs)
  show ?case
  proof (cases "r = x")
    case True
    have "f y \<noteq> f x" if "y \<in> set rs" for y using Cons.prems(2,3) that by (auto simp: inj_on_def)
    then show ?thesis
      using Cons.prems(1) True by (simp add: isr_fold_other isr_write_read)
  next
    case False
    then show ?thesis using Cons.IH Cons.prems by (simp add: inj_on_def)
  qed
qed simp

subsection \<open>The interrupted context\<close>

lemma irq_set_get:
  assumes u: "k_irq_from_user k ! cpu"
    and isp: "sc_isp (k_live k ! cpu) \<le> 2014" "sc_isr_base (k_live k ! cpu) \<noteq> 0"
    and c: "cx_csp ctx \<le> 2048" "cx_dsp ctx \<le> 2048" "length (cx_regs ctx) = 32" "cx_irq_masked ctx = 0 \<or> cx_irq_masked ctx = 1"
    and cpu: "cpu < length (k_irq_saved k)"
  shows "snd (irq_user_context_set cpu ctx k) = 0"
    "irq_user_context_get cpu (fst (irq_user_context_set cpu ctx k)) = Some ctx"
    "k_tasks (fst (irq_user_context_set cpu ctx k)) = k_tasks k"
    "k_current (fst (irq_user_context_set cpu ctx k)) = k_current k"
proof -
  define n where "n = unat (sc_isp (k_live k ! cpu))"
  have n: "n \<le> 2014" "sc_isp (k_live k ! cpu) = of_nat n"
    using isp(1) by (simp_all add: n_def word_le_nat_alt)
  have un: "unat (of_nat n :: u32) = n" using n(1) by (simp add: unat_of_nat_u32)
  define b where "b = sc_isr_base (k_live k ! cpu)"
  have b: "b \<noteq> 0" using isp(2) by (simp add: b_def)
  define f where "f = (\<lambda>r. n + (31 - r))"
  define m1 where "m1 = fold (\<lambda>r. irq_isr_slot_write32 b (of_nat (f r)) (cx_regs ctx ! r)) [0..<32] (k_mem k)"
  define m where "m = irq_isr_slot_write32 b (of_nat (n + 33)) (cx_ip ctx)
    (irq_isr_slot_write32 b (of_nat (n + 32)) (cx_flags ctx) m1)"
  have idx: "(of_nat n :: u32) + (31 - of_nat r) = of_nat (f r)" if "r < 32" for r
    using that by (simp add: f_def of_nat_diff)
  have f0: "fold (\<lambda>r. irq_isr_slot_write32 b (of_nat n + (31 - of_nat r)) (cx_regs ctx ! r)) [0..<32] (k_mem k) = m1"
    unfolding m1_def by (rule fold_cong) (simp_all add: idx)
  have m: "irq_isr_slot_write32 b (of_nat n + 33) (cx_ip ctx) (irq_isr_slot_write32 b (of_nat n + 32) (cx_flags ctx) m1) = m"
    by (simp add: m_def)
  have ni: "\<not> (of_nat n :: u32) > 2014" using n isp(1) by simp
  have s: "irq_user_context_set cpu ctx k = (k\<lparr>k_mem := m,
      k_irq_saved := (k_irq_saved k)[cpu := \<lparr>us_csp = cx_csp ctx, us_dsp = cx_dsp ctx,
        us_call_base = cx_call_base ctx, us_data_base = cx_data_base ctx\<rparr>],
      k_irq_frame_masked := (k_irq_frame_masked k)(cpu * 2048 + n := (if cx_irq_masked ctx \<noteq> 0 then 1 else 0))\<rparr>, 0)"
    using c(1,2) u ni b unfolding irq_user_context_set_def Let_def n(2) b_def [symmetric] f0 m
    by (simp add: n_def not_less)
  have inj: "inj_on f (set [0..<32])" by (auto simp: inj_on_def f_def)
  have rd: "mem_read32 m (isr_slot b (of_nat (f r))) = cx_regs ctx ! r" if "r < 32" for r
  proof -
    have "mem_read32 m (isr_slot b (of_nat (f r))) = mem_read32 m1 (isr_slot b (of_nat (f r)))"
    proof -
      have fr: "f r < 2048" "n + 33 \<noteq> f r" "n + 32 \<noteq> f r" "n + 33 < 2048" "n + 32 < 2048"
        using n(1) that by (auto simp: f_def)
      show ?thesis unfolding m_def isr_write_read [OF fr(4,1)] isr_write_read [OF fr(5,1)] using fr(2,3) by simp
    qed
    also have "\<dots> = cx_regs ctx ! r"
      unfolding m1_def by (rule isr_fold_read) (use n(1) inj that in \<open>auto simp: f_def\<close>)
    finally show ?thesis .
  qed
  have r1: "mem_read32 m (isr_slot b (of_nat n + 32)) = cx_flags ctx" "mem_read32 m (isr_slot b (of_nat n + 33)) = cx_ip ctx"
    using n(1) isr_write_read [of "n + 33" "n + 32" b] isr_write_read [of "n + 32" "n + 32" b]
      isr_write_read [of "n + 33" "n + 33" b] by (simp_all add: m_def)
  have regs: "map (\<lambda>r. irq_isr_slot_read32 b (of_nat n + (31 - of_nat r)) m) [0..<32] = cx_regs ctx"
    using rd c(3) by (intro nth_equalityI) (simp_all add: irq_isr_slot_read32_def idx)
  have mk: "(if cx_irq_masked ctx \<noteq> 0 then 1 else 0) = cx_irq_masked ctx"
    using c(4) by auto
  show "snd (irq_user_context_set cpu ctx k) = 0" by (simp add: s)
  show "k_tasks (fst (irq_user_context_set cpu ctx k)) = k_tasks k" by (simp add: s)
  show "k_current (fst (irq_user_context_set cpu ctx k)) = k_current k" by (simp add: s)
  show "irq_user_context_get cpu (fst (irq_user_context_set cpu ctx k)) = Some ctx"
    using u ni b regs r1 cpu mk unfolding s irq_user_context_get_def Let_def
    by (simp add: n(2) un b_def [symmetric] not_less irq_isr_slot_read32_def)
qed

subsection \<open>Frames\<close>

lemma frame_cells_apart:
  assumes "i < 45" "j < 45" "i \<noteq> j"
  shows "apart (addr + 4 * of_nat i) 4 (addr + 4 * of_nat j) 4"
proof -
  have "4 \<le> unat ((addr + 4 * of_nat j) - (addr + 4 * of_nat i))" if "i < 45" "j < 45" "i \<noteq> j" for i j
  proof (cases "i < j")
    case True
    have "(addr + 4 * of_nat j) - (addr + 4 * of_nat i) = of_nat ((j - i) * 4)"
      using True by (simp add: of_nat_diff algebra_simps)
    moreover have "(j - i) * 4 < 4294967296" using that by simp
    ultimately have "unat ((addr + 4 * of_nat j) - (addr + 4 * of_nat i)) = (j - i) * 4"
      by (simp only: unat_of_nat_u32)
    then show ?thesis using True by simp
  next
    case False
    then have "(addr + 4 * of_nat j) - (addr + 4 * of_nat i) = - of_nat ((i - j) * 4)"
      by (simp add: of_nat_diff algebra_simps)
    also have "\<dots> = of_nat (4294967296 - (i - j) * 4)"
      using that False by (simp add: of_nat_diff)
    finally have "(addr + 4 * of_nat j) - (addr + 4 * of_nat i) = of_nat (4294967296 - (i - j) * 4)" .
    moreover have "4294967296 - (i - j) * 4 < 4294967296" using that False by simp
    ultimately have "unat ((addr + 4 * of_nat j) - (addr + 4 * of_nat i)) = 4294967296 - (i - j) * 4"
      by (simp only: unat_of_nat_u32)
    then show ?thesis using that by simp
  qed
  then show ?thesis using assms by (intro apartI) auto
qed

lemma store_read:
  assumes "distinct is" "\<forall>i \<in> set is. i < 45" "j < 45"
  shows "mem_read32 (fold (\<lambda>i. mem_write32 (addr + 4 * of_nat i) (w i)) is m) (addr + 4 * of_nat j) =
    (if j \<in> set is then w j else mem_read32 m (addr + 4 * of_nat j))"
  using assms
proof (induction "is" arbitrary: m)
  case (Cons i "is")
  then show ?case
    using frame_cells_apart [of i j addr] by (cases "i = j") (auto simp: write_read32_apart)
qed simp

lemma frame_words_len: "length (sf_regs f) = 32 \<Longrightarrow> length (frame_words f) = 45"
  by (simp add: frame_words_def)

lemma load_store:
  assumes "length (sf_regs f) = 32"
    and "\<And>j. j < 45 \<Longrightarrow> mem_read32 m' (addr + 4 * of_nat j) =
      mem_read32 (sched_signal_frame_store addr f m) (addr + 4 * of_nat j)"
  shows "sched_signal_frame_load addr m' = f"
proof -
  have w: "mem_read32 m' (addr + 4 * of_nat j) = frame_words f ! j" if "j < 45" for j
    using assms(2) [OF that] that by (simp add: sched_signal_frame_store_def store_read)
  have r: "map (\<lambda>i. mem_read32 m' (addr + 4 * of_nat i)) [13..<45] = sf_regs f"
  proof -
    have u: "[13..<45] = map (\<lambda>i. i + 13) [0..<32]" by (simp only: map_add_upt) simp
    have "map (\<lambda>i. mem_read32 m' (addr + 4 * of_nat i)) [13..<45] = map (\<lambda>i. sf_regs f ! i) [0..<32]"
      unfolding u map_map comp_def
    proof (rule map_cong [OF refl])
      fix i assume "i \<in> set [0..<32]"
      then have i: "i + 13 < 45" by simp
      have "frame_words f ! (i + 13) = sf_regs f ! i" by (simp add: frame_words_def nth_append)
      then show "mem_read32 m' (addr + 4 * of_nat (i + 13)) = sf_regs f ! i" using w [OF i] by simp
    qed
    also have "\<dots> = sf_regs f" using map_nth [of "sf_regs f"] assms(1) by simp
    finally show ?thesis .
  qed
  show ?thesis
    using w [of 0] w [of 1] w [of 2] w [of 3] w [of 4] w [of 5] w [of 6] w [of 7] w [of 8] w [of 9]
      w [of 10] w [of 11] w [of 12] r
    by (simp add: sched_signal_frame_load_def Let_def frame_words_def)
qed

lemma store_other:
  assumes "\<not> in_range addr 180 x"
  shows "sched_signal_frame_store addr f m x = m x"
proof -
  have "fold (\<lambda>i. mem_write32 (addr + 4 * of_nat i) (w i)) is m x = m x" if "\<forall>i \<in> set is. i < 45" for "is" w
    using that
  proof (induction "is" arbitrary: m)
    case (Cons i "is")
    have "\<not> in_range (addr + 4 * of_nat i) 4 x"
    proof
      assume a: "in_range (addr + 4 * of_nat i) 4 x"
      have e: "x - addr = (x - (addr + 4 * of_nat i)) + of_nat (4 * i)" by simp
      have "unat (x - addr) = unat (x - (addr + 4 * of_nat i)) + 4 * i"
        unfolding e using a Cons.prems
        by (subst unat_add_lem [THEN iffD1]) (simp_all add: unat_of_nat_u32 in_range_def del: of_nat_mult)
      then show False using a Cons.prems assms by (simp add: in_range_def)
    qed
    then show ?case using Cons by (simp add: write32_other)
  qed simp
  then show ?thesis by (simp add: sched_signal_frame_store_def)
qed

lemma irq_get_Some:
  assumes "irq_user_context_get cpu k = Some ctx"
  shows "k_irq_from_user k ! cpu" "sc_isp (k_live k ! cpu) \<le> 2014" "sc_isr_base (k_live k ! cpu) \<noteq> 0"
    "length (cx_regs ctx) = 32"
  using assms by (auto simp: irq_user_context_get_def Let_def not_less split: if_splits)

lemma isr_write_other:
  assumes "apart a n b 16384" "i < 2048" "in_range a n x" "n < 2 ^ 32"
  shows "irq_isr_slot_write32 b (of_nat i) v m x = m x"
proof -
  have e: "isr_slot b (of_nat i) = b + of_nat (8 * i)" "isr_slot b (of_nat i) + 4 = b + of_nat (8 * i + 4)"
    by (simp_all add: isr_slot_def)
  have "apart (a + of_nat 0) n (b + of_nat (8 * i)) 4" "apart (a + of_nat 0) n (b + of_nat (8 * i + 4)) 4"
    using assms(2,4) apart_sub [OF assms(1), of 0 n "8 * i" 4] apart_sub [OF assms(1), of 0 n "8 * i + 4" 4] by simp_all
  then have "\<not> in_range (b + of_nat (8 * i)) 4 x" "\<not> in_range (b + of_nat (8 * i + 4)) 4 x"
    using assms(3) by (auto simp: apart_def)
  then have "\<not> in_range (isr_slot b (of_nat i)) 4 x" "\<not> in_range (isr_slot b (of_nat i) + 4) 4 x"
    by (simp_all only: e(2) not_False_eq_True) (simp only: e(1) not_False_eq_True)
  then show ?thesis unfolding irq_isr_slot_write32_def by (simp only: write32_other not_False_eq_True)
qed

lemma irq_set_mem:
  assumes "apart a n (sc_isr_base (k_live k ! cpu)) 16384" "in_range a n x" "n < 2 ^ 32"
  shows "k_mem (fst (irq_user_context_set cpu ctx k)) x = k_mem k x"
proof (cases "cx_csp ctx > 2048 \<or> cx_dsp ctx > 2048 \<or> \<not> k_irq_from_user k ! cpu \<or>
    sc_isp (k_live k ! cpu) > 2014 \<or> sc_isr_base (k_live k ! cpu) = 0")
  case True
  then show ?thesis by (auto simp: irq_user_context_set_def Let_def)
next
  case False
  define b where "b = sc_isr_base (k_live k ! cpu)"
  define p where "p = unat (sc_isp (k_live k ! cpu))"
  have p: "p \<le> 2014" "sc_isp (k_live k ! cpu) = of_nat p" using False by (simp_all add: p_def word_le_nat_alt not_less)
  have idx: "(of_nat p :: u32) + (31 - of_nat r) = of_nat (p + (31 - r))" if "r < 32" for r
    using that by (simp add: of_nat_diff)
  have w: "irq_isr_slot_write32 b (of_nat j) v m x = m x" if "j < 2048" for j v m
    using isr_write_other [OF assms(1) that assms(2,3)] by (simp add: b_def)
  have f: "fold (\<lambda>r. irq_isr_slot_write32 b (of_nat p + (31 - of_nat r)) (g r)) rs m x = m x"
    if "\<forall>r \<in> set rs. r < 32" for rs g m
    using that
  proof (induction rs arbitrary: m)
    case (Cons r rs)
    then have r: "r < 32" "p + (31 - r) < 2048" using p(1) by simp_all
    have "irq_isr_slot_write32 b (of_nat p + (31 - of_nat r)) (g r) m x = m x" for m
      unfolding idx [OF r(1)] by (rule w [OF r(2)])
    moreover have "\<forall>r \<in> set rs. r < 32" using Cons.prems by simp
    ultimately show ?case by (simp only: fold.simps comp_apply Cons.IH)
  qed simp
  have l: "(of_nat p :: u32) + 32 = of_nat (p + 32)" "(of_nat p :: u32) + 33 = of_nat (p + 33)" by simp_all
  have "k_mem (fst (irq_user_context_set cpu ctx k)) x =
      irq_isr_slot_write32 b (of_nat p + 33) (cx_ip ctx) (irq_isr_slot_write32 b (of_nat p + 32) (cx_flags ctx)
        (fold (\<lambda>r. irq_isr_slot_write32 b (of_nat p + (31 - of_nat r)) (cx_regs ctx ! r)) [0..<32] (k_mem k))) x"
    using False by (simp add: irq_user_context_set_def Let_def p(2) b_def)
  also have "\<dots> = k_mem k x"
    unfolding l using p(1) by (subst w, simp)+ (rule f, simp)
  finally show ?thesis .
qed

subsection \<open>Delivery and return\<close>

lemma deliver_effect:
  fixes k cpu ctx i sig
  defines "a \<equiv> sig_action (task k i) ! sig" and "addr \<equiv> signal_frame_addr ctx"
  assumes get: "irq_user_context_get cpu k = Some ctx"
    and cur: "live_current k cpu = Some i" "kind (pub (task k i)) = KIND_USER"
    and sig: "next_signal (\<lambda>s. sig_action (task k i) ! s) (sig_mask (task k i)) (sig_pending (task k i)) =
        (pending, Some sig)"
      "sa_handler a \<noteq> 0" "handler_usable a ctx" "sched_signal_user_stack_range addr 180"
    and msk: "cx_irq_masked ctx = 0 \<or> cx_irq_masked ctx = 1"
    and lens: "cpu < length (k_irq_saved k)" "i < length (k_tasks k)"
    and ap: "apart addr 180 (sc_isr_base (k_live k ! cpu)) 16384"
      "apart addr 180 (cx_call_base ctx + (cx_csp ctx - 1) * 8) 8"
  shows "irq_user_context_get cpu (sched_signal_deliver_pending cpu k) = Some (enter_handler sig a ctx)"
    "sig_frame_top (task (sched_signal_deliver_pending cpu k) i) = addr"
    "sig_mask (task (sched_signal_deliver_pending cpu k) i) =
      (sig_mask (task k i) OR sa_mask a OR sched_signal_bit sig) AND NOT sched_signal_uncatchable_mask"
    "in_range addr 180 x \<Longrightarrow> k_mem (sched_signal_deliver_pending cpu k) x =
      sched_signal_frame_store addr (make_frame sig ctx (task k i)) (k_mem k) x"
    "live_current (sched_signal_deliver_pending cpu k) cpu = Some i"
    "pub (task (sched_signal_deliver_pending cpu k) i) = pub (task k i)"
    "length (k_tasks (sched_signal_deliver_pending cpu k)) = length (k_tasks k)"
    "length (k_irq_saved (sched_signal_deliver_pending cpu k)) = length (k_irq_saved k)"
proof -
  note g = irq_get_Some [OF get]
  define rs where "rs = cx_call_base ctx + (cx_csp ctx - 1) * 8"
  define m where "m = mem_write32 (rs + 4) 0 (mem_write32 rs (sa_restorer a)
    (sched_signal_frame_store addr (make_frame sig ctx (task k i)) (k_mem k)))"
  define ka where "ka = upd_task i (\<lambda>t. t\<lparr>
      sig_mask := (sig_mask t OR sa_mask a OR sched_signal_bit sig) AND NOT sched_signal_uncatchable_mask,
      sig_frame_top := addr\<rparr>) ((upd_task i (\<lambda>t. t\<lparr>sig_pending := pending\<rparr>) k)\<lparr>k_mem := m\<rparr>)"
  have ka: "k_irq_from_user ka = k_irq_from_user k" "k_live ka = k_live k" "k_irq_saved ka = k_irq_saved k"
    "k_mem ka = m" "k_current ka = k_current k"
    "task ka j = (if j = i then (task k i)\<lparr>sig_pending := pending, sig_mask := (sig_mask (task k i) OR sa_mask a OR
       sched_signal_bit sig) AND NOT sched_signal_uncatchable_mask, sig_frame_top := addr\<rparr> else task k j)" for j
    using lens(2) by (auto simp: ka_def upd_task_def nth_update)
  have csp: "cx_csp ctx - 1 \<le> 2048" and dsp: "cx_dsp ctx \<le> 2048"
    using sig(3) by (auto simp: handler_usable_def word_le_nat_alt unat_minus_one)
  note s = irq_set_get [of ka cpu "enter_handler sig a ctx", unfolded ka, OF g(1-3)]
  have s: "snd (irq_user_context_set cpu (enter_handler sig a ctx) ka) = 0"
    "irq_user_context_get cpu (fst (irq_user_context_set cpu (enter_handler sig a ctx) ka)) =
       Some (enter_handler sig a ctx)"
    "k_tasks (fst (irq_user_context_set cpu (enter_handler sig a ctx) ka)) = k_tasks ka"
    "k_current (fst (irq_user_context_set cpu (enter_handler sig a ctx) ka)) = k_current k"
    using s csp dsp g(4) msk lens(1) by (simp_all add: enter_handler_def)
  have tp: "task (upd_task i (\<lambda>t. t\<lparr>sig_pending := pending\<rparr>) k) i = (task k i)\<lparr>sig_pending := pending\<rparr>"
    using lens(2) by (simp add: upd_task_def)
  have mk: "k_mem (upd_task i f k) = k_mem k" for f by (simp add: upd_task_def)
  have mf: "make_frame sig ctx (t\<lparr>sig_pending := p\<rparr>) = make_frame sig ctx t" for t p
    by (simp add: make_frame_def)
  have d: "sched_signal_deliver_pending cpu k = fst (irq_user_context_set cpu (enter_handler sig a ctx) ka)"
    using s(1) get cur sig tp mf mk
    by (cases "irq_user_context_set cpu (enter_handler sig a ctx) ka")
      (simp add: sched_signal_deliver_pending_def Let_def a_def [symmetric] addr_def [symmetric] rs_def [symmetric]
        m_def [symmetric] ka_def [symmetric] del: left_diff_distrib_numeral)
  show "irq_user_context_get cpu (sched_signal_deliver_pending cpu k) = Some (enter_handler sig a ctx)"
    unfolding d by (rule s(2))
  show "sig_frame_top (task (sched_signal_deliver_pending cpu k) i) = addr"
    "sig_mask (task (sched_signal_deliver_pending cpu k) i) =
      (sig_mask (task k i) OR sa_mask a OR sched_signal_bit sig) AND NOT sched_signal_uncatchable_mask"
    "pub (task (sched_signal_deliver_pending cpu k) i) = pub (task k i)"
    "length (k_tasks (sched_signal_deliver_pending cpu k)) = length (k_tasks k)"
    unfolding d s(3) by (simp_all add: ka(6)) (simp add: ka_def upd_task_def)
  have "length (k_irq_saved (fst (irq_user_context_set cpu c k'))) = length (k_irq_saved k')" for c k'
    by (simp add: irq_user_context_set_def Let_def)
  then show "length (k_irq_saved (sched_signal_deliver_pending cpu k)) = length (k_irq_saved k)"
    unfolding d by (simp add: ka(3))
  have l: "live_current k' cpu = live_current k cpu" if "k_current k' = k_current k"
    "\<And>j. used (task k' j) = used (task k j) \<and> is_idle (task k' j) = is_idle (task k j)" for k'
    using that by (simp add: live_current_def sched_current_slot_def Let_def)
  show "live_current (sched_signal_deliver_pending cpu k) cpu = Some i"
    unfolding d cur(1) [symmetric] by (rule l) (simp_all add: s(3,4) ka(6))
  assume x: "in_range addr 180 x"
  have "k_mem (fst (irq_user_context_set cpu (enter_handler sig a ctx) ka)) x = m x"
    using irq_set_mem [of addr 180 ka cpu x] ap(1) x by (simp add: ka)
  also have "\<dots> = sched_signal_frame_store addr (make_frame sig ctx (task k i)) (k_mem k) x"
  proof -
    have "apart (addr + of_nat 0) 180 (rs + of_nat 0) 4" "apart (addr + of_nat 0) 180 (rs + of_nat 4) 4"
      using apart_sub [OF ap(2), of 0 180 0 4] apart_sub [OF ap(2), of 0 180 4 4] by (simp_all add: rs_def)
    then have "\<not> in_range rs 4 x" "\<not> in_range (rs + 4) 4 x" using x by (auto simp: apart_def)
    then show ?thesis by (simp add: m_def write32_other)
  qed
  finally show "k_mem (sched_signal_deliver_pending cpu k) x =
      sched_signal_frame_store addr (make_frame sig ctx (task k i)) (k_mem k) x" unfolding d .
qed

text \<open>C27. Delivery and return are inverse. A task whose pending signal has a usable handler enters
  the handler with the signal's number and the frame's address as arguments and the signal
  blocked. Whatever the handler does, if it leaves the frame as it is and calls \<open>sigreturn\<close> with
  its address, then the context that the signal interrupted, the signal mask and the chain of
  frames are again those from before the delivery.\<close>

theorem signal_roundtrip:
  fixes k k2 cpu ctx i sig
  defines "a \<equiv> sig_action (task k i) ! sig" and "addr \<equiv> signal_frame_addr ctx"
    and "k1 \<equiv> sched_signal_deliver_pending cpu k" and "k3 \<equiv> fst (sched_signal_sigreturn cpu (signal_frame_addr ctx) k2)"
  assumes "irq_user_context_get cpu k = Some ctx" "live_current k cpu = Some i" "kind (pub (task k i)) = KIND_USER"
    and "next_signal (\<lambda>s. sig_action (task k i) ! s) (sig_mask (task k i)) (sig_pending (task k i)) =
        (pending, Some sig)"
      "sa_handler a \<noteq> 0" "handler_usable a ctx" "sched_signal_user_stack_range addr 180"
    and "sched_signal_user_code_addr (cx_ip ctx)" "cx_irq_masked ctx = 0 \<or> cx_irq_masked ctx = 1"
      "sig_mask (task k i) AND NOT sched_signal_uncatchable_mask = sig_mask (task k i)"
      "sig_frame_top (task k i) = 0 \<or> sched_signal_user_stack_range (sig_frame_top (task k i)) 180"
    and "cpu < length (k_irq_saved k)" "i < length (k_tasks k)"
    and "apart addr 180 (sc_isr_base (k_live k ! cpu)) 16384"
      "apart addr 180 (cx_call_base ctx + (cx_csp ctx - 1) * 8) 8"
    and "\<And>x. in_range addr 180 x \<Longrightarrow> k_mem k2 x = k_mem k1 x" "irq_user_context_get cpu k2 \<noteq> None"
      "live_current k2 cpu = Some i" "kind (pub (task k2 i)) = KIND_USER" "sig_frame_top (task k2 i) = addr"
      "cpu < length (k_irq_saved k2)" "i < length (k_tasks k2)"
  shows "irq_user_context_get cpu k1 = Some (enter_handler sig a ctx) \<and> sig_frame_top (task k1 i) = addr \<and>
    sig_mask (task k1 i) = (sig_mask (task k i) OR sa_mask a OR sched_signal_bit sig) AND
      NOT sched_signal_uncatchable_mask \<and>
    snd (sched_signal_sigreturn cpu addr k2) = 0 \<and> irq_user_context_get cpu k3 = Some ctx \<and>
    sig_mask (task k3 i) = sig_mask (task k i) \<and> sig_frame_top (task k3 i) = sig_frame_top (task k i)"
proof -
  note d = deliver_effect [OF assms(5-8) assms(9-11) [unfolded a_def addr_def] assms(13,16,17)
      assms(18,19) [unfolded addr_def], folded a_def addr_def k1_def]
  note g = irq_get_Some [OF assms(5)]
  define f where "f = make_frame sig ctx (task k i)"
  have l: "sched_signal_frame_load addr (k_mem k2) = f"
  proof (rule load_store)
    show "length (sf_regs f) = 32" using g(4) by (simp add: f_def make_frame_def)
    fix j :: nat assume j: "j < 45"
    show "mem_read32 (k_mem k2) (addr + 4 * of_nat j) = mem_read32 (sched_signal_frame_store addr f (k_mem k)) (addr + 4 * of_nat j)"
    proof (rule read32_cong)
      fix x assume x: "in_range (addr + 4 * of_nat j) 4 x"
      have e: "x - addr = (x - (addr + 4 * of_nat j)) + of_nat (4 * j)" by simp
      have "unat (x - addr) = unat (x - (addr + 4 * of_nat j)) + 4 * j"
        unfolding e using x j
        by (subst unat_add_lem [THEN iffD1]) (simp_all add: unat_of_nat_u32 in_range_def del: of_nat_mult)
      then have "in_range addr 180 x" using x j by (simp add: in_range_def)
      then show "k_mem k2 x = sched_signal_frame_store addr f (k_mem k) x"
        using assms(20) d(4) by (simp add: f_def)
    qed
  qed
  have ok: "frame_ok f"
    using assms(10,12,15) by (auto simp: frame_ok_def f_def make_frame_def handler_usable_def word_le_nat_alt)
  have fc: "frame_context f = ctx" by (simp add: frame_context_def f_def make_frame_def)
  obtain c2 where c2: "irq_user_context_get cpu k2 = Some c2" using assms(21) by blast
  note g2 = irq_get_Some [OF c2]
  define kb where "kb = upd_task i (\<lambda>t. t\<lparr>sig_mask := sf_old_mask f AND NOT sched_signal_uncatchable_mask,
      sig_frame_top := sf_prev_frame f\<rparr>) k2"
  have kb: "k_irq_from_user kb = k_irq_from_user k2" "k_live kb = k_live k2" "k_irq_saved kb = k_irq_saved k2"
    "task kb i = (task k2 i)\<lparr>sig_mask := sig_mask (task k i), sig_frame_top := sig_frame_top (task k i)\<rparr>"
    using assms(14,26) by (simp_all add: kb_def upd_task_def f_def make_frame_def)
  have c: "cx_csp ctx \<le> 2048" "cx_dsp ctx \<le> 2048" using assms(10) by (simp_all add: handler_usable_def)
  note s = irq_set_get [of kb cpu ctx, unfolded kb, OF g2(1-3) c g(4) assms(13,25)]
  have r: "sched_signal_sigreturn cpu addr k2 = (fst (irq_user_context_set cpu ctx kb), 0)"
    using s(1) c2 assms(11,22,23,24) ok
    by (cases "irq_user_context_set cpu ctx kb")
      (simp add: sched_signal_sigreturn_def Let_def l kb_def [symmetric] fc)
  show ?thesis
    using d(1-3) s(2,3) kb(4) by (simp add: k3_def addr_def [symmetric] r)
qed

text \<open>A user task with signal 10 pending, interrupted at \<open>0x02020202\<close>.\<close>

definition demo_handler :: sched_sigaction where
  "demo_handler = \<lparr>sa_handler = 0x02000100, sa_flags = 0, sa_mask = 0, sa_restorer = 0x02000200\<rparr>"

definition demo_target :: task_slot where
  "demo_target = sched_clear_task\<lparr>used := True, pub := (pub sched_clear_task)\<lparr>kind := KIND_USER\<rparr>,
     sig_pending := 512, sig_action := (sig_action sched_clear_task)[10 := demo_handler]\<rparr>"

definition demo_signalled :: kstate where
  "demo_signalled = demo_boot\<lparr>k_tasks := [sched_clear_task, demo_target], k_current := replicate 32 1,
     k_live := replicate 32 (zero_ctx\<lparr>sc_isp := 2014, sc_isr_base := 0x03F00000\<rparr>),
     k_irq_saved := replicate 32 \<lparr>us_csp = 2000, us_dsp = 2048, us_call_base = 0x03E00000, us_data_base = 0x03E80000\<rparr>,
     k_irq_from_user := replicate 32 True, k_mem := mem_write32 (0x03F00000 + 2015 * 8) 0x02FFFF00 (\<lambda>a. 2)\<rparr>"

definition demo_ctx :: irq_user_context where
  "demo_ctx = the (irq_user_context_get 0 demo_signalled)"

lemma demo_ctx_get: "irq_user_context_get 0 demo_signalled = Some demo_ctx"
  by (simp add: demo_ctx_def irq_user_context_get_def demo_signalled_def Let_def)

lemma demo_ctx_fields:
  "cx_csp demo_ctx = 2000" "cx_dsp demo_ctx = 2048" "cx_call_base demo_ctx = 0x03E00000"
  "cx_data_base demo_ctx = 0x03E80000" "cx_irq_masked demo_ctx = 0" "cx_regs demo_ctx ! 30 = 0x02FFFF00"
  "cx_ip demo_ctx = 0x02020202"
  by (simp_all add: demo_ctx_def irq_user_context_get_def demo_signalled_def Let_def demo_boot_def
      irq_isr_slot_read32_def isr_slot_def mem_read32_def mem_write32_def)

lemma demo_signalled_next:
  "next_signal (\<lambda>s. sig_action demo_target ! s) (sig_mask demo_target) (sig_pending demo_target) = (0, Some 10)"
  by code_simp

lemma demo_signalled_addr: "signal_frame_addr demo_ctx = 0x02FFFE40"
  by (simp add: signal_frame_addr_def demo_ctx_fields)

theorem signal_roundtrip_witness:
  "irq_user_context_get 0 (sched_signal_deliver_pending 0 demo_signalled) =
     Some (enter_handler 10 demo_handler demo_ctx) \<and>
   irq_user_context_get 0 (fst (sched_signal_sigreturn 0 0x02FFFE40 (sched_signal_deliver_pending 0 demo_signalled))) =
     Some demo_ctx"
proof -
  let ?k = demo_signalled
  let ?k1 = "sched_signal_deliver_pending 0 ?k"
  have t: "task ?k 1 = demo_target" "live_current ?k 0 = Some 1" "sig_action demo_target ! 10 = demo_handler"
    "kind (pub demo_target) = KIND_USER" "sig_frame_top demo_target = 0" "sig_mask demo_target = 0"
    "0 < length (k_irq_saved ?k)" "1 < length (k_tasks ?k)" "sc_isr_base (k_live ?k ! 0) = 0x03F00000"
    by (simp_all add: demo_signalled_def demo_target_def live_current_def sched_current_slot_def sched_clear_task_def)
  have h: "sa_handler demo_handler \<noteq> 0" "handler_usable demo_handler demo_ctx"
    "sched_signal_user_stack_range (signal_frame_addr demo_ctx) 180" "sched_signal_user_code_addr (cx_ip demo_ctx)"
    by (simp_all add: demo_handler_def handler_usable_def demo_ctx_fields demo_signalled_addr
        sched_signal_user_stack_range_def sched_signal_user_code_addr_def sched_signal_arch_stack_valid_def)
  have ap: "apart (signal_frame_addr demo_ctx) 180 0x03F00000 16384"
    "apart (signal_frame_addr demo_ctx) 180 (cx_call_base demo_ctx + (cx_csp demo_ctx - 1) * 8) 8"
    unfolding demo_signalled_addr demo_ctx_fields by (rule apartI; simp)+
  have n: "next_signal (\<lambda>s. sig_action (task ?k 1) ! s) (sig_mask (task ?k 1)) (sig_pending (task ?k 1)) = (0, Some 10)"
    unfolding t(1) by (rule demo_signalled_next)
  have u: "kind (pub (task ?k 1)) = KIND_USER" "sa_handler (sig_action (task ?k 1) ! 10) \<noteq> 0"
    "handler_usable (sig_action (task ?k 1) ! 10) demo_ctx"
    "sig_mask (task ?k 1) AND NOT sched_signal_uncatchable_mask = sig_mask (task ?k 1)"
    "sig_frame_top (task ?k 1) = 0 \<or> sched_signal_user_stack_range (sig_frame_top (task ?k 1)) 180"
    "cx_irq_masked demo_ctx = 0 \<or> cx_irq_masked demo_ctx = 1"
    unfolding t using t(4-6) h(1,2) demo_ctx_fields(5) by simp_all
  have ap': "apart (signal_frame_addr demo_ctx) 180 (sc_isr_base (k_live ?k ! 0)) 16384"
    unfolding t(9) by (rule ap(1))
  note e = deliver_effect [OF demo_ctx_get t(2) u(1) n u(2,3) h(3) u(6) t(7,8) ap' ap(2)]
  show ?thesis
    using signal_roundtrip [OF demo_ctx_get t(2) u(1) n u(2,3) h(3,4) u(6,4,5) t(7,8) ap' ap(2), of ?k1]
      e(1,2,5-8) u(1) t by (simp add: demo_signalled_addr)
qed

end
