(* ===== verification/Sched_Vfork.thy ===== *)
theory Sched_Vfork
  imports Signal_Props
begin

text \<open>
  \<open>vfork\<close> (\<open>src/sched_task.c\<close> 126-195 and 240-620). The child shares the parent's user memory;
  the kernel saves the parent's user image and stack when it creates the child and puts them
  back when the child exits or loads a program. Parent and child each get, in their slot of the
  stack pool, copies of the live parts of the user's call, data and interrupt stacks, and a
  context that resumes the user program: the child with result 0, the parent with the child's
  number.

  The functions from \<open>sched_vfork_sync_parent_locked\<close> to \<open>sched_prepare_vfork_child_ctx\<close> of the
  same file have no callers and are not modelled.
\<close>

subsection \<open>Helpers\<close>

definition sched_stack_ctx_copy :: "sched_stack_ctx \<Rightarrow> sched_stack_ctx" where
  "sched_stack_ctx_copy src = src"

text \<open>\<open>sched_ctx_capture\<close> reads the ports and registers 8 to 31; the other fields of the structure
  are not set, and no caller reads them before it sets them.\<close>

definition sched_ctx_capture :: "nat \<Rightarrow> kstate \<Rightarrow> sched_stack_ctx" where
  "sched_ctx_capture cpu k = k_live k ! cpu"

definition sched_stack_slot_index_for_base :: "u32 \<Rightarrow> nat option" where
  "sched_stack_slot_index_for_base base =
     find (\<lambda>slot. sched_stack_pool_slot_base slot = base) [0..<VM_STACK_POOL_SLOTS]"

abbreviation (input) "SYSCALL_ABI_MAGIC \<equiv> (0x30435953 :: u32)"
abbreviation (input) "SYSCALL_ABI_VERSION \<equiv> (1 :: u32)"
abbreviation (input) "SYSCALL_ABI_ADDR \<equiv> (0x002FE000 :: u32)"
abbreviation (input) "SYS_VFORK \<equiv> (29 :: u32)"

definition sched_syscall_abi_base :: "u32 \<Rightarrow> memory \<Rightarrow> u32" where
  "sched_syscall_abi_base abi_addr m =
     (if abi_addr \<noteq> 0 \<and> abi_addr AND 3 = 0 \<and> abi_addr < 0x04000000 \<and>
         0x30 \<le> 0x04000000 - abi_addr \<and> mem_read32 m abi_addr = SYSCALL_ABI_MAGIC
      then abi_addr else SYSCALL_ABI_ADDR)"

text \<open>The words of the block through which the user program sees the result: magic, version,
  number, six arguments, result, error number, time.\<close>

definition vfork_abi_words :: "u32 \<Rightarrow> u32 \<Rightarrow> u32 list" where
  "vfork_abi_words ret_value ticks =
     [SYSCALL_ABI_MAGIC, SYSCALL_ABI_VERSION, SYS_VFORK, 0, 0, 0, 0, 0, 0, ret_value, 0, ticks]"

definition sched_syscall_abi_write32_at :: "u32 \<Rightarrow> u32 \<Rightarrow> u32 \<Rightarrow> memory \<Rightarrow> memory" where
  "sched_syscall_abi_write32_at base off v m = mem_write32 (base + off) v m"

definition abi_block_write :: "u32 \<Rightarrow> u32 list \<Rightarrow> memory \<Rightarrow> memory" where
  "abi_block_write base ws m =
     fold (\<lambda>i. sched_syscall_abi_write32_at base (4 * of_nat i) (ws ! i)) [0..<length ws] m"

subsection \<open>Resuming the user program\<close>

text \<open>The state in which the processor executes \<open>iret\<close>. A task without a context to resume exits
  with code \<open>0x7F\<close>.\<close>

definition sched_vfork_resume_iret :: "nat \<Rightarrow> u32 \<Rightarrow> kstate \<Rightarrow> kstate" where
  "sched_vfork_resume_iret cpu ret_value k =
     (case sched_current_slot k cpu of
        None \<Rightarrow> sched_exit_code cpu 0x7F k
      | Some i \<Rightarrow>
          if \<not> vfork_resume_valid (task k i) then sched_exit_code cpu 0x7F k
          else let base = sched_syscall_abi_base (syscall_abi_addr (task k i)) (k_mem k);
                   c = vfork_resume_ctx (task k i);
                   k = k\<lparr>k_mem := abi_block_write base (vfork_abi_words ret_value (k_ticks k)) (k_mem k)\<rparr>;
                   k = upd_task i (\<lambda>t. t\<lparr>stack_ctx := sched_stack_ctx_copy c, vfork_resume_valid := False\<rparr>) k
               in k\<lparr>k_live := (k_live k)[cpu := (k_live k ! cpu)\<lparr>sc_call_base := sc_call_base c,
                     sc_data_base := sc_data_base c, sc_isr_base := sc_isr_base c, sc_csp := sc_csp c,
                     sc_dsp := sc_dsp c, sc_isp := sc_isp c, sc_in_interrupt := 1, sc_irq_masked := 0\<rparr>]\<rparr>)"

definition sched_vfork_child_entry :: "nat \<Rightarrow> kstate \<Rightarrow> kstate" where
  "sched_vfork_child_entry cpu k = sched_vfork_resume_iret cpu 0 k"

definition sched_vfork_parent_entry :: "nat \<Rightarrow> kstate \<Rightarrow> kstate" where
  "sched_vfork_parent_entry cpu k =
     sched_vfork_resume_iret cpu (case sched_current_slot k cpu of Some i \<Rightarrow> vfork_resume_ret (task k i) | None \<Rightarrow> -1) k"

subsection \<open>Preparing child and parent\<close>

text \<open>Both preparations reject the same contexts, copy the same three tails into the stacks of the
  slot, and arrange that the slot, when it is dispatched, returns to the helper \<open>helper_addr\<close>.\<close>

definition vfork_ctx_bad :: "sched_stack_ctx \<Rightarrow> user_sp \<Rightarrow> sched_stack_ctx \<Rightarrow> bool" where
  "vfork_ctx_bad live sp ctx \<longleftrightarrow> \<not> sc_valid ctx \<or> us_csp sp = 0 \<or> us_csp sp > VM_CALL_STACK_ENTRIES \<or>
     us_dsp sp > VM_DATA_STACK_ENTRIES \<or> sc_isp live > VM_ISR_STACK_ENTRIES \<or> us_call_base sp = 0 \<or>
     us_data_base sp = 0"

definition copy_tail_to :: "u32 \<Rightarrow> u32 \<Rightarrow> u32 \<Rightarrow> u32 \<Rightarrow> u32 \<Rightarrow> memory \<Rightarrow> memory" where
  "copy_tail_to dst src entries idx width m =
     (let bytes = (entries - idx) * width in
      if bytes \<noteq> 0 then sched_mem_copy_u8 (dst + idx * width) (src + idx * width) (unat bytes) m else m)"

definition copy_user_tails :: "sched_stack_ctx \<Rightarrow> user_sp \<Rightarrow> sched_stack_ctx \<Rightarrow> memory \<Rightarrow> memory" where
  "copy_user_tails live sp ctx m =
     copy_tail_to (sc_isr_base ctx) (sc_isr_base live) VM_ISR_STACK_ENTRIES (sc_isp live) 8
       (copy_tail_to (sc_data_base ctx) (us_data_base sp) VM_DATA_STACK_ENTRIES (us_dsp sp) 4
         (copy_tail_to (sc_call_base ctx) (us_call_base sp) VM_CALL_STACK_ENTRIES (us_csp sp) 8 m))"

definition vfork_resume_ctx_of :: "sched_stack_ctx \<Rightarrow> user_sp \<Rightarrow> sched_stack_ctx \<Rightarrow> sched_stack_ctx" where
  "vfork_resume_ctx_of live sp ctx = (sched_stack_ctx_copy ctx)\<lparr>sc_csp := us_csp sp, sc_dsp := us_dsp sp,
     sc_isp := sc_isp live, sc_irq_masked := 0, sc_in_interrupt := 0\<rparr>"

definition vfork_helper_ctx :: "sched_stack_ctx \<Rightarrow> user_sp \<Rightarrow> sched_stack_ctx \<Rightarrow> sched_stack_ctx" where
  "vfork_helper_ctx live sp ctx = ctx\<lparr>sc_csp := us_csp sp - 1, sc_dsp := VM_DATA_STACK_ENTRIES,
     sc_isp := sc_isp live, sc_irq_masked := 0, sc_in_interrupt := 0,
     sc_regs := (sc_regs ctx)[30 := sc_call_base ctx + VM_STACK_SLOT_BYTES,
       31 := sc_call_base ctx + VM_STACK_SLOT_BYTES]\<rparr>"

definition write_helper :: "u32 \<Rightarrow> u32 \<Rightarrow> user_sp \<Rightarrow> sched_stack_ctx \<Rightarrow> memory \<Rightarrow> memory" where
  "write_helper helper_addr text_base sp ctx m =
     (let ret_addr = sc_call_base ctx + (us_csp sp - 1) * 8;
          h = (if helper_addr < text_base then helper_addr + text_base else helper_addr)
      in mem_write32 (ret_addr + 4) 0 (mem_write32 ret_addr h m))"

definition sched_vfork_prepare_child_user_locked ::
    "u32 \<Rightarrow> u32 \<Rightarrow> nat \<Rightarrow> nat \<Rightarrow> sched_stack_ctx \<Rightarrow> kstate \<Rightarrow> kstate \<times> int" where
  "sched_vfork_prepare_child_user_locked child_entry text_base cpu child live k =
     (let sp = k_irq_saved k ! cpu; ctx = stack_ctx (task k child) in
      if vfork_ctx_bad live sp ctx then (k, -1)
      else (upd_task child (\<lambda>t. t\<lparr>vfork_resume_ctx := vfork_resume_ctx_of live sp ctx,
                vfork_resume_valid := True, stack_ctx := vfork_helper_ctx live sp ctx\<rparr>)
              (k\<lparr>k_mem := write_helper child_entry text_base sp ctx (copy_user_tails live sp ctx (k_mem k))\<rparr>), 0))"

definition sched_vfork_prepare_parent_resume_locked ::
    "u32 \<Rightarrow> u32 \<Rightarrow> nat \<Rightarrow> nat \<Rightarrow> sched_stack_ctx \<Rightarrow> u32 \<Rightarrow> kstate \<Rightarrow> kstate \<times> int" where
  "sched_vfork_prepare_parent_resume_locked parent_entry text_base cpu self live child_tid k =
     (let sp = k_irq_saved k ! cpu; ctx = stack_ctx (task k self) in
      if vfork_ctx_bad live sp ctx then (k, -1)
      else (upd_task self (\<lambda>t. t\<lparr>vfork_resume_ctx := vfork_resume_ctx_of live sp ctx,
                vfork_resume_ret := child_tid, vfork_resume_valid := True,
                stack_ctx := vfork_helper_ctx live sp ctx\<rparr>)
              (k\<lparr>k_mem := write_helper parent_entry text_base sp ctx (copy_user_tails live sp ctx (k_mem k))\<rparr>), 0))"

subsection \<open>Creating the child\<close>

text \<open>The parent's own context: what has been captured, with the bases of the slot of the pool that
  the parent's stacks are in.\<close>

definition vfork_own_ctx :: "sched_stack_ctx \<Rightarrow> user_sp \<Rightarrow> sched_stack_ctx \<Rightarrow> sched_stack_ctx" where
  "vfork_own_ctx live sp ctx =
     (case sched_stack_slot_index_for_base (sc_call_base ctx) of
        Some s \<Rightarrow> (sched_stack_ctx_copy live)\<lparr>sc_call_base := sc_call_base ctx, sc_data_base := sc_data_base ctx,
          sc_isr_base := sc_isr_base ctx, sc_pool_slot := sc_pool_slot ctx, sc_valid := True\<rparr>
      | None \<Rightarrow>
          let b = us_call_base sp in
          (sched_stack_ctx_copy live)\<lparr>sc_call_base := b, sc_data_base := us_data_base sp,
            sc_isr_base := b + VM_CALL_STACK_BYTES + VM_DATA_STACK_BYTES,
            sc_pool_slot := (case sched_stack_slot_index_for_base b of Some s \<Rightarrow> s | None \<Rightarrow> sc_pool_slot ctx),
            sc_valid := True\<rparr>)"

definition vfork_child_slot :: "u32 \<Rightarrow> nat \<Rightarrow> task_slot \<Rightarrow> u32 \<Rightarrow> task_slot" where
  "vfork_child_slot child_entry cpu self t =
     sched_clear_task\<lparr>used := True, is_idle := False, entry := child_entry, task_name := task_name self,
       vfork_child_active := True, waitq := None, child_waitq := sched_waitq_init_locked, quantum_used := 0,
       run_cpu := cpu, exit_code := 0, parent_tid := sint (tid (pub self)),
       pub := \<lparr>tid = t, pid = t, ppid = sint (pid (pub self)), state = RUNNABLE, kind = kind (pub self),
         exec_st = exec_st (pub self), wake_tick = 0, run_ticks = run_ticks (pub self), arg = 0\<rparr>,
       cwd := sched_cwd_copy (cwd self), file_umask := file_umask self, sig_mask := sig_mask self,
       sig_pending := 0, sig_frame_top := sig_frame_top self, sig_action := sig_action self,
       syscall_abi_addr := syscall_abi_addr self, vfork_resume_valid := False\<rparr>"

text \<open>Giving up: the stack and the slot of the child are freed. The descriptors that
  \<open>sched_fd_table_clone\<close> has counted stay counted.\<close>

definition vfork_drop_child :: "nat \<Rightarrow> kstate \<Rightarrow> kstate" where
  "vfork_drop_child c k = clear_task c (sched_stack_free_locked c k)"

record vfork_code =
  vc_boot :: u32
  vc_text :: u32
  vc_child :: u32
  vc_parent :: u32

definition vfork_finish :: "vfork_code \<Rightarrow> nat \<Rightarrow> nat \<Rightarrow> nat \<Rightarrow> sched_stack_ctx \<Rightarrow> kstate \<Rightarrow> kstate \<times> int" where
  "vfork_finish vc cpu i c live k =
     (case slot_clone_fds c i k of (k, rc) \<Rightarrow>
      if rc \<noteq> 0 then (vfork_drop_child c k, -1)
      else case sched_vfork_prepare_child_user_locked (vc_child vc) (vc_text vc) cpu c live k of (k, rc) \<Rightarrow>
      if rc \<noteq> 0 then (vfork_drop_child c k, -1)
      else case sched_vfork_prepare_parent_resume_locked (vc_parent vc) (vc_text vc) cpu i live
                  (tid (pub (task k c))) k of (k, rc) \<Rightarrow>
      if rc \<noteq> 0 then (upd_task i (\<lambda>t. t\<lparr>vfork_resume_valid := False\<rparr>) (vfork_drop_child c k), -1)
      else let k = sched_vfork_snapshot_parent_user_locked c k;
               k = sched_runq_add (run_cpu (task k c)) c k;
               k = sched_waitq_sleep_locked cpu (Child_waitq i) 0 k
           in (sched_mark_resched_all k, 0))"

text \<open>The critical section of \<open>sched_vfork_trampoline\<close>; with result 0 the processor leaves for the
  dispatching loop (\<open>sched_vfork_trampoline\<close>) and the caller continues, when it is dispatched
  again, in \<open>sched_vfork_parent_entry\<close>.\<close>

definition vfork_locked :: "vfork_code \<Rightarrow> nat \<Rightarrow> u32 \<Rightarrow> kstate \<Rightarrow> kstate \<times> int" where
  "vfork_locked vc cpu abi_addr k =
     (case live_current k cpu of
        None \<Rightarrow> (k, -1)
      | Some i \<Rightarrow>
          if \<not> sc_valid (stack_ctx (task k i)) then (k, -1)
          else if k_vfork_valid k then (k, -1)
          else let live = sched_ctx_capture cpu k;
                   k = upd_task i (\<lambda>t. t\<lparr>syscall_abi_addr := abi_addr,
                         stack_ctx := vfork_own_ctx live (k_irq_saved k ! cpu) (stack_ctx t)\<rparr>) k
          in case sched_alloc_slot k of
               None \<Rightarrow> (k, -1)
             | Some c \<Rightarrow>
                 let t = k_next_tid k;
                     k = upd_task c (\<lambda>_. vfork_child_slot (vc_child vc) cpu (task k i) t) k;
                     k = k\<lparr>k_next_tid := (if t + 1 = 0 then 1 else t + 1)\<rparr>
                 in case sched_stack_alloc_locked c k of (k, rc) \<Rightarrow>
                    if rc \<noteq> 0 then (clear_task c k, -1)
                    else vfork_finish vc cpu i c live
                           (sched_stack_prepare_bootstrap_locked (vc_boot vc) (vc_text vc) c k))"

definition sched_vfork_trampoline :: "vfork_code \<Rightarrow> nat \<Rightarrow> u32 \<Rightarrow> kstate \<Rightarrow> kstate \<times> int" where
  "sched_vfork_trampoline vc cpu abi_addr k =
     (case vfork_locked vc cpu abi_addr k of (k, rc) \<Rightarrow>
        if rc \<noteq> 0 then (k, rc)
        else (k\<lparr>k_live := (k_live k)[cpu := ctx_load (k_live k ! cpu) (k_sched_ctx k ! cpu)],
                k_ctl := (k_ctl k)[cpu := back_in_loop (k_ctl k ! cpu)]\<rparr>, 0))"

subsection \<open>The parent's memory\<close>

lemma in_range_mono: "in_range a n x \<Longrightarrow> n \<le> l \<Longrightarrow> in_range a l x"
  by (simp add: in_range_def)

lemma vfork_apart:
  "apart 0x01000000 0xF80000 0x02000000 0xF80000" "apart 0x00680000 0x80000 0x02F80000 0x80000"
  "apart 0x02000000 0xF80000 0x01000000 0xF80000" "apart 0x02F80000 0x80000 0x00680000 0x80000"
  "apart 0x00680000 0x80000 0x01000000 0xF80000" "apart 0x02000000 0xF80000 0x02F80000 0x80000"
  "apart 0x01000000 0xF80000 0x02F80000 0x80000" "apart 0x00680000 0x80000 0x02000000 0xF80000"
  "apart 0x02000000 0xF80000 0x00680000 0x80000"
  by (rule apartI; simp)+

lemma vfork_save_eq:
  "vfork_save_memory m = mem_copy 0x00680000 0x02F80000 0x80000 (mem_copy 0x01000000 0x02000000 0xF80000 m)"
  by (simp add: vfork_save_memory_def mem_copy_u8_eq vfork_apart)

lemma vfork_restore_eq:
  "vfork_restore_memory m = mem_copy 0x02F80000 0x00680000 0x80000 (mem_copy 0x02000000 0x01000000 0xF80000 m)"
  by (simp add: vfork_restore_memory_def mem_copy_u8_eq vfork_apart)

lemma in_range_shift: "in_range (b :: u32) n (b + (a - c)) = in_range c n a"
  by (simp add: in_range_def)

text \<open>C28. The child of \<open>vfork\<close> cannot damage its parent: whatever has been written to memory
  between the creation of the child and the restoration, except to the two snapshots, the
  restoration puts every byte of the parent's user image and user stack back and changes no
  other byte.\<close>

theorem vfork_memory_roundtrip:
  assumes "\<And>a. in_range 0x01000000 0xF80000 a \<or> in_range 0x00680000 0x80000 a \<Longrightarrow> m' a = vfork_save_memory m a"
  shows "vfork_restore_memory m' a =
    (if in_range 0x02000000 0xF80000 a \<or> in_range 0x02F80000 0x80000 a then m a else m' a)"
proof -
  have img: "m' (0x01000000 + (a - 0x02000000)) = m a" if "in_range 0x02000000 0xF80000 a"
  proof -
    have r: "in_range 0x01000000 0xF80000 (0x01000000 + (a - 0x02000000))" using that by (simp only: in_range_shift)
    have "\<not> in_range 0x00680000 0x80000 (0x01000000 + (a - 0x02000000))"
      using vfork_apart(5) r unfolding apart_def by blast
    then show ?thesis using r assms [of "0x01000000 + (a - 0x02000000)"] that
      by (simp add: vfork_save_eq mem_copy_def in_range_def)
  qed
  have stk: "m' (0x00680000 + (a - 0x02F80000)) = m a" if "in_range 0x02F80000 0x80000 a"
  proof -
    have r: "in_range 0x00680000 0x80000 (0x00680000 + (a - 0x02F80000))" using that by (simp only: in_range_shift)
    have "\<not> in_range 0x01000000 0xF80000 a" using vfork_apart(7) that unfolding apart_def by blast
    then show ?thesis using r assms [of "0x00680000 + (a - 0x02F80000)"] that
      by (simp add: vfork_save_eq mem_copy_def in_range_def)
  qed
  have d: "\<not> (in_range 0x02000000 0xF80000 a \<and> in_range 0x02F80000 0x80000 a)"
    using vfork_apart(6) unfolding apart_def by blast
  have o: "\<not> in_range 0x02000000 0xF80000 (0x00680000 + (a - 0x02F80000))" if "in_range 0x02F80000 0x80000 a"
    using vfork_apart(8) that in_range_shift [of "0x00680000" "0x80000" a "0x02F80000"] unfolding apart_def by blast
  show ?thesis
    unfolding vfork_restore_eq
    using img stk d o by (simp add: mem_copy_def)
qed

theorem vfork_memory_roundtrip_witness:
  "vfork_restore_memory ((vfork_save_memory (\<lambda>a. 7))(0x02000010 := 9, 0x02FFFFFC := 8)) 0x02000010 = 7"
proof -
  let ?m = "(vfork_save_memory (\<lambda>a. 7))(0x02000010 := 9, 0x02FFFFFC := 8)"
  have "?m a = vfork_save_memory (\<lambda>a. 7) a"
    if "in_range 0x01000000 0xF80000 a \<or> in_range 0x00680000 0x80000 a" for a
  proof -
    have "a \<noteq> 0x02000010" "a \<noteq> 0x02FFFFFC" using that by (auto simp: in_range_def)
    then show ?thesis by simp
  qed
  from vfork_memory_roundtrip [where m' = ?m, OF this, of "0x02000010"] show ?thesis
    by (simp add: in_range_def del: fun_upd_apply)
qed

end
