(* ===== verification/Ext4_Disk.thy ===== *)
theory Ext4_Disk
  imports Octans_Prelude
begin

text \<open>
  The lower layer of the ext4 driver (\<open>src/fs_ext4.c\<close> 1-118 and 232-319): its state, the block
  cache, and the access to blocks.

  A byte buffer is a function from offsets, so that an access stays meaningful wherever the code
  computes the offset from disk contents. The disk is what the block layer shows of it: sectors
  of 512 bytes, read and written by requests. The outcome of each request is a parameter
  (\<open>dv_done\<close>, indexed by the number of the request): \<open>None\<close> is \<open>BLK_OK\<close>, \<open>Some k\<close> is an
  error code after \<open>k\<close> sectors have been transferred.

  An operation runs under the driver's mutex, so it is a function on the state. It returns an
  error code (\<open>Inl\<close>) or its results (\<open>Inr\<close>); \<open>bnd\<close> passes an error on, as the code's
  \<open>if (rc != 0) return rc;\<close>, and \<open>or_err\<close> replaces its code, as in
  \<open>if (f(..) != 0) return FS_ERR_IO;\<close>. The messages of \<open>ext4_try_probe_locked\<close> to the log are
  left out.
\<close>

subsection \<open>Bytes\<close>

type_synonym buf = "nat \<Rightarrow> u8"

definition rd_le16 :: "buf \<Rightarrow> nat \<Rightarrow> u16" where
  "rd_le16 p o1 = ucast (p o1) OR push_bit 8 (ucast (p (o1 + 1)))"

definition rd_le32 :: "buf \<Rightarrow> nat \<Rightarrow> u32" where
  "rd_le32 p o1 = ucast (p o1) OR push_bit 8 (ucast (p (o1 + 1))) OR push_bit 16 (ucast (p (o1 + 2)))
     OR push_bit 24 (ucast (p (o1 + 3)))"

definition wr_le16 :: "nat \<Rightarrow> u16 \<Rightarrow> buf \<Rightarrow> buf" where
  "wr_le16 o1 v p = p(o1 := ucast (v AND 0xFF), o1 + 1 := ucast (drop_bit 8 v AND 0xFF))"

definition wr_le32 :: "nat \<Rightarrow> u32 \<Rightarrow> buf \<Rightarrow> buf" where
  "wr_le32 o1 v p = p(o1 := ucast (v AND 0xFF), o1 + 1 := ucast (drop_bit 8 v AND 0xFF),
     o1 + 2 := ucast (drop_bit 16 v AND 0xFF), o1 + 3 := ucast (drop_bit 24 v AND 0xFF))"

text \<open>\<open>mem_copy_u8(&dst[d], &src[s], n)\<close> and the byte loops of the same shape; \<open>buf_zero\<close> is the
  loop that clears \<open>dst[a]\<close> to \<open>dst[b - 1]\<close>.\<close>

definition mem_copy_u8 :: "buf \<Rightarrow> nat \<Rightarrow> buf \<Rightarrow> nat \<Rightarrow> nat \<Rightarrow> buf" where
  "mem_copy_u8 dst d src s n = (\<lambda>i. if d \<le> i \<and> i < d + n then src (s + (i - d)) else dst i)"

definition buf_zero :: "nat \<Rightarrow> nat \<Rightarrow> buf \<Rightarrow> buf" where
  "buf_zero a b p = (\<lambda>i. if a \<le> i \<and> i < b then 0 else p i)"

definition buf_bytes :: "buf \<Rightarrow> nat \<Rightarrow> nat \<Rightarrow> u8 list" where
  "buf_bytes p a n = map (\<lambda>i. p (a + i)) [0..<n]"

definition buf_put :: "nat \<Rightarrow> u8 list \<Rightarrow> buf \<Rightarrow> buf" where
  "buf_put a bs p = (\<lambda>i. if a \<le> i \<and> i < a + length bs then bs ! (i - a) else p i)"

subsection \<open>State\<close>

abbreviation (input) "FS_ERR_NOENT \<equiv> (-2 :: int)"
abbreviation (input) "FS_ERR_IO \<equiv> (-5 :: int)"
abbreviation (input) "FS_ERR_BADF \<equiv> (-9 :: int)"
abbreviation (input) "FS_ERR_EXIST \<equiv> (-17 :: int)"
abbreviation (input) "FS_ERR_NOTDIR \<equiv> (-20 :: int)"
abbreviation (input) "FS_ERR_ISDIR \<equiv> (-21 :: int)"
abbreviation (input) "FS_ERR_INVAL \<equiv> (-22 :: int)"
abbreviation (input) "FS_ERR_NOSPC \<equiv> (-28 :: int)"
abbreviation (input) "FS_ERR_ROFS \<equiv> (-30 :: int)"
abbreviation (input) "FS_ERR_NAMETOOLONG \<equiv> (-36 :: int)"
abbreviation (input) "FS_ERR_NOSYS \<equiv> (-38 :: int)"
abbreviation (input) "FS_ERR_NOTEMPTY \<equiv> (-39 :: int)"
abbreviation (input) "FS_ERR_LOOP \<equiv> (-40 :: int)"

abbreviation (input) "EXT4_FS_LBA_BASE \<equiv> (2048 :: u32)"
abbreviation (input) "EXT4_EXTENT_MAGIC \<equiv> (0xF30A :: u16)"
abbreviation (input) "EXT4_EXTENTS_FL \<equiv> (0x00080000 :: u32)"
abbreviation (input) "EXT4_INCOMPAT_64BIT \<equiv> (0x80 :: u32)"
abbreviation (input) "EXT4_S_IFMT \<equiv> (0xF000 :: u16)"
abbreviation (input) "EXT4_S_IFLNK \<equiv> (0xA000 :: u16)"
abbreviation (input) "EXT4_S_IFREG \<equiv> (0x8000 :: u16)"
abbreviation (input) "EXT4_S_IFDIR \<equiv> (0x4000 :: u16)"
abbreviation (input) "EXT4_ROOT_INO \<equiv> (2 :: u32)"
abbreviation (input) "EXT4_MAX_NAME \<equiv> (255 :: nat)"
abbreviation (input) "EXT4_PATH_CAP \<equiv> (256 :: nat)"

record ext4_state =
  probe_done :: bool
  mounted :: bool
  block_size :: u32
  sectors_per_block :: u32
  blocks_count :: u32
  first_data_block :: u32
  blocks_per_group :: u32
  inodes_per_group :: u32
  inode_size :: u32
  group_count :: u32
  desc_size :: u32
  feature_incompat :: u32

record ext4_block_cache_entry =
  ce_valid :: bool
  ce_fs_block :: u32
  ce_data :: buf

record blkdev =
  dv_sectors :: "u32 \<Rightarrow> buf"
  dv_done :: "nat \<Rightarrow> nat option"
  dv_requests :: nat

record ext4 =
  g_ext4 :: ext4_state
  g_super :: buf
  g_io_block :: buf
  g_tree_block :: buf
  g_inode_buf :: buf
  g_desc_buf :: buf
  g_block_cache :: "ext4_block_cache_entry list"
  e_dev :: blkdev

subsection \<open>Operations with errors\<close>

type_synonym 'a io = "ext4 \<Rightarrow> ext4 \<times> (int + 'a)"

definition ret :: "'a \<Rightarrow> 'a io" where "ret x s = (s, Inr x)"

definition fail :: "int \<Rightarrow> 'a io" where "fail e s = (s, Inl e)"

definition bnd :: "'a io \<Rightarrow> ('a \<Rightarrow> 'b io) \<Rightarrow> 'b io" where
  "bnd m f s = (case m s of (s', Inl e) \<Rightarrow> (s', Inl e) | (s', Inr x) \<Rightarrow> f x s')"

definition on_err :: "'a io \<Rightarrow> (int \<Rightarrow> 'a io) \<Rightarrow> 'a io" where
  "on_err m h s = (case m s of (s', Inl e) \<Rightarrow> h e s' | (s', Inr x) \<Rightarrow> (s', Inr x))"

definition or_err :: "int \<Rightarrow> 'a io \<Rightarrow> 'a io" where
  "or_err e m = on_err m (\<lambda>_. fail e)"

definition gets :: "(ext4 \<Rightarrow> 'a) \<Rightarrow> 'a io" where "gets f s = (s, Inr (f s))"

definition modify :: "(ext4 \<Rightarrow> ext4) \<Rightarrow> unit io" where "modify f s = (f s, Inr ())"

definition check :: "bool \<Rightarrow> int \<Rightarrow> unit io" where
  "check c e = (if c then ret () else fail e)"

text \<open>A search loop over consecutive block numbers that stops at the first hit.\<close>

primrec for_blocks :: "nat \<Rightarrow> u32 \<Rightarrow> (u32 \<Rightarrow> 'r option io) \<Rightarrow> 'r option io" where
  "for_blocks 0 l f = ret None"
| "for_blocks (Suc n) l f =
     bnd (f l) (\<lambda>r. case r of Some x \<Rightarrow> ret (Some x) | None \<Rightarrow> for_blocks n (l + 1) f)"

abbreviation geom :: "ext4_state io" where "geom \<equiv> gets g_ext4"
abbreviation bsize :: "ext4 \<Rightarrow> nat" where "bsize s \<equiv> unat (block_size (g_ext4 s))"

subsection \<open>Sectors\<close>

definition dv_count :: "blkdev \<Rightarrow> u32 \<Rightarrow> nat" where
  "dv_count d count = (case dv_done d (dv_requests d) of None \<Rightarrow> unat count | Some k \<Rightarrow> min k (unat count))"

definition blk_read_sectors :: "u32 \<Rightarrow> u32 \<Rightarrow> buf \<Rightarrow> blkdev \<Rightarrow> blkdev \<times> buf \<times> bool" where
  "blk_read_sectors lba count dst d =
     (d\<lparr>dv_requests := dv_requests d + 1\<rparr>,
      \<lambda>i. if i < 512 * dv_count d count then dv_sectors d (lba + of_nat (i div 512)) (i mod 512) else dst i,
      dv_done d (dv_requests d) = None)"

definition blk_write_sectors :: "u32 \<Rightarrow> u32 \<Rightarrow> buf \<Rightarrow> blkdev \<Rightarrow> blkdev \<times> bool" where
  "blk_write_sectors lba count src d =
     (d\<lparr>dv_requests := dv_requests d + 1,
        dv_sectors := \<lambda>s. if unat (s - lba) < dv_count d count
                          then (\<lambda>i. src (512 * unat (s - lba) + i)) else dv_sectors d s\<rparr>,
      dv_done d (dv_requests d) = None)"

subsection \<open>The block cache\<close>

definition cache_slot :: "u32 \<Rightarrow> nat" where
  "cache_slot fs_block = unat (fs_block mod 8)"

definition block_size_ok :: "ext4 \<Rightarrow> bool" where
  "block_size_ok s \<longleftrightarrow> \<not> (block_size (g_ext4 s) = 0 \<or> block_size (g_ext4 s) > 4096)"

definition ext4_block_cache_reset :: "ext4 \<Rightarrow> ext4" where
  "ext4_block_cache_reset s =
     s\<lparr>g_block_cache := map (\<lambda>e. e\<lparr>ce_valid := False, ce_fs_block := 0\<rparr>) (g_block_cache s)\<rparr>"

definition ext4_block_cache_read :: "u32 \<Rightarrow> buf \<Rightarrow> ext4 \<Rightarrow> buf option" where
  "ext4_block_cache_read fs_block dst s =
     (let e = g_block_cache s ! cache_slot fs_block in
      if \<not> block_size_ok s then None
      else if \<not> ce_valid e \<or> ce_fs_block e \<noteq> fs_block then None
      else Some (mem_copy_u8 dst 0 (ce_data e) 0 (bsize s)))"

definition ext4_block_cache_store :: "u32 \<Rightarrow> buf \<Rightarrow> ext4 \<Rightarrow> ext4" where
  "ext4_block_cache_store fs_block src s =
     (if \<not> block_size_ok s then s
      else s\<lparr>g_block_cache := (g_block_cache s)[cache_slot fs_block :=
             \<lparr>ce_valid = True, ce_fs_block = fs_block,
              ce_data = mem_copy_u8 (ce_data (g_block_cache s ! cache_slot fs_block)) 0 src 0 (bsize s)\<rparr>]\<rparr>)"

subsection \<open>Blocks\<close>

text \<open>The destination of a read is one of the two static block buffers.\<close>

datatype block_buf = IO_BLOCK | TREE_BLOCK

primrec get_block_buf :: "block_buf \<Rightarrow> ext4 \<Rightarrow> buf" where
  "get_block_buf IO_BLOCK s = g_io_block s"
| "get_block_buf TREE_BLOCK s = g_tree_block s"

primrec set_block_buf :: "block_buf \<Rightarrow> buf \<Rightarrow> ext4 \<Rightarrow> ext4" where
  "set_block_buf IO_BLOCK p s = s\<lparr>g_io_block := p\<rparr>"
| "set_block_buf TREE_BLOCK p s = s\<lparr>g_tree_block := p\<rparr>"

definition block_lba :: "ext4_state \<Rightarrow> u32 \<Rightarrow> u32" where
  "block_lba g fs_block = EXT4_FS_LBA_BASE + fs_block * sectors_per_block g"

definition ext4_read_block_locked :: "u32 \<Rightarrow> block_buf \<Rightarrow> unit io" where
  "ext4_read_block_locked fs_block dst s =
     (if \<not> block_size_ok s then (s, Inl FS_ERR_IO)
      else case ext4_block_cache_read fs_block (get_block_buf dst s) s of
        Some p \<Rightarrow> (set_block_buf dst p s, Inr ())
      | None \<Rightarrow>
          (case blk_read_sectors (block_lba (g_ext4 s) fs_block) (sectors_per_block (g_ext4 s))
                  (get_block_buf dst s) (e_dev s) of
             (d, p, ok) \<Rightarrow>
               let s = set_block_buf dst p (s\<lparr>e_dev := d\<rparr>) in
               if \<not> ok then (s, Inl FS_ERR_IO)
               else (ext4_block_cache_store fs_block p s, Inr ())))"

definition ext4_write_block_locked :: "u32 \<Rightarrow> buf \<Rightarrow> unit io" where
  "ext4_write_block_locked fs_block src s =
     (if \<not> block_size_ok s then (s, Inl FS_ERR_IO)
      else case blk_write_sectors (block_lba (g_ext4 s) fs_block) (sectors_per_block (g_ext4 s))
                  src (e_dev s) of
             (d, ok) \<Rightarrow>
               let s = s\<lparr>e_dev := d\<rparr> in
               if \<not> ok then (s, Inl FS_ERR_IO)
               else (ext4_block_cache_store fs_block src s, Inr ()))"

end
