(* ===== verification/Ext4_Inode.thy ===== *)
theory Ext4_Inode
  imports Ext4_Disk
begin

text \<open>
  Group descriptors, inodes and the superblock of \<open>src/fs_ext4.c\<close> (lines 321-529 and
  1601-1725). A structure that straddles the end of a block is read and written in two parts.
\<close>

subsection \<open>A structure of n bytes at an offset, possibly across two blocks\<close>

text \<open>The read that \<open>ext4_read_group_desc_locked\<close> and \<open>ext4_read_inode_locked\<close> share: \<open>n\<close> bytes
  at offset \<open>off\<close> of a block, stored in a buffer of the caller.\<close>

definition read_spanning ::
  "u32 \<Rightarrow> u32 \<Rightarrow> u32 \<Rightarrow> (ext4 \<Rightarrow> buf) \<Rightarrow> (buf \<Rightarrow> ext4 \<Rightarrow> ext4) \<Rightarrow> unit io" where
  "read_spanning block off n get put =
     bnd (or_err FS_ERR_IO (ext4_read_block_locked block IO_BLOCK)) (\<lambda>_.
     bnd geom (\<lambda>g.
     if off + n \<le> block_size g then
       modify (\<lambda>s. put (mem_copy_u8 (get s) 0 (g_io_block s) (unat off) (unat n)) s)
     else
       let first_part = block_size g - off in
       bnd (modify (\<lambda>s. put (mem_copy_u8 (get s) 0 (g_io_block s) (unat off) (unat first_part)) s)) (\<lambda>_.
       bnd (or_err FS_ERR_IO (ext4_read_block_locked (block + 1) IO_BLOCK)) (\<lambda>_.
       modify (\<lambda>s. put (mem_copy_u8 (get s) (unat first_part) (g_io_block s) 0
                          (unat n - unat first_part)) s)))))"

subsection \<open>Group descriptors\<close>

record group_desc =
  gd_block_bitmap :: u32
  gd_inode_bitmap :: u32
  gd_inode_table :: u32

text \<open>The out-parameters are one record; every caller passes at least one of the pointers.\<close>

definition ext4_read_group_desc_locked :: "u32 \<Rightarrow> group_desc io" where
  "ext4_read_group_desc_locked grp =
     bnd geom (\<lambda>g.
     if grp \<ge> group_count g then fail FS_ERR_INVAL
     else if desc_size g < 32 \<or> desc_size g > 64 then fail FS_ERR_NOSYS
     else
       let gdt_first_block = (if block_size g = 1024 then 2 else 1);
           desc_off = grp * desc_size g;
           block = gdt_first_block + desc_off div block_size g;
           in_block_off = desc_off mod block_size g in
       bnd (read_spanning block in_block_off (desc_size g) g_desc_buf (\<lambda>p s. s\<lparr>g_desc_buf := p\<rparr>)) (\<lambda>_.
       bnd (gets g_desc_buf) (\<lambda>d.
       if feature_incompat g AND EXT4_INCOMPAT_64BIT \<noteq> 0 \<and> desc_size g \<ge> 64 \<and>
          (rd_le32 d 0x20 \<noteq> 0 \<or> rd_le32 d 0x28 \<noteq> 0)
       then fail FS_ERR_NOSYS
       else ret \<lparr>gd_block_bitmap = rd_le32 d 0, gd_inode_bitmap = rd_le32 d 4,
                 gd_inode_table = rd_le32 d 8\<rparr>)))"

subsection \<open>Inodes\<close>

text \<open>Where an inode is stored: the block and the offset in it.\<close>

definition inode_place :: "u32 \<Rightarrow> (u32 \<times> u32) io" where
  "inode_place inode_no =
     bnd geom (\<lambda>g.
     if inode_no = 0 \<or> inodes_per_group g = 0 then fail FS_ERR_INVAL
     else
       let grp = (inode_no - 1) div inodes_per_group g;
           index = (inode_no - 1) mod inodes_per_group g in
       if grp \<ge> group_count g then fail FS_ERR_NOENT
       else
         bnd (or_err FS_ERR_IO (ext4_read_group_desc_locked grp)) (\<lambda>gd.
         let inode_off = index * inode_size g in
         ret (gd_inode_table gd + inode_off div block_size g, inode_off mod block_size g)))"

text \<open>\<open>ext4_read_inode_locked(inode_no, g_inode_buf)\<close>, the only buffer it is called with.\<close>

definition ext4_read_inode_locked :: "u32 \<Rightarrow> unit io" where
  "ext4_read_inode_locked inode_no =
     bnd (inode_place inode_no) (\<lambda>(block, off).
     bnd geom (\<lambda>g.
     read_spanning block off (inode_size g) g_inode_buf (\<lambda>p s. s\<lparr>g_inode_buf := p\<rparr>)))"

definition write_io_block :: "u32 \<Rightarrow> unit io" where
  "write_io_block block = bnd (gets g_io_block) (\<lambda>p. ext4_write_block_locked block p)"

definition ext4_write_inode_locked :: "u32 \<Rightarrow> unit io" where
  "ext4_write_inode_locked inode_no =
     bnd (inode_place inode_no) (\<lambda>(block, off).
     bnd (or_err FS_ERR_IO (ext4_read_block_locked block IO_BLOCK)) (\<lambda>_.
     bnd geom (\<lambda>g.
     if off + inode_size g \<le> block_size g then
       bnd (modify (\<lambda>s. s\<lparr>g_io_block :=
              mem_copy_u8 (g_io_block s) (unat off) (g_inode_buf s) 0 (unat (inode_size g))\<rparr>)) (\<lambda>_.
       or_err FS_ERR_IO (write_io_block block))
     else
       let first_part = block_size g - off in
       bnd (modify (\<lambda>s. s\<lparr>g_io_block :=
              mem_copy_u8 (g_io_block s) (unat off) (g_inode_buf s) 0 (unat first_part)\<rparr>)) (\<lambda>_.
       bnd (or_err FS_ERR_IO (write_io_block block)) (\<lambda>_.
       bnd (or_err FS_ERR_IO (ext4_read_block_locked (block + 1) IO_BLOCK)) (\<lambda>_.
       bnd (modify (\<lambda>s. s\<lparr>g_io_block :=
              mem_copy_u8 (g_io_block s) 0 (g_inode_buf s) (unat first_part)
                (unat (inode_size g) - unat first_part)\<rparr>)) (\<lambda>_.
       or_err FS_ERR_IO (write_io_block (block + 1)))))))))"

definition ext4_inode_mode :: "buf \<Rightarrow> u16" where "ext4_inode_mode inode = rd_le16 inode 0"
definition ext4_inode_links_count :: "buf \<Rightarrow> u16" where "ext4_inode_links_count inode = rd_le16 inode 0x1A"
definition ext4_inode_flags :: "buf \<Rightarrow> u32" where "ext4_inode_flags inode = rd_le32 inode 0x20"

definition ext4_inode_size32 :: "buf \<Rightarrow> int + u32" where
  "ext4_inode_size32 inode =
     (if ext4_inode_mode inode AND EXT4_S_IFMT = EXT4_S_IFREG \<and> rd_le32 inode 0x6C \<noteq> 0
      then Inl FS_ERR_NOSYS else Inr (rd_le32 inode 4))"

text \<open>The size of the inode in \<open>g_inode_buf\<close>, and an assignment to that buffer.\<close>

definition inode_buf_size :: "u32 io" where
  "inode_buf_size s = (s, ext4_inode_size32 (g_inode_buf s))"

definition edit_inode :: "(buf \<Rightarrow> buf) \<Rightarrow> unit io" where
  "edit_inode f = modify (\<lambda>s. s\<lparr>g_inode_buf := f (g_inode_buf s)\<rparr>)"

definition ext4_set_inode_size_locked :: "u32 \<Rightarrow> u32 \<Rightarrow> unit io" where
  "ext4_set_inode_size_locked inode_no new_size =
     bnd (or_err FS_ERR_IO (ext4_read_inode_locked inode_no)) (\<lambda>_.
     bnd (edit_inode (\<lambda>p. wr_le32 0x6C 0 (wr_le32 4 new_size p))) (\<lambda>_.
     or_err FS_ERR_IO (ext4_write_inode_locked inode_no)))"

definition ext4_adjust_links_locked :: "u32 \<Rightarrow> int \<Rightarrow> unit io" where
  "ext4_adjust_links_locked inode_no delta =
     bnd (or_err FS_ERR_IO (ext4_read_inode_locked inode_no)) (\<lambda>_.
     bnd (gets (\<lambda>s. ext4_inode_links_count (g_inode_buf s))) (\<lambda>links.
     if delta < 0 \<and> links < of_int (- delta) then fail FS_ERR_IO
     else
       bnd (edit_inode (wr_le16 0x1A (links + of_int delta))) (\<lambda>_.
       or_err FS_ERR_IO (ext4_write_inode_locked inode_no))))"

subsection \<open>Mounting\<close>

text \<open>The probe fails for good: both a missing and an unsupported file system set
  \<open>probe_done\<close>.\<close>

definition probe_failed :: "int \<Rightarrow> unit io" where
  "probe_failed e = bnd (modify (\<lambda>s. s\<lparr>g_ext4 := (g_ext4 s)\<lparr>probe_done := True, mounted := False\<rparr>\<rparr>)) (\<lambda>_. fail e)"

definition read_super :: "unit io" where
  "read_super s =
     (case blk_read_sectors (EXT4_FS_LBA_BASE + 2) 2 (g_super s) (e_dev s) of
        (d, p, ok) \<Rightarrow> (s\<lparr>e_dev := d, g_super := p\<rparr>, if ok then Inr () else Inl FS_ERR_NOENT))"

definition super_geometry :: "buf \<Rightarrow> ext4_state \<Rightarrow> ext4_state" where
  "super_geometry p g =
     (let bs = push_bit (unat (rd_le32 p 0x18)) 1024; ds = ucast (rd_le16 p 0xFE) in
      g\<lparr>block_size := bs, sectors_per_block := bs div 512,
        first_data_block := rd_le32 p 0x14, blocks_per_group := rd_le32 p 0x20,
        inodes_per_group := rd_le32 p 0x28, inode_size := ucast (rd_le16 p 0x58),
        feature_incompat := rd_le32 p 0x60,
        desc_size := if ds < 32 then 32 else ds\<rparr>)"

definition probe_groups :: "buf \<Rightarrow> ext4_state \<Rightarrow> u32" where
  "probe_groups p g =
     (rd_le32 p 4 - first_data_block g + blocks_per_group g - 1) div blocks_per_group g"

definition ext4_try_probe_locked :: "unit io" where
  "ext4_try_probe_locked =
     bnd geom (\<lambda>g0.
     if probe_done g0 then (if mounted g0 then ret () else fail FS_ERR_NOENT)
     else
       bnd (on_err read_super (\<lambda>_. probe_failed FS_ERR_NOENT)) (\<lambda>_.
       bnd (gets g_super) (\<lambda>p.
       if rd_le16 p 0x38 \<noteq> 0xEF53 then probe_failed FS_ERR_NOENT
       else if rd_le32 p 0x18 > 2 then probe_failed FS_ERR_NOSYS
       else
         bnd (modify (\<lambda>s. s\<lparr>g_ext4 := super_geometry p (g_ext4 s)\<rparr>)) (\<lambda>_.
         bnd geom (\<lambda>g.
         if desc_size g > 64 then probe_failed FS_ERR_NOSYS
         else if inode_size g < 128 \<or> inode_size g > 512 \<or> blocks_per_group g = 0 \<or>
                 inodes_per_group g = 0 \<or> sectors_per_block g = 0 then probe_failed FS_ERR_NOSYS
         else if rd_le32 p 0x150 \<noteq> 0 then probe_failed FS_ERR_NOSYS
         else if rd_le32 p 4 \<le> first_data_block g then probe_failed FS_ERR_NOSYS
         else if probe_groups p g = 0 then probe_failed FS_ERR_NOSYS
         else modify (\<lambda>s. s\<lparr>g_ext4 := g\<lparr>blocks_count := rd_le32 p 4, group_count := probe_groups p g,
                                        probe_done := True, mounted := True\<rparr>\<rparr>))))))"

text \<open>The initialisation of the driver's mutex is not part of this state.\<close>

definition fs_ext4_init :: "ext4 \<Rightarrow> ext4" where
  "fs_ext4_init s =
     ext4_block_cache_reset (s\<lparr>g_ext4 :=
       \<lparr>probe_done = False, mounted = False, block_size = 0, sectors_per_block = 0, blocks_count = 0,
        first_data_block = 0, blocks_per_group = 0, inodes_per_group = 0, inode_size = 0,
        group_count = 0, desc_size = 0, feature_incompat = 0\<rparr>\<rparr>)"

end
