(* ===== verification/Ext4_Map.thy ===== *)
theory Ext4_Map
  imports Ext4_Inode
begin

text \<open>
  Which disk block holds a block of a file (\<open>src/fs_ext4.c\<close> 531-679), the allocation of blocks and
  inodes from the groups' bit maps (681-780), and the extension of a file's extents (896-959).
  A node of the extent tree is at most followed for eight levels, as the code's guard has it.
\<close>

subsection \<open>Extents\<close>

text \<open>Entry \<open>i\<close> of a node starts at byte \<open>12 + 12 * i\<close>.\<close>

abbreviation (input) ent_off :: "nat \<Rightarrow> nat" where "ent_off i \<equiv> 12 + 12 * i"

definition extent_len :: "buf \<Rightarrow> nat \<Rightarrow> u32" where
  "extent_len node i = ucast (rd_le16 node (ent_off i + 4) AND 0x7FFF)"

definition extent_covers :: "buf \<Rightarrow> u32 \<Rightarrow> nat \<Rightarrow> bool" where
  "extent_covers node lblock i \<longleftrightarrow>
     (let ee_block = rd_le32 node (ent_off i); ee_len = extent_len node i in
      ee_len \<noteq> 0 \<and> lblock \<ge> ee_block \<and> lblock < ee_block + ee_len)"

text \<open>The loop over the extents of a leaf, and the loop that chooses the child of an inner node:
  the entry before the first that starts after \<open>lblock\<close>.\<close>

definition extent_leaf_map :: "buf \<Rightarrow> u32 \<Rightarrow> int + u32" where
  "extent_leaf_map node lblock =
     (case find (extent_covers node lblock) [0..<unat (rd_le16 node 2)] of
        None \<Rightarrow> Inl FS_ERR_NOENT
      | Some i \<Rightarrow> if rd_le16 node (ent_off i + 6) \<noteq> 0 then Inl FS_ERR_NOSYS
                  else Inr (rd_le32 node (ent_off i + 8) + (lblock - rd_le32 node (ent_off i))))"

fun index_choose :: "buf \<Rightarrow> u32 \<Rightarrow> nat list \<Rightarrow> nat option \<Rightarrow> nat option" where
  "index_choose node lblock [] chosen = chosen"
| "index_choose node lblock (i # is) chosen =
     (if rd_le32 node (ent_off i) > lblock then chosen else index_choose node lblock is (Some i))"

function extent_walk :: "nat \<Rightarrow> buf \<Rightarrow> u32 \<Rightarrow> u32 io" where
  "extent_walk guard node lblock =
     (let entries = rd_le16 node 2; depth = rd_le16 node 6 in
      if rd_le16 node 0 \<noteq> EXT4_EXTENT_MAGIC then fail FS_ERR_IO
      else if entries = 0 then fail FS_ERR_NOENT
      else if depth > 5 \<or> guard > 6 then fail FS_ERR_NOSYS
      else if depth = 0 then (\<lambda>s. (s, extent_leaf_map node lblock))
      else case index_choose node lblock [0..<unat entries] None of
        None \<Rightarrow> fail FS_ERR_NOENT
      | Some i \<Rightarrow>
          if rd_le16 node (ent_off i + 8) \<noteq> 0 then fail FS_ERR_NOSYS
          else bnd (or_err FS_ERR_IO (ext4_read_block_locked (rd_le32 node (ent_off i + 4)) TREE_BLOCK)) (\<lambda>_.
               bnd (gets g_tree_block) (\<lambda>node'. extent_walk (guard + 1) node' lblock)))"
  by pat_completeness auto
termination by (relation "measure (\<lambda>(guard, _, _). 8 - guard)") auto

text \<open>The extents that are passed are always those in \<open>g_inode_buf\<close>, from byte \<open>0x28\<close> on.\<close>

definition sub_buf :: "nat \<Rightarrow> buf \<Rightarrow> buf" where
  "sub_buf o1 p = (\<lambda>i. p (o1 + i))"

definition put_sub :: "nat \<Rightarrow> buf \<Rightarrow> buf \<Rightarrow> buf" where
  "put_sub o1 r p = (\<lambda>i. if i < o1 then p i else r (i - o1))"

definition ext4_extent_map_locked :: "u32 \<Rightarrow> u32 io" where
  "ext4_extent_map_locked lblock =
     bnd (gets (\<lambda>s. sub_buf 0x28 (g_inode_buf s))) (\<lambda>root. extent_walk 0 root lblock)"

subsection \<open>Block pointers\<close>

definition nonzero_block :: "u32 \<Rightarrow> u32 io" where
  "nonzero_block b = (if b = 0 then fail FS_ERR_NOENT else ret b)"

text \<open>Entry \<open>i\<close> of the block of pointers \<open>ind\<close>.\<close>

definition indirect :: "u32 \<Rightarrow> u32 \<Rightarrow> u32 io" where
  "indirect ind i =
     bnd (or_err FS_ERR_IO (ext4_read_block_locked ind TREE_BLOCK)) (\<lambda>_.
     bnd (gets (\<lambda>s. rd_le32 (g_tree_block s) (unat (i * 4)))) nonzero_block)"

definition ext4_legacy_map_locked :: "u32 \<Rightarrow> u32 io" where
  "ext4_legacy_map_locked lblock =
     bnd geom (\<lambda>g.
     bnd (gets (\<lambda>s. sub_buf 0x28 (g_inode_buf s))) (\<lambda>i_block.
     let ptrs = block_size g div 4; l1 = lblock - 12; l2 = l1 - ptrs in
     if ptrs = 0 then fail FS_ERR_NOSYS
     else if lblock < 12 then nonzero_block (rd_le32 i_block (unat (lblock * 4)))
     else if l1 < ptrs then
       bnd (nonzero_block (rd_le32 i_block 48)) (\<lambda>ind. indirect ind l1)
     else if l2 < ptrs * ptrs then
       bnd (nonzero_block (rd_le32 i_block 52)) (\<lambda>dind.
       bnd (indirect dind (l2 div ptrs)) (\<lambda>ind. indirect ind (l2 mod ptrs)))
     else fail FS_ERR_NOSYS))"

definition ext4_inode_map_block_locked :: "u32 \<Rightarrow> u32 io" where
  "ext4_inode_map_block_locked lblock =
     bnd (gets g_inode_buf) (\<lambda>inode.
     if ext4_inode_flags inode AND EXT4_EXTENTS_FL \<noteq> 0 then ext4_extent_map_locked lblock
     else ext4_legacy_map_locked lblock)"

subsection \<open>Extending a file\<close>

definition write_extent :: "nat \<Rightarrow> u32 \<Rightarrow> u32 \<Rightarrow> buf \<Rightarrow> buf" where
  "write_extent o1 lblock pblock r =
     wr_le32 (o1 + 8) pblock (wr_le16 (o1 + 6) 0 (wr_le16 (o1 + 4) 1 (wr_le32 o1 lblock r)))"

text \<open>\<open>ext4_extent_append_block_locked\<close> on the extents \<open>r\<close> of a file system with \<open>nblocks\<close>
  blocks.\<close>

definition extent_append :: "u32 \<Rightarrow> u32 \<Rightarrow> u32 \<Rightarrow> buf \<Rightarrow> int + buf" where
  "extent_append nblocks lblock pblock r =
     (let entries = rd_le16 r 2; max_entries = rd_le16 r 4 in
      if pblock \<ge> nblocks then Inl FS_ERR_INVAL
      else if rd_le16 r 0 \<noteq> EXT4_EXTENT_MAGIC then Inl FS_ERR_IO
      else if rd_le16 r 6 \<noteq> 0 then Inl FS_ERR_NOSYS
      else if entries > max_entries \<or> max_entries = 0 then Inl FS_ERR_IO
      else if entries = 0 then Inr (wr_le16 2 1 (write_extent (ent_off 0) lblock pblock r))
      else
        let last = ent_off (unat entries - 1);
            ee_len_raw = rd_le16 r (last + 4);
            ee_start_lo = rd_le32 r (last + 8);
            ee_len = extent_len r (unat entries - 1) in
        if ee_len_raw AND 0x8000 \<noteq> 0 \<or> ee_len = 0 \<or> rd_le16 r (last + 6) \<noteq> 0 then Inl FS_ERR_NOSYS
        else if lblock \<noteq> rd_le32 r last + ee_len then Inl FS_ERR_NOSYS
        else if pblock = ee_start_lo + ee_len \<and> ee_len < 0x7FFF then
          Inr (wr_le16 (last + 4) (ucast (ee_len + 1)) r)
        else if entries \<ge> max_entries then Inl FS_ERR_NOSPC
        else Inr (wr_le16 2 (entries + 1) (write_extent (ent_off (unat entries)) lblock pblock r)))"

definition ext4_extent_append_block_locked :: "u32 \<Rightarrow> u32 \<Rightarrow> unit io" where
  "ext4_extent_append_block_locked lblock pblock s =
     (case extent_append (blocks_count (g_ext4 s)) lblock pblock (sub_buf 0x28 (g_inode_buf s)) of
        Inl e \<Rightarrow> (s, Inl e)
      | Inr r \<Rightarrow> (s\<lparr>g_inode_buf := put_sub 0x28 r (g_inode_buf s)\<rparr>, Inr ()))"

subsection \<open>Bit maps\<close>

definition bit_mask :: "nat \<Rightarrow> u8" where
  "bit_mask b = push_bit (b AND 7) 1"

definition bit_set :: "buf \<Rightarrow> nat \<Rightarrow> bool" where
  "bit_set p b \<longleftrightarrow> p (b div 8) AND bit_mask b \<noteq> 0"

definition set_bit_in :: "nat \<Rightarrow> buf \<Rightarrow> buf" where
  "set_bit_in b p = p(b div 8 := p (b div 8) OR bit_mask b)"

text \<open>The loop over the bits of a bit map that lies in one block: it stops at the end of the block.\<close>

definition first_clear :: "buf \<Rightarrow> nat \<Rightarrow> nat \<Rightarrow> nat option" where
  "first_clear p bs n = find (\<lambda>b. \<not> bit_set p b) [0..<min n (8 * bs)]"

subsection \<open>Allocating a block\<close>

text \<open>The first block of a group and the number of its blocks, 0 if the group is past the end.\<close>

definition group_span :: "ext4_state \<Rightarrow> u32 \<Rightarrow> u32 \<times> u32" where
  "group_span g grp =
     (let group_first = first_data_block g + grp * blocks_per_group g;
          group_end = group_first + blocks_per_group g;
          group_end = (if group_end > blocks_count g then blocks_count g else group_end) in
      (group_first, if group_first \<ge> blocks_count g then 0 else group_end - group_first))"

text \<open>One pass of the loop: a group whose bit map cannot be read is skipped.\<close>

definition skip_errors :: "'r option io \<Rightarrow> 'r option io" where
  "skip_errors m = on_err m (\<lambda>_. ret None)"

definition read_block_bitmap :: "u32 \<Rightarrow> u32 option io" where
  "read_block_bitmap grp =
     skip_errors (
       bnd (ext4_read_group_desc_locked grp) (\<lambda>gd.
       bnd (ext4_read_block_locked (gd_block_bitmap gd) IO_BLOCK) (\<lambda>_.
       ret (Some (gd_block_bitmap gd)))))"

text \<open>Taking a bit that the search has found: the map is written back before the result is.\<close>

definition take_bit_of :: "u32 \<Rightarrow> nat \<Rightarrow> unit io" where
  "take_bit_of bitmap_block b =
     bnd (modify (\<lambda>s. s\<lparr>g_io_block := set_bit_in b (g_io_block s)\<rparr>)) (\<lambda>_.
     or_err FS_ERR_IO (write_io_block bitmap_block))"

definition alloc_block_in_group :: "u32 \<Rightarrow> u32 option io" where
  "alloc_block_in_group grp =
     bnd geom (\<lambda>g.
     let (group_first, group_blocks) = group_span g grp in
     if group_blocks = 0 then ret None
     else
       bnd (read_block_bitmap grp) (\<lambda>r.
       case r of None \<Rightarrow> ret None
       | Some bitmap_block \<Rightarrow>
           bnd (gets (\<lambda>s. first_clear (g_io_block s) (bsize s) (unat group_blocks))) (\<lambda>f.
           case f of None \<Rightarrow> ret None
           | Some b \<Rightarrow> bnd (take_bit_of bitmap_block b) (\<lambda>_. ret (Some (group_first + of_nat b))))))"

definition alloc_start_group :: "ext4_state \<Rightarrow> u32 \<Rightarrow> u32" where
  "alloc_start_group g inode_no =
     (let grp = (if inode_no > 0 \<and> inodes_per_group g \<noteq> 0 then (inode_no - 1) div inodes_per_group g else 0) in
      if grp \<ge> group_count g then 0 else grp)"

definition ext4_alloc_block_locked :: "u32 \<Rightarrow> u32 io" where
  "ext4_alloc_block_locked inode_no =
     bnd geom (\<lambda>g.
     if blocks_count g = 0 \<or> blocks_per_group g = 0 then fail FS_ERR_INVAL
     else
       bnd (for_blocks (unat (group_count g)) 0 (\<lambda>pass.
              alloc_block_in_group ((alloc_start_group g inode_no + pass) mod group_count g))) (\<lambda>r.
       case r of None \<Rightarrow> fail FS_ERR_NOSPC | Some p \<Rightarrow> ret p))"

subsection \<open>Allocating an inode\<close>

definition read_inode_bitmap :: "u32 \<Rightarrow> u32 option io" where
  "read_inode_bitmap grp =
     skip_errors (
       bnd (ext4_read_group_desc_locked grp) (\<lambda>gd.
       bnd (ext4_read_block_locked (gd_inode_bitmap gd) IO_BLOCK) (\<lambda>_.
       ret (Some (gd_inode_bitmap gd)))))"

text \<open>A new inode: all 512 bytes of the buffer cleared, an empty extent node with room for four.\<close>

definition fresh_inode :: "u16 \<Rightarrow> buf \<Rightarrow> buf" where
  "fresh_inode mode p =
     wr_le16 0x2E 0 (wr_le16 0x2C 4 (wr_le16 0x2A 0 (wr_le16 0x28 EXT4_EXTENT_MAGIC
       (wr_le32 0x20 EXT4_EXTENTS_FL (wr_le16 0x1A 1 (wr_le32 4 0 (wr_le16 0 mode (buf_zero 0 512 p))))))))"

definition alloc_inode_in_group :: "u16 \<Rightarrow> u32 \<Rightarrow> u32 option io" where
  "alloc_inode_in_group mode grp =
     bnd geom (\<lambda>g.
     bnd (read_inode_bitmap grp) (\<lambda>r.
     case r of None \<Rightarrow> ret None
     | Some bitmap_block \<Rightarrow>
         bnd (gets (\<lambda>s. first_clear (g_io_block s) (bsize s) (unat (inodes_per_group g)))) (\<lambda>f.
         case f of None \<Rightarrow> ret None
         | Some b \<Rightarrow>
             let ino = grp * inodes_per_group g + of_nat b + 1 in
             bnd (take_bit_of bitmap_block b) (\<lambda>_.
             bnd (edit_inode (fresh_inode mode)) (\<lambda>_.
             bnd (or_err FS_ERR_IO (ext4_write_inode_locked ino)) (\<lambda>_. ret (Some ino)))))))"

definition ext4_alloc_inode_locked :: "u16 \<Rightarrow> u32 io" where
  "ext4_alloc_inode_locked mode =
     bnd geom (\<lambda>g.
     if inodes_per_group g = 0 then fail FS_ERR_INVAL
     else
       bnd (for_blocks (unat (group_count g)) 0 (alloc_inode_in_group mode)) (\<lambda>r.
       case r of None \<Rightarrow> fail FS_ERR_NOSPC | Some ino \<Rightarrow> ret ino))"

end
