(* ===== verification/Ext4_Dir.thy ===== *)
theory Ext4_Dir
  imports Ext4_Map
begin

text \<open>
  Directories in \<open>src/fs_ext4.c\<close>: adding, removing and finding an entry, and the test for an empty
  directory (lines 782-894, 1222-1267 and 1495-1534). A directory block is a chain of records: inode
  number, length of the record, length of the name, file type, name. A record with inode 0 is
  free; a record may be longer than its name needs.

  The loops over the records of a block are one function, \<open>dir_walk\<close>, with the loop's body as an
  argument; the loops over the blocks of a directory are \<open>for_blocks\<close>.
\<close>

subsection \<open>The records of a block\<close>

definition de_ino :: "buf \<Rightarrow> nat \<Rightarrow> u32" where "de_ino p pos = rd_le32 p pos"
definition de_rec_len :: "buf \<Rightarrow> nat \<Rightarrow> u16" where "de_rec_len p pos = rd_le16 p (pos + 4)"
definition de_name_len :: "buf \<Rightarrow> nat \<Rightarrow> u8" where "de_name_len p pos = p (pos + 6)"

definition ext4_dir_rec_len :: "u32 \<Rightarrow> u16" where
  "ext4_dir_rec_len name_len = ucast ((8 + name_len + 3) AND NOT 3)"

datatype 'r walk = Hit 'r | Bad_record | Walk_end

function dir_walk :: "nat \<Rightarrow> buf \<Rightarrow> (nat \<Rightarrow> 'r option) \<Rightarrow> nat \<Rightarrow> 'r walk" where
  "dir_walk bs p visit pos =
     (if pos + 8 \<le> bs then
        let rec_len = unat (de_rec_len p pos) in
        if rec_len < 8 \<or> pos + rec_len > bs then Bad_record
        else case visit pos of
               Some r \<Rightarrow> Hit r
             | None \<Rightarrow> dir_walk bs p visit (pos + rec_len)
      else Walk_end)"
  by pat_completeness auto
termination by (relation "measure (\<lambda>(bs, _, _, pos). bs - pos)") auto

declare dir_walk.simps [simp del]

text \<open>In adding, removing and finding, a bad record only ends the search of its block.\<close>

definition walk_hit :: "'r walk \<Rightarrow> 'r option" where
  "walk_hit w = (case w of Hit r \<Rightarrow> Some r | Bad_record \<Rightarrow> None | Walk_end \<Rightarrow> None)"

subsection \<open>One block\<close>

text \<open>The comparison with a name: \<open>nlen == name_len && nlen <= (uint8_t)(rec_len - 8u) && mem_eq_u8\<close>.\<close>

definition de_matches :: "buf \<Rightarrow> u8 list \<Rightarrow> nat \<Rightarrow> bool" where
  "de_matches p name pos \<longleftrightarrow>
     de_ino p pos \<noteq> 0 \<and> unat (de_name_len p pos) = length name \<and>
     de_name_len p pos \<le> ucast (de_rec_len p pos - 8) \<and>
     buf_bytes p (pos + 8) (length name) = name"

definition block_lookup :: "nat \<Rightarrow> buf \<Rightarrow> u8 list \<Rightarrow> u32 option" where
  "block_lookup bs p name =
     walk_hit (dir_walk bs p (\<lambda>pos. if de_matches p name pos then Some (de_ino p pos) else None) 0)"

definition block_remove :: "nat \<Rightarrow> buf \<Rightarrow> u8 list \<Rightarrow> (buf \<times> u32) option" where
  "block_remove bs p name =
     walk_hit (dir_walk bs p (\<lambda>pos. if de_matches p name pos then Some (wr_le32 pos 0 p, de_ino p pos)
                                    else None) 0)"

definition write_entry :: "nat \<Rightarrow> u32 \<Rightarrow> u16 \<Rightarrow> u8 list \<Rightarrow> u8 \<Rightarrow> buf \<Rightarrow> buf" where
  "write_entry pos ino rec_len name file_type p =
     buf_put (pos + 8) name
       ((wr_le16 (pos + 4) rec_len (wr_le32 pos ino p))(pos + 6 := of_nat (length name), pos + 7 := file_type))"

text \<open>The body of the loop that adds an entry: a free record that is long enough is taken over, a
  record with enough room behind its name is split.\<close>

definition add_at :: "buf \<Rightarrow> u8 list \<Rightarrow> u32 \<Rightarrow> u8 \<Rightarrow> nat \<Rightarrow> buf option" where
  "add_at p name child_ino file_type pos =
     (let need = ext4_dir_rec_len (of_nat (length name));
          ino = de_ino p pos; rec_len = de_rec_len p pos;
          actual = ext4_dir_rec_len (ucast (de_name_len p pos)) in
      if ino = 0 \<and> rec_len \<ge> need then Some (write_entry pos child_ino rec_len name file_type p)
      else if ino \<noteq> 0 \<and> actual \<le> rec_len \<and> rec_len - actual \<ge> need then
        Some (write_entry (pos + unat actual) child_ino (rec_len - actual) name file_type
                (wr_le16 (pos + 4) actual p))
      else None)"

definition block_add :: "nat \<Rightarrow> buf \<Rightarrow> u8 list \<Rightarrow> u32 \<Rightarrow> u8 \<Rightarrow> buf option" where
  "block_add bs p name child_ino file_type =
     walk_hit (dir_walk bs p (add_at p name child_ino file_type) 0)"

text \<open>Entries other than \<open>.\<close> and \<open>..\<close>, the first of which makes a directory not empty.\<close>

definition de_other :: "buf \<Rightarrow> nat \<Rightarrow> bool" where
  "de_other p pos \<longleftrightarrow> de_ino p pos \<noteq> 0 \<and>
     \<not> (de_name_len p pos = 1 \<and> p (pos + 8) = 0x2E \<or>
        de_name_len p pos = 2 \<and> p (pos + 8) = 0x2E \<and> p (pos + 9) = 0x2E)"

definition block_empty :: "nat \<Rightarrow> buf \<Rightarrow> int" where
  "block_empty bs p =
     (case dir_walk bs p (\<lambda>pos. if de_other p pos then Some () else None) 0 of
        Hit _ \<Rightarrow> FS_ERR_NOTEMPTY | Bad_record \<Rightarrow> FS_ERR_IO | Walk_end \<Rightarrow> 0)"

subsection \<open>One directory\<close>

text \<open>The start of every operation: the directory's inode is read into \<open>g_inode_buf\<close>, and the
  number of its blocks computed.\<close>

definition open_dir :: "u32 \<Rightarrow> nat io" where
  "open_dir dir_ino =
     bnd (or_err FS_ERR_IO (ext4_read_inode_locked dir_ino)) (\<lambda>_.
     bnd (gets (\<lambda>s. ext4_inode_mode (g_inode_buf s))) (\<lambda>mode.
     if mode AND EXT4_S_IFMT \<noteq> EXT4_S_IFDIR then fail FS_ERR_NOTDIR
     else
       bnd inode_buf_size (\<lambda>dir_size.
       bnd geom (\<lambda>g.
       ret (unat ((dir_size + block_size g - 1) div block_size g))))))"

definition read_dir_block :: "u32 \<Rightarrow> u32 io" where
  "read_dir_block lblock =
     bnd (or_err FS_ERR_IO (ext4_inode_map_block_locked lblock)) (\<lambda>pblock.
     bnd (or_err FS_ERR_IO (ext4_read_block_locked pblock IO_BLOCK)) (\<lambda>_. ret pblock))"

definition ext4_dir_add_entry_locked :: "u32 \<Rightarrow> u8 list \<Rightarrow> u32 \<Rightarrow> u8 \<Rightarrow> unit io" where
  "ext4_dir_add_entry_locked dir_ino name child_ino file_type =
     (if name = [] \<or> length name > EXT4_MAX_NAME \<or> child_ino = 0 then fail FS_ERR_INVAL
      else
        bnd (open_dir dir_ino) (\<lambda>block_count.
        bnd (for_blocks block_count 0 (\<lambda>lblock.
               bnd (read_dir_block lblock) (\<lambda>pblock.
               bnd (gets (\<lambda>s. block_add (bsize s) (g_io_block s) name child_ino file_type)) (\<lambda>r.
               case r of None \<Rightarrow> ret None
               | Some p \<Rightarrow> bnd (modify (\<lambda>s. s\<lparr>g_io_block := p\<rparr>)) (\<lambda>_.
                           bnd (write_io_block pblock) (\<lambda>_. ret (Some ())))))))
        (\<lambda>r. case r of None \<Rightarrow> fail FS_ERR_NOSPC | Some _ \<Rightarrow> ret ())))"

text \<open>The inode number of the removed entry is the result.\<close>

definition ext4_dir_remove_entry_locked :: "u32 \<Rightarrow> u8 list \<Rightarrow> u32 io" where
  "ext4_dir_remove_entry_locked dir_ino name =
     (if name = [] \<or> length name > EXT4_MAX_NAME then fail FS_ERR_INVAL
      else
        bnd (open_dir dir_ino) (\<lambda>block_count.
        bnd (for_blocks block_count 0 (\<lambda>lblock.
               bnd (read_dir_block lblock) (\<lambda>pblock.
               bnd (gets (\<lambda>s. block_remove (bsize s) (g_io_block s) name)) (\<lambda>r.
               case r of None \<Rightarrow> ret None
               | Some (p, ino) \<Rightarrow> bnd (modify (\<lambda>s. s\<lparr>g_io_block := p\<rparr>)) (\<lambda>_.
                                 bnd (write_io_block pblock) (\<lambda>_. ret (Some ino)))))))
        (\<lambda>r. case r of None \<Rightarrow> fail FS_ERR_NOENT | Some ino \<Rightarrow> ret ino)))"

text \<open>Finding skips a block that is a hole.\<close>

definition ext4_lookup_in_dir_locked :: "u32 \<Rightarrow> u8 list \<Rightarrow> u32 io" where
  "ext4_lookup_in_dir_locked dir_ino name =
     (if name = [] \<or> length name > EXT4_MAX_NAME then fail FS_ERR_INVAL
      else
        bnd (open_dir dir_ino) (\<lambda>block_count.
        bnd (for_blocks block_count 0 (\<lambda>lblock.
               bnd (on_err (bnd (ext4_inode_map_block_locked lblock) (\<lambda>b. ret (Some b)))
                      (\<lambda>rc. if rc = FS_ERR_NOENT then ret None else fail FS_ERR_IO)) (\<lambda>m.
               case m of None \<Rightarrow> ret None
               | Some pblock \<Rightarrow>
                   bnd (or_err FS_ERR_IO (ext4_read_block_locked pblock IO_BLOCK)) (\<lambda>_.
                   gets (\<lambda>s. block_lookup (bsize s) (g_io_block s) name)))))
        (\<lambda>r. case r of None \<Rightarrow> fail FS_ERR_NOENT | Some ino \<Rightarrow> ret ino)))"

definition ext4_dir_is_empty_locked :: "u32 \<Rightarrow> unit io" where
  "ext4_dir_is_empty_locked dir_ino =
     bnd (open_dir dir_ino) (\<lambda>block_count.
     bnd (for_blocks block_count 0 (\<lambda>lblock.
            bnd (ext4_inode_map_block_locked lblock) (\<lambda>pblock.
            bnd (or_err FS_ERR_IO (ext4_read_block_locked pblock IO_BLOCK)) (\<lambda>_.
            bnd (gets (\<lambda>s. block_empty (bsize s) (g_io_block s))) (\<lambda>rc.
            if rc = 0 then ret (None :: unit option) else fail rc)))))
     (\<lambda>_. ret ()))"

end
