(* ===== verification/Ext4_Path.thy ===== *)
theory Ext4_Path
  imports Ext4_Disk
begin

text \<open>
  Path strings in \<open>src/fs_ext4.c\<close> (lines 120-230 and 1410-1444): normalisation, the composition of
  a symbolic link's target with the rest of a path, and the split into parent and name.

  A path buffer together with the variable that holds its length is the list of its bytes; the
  terminating zero is implicit. Where a list comes from outside (an argument, a link's target on
  disk), the C string in it ends at the first zero byte (\<open>c_str\<close>). The null-pointer checks of
  these functions are on buffers of the callers, which are never null.
\<close>

subsection \<open>The code\<close>

type_synonym path = "u8 list"

abbreviation (input) "SLASH \<equiv> (0x2F :: u8)"
abbreviation (input) "DOT \<equiv> (0x2E :: u8)"

definition c_str :: "u8 list \<Rightarrow> path" where
  "c_str s = takeWhile (\<lambda>c. c \<noteq> 0) s"

definition ext4_str_len_cap :: "u8 list \<Rightarrow> nat \<Rightarrow> nat" where
  "ext4_str_len_cap s cap = length (takeWhile (\<lambda>c. c \<noteq> 0) (take cap s))"

definition ext4_path_append_char :: "path \<Rightarrow> u8 \<Rightarrow> int + path" where
  "ext4_path_append_char dst c =
     (if length dst + 1 \<ge> EXT4_PATH_CAP then Inl FS_ERR_NAMETOOLONG else Inr (dst @ [c]))"

primrec path_append_chars :: "path \<Rightarrow> u8 list \<Rightarrow> int + path" where
  "path_append_chars dst [] = Inr dst"
| "path_append_chars dst (c # cs) =
     (case ext4_path_append_char dst c of Inl e \<Rightarrow> Inl e | Inr d \<Rightarrow> path_append_chars d cs)"

text \<open>\<open>while (*len > 1u && dst[*len - 1u] != '/') *len -= 1u;\<close>\<close>

primrec back_to_slash :: "path \<Rightarrow> nat \<Rightarrow> nat" where
  "back_to_slash dst 0 = 0"
| "back_to_slash dst (Suc n) =
     (if Suc n > 1 \<and> dst ! n \<noteq> SLASH then back_to_slash dst n else Suc n)"

definition drop_last_component :: "path \<Rightarrow> path" where
  "drop_last_component dst =
     (if length dst > 1 then
        let len = back_to_slash dst (length dst); len = (if len > 1 then len - 1 else len) in take len dst
      else dst)"

definition ext4_path_append_component :: "path \<Rightarrow> u8 list \<Rightarrow> int + path" where
  "ext4_path_append_component dst cmp =
     (if cmp = [] \<or> cmp = [DOT] then Inr dst
      else if cmp = [DOT, DOT] then Inr (drop_last_component dst)
      else case (if length dst > 1 then ext4_path_append_char dst SLASH else Inr dst) of
             Inl e \<Rightarrow> Inl e
           | Inr d \<Rightarrow> path_append_chars d cmp)"

text \<open>The loop of \<open>ext4_path_normalize_absolute\<close> on what is left of the input.\<close>

function normalize_loop :: "path \<Rightarrow> u8 list \<Rightarrow> int + path" where
  "normalize_loop out rest =
     (let r = dropWhile (\<lambda>c. c = SLASH) rest;
          cmp = takeWhile (\<lambda>c. c \<noteq> SLASH) r;
          rest' = dropWhile (\<lambda>c. c \<noteq> SLASH) r in
      case ext4_path_append_component out cmp of
        Inl e \<Rightarrow> Inl e
      | Inr out' \<Rightarrow> if rest' = [] then Inr out' else normalize_loop out' rest')"
  by pat_completeness auto

lemma next_component_shorter:
  assumes "dropWhile (\<lambda>c. c \<noteq> SLASH) (dropWhile (\<lambda>c. c = SLASH) rest) \<noteq> []"
  shows "length (dropWhile (\<lambda>c. c \<noteq> SLASH) (dropWhile (\<lambda>c. c = SLASH) rest)) < length rest"
proof -
  let ?r = "dropWhile (\<lambda>c. c = SLASH) rest"
  have ne: "?r \<noteq> []" using assms by (metis dropWhile.simps(1))
  then have "hd ?r \<noteq> SLASH" by (rule hd_dropWhile)
  then have "length (dropWhile (\<lambda>c. c \<noteq> SLASH) ?r) < length ?r"
    using ne by (cases ?r) (simp_all add: length_dropWhile_le le_imp_less_Suc)
  then show ?thesis by (rule less_le_trans) (rule length_dropWhile_le)
qed

termination normalize_loop
  by (relation "measure (\<lambda>(_, rest). length rest)")
    (simp, simp only: in_measure prod.case next_component_shorter not_False_eq_True)

declare normalize_loop.simps [simp del]

definition ext4_path_normalize_absolute :: "u8 list \<Rightarrow> int + path" where
  "ext4_path_normalize_absolute input =
     (let in_len = ext4_str_len_cap input EXT4_PATH_CAP in
      if input = [] \<or> hd input \<noteq> SLASH then Inl FS_ERR_INVAL
      else if in_len = 0 \<or> in_len \<ge> EXT4_PATH_CAP then Inl FS_ERR_NAMETOOLONG
      else normalize_loop [SLASH] (drop 1 (take in_len input)))"

text \<open>\<open>strip_slashes\<close> is the loop that removes slashes from the end but not the first.\<close>

primrec strip_slashes :: "path \<Rightarrow> nat \<Rightarrow> nat" where
  "strip_slashes dst 0 = 0"
| "strip_slashes dst (Suc n) = (if Suc n > 1 \<and> dst ! n = SLASH then strip_slashes dst n else Suc n)"

definition ext4_path_copy_prefix :: "path \<Rightarrow> nat \<Rightarrow> int + path" where
  "ext4_path_copy_prefix src end1 =
     (if src = [] \<or> hd src \<noteq> SLASH then Inl FS_ERR_INVAL
      else case path_append_chars [SLASH] (drop 1 (take end1 (c_str src))) of
             Inl e \<Rightarrow> Inl e
           | Inr d \<Rightarrow> Inr (take (strip_slashes d (length d)) d))"

definition ext4_split_parent_name :: "path \<Rightarrow> int + path \<times> u8 list" where
  "ext4_split_parent_name path =
     (let len = ext4_str_len_cap path EXT4_PATH_CAP;
          slash = fold (\<lambda>i s. if path ! i = SLASH then i else s) [1..<len] 0;
          name = drop (slash + 1) (take len path) in
      if path = [] \<or> hd path \<noteq> SLASH then Inl FS_ERR_INVAL
      else if len \<le> 1 \<or> len \<ge> EXT4_PATH_CAP then Inl FS_ERR_INVAL
      else if name = [] \<or> length name > EXT4_MAX_NAME then Inl FS_ERR_INVAL
      else Inr (if slash = 0 then [SLASH] else take slash path, name))"

text \<open>The path that replaces one with a symbolic link in it (\<open>ext4_lookup_path_follow_locked\<close> and
  \<open>fs_ext4_readlink\<close>): the link's target, after the directory that holds the link if the target
  is relative, and then the rest of the path.\<close>

definition symlink_base :: "path \<Rightarrow> nat \<Rightarrow> u8 list \<Rightarrow> int + path" where
  "symlink_base path comp_start target =
     (if target \<noteq> [] \<and> hd target = SLASH then Inr []
      else case ext4_path_copy_prefix path comp_start of
             Inl e \<Rightarrow> Inl e
           | Inr d \<Rightarrow> if length d > 1 then ext4_path_append_char d SLASH else Inr d)"

definition symlink_combine :: "path \<Rightarrow> nat \<Rightarrow> u8 list \<Rightarrow> u8 list \<Rightarrow> int + path" where
  "symlink_combine path comp_start target rest =
     (case symlink_base path comp_start target of
        Inl e \<Rightarrow> Inl e
      | Inr d \<Rightarrow>
          (case path_append_chars d target of
             Inl e \<Rightarrow> Inl e
           | Inr d \<Rightarrow>
               if rest = [] then Inr d
               else path_append_chars d (SLASH # rest)))"

definition symlink_path :: "path \<Rightarrow> nat \<Rightarrow> u8 list \<Rightarrow> u8 list \<Rightarrow> int + path" where
  "symlink_path path comp_start target rest =
     (case symlink_combine path comp_start target rest of
        Inl e \<Rightarrow> Inl e
      | Inr d \<Rightarrow> ext4_path_normalize_absolute d)"

subsection \<open>What normalisation computes\<close>

text \<open>The components of a path between its slashes, and their meaning: \<open>.\<close> and empty components
  name the directory itself, \<open>..\<close> its parent; the parent of the root is the root.\<close>

fun split_slash :: "u8 list \<Rightarrow> u8 list list" where
  "split_slash [] = [[]]"
| "split_slash (c # cs) =
     (if c = SLASH then [] # split_slash cs
      else case split_slash cs of [] \<Rightarrow> [[c]] | w # ws \<Rightarrow> (c # w) # ws)"

definition path_step :: "u8 list \<Rightarrow> u8 list list \<Rightarrow> u8 list list" where
  "path_step cmp dirs =
     (if cmp = [] \<or> cmp = [DOT] then dirs
      else if cmp = [DOT, DOT] then butlast dirs
      else dirs @ [cmp])"

definition path_resolve :: "u8 list list \<Rightarrow> u8 list list \<Rightarrow> u8 list list" where
  "path_resolve dirs comps = fold path_step comps dirs"

definition render_path :: "u8 list list \<Rightarrow> path" where
  "render_path dirs = (if dirs = [] then [SLASH] else concat (map (\<lambda>c. SLASH # c) dirs))"

lemma resolve_slash: "path_resolve dirs (split_slash (SLASH # cs)) = path_resolve dirs (split_slash cs)"
  by (simp add: path_resolve_def path_step_def)

lemma resolve_skip:
  "path_resolve dirs (split_slash (dropWhile (\<lambda>c. c = SLASH) cs)) = path_resolve dirs (split_slash cs)"
proof (induction cs)
  case (Cons c cs)
  then show ?case by (cases "c = SLASH") (simp_all only: resolve_slash dropWhile.simps refl if_True if_False)
qed simp

lemma split_slash_ne: "split_slash cs \<noteq> []"
  by (induction cs rule: split_slash.induct) (auto split: list.splits)

lemma split_component:
  assumes "SLASH \<notin> set w" and "r = [] \<or> hd r = SLASH"
  shows "split_slash (w @ r) = (if r = [] then [w] else w # split_slash (tl r))"
  using assms
proof (induction w)
  case Nil
  then show ?case by (cases r) simp_all
next
  case (Cons c w)
  then show ?case by (cases "r = []") simp_all
qed

lemma resolve_step:
  fixes rest defines "r \<equiv> dropWhile (\<lambda>c. c = SLASH) rest"
  defines "w \<equiv> takeWhile (\<lambda>c. c \<noteq> SLASH) r" and "r' \<equiv> dropWhile (\<lambda>c. c \<noteq> SLASH) r"
  shows "path_resolve dirs (split_slash rest) =
    (if r' = [] then path_step w dirs else path_resolve (path_step w dirs) (split_slash r'))"
proof -
  have w: "SLASH \<notin> set w" unfolding w_def by (metis (mono_tags, lifting) set_takeWhileD)
  have r': "r' = [] \<or> hd r' = SLASH" unfolding r'_def using hd_dropWhile [of "\<lambda>c. c \<noteq> SLASH" r] by argo
  have "path_resolve dirs (split_slash rest) = path_resolve dirs (split_slash r)"
    by (simp add: r_def resolve_skip)
  also have "r = w @ r'" by (simp add: w_def r'_def)
  also have "path_resolve dirs (split_slash (w @ r')) =
    (if r' = [] then path_step w dirs else path_resolve (path_step w dirs) (split_slash (tl r')))"
    by (simp add: split_component [OF w r'] path_resolve_def)
  also have "split_slash (tl r') = (if r' = [] then [[]] else tl (split_slash r'))"
    using r' by (cases r') simp_all
  finally show ?thesis
    using r' by (cases r') (simp_all add: path_resolve_def path_step_def)
qed

definition dirs_ok :: "u8 list list \<Rightarrow> bool" where
  "dirs_ok dirs \<longleftrightarrow> (\<forall>w \<in> set dirs. w \<noteq> [] \<and> SLASH \<notin> set w)"

lemma dirs_ok_step: "dirs_ok dirs \<Longrightarrow> SLASH \<notin> set w \<Longrightarrow> dirs_ok (path_step w dirs)"
  by (auto simp: dirs_ok_def path_step_def dest: in_set_butlastD)

lemma render_snoc: "render_path (dirs @ [w]) = (if dirs = [] then [] else render_path dirs) @ SLASH # w"
  by (simp add: render_path_def)

lemma render_len_le: "1 \<le> length (render_path dirs)"
  by (cases dirs) (simp_all add: render_path_def)

lemma render_len: "dirs_ok dirs \<Longrightarrow> 1 < length (render_path dirs) \<longleftrightarrow> dirs \<noteq> []"
  by (cases dirs) (auto simp: render_path_def dirs_ok_def)

lemma back_to_slash_mid:
  assumes "SLASH \<notin> set w"
  shows "back_to_slash (d @ SLASH # w) (Suc (length d + length w)) = Suc (length d)"
proof -
  have "back_to_slash (d @ SLASH # w @ v) (Suc (length d + length w)) = Suc (length d)" for v
    using assms
  proof (induction w arbitrary: v rule: rev_induct)
    case Nil
    then show ?case by (cases d) (simp_all add: nth_append)
  next
    case (snoc x w)
    have "(d @ SLASH # w @ x # v) ! (Suc (length d + length w)) = x"
      by (simp add: nth_append)
    with snoc.IH [of "x # v"] snoc.prems show ?case by simp
  qed
  from this [of "[]"] show ?thesis by simp
qed

lemma drop_last_render:
  assumes "dirs_ok dirs"
  shows "drop_last_component (render_path dirs) = render_path (butlast dirs)"
proof (cases dirs rule: rev_cases)
  case Nil
  then show ?thesis by (simp add: drop_last_component_def render_path_def)
next
  case (snoc ds w)
  let ?d = "if ds = [] then [] else render_path ds"
  have w: "SLASH \<notin> set w" "w \<noteq> []" using assms snoc by (simp_all add: dirs_ok_def)
  have "back_to_slash (?d @ SLASH # w) (length (?d @ SLASH # w)) = Suc (length ?d)"
    using back_to_slash_mid [OF w(1), of ?d] by simp
  moreover have "1 < length (?d @ SLASH # w)" using w(2) by (cases w) simp_all
  moreover have "Suc (length ?d) > 1 \<longleftrightarrow> ds \<noteq> []" using render_len_le [of ds] by auto
  ultimately show ?thesis
    unfolding drop_last_component_def snoc render_snoc Let_def by (auto simp: render_path_def)
qed

lemma append_chars_ok:
  "length dst + length cs < EXT4_PATH_CAP \<Longrightarrow> path_append_chars dst cs = Inr (dst @ cs)"
  by (induction cs arbitrary: dst) (simp_all add: ext4_path_append_char_def)

lemma append_component_ok:
  assumes ok: "dirs_ok dirs" and w: "SLASH \<notin> set w"
    and len: "length (render_path dirs) + length w + (if dirs = [] then 0 else 1) < EXT4_PATH_CAP"
  shows "ext4_path_append_component (render_path dirs) w = Inr (render_path (path_step w dirs))"
proof (cases "w = [] \<or> w = [DOT] \<or> w = [DOT, DOT]")
  case True
  then show ?thesis
    by (auto simp: ext4_path_append_component_def path_step_def drop_last_render [OF ok])
next
  case False
  then have step: "path_step w dirs = dirs @ [w]" by (simp add: path_step_def)
  show ?thesis
  proof (cases "dirs = []")
    case True
    then show ?thesis using False len
      by (simp add: ext4_path_append_component_def path_step_def render_path_def append_chars_ok)
  next
    case dirs: False
    then have "1 < length (render_path dirs)" using render_len [OF ok] by simp
    then show ?thesis using False len dirs
      by (simp add: ext4_path_append_component_def step render_snoc ext4_path_append_char_def append_chars_ok)
  qed
qed

lemma render_step_len:
  "length (render_path (path_step w dirs)) \<le> length (render_path dirs) + length w + (if dirs = [] then 0 else 1)"
proof (cases dirs rule: rev_cases)
  case Nil
  then show ?thesis by (auto simp: path_step_def render_path_def)
next
  case (snoc ds v)
  then show ?thesis by (auto simp: path_step_def render_snoc) (auto simp: render_path_def)
qed

lemma normalize_loop_eq:
  assumes "dirs_ok dirs" and "dirs = [] \<or> rest = [] \<or> hd rest = SLASH"
    and "length (render_path dirs) + length rest < EXT4_PATH_CAP"
  shows "normalize_loop (render_path dirs) rest = Inr (render_path (path_resolve dirs (split_slash rest)))"
  using assms
proof (induction "length rest" arbitrary: dirs rest rule: less_induct)
  case less
  let ?r = "dropWhile (\<lambda>c. c = SLASH) rest"
  let ?w = "takeWhile (\<lambda>c. c \<noteq> SLASH) ?r"
  let ?r' = "dropWhile (\<lambda>c. c \<noteq> SLASH) ?r"
  have w: "SLASH \<notin> set ?w" by (metis (mono_tags, lifting) set_takeWhileD)
  have split: "length ?r = length ?w + length ?r'" by (metis length_append takeWhile_dropWhile_id)
  have skip: "length ?r + (if dirs = [] \<or> rest = [] then 0 else 1) \<le> length rest"
    using less.prems(2) length_dropWhile_le [of "\<lambda>c. c = SLASH" "tl rest"]
    by (cases rest) (auto simp: length_dropWhile_le le_SucI)
  have wr: "rest = [] \<Longrightarrow> ?w = []" by simp
  have comp: "ext4_path_append_component (render_path dirs) ?w = Inr (render_path (path_step ?w dirs))"
  proof (cases "rest = []")
    case True
    then show ?thesis by (simp add: ext4_path_append_component_def path_step_def)
  next
    case False
    then show ?thesis
      using append_component_ok [OF less.prems(1) w] split skip less.prems(3) by (auto split: if_splits)
  qed
  show ?case
  proof (cases "?r' = []")
    case True
    then show ?thesis
      using comp resolve_step [of dirs rest]
      by (subst normalize_loop.simps) (simp only: Let_def sum.case if_True refl)
  next
    case False
    have shorter: "length ?r' < length rest" by (rule next_component_shorter [OF False])
    have "hd ?r' = SLASH" using hd_dropWhile [OF False] by argo
    moreover have "length (render_path (path_step ?w dirs)) + length ?r' < EXT4_PATH_CAP"
      using render_step_len [of ?w dirs] split skip less.prems(3) False by (auto split: if_splits)
    ultimately have "normalize_loop (render_path (path_step ?w dirs)) ?r' =
        Inr (render_path (path_resolve (path_step ?w dirs) (split_slash ?r')))"
      using less.hyps [OF shorter dirs_ok_step [OF less.prems(1) w]] by blast
    then show ?thesis
      using comp False resolve_step [of dirs rest]
      by (subst normalize_loop.simps) (simp only: Let_def sum.case if_False refl)
  qed
qed

text \<open>The rendering of a normalised path normalises to itself.\<close>

definition clean_dirs :: "u8 list list \<Rightarrow> bool" where
  "clean_dirs dirs \<longleftrightarrow> (\<forall>w \<in> set dirs. w \<noteq> [] \<and> w \<noteq> [DOT] \<and> w \<noteq> [DOT, DOT] \<and> SLASH \<notin> set w)"

lemma split_slash_free: "w \<in> set (split_slash cs) \<Longrightarrow> SLASH \<notin> set w \<and> set w \<subseteq> set cs"
proof (induction cs arbitrary: w)
  case (Cons c cs)
  then show ?case by (fastforce split: if_splits list.splits)
qed simp

lemma clean_resolve:
  assumes "clean_dirs dirs" and "\<forall>w \<in> set ws. SLASH \<notin> set w"
  shows "clean_dirs (path_resolve dirs ws)"
  using assms unfolding path_resolve_def
proof (induction ws arbitrary: dirs)
  case (Cons w ws)
  have "clean_dirs (path_step w dirs)"
    using Cons.prems by (auto simp: clean_dirs_def path_step_def dest: in_set_butlastD)
  with Cons show ?case by simp
qed simp

lemma resolve_chars:
  "\<Union> (set ` set (path_resolve dirs ws)) \<subseteq> \<Union> (set ` set dirs) \<union> \<Union> (set ` set ws)"
  unfolding path_resolve_def
proof (induction ws arbitrary: dirs)
  case (Cons w ws)
  have "\<Union> (set ` set (path_step w dirs)) \<subseteq> \<Union> (set ` set dirs) \<union> set w"
    by (auto simp: path_step_def dest: in_set_butlastD)
  with Cons [of "path_step w dirs"] show ?case by auto
qed simp

lemma resolve_rendered:
  assumes "clean_dirs (w # ws)"
  shows "path_resolve acc (split_slash (w @ concat (map (\<lambda>c. SLASH # c) ws))) = acc @ w # ws"
  using assms
proof (induction ws arbitrary: acc w)
  case Nil
  then show ?case
    using split_component [of w "[]"] by (simp add: clean_dirs_def path_resolve_def path_step_def)
next
  case (Cons v ws)
  have "SLASH \<notin> set w" using Cons.prems by (simp add: clean_dirs_def)
  from split_component [OF this, of "SLASH # v @ concat (map (\<lambda>c. SLASH # c) ws)"]
  have "split_slash (w @ concat (map (\<lambda>c. SLASH # c) (v # ws))) =
      w # split_slash (v @ concat (map (\<lambda>c. SLASH # c) ws))" by simp
  moreover have "path_step w acc = acc @ [w]" using Cons.prems by (simp add: clean_dirs_def path_step_def)
  moreover have "clean_dirs (v # ws)" using Cons.prems by (simp add: clean_dirs_def)
  ultimately show ?case using Cons.IH [of v "acc @ [w]"] by (simp add: path_resolve_def)
qed

lemma render_head: "render_path dirs = SLASH # tl (render_path dirs)"
  by (cases dirs) (simp_all add: render_path_def)

lemma resolve_render:
  "clean_dirs dirs \<Longrightarrow> path_resolve [] (split_slash (tl (render_path dirs))) = dirs"
  using resolve_rendered [of "hd dirs" "tl dirs" "[]"]
  by (cases dirs) (simp_all add: render_path_def path_resolve_def path_step_def)

lemma render_resolve_len:
  "length (render_path (path_resolve dirs ws)) \<le>
     length (render_path dirs) + length (concat ws) + length ws - (if dirs = [] \<and> ws \<noteq> [] then 1 else 0)"
proof (induction ws arbitrary: dirs)
  case (Cons w ws)
  show ?case
    using Cons [of "path_step w dirs"] render_step_len [of w dirs]
    by (auto simp: path_resolve_def path_step_def split: if_splits)
qed (simp add: path_resolve_def)

lemma split_slash_len: "length (concat (split_slash cs)) + length (split_slash cs) = length cs + 1"
proof (induction cs)
  case (Cons c cs)
  then show ?case using split_slash_ne [of cs] by (auto split: list.splits)
qed simp

lemma normalize_eq:
  assumes "0 \<notin> set rest"
  shows "ext4_path_normalize_absolute (SLASH # rest) =
    (if length rest + 1 \<ge> EXT4_PATH_CAP then Inl FS_ERR_NAMETOOLONG
     else Inr (render_path (path_resolve [] (split_slash rest))))"
proof -
  have cap: "ext4_str_len_cap (SLASH # rest) EXT4_PATH_CAP = min EXT4_PATH_CAP (length rest + 1)"
  proof -
    have "takeWhile (\<lambda>c. c \<noteq> 0) (take EXT4_PATH_CAP (SLASH # rest)) = take EXT4_PATH_CAP (SLASH # rest)"
      using assms by (subst takeWhile_eq_all_conv) (auto dest: in_set_takeD)
    then show ?thesis unfolding ext4_str_len_cap_def by (simp only: length_take length_Cons add_Suc_right add_0_right min.commute Suc_eq_plus1)
  qed
  show ?thesis
  proof (cases "length rest + 1 \<ge> EXT4_PATH_CAP")
    case True
    then show ?thesis by (simp add: ext4_path_normalize_absolute_def cap min_def)
  next
    case False
    have "normalize_loop (render_path []) rest = Inr (render_path (path_resolve [] (split_slash rest)))"
      using False by (intro normalize_loop_eq) (simp_all add: dirs_ok_def render_path_def)
    then show ?thesis
      using False by (simp add: ext4_path_normalize_absolute_def cap min_def render_path_def)
  qed
qed

text \<open>C29. Normalising an absolute path of fewer than 256 bytes succeeds and gives the path of the
  directories that its components name: empty components and \<open>.\<close> are dropped, \<open>..\<close> removes the
  directory before it and has no effect at the root. The result has no such component and
  normalises to itself. A longer path is rejected.\<close>

theorem ext4_path_normalize_absolute_correct:
  assumes "0 \<notin> set rest"
  shows "(length rest + 1 \<ge> EXT4_PATH_CAP \<longrightarrow>
            ext4_path_normalize_absolute (SLASH # rest) = Inl FS_ERR_NAMETOOLONG) \<and>
    (length rest + 1 < EXT4_PATH_CAP \<longrightarrow>
       (let dirs = path_resolve [] (split_slash rest); p = render_path dirs in
        ext4_path_normalize_absolute (SLASH # rest) = Inr p \<and>
        clean_dirs dirs \<and> length p \<le> length rest + 1 \<and> ext4_path_normalize_absolute p = Inr p))"
proof -
  let ?dirs = "path_resolve [] (split_slash rest)"
  have clean: "clean_dirs ?dirs"
    using split_slash_free by (intro clean_resolve) (auto simp: clean_dirs_def)
  have len: "length (render_path ?dirs) \<le> length rest + 1"
    using render_resolve_len [of "[]" "split_slash rest"] split_slash_len [of rest] split_slash_ne [of rest]
    by (simp add: render_path_def split: if_splits)
  have "\<Union> (set ` set (split_slash rest)) \<subseteq> set rest" using split_slash_free [of _ rest] by blast
  then have chars: "\<forall>w \<in> set ?dirs. 0 \<notin> set w"
    using resolve_chars [of "[]" "split_slash rest"] assms by simp (meson UN_I subsetD)
  have "\<forall>w \<in> set dirs. 0 \<notin> set w \<Longrightarrow> 0 \<notin> set (tl (render_path dirs))" for dirs
    by (cases dirs) (auto simp: render_path_def)
  from this [OF chars] have "0 \<notin> set (tl (render_path ?dirs))" .
  from normalize_eq [OF this] have "ext4_path_normalize_absolute (render_path ?dirs) =
      (if length (tl (render_path ?dirs)) + 1 \<ge> EXT4_PATH_CAP then Inl FS_ERR_NAMETOOLONG
       else Inr (render_path ?dirs))"
    by (simp only: render_head [symmetric] resolve_render [OF clean])
  moreover have "length (tl (render_path ?dirs)) + 1 = length (render_path ?dirs)"
    using render_len_le [of ?dirs] by simp
  ultimately show ?thesis using clean len normalize_eq [OF assms] by (simp add: Let_def)
qed

text \<open>\<open>/a/../b//./c\<close> is \<open>/b/c\<close>.\<close>

theorem ext4_path_normalize_absolute_correct_witness:
  "ext4_path_normalize_absolute [0x2F, 0x61, 0x2F, 0x2E, 0x2E, 0x2F, 0x62, 0x2F, 0x2F, 0x2E, 0x2F, 0x63] =
     Inr [0x2F, 0x62, 0x2F, 0x63]"
  using ext4_path_normalize_absolute_correct
    [of "[0x61, 0x2F, 0x2E, 0x2E, 0x2F, 0x62, 0x2F, 0x2F, 0x2E, 0x2F, 0x63]"]
  by (simp add: path_resolve_def path_step_def render_path_def Let_def)

end
