(* ===== verification/Ext4_File.thy ===== *)
theory Ext4_File
  imports Ext4_Dir Ext4_Path
begin

text \<open>
  File contents, symbolic links, path lookup and creation in \<open>src/fs_ext4.c\<close> (961-1220,
  1269-1408, 1446-1493 and 1536-1599).

  The loops that transfer data run while bytes are left; \<open>bs\<close> is the block size, which
  \<open>ext4_try_probe_locked\<close> only accepts as 1024, 2048 or 4096 (\<open>block_sizes\<close>). An early return
  from such a loop reports the bytes done so far, or the error if there are none
  (\<open>or_done\<close>). A source buffer is the list of its bytes.
\<close>

definition block_sizes :: "u32 \<Rightarrow> bool" where
  "block_sizes bs \<longleftrightarrow> bs = 1024 \<or> bs = 2048 \<or> bs = 4096"

definition or_done :: "'a io \<Rightarrow> 'b \<Rightarrow> bool \<Rightarrow> ('a \<Rightarrow> 'b io) \<Rightarrow> 'b io" where
  "or_done m d some k s =
     (case m s of (s', Inl e) \<Rightarrow> (s', if some then Inr d else Inl e) | (s', Inr x) \<Rightarrow> k x s')"

subsection \<open>Reading\<close>

definition read_chunk :: "u32 \<Rightarrow> nat \<Rightarrow> nat \<Rightarrow> u8 list io" where
  "read_chunk logical in_block want =
     bnd (on_err (bnd (ext4_inode_map_block_locked logical) (\<lambda>b. ret (Some b)))
            (\<lambda>rc. if rc = FS_ERR_NOENT then ret None else fail rc)) (\<lambda>m.
     case m of None \<Rightarrow> ret (replicate want 0)
     | Some pblock \<Rightarrow>
         bnd (or_err FS_ERR_IO (ext4_read_block_locked pblock IO_BLOCK)) (\<lambda>_.
         gets (\<lambda>s. buf_bytes (g_io_block s) in_block want)))"

function read_data_loop :: "u32 \<Rightarrow> u32 \<Rightarrow> nat \<Rightarrow> nat \<Rightarrow> u8 list \<Rightarrow> u8 list io" where
  "read_data_loop bs offset len done dst =
     (if \<not> block_sizes bs \<or> done \<ge> len then ret dst
      else
        let pos = offset + of_nat done;
            in_block = unat (pos mod bs);
            want = min (len - done) (unat bs - in_block) in
        or_done (read_chunk (pos div bs) in_block want) dst (done \<noteq> 0)
          (\<lambda>bytes. read_data_loop bs offset len (done + want) (dst @ bytes)))"
  by pat_completeness auto

lemma block_sizes_pos: "block_sizes bs \<Longrightarrow> 0 < bs"
  by (auto simp: block_sizes_def)

lemma in_block_less: "block_sizes bs \<Longrightarrow> unat (pos mod bs) < unat bs"
  using block_sizes_pos [of bs] by (simp add: unat_mod word_less_nat_alt)

lemma chunk_decreases:
  assumes "block_sizes bs" and "\<not> len \<le> done"
  shows "len - (done + min (len - done) (unat bs - unat (pos mod bs))) < len - done"
  using assms(2) in_block_less [OF assms(1), of pos] by linarith

termination read_data_loop
  by (relation "measure (\<lambda>(bs, offset, len, done, dst). len - done)") (simp_all add: chunk_decreases)

declare read_data_loop.simps [simp del]

definition ext4_read_inode_data_locked :: "u32 \<Rightarrow> u32 \<Rightarrow> u32 \<Rightarrow> u8 list io" where
  "ext4_read_inode_data_locked inode_no offset len =
     (if len = 0 then ret []
      else
        bnd (or_err FS_ERR_IO (ext4_read_inode_locked inode_no)) (\<lambda>_.
        bnd inode_buf_size (\<lambda>size1.
        if offset \<ge> size1 then ret []
        else
          let len = (if len > size1 - offset then size1 - offset else len) in
          bnd geom (\<lambda>g. read_data_loop (block_size g) offset (unat len) 0 []))))"

definition ext4_read_symlink_target_locked :: "u32 \<Rightarrow> u32 \<Rightarrow> u8 list io" where
  "ext4_read_symlink_target_locked inode_no cap =
     (if cap = 0 then fail FS_ERR_INVAL
      else
        bnd (or_err FS_ERR_IO (ext4_read_inode_locked inode_no)) (\<lambda>_.
        bnd (gets g_inode_buf) (\<lambda>inode.
        if ext4_inode_mode inode AND EXT4_S_IFMT \<noteq> EXT4_S_IFLNK then fail FS_ERR_INVAL
        else
          bnd inode_buf_size (\<lambda>size1.
          if size1 \<ge> cap then fail FS_ERR_NAMETOOLONG
          else if size1 \<le> 60 \<and> ext4_inode_flags inode AND EXT4_EXTENTS_FL = 0 then
            ret (buf_bytes inode 0x28 (unat size1))
          else
            bnd (ext4_read_inode_data_locked inode_no 0 size1) (\<lambda>bytes.
            if length bytes \<noteq> unat size1 then fail FS_ERR_IO else ret bytes)))))"

subsection \<open>Writing\<close>

text \<open>When a write starts in a block behind the one that holds the end of the file, the rest of
  that block is cleared first.\<close>

definition clear_tail :: "u32 \<Rightarrow> u32 \<Rightarrow> unit io" where
  "clear_tail offset cur_size =
     bnd geom (\<lambda>g.
     let bs = block_size g in
     if offset > cur_size \<and> cur_size mod bs \<noteq> 0 \<and> offset div bs > cur_size div bs then
       bnd (on_err (ext4_extent_map_locked (cur_size div bs))
              (\<lambda>rc. fail (if rc = FS_ERR_NOENT then FS_ERR_NOSYS else rc))) (\<lambda>tail_pblock.
       bnd (or_err FS_ERR_IO (ext4_read_block_locked tail_pblock IO_BLOCK)) (\<lambda>_.
       bnd (modify (\<lambda>s. s\<lparr>g_io_block := buf_zero (unat (cur_size mod bs)) (unat bs) (g_io_block s)\<rparr>)) (\<lambda>_.
       or_err FS_ERR_IO (write_io_block tail_pblock))))
     else ret ())"

text \<open>A new block for logical block \<open>lblock\<close>, with the block buffer cleared.\<close>

definition append_block :: "u32 \<Rightarrow> u32 \<Rightarrow> u32 \<Rightarrow> u32 io" where
  "append_block bs inode_no lblock =
     bnd (ext4_alloc_block_locked inode_no) (\<lambda>pblock.
     bnd (ext4_extent_append_block_locked lblock pblock) (\<lambda>_.
     bnd (modify (\<lambda>s. s\<lparr>g_io_block := buf_zero 0 (unat bs) (g_io_block s)\<rparr>)) (\<lambda>_.
     ret pblock)))"

text \<open>The end of an iteration: a gap between the old end of file and the write is cleared in this
  block, the bytes are stored and the block is written.\<close>

definition zero_gap :: "u32 \<Rightarrow> u32 \<Rightarrow> u32 \<Rightarrow> buf \<Rightarrow> buf" where
  "zero_gap bs pos cur_size p =
     (if pos > cur_size then
        let blk_base = (pos div bs) * bs;
            z_start = (if cur_size > blk_base then cur_size - blk_base else 0);
            z_end = pos mod bs in
        if z_end > z_start \<and> z_end \<le> bs then buf_zero (unat z_start) (unat z_end) p else p
      else p)"

definition store_chunk :: "u32 \<Rightarrow> u32 \<Rightarrow> u32 \<Rightarrow> u8 list \<Rightarrow> u32 \<Rightarrow> unit io" where
  "store_chunk bs pos cur_size bytes pblock =
     bnd (modify (\<lambda>s. s\<lparr>g_io_block := buf_put (unat (pos mod bs)) bytes
                                       (zero_gap bs pos cur_size (g_io_block s))\<rparr>)) (\<lambda>_.
     or_err FS_ERR_IO (write_io_block pblock))"

text \<open>The result of the loop is the number of bytes written and, unless it was left early, the
  final \<open>cur_size\<close> and \<open>inode_dirty\<close>.\<close>

type_synonym write_result = "nat \<times> (u32 \<times> bool) option"

function write_data_loop ::
  "u32 \<Rightarrow> u32 \<Rightarrow> u32 \<Rightarrow> u8 list \<Rightarrow> nat \<Rightarrow> u32 \<Rightarrow> bool \<Rightarrow> write_result io" where
  "write_data_loop bs inode_no offset src done cur_size dirty =
     (if \<not> block_sizes bs \<or> done \<ge> length src then ret (done, Some (cur_size, dirty))
      else
        let pos = offset + of_nat done;
            logical = pos div bs;
            want = min (length src - done) (unat bs - unat (pos mod bs));
            bytes = take want (drop done src);
            eof_lblock = (cur_size + bs - 1) div bs;
            next_end = offset + of_nat (done + want);
            next_size = (if next_end > cur_size then next_end else cur_size) in
        (\<lambda>s. case ext4_extent_map_locked logical s of
          (s', Inr pblock) \<Rightarrow>
            or_done (bnd (or_err FS_ERR_IO (ext4_read_block_locked pblock IO_BLOCK)) (\<lambda>_.
                     store_chunk bs pos cur_size bytes pblock)) (done, None) (done \<noteq> 0)
              (\<lambda>_. write_data_loop bs inode_no offset src (done + want) next_size dirty) s'
        | (s', Inl rc) \<Rightarrow>
            if rc \<noteq> FS_ERR_NOENT then or_done (fail rc) (done, None) (done \<noteq> 0) ret s'
            else if pos < cur_size \<or> logical < eof_lblock then
              or_done (fail FS_ERR_NOSYS) (done, None) (done \<noteq> 0) ret s'
            else if logical \<noteq> eof_lblock then
              or_done (bnd (append_block bs inode_no eof_lblock) (\<lambda>pblock.
                       or_err FS_ERR_IO (write_io_block pblock))) (done, None) (done \<noteq> 0)
                (\<lambda>_. write_data_loop bs inode_no offset src done ((eof_lblock + 1) * bs) True) s'
            else
              or_done (bnd (append_block bs inode_no logical) (store_chunk bs pos cur_size bytes))
                (done, None) (done \<noteq> 0)
                (\<lambda>_. write_data_loop bs inode_no offset src (done + want) next_size True) s'))"
  by pat_completeness auto

text \<open>The loop ends: an iteration either stores bytes or moves the end of the file one block closer
  to the position.\<close>

lemma block_sizes_dvd: "block_sizes bs \<Longrightarrow> unat bs dvd 2 ^ 32"
  by (auto simp: block_sizes_def)

lemma gap_step:
  fixes bs :: u32
  assumes bs: "block_sizes bs" and less: "eof < pos div bs"
  shows "((eof + 1) * bs + bs - 1) div bs = eof + 1"
proof -
  let ?b = "unat bs"
  have b: "0 < ?b" using block_sizes_pos [OF bs] by (simp add: word_less_nat_alt)
  have "unat eof + 1 \<le> unat pos div ?b" using less by (simp add: word_less_nat_alt unat_div)
  then have "(unat eof + 1) * ?b \<le> unat pos div ?b * ?b" by (rule mult_le_mono1)
  then have "(unat eof + 1) * ?b \<le> unat pos" by (rule le_trans) simp
  then have lt: "(unat eof + 1) * ?b < 2 ^ 32" using unat_lt_u32 [of pos] by simp
  obtain k where k: "2 ^ 32 = ?b * k" using block_sizes_dvd [OF bs] by (rule dvdE)
  have "unat eof + 1 < k" using lt b unfolding k by (metis mult.commute mult_less_cancel1)
  then have "(unat eof + 2) * ?b \<le> k * ?b" by (intro mult_le_mono1) simp
  then have room: "(unat eof + 1) * ?b + ?b \<le> 2 ^ 32" using k by (simp add: algebra_simps)
  have e: "unat (eof + 1) = unat eof + 1"
    using lt b unat_inc [of eof "2 ^ 32 - 1"] by (cases ?b) auto
  have m: "unat ((eof + 1) * bs) = (unat eof + 1) * ?b"
    unfolding unat_word_ariths(2) e using lt by simp
  have "unat ((eof + 1) * bs + (bs - 1)) = (unat eof + 1) * ?b + (?b - 1)"
  proof -
    have b1: "unat (bs - 1) = ?b - 1" using block_sizes_pos [OF bs] by (intro unat_dec) auto
    have "(unat eof + 1) * ?b + (?b - 1) < 2 ^ 32" using room b by linarith
    then show ?thesis unfolding unat_word_ariths(1) [of "(eof + 1) * bs"] m b1 by simp
  qed
  then have "unat (((eof + 1) * bs + (bs - 1)) div bs) = ((unat eof + 1) * ?b + (?b - 1)) div ?b"
    by (simp add: unat_div)
  also have "\<dots> = unat eof + 1" using b by (subst div_mult_self3) auto
  finally have "unat (((eof + 1) * bs + (bs - 1)) div bs) = unat (eof + 1)" using e by simp
  then have "((eof + 1) * bs + (bs - 1)) div bs = eof + 1" by (rule unsigned_word_eqI)
  then show ?thesis by (simp add: add_diff_eq)
qed

lemma gap_decreases:
  fixes bs :: u32
  assumes bs: "block_sizes bs" and "\<not> pos div bs < eof" and "pos div bs \<noteq> eof"
  shows "unat (pos div bs) - unat (((eof + 1) * bs + bs - 1) div bs) < unat (pos div bs) - unat eof"
proof -
  have lt: "eof < pos div bs" using assms(2,3) by simp
  have "unat eof < unat (pos div bs)" using lt by (simp only: word_less_nat_alt)
  moreover have "unat (eof + 1) = Suc (unat eof)"
    using calculation unat_lt_u32 [of "pos div bs"] by (intro unat_inc) auto
  ultimately show ?thesis unfolding gap_step [OF bs lt] by simp
qed

termination write_data_loop
  by (relation "measures [\<lambda>(bs, ino, offset, src, done, cur_size, dirty). length src - done,
      \<lambda>(bs, ino, offset, src, done, cur_size, dirty).
        unat ((offset + of_nat done) div bs) - unat ((cur_size + bs - 1) div bs)]")
    (auto simp: chunk_decreases simp del: diff_add_eq intro!: gap_decreases)

declare write_data_loop.simps [simp del]

definition ext4_write_inode_data_locked :: "u32 \<Rightarrow> u32 \<Rightarrow> u8 list \<Rightarrow> (nat \<times> u32) io" where
  "ext4_write_inode_data_locked inode_no offset src =
     (if src = [] then ret (0, 0)
      else
        bnd (or_err FS_ERR_IO (ext4_read_inode_locked inode_no)) (\<lambda>_.
        bnd (gets (\<lambda>s. ext4_inode_flags (g_inode_buf s))) (\<lambda>flags.
        if flags AND EXT4_EXTENTS_FL = 0 then fail FS_ERR_NOSYS
        else
          bnd inode_buf_size (\<lambda>size1.
          bnd (clear_tail offset size1) (\<lambda>_.
          bnd geom (\<lambda>g.
          bnd (write_data_loop (block_size g) inode_no offset src 0 size1 False) (\<lambda>(done, r).
          case r of
            None \<Rightarrow> ret (done, 0)
          | Some (cur_size, dirty) \<Rightarrow>
              if done = 0 then fail FS_ERR_NOSPC
              else
                bnd (if cur_size > size1 then edit_inode (\<lambda>p. wr_le32 0x6C 0 (wr_le32 4 cur_size p))
                     else ret ()) (\<lambda>_.
                if dirty \<or> cur_size > size1 then
                  or_done (ext4_write_inode_locked inode_no) (done, 0) True (\<lambda>_. ret (done, cur_size))
                else ret (done, cur_size)))))))))"

subsection \<open>Looking up a path\<close>

text \<open>Following a path component by component, from position \<open>i\<close>, until its end or the first
  symbolic link; a link gives the path to follow instead.\<close>

datatype walk_result = Reached u32 | Redirected path

definition skip_slashes :: "path \<Rightarrow> nat \<Rightarrow> nat" where
  "skip_slashes p i = i + length (takeWhile (\<lambda>c. c = SLASH) (drop i p))"

definition component_at :: "path \<Rightarrow> nat \<Rightarrow> u8 list" where
  "component_at p i = takeWhile (\<lambda>c. c \<noteq> SLASH) (drop i p)"

definition inode_type_is :: "u16 \<Rightarrow> bool io" where
  "inode_type_is type = gets (\<lambda>s. ext4_inode_mode (g_inode_buf s) AND EXT4_S_IFMT = type)"

function path_walk :: "path \<Rightarrow> nat \<Rightarrow> u32 \<Rightarrow> walk_result io" where
  "path_walk p i cur_ino =
     (let start = skip_slashes p i; cmp = component_at p start; i = start + length cmp in
      if cmp = [] then ret (Reached cur_ino)
      else if length cmp > EXT4_MAX_NAME then fail FS_ERR_INVAL
      else
        bnd (ext4_lookup_in_dir_locked cur_ino cmp) (\<lambda>next_ino.
        bnd (or_err FS_ERR_IO (ext4_read_inode_locked next_ino)) (\<lambda>_.
        bnd (inode_type_is EXT4_S_IFLNK) (\<lambda>is_link.
        if is_link then
          bnd (ext4_read_symlink_target_locked next_ino 256) (\<lambda>target.
          if target = [] then fail FS_ERR_NOENT
          else case symlink_path p start target (drop (skip_slashes p i) p) of
                 Inl e \<Rightarrow> fail e | Inr q \<Rightarrow> ret (Redirected q))
        else path_walk p i next_ino))))"
  by pat_completeness auto

lemma component_decreases:
  assumes "component_at p (skip_slashes p i) \<noteq> []"
  shows "length p - (skip_slashes p i + length (component_at p (skip_slashes p i))) < length p - i"
proof -
  have "skip_slashes p i < length p" using assms by (auto simp: component_at_def intro: ccontr)
  moreover have "i \<le> skip_slashes p i" by (simp add: skip_slashes_def)
  moreover have "0 < length (component_at p (skip_slashes p i))" using assms by simp
  ultimately show ?thesis by linarith
qed

termination path_walk
  by (relation "measure (\<lambda>(p, i, _). length p - i)") (simp_all add: component_decreases)

declare path_walk.simps [simp del]

text \<open>The inode, its mode and its size.\<close>

type_synonym found = "u32 \<times> u16 \<times> u32"

definition found_inode :: "u32 \<Rightarrow> found io" where
  "found_inode ino =
     bnd (or_err FS_ERR_IO (ext4_read_inode_locked ino)) (\<lambda>_.
     bnd inode_buf_size (\<lambda>size1.
     gets (\<lambda>s. (ino, ext4_inode_mode (g_inode_buf s), size1))))"

function ext4_lookup_path_follow_locked :: "path \<Rightarrow> nat \<Rightarrow> found io" where
  "ext4_lookup_path_follow_locked path depth =
     (if path = [] \<or> hd path \<noteq> SLASH then fail FS_ERR_INVAL
      else if depth > 8 then fail FS_ERR_LOOP
      else
        bnd (path_walk (c_str path) 0 EXT4_ROOT_INO) (\<lambda>r.
        case r of Reached ino \<Rightarrow> found_inode ino
        | Redirected q \<Rightarrow> ext4_lookup_path_follow_locked q (depth + 1)))"
  by pat_completeness auto
termination by (relation "measure (\<lambda>(_, depth). 9 - depth)") auto

declare ext4_lookup_path_follow_locked.simps [simp del]

definition ext4_lookup_path_locked :: "path \<Rightarrow> found io" where
  "ext4_lookup_path_locked path = ext4_lookup_path_follow_locked path 0"

subsection \<open>Creating files and directories\<close>

text \<open>The directory that a path's last component is in, and that component.\<close>

definition parent_dir :: "path \<Rightarrow> (u32 \<times> u8 list) io" where
  "parent_dir path =
     (case ext4_split_parent_name path of
        Inl e \<Rightarrow> fail e
      | Inr (parent, name) \<Rightarrow>
          bnd (ext4_lookup_path_locked parent) (\<lambda>(parent_ino, parent_mode, _).
          if parent_mode AND EXT4_S_IFMT \<noteq> EXT4_S_IFDIR then fail FS_ERR_NOTDIR
          else ret (parent_ino, name)))"

definition ext4_create_regular_locked :: "path \<Rightarrow> u32 io" where
  "ext4_create_regular_locked path =
     bnd (parent_dir path) (\<lambda>(parent_ino, name).
     bnd (ext4_alloc_inode_locked (EXT4_S_IFREG OR 0x1A4)) (\<lambda>new_ino.
     bnd (ext4_dir_add_entry_locked parent_ino name new_ino 1) (\<lambda>_.
     ret new_ino)))"

text \<open>The first block of a new directory, with the entries \<open>.\<close> and \<open>..\<close>.\<close>

definition dot_entries :: "u32 \<Rightarrow> u32 \<Rightarrow> u32 \<Rightarrow> buf \<Rightarrow> buf" where
  "dot_entries bs new_ino parent_ino p =
     (wr_le16 16 (ucast (bs - 12)) (wr_le32 12 parent_ino
       ((wr_le16 4 12 (wr_le32 0 new_ino (buf_zero 0 (unat bs) p)))(6 := 1, 7 := 2, 8 := 0x2E))))
     (18 := 2, 19 := 2, 20 := 0x2E, 21 := 0x2E)"

definition ext4_create_dir_locked :: "path \<Rightarrow> u32 \<Rightarrow> u32 io" where
  "ext4_create_dir_locked path mode =
     bnd (parent_dir path) (\<lambda>(parent_ino, name).
     bnd (ext4_alloc_inode_locked (EXT4_S_IFDIR OR ucast (mode AND 0x1FF))) (\<lambda>new_ino.
     bnd (or_err FS_ERR_IO (ext4_read_inode_locked new_ino)) (\<lambda>_.
     bnd (edit_inode (wr_le16 0x1A 2)) (\<lambda>_.
     bnd (or_err FS_ERR_IO (ext4_write_inode_locked new_ino)) (\<lambda>_.
     bnd geom (\<lambda>g.
     bnd (modify (\<lambda>s. s\<lparr>g_tree_block := dot_entries (block_size g) new_ino parent_ino (g_tree_block s)\<rparr>)) (\<lambda>_.
     bnd (gets (\<lambda>s. buf_bytes (g_tree_block s) 0 (bsize s))) (\<lambda>bytes.
     bnd (ext4_write_inode_data_locked new_ino 0 bytes) (\<lambda>(written, _).
     if written \<noteq> unat (block_size g) then fail FS_ERR_IO
     else
       bnd (ext4_dir_add_entry_locked parent_ino name new_ino 2) (\<lambda>_.
       bnd (ext4_adjust_links_locked parent_ino 1) (\<lambda>_.
       ret new_ino)))))))))))"

end
