(* ===== verification/Ext4_Api.thy ===== *)
theory Ext4_Api
  imports Ext4_File Fd_Ops
begin

text \<open>
  The calls of \<open>src/fs_ext4.c\<close> that \<open>src/fs.c\<close> makes (lines 1727-2389): open, stat, reading a
  directory, reading a link, unlink, mkdir, rmdir, rename, read and write. Each runs under the
  driver's mutex and mounts the file system first if that has not been tried. Those on a
  descriptor act on the descriptor layer's state as well (theory \<open>Fd_Ops\<close>).
\<close>

abbreviation (input) "SYS_O_ACCMODE \<equiv> (0x3 :: u32)"
abbreviation (input) "SYS_O_RDONLY \<equiv> (0x0 :: u32)"
abbreviation (input) "SYS_O_CREAT \<equiv> (0x40 :: u32)"
abbreviation (input) "SYS_O_EXCL \<equiv> (0x80 :: u32)"
abbreviation (input) "SYS_O_TRUNC \<equiv> (0x200 :: u32)"
abbreviation (input) "SYS_O_NONBLOCK \<equiv> (0x800 :: u32)"
abbreviation (input) "FS_BACKEND_NONE \<equiv> (0 :: u32)"
abbreviation (input) "FS_BACKEND_EXT4 \<equiv> (1 :: u32)"
abbreviation (input) "FS_BACKEND_PROC \<equiv> (2 :: u32)"

text \<open>The return value of a call without results.\<close>

definition rc_of :: "ext4 \<times> (int + 'a) \<Rightarrow> ext4 \<times> int" where
  "rc_of r = (case r of (s, Inl e) \<Rightarrow> (s, e) | (s, Inr _) \<Rightarrow> (s, 0))"

abbreviation is_type :: "u16 \<Rightarrow> u16 \<Rightarrow> bool" where
  "is_type mode type \<equiv> mode AND EXT4_S_IFMT = type"

subsection \<open>Opening\<close>

definition open_found :: "path \<Rightarrow> u32 \<Rightarrow> found io" where
  "open_found path flags =
     bnd (on_err
       (bnd (ext4_lookup_path_locked path) (\<lambda>r.
        if flags AND SYS_O_CREAT \<noteq> 0 \<and> flags AND SYS_O_EXCL \<noteq> 0 then fail FS_ERR_EXIST else ret r))
       (\<lambda>rc. if rc = FS_ERR_NOENT \<and> flags AND SYS_O_CREAT \<noteq> 0 then
               bnd (ext4_create_regular_locked path) (\<lambda>ino. ret (ino, EXT4_S_IFREG OR 0x1A4, 0))
             else fail rc))
     (\<lambda>(ino, mode, size1).
        if is_type mode EXT4_S_IFREG \<and> flags AND SYS_O_TRUNC \<noteq> 0 \<and> size1 \<noteq> 0 then
          bnd (ext4_set_inode_size_locked ino 0) (\<lambda>_. ret (ino, mode, 0))
        else ret (ino, mode, size1))"

definition fs_ext4_open :: "path \<Rightarrow> u32 \<Rightarrow> ext4 \<times> fd_env \<Rightarrow> (ext4 \<times> fd_env) \<times> int" where
  "fs_ext4_open path flags st =
     (case st of (s, e) \<Rightarrow>
       let accmode = flags AND SYS_O_ACCMODE; status_flags = flags AND (SYS_O_ACCMODE OR SYS_O_NONBLOCK) in
       if path = [] \<or> hd path \<noteq> SLASH then ((s, e), FS_ERR_INVAL)
       else if flags AND SYS_O_TRUNC \<noteq> 0 \<and> accmode = SYS_O_RDONLY then ((s, e), FS_ERR_INVAL)
       else
         (case bnd ext4_try_probe_locked (\<lambda>_. open_found path flags) s of
            (s, Inl rc) \<Rightarrow> ((s, e), rc)
          | (s, Inr (ino, mode, size1)) \<Rightarrow>
              if is_type mode EXT4_S_IFDIR then
                if accmode \<noteq> SYS_O_RDONLY \<or> flags AND SYS_O_TRUNC \<noteq> 0 then ((s, e), FS_ERR_ISDIR)
                else (case sched_fd_open_regular status_flags FS_BACKEND_EXT4 ino size1 True e of
                        (e, fd) \<Rightarrow> ((s, e), fd))
              else if \<not> is_type mode EXT4_S_IFREG then ((s, e), FS_ERR_INVAL)
              else (case sched_fd_open_regular status_flags FS_BACKEND_EXT4 ino size1 False e of
                      (e, fd) \<Rightarrow> ((s, e), fd))))"

subsection \<open>Attributes\<close>

record fs_stat =
  st_dev :: u32
  st_ino :: u32
  st_mode :: u32
  st_nlink :: u32
  st_uid :: u32
  st_gid :: u32
  st_rdev :: u32
  st_size :: u32
  st_blksize :: u32
  st_blocks :: u32

text \<open>The number of links is that of the inode buffer, which the lookup leaves at the inode it
  found.\<close>

definition fs_ext4_stat :: "path \<Rightarrow> ext4 \<Rightarrow> ext4 \<times> (int + fs_stat)" where
  "fs_ext4_stat path =
     (if path = [] \<or> hd path \<noteq> SLASH then fail FS_ERR_INVAL
      else
        bnd ext4_try_probe_locked (\<lambda>_.
        bnd (ext4_lookup_path_locked path) (\<lambda>(ino, mode, size1).
        bnd (gets (\<lambda>s. ext4_inode_links_count (g_inode_buf s))) (\<lambda>links.
        bnd geom (\<lambda>g.
        ret \<lparr>st_dev = FS_BACKEND_EXT4, st_ino = ino, st_mode = ucast mode,
             st_nlink = (if links \<noteq> 0 then ucast links else 1), st_uid = 0, st_gid = 0, st_rdev = 0,
             st_size = size1, st_blksize = (if block_size g \<noteq> 0 then block_size g else 4096),
             st_blocks = (size1 + 511) div 512\<rparr>)))))"

subsection \<open>Reading a directory\<close>

record fs_dirent =
  d_ino :: u32
  d_off :: u32
  d_reclen :: u32
  d_type :: u32
  d_name :: "u8 list"

abbreviation (input) "DIRENT_SIZE \<equiv> (272 :: nat)"

definition ext4_dirent_type_to_sys :: "u8 \<Rightarrow> u32" where
  "ext4_dirent_type_to_sys type =
     (if type = 1 then 8 else if type = 2 then 4 else if type = 3 then 2 else if type = 7 then 10
      else if type = 6 then 12 else 0)"

text \<open>The entry at offset \<open>cur\<close> of the directory: the bytes it takes, and the entry if it is in
  use. \<open>None\<close> is a block that is not mapped.\<close>

definition read_dirent :: "nat \<Rightarrow> (nat \<times> fs_dirent option) io" where
  "read_dirent cur =
     bnd (gets bsize) (\<lambda>bs.
     let in_block = cur mod bs in
     if in_block + 8 > bs then ret (bs - in_block, None)
     else
       bnd (on_err (bnd (ext4_inode_map_block_locked (of_nat (cur div bs))) (\<lambda>b. ret (Some b)))
              (\<lambda>rc. if rc = FS_ERR_NOENT then ret None else fail FS_ERR_IO)) (\<lambda>m.
       case m of None \<Rightarrow> ret (bs - in_block, None)
       | Some pblock \<Rightarrow>
           bnd (or_err FS_ERR_IO (ext4_read_block_locked pblock IO_BLOCK)) (\<lambda>_.
           bnd (gets g_io_block) (\<lambda>p.
           let rec_len = unat (de_rec_len p in_block); nlen = unat (de_name_len p in_block) in
           if rec_len < 8 \<or> in_block + rec_len > bs then fail FS_ERR_IO
           else if de_ino p in_block = 0 \<or> nlen = 0 then ret (rec_len, None)
           else ret (rec_len, Some \<lparr>d_ino = de_ino p in_block, d_off = of_nat (cur + rec_len),
                  d_reclen = of_nat DIRENT_SIZE, d_type = ext4_dirent_type_to_sys (p (in_block + 7)),
                  d_name = buf_bytes p (in_block + 8) nlen\<rparr>)))))"

text \<open>The loop: \<open>off + consumed\<close> is \<open>cur\<close>, \<open>room\<close> the number of entries that still fit. The
  result says where the loop stopped, what it stored and whether it was left by an error. Every
  entry takes at least one byte as the block size is positive, so the test \<open>n = 0\<close> only serves
  termination.\<close>

function dirents_loop :: "nat \<Rightarrow> nat \<Rightarrow> nat \<Rightarrow> fs_dirent list \<Rightarrow> (nat \<times> fs_dirent list \<times> int) io" where
  "dirents_loop size1 room cur acc =
     (if cur < size1 \<and> length acc < room then
        (\<lambda>s. case read_dirent cur s of
          (s', Inl rc) \<Rightarrow> (s', Inr (cur, acc, rc))
        | (s', Inr (n, d)) \<Rightarrow>
            if n = 0 then (s', Inr (cur, acc, FS_ERR_IO))
            else dirents_loop size1 room (cur + n) (acc @ (case d of None \<Rightarrow> [] | Some x \<Rightarrow> [x])) s')
      else ret (cur, acc, 0))"
  by pat_completeness auto
termination by (relation "measure (\<lambda>(size1, room, cur, acc). size1 - cur)") auto

declare dirents_loop.simps [simp del]

definition open_dir_fd :: "u32 \<Rightarrow> unit io" where
  "open_dir_fd ino =
     bnd ext4_try_probe_locked (\<lambda>_.
     bnd (ext4_read_inode_locked ino) (\<lambda>_.
     bnd (inode_type_is EXT4_S_IFDIR) (\<lambda>d. check d FS_ERR_NOTDIR)))"

definition fs_ext4_getdents_fd ::
  "int \<Rightarrow> u32 \<Rightarrow> ext4 \<times> fd_env \<Rightarrow> (ext4 \<times> fd_env) \<times> int \<times> fs_dirent list" where
  "fs_ext4_getdents_fd fd len st =
     (case st of (s, e) \<Rightarrow>
       if len = 0 then (st, 0, [])
       else if unat len < DIRENT_SIZE then (st, FS_ERR_INVAL, [])
       else case sched_fd_regular_get fd e of
         (rc, None) \<Rightarrow> (st, FS_ERR_BADF, [])
       | (rc, Some (backend, ino, size1, off, is_dir)) \<Rightarrow>
           if backend \<noteq> FS_BACKEND_EXT4 then (st, FS_ERR_BADF, [])
           else if \<not> is_dir then (st, FS_ERR_NOTDIR, [])
           else if off \<ge> size1 then (st, 0, [])
           else case bnd (open_dir_fd ino)
                       (\<lambda>_. dirents_loop (unat size1) (unat len div DIRENT_SIZE) (unat off) []) s of
             (s', Inl rc) \<Rightarrow> ((s', e), rc, [])
           | (s', Inr (cur, ds, rc)) \<Rightarrow>
               let written = int (length ds * DIRENT_SIZE) in
               if rc \<noteq> 0 then ((s', e), if ds \<noteq> [] then written else rc, ds)
               else let e' = (if cur \<noteq> unat off
                              then fst (sched_fd_regular_advance fd (of_nat (cur - unat off)) e) else e)
                    in ((s', e'), written, ds))"

subsection \<open>Reading a link\<close>

text \<open>The walk of \<open>fs_ext4_readlink\<close> does not follow the last component. Links on the way are
  resolved as in a lookup; the lookup of the new path then follows all of its links, the last
  one too.\<close>

function readlink_walk :: "path \<Rightarrow> nat \<Rightarrow> u32 \<Rightarrow> u32 io" where
  "readlink_walk p i parent_ino =
     (let start = skip_slashes p i; cmp = component_at p start; i = start + length cmp;
          rest = drop (skip_slashes p i) p in
      if cmp = [] then ret 0
      else if length cmp > EXT4_MAX_NAME then fail FS_ERR_INVAL
      else
        bnd (ext4_lookup_in_dir_locked parent_ino cmp) (\<lambda>next_ino.
        if rest = [] then ret next_ino
        else
          bnd (or_err FS_ERR_IO (ext4_read_inode_locked next_ino)) (\<lambda>_.
          bnd (inode_type_is EXT4_S_IFLNK) (\<lambda>is_link.
          if is_link then
            bnd (ext4_read_symlink_target_locked next_ino 256) (\<lambda>target.
            case symlink_path p start target rest of
              Inl e \<Rightarrow> fail e
            | Inr q \<Rightarrow> bnd (ext4_lookup_path_locked q) (\<lambda>(ino, _, _). ret ino))
          else readlink_walk p i next_ino))))"
  by pat_completeness auto
termination
  by (relation "measure (\<lambda>(p, i, _). length p - i)") (simp_all add: component_decreases)

declare readlink_walk.simps [simp del]

definition fs_ext4_readlink :: "path \<Rightarrow> u32 \<Rightarrow> u8 list io" where
  "fs_ext4_readlink path len =
     (if path = [] \<or> hd path \<noteq> SLASH \<or> len = 0 then fail FS_ERR_INVAL
      else
        bnd ext4_try_probe_locked (\<lambda>_.
        bnd (check (skip_slashes (c_str path) 0 < length (c_str path)) FS_ERR_INVAL) (\<lambda>_.
        bnd (readlink_walk (c_str path) 0 EXT4_ROOT_INO) (\<lambda>link_ino.
        bnd (ext4_read_symlink_target_locked link_ino 256) (\<lambda>target.
        ret (take (unat len) target))))))"

subsection \<open>Names\<close>

text \<open>Normalisation before the mutex is taken.\<close>

definition with_normalized :: "path \<Rightarrow> (path \<Rightarrow> 'a io) \<Rightarrow> 'a io" where
  "with_normalized path f =
     (if path = [] \<or> hd path \<noteq> SLASH then fail FS_ERR_INVAL
      else case ext4_path_normalize_absolute path of Inl e \<Rightarrow> fail e | Inr p \<Rightarrow> f p)"

definition clear_inode :: "unit io" where
  "clear_inode = edit_inode (\<lambda>p. wr_le16 0x1A 0 (wr_le16 0 0 p))"

definition try_ignore :: "'a io \<Rightarrow> unit io" where
  "try_ignore m = on_err (bnd m (\<lambda>_. ret ())) (\<lambda>_. ret ())"

definition fs_ext4_unlink :: "path \<Rightarrow> ext4 \<Rightarrow> ext4 \<times> int" where
  "fs_ext4_unlink path s = rc_of (with_normalized path (\<lambda>normalized.
     bnd ext4_try_probe_locked (\<lambda>_.
     bnd (ext4_lookup_path_locked normalized) (\<lambda>(ino, mode, _).
     bnd (check (\<not> is_type mode EXT4_S_IFDIR) FS_ERR_ISDIR) (\<lambda>_.
     bnd (parent_dir normalized) (\<lambda>(parent_ino, name).
     bnd (ext4_dir_remove_entry_locked parent_ino name) (\<lambda>removed_ino.
     if removed_ino = ino then
       try_ignore (bnd (ext4_read_inode_locked ino) (\<lambda>_. bnd clear_inode (\<lambda>_. ext4_write_inode_locked ino)))
     else ret ())))))) s)"

definition fs_ext4_mkdir :: "path \<Rightarrow> u32 \<Rightarrow> ext4 \<Rightarrow> ext4 \<times> int" where
  "fs_ext4_mkdir path mode s = rc_of (with_normalized path (\<lambda>normalized.
     bnd ext4_try_probe_locked (\<lambda>_.
     bnd (on_err (bnd (ext4_lookup_path_locked normalized) (\<lambda>_. ret True))
            (\<lambda>rc. if rc = FS_ERR_NOENT then ret False else fail rc)) (\<lambda>exists.
     if exists then fail FS_ERR_EXIST
     else ext4_create_dir_locked normalized mode))) s)"

definition fs_ext4_rmdir :: "path \<Rightarrow> ext4 \<Rightarrow> ext4 \<times> int" where
  "fs_ext4_rmdir path s = rc_of (with_normalized path (\<lambda>normalized.
     bnd ext4_try_probe_locked (\<lambda>_.
     bnd (ext4_lookup_path_locked normalized) (\<lambda>(ino, mode, _).
     bnd (check (is_type mode EXT4_S_IFDIR) FS_ERR_NOTDIR) (\<lambda>_.
     bnd (ext4_dir_is_empty_locked ino) (\<lambda>_.
     bnd (parent_dir normalized) (\<lambda>(parent_ino, name).
     bnd (ext4_dir_remove_entry_locked parent_ino name) (\<lambda>removed_ino.
     bnd (check (removed_ino = ino) FS_ERR_IO) (\<lambda>_.
     bnd (ext4_adjust_links_locked parent_ino (-1)) (\<lambda>_.
     bnd (on_err (bnd (ext4_read_inode_locked ino) (\<lambda>_. ret True)) (\<lambda>_. ret False)) (\<lambda>readable.
     if readable then bnd clear_inode (\<lambda>_. or_err FS_ERR_IO (ext4_write_inode_locked ino))
     else ret ())))))))))) s)"

text \<open>The target of a rename is removed first if it exists and is not a directory; an inode
  number of 0 stands for no such file.\<close>

definition rename_target :: "u32 \<Rightarrow> u8 list \<Rightarrow> u32 \<Rightarrow> u16 \<Rightarrow> unit io" where
  "rename_target new_parent_ino new_name new_ino new_mode =
     (if new_ino = 0 then ret ()
      else if is_type new_mode EXT4_S_IFDIR then fail FS_ERR_ISDIR
      else
        bnd (ext4_dir_remove_entry_locked new_parent_ino new_name) (\<lambda>removed_ino.
        bnd (if removed_ino = new_ino then
               on_err (bnd (ext4_read_inode_locked new_ino) (\<lambda>_. ret True)) (\<lambda>_. ret False)
             else ret False) (\<lambda>readable.
        if readable then bnd clear_inode (\<lambda>_. or_err FS_ERR_IO (ext4_write_inode_locked new_ino))
        else ret ())))"

definition rename_locked :: "path \<Rightarrow> path \<Rightarrow> unit io" where
  "rename_locked old_normalized new_normalized =
     bnd ext4_try_probe_locked (\<lambda>_.
     bnd (ext4_lookup_path_locked old_normalized) (\<lambda>(old_ino, old_mode, _).
     bnd (check (\<not> is_type old_mode EXT4_S_IFDIR) FS_ERR_NOSYS) (\<lambda>_.
     case (ext4_split_parent_name old_normalized, ext4_split_parent_name new_normalized) of
       (Inl e, _) \<Rightarrow> fail e
     | (_, Inl e) \<Rightarrow> fail e
     | (Inr (old_parent, old_name), Inr (new_parent, new_name)) \<Rightarrow>
         bnd (ext4_lookup_path_locked old_parent) (\<lambda>(old_parent_ino, m1, _).
         bnd (check (is_type m1 EXT4_S_IFDIR) FS_ERR_NOTDIR) (\<lambda>_.
         bnd (ext4_lookup_path_locked new_parent) (\<lambda>(new_parent_ino, m2, _).
         bnd (check (is_type m2 EXT4_S_IFDIR) FS_ERR_NOTDIR) (\<lambda>_.
         bnd (on_err (ext4_lookup_path_locked new_normalized)
                (\<lambda>rc. if rc = FS_ERR_NOENT then ret (0, 0, 0) else fail rc)) (\<lambda>(new_ino, new_mode, _).
         if new_ino = old_ino \<and> new_ino \<noteq> 0 then ret ()
         else
           bnd (rename_target new_parent_ino new_name new_ino new_mode) (\<lambda>_.
           bnd (ext4_dir_add_entry_locked new_parent_ino new_name old_ino
                  (if is_type old_mode EXT4_S_IFLNK then 7 else 1)) (\<lambda>_.
           bnd (ext4_dir_remove_entry_locked old_parent_ino old_name) (\<lambda>removed_ino.
           check (removed_ino = old_ino) FS_ERR_IO)))))))))))"

definition fs_ext4_rename :: "path \<Rightarrow> path \<Rightarrow> ext4 \<Rightarrow> ext4 \<times> int" where
  "fs_ext4_rename oldpath newpath s = rc_of (
     (if oldpath = [] \<or> hd oldpath \<noteq> SLASH \<or> newpath = [] \<or> hd newpath \<noteq> SLASH then fail FS_ERR_INVAL
      else case (ext4_path_normalize_absolute oldpath, ext4_path_normalize_absolute newpath) of
        (Inl e, _) \<Rightarrow> fail e
      | (_, Inl e) \<Rightarrow> fail e
      | (Inr old_normalized, Inr new_normalized) \<Rightarrow>
          if old_normalized = new_normalized then ret ()
          else rename_locked old_normalized new_normalized) s)"

subsection \<open>Reading and writing\<close>

definition fs_ext4_read_fd :: "int \<Rightarrow> u32 \<Rightarrow> ext4 \<times> fd_env \<Rightarrow> (ext4 \<times> fd_env) \<times> (int + u8 list)" where
  "fs_ext4_read_fd fd len st =
     (case st of (s, e) \<Rightarrow>
       if len = 0 then (st, Inr [])
       else case sched_fd_regular_get fd e of
         (rc, None) \<Rightarrow> (st, Inl FS_ERR_BADF)
       | (rc, Some (backend, ino, size1, off, is_dir)) \<Rightarrow>
           if backend \<noteq> FS_BACKEND_EXT4 then (st, Inl FS_ERR_BADF)
           else if is_dir then (st, Inl FS_ERR_ISDIR)
           else if off \<ge> size1 then (st, Inr [])
           else
             let len = (if len > size1 - off then size1 - off else len) in
             case bnd ext4_try_probe_locked (\<lambda>_. ext4_read_inode_data_locked ino off len) s of
               (s', Inl rc) \<Rightarrow> ((s', e), Inl rc)
             | (s', Inr bytes) \<Rightarrow>
                 ((s', if bytes \<noteq> [] then fst (sched_fd_regular_advance fd (of_nat (length bytes)) e) else e),
                  Inr bytes))"

definition fs_ext4_write_fd :: "int \<Rightarrow> u8 list \<Rightarrow> ext4 \<times> fd_env \<Rightarrow> (ext4 \<times> fd_env) \<times> int" where
  "fs_ext4_write_fd fd src st =
     (case st of (s, e) \<Rightarrow>
       case sched_fd_regular_get fd e of
         (rc, None) \<Rightarrow> (st, FS_ERR_BADF)
       | (rc, Some (backend, ino, size1, off, is_dir)) \<Rightarrow>
           if backend \<noteq> FS_BACKEND_EXT4 then (st, FS_ERR_BADF)
           else if is_dir then (st, FS_ERR_ISDIR)
           else if src = [] then (st, 0)
           else case bnd ext4_try_probe_locked (\<lambda>_. ext4_write_inode_data_locked ino off src) s of
             (s', Inl rc) \<Rightarrow> ((s', e), rc)
           | (s', Inr (written, new_size)) \<Rightarrow>
               ((s', if written \<noteq> 0 then fst (sched_fd_regular_commit_write fd (of_nat written) new_size e)
                     else e), int written))"

end
