(* ===== verification/Ext4_Dir_Props.thy ===== *)
theory Ext4_Dir_Props
  imports Ext4_Dir
begin

text \<open>
  What a directory block means: the list of its entries, in order, each a name and an inode
  number (\<open>dir_entries\<close>). Adding inserts one entry, removing deletes one, and all others keep
  their order. \<open>dir_ok\<close> is the format: the records tile the block, and a record in use has room
  for its name.

  Finding sees an entry only if the comparison \<open>nlen <= (uint8_t)(rec_len - 8u)\<close> holds, whose
  right side is truncated to a byte (\<open>de_visible\<close>). A record whose length is 8 more than a
  multiple of 256, or slightly longer, hides its entry: \<open>added_entry_hidden\<close> is a block where an
  entry is added and not found.
\<close>

subsection \<open>Bytes\<close>

lemma low_byte:
  "(ucast (v AND 0xFF :: u32) :: u8) = ucast v" "(ucast (w AND 0xFF :: u16) :: u8) = ucast w"
proof -
  have m: "(0xFF :: u32) = mask 8" "(0xFF :: u16) = mask 8" by (simp_all add: mask_eq_exp_minus_1)
  show "(ucast (v AND 0xFF :: u32) :: u8) = ucast v" "(ucast (w AND 0xFF :: u16) :: u8) = ucast w"
    unfolding m by (rule bit_word_eqI, simp add: bit_simps)+
qed

lemma rd_wr_le32 [simp]: "rd_le32 (wr_le32 a v p) a = v"
proof (rule bit_word_eqI)
  fix n assume "n < LENGTH(32)"
  then consider "n < 8" | "8 \<le> n" "n < 16" | "16 \<le> n" "n < 24" | "24 \<le> n" "n < 32" by fastforce
  then show "bit (rd_le32 (wr_le32 a v p) a) n = bit v n"
    by cases (auto simp: rd_le32_def wr_le32_def low_byte bit_simps le_diff_conv2)
qed

lemma rd_wr_le16 [simp]: "rd_le16 (wr_le16 a v p) a = v"
proof (rule bit_word_eqI)
  fix n assume "n < LENGTH(16)"
  then consider "n < 8" | "8 \<le> n" "n < 16" by fastforce
  then show "bit (rd_le16 (wr_le16 a v p) a) n = bit v n"
    by cases (auto simp: rd_le16_def wr_le16_def low_byte bit_simps le_diff_conv2)
qed

lemma wr_other:
  "i < a \<or> a + 4 \<le> i \<Longrightarrow> wr_le32 a v p i = p i"
  "i < a \<or> a + 2 \<le> i \<Longrightarrow> wr_le16 a w p i = p i"
  by (auto simp: wr_le32_def wr_le16_def)

lemma rd_cong:
  "\<forall>i. a \<le> i \<and> i < a + 4 \<longrightarrow> p i = q i \<Longrightarrow> rd_le32 p a = rd_le32 q a"
  "\<forall>i. a \<le> i \<and> i < a + 2 \<longrightarrow> p i = q i \<Longrightarrow> rd_le16 p a = rd_le16 q a"
  by (simp_all add: rd_le32_def rd_le16_def)

lemma buf_bytes_put: "buf_bytes (buf_put a bs p) a (length bs) = bs"
  by (auto simp: buf_bytes_def buf_put_def intro: nth_equalityI)

lemma buf_put_other: "i < a \<or> a + length bs \<le> i \<Longrightarrow> buf_put a bs p i = p i"
  by (auto simp: buf_put_def)

subsection \<open>The length of a record\<close>

lemma rec_len_values: "\<forall>n \<in> set [0..<256]. unat (ext4_dir_rec_len (of_nat n)) = (11 + n) div 4 * 4"
  by code_simp

lemma unat_rec_len: "n < 256 \<Longrightarrow> unat (ext4_dir_rec_len (of_nat n)) = (11 + n) div 4 * 4"
  using rec_len_values by simp

lemma rec_len_bounds:
  assumes "n < 256"
  shows "n + 8 \<le> unat (ext4_dir_rec_len (of_nat n))" and "8 \<le> unat (ext4_dir_rec_len (of_nat n))"
  unfolding unat_rec_len [OF assms] by linarith+

lemma ucast_as_nat: "(ucast (x :: u8) :: u32) = of_nat (unat x)"
  by simp

subsection \<open>The entries of a block\<close>

function dir_records :: "nat \<Rightarrow> buf \<Rightarrow> nat \<Rightarrow> nat list" where
  "dir_records bs p pos =
     (let n = unat (de_rec_len p pos) in
      if pos + 8 \<le> bs \<and> 8 \<le> n \<and> pos + n \<le> bs then pos # dir_records bs p (pos + n) else [])"
  by pat_completeness auto
termination by (relation "measure (\<lambda>(bs, _, pos). bs - pos)") auto

declare dir_records.simps [simp del]

definition de_entry :: "buf \<Rightarrow> nat \<Rightarrow> u8 list \<times> u32" where
  "de_entry p pos = (buf_bytes p (pos + 8) (unat (de_name_len p pos)), de_ino p pos)"

definition entries_from :: "nat \<Rightarrow> buf \<Rightarrow> nat \<Rightarrow> (u8 list \<times> u32) list" where
  "entries_from bs p pos = map (de_entry p) (filter (\<lambda>q. de_ino p q \<noteq> 0) (dir_records bs p pos))"

text \<open>Finding and removing see an entry only if its record passes their truncated length test.\<close>

definition de_visible :: "buf \<Rightarrow> nat \<Rightarrow> bool" where
  "de_visible p pos \<longleftrightarrow> de_name_len p pos \<le> ucast (de_rec_len p pos - 8)"

definition marked_from :: "nat \<Rightarrow> buf \<Rightarrow> nat \<Rightarrow> ((u8 list \<times> u32) \<times> bool) list" where
  "marked_from bs p pos =
     map (\<lambda>q. (de_entry p q, de_visible p q)) (filter (\<lambda>q. de_ino p q \<noteq> 0) (dir_records bs p pos))"

lemma entries_marked: "entries_from bs p pos = map fst (marked_from bs p pos)"
  by (simp add: entries_from_def marked_from_def comp_def)

definition dir_entries :: "nat \<Rightarrow> buf \<Rightarrow> (u8 list \<times> u32) list" where
  "dir_entries bs p = entries_from bs p 0"

definition record_ok :: "nat \<Rightarrow> buf \<Rightarrow> nat \<Rightarrow> bool" where
  "record_ok bs p pos \<longleftrightarrow> 8 \<le> unat (de_rec_len p pos) \<and> pos + unat (de_rec_len p pos) \<le> bs \<and>
     (de_ino p pos \<noteq> 0 \<longrightarrow> unat (de_name_len p pos) + 8 \<le> unat (de_rec_len p pos))"

function dir_ok_from :: "nat \<Rightarrow> buf \<Rightarrow> nat \<Rightarrow> bool" where
  "dir_ok_from bs p pos =
     (pos + 8 \<le> bs \<longrightarrow> record_ok bs p pos \<and>
        (8 \<le> unat (de_rec_len p pos) \<longrightarrow> dir_ok_from bs p (pos + unat (de_rec_len p pos))))"
  by pat_completeness auto
termination by (relation "measure (\<lambda>(bs, _, pos). bs - pos)") auto

declare dir_ok_from.simps [simp del]

definition dir_ok :: "nat \<Rightarrow> buf \<Rightarrow> bool" where
  "dir_ok bs p \<longleftrightarrow> dir_ok_from bs p 0"

lemma dir_ok_step:
  assumes "dir_ok_from bs p pos" and "pos + 8 \<le> bs"
  shows "record_ok bs p pos" and "dir_ok_from bs p (pos + unat (de_rec_len p pos))"
  using assms by (auto simp: dir_ok_from.simps [of bs p pos] record_ok_def)

lemma entries_step:
  assumes "record_ok bs p pos" and "pos + 8 \<le> bs"
  shows "entries_from bs p pos =
    (if de_ino p pos \<noteq> 0 then [de_entry p pos] else []) @ entries_from bs p (pos + unat (de_rec_len p pos))"
  using assms by (simp add: entries_from_def dir_records.simps [of bs p pos] record_ok_def Let_def)

lemma marked_step:
  assumes "record_ok bs p pos" and "pos + 8 \<le> bs"
  shows "marked_from bs p pos =
    (if de_ino p pos \<noteq> 0 then [(de_entry p pos, de_visible p pos)] else []) @
      marked_from bs p (pos + unat (de_rec_len p pos))"
  using assms by (simp add: marked_from_def dir_records.simps [of bs p pos] record_ok_def Let_def)

lemma marked_end: "\<not> pos + 8 \<le> bs \<Longrightarrow> marked_from bs p pos = []"
  by (simp add: marked_from_def dir_records.simps)

lemma entries_end: "\<not> pos + 8 \<le> bs \<Longrightarrow> entries_from bs p pos = []"
  by (simp add: entries_from_def dir_records.simps)

lemma walk_step:
  assumes "record_ok bs p pos" and "pos + 8 \<le> bs"
  shows "dir_walk bs p visit pos =
    (case visit pos of Some r \<Rightarrow> Hit r | None \<Rightarrow> dir_walk bs p visit (pos + unat (de_rec_len p pos)))"
  using assms by (simp add: dir_walk.simps [of bs p visit pos] record_ok_def Let_def)

lemma walk_end: "\<not> pos + 8 \<le> bs \<Longrightarrow> dir_walk bs p visit pos = Walk_end"
  by (simp add: dir_walk.simps)

text \<open>The records from \<open>pos\<close> on depend only on the bytes from there to the end of the block.\<close>

lemma header_cong:
  assumes "\<forall>i. pos \<le> i \<and> i < pos + 8 \<longrightarrow> p i = q i"
  shows "de_ino p pos = de_ino q pos" "de_rec_len p pos = de_rec_len q pos" "de_name_len p pos = de_name_len q pos"
  using assms rd_cong(1) [of pos p q] rd_cong(2) [of "pos + 4" p q]
  by (simp_all add: de_ino_def de_rec_len_def de_name_len_def)

lemma entry_cong:
  assumes "\<forall>i. pos \<le> i \<and> i < pos + n \<longrightarrow> p i = q i" and "unat (de_name_len p pos) + 8 \<le> n"
  shows "de_entry p pos = de_entry q pos"
proof -
  have "de_ino p pos = de_ino q pos" "de_name_len p pos = de_name_len q pos"
    using header_cong [of pos p q] assms by simp_all
  then show ?thesis using assms by (simp add: de_entry_def buf_bytes_def)
qed

lemma from_cong:
  assumes "dir_ok_from bs p pos" and "\<forall>i. pos \<le> i \<and> i < bs \<longrightarrow> p i = q i"
  shows "dir_ok_from bs q pos \<and> marked_from bs q pos = marked_from bs p pos \<and>
    entries_from bs q pos = entries_from bs p pos"
  using assms
proof (induction "bs - pos" arbitrary: pos rule: less_induct)
  case less
  show ?case
  proof (cases "pos + 8 \<le> bs")
    case True
    let ?n = "unat (de_rec_len p pos)"
    note ok = dir_ok_step [OF less.prems(1) True]
    have hd: "de_ino q pos = de_ino p pos" "de_rec_len q pos = de_rec_len p pos"
      "de_name_len q pos = de_name_len p pos"
      using header_cong [of pos p q] less.prems(2) True by simp_all
    have n: "8 \<le> ?n" "pos + ?n \<le> bs" using ok(1) by (simp_all add: record_ok_def)
    have rq: "record_ok bs q pos" using ok(1) by (simp add: record_ok_def hd)
    have e: "de_entry q pos = de_entry p pos" if "de_ino p pos \<noteq> 0"
      using entry_cong [of pos ?n p q] ok(1) that less.prems(2) n by (simp add: record_ok_def)
    have "dir_ok_from bs q (pos + ?n) \<and> marked_from bs q (pos + ?n) = marked_from bs p (pos + ?n)"
      using less.hyps [of "pos + ?n"] ok(2) less.prems(2) n True by simp
    then show ?thesis
      using rq e n by (simp add: dir_ok_from.simps [of bs q pos] entries_marked marked_step [OF rq True]
          marked_step [OF ok(1) True] hd de_visible_def)
  next
    case False
    then show ?thesis by (simp add: dir_ok_from.simps [of bs q pos] marked_end entries_marked)
  qed
qed

subsection \<open>Finding\<close>

definition visible_entries :: "nat \<Rightarrow> buf \<Rightarrow> nat \<Rightarrow> (u8 list \<times> u32) list" where
  "visible_entries bs p pos =
     map (de_entry p) (filter (\<lambda>q. de_ino p q \<noteq> 0 \<and> de_visible p q) (dir_records bs p pos))"

lemma de_matches_entry:
  "de_matches p name pos \<longleftrightarrow> de_ino p pos \<noteq> 0 \<and> de_visible p pos \<and> fst (de_entry p pos) = name"
  by (auto simp: de_matches_def de_visible_def de_entry_def buf_bytes_def)

lemma visible_step:
  assumes "record_ok bs p pos" and "pos + 8 \<le> bs"
  shows "visible_entries bs p pos =
    (if de_ino p pos \<noteq> 0 \<and> de_visible p pos then [de_entry p pos] else [])
      @ visible_entries bs p (pos + unat (de_rec_len p pos))"
  using assms by (simp add: visible_entries_def dir_records.simps [of bs p pos] record_ok_def Let_def)

lemma lookup_from:
  assumes "dir_ok_from bs p pos"
  shows "walk_hit (dir_walk bs p (\<lambda>q. if de_matches p name q then Some (de_ino p q) else None) pos) =
    map_of (visible_entries bs p pos) name"
  using assms
proof (induction "bs - pos" arbitrary: pos rule: less_induct)
  case less
  show ?case
  proof (cases "pos + 8 \<le> bs")
    case True
    note ok = dir_ok_step [OF less.prems True]
    have n: "8 \<le> unat (de_rec_len p pos)" using ok(1) by (simp add: record_ok_def)
    have e: "de_entry p pos = (fst (de_entry p pos), de_ino p pos)" by (simp add: de_entry_def)
    show ?thesis
      using less.hyps [OF _ ok(2)] n True
      by (subst walk_step [OF ok(1) True], subst visible_step [OF ok(1) True], subst (1) e)
        (auto simp: de_matches_entry walk_hit_def)
  next
    case False
    then show ?thesis by (simp add: walk_end walk_hit_def visible_entries_def dir_records.simps)
  qed
qed

lemma visible_subset: "set (visible_entries bs p pos) \<subseteq> set (entries_from bs p pos)"
  by (auto simp: visible_entries_def entries_from_def)

subsection \<open>Adding\<close>

text \<open>The bytes of a written entry.\<close>

lemma write_entry_other:
  "i < pos \<or> pos + 8 + length name \<le> i \<Longrightarrow> write_entry pos ino n name ft p i = p i"
  by (auto simp: write_entry_def buf_put_def wr_other)

lemma write_entry_fields:
  assumes "length name < 256"
  shows "de_ino (write_entry pos ino n name ft p) pos = ino"
    and "de_rec_len (write_entry pos ino n name ft p) pos = n"
    and "unat (de_name_len (write_entry pos ino n name ft p) pos) = length name"
    and "de_entry (write_entry pos ino n name ft p) pos = (name, ino)"
proof -
  let ?h = "(wr_le16 (pos + 4) n (wr_le32 pos ino p))(pos + 6 := of_nat (length name), pos + 7 := ft)"
  have h: "write_entry pos ino n name ft p i = ?h i" if "i < pos + 8" for i
    using that by (simp add: write_entry_def buf_put_def)
  have "rd_le32 ?h pos = rd_le32 (wr_le32 pos ino p) pos"
    by (rule rd_cong) (simp add: wr_other)
  then show i: "de_ino (write_entry pos ino n name ft p) pos = ino"
    using rd_cong(1) [of pos "write_entry pos ino n name ft p" ?h] h by (simp add: de_ino_def)
  have "rd_le16 ?h (pos + 4) = rd_le16 (wr_le16 (pos + 4) n (wr_le32 pos ino p)) (pos + 4)"
    by (rule rd_cong) simp
  then show "de_rec_len (write_entry pos ino n name ft p) pos = n"
    using rd_cong(2) [of "pos + 4" "write_entry pos ino n name ft p" ?h] h by (simp add: de_rec_len_def)
  show l: "unat (de_name_len (write_entry pos ino n name ft p) pos) = length name"
    using assms h [of "pos + 6"] by (simp add: de_name_len_def unat_of_nat)
  have "buf_bytes (write_entry pos ino n name ft p) (pos + 8) (length name) = name"
    unfolding write_entry_def by (rule buf_bytes_put)
  then show "de_entry (write_entry pos ino n name ft p) pos = (name, ino)"
    by (simp add: de_entry_def l i)
qed

lemma one_record:
  assumes "record_ok bs p pos" and "pos + 8 \<le> bs" and "dir_ok_from bs p (pos + unat (de_rec_len p pos))"
  shows "dir_ok_from bs p pos"
  using assms by (simp add: dir_ok_from.simps [of bs p pos])

text \<open>The new entry takes the place of a free record, or of the rest of a record.\<close>

lemma add_at_spec:
  assumes ok: "record_ok bs p pos" "pos + 8 \<le> bs" and rest: "dir_ok_from bs p (pos + unat (de_rec_len p pos))"
    and name: "length name < 256" and ino: "ino \<noteq> 0" and a: "add_at p name ino ft pos = Some p'"
  shows "dir_ok_from bs p' pos \<and> (\<forall>i. i < pos \<or> bs \<le> i \<longrightarrow> p' i = p i) \<and>
    entries_from bs p' pos = (if de_ino p pos \<noteq> 0 then [de_entry p pos] else []) @ (name, ino)
      # entries_from bs p (pos + unat (de_rec_len p pos))"
proof -
  let ?n = "unat (de_rec_len p pos)"
  let ?need = "ext4_dir_rec_len (of_nat (length name))"
  let ?act = "ext4_dir_rec_len (ucast (de_name_len p pos))"
  have n: "8 \<le> ?n" "pos + ?n \<le> bs" using ok(1) by (simp_all add: record_ok_def)
  note need = rec_len_bounds [OF name]
  have nl: "unat (de_name_len p pos) < 256" using unsigned_less [of "de_name_len p pos"] by simp
  have act: "unat (de_name_len p pos) + 8 \<le> unat ?act" "8 \<le> unat ?act"
    using rec_len_bounds [OF nl] by (simp_all only: ucast_as_nat)
  consider (free) "de_ino p pos = 0" "unat ?need \<le> ?n" "p' = write_entry pos ino (de_rec_len p pos) name ft p"
    | (split) "de_ino p pos \<noteq> 0" "unat ?act \<le> ?n" "unat ?need \<le> unat (de_rec_len p pos - ?act)"
        "p' = write_entry (pos + unat ?act) ino (de_rec_len p pos - ?act) name ft (wr_le16 (pos + 4) ?act p)"
    using a by (auto simp: add_at_def Let_def word_le_nat_alt split: if_splits)
  then show ?thesis
  proof cases
    case free
    note f = write_entry_fields [OF name, of pos ino "de_rec_len p pos" ft p, folded free(3)]
    have same: "p' i = p i" if "i < pos \<or> pos + ?n \<le> i" for i
      using that need(1) free(2) unfolding free(3) by (intro write_entry_other) linarith
    then have tl: "dir_ok_from bs p' (pos + ?n) \<and> entries_from bs p' (pos + ?n) = entries_from bs p (pos + ?n)"
      using from_cong [OF rest, of p'] by simp
    have r: "record_ok bs p' pos" using f n need free(2) by (simp add: record_ok_def)
    show ?thesis
      using same n tl f ino free(1) one_record [OF r ok(2)] by (simp add: entries_step [OF r ok(2)])
  next
    case split
    let ?q = "pos + unat ?act" and ?p1 = "wr_le16 (pos + 4) ?act p"
    let ?m = "unat (de_rec_len p pos - ?act)"
    have m: "?m = ?n - unat ?act" using split(2) by (simp add: unat_sub word_le_nat_alt)
    note f = write_entry_fields [OF name, of ?q ino "de_rec_len p pos - ?act" ft ?p1, folded split(4)]
    have below: "p' i = ?p1 i" if "i < ?q" for i
      using that unfolding split(4) by (intro write_entry_other) simp
    have same: "p' i = p i" if "i < pos \<or> pos + ?n \<le> i" for i
    proof -
      have "p' i = ?p1 i"
        using that need(1) split(2,3) m unfolding split(4) by (intro write_entry_other) linarith
      also have "?p1 i = p i" using that n by (intro wr_other) linarith
      finally show ?thesis .
    qed
    have tl: "dir_ok_from bs p' (pos + ?n) \<and> entries_from bs p' (pos + ?n) = entries_from bs p (pos + ?n)"
      using from_cong [OF rest, of p'] same by simp
    have q: "?q + ?m = pos + ?n" using m split(2) by simp
    have q8: "?q + 8 \<le> bs" using q n need(2) split(3) by linarith
    have rq: "record_ok bs p' ?q" using f n need split(3) q by (simp add: record_ok_def)
    have oq: "dir_ok_from bs p' ?q" using one_record [OF rq q8] tl f q by simp
    have eq: "entries_from bs p' ?q = (name, ino) # entries_from bs p (pos + ?n)"
      using entries_step [OF rq q8] f ino tl q by simp
    have h: "de_rec_len p' pos = ?act" "de_ino p' pos = de_ino p pos" "de_name_len p' pos = de_name_len p pos"
    proof -
      have "rd_le16 p' (pos + 4) = rd_le16 ?p1 (pos + 4)" using act(2) by (intro rd_cong) (simp add: below)
      then show "de_rec_len p' pos = ?act" by (simp add: de_rec_len_def)
      have "p' i = p i" if "pos \<le> i" "i < pos + 4" for i using that below [of i] act(2) by (simp add: wr_other)
      then show "de_ino p' pos = de_ino p pos" unfolding de_ino_def by (intro rd_cong) simp
      show "de_name_len p' pos = de_name_len p pos"
        using below [of "pos + 6"] act(2) by (simp add: de_name_len_def wr_other)
    qed
    have e: "de_entry p' pos = de_entry p pos"
    proof -
      have "p' (pos + 8 + i) = p (pos + 8 + i)" if "i < unat (de_name_len p pos)" for i
        using that below [of "pos + 8 + i"] act(1) by (simp add: wr_other)
      then show ?thesis by (simp add: de_entry_def h buf_bytes_def)
    qed
    have r: "record_ok bs p' pos" using act n split(2) by (simp add: record_ok_def h)
    show ?thesis
      using same n e eq split(1) one_record [OF r ok(2)] oq by (simp add: entries_step [OF r ok(2)] h)
  qed
qed

text \<open>A record in front of the place of the change.\<close>

lemma record_kept:
  assumes ok: "record_ok bs p pos" "pos + 8 \<le> bs" and tl: "dir_ok_from bs p' (pos + unat (de_rec_len p pos))"
    and same: "\<forall>i < pos + unat (de_rec_len p pos). p' i = p i"
  shows "dir_ok_from bs p' pos \<and> marked_from bs p' pos =
      (if de_ino p pos \<noteq> 0 then [(de_entry p pos, de_visible p pos)] else []) @
        marked_from bs p' (pos + unat (de_rec_len p pos)) \<and>
    entries_from bs p' pos =
    (if de_ino p pos \<noteq> 0 then [de_entry p pos] else []) @ entries_from bs p' (pos + unat (de_rec_len p pos))"
proof -
  have n: "8 \<le> unat (de_rec_len p pos)" using ok(1) by (simp add: record_ok_def)
  have h: "de_ino p' pos = de_ino p pos" "de_rec_len p' pos = de_rec_len p pos"
    "de_name_len p' pos = de_name_len p pos"
    using header_cong [of pos p' p] same n by simp_all
  have r: "record_ok bs p' pos" using ok(1) by (simp add: record_ok_def h)
  have "de_entry p' pos = de_entry p pos" if "de_ino p pos \<noteq> 0"
    using entry_cong [of pos "unat (de_rec_len p pos)" p' p] ok(1) that same by (simp add: record_ok_def h)
  then show ?thesis
    using one_record [OF r ok(2)] tl
    by (simp add: entries_step [OF r ok(2)] marked_step [OF r ok(2)] h de_visible_def)
qed

lemma add_from:
  assumes "dir_ok_from bs p pos" and "length name < 256" and "ino \<noteq> 0"
    and "dir_walk bs p (add_at p name ino ft) pos = Hit p'"
  shows "dir_ok_from bs p' pos \<and> (\<forall>i. i < pos \<or> bs \<le> i \<longrightarrow> p' i = p i) \<and>
    (\<exists>xs ys. entries_from bs p pos = xs @ ys \<and> entries_from bs p' pos = xs @ (name, ino) # ys)"
  using assms
proof (induction "bs - pos" arbitrary: pos rule: less_induct)
  case less
  have pos: "pos + 8 \<le> bs"
  proof (rule ccontr)
    assume "\<not> pos + 8 \<le> bs"
    then show False using less.prems(4) by (simp add: walk_end)
  qed
  note ok = dir_ok_step [OF less.prems(1) pos]
  let ?n = "unat (de_rec_len p pos)"
  let ?e = "if de_ino p pos \<noteq> 0 then [de_entry p pos] else []"
  have n: "8 \<le> ?n" "pos + ?n \<le> bs" using ok(1) by (simp_all add: record_ok_def)
  have dec: "bs - (pos + ?n) < bs - pos" using n pos by linarith
  show ?case
  proof (cases "add_at p name ino ft pos")
    case (Some r)
    then have "r = p'" using less.prems(4) walk_step [OF ok(1) pos, of "add_at p name ino ft"] by simp
    with Some add_at_spec [OF ok(1) pos ok(2) less.prems(2,3)] have
      "dir_ok_from bs p' pos \<and> (\<forall>i. i < pos \<or> bs \<le> i \<longrightarrow> p' i = p i) \<and>
       entries_from bs p' pos = ?e @ (name, ino) # entries_from bs p (pos + ?n)" by simp
    then show ?thesis using entries_step [OF ok(1) pos] by blast
  next
    case None
    then have "dir_walk bs p (add_at p name ino ft) (pos + ?n) = Hit p'"
      using less.prems(4) walk_step [OF ok(1) pos, of "add_at p name ino ft"] by simp
    then obtain xs ys where ih: "dir_ok_from bs p' (pos + ?n)" "\<forall>i. i < pos + ?n \<or> bs \<le> i \<longrightarrow> p' i = p i"
      "entries_from bs p (pos + ?n) = xs @ ys" "entries_from bs p' (pos + ?n) = xs @ (name, ino) # ys"
      using less.hyps [OF dec ok(2) less.prems(2,3)] by blast
    note kept = record_kept [OF ok(1) pos ih(1)]
    then show ?thesis using ih n
      by (intro conjI exI [of _ "?e @ xs"] exI [of _ ys]) (simp_all add: entries_step [OF ok(1) pos])
  qed
qed

subsection \<open>Removing\<close>

lemma remove_from:
  assumes "dir_ok_from bs p pos"
    and "dir_walk bs p (\<lambda>q. if de_matches p name q then Some (wr_le32 q 0 p, de_ino p q) else None) pos = Hit (p', ino)"
  shows "dir_ok_from bs p' pos \<and> (\<forall>i. i < pos \<or> bs \<le> i \<longrightarrow> p' i = p i) \<and>
    (\<exists>xs ys. marked_from bs p pos = xs @ ((name, ino), True) # ys \<and> marked_from bs p' pos = xs @ ys \<and>
      (\<forall>(e, v) \<in> set xs. \<not> (v \<and> fst e = name)))"
  using assms
proof (induction "bs - pos" arbitrary: pos rule: less_induct)
  case less
  let ?v = "\<lambda>q. if de_matches p name q then Some (wr_le32 q 0 p, de_ino p q) else None"
  have pos: "pos + 8 \<le> bs"
  proof (rule ccontr)
    assume "\<not> pos + 8 \<le> bs"
    then show False using less.prems(2) by (simp add: walk_end)
  qed
  note ok = dir_ok_step [OF less.prems(1) pos]
  let ?n = "unat (de_rec_len p pos)"
  let ?e = "if de_ino p pos \<noteq> 0 then [(de_entry p pos, de_visible p pos)] else []"
  have n: "8 \<le> ?n" "pos + ?n \<le> bs" using ok(1) by (simp_all add: record_ok_def)
  have dec: "bs - (pos + ?n) < bs - pos" using n pos by linarith
  show ?case
  proof (cases "de_matches p name pos")
    case True
    then have p': "p' = wr_le32 pos 0 p" and i: "ino = de_ino p pos"
      using less.prems(2) walk_step [OF ok(1) pos, of ?v] by simp_all
    have same: "p' j = p j" if "j < pos \<or> pos + 4 \<le> j" for j using that unfolding p' by (rule wr_other)
    have tl: "dir_ok_from bs p' (pos + ?n) \<and> marked_from bs p' (pos + ?n) = marked_from bs p (pos + ?n)"
      using from_cong [OF ok(2), of p'] same n by simp
    have h: "de_ino p' pos = 0" "de_rec_len p' pos = de_rec_len p pos"
      using rd_cong(2) [of "pos + 4" p' p] same by (simp_all add: de_ino_def de_rec_len_def p')
    have r: "record_ok bs p' pos" using n by (simp add: record_ok_def h)
    have "de_ino p pos \<noteq> 0" "de_entry p pos = (name, ino)" "de_visible p pos"
      using True i by (simp_all add: de_matches_entry de_entry_def)
    then show ?thesis
      using same n pos tl one_record [OF r pos]
      by (intro conjI exI [of _ "[]"] exI [of _ "marked_from bs p (pos + ?n)"])
        (simp_all add: marked_step [OF r pos] marked_step [OF ok(1) pos] h)
  next
    case False
    then have "dir_walk bs p ?v (pos + ?n) = Hit (p', ino)"
      using less.prems(2) walk_step [OF ok(1) pos, of ?v] by simp
    then obtain xs ys where ih: "dir_ok_from bs p' (pos + ?n)" "\<forall>i. i < pos + ?n \<or> bs \<le> i \<longrightarrow> p' i = p i"
      "marked_from bs p (pos + ?n) = xs @ ((name, ino), True) # ys" "marked_from bs p' (pos + ?n) = xs @ ys"
      "\<forall>(e, v) \<in> set xs. \<not> (v \<and> fst e = name)"
      using less.hyps [OF dec ok(2)] by blast
    note kept = record_kept [OF ok(1) pos ih(1)]
    have "\<not> (de_visible p pos \<and> fst (de_entry p pos) = name)" if "de_ino p pos \<noteq> 0"
      using False that by (simp add: de_matches_entry)
    then have "marked_from bs p pos = (?e @ xs) @ ((name, ino), True) # ys" "marked_from bs p' pos = (?e @ xs) @ ys"
      "\<forall>(e, v) \<in> set (?e @ xs). \<not> (v \<and> fst e = name)"
      using kept ih by (simp_all add: marked_step [OF ok(1) pos]) auto
    moreover have "dir_ok_from bs p' pos \<and> (\<forall>i. i < pos \<or> bs \<le> i \<longrightarrow> p' i = p i)" using kept ih(2) by simp
    ultimately show ?thesis by blast
  qed
qed

subsection \<open>The operations on a block\<close>

lemma walk_find:
  assumes "dir_ok_from bs p pos"
  shows "walk_hit (dir_walk bs p visit pos) = None \<longleftrightarrow> (\<forall>q \<in> set (dir_records bs p pos). visit q = None)"
  using assms
proof (induction "bs - pos" arbitrary: pos rule: less_induct)
  case less
  show ?case
  proof (cases "pos + 8 \<le> bs")
    case True
    note ok = dir_ok_step [OF less.prems True]
    have n: "8 \<le> unat (de_rec_len p pos)" "pos + unat (de_rec_len p pos) \<le> bs" using ok(1) by (simp_all add: record_ok_def)
    have "dir_records bs p pos = pos # dir_records bs p (pos + unat (de_rec_len p pos))"
      using n True by (simp add: dir_records.simps [of bs p pos] Let_def)
    then show ?thesis
      using less.hyps [OF _ ok(2)] n True
      by (cases "visit pos") (simp_all add: walk_step [OF ok(1) True] walk_hit_def)
  next
    case False
    then show ?thesis by (simp add: walk_end walk_hit_def dir_records.simps)
  qed
qed

text \<open>The room for a new entry in a record: all of a free one, what is behind the name of one in use.\<close>

definition name_room :: "nat \<Rightarrow> nat" where
  "name_room len = (11 + len) div 4 * 4"

definition de_room :: "buf \<Rightarrow> nat \<Rightarrow> nat" where
  "de_room p pos = (if de_ino p pos = 0 then unat (de_rec_len p pos)
     else unat (de_rec_len p pos) - name_room (unat (de_name_len p pos)))"

lemma add_at_room:
  assumes "length name < 256"
  shows "add_at p name ino ft pos = None \<longleftrightarrow> de_room p pos < name_room (length name)"
proof -
  let ?need = "ext4_dir_rec_len (of_nat (length name))" and ?act = "ext4_dir_rec_len (ucast (de_name_len p pos))"
  have need: "unat ?need = name_room (length name)" using unat_rec_len [OF assms] by (simp add: name_room_def)
  have "unat (de_name_len p pos) < 256" using unsigned_less [of "de_name_len p pos"] by simp
  then have act: "unat ?act = name_room (unat (de_name_len p pos))"
    unfolding ucast_as_nat name_room_def by (rule unat_rec_len)
  have pos: "8 \<le> name_room (length name)" unfolding name_room_def by linarith
  have sub: "unat (de_rec_len p pos - ?act) = unat (de_rec_len p pos) - unat ?act" if "unat ?act \<le> unat (de_rec_len p pos)"
    using that by (simp add: unat_sub word_le_nat_alt)
  have "add_at p name ino ft pos \<noteq> None \<longleftrightarrow> de_ino p pos = 0 \<and> unat ?need \<le> unat (de_rec_len p pos) \<or>
      de_ino p pos \<noteq> 0 \<and> unat ?act \<le> unat (de_rec_len p pos) \<and> unat ?need \<le> unat (de_rec_len p pos - ?act)"
    by (auto simp: add_at_def Let_def word_le_nat_alt)
  also have "\<dots> \<longleftrightarrow> name_room (length name) \<le> de_room p pos"
    using pos sub unfolding need act de_room_def by auto
  finally show ?thesis unfolding not_le [symmetric] by blast
qed

text \<open>C32. On a well-formed directory block, adding succeeds exactly if some record has room for the entry, and then
  inserts exactly one entry in the list of the block's entries. Removing succeeds exactly if an entry of that
  name can be found, and then deletes the first such entry and reports its inode. Finding gives the inode of
  the first such entry. Adding and removing keep all other entries in order and write nothing outside the block. (What
  can be found are the entries whose record passes the truncated length test.)\<close>

theorem directory_block_correct:
  assumes ok: "dir_ok bs p" and name: "name \<noteq> []" "length name \<le> EXT4_MAX_NAME" and child: "child \<noteq> 0"
  shows "(block_add bs p name child ft = None \<longleftrightarrow>
      (\<forall>q \<in> set (dir_records bs p 0). de_room p q < name_room (length name))) \<and>
    (\<forall>p'. block_add bs p name child ft = Some p' \<longrightarrow>
      dir_ok bs p' \<and> (\<forall>i \<ge> bs. p' i = p i) \<and>
      (\<exists>xs ys. dir_entries bs p = xs @ ys \<and> dir_entries bs p' = xs @ (name, child) # ys)) \<and>
    (block_remove bs p name = None \<longleftrightarrow> name \<notin> fst ` set (visible_entries bs p 0)) \<and>
    (\<forall>p' ino. block_remove bs p name = Some (p', ino) \<longrightarrow>
      dir_ok bs p' \<and> (\<forall>i \<ge> bs. p' i = p i) \<and>
      (\<exists>xs ys. marked_from bs p 0 = xs @ ((name, ino), True) # ys \<and> marked_from bs p' 0 = xs @ ys \<and>
         (\<forall>(e, v) \<in> set xs. \<not> (v \<and> fst e = name)))) \<and>
    block_lookup bs p name = map_of (visible_entries bs p 0) name \<and>
    dir_entries bs p = map fst (marked_from bs p 0) \<and>
    visible_entries bs p 0 = map fst (filter snd (marked_from bs p 0))"
proof -
  have len: "length name < 256" using name(2) by simp
  have hit: "walk_hit w = Some r \<longleftrightarrow> w = Hit r" for w :: "'r walk" and r by (cases w) (simp_all add: walk_hit_def)
  have ok0: "dir_ok_from bs p 0" using ok by (simp add: dir_ok_def)
  have "block_add bs p name child ft = None \<longleftrightarrow>
      (\<forall>q \<in> set (dir_records bs p 0). de_room p q < name_room (length name))"
    by (simp add: block_add_def walk_find [OF ok0] add_at_room [OF len])
  moreover have "dir_ok bs p' \<and> (\<forall>i \<ge> bs. p' i = p i) \<and>
      (\<exists>xs ys. dir_entries bs p = xs @ ys \<and> dir_entries bs p' = xs @ (name, child) # ys)"
    if "block_add bs p name child ft = Some p'" for p'
    using add_from [OF ok0 len child] that by (simp add: block_add_def hit dir_entries_def dir_ok_def)
  moreover have "block_remove bs p name = None \<longleftrightarrow> name \<notin> fst ` set (visible_entries bs p 0)"
    by (auto simp: block_remove_def walk_find [OF ok0] de_matches_entry visible_entries_def image_iff)
  moreover have "dir_ok bs p' \<and> (\<forall>i \<ge> bs. p' i = p i) \<and>
      (\<exists>xs ys. marked_from bs p 0 = xs @ ((name, ino), True) # ys \<and> marked_from bs p' 0 = xs @ ys \<and>
         (\<forall>(e, v) \<in> set xs. \<not> (v \<and> fst e = name)))"
    if "block_remove bs p name = Some (p', ino)" for p' ino
    using remove_from [OF ok0, of name p' ino] that by (simp add: block_remove_def hit dir_ok_def)
  moreover have "block_lookup bs p name = map_of (visible_entries bs p 0) name"
    unfolding block_lookup_def by (rule lookup_from [OF ok0])
  moreover have "visible_entries bs p 0 = map fst (filter snd (marked_from bs p 0))"
    by (simp add: visible_entries_def marked_from_def filter_map comp_def conj_commute)
  ultimately show ?thesis by (simp add: dir_entries_def entries_marked)
qed

text \<open>A block of 1024 bytes with \<open>.\<close>, \<open>..\<close> and one entry with a name of 213 bytes. The entry
  \<open>hello\<close> is added behind it, in a record of 776 bytes, and 776 - 8 is 0 as a byte.\<close>

definition long_name_block :: buf where
  "long_name_block = write_entry 24 3 1000 (replicate 213 0x61) 1 (write_entry 12 2 12 [0x2E, 0x2E] 2
     (write_entry 0 2 12 [0x2E] 2 (\<lambda>_. 0)))"

definition hello_block :: buf where
  "hello_block = the (block_add 1024 long_name_block [0x68, 0x65, 0x6C, 0x6C, 0x6F] 5 1)"

lemma long_name_ok: "dir_ok 1024 long_name_block"
  by code_simp

lemma hello_added: "block_add 1024 long_name_block [0x68, 0x65, 0x6C, 0x6C, 0x6F] 5 1 = Some hello_block"
proof -
  have "Option.is_none (block_add 1024 long_name_block [0x68, 0x65, 0x6C, 0x6C, 0x6F] 5 1) = False" by code_simp
  then show ?thesis unfolding hello_block_def by (simp add: Option.is_none_def)
qed

theorem directory_block_correct_witness:
  "dir_ok 1024 hello_block \<and> ([0x68, 0x65, 0x6C, 0x6C, 0x6F], 5) \<in> set (dir_entries 1024 hello_block) \<and>
   block_remove 1024 long_name_block [0x2E, 0x2E] \<noteq> None"
proof -
  have "dir_ok 1024 hello_block \<and> ([0x68, 0x65, 0x6C, 0x6C, 0x6F], 5) \<in> set (dir_entries 1024 hello_block)"
    using directory_block_correct [OF long_name_ok, of "[0x68, 0x65, 0x6C, 0x6C, 0x6F]" 5 1] hello_added
    by auto
  moreover have "[0x2E, 0x2E] \<in> fst ` set (visible_entries 1024 long_name_block 0)"
  proof -
    have "list_ex (\<lambda>e. fst e = [0x2E, 0x2E]) (visible_entries 1024 long_name_block 0)" by code_simp
    then show ?thesis by (force simp: list_ex_iff)
  qed
  ultimately show ?thesis
    using directory_block_correct [OF long_name_ok, of "[0x2E, 0x2E]" 5] by simp
qed

lemma added_entry_hidden:
  "block_add 1024 long_name_block [0x68, 0x65, 0x6C, 0x6C, 0x6F] 5 1 = Some hello_block \<and>
   block_lookup 1024 hello_block [0x68, 0x65, 0x6C, 0x6C, 0x6F] = None"
proof -
  have "block_lookup 1024 hello_block [0x68, 0x65, 0x6C, 0x6C, 0x6F] = None" by code_simp
  then show ?thesis using hello_added by simp
qed

end
