(* ===== verification/Ext4_Demo.thy ===== *)
theory Ext4_Demo
  imports Ext4_File
begin

text \<open>
  A small file system image, at which the properties of the driver are applied: 64 blocks of 1024
  bytes in one group, 16 inodes of 128 bytes. Block 1 is the superblock, 2 the group descriptors,
  3 and 4 the bit maps, 5 and 6 the inodes, 7 the root directory, 8 the only block of the file
  \<open>/f\<close> (inode 3, 600 bytes long).
\<close>

abbreviation zero_buf :: buf where "zero_buf \<equiv> (\<lambda>_. 0)"

definition demo_super :: buf where
  "demo_super = wr_le16 0x58 128 (wr_le16 0x38 0xEF53 (wr_le32 0x28 16 (wr_le32 0x20 64
     (wr_le32 0x14 1 (wr_le32 0x04 64 zero_buf)))))"

definition demo_group :: buf where
  "demo_group = wr_le32 8 5 (wr_le32 4 4 (wr_le32 0 3 zero_buf))"

definition demo_inode :: "u16 \<Rightarrow> u32 \<Rightarrow> u32 \<Rightarrow> nat \<Rightarrow> buf \<Rightarrow> buf" where
  "demo_inode mode size1 pblock o1 p =
     write_extent (o1 + 0x34) 0 pblock (wr_le16 (o1 + 0x2C) 4 (wr_le16 (o1 + 0x2A) 1
       (wr_le16 (o1 + 0x28) 0xF30A (wr_le32 (o1 + 0x20) 0x80000 (wr_le16 (o1 + 0x1A) 1
         (wr_le32 (o1 + 4) size1 (wr_le16 o1 mode p)))))))"

definition demo_root :: buf where
  "demo_root = write_entry 24 3 1000 [0x66] 1 (write_entry 12 2 12 [0x2E, 0x2E] 2
     (write_entry 0 2 12 [0x2E] 2 zero_buf))"

definition demo_block :: "nat \<Rightarrow> buf" where
  "demo_block b =
     (if b = 1 then demo_super
      else if b = 2 then demo_group
      else if b = 3 then zero_buf(0 := 0xFF)
      else if b = 4 then zero_buf(0 := 0x07)
      else if b = 5 then demo_inode 0x81A4 600 8 256 (demo_inode 0x41ED 1024 7 128 zero_buf)
      else if b = 7 then demo_root
      else if b = 8 then (\<lambda>i. if i < 600 then 0x61 else 0)
      else zero_buf)"

definition demo_sectors :: "u32 \<Rightarrow> buf" where
  "demo_sectors lba = (\<lambda>i. demo_block (unat (lba - 2048) div 2) (512 * (unat (lba - 2048) mod 2) + i))"

definition demo_disk :: ext4 where
  "demo_disk =
     \<lparr>g_ext4 = \<lparr>probe_done = False, mounted = False, block_size = 0, sectors_per_block = 0,
        blocks_count = 0, first_data_block = 0, blocks_per_group = 0, inodes_per_group = 0,
        inode_size = 0, group_count = 0, desc_size = 0, feature_incompat = 0\<rparr>,
      g_super = zero_buf, g_io_block = zero_buf, g_tree_block = zero_buf, g_inode_buf = zero_buf,
      g_desc_buf = zero_buf,
      g_block_cache = replicate 8 \<lparr>ce_valid = False, ce_fs_block = 0, ce_data = zero_buf\<rparr>,
      e_dev = \<lparr>dv_sectors = demo_sectors, dv_done = (\<lambda>_. None), dv_requests = 0\<rparr>\<rparr>"

definition demo_fs :: ext4 where
  "demo_fs = fst (ext4_try_probe_locked (fs_ext4_init demo_disk))"

definition demo_geometry :: ext4_state where
  "demo_geometry = \<lparr>probe_done = True, mounted = True, block_size = 1024, sectors_per_block = 2,
     blocks_count = 64, first_data_block = 1, blocks_per_group = 64, inodes_per_group = 16,
     inode_size = 128, group_count = 1, desc_size = 32, feature_incompat = 0\<rparr>"

lemmas bytes_defs = rd_le16_def rd_le32_def wr_le16_def wr_le32_def

lemma demo_super_read:
  "rd_le16 demo_super 0x38 = 0xEF53" "rd_le32 demo_super 0x18 = 0" "rd_le32 demo_super 0x14 = 1"
  "rd_le32 demo_super 0x20 = 64" "rd_le32 demo_super 0x28 = 16" "rd_le16 demo_super 0x58 = 128"
  "rd_le32 demo_super 0x60 = 0" "rd_le16 demo_super 0xFE = 0" "rd_le32 demo_super 0x04 = 64"
  "rd_le32 demo_super 0x150 = 0"
  by (simp_all add: demo_super_def bytes_defs)

text \<open>The superblock that the probe reads.\<close>

definition demo_super_read_buf :: buf where
  "demo_super_read_buf = (\<lambda>i. if i < 1024 then demo_sectors (2050 + of_nat (i div 512)) (i mod 512) else 0)"

lemma demo_super_low: "i < 512 \<Longrightarrow> demo_super_read_buf i = demo_super i"
  by (simp add: demo_super_read_buf_def demo_sectors_def demo_block_def)

lemma demo_super_fields:
  "i + 3 < 512 \<Longrightarrow> rd_le32 demo_super_read_buf i = rd_le32 demo_super i"
  "i + 1 < 512 \<Longrightarrow> rd_le16 demo_super_read_buf i = rd_le16 demo_super i"
  by (simp_all add: rd_le32_def rd_le16_def demo_super_low)

lemma demo_probe:
  "ext4_try_probe_locked (fs_ext4_init demo_disk) = (demo_fs, Inr ()) \<and> g_ext4 demo_fs = demo_geometry \<and>
   dv_sectors (e_dev demo_fs) = demo_sectors \<and> dv_done (e_dev demo_fs) = (\<lambda>_. None)"
proof -
  define s where "s = fs_ext4_init demo_disk"
  have s: "probe_done (g_ext4 s) = False" "feature_incompat (g_ext4 s) = 0"
    "e_dev s = \<lparr>dv_sectors = demo_sectors, dv_done = (\<lambda>_. None), dv_requests = 0\<rparr>"
    by (simp_all add: s_def fs_ext4_init_def ext4_block_cache_reset_def demo_disk_def)
  have "g_super s = zero_buf"
    by (simp add: s_def fs_ext4_init_def ext4_block_cache_reset_def demo_disk_def)
  then have "read_super s = (s\<lparr>e_dev := (e_dev s)\<lparr>dv_requests := 1\<rparr>, g_super := demo_super_read_buf\<rparr>, Inr ())"
    by (simp add: read_super_def blk_read_sectors_def dv_count_def s demo_super_read_buf_def cong: if_cong)
  moreover have "\<not> (64 :: u32) \<le> 1" by (simp add: word_le_nat_alt)
  ultimately show ?thesis
    unfolding demo_fs_def s_def [symmetric]
    by (simp add: ext4_try_probe_locked_def bnd_def gets_def on_err_def modify_def ret_def s
        demo_super_fields demo_super_read super_geometry_def probe_groups_def demo_geometry_def Let_def)
qed

end
