(* ===== verification/Ext4_Cache.thy ===== *)
theory Ext4_Cache
  imports Ext4_Demo
begin

text \<open>
  The block cache refines the disk: whatever sequence of blocks is read and written through it, and
  whichever requests fail, every read gives what a plain disk would give. A request that fails may
  have transferred any number of its sectors. A block that was written with success holds the bytes
  written; after a failed write each byte of the block is the old one or the new one, and since the
  driver keeps the old contents in the cache, two reads of the same byte may differ. So the plain
  disk gives, for each byte, the set of values that a read may return (\<open>may\<close>); \<open>within\<close> says that
  what is on the disk and in the cache is in these sets, and \<open>coherent\<close> that each is the one value on
  the disk. One condition is needed: the blocks lie in the file system and all its sectors have
  32-bit numbers (\<open>addressable\<close>); the driver does not check block numbers that it takes from the
  disk, and a number that is too large would alias another block's sectors.
\<close>

subsection \<open>Sectors of blocks\<close>

definition addressable :: "ext4_state \<Rightarrow> bool" where
  "addressable g \<longleftrightarrow> block_sizes (block_size g) \<and> sectors_per_block g = block_size g div 512 \<and>
     2048 + unat (blocks_count g) * unat (sectors_per_block g) \<le> 2 ^ 32"

text \<open>A device on which every request succeeds.\<close>

definition reliable :: "ext4 \<Rightarrow> bool" where
  "reliable s \<longleftrightarrow> (\<forall>k. dv_done (e_dev s) k = None)"

lemma reliable_cong: "dv_done (e_dev t) = dv_done (e_dev s) \<Longrightarrow> reliable t = reliable s"
  by (simp add: reliable_def)

definition disk_block :: "ext4 \<Rightarrow> u32 \<Rightarrow> buf" where
  "disk_block s b =
     (\<lambda>i. dv_sectors (e_dev s) (block_lba (g_ext4 s) b + of_nat (i div 512)) (i mod 512))"

lemma addressable_size: "addressable g \<Longrightarrow> unat (block_size g) = 512 * unat (sectors_per_block g)"
  by (auto simp: addressable_def block_sizes_def)

lemma addressable_spb: "addressable g \<Longrightarrow> 0 < unat (sectors_per_block g)"
  by (auto simp: addressable_def block_sizes_def)

lemma block_end:
  assumes "addressable g" and "b < blocks_count g"
  shows "2048 + unat b * unat (sectors_per_block g) + unat (sectors_per_block g) \<le> 2 ^ 32"
proof -
  have "unat b + 1 \<le> unat (blocks_count g)" using assms(2) by (simp add: word_less_nat_alt)
  then have "(unat b + 1) * unat (sectors_per_block g) \<le> unat (blocks_count g) * unat (sectors_per_block g)"
    by (rule mult_le_mono1)
  moreover have "2048 + unat (blocks_count g) * unat (sectors_per_block g) \<le> 2 ^ 32"
    using assms(1) unfolding addressable_def by blast
  ultimately show ?thesis unfolding distrib_right by linarith
qed

lemma unat_sector:
  assumes "addressable g" and "b < blocks_count g" and "j < unat (sectors_per_block g)"
  shows "unat (block_lba g b + of_nat j) = 2048 + unat b * unat (sectors_per_block g) + j"
proof -
  let ?n = "2048 + unat b * unat (sectors_per_block g) + j"
  have "?n < 2 ^ 32" using block_end [OF assms(1,2)] assms(3) by linarith
  moreover have "block_lba g b + of_nat j = of_nat ?n" by (simp add: block_lba_def)
  ultimately show ?thesis using unat_of_nat_u32 [of ?n] by (simp only:) simp
qed

text \<open>Which sectors a write to block \<open>b\<close> changes.\<close>

lemma sector_of_block:
  assumes g: "addressable g" and b: "b < blocks_count g" and b': "b' < blocks_count g"
    and j: "j < unat (sectors_per_block g)"
  shows "unat (block_lba g b' + of_nat j - block_lba g b) < unat (sectors_per_block g) \<longleftrightarrow> b' = b"
    and "b' = b \<Longrightarrow> unat (block_lba g b' + of_nat j - block_lba g b) = j"
proof -
  let ?k = "unat (sectors_per_block g)"
  let ?x = "block_lba g b' + of_nat j" and ?y = "block_lba g b"
  have x: "unat ?x = 2048 + unat b' * ?k + j" by (rule unat_sector [OF g b' j])
  have y: "unat ?y = 2048 + unat b * ?k"
    using unat_sector [OF g b, of 0] addressable_spb [OF g] by simp
  have jk: "j < 4294967296" using j unat_lt_u32 [of "sectors_per_block g"] by linarith
  show same: "unat (?x - ?y) = j" if "b' = b"
    using that jk by (simp add: unat_of_nat_u32)
  have "\<not> unat (?x - ?y) < ?k" if ne: "b' \<noteq> b"
  proof (cases "unat b < unat b'")
    case True
    then have "(unat b + 1) * ?k \<le> unat b' * ?k" by (intro mult_le_mono1) simp
    then have "?y \<le> ?x" and "?k \<le> unat ?x - unat ?y" using x y by (simp_all add: word_le_nat_alt algebra_simps)
    then show ?thesis by (simp add: unat_sub)
  next
    case False
    with ne have "unat b' < unat b" by (metis linorder_neqE_nat unsigned_word_eqI)
    then have "(unat b' + 1) * ?k \<le> unat b * ?k" by (intro mult_le_mono1) simp
    then have lt: "unat ?x < unat ?y" using x y j by (simp add: algebra_simps)
    then have "?x < ?y" by (simp add: word_less_nat_alt)
    then have "uint (?x - ?y) = uint ?x - uint ?y + 2 ^ 32"
      by (simp add: uint_sub_if' word_less_def)
    then have "int (unat (?x - ?y)) = int (unat ?x) - int (unat ?y) + 4294967296"
      by simp
    moreover have "unat ?y + ?k \<le> 4294967296" using block_end [OF g b] y by simp
    ultimately show ?thesis using x by linarith
  qed
  with same j show "unat (?x - ?y) < ?k \<longleftrightarrow> b' = b" by metis
qed

subsection \<open>Coherence\<close>

type_synonym may = "u32 \<Rightarrow> nat \<Rightarrow> u8 set"

definition entry_ok :: "ext4 \<Rightarrow> may \<Rightarrow> nat \<Rightarrow> ext4_block_cache_entry \<Rightarrow> bool" where
  "entry_ok s V k e \<longleftrightarrow> (ce_valid e \<longrightarrow>
     cache_slot (ce_fs_block e) = k \<and> ce_fs_block e < blocks_count (g_ext4 s) \<and>
     (\<forall>i < bsize s. ce_data e i \<in> V (ce_fs_block e) i))"

definition within :: "ext4 \<Rightarrow> may \<Rightarrow> bool" where
  "within s V \<longleftrightarrow> addressable (g_ext4 s) \<and> length (g_block_cache s) = 8 \<and>
     (\<forall>k < 8. entry_ok s V k (g_block_cache s ! k)) \<and>
     (\<forall>c < blocks_count (g_ext4 s). \<forall>i < bsize s. disk_block s c i \<in> V c i)"

definition on_disk :: "ext4 \<Rightarrow> may" where
  "on_disk s = (\<lambda>c i. {disk_block s c i})"

definition coherent :: "ext4 \<Rightarrow> bool" where
  "coherent s \<longleftrightarrow> within s (on_disk s)"

lemma on_disk_mem [simp]: "x \<in> on_disk s c i \<longleftrightarrow> x = disk_block s c i"
  by (simp add: on_disk_def)

lemma coherent_addressable: "coherent s \<Longrightarrow> addressable (g_ext4 s)"
  by (simp add: coherent_def within_def)

lemma cache_slot_less: "cache_slot b < 8"
  using unat_mono [of "b mod 8" 8] by (simp add: cache_slot_def word_mod_less_divisor)

lemma within_size_ok: "within s V \<Longrightarrow> block_size_ok s"
  by (auto simp: within_def addressable_def block_sizes_def block_size_ok_def)

lemma within_cong:
  assumes "within s V" and "g_ext4 s' = g_ext4 s" and "g_block_cache s' = g_block_cache s"
    and "dv_sectors (e_dev s') = dv_sectors (e_dev s)"
  shows "within s' V"
  using assms by (simp add: within_def entry_ok_def disk_block_def)

lemma within_mono:
  assumes "within s V" and "\<And>c i. c < blocks_count (g_ext4 s) \<Longrightarrow> i < bsize s \<Longrightarrow> V c i \<subseteq> W c i"
  shows "within s W"
  using assms unfolding within_def entry_ok_def by blast

lemma coherent_cong:
  assumes "coherent s" and "g_ext4 s' = g_ext4 s" and "g_block_cache s' = g_block_cache s"
    and "dv_sectors (e_dev s') = dv_sectors (e_dev s)"
  shows "coherent s'"
proof -
  have "on_disk s' = on_disk s" using assms by (simp add: on_disk_def disk_block_def fun_eq_iff)
  then show ?thesis using within_cong [of s "on_disk s" s'] assms by (simp add: coherent_def)
qed

lemma within_store:
  assumes s: "within s V" and b: "b < blocks_count (g_ext4 s)" and src: "\<forall>i < bsize s. src i \<in> V b i"
  shows "within (ext4_block_cache_store b src s) V"
  using s src b within_size_ok [OF s] cache_slot_less [of b]
  by (auto simp: within_def ext4_block_cache_store_def entry_ok_def disk_block_def nth_list_update
      mem_copy_u8_def)

lemma store_fields [simp]:
  "g_ext4 (ext4_block_cache_store b src s) = g_ext4 s"
  "e_dev (ext4_block_cache_store b src s) = e_dev s"
  "g_io_block (ext4_block_cache_store b src s) = g_io_block s"
  "g_tree_block (ext4_block_cache_store b src s) = g_tree_block s"
  "g_inode_buf (ext4_block_cache_store b src s) = g_inode_buf s"
  "g_desc_buf (ext4_block_cache_store b src s) = g_desc_buf s"
  "g_super (ext4_block_cache_store b src s) = g_super s"
  by (simp_all add: ext4_block_cache_store_def)

lemma set_block_buf_fields [simp]:
  "g_ext4 (set_block_buf d p s) = g_ext4 s"
  "e_dev (set_block_buf d p s) = e_dev s"
  "g_block_cache (set_block_buf d p s) = g_block_cache s"
  "g_inode_buf (set_block_buf d p s) = g_inode_buf s"
  "g_desc_buf (set_block_buf d p s) = g_desc_buf s"
  "get_block_buf d (set_block_buf d p s) = p"
  by (cases d; simp)+

lemma get_block_buf_store [simp]: "get_block_buf d (ext4_block_cache_store b src s) = get_block_buf d s"
  by (cases d) simp_all

lemma disk_block_cong:
  "g_ext4 s' = g_ext4 s \<Longrightarrow> dv_sectors (e_dev s') = dv_sectors (e_dev s) \<Longrightarrow> disk_block s' = disk_block s"
  by (simp add: disk_block_def fun_eq_iff)

lemma disk_block_buffers [simp]:
  "disk_block (set_block_buf d p s) = disk_block s"
  "disk_block (s\<lparr>e_dev := (e_dev s)\<lparr>dv_requests := n\<rparr>\<rparr>) = disk_block s"
  "disk_block (ext4_block_cache_store b src s) = disk_block s"
  by (rule disk_block_cong; simp)+

text \<open>What reading a block does: the destination holds the block, and nothing else that later
  operations look at changes.\<close>

definition same_disk :: "ext4 \<Rightarrow> ext4 \<Rightarrow> bool" where
  "same_disk s s' \<longleftrightarrow> g_ext4 s' = g_ext4 s \<and> disk_block s' = disk_block s \<and> g_inode_buf s' = g_inode_buf s \<and>
     dv_done (e_dev s') = dv_done (e_dev s)"

lemma read_block_spec:
  assumes s: "within s V" and b: "b < blocks_count (g_ext4 s)"
    and r: "ext4_read_block_locked b dst s = (s', r)"
  shows "within s' V \<and> same_disk s s' \<and> g_desc_buf s' = g_desc_buf s \<and>
    (dst = TREE_BLOCK \<longrightarrow> g_io_block s' = g_io_block s) \<and>
    (r = Inl FS_ERR_IO \<and> \<not> reliable s \<or> r = Inr () \<and> (\<forall>i < bsize s. get_block_buf dst s' i \<in> V b i))"
proof -
  have ok: "block_size_ok s" by (rule within_size_ok [OF s])
  have g: "addressable (g_ext4 s)" using s by (simp add: within_def)
  have io: "dst = TREE_BLOCK \<longrightarrow> g_io_block (set_block_buf dst p t) = g_io_block t" for p t by simp
  show ?thesis
  proof (cases "ext4_block_cache_read b (get_block_buf dst s) s")
    case (Some p)
    let ?e = "g_block_cache s ! cache_slot b"
    have e: "ce_valid ?e" "ce_fs_block ?e = b" "p = mem_copy_u8 (get_block_buf dst s) 0 (ce_data ?e) 0 (bsize s)"
      using Some ok by (auto simp: ext4_block_cache_read_def Let_def split: if_splits)
    have "entry_ok s V (cache_slot b) ?e" using s cache_slot_less [of b] by (simp add: within_def)
    with e have "\<forall>i < bsize s. p i \<in> V b i" by (simp add: entry_ok_def mem_copy_u8_def)
    moreover have "s' = set_block_buf dst p s" and "r = Inr ()"
      using r Some ok by (simp_all add: ext4_read_block_locked_def)
    ultimately show ?thesis
      using within_cong [OF s, of s'] io disk_block_cong [of s' s]
      by (simp add: same_disk_def del: set_block_buf.simps)
  next
    case None
    let ?n = "unat (sectors_per_block (g_ext4 s))"
    let ?c = "dv_count (e_dev s) (sectors_per_block (g_ext4 s))"
    let ?p = "\<lambda>i. if i < 512 * ?c then dv_sectors (e_dev s) (block_lba (g_ext4 s) b + of_nat (i div 512)) (i mod 512)
                  else get_block_buf dst s i"
    let ?t = "set_block_buf dst ?p (s\<lparr>e_dev := (e_dev s)\<lparr>dv_requests := dv_requests (e_dev s) + 1\<rparr>\<rparr>)"
    have t: "within ?t V" "same_disk s ?t" "g_desc_buf ?t = g_desc_buf s"
      "dst = TREE_BLOCK \<longrightarrow> g_io_block ?t = g_io_block s"
      using within_cong [OF s, of ?t] by (simp_all add: same_disk_def)
    have run: "ext4_read_block_locked b dst s =
        (if dv_done (e_dev s) (dv_requests (e_dev s)) \<noteq> None then (?t, Inl FS_ERR_IO)
         else (ext4_block_cache_store b ?p ?t, Inr ()))"
      using None ok by (simp add: ext4_read_block_locked_def blk_read_sectors_def Let_def)
    show ?thesis
    proof (cases "dv_done (e_dev s) (dv_requests (e_dev s)) = None")
      case False
      with run r t show ?thesis by (auto simp: reliable_def)
    next
      case True
      then have "?c = ?n" by (simp add: dv_count_def)
      then have "\<forall>i < bsize s. ?p i = disk_block s b i"
        by (simp add: addressable_size [OF g] disk_block_def)
      then have p: "\<forall>i < bsize s. ?p i \<in> V b i" using s b unfolding within_def by metis
      have "within (ext4_block_cache_store b ?p ?t) V"
        using p t(1,2) b by (intro within_store) (simp_all add: same_disk_def)
      with True run r t p show ?thesis by (auto simp: same_disk_def disk_block_def)
    qed
  qed
qed

text \<open>What writing a block does, if it succeeds and if it fails.\<close>

definition may_write :: "u32 \<Rightarrow> buf \<Rightarrow> bool \<Rightarrow> may \<Rightarrow> may" where
  "may_write b src ok V = V(b := \<lambda>i. if ok then {src i} else insert (src i) (V b i))"

lemma write_block_spec:
  assumes s: "within s V" and b: "b < blocks_count (g_ext4 s)"
    and r: "ext4_write_block_locked b src s = (s', r)"
  shows "g_ext4 s' = g_ext4 s \<and> g_io_block s' = g_io_block s \<and> g_inode_buf s' = g_inode_buf s \<and>
    dv_done (e_dev s') = dv_done (e_dev s) \<and>
    (r = Inl FS_ERR_IO \<and> \<not> reliable s \<and> within s' (may_write b src False V) \<and> g_block_cache s' = g_block_cache s \<and>
       (\<forall>c < blocks_count (g_ext4 s). \<forall>i < bsize s.
         disk_block s' c i = disk_block s c i \<or> c = b \<and> disk_block s' c i = src i) \<or>
     r = Inr () \<and> within s' (may_write b src True V) \<and> (\<forall>c < blocks_count (g_ext4 s). \<forall>i < bsize s.
       disk_block s' c i = (if c = b then src i else disk_block s c i)))"
proof -
  have ok: "block_size_ok s" by (rule within_size_ok [OF s])
  have g: "addressable (g_ext4 s)" using s by (simp add: within_def)
  let ?n = "unat (sectors_per_block (g_ext4 s))"
  let ?y = "block_lba (g_ext4 s) b"
  let ?c = "dv_count (e_dev s) (sectors_per_block (g_ext4 s))"
  let ?d = "(e_dev s)\<lparr>dv_requests := dv_requests (e_dev s) + 1,
      dv_sectors := \<lambda>x. if unat (x - ?y) < ?c then (\<lambda>i. src (512 * unat (x - ?y) + i)) else dv_sectors (e_dev s) x\<rparr>"
  let ?t = "s\<lparr>e_dev := ?d\<rparr>"
  have run: "ext4_write_block_locked b src s =
      (if dv_done (e_dev s) (dv_requests (e_dev s)) \<noteq> None then (?t, Inl FS_ERR_IO)
       else (ext4_block_cache_store b src ?t, Inr ()))"
    using ok by (simp add: ext4_write_block_locked_def blk_write_sectors_def Let_def)
  have le: "?c \<le> ?n" by (simp add: dv_count_def split: option.splits)
  have disk: "disk_block ?t a i = disk_block s a i \<or> a = b \<and> disk_block ?t a i = src i"
    and full: "?c = ?n \<Longrightarrow> disk_block ?t a i = (if a = b then src i else disk_block s a i)"
    if a: "a < blocks_count (g_ext4 s)" and i: "i < bsize s" for a i
  proof -
    have j: "i div 512 < ?n" using i addressable_size [OF g] by simp
    let ?x = "block_lba (g_ext4 s) a + of_nat (i div 512)"
    note sec = sector_of_block [OF g b a j]
    have v: "disk_block ?t a i = (if unat (?x - ?y) < ?c then src (512 * unat (?x - ?y) + i mod 512) else disk_block s a i)"
      by (simp add: disk_block_def)
    have e: "src (512 * unat (?x - ?y) + i mod 512) = src i" if "a = b" using sec(2) [OF that] by simp
    show "disk_block ?t a i = disk_block s a i \<or> a = b \<and> disk_block ?t a i = src i"
    proof (cases "unat (?x - ?y) < ?c")
      case True
      then have "a = b" using sec(1) le by simp
      then show ?thesis using v e True by simp
    next
      case False
      then show ?thesis unfolding v by simp
    qed
    show "disk_block ?t a i = (if a = b then src i else disk_block s a i)" if "?c = ?n"
    proof (cases "a = b")
      case True
      then show ?thesis using v e sec(1) that by simp
    next
      case False
      then have "\<not> unat (?x - ?y) < ?c" using sec(1) that by simp
      then show ?thesis unfolding v using False by simp
    qed
  qed
  show ?thesis
  proof (cases "dv_done (e_dev s) (dv_requests (e_dev s)) = None")
    case False
    have "within ?t (may_write b src False V)"
    proof -
      have "entry_ok ?t (may_write b src False V) k (g_block_cache ?t ! k)" if "k < 8" for k
        using s that by (auto simp: within_def entry_ok_def may_write_def)
      moreover have "disk_block ?t c i \<in> may_write b src False V c i" if "c < blocks_count (g_ext4 s)" "i < bsize s" for c i
        using disk [OF that] s that unfolding within_def may_write_def by auto
      ultimately show ?thesis using s unfolding within_def by simp
    qed
    then show ?thesis using False run r disk by (auto simp: reliable_def)
  next
    case True
    then have c: "?c = ?n" by (simp add: dv_count_def)
    let ?u = "ext4_block_cache_store b src ?t"
    have st: "disk_block ?u = disk_block ?t" by (rule disk_block_cong) simp_all
    have "entry_ok ?u (may_write b src True V) k (g_block_cache ?u ! k)" if k: "k < 8" for k
    proof -
      have len: "length (g_block_cache s) = 8" using s by (simp add: within_def)
      have old: "entry_ok s V k (g_block_cache s ! k)" using s k by (simp add: within_def)
      show ?thesis
      proof (cases "cache_slot b = k")
        case True
        then show ?thesis using len k ok b unfolding entry_ok_def
          by (simp add: ext4_block_cache_store_def block_size_ok_def mem_copy_u8_def may_write_def)
      next
        case False
        then have "g_block_cache ?u ! k = g_block_cache s ! k" by (simp add: ext4_block_cache_store_def)
        moreover have "ce_fs_block (g_block_cache s ! k) \<noteq> b"
          if "ce_valid (g_block_cache s ! k)" using old that False by (auto simp: entry_ok_def)
        ultimately show ?thesis using old unfolding entry_ok_def by (auto simp: may_write_def)
      qed
    qed
    moreover have "length (g_block_cache ?u) = 8" using s by (simp add: ext4_block_cache_store_def within_def)
    moreover have "disk_block ?u a i \<in> may_write b src True V a i" if "a < blocks_count (g_ext4 s)" "i < bsize s" for a i
      using full [OF that c] s that by (simp add: st within_def may_write_def)
    ultimately have "within ?u (may_write b src True V)" using g unfolding within_def by simp
    then show ?thesis using True run r full [OF _ _ c] by (auto simp: st)
  qed
qed

text \<open>The same for a coherent state: after a failed write the cache still has what was on the disk
  before.\<close>

definition before_or_now :: "ext4 \<Rightarrow> ext4 \<Rightarrow> may" where
  "before_or_now s s' = (\<lambda>c i. {disk_block s c i, disk_block s' c i})"

lemma write_coherent:
  assumes s: "coherent s" and b: "b < blocks_count (g_ext4 s)"
    and r: "ext4_write_block_locked b src s = (s', r)"
  shows "g_ext4 s' = g_ext4 s \<and> g_io_block s' = g_io_block s \<and> g_inode_buf s' = g_inode_buf s \<and>
    dv_done (e_dev s') = dv_done (e_dev s) \<and>
    (r = Inl FS_ERR_IO \<and> \<not> reliable s \<and> within s' (before_or_now s s') \<and>
       (\<forall>c < blocks_count (g_ext4 s). \<forall>i < bsize s.
         disk_block s' c i = disk_block s c i \<or> c = b \<and> disk_block s' c i = src i) \<or>
     r = Inr () \<and> coherent s' \<and> (\<forall>c < blocks_count (g_ext4 s). \<forall>i < bsize s.
       disk_block s' c i = (if c = b then src i else disk_block s c i)))"
proof -
  note w = write_block_spec [OF s [unfolded coherent_def] b r]
  then have g: "g_ext4 s' = g_ext4 s" by blast
  have "coherent s'" if ok: "r = Inr ()"
  proof -
    have d: "\<forall>c < blocks_count (g_ext4 s). \<forall>i < bsize s. disk_block s' c i = (if c = b then src i else disk_block s c i)"
      and wi: "within s' (may_write b src True (on_disk s))" using w ok by auto
    show ?thesis unfolding coherent_def
      by (rule within_mono [OF wi]) (use d in \<open>auto simp: g may_write_def\<close>)
  qed
  moreover have "within s' (before_or_now s s')" if "r = Inl FS_ERR_IO"
    using w that s by (auto simp: within_def coherent_def entry_ok_def before_or_now_def)
  ultimately show ?thesis using w by auto
qed

subsection \<open>Mounting\<close>

lemma init_mounts:
  assumes len: "length (g_block_cache s) = 8"
    and probe: "ext4_try_probe_locked (fs_ext4_init s) = (s', Inr ())"
  shows "block_sizes (block_size (g_ext4 s')) \<and>
    sectors_per_block (g_ext4 s') = block_size (g_ext4 s') div 512 \<and>
    length (g_block_cache s') = 8 \<and> (\<forall>e \<in> set (g_block_cache s'). \<not> ce_valid e)"
proof -
  let ?i = "fs_ext4_init s"
  obtain t where t: "read_super ?i = (t, Inr ())"
    using probe by (auto simp: ext4_try_probe_locked_def bnd_def gets_def on_err_def probe_failed_def
        fs_ext4_init_def ext4_block_cache_reset_def modify_def fail_def ret_def split: sum.splits prod.splits)
  have tf: "g_block_cache t = g_block_cache ?i"
    using t by (auto simp: read_super_def blk_read_sectors_def fs_ext4_init_def ext4_block_cache_reset_def
        split: if_splits)
  let ?p = "g_super t"
  have fin: "\<not> 2 < rd_le32 ?p 0x18" "g_block_cache s' = g_block_cache t" "e_dev s' = e_dev t"
    "block_size (g_ext4 s') = push_bit (unat (rd_le32 ?p 0x18)) 1024"
    "sectors_per_block (g_ext4 s') = block_size (g_ext4 s') div 512"
    using probe t by (auto simp: ext4_try_probe_locked_def bnd_def gets_def on_err_def probe_failed_def
        fs_ext4_init_def ext4_block_cache_reset_def modify_def fail_def ret_def super_geometry_def Let_def
        split: if_splits)
  have "unat (rd_le32 ?p 0x18) \<le> 2" using fin(1) by (simp add: word_less_nat_alt not_less)
  then consider "unat (rd_le32 ?p 0x18) = 0" | "unat (rd_le32 ?p 0x18) = 1" | "unat (rd_le32 ?p 0x18) = 2"
    by linarith
  then have "block_sizes (block_size (g_ext4 s'))"
    unfolding fin(4) block_sizes_def by cases simp_all
  moreover have "\<forall>e \<in> set (g_block_cache s'). \<not> ce_valid e" and "length (g_block_cache s') = 8"
    using len unfolding fin(2) tf by (auto simp: fs_ext4_init_def ext4_block_cache_reset_def)
  ultimately show ?thesis using fin tf by simp
qed

lemma mounted_coherent:
  assumes "length (g_block_cache s) = 8"
    and "ext4_try_probe_locked (fs_ext4_init s) = (s', Inr ())"
    and "2048 + unat (blocks_count (g_ext4 s')) * unat (sectors_per_block (g_ext4 s')) \<le> 2 ^ 32"
  shows "coherent s'"
  using init_mounts [OF assms(1,2)] assms(3) by (simp add: coherent_def within_def addressable_def entry_ok_def)

subsection \<open>Runs of block accesses\<close>

datatype block_op = Read_block u32 block_buf | Write_block u32 buf

text \<open>A run through the cache. The result of a read is the block's bytes.\<close>

primrec block_op_on :: "block_op \<Rightarrow> ext4 \<Rightarrow> ext4 \<times> (int + u8 list)" where
  "block_op_on (Read_block b dst) s =
     bnd (ext4_read_block_locked b dst) (\<lambda>_. gets (\<lambda>s. buf_bytes (get_block_buf dst s) 0 (bsize s))) s"
| "block_op_on (Write_block b src) s = bnd (ext4_write_block_locked b src) (\<lambda>_. ret []) s"

primrec block_run :: "block_op list \<Rightarrow> ext4 \<Rightarrow> ext4 \<times> (int + u8 list) list" where
  "block_run [] s = (s, [])"
| "block_run (x # xs) s =
     (case block_op_on x s of (s', r) \<Rightarrow> (case block_run xs s' of (s'', rs) \<Rightarrow> (s'', r # rs)))"

text \<open>What these results mean on a plain disk of blocks of \<open>bs\<close> bytes, if an access may fail only
  on a device that is not \<open>sound\<close>: a read returns values that the bytes may have and changes nothing,
  a successful write fixes the bytes of its block, and after a failed one each byte may also be the new
  one. \<open>None\<close> says that a plain disk cannot give these results.\<close>

definition disk_step :: "nat \<Rightarrow> bool \<Rightarrow> block_op \<Rightarrow> int + u8 list \<Rightarrow> may \<Rightarrow> may option" where
  "disk_step bs sound x r V = (case r of
     Inl e \<Rightarrow> if sound \<or> e \<noteq> FS_ERR_IO then None
             else Some (case x of Read_block b _ \<Rightarrow> V | Write_block b src \<Rightarrow> V(b := \<lambda>i. insert (src i) (V b i)))
   | Inr d \<Rightarrow> (case x of
         Read_block b _ \<Rightarrow> if length d = bs \<and> (\<forall>i < bs. d ! i \<in> V b i) then Some V else None
       | Write_block b src \<Rightarrow> if d = [] then Some (V(b := \<lambda>i. {src i})) else None))"

fun disk_run :: "nat \<Rightarrow> bool \<Rightarrow> block_op list \<Rightarrow> (int + u8 list) list \<Rightarrow> may \<Rightarrow> may option" where
  "disk_run bs sound [] [] V = Some V"
| "disk_run bs sound (x # xs) (r # rs) V =
     (case disk_step bs sound x r V of None \<Rightarrow> None | Some W \<Rightarrow> disk_run bs sound xs rs W)"
| "disk_run bs sound _ _ V = None"

primrec op_block :: "block_op \<Rightarrow> u32" where
  "op_block (Read_block b _) = b"
| "op_block (Write_block b _) = b"

lemma block_op_spec:
  assumes s: "within s V" and b: "op_block x < blocks_count (g_ext4 s)" and r: "block_op_on x s = (s', r)"
  shows "g_ext4 s' = g_ext4 s \<and> reliable s' = reliable s \<and>
    (\<exists>W. disk_step (bsize s) (reliable s) x r V = Some W \<and> within s' W)"
proof (cases x)
  case (Read_block c dst)
  obtain t q where t: "ext4_read_block_locked c dst s = (t, q)" by (cases "ext4_read_block_locked c dst s")
  note sp = read_block_spec [OF s _ t] and rel = reliable_cong [of t s] reliable_cong [of s' s]
  have len: "length (buf_bytes p 0 (bsize s)) = bsize s" for p by (simp add: buf_bytes_def)
  show ?thesis
  proof (cases q)
    case (Inl e)
    with Read_block sp rel t b r show ?thesis
      by (auto simp: bnd_def gets_def same_disk_def disk_step_def)
  next
    case (Inr u)
    with Read_block sp rel t b r len show ?thesis
      by (auto simp: bnd_def gets_def same_disk_def disk_step_def buf_bytes_def)
  qed
next
  case (Write_block c src)
  obtain t q where t: "ext4_write_block_locked c src s = (t, q)" by (cases "ext4_write_block_locked c src s")
  with Write_block write_block_spec [OF s _ t] reliable_cong [of t s] reliable_cong [of s' s] b r show ?thesis
    by (auto simp: bnd_def ret_def disk_step_def may_write_def split: sum.splits)
qed

lemma block_run_refines:
  assumes "within s V" and "\<forall>x \<in> set ops. op_block x < blocks_count (g_ext4 s)" and "block_run ops s = (s', rs)"
  shows "g_ext4 s' = g_ext4 s \<and> (\<exists>W. disk_run (bsize s) (reliable s) ops rs V = Some W \<and> within s' W)"
  using assms
proof (induction ops arbitrary: s V rs)
  case Nil
  then show ?case by simp
next
  case (Cons x xs)
  obtain t r where t: "block_op_on x s = (t, r)" by (cases "block_op_on x s")
  obtain rs' where run: "block_run xs t = (s', rs')" and rs: "rs = r # rs'"
    using Cons.prems(3) t by (auto split: prod.splits)
  have op: "op_block x < blocks_count (g_ext4 s)" using Cons.prems(2) by simp
  obtain U where u: "g_ext4 t = g_ext4 s" "reliable t = reliable s"
    "disk_step (bsize s) (reliable s) x r V = Some U" "within t U"
    using block_op_spec [OF Cons.prems(1) op t] by blast
  show ?case using Cons.IH [OF u(4) _ run] Cons.prems(2) u rs by simp
qed

text \<open>C30. From the mounting of a file system on, for any sequence of reads and writes of blocks of the
  file system through the cache, and whichever requests the device fails, after however many sectors:
  the results are ones that a plain disk gives that starts with what is on the disk, and what is then
  on the disk is what that plain disk may hold. A read returns the bytes of the last successful write
  to the block, except that a byte may be that of a failed write since; a failed access is reported as
  an I/O error, and there is none if the device fails no request. The file system's sectors must have
  32-bit numbers.\<close>

theorem block_cache_refines_disk:
  assumes "length (g_block_cache s0) = 8"
    and "ext4_try_probe_locked (fs_ext4_init s0) = (s, Inr ())"
    and "2048 + unat (blocks_count (g_ext4 s)) * unat (sectors_per_block (g_ext4 s)) \<le> 2 ^ 32"
    and "\<forall>x \<in> set ops. op_block x < blocks_count (g_ext4 s)"
    and "block_run ops s = (s', rs)"
  shows "\<exists>V. disk_run (bsize s) (reliable s) ops rs (\<lambda>b i. {disk_block s b i}) = Some V \<and>
    (\<forall>b < blocks_count (g_ext4 s). \<forall>i < bsize s. disk_block s' b i \<in> V b i)"
proof -
  note m = mounted_coherent [OF assms(1-3), unfolded coherent_def]
  obtain V where "g_ext4 s' = g_ext4 s" "disk_run (bsize s) (reliable s) ops rs (on_disk s) = Some V" "within s' V"
    using block_run_refines [OF m assms(4,5)] by blast
  then show ?thesis unfolding on_disk_def within_def by auto
qed

lemma demo_coherent: "coherent demo_fs"
  using mounted_coherent [OF _ conjunct1 [OF demo_probe]] demo_probe
  by (simp add: demo_disk_def demo_geometry_def)

theorem block_cache_refines_disk_witness:
  "let ops = [Write_block 9 demo_root, Read_block 17 IO_BLOCK, Read_block 9 TREE_BLOCK];
       rs = snd (block_run ops demo_fs) in
   \<exists>V. disk_run 1024 True ops rs (\<lambda>b i. {disk_block demo_fs b i}) = Some V \<and>
     (\<forall>b < 64. \<forall>i < 1024. disk_block (fst (block_run ops demo_fs)) b i \<in> V b i)"
proof -
  have "reliable demo_fs" using demo_probe by (simp add: reliable_def)
  then show ?thesis
    using block_cache_refines_disk [of demo_disk demo_fs
        "[Write_block 9 demo_root, Read_block 17 IO_BLOCK, Read_block 9 TREE_BLOCK]" _ _,
        OF _ conjunct1 [OF demo_probe] _ _ prod.collapse [symmetric]] demo_probe
    by (simp add: demo_disk_def demo_geometry_def Let_def del: block_run.simps disk_run.simps)
qed

end
