(* ===== verification/Ext4_Alloc.thy ===== *)
theory Ext4_Alloc
  imports Ext4_Cache
begin

text \<open>
  What the accesses to descriptors do to the disk, and the correctness of block allocation. The
  state of the allocator is on the disk: a block is in use if its bit is set in the bit map of its
  group (\<open>block_used\<close>), which the group's descriptor names (\<open>bitmap_of\<close>). \<open>groups_ok\<close> says that
  the descriptors and bit maps lie in the file system and do not overlap.
\<close>

subsection \<open>Reading structures\<close>

definition disk_span :: "ext4 \<Rightarrow> u32 \<Rightarrow> nat \<Rightarrow> buf" where
  "disk_span s b o1 = (\<lambda>i. disk_block s (b + of_nat ((o1 + i) div bsize s)) ((o1 + i) mod bsize s))"

lemma disk_span_cong: "same_disk s s' \<Longrightarrow> disk_span s' = disk_span s"
  by (simp add: same_disk_def disk_span_def fun_eq_iff)

text \<open>The part of a state that reading blocks leaves alone, when the bytes of a block may be those in
  \<open>V\<close>, and in a coherent state.\<close>

definition same_in :: "may \<Rightarrow> ext4 \<Rightarrow> ext4 \<Rightarrow> bool" where
  "same_in V s s' \<longleftrightarrow> within s' V \<and> g_ext4 s' = g_ext4 s \<and> disk_block s' = disk_block s \<and>
     dv_done (e_dev s') = dv_done (e_dev s)"

definition same_fs :: "ext4 \<Rightarrow> ext4 \<Rightarrow> bool" where
  "same_fs s s' \<longleftrightarrow> coherent s' \<and> g_ext4 s' = g_ext4 s \<and> disk_block s' = disk_block s \<and>
     dv_done (e_dev s') = dv_done (e_dev s)"

text \<open>A block whose contents are certain.\<close>

definition known :: "ext4 \<Rightarrow> may \<Rightarrow> u32 \<Rightarrow> bool" where
  "known s V b \<longleftrightarrow> (\<forall>i < bsize s. V b i \<subseteq> {disk_block s b i})"

lemma known_on_disk [simp]: "known s (on_disk s) b"
  by (simp add: known_def on_disk_def)

lemma known_cong: "same_in V s t \<Longrightarrow> known t W b = known s W b"
  by (simp add: known_def same_in_def)

lemma same_in_fs: "same_in (on_disk s) s t \<longleftrightarrow> same_fs s t"
proof -
  have "disk_block t = disk_block s \<Longrightarrow> on_disk t = on_disk s" by (simp add: on_disk_def)
  then show ?thesis by (auto simp: same_in_def same_fs_def coherent_def)
qed

lemma same_in_refl: "within s V \<Longrightarrow> same_in V s s"
  by (simp add: same_in_def)

lemma same_in_trans: "same_in V s t \<Longrightarrow> same_in V t u \<Longrightarrow> same_in V s u"
  by (simp add: same_in_def)

lemma same_in_span: "same_in V s t \<Longrightarrow> disk_span t = disk_span s"
  by (simp add: same_in_def disk_span_def fun_eq_iff)

lemma same_in_reliable: "same_in V s t \<Longrightarrow> reliable t = reliable s"
  by (simp add: same_in_def reliable_def)

lemma same_inD: "same_in V s t \<Longrightarrow> within t V"
  by (simp add: same_in_def)

lemma same_fs_refl: "coherent s \<Longrightarrow> same_fs s s"
  by (simp add: same_fs_def)

lemma same_fsD: "same_fs s t \<Longrightarrow> coherent t"
  by (simp add: same_fs_def)

lemma same_fs_trans: "same_fs s t \<Longrightarrow> same_fs t u \<Longrightarrow> same_fs s u"
  by (simp add: same_fs_def)

lemma same_fs_span: "same_fs s t \<Longrightarrow> disk_span t = disk_span s"
  by (simp add: same_fs_def disk_span_def fun_eq_iff)

lemma same_fs_reliable: "same_fs s t \<Longrightarrow> reliable t = reliable s"
  by (simp add: same_fs_def reliable_def)

lemma same_in_buffers:
  assumes "within t V"
  shows "same_in V t (t\<lparr>g_desc_buf := p\<rparr>)" "same_in V t (t\<lparr>g_inode_buf := p\<rparr>)"
    "same_in V t (t\<lparr>g_io_block := p\<rparr>)" "same_in V t (t\<lparr>g_tree_block := p\<rparr>)"
  unfolding same_in_def by (intro conjI within_cong [OF assms] disk_block_cong; simp)+

lemma same_fs_buffers:
  assumes "coherent t"
  shows "same_fs t (t\<lparr>g_desc_buf := p\<rparr>)" "same_fs t (t\<lparr>g_inode_buf := p\<rparr>)"
    "same_fs t (t\<lparr>g_io_block := p\<rparr>)" "same_fs t (t\<lparr>g_tree_block := p\<rparr>)"
  using same_in_buffers [OF assms [unfolded coherent_def]] unfolding same_in_fs by blast+

lemma read_io_in:
  assumes s: "within s V" and b: "b < blocks_count (g_ext4 s)"
  obtains (err) t where "ext4_read_block_locked b IO_BLOCK s = (t, Inl FS_ERR_IO)" "same_in V s t"
      "g_inode_buf t = g_inode_buf s" "g_desc_buf t = g_desc_buf s" "\<not> reliable s"
  | (ok) t where "ext4_read_block_locked b IO_BLOCK s = (t, Inr ())" "same_in V s t"
      "g_inode_buf t = g_inode_buf s" "g_desc_buf t = g_desc_buf s"
      "\<And>i. i < bsize s \<Longrightarrow> g_io_block t i \<in> V b i"
proof -
  obtain t r where t: "ext4_read_block_locked b IO_BLOCK s = (t, r)"
    by (cases "ext4_read_block_locked b IO_BLOCK s")
  show ?thesis using read_block_spec [OF s b t] t err ok by (auto simp: same_in_def same_disk_def)
qed

lemma read_io_block:
  assumes s: "coherent s" and b: "b < blocks_count (g_ext4 s)"
  obtains (err) t where "ext4_read_block_locked b IO_BLOCK s = (t, Inl FS_ERR_IO)" "same_fs s t"
      "g_inode_buf t = g_inode_buf s" "g_desc_buf t = g_desc_buf s" "\<not> reliable s"
  | (ok) t where "ext4_read_block_locked b IO_BLOCK s = (t, Inr ())" "same_fs s t"
      "g_inode_buf t = g_inode_buf s" "g_desc_buf t = g_desc_buf s"
      "\<And>i. i < bsize s \<Longrightarrow> g_io_block t i = disk_block s b i"
  using s [unfolded coherent_def] b
  by (cases rule: read_io_in) (auto simp: same_in_fs)

lemma io_simps:
  "bnd (ret x) f = f x" "bnd (modify h) k s = k () (h s)" "bnd (gets q) j s = j (q s) s"
  "ret y s = (s, Inr y)" "fail e s = (s, Inl e)" "modify h s = (h s, Inr ())" "gets q s = (s, Inr (q s))"
  by (simp_all add: bnd_def ret_def gets_def fail_def modify_def fun_eq_iff)

lemma bnd_step:
  "m s = (t, Inl e) \<Longrightarrow> bnd m f s = (t, Inl e)" "m s = (t, Inr x) \<Longrightarrow> bnd m f s = f x t"
  by (simp_all add: bnd_def)

lemma or_err_step:
  "m s = (t, Inl e) \<Longrightarrow> or_err e' m s = (t, Inl e')" "m s = (t, Inr x) \<Longrightarrow> or_err e' m s = (t, Inr x)"
  by (simp_all add: or_err_def on_err_def fail_def)

lemma second_block: "k < B \<Longrightarrow> (B + k) div B = 1 \<and> (B + k) mod B = (k :: nat)"
  by (simp add: div_add_self1)

lemma read_spanning_spec:
  assumes s: "within s V" and b: "b < blocks_count (g_ext4 s)" "known s V b"
    and b1: "unat off + unat n > bsize s \<Longrightarrow> b + 1 < blocks_count (g_ext4 s) \<and> known s V (b + 1)"
    and off: "unat off < bsize s" and n: "unat n \<le> 1024"
    and put: "\<And>p t. within t V \<Longrightarrow> same_in V t (put p t)" "\<And>p t. g_io_block (put p t) = g_io_block t"
      "\<And>p t. get (put p t) = p"
    and keep: "\<And>t u. g_inode_buf u = g_inode_buf t \<Longrightarrow> g_desc_buf u = g_desc_buf t \<Longrightarrow> get u = get t"
    and r: "read_spanning b off n get put s = (s', r)"
  shows "same_in V s s' \<and> (r = Inl FS_ERR_IO \<and> \<not> reliable s \<or> r = Inr () \<and> (\<forall>i < unat n. get s' i = disk_span s b (unat off) i))"
proof -
  let ?bs = "bsize s"
  have bs: "1024 \<le> ?bs" "?bs \<le> 4096" using s by (auto simp: within_def addressable_def block_sizes_def)
  have cmp: "off + n \<le> block_size (g_ext4 s) \<longleftrightarrow> unat off + unat n \<le> ?bs"
    using off n bs by (simp add: word_le_nat_alt unat_word_ariths)
  have rest: "unat (block_size (g_ext4 s) - off) = ?bs - unat off"
    using off by (simp add: unat_sub word_le_nat_alt)
  show ?thesis
    using s b(1)
  proof (cases rule: read_io_in)
    case err
    then show ?thesis using r by (simp add: read_spanning_def bnd_step or_err_step)
  next
    case (ok t)
    have g: "g_ext4 t = g_ext4 s" using ok by (simp add: same_in_def)
    have e0: "g_io_block t i = disk_block s b i" if "i < ?bs" for i
      using ok(5) [OF that] b(2) that by (auto simp: known_def)
    show ?thesis
    proof (cases "unat off + unat n \<le> ?bs")
      case True
      let ?p = "mem_copy_u8 (get t) 0 (g_io_block t) (unat off) (unat n)"
      have "(s', r) = (put ?p t, Inr ())"
        using r ok True cmp by (simp add: read_spanning_def bnd_step or_err_step io_simps g)
      moreover have "same_in V s (put ?p t)"
        using ok(2) put(1) by (blast intro: same_in_trans same_inD)
      moreover have "\<forall>i < unat n. ?p i = disk_span s b (unat off) i"
        using e0 True by (auto simp: mem_copy_u8_def disk_span_def)
      ultimately show ?thesis using put(3) by simp
    next
      case False
      let ?f = "?bs - unat off"
      let ?p = "mem_copy_u8 (get t) 0 (g_io_block t) (unat off) ?f"
      let ?t = "put ?p t"
      have t: "same_in V s ?t"
        using ok(2) put(1) by (blast intro: same_in_trans same_inD)
      then have ct: "within ?t V" "b + 1 < blocks_count (g_ext4 ?t)" using b1 False by (simp_all add: same_in_def)
      have run: "read_spanning b off n get put s =
          bnd (or_err FS_ERR_IO (ext4_read_block_locked (b + 1) IO_BLOCK)) (\<lambda>_.
            modify (\<lambda>u. put (mem_copy_u8 (get u) ?f (g_io_block u) 0 (unat n - ?f)) u)) ?t"
        using ok False cmp rest by (simp add: read_spanning_def bnd_step or_err_step io_simps g)
      show ?thesis
        using ct
      proof (cases rule: read_io_in)
        case err
        then show ?thesis using r run t same_in_reliable [OF t]
          by (auto simp: bnd_step or_err_step intro: same_in_trans)
      next
        case u: (ok u)
        let ?q = "mem_copy_u8 (get u) ?f (g_io_block u) 0 (unat n - ?f)"
        have gu: "get u = ?p" using keep [OF u(3,4)] put(3) by simp
        have e1: "g_io_block u i = disk_block s (b + 1) i" if "i < ?bs" for i
          using u(5) [of i] t b1 False that by (auto simp: known_def same_in_def)
        have "(s', r) = (put ?q u, Inr ())"
          using r run u(1) by (simp add: bnd_step or_err_step io_simps)
        moreover have "same_in V s (put ?q u)"
          using t u(2) put(1) by (blast intro: same_in_trans same_inD)
        moreover have "?q i = disk_span s b (unat off) i" if i: "i < unat n" for i
        proof (cases "i < ?f")
          case True
          then show ?thesis using e0 gu off by (auto simp: mem_copy_u8_def disk_span_def)
        next
          case False
          have x: "unat off + i = ?bs + (i - ?f)" "i - ?f < ?bs" "0 < ?bs"
            using False off i n bs by linarith+
          have "(unat off + i) div ?bs = 1" "(unat off + i) mod ?bs = i - ?f"
            unfolding x(1) using second_block [OF x(2)] by simp_all
          then show ?thesis using e1 False i n bs by (auto simp: mem_copy_u8_def disk_span_def)
        qed
        ultimately show ?thesis using put(3) by simp
      qed
    qed
  qed
qed

subsection \<open>Descriptors and bit maps on the disk\<close>

definition gdt_block :: "ext4_state \<Rightarrow> u32" where
  "gdt_block g = (if block_size g = 1024 then 2 else 1)"

definition desc_of :: "ext4 \<Rightarrow> nat \<Rightarrow> buf" where
  "desc_of s k = disk_span s (gdt_block (g_ext4 s)) (k * unat (desc_size (g_ext4 s)))"

definition bitmap_of :: "ext4 \<Rightarrow> nat \<Rightarrow> u32" where
  "bitmap_of s k = rd_le32 (desc_of s k) 0"

definition inode_table_of :: "ext4 \<Rightarrow> nat \<Rightarrow> u32" where
  "inode_table_of s k = rd_le32 (desc_of s k) 8"

text \<open>The blocks that hold the descriptors.\<close>

definition gdt_end :: "ext4_state \<Rightarrow> nat" where
  "gdt_end g = unat (gdt_block g) + (unat (group_count g) * unat (desc_size g)) div unat (block_size g) + 1"

definition groups_ok :: "ext4 \<Rightarrow> bool" where
  "groups_ok s \<longleftrightarrow> (let g = g_ext4 s in
     32 \<le> unat (desc_size g) \<and> unat (desc_size g) \<le> 64 \<and>
     unat (group_count g) * unat (desc_size g) < 2 ^ 31 \<and> gdt_end g \<le> unat (blocks_count g) \<and>
     0 < blocks_per_group g \<and> unat (blocks_per_group g) \<le> 8 * bsize s \<and>
     first_data_block g < blocks_count g \<and>
     unat (blocks_count g) - unat (first_data_block g) \<le> unat (group_count g) * unat (blocks_per_group g) \<and>
     unat (group_count g) * unat (blocks_per_group g) <
       unat (blocks_count g) - unat (first_data_block g) + unat (blocks_per_group g) \<and>
     (\<forall>k < unat (group_count g). gdt_end g \<le> unat (bitmap_of s k) \<and> bitmap_of s k < blocks_count g) \<and>
     (\<forall>k < unat (group_count g). \<forall>j < unat (group_count g). bitmap_of s k = bitmap_of s j \<longrightarrow> k = j))"

lemma groups_ok_cong: "same_fs s t \<Longrightarrow> groups_ok t = groups_ok s"
  by (simp add: groups_ok_def bitmap_of_def desc_of_def disk_span_def same_fs_def)

lemma disk_span_shift:
  assumes "0 < bsize s"
  shows "disk_span s (b + of_nat (o1 div bsize s)) (o1 mod bsize s) = disk_span s b o1"
proof
  fix i
  have "o1 div bsize s + (o1 mod bsize s + i) div bsize s = (o1 + i) div bsize s"
  proof -
    have "(o1 div bsize s * bsize s + (o1 mod bsize s + i)) div bsize s =
        o1 div bsize s + (o1 mod bsize s + i) div bsize s"
      using assms by (subst div_mult_self3) auto
    then show ?thesis unfolding add.assoc [symmetric] div_mult_mod_eq by (rule sym)
  qed
  then have "b + of_nat (o1 div bsize s) + of_nat ((o1 mod bsize s + i) div bsize s) =
      (b + of_nat ((o1 + i) div bsize s) :: u32)"
    unfolding add.assoc of_nat_add [symmetric] by simp
  moreover have "(o1 mod bsize s + i) mod bsize s = (o1 + i) mod bsize s" by (rule mod_add_left_eq)
  ultimately show "disk_span s (b + of_nat (o1 div bsize s)) (o1 mod bsize s) i = disk_span s b o1 i"
    by (simp only: disk_span_def)
qed

lemma rd_le32_cong: "\<forall>i < n. p i = q i \<Longrightarrow> k + 3 < n \<Longrightarrow> rd_le32 p k = rd_le32 q k"
  by (simp add: rd_le32_def)

lemma read_desc_in:
  assumes s: "within s V" and gdt: "\<forall>c. unat c < gdt_end (g_ext4 s) \<longrightarrow> known s V c"
    and ok: "groups_ok s" and k: "unat grp < unat (group_count (g_ext4 s))"
    and r: "ext4_read_group_desc_locked grp s = (s', r)"
  shows "same_in V s s' \<and> (case r of Inl _ \<Rightarrow> reliable s \<longrightarrow> feature_incompat (g_ext4 s) AND EXT4_INCOMPAT_64BIT \<noteq> 0
    | Inr gd \<Rightarrow> gd_block_bitmap gd = bitmap_of s (unat grp) \<and> gd_inode_table gd = inode_table_of s (unat grp))"
proof -
  let ?g = "g_ext4 s"
  let ?ds = "unat (desc_size ?g)" and ?bs = "bsize s"
  have bs: "1024 \<le> ?bs" "?bs \<le> 4096" using s by (auto simp: within_def addressable_def block_sizes_def)
  have o: "32 \<le> ?ds" "?ds \<le> 64" "unat (group_count ?g) * ?ds < 2 ^ 31" "gdt_end ?g \<le> unat (blocks_count ?g)"
    using ok by (simp_all add: groups_ok_def Let_def)
  have le: "(unat grp + 1) * ?ds \<le> unat (group_count ?g) * ?ds" using k by (intro mult_le_mono1) simp
  then have mul: "unat (grp * desc_size ?g) = unat grp * ?ds"
    using o(3) by (simp add: unat_word_ariths)
  let ?off = "unat grp * ?ds"
  let ?b = "gdt_block ?g + (grp * desc_size ?g) div block_size ?g"
  have div: "(grp * desc_size ?g) div block_size ?g = of_nat (?off div ?bs)"
  proof -
    have "(grp * desc_size ?g) div block_size ?g = of_nat (unat ((grp * desc_size ?g) div block_size ?g))" by simp
    then show ?thesis unfolding unat_div mul .
  qed
  have "(?off + ?ds) div ?bs \<le> (unat (group_count ?g) * ?ds) div ?bs" using le by (intro div_le_mono) simp
  moreover have "?off div ?bs \<le> (?off + ?ds) div ?bs" by (intro div_le_mono) simp
  ultimately have room: "unat (gdt_block ?g) + (?off + ?ds) div ?bs < unat (blocks_count ?g)"
    "unat (gdt_block ?g) + ?off div ?bs < unat (blocks_count ?g)"
    using o(4) by (simp_all add: gdt_end_def)
  have ub: "unat ?b = unat (gdt_block ?g) + ?off div ?bs"
    using room(2) unat_lt_u32 [of "blocks_count ?g"] unfolding div
    by (simp add: unat_word_ariths unat_of_nat)
  have b: "?b < blocks_count ?g" using ub room(2) by (simp add: word_less_nat_alt)
  have "?off \<le> unat (group_count ?g) * ?ds" using le unfolding distrib_right by linarith
  then have "?off div ?bs \<le> (unat (group_count ?g) * ?ds) div ?bs" by (rule div_le_mono)
  then have kb: "known s V ?b" using gdt ub by (simp add: gdt_end_def)
  have off: "unat ((grp * desc_size ?g) mod block_size ?g) = ?off mod ?bs" by (simp add: unat_mod mul)
  have b1: "?b + 1 < blocks_count ?g \<and> known s V (?b + 1)" if "?off mod ?bs + ?ds > ?bs"
  proof -
    have "?off + ?ds = ?off div ?bs * ?bs + (?off mod ?bs + ?ds)" by simp
    then have "(?off div ?bs + 1) * ?bs \<le> ?off + ?ds" using that unfolding distrib_right by linarith
    then have "?off div ?bs + 1 \<le> (?off + ?ds) div ?bs" using bs by (simp add: less_eq_div_iff_mult_less_eq)
    then have lt: "unat ?b + 1 < unat (blocks_count ?g)"
      and "unat ?b + 1 \<le> unat (gdt_block ?g) + (?off + ?ds) div ?bs" using room(1) ub by linarith+
    moreover have "(?off + ?ds) div ?bs \<le> (unat (group_count ?g) * ?ds) div ?bs" using le by (intro div_le_mono) simp
    ultimately have "unat ?b + 1 < gdt_end ?g" by (simp add: gdt_end_def)
    moreover have "unat (?b + 1) = unat ?b + 1"
      using lt unat_inc [of ?b "unat (blocks_count ?g)"] unat_lt_u32 [of "blocks_count ?g"] by simp
    ultimately show ?thesis using lt gdt by (simp add: word_less_nat_alt)
  qed
  obtain t q where t: "read_spanning ?b ((grp * desc_size ?g) mod block_size ?g) (desc_size ?g) g_desc_buf
      (\<lambda>p s. s\<lparr>g_desc_buf := p\<rparr>) s = (t, q)"
    by (cases "read_spanning ?b ((grp * desc_size ?g) mod block_size ?g) (desc_size ?g) g_desc_buf
      (\<lambda>p s. s\<lparr>g_desc_buf := p\<rparr>) s")
  have spec: "same_in V s t \<and> (q = Inl FS_ERR_IO \<and> \<not> reliable s \<or>
      q = Inr () \<and> (\<forall>i < ?ds. g_desc_buf t i = disk_span s ?b (?off mod ?bs) i))"
    using read_spanning_spec [OF s b kb _ _ _ _ _ _ _ t] b1 off bs o
    by (simp add: same_in_buffers)
  have span: "disk_span s ?b (?off mod ?bs) = desc_of s (unat grp)"
    unfolding div desc_of_def using bs by (intro disk_span_shift) simp
  have run: "ext4_read_group_desc_locked grp s =
      bnd (read_spanning ?b ((grp * desc_size ?g) mod block_size ?g) (desc_size ?g) g_desc_buf
        (\<lambda>p s. s\<lparr>g_desc_buf := p\<rparr>)) (\<lambda>_. bnd (gets g_desc_buf) (\<lambda>d.
        if feature_incompat ?g AND EXT4_INCOMPAT_64BIT \<noteq> 0 \<and> desc_size ?g \<ge> 64 \<and>
           (rd_le32 d 0x20 \<noteq> 0 \<or> rd_le32 d 0x28 \<noteq> 0) then fail FS_ERR_NOSYS
        else ret \<lparr>gd_block_bitmap = rd_le32 d 0, gd_inode_bitmap = rd_le32 d 4, gd_inode_table = rd_le32 d 8\<rparr>)) s"
    using k o by (simp add: ext4_read_group_desc_locked_def io_simps Let_def gdt_block_def word_le_nat_alt
        word_less_nat_alt not_le)
  show ?thesis
  proof (cases "q = Inr ()")
    case True
    then have "rd_le32 (g_desc_buf t) 0 = bitmap_of s (unat grp)"
      and "rd_le32 (g_desc_buf t) 8 = inode_table_of s (unat grp)"
      using spec span o rd_le32_cong [of ?ds "g_desc_buf t" "desc_of s (unat grp)" 0]
        rd_le32_cong [of ?ds "g_desc_buf t" "desc_of s (unat grp)" 8]
      by (simp_all add: bitmap_of_def inode_table_of_def)
    with True spec r run t show ?thesis by (auto simp: bnd_step io_simps split: if_splits)
  next
    case False
    with spec r run t show ?thesis by (auto simp: bnd_step)
  qed
qed

lemma read_desc_spec:
  assumes s: "coherent s" and ok: "groups_ok s" and k: "unat grp < unat (group_count (g_ext4 s))"
    and r: "ext4_read_group_desc_locked grp s = (s', r)"
  shows "same_fs s s' \<and> (case r of Inl _ \<Rightarrow> reliable s \<longrightarrow> feature_incompat (g_ext4 s) AND EXT4_INCOMPAT_64BIT \<noteq> 0
    | Inr gd \<Rightarrow> gd_block_bitmap gd = bitmap_of s (unat grp) \<and> gd_inode_table gd = inode_table_of s (unat grp))"
  using read_desc_in [OF s [unfolded coherent_def] _ ok k r] by (simp add: same_in_fs)

subsection \<open>Bits of a map\<close>

lemma bit_mask_eq: "bit_mask b = push_bit (b mod 8) 1"
proof -
  have "b AND 7 = take_bit 3 b" by (simp add: take_bit_eq_mask mask_eq_exp_minus_1)
  then show ?thesis by (simp add: bit_mask_def take_bit_eq_mod)
qed

lemma bit_set_iff: "bit_set p b \<longleftrightarrow> bit (p (b div 8)) (b mod 8)"
  by (simp add: bit_set_def bit_mask_eq bit_iff_and_push_bit_not_eq_0)

lemma bit_set_set: "bit_set (set_bit_in b p) c \<longleftrightarrow> c = b \<or> bit_set p c"
proof -
  have "c = b" if "c div 8 = b div 8" "c mod 8 = b mod 8" using that by (metis div_mult_mod_eq)
  then show ?thesis
    unfolding bit_set_iff set_bit_in_def bit_mask_eq by (auto simp: bit_or_iff bit_exp_iff possible_bit_def)
qed

lemma bit_set_cong: "p (b div 8) = q (b div 8) \<Longrightarrow> bit_set p b = bit_set q b"
  by (simp add: bit_set_def)

lemma first_clear_Some:
  "first_clear p bs n = Some b \<Longrightarrow> b < n \<and> b div 8 < bs \<and> \<not> bit_set p b"
  unfolding first_clear_def using find_upt_Some [of _ 0 "min n (8 * bs)" b] by auto

subsection \<open>Allocating a block\<close>

definition data_block :: "ext4 \<Rightarrow> u32 \<Rightarrow> bool" where
  "data_block s q \<longleftrightarrow> first_data_block (g_ext4 s) \<le> q \<and> q < blocks_count (g_ext4 s)"

definition block_group :: "ext4 \<Rightarrow> u32 \<Rightarrow> nat" where
  "block_group s q = (unat q - unat (first_data_block (g_ext4 s))) div unat (blocks_per_group (g_ext4 s))"

definition block_index :: "ext4 \<Rightarrow> u32 \<Rightarrow> nat" where
  "block_index s q = (unat q - unat (first_data_block (g_ext4 s))) mod unat (blocks_per_group (g_ext4 s))"

definition block_used :: "ext4 \<Rightarrow> u32 \<Rightarrow> bool" where
  "block_used s q \<longleftrightarrow> bit_set (disk_block s (bitmap_of s (block_group s q))) (block_index s q)"

text \<open>The effect of taking bit \<open>b\<close> of the map in block \<open>m\<close> on the disk, with a device that carries
  it out, and with one that fails the write after some of its sectors.\<close>

definition bit_taken :: "ext4 \<Rightarrow> ext4 \<Rightarrow> u32 \<Rightarrow> nat \<Rightarrow> bool" where
  "bit_taken s s' m b \<longleftrightarrow> g_ext4 s' = g_ext4 s \<and>
     (\<forall>c < blocks_count (g_ext4 s). \<forall>i < bsize s.
        disk_block s' c i = (if c = m then set_bit_in b (disk_block s m) i else disk_block s c i))"

definition took_bit :: "ext4 \<Rightarrow> ext4 \<Rightarrow> u32 \<Rightarrow> nat \<Rightarrow> bool" where
  "took_bit s s' m b \<longleftrightarrow> coherent s' \<and> dv_done (e_dev s') = dv_done (e_dev s) \<and> bit_taken s s' m b"

definition half_taken :: "ext4 \<Rightarrow> ext4 \<Rightarrow> u32 \<Rightarrow> nat \<Rightarrow> bool" where
  "half_taken s s' m b \<longleftrightarrow> \<not> reliable s \<and> within s' (before_or_now s s') \<and> g_ext4 s' = g_ext4 s \<and>
     dv_done (e_dev s') = dv_done (e_dev s) \<and>
     (\<forall>c < blocks_count (g_ext4 s). \<forall>i < bsize s. disk_block s' c i = disk_block s c i \<or>
        c = m \<and> disk_block s' c i = set_bit_in b (disk_block s m) i)"

lemma half_taken_cases:
  assumes h: "half_taken s s' m b"
  shows "(\<forall>c < blocks_count (g_ext4 s). \<forall>i < bsize s. disk_block s' c i = disk_block s c i) \<or> bit_taken s s' m b"
proof -
  have d: "disk_block s' c i = disk_block s c i \<or> c = m \<and> disk_block s' c i = set_bit_in b (disk_block s m) i"
    if "c < blocks_count (g_ext4 s)" "i < bsize s" for c i
    using h that unfolding half_taken_def by blast
  have off: "set_bit_in b p i = p i" if "i \<noteq> b div 8" for p i using that by (simp add: set_bit_in_def)
  show ?thesis
  proof (cases "disk_block s' m (b div 8) = disk_block s m (b div 8)")
    case True
    have "disk_block s' c i = disk_block s c i" if "c < blocks_count (g_ext4 s)" "i < bsize s" for c i
      using d [OF that] True off by (cases "i = b div 8") auto
    then show ?thesis by blast
  next
    case False
    have "disk_block s' c i = (if c = m then set_bit_in b (disk_block s m) i else disk_block s c i)"
      if "c < blocks_count (g_ext4 s)" "i < bsize s" for c i
      using d [OF that] False off by (cases "i = b div 8") auto
    then show ?thesis using h by (simp add: bit_taken_def half_taken_def)
  qed
qed

lemma take_bit_of_spec:
  assumes s: "coherent s" and m: "m < blocks_count (g_ext4 s)" and b: "b div 8 < bsize s"
    and buf: "\<And>i. i < bsize s \<Longrightarrow> g_io_block s i = disk_block s m i"
    and r: "take_bit_of m b s = (s', r)"
  shows "r = Inl FS_ERR_IO \<and> half_taken s s' m b \<or> r = Inr () \<and> took_bit s s' m b"
proof -
  let ?p = "set_bit_in b (g_io_block s)"
  let ?t = "s\<lparr>g_io_block := ?p\<rparr>"
  have t: "same_fs s ?t" by (rule same_fs_buffers(3) [OF s])
  obtain u q where u: "ext4_write_block_locked m ?p ?t = (u, q)" by (cases "ext4_write_block_locked m ?p ?t")
  have "coherent ?t" and "m < blocks_count (g_ext4 ?t)" using t m by (simp_all add: same_fs_def)
  note w = write_coherent [OF this u]
  have p: "?p i = set_bit_in b (disk_block s m) i" if "i < bsize s" for i
    using buf [OF that] buf [OF b] by (simp add: set_bit_in_def)
  have d: "disk_block ?t = disk_block s" and rel: "reliable ?t = reliable s"
    using t same_fs_reliable [OF t] by (simp_all add: same_fs_def)
  have bn: "before_or_now ?t = before_or_now s" by (intro ext) (simp only: before_or_now_def d)
  have "take_bit_of m b s = (u, case q of Inl _ \<Rightarrow> Inl FS_ERR_IO | Inr x \<Rightarrow> Inr x)"
    using u by (cases q) (simp_all add: take_bit_of_def write_io_block_def io_simps or_err_def on_err_def)
  then have run: "s' = u" "r = (case q of Inl _ \<Rightarrow> Inl FS_ERR_IO | Inr x \<Rightarrow> Inr x)" unfolding r by simp_all
  show ?thesis
  proof (cases q)
    case (Inl e)
    then have "e = FS_ERR_IO" "\<not> reliable s" "within u (before_or_now s u)"
      and g: "g_ext4 u = g_ext4 s" "dv_done (e_dev u) = dv_done (e_dev s)"
      and dk: "\<forall>c < blocks_count (g_ext4 s). \<forall>i < bsize s. disk_block u c i = disk_block s c i \<or>
        c = m \<and> disk_block u c i = ?p i"
      using w unfolding d bn rel by simp_all
    moreover have "disk_block u c i = disk_block s c i \<or> c = m \<and> disk_block u c i = set_bit_in b (disk_block s m) i"
      if "c < blocks_count (g_ext4 s)" "i < bsize s" for c i
      using dk [rule_format, OF that] unfolding p [OF that(2)] .
    ultimately have "half_taken s u m b" unfolding half_taken_def by blast
    then show ?thesis using run Inl \<open>e = FS_ERR_IO\<close> by simp
  next
    case (Inr x)
    then have c: "coherent u" "g_ext4 u = g_ext4 s" "dv_done (e_dev u) = dv_done (e_dev s)"
      and dk: "\<forall>c < blocks_count (g_ext4 s). \<forall>i < bsize s. disk_block u c i = (if c = m then ?p i else disk_block s c i)"
      using w unfolding d by simp_all
    have "disk_block u c i = (if c = m then set_bit_in b (disk_block s m) i else disk_block s c i)"
      if "c < blocks_count (g_ext4 s)" "i < bsize s" for c i
      using dk [rule_format, OF that] unfolding p [OF that(2)] .
    then have "took_bit s u m b" using c by (simp add: took_bit_def bit_taken_def)
    then show ?thesis using run Inr by simp
  qed
qed

lemma blocks_few:
  assumes s: "coherent s"
  shows "unat (blocks_count (g_ext4 s)) \<le> 2 ^ 31"
proof -
  let ?g = "g_ext4 s"
  let ?c = "unat (blocks_count ?g)"
  have "2 \<le> unat (sectors_per_block ?g)" and a: "?c * unat (sectors_per_block ?g) \<le> 4294965248"
    using s by (auto simp: coherent_def within_def addressable_def block_sizes_def)
  then have "?c * 2 \<le> ?c * unat (sectors_per_block ?g)" by (intro mult_le_mono2) simp
  with a have "?c * 2 \<le> 4294965248" by linarith
  then show ?thesis by simp
qed

lemma group_span_spec:
  assumes s: "coherent s" and ok: "groups_ok s" and k: "unat grp < unat (group_count (g_ext4 s))"
    and sp: "group_span (g_ext4 s) grp = (gf, gb)" and b: "b < unat gb"
  shows "unat (gf + of_nat b) = unat (first_data_block (g_ext4 s)) + unat grp * unat (blocks_per_group (g_ext4 s)) + b"
    and "unat (gf + of_nat b) < unat (blocks_count (g_ext4 s))" and "b < unat (blocks_per_group (g_ext4 s))"
proof -
  let ?g = "g_ext4 s"
  let ?n = "unat (blocks_per_group ?g)" and ?f = "unat (first_data_block ?g)" and ?c = "unat (blocks_count ?g)"
  have bs: "bsize s \<le> 4096" using s by (auto simp: coherent_def within_def addressable_def block_sizes_def)
  have o: "?n \<le> 8 * bsize s" "unat (group_count ?g) * ?n < ?c - ?f + ?n" "?f < ?c"
    using ok unfolding groups_ok_def Let_def word_less_nat_alt by blast+
  have "(unat grp + 1) * ?n \<le> unat (group_count ?g) * ?n" using k by (intro mult_le_mono1) simp
  then have lt: "?f + unat grp * ?n < ?c" using o by simp
  have c31: "?c \<le> 2 ^ 31" by (rule blocks_few [OF s])
  have gf: "unat (first_data_block ?g + grp * blocks_per_group ?g) = ?f + unat grp * ?n"
    using lt c31 by (simp add: unat_word_ariths)
  have ge: "unat (first_data_block ?g + grp * blocks_per_group ?g + blocks_per_group ?g) = ?f + unat grp * ?n + ?n"
    using lt c31 o bs gf by (simp add: unat_word_ariths)
  have f: "gf = first_data_block ?g + grp * blocks_per_group ?g" using sp by (auto simp: group_span_def Let_def)
  have gb: "unat gb = min ?n (?c - (?f + unat grp * ?n))"
    using sp lt gf ge by (auto simp: group_span_def Let_def word_less_nat_alt word_le_nat_alt unat_sub split: if_splits)
  then show n: "b < ?n" using b by simp
  have "b < ?c - (?f + unat grp * ?n)" using b gb by simp
  then have lt2: "?f + unat grp * ?n + b < ?c" by linarith
  then show "unat (gf + of_nat b) = ?f + unat grp * ?n + b"
    using c31 gf f by (simp add: unat_word_ariths unat_of_nat)
  with lt2 show "unat (gf + of_nat b) < ?c" by simp
qed

text \<open>A free block, with its group and its bit. One group: a free block of the group is taken, or
  nothing changes, or the write of the bit map fails.\<close>

definition free_at :: "ext4 \<Rightarrow> u32 \<Rightarrow> nat \<Rightarrow> nat \<Rightarrow> bool" where
  "free_at s p k b \<longleftrightarrow> k < unat (group_count (g_ext4 s)) \<and> b < unat (blocks_per_group (g_ext4 s)) \<and>
     unat p = unat (first_data_block (g_ext4 s)) + k * unat (blocks_per_group (g_ext4 s)) + b \<and>
     p < blocks_count (g_ext4 s) \<and> b div 8 < bsize s \<and> \<not> bit_set (disk_block s (bitmap_of s k)) b"

definition allocated :: "ext4 \<Rightarrow> u32 \<Rightarrow> ext4 \<Rightarrow> bool" where
  "allocated s p s' \<longleftrightarrow> (\<exists>k b. free_at s p k b \<and> took_bit s s' (bitmap_of s k) b)"

definition botched :: "ext4 \<Rightarrow> int \<Rightarrow> ext4 \<Rightarrow> bool" where
  "botched s e s' \<longleftrightarrow> e = FS_ERR_IO \<and> (\<exists>p k b. free_at s p k b \<and> half_taken s s' (bitmap_of s k) b)"

text \<open>Every bit of the group's map that stands for a block is set.\<close>

definition group_full :: "ext4 \<Rightarrow> u32 \<Rightarrow> bool" where
  "group_full s grp \<longleftrightarrow> (\<forall>b < unat (snd (group_span (g_ext4 s) grp)).
     bit_set (disk_block s (bitmap_of s (unat grp))) b)"

text \<open>Nothing keeps the driver from its blocks: no request fails, and descriptors are not refused for
  block numbers of 64 bits.\<close>

definition dependable :: "ext4 \<Rightarrow> bool" where
  "dependable s \<longleftrightarrow> reliable s \<and> feature_incompat (g_ext4 s) AND EXT4_INCOMPAT_64BIT = 0"

lemma same_in_dependable: "same_in V s t \<Longrightarrow> dependable t = dependable s"
  by (simp add: same_in_def dependable_def reliable_def)

lemma same_fs_dependable: "same_fs s t \<Longrightarrow> dependable t = dependable s"
  by (simp add: same_fs_def dependable_def reliable_def)

lemma same_fs_bits:
  assumes "same_fs s t"
  shows "bitmap_of t = bitmap_of s" "free_at t = free_at s" "group_full t = group_full s"
    "took_bit t = took_bit s" "half_taken t = half_taken s"
proof -
  have g: "g_ext4 t = g_ext4 s" "disk_block t = disk_block s" "dv_done (e_dev t) = dv_done (e_dev s)"
    using assms by (simp_all add: same_fs_def)
  have "desc_of t = desc_of s" unfolding desc_of_def same_fs_span [OF assms] g(1) ..
  then show bm: "bitmap_of t = bitmap_of s" unfolding bitmap_of_def by (simp only:)
  show "free_at t = free_at s" "group_full t = group_full s"
    by (simp_all add: free_at_def group_full_def g bm fun_eq_iff)
  have bn: "before_or_now t = before_or_now s" by (intro ext) (simp only: before_or_now_def g)
  show "took_bit t = took_bit s" "half_taken t = half_taken s"
    by (intro ext, simp only: took_bit_def bit_taken_def half_taken_def g bn same_fs_reliable [OF assms])+
qed

lemma alloc_in_group_spec:
  assumes s: "coherent s" and ok: "groups_ok s" and k: "unat grp < unat (group_count (g_ext4 s))"
    and r: "alloc_block_in_group grp s = (s', r)"
  shows "case r of Inl e \<Rightarrow> botched s e s' | Inr None \<Rightarrow> same_fs s s' \<and> (dependable s \<longrightarrow> group_full s grp)
    | Inr (Some p) \<Rightarrow> allocated s p s'"
proof -
  obtain gf gb where sp: "group_span (g_ext4 s) grp = (gf, gb)" by (cases "group_span (g_ext4 s) grp")
  show ?thesis
  proof (cases "gb = 0")
    case True
    then show ?thesis using r sp same_fs_refl [OF s] by (auto simp: alloc_block_in_group_def io_simps group_full_def)
  next
    case gb: False
    obtain t d where t: "ext4_read_group_desc_locked grp s = (t, d)" by (cases "ext4_read_group_desc_locked grp s")
    note ds = read_desc_spec [OF s ok k t]
    show ?thesis
    proof (cases d)
      case (Inl e)
      then show ?thesis using r sp gb t ds
        by (auto simp: alloc_block_in_group_def read_block_bitmap_def skip_errors_def on_err_def io_simps bnd_step
            bnd_def dependable_def)
    next
      case (Inr gd)
      let ?m = "bitmap_of s (unat grp)"
      have m: "gd_block_bitmap gd = ?m" "?m < blocks_count (g_ext4 s)" and st: "same_fs s t"
        using ds Inr ok k by (simp_all add: groups_ok_def Let_def)
      then have "coherent t" and "?m < blocks_count (g_ext4 t)" by (simp_all add: same_fs_def)
      then show ?thesis
      proof (cases rule: read_io_block)
        case (err u)
        then show ?thesis using r sp gb t Inr m st same_fs_reliable [OF st]
          by (auto simp: alloc_block_in_group_def read_block_bitmap_def skip_errors_def on_err_def io_simps
              bnd_step bnd_def dependable_def intro: same_fs_trans)
      next
        case (ok u)
        have su: "same_fs s u" using st ok(2) by (rule same_fs_trans)
        then have gu: "g_ext4 u = g_ext4 s" "disk_block u = disk_block s" "coherent u" by (simp_all add: same_fs_def)
        have dt: "disk_block t = disk_block s" "bsize t = bsize s" using st by (simp_all add: same_fs_def)
        have run: "alloc_block_in_group grp s =
            (case first_clear (g_io_block u) (bsize s) (unat gb) of None \<Rightarrow> (u, Inr None)
             | Some b \<Rightarrow> bnd (take_bit_of ?m b) (\<lambda>_. ret (Some (gf + of_nat b))) u)"
          using sp gb t Inr m ok(1) gu
          by (simp add: alloc_block_in_group_def read_block_bitmap_def skip_errors_def on_err_def io_simps
              bnd_step bnd_def split: option.splits)
        have buf: "g_io_block u i = disk_block u ?m i" if "i < bsize u" for i
          using ok(5) that gu dt by simp
        have same: "bit_set (g_io_block u) b = bit_set (disk_block s ?m) b" if "b div 8 < bsize s" for b
          using bit_set_cong [of "g_io_block u" b "disk_block s ?m"] buf [of "b div 8"] that gu by simp
        show ?thesis
        proof (cases "first_clear (g_io_block u) (bsize s) (unat gb)")
          case None
          have "bit_set (disk_block s ?m) b" if b: "b < unat gb" for b
          proof -
            have "b < unat (blocks_per_group (g_ext4 s))" using group_span_spec(3) [OF s \<open>groups_ok s\<close> k sp b] .
            also have "\<dots> \<le> 8 * bsize s" using \<open>groups_ok s\<close> by (simp add: groups_ok_def Let_def)
            finally have "b < 8 * bsize s" .
            then show ?thesis
              using None b same [of b] by (auto simp: first_clear_def find_upt_None)
          qed
          then have "group_full s grp" using sp by (simp add: group_full_def)
          moreover have "(u, Inr None) = (s', r)" using r run None by simp
          ultimately show ?thesis using su by auto
        next
          case (Some b)
          have b: "b < unat gb" "b div 8 < bsize s" "\<not> bit_set (g_io_block u) b"
            using first_clear_Some [OF Some] by simp_all
          obtain v q where v: "take_bit_of ?m b u = (v, q)" by (cases "take_bit_of ?m b u")
          have tb: "q = Inl FS_ERR_IO \<and> half_taken s v ?m b \<or> q = Inr () \<and> took_bit s v ?m b"
            using take_bit_of_spec [OF gu(3) _ _ buf v] m(2) b(2) gu(1) same_fs_bits(4,5) [OF su] by simp
          have "free_at s (gf + of_nat b) (unat grp) b"
            using group_span_spec [OF s \<open>groups_ok s\<close> k sp b(1)] same [OF b(2)] b(2,3) k
            unfolding free_at_def word_less_nat_alt by blast
          then have "q = Inl FS_ERR_IO \<and> botched s FS_ERR_IO v \<or> q = Inr () \<and> allocated s (gf + of_nat b) v"
            using tb unfolding allocated_def botched_def by blast
          then show ?thesis using r run Some v by (auto simp: bnd_step io_simps)
        qed
      qed
    qed
  qed
qed

lemma for_blocks_search:
  assumes step: "\<And>l t t' r. P t \<Longrightarrow> f l t = (t', r) \<Longrightarrow>
      case r of Inl e \<Rightarrow> E e t' | Inr None \<Rightarrow> P t' \<and> R l | Inr (Some x) \<Rightarrow> Q x t'"
    and s: "P s" and r: "for_blocks n l f s = (s', r)"
  shows "case r of Inl e \<Rightarrow> E e s' | Inr None \<Rightarrow> P s' \<and> (\<forall>j < n. R (l + of_nat j)) | Inr (Some x) \<Rightarrow> Q x s'"
  using s r
proof (induction n arbitrary: l s)
  case 0
  then show ?case by (auto simp: io_simps)
next
  case (Suc n)
  obtain t q where t: "f l s = (t, q)" by (cases "f l s")
  note st = step [OF Suc.prems(1) t]
  show ?case
  proof (cases q)
    case (Inl e)
    with Suc.prems(2) t st show ?thesis by (auto simp: bnd_step)
  next
    case (Inr x)
    show ?thesis
    proof (cases x)
      case None
      then have run: "for_blocks n (l + 1) f t = (s', r)" using Suc.prems(2) t Inr by (simp add: bnd_step)
      have "R (l + of_nat j)" if "R l" "\<forall>j < n. R (l + 1 + of_nat j)" "j < Suc n" for j
        using that by (cases j) (auto simp: add.assoc)
      then show ?thesis using Suc.IH [OF _ run] st Inr None by (auto split: sum.splits option.splits)
    next
      case (Some y)
      with Suc.prems(2) t st Inr show ?thesis by (auto simp: bnd_step io_simps)
    qed
  qed
qed

text \<open>The search visits every group.\<close>

lemma alloc_start_less: "0 < group_count g \<Longrightarrow> alloc_start_group g ino < group_count g"
  by (auto simp: alloc_start_group_def Let_def not_le)

lemma every_group:
  fixes n st :: u32 and k :: nat
  assumes n: "unat n < 2 ^ 31" and st: "st < n" and k: "k < unat n"
  obtains j where "j < unat n" "unat ((st + of_nat j) mod n) = k"
proof -
  let ?j = "(k + unat n - unat st) mod unat n"
  have s: "unat st < unat n" using st by (simp add: word_less_nat_alt)
  have j: "?j < unat n" using k by simp
  then have "unat (of_nat ?j :: u32) = ?j" using n by (simp add: unat_of_nat take_bit_nat_eq_self)
  moreover have "unat st + ?j < 2 ^ 32"
  proof -
    have "a + i < 2 ^ 32" if "i < m" "a < m" "m < 2 ^ 31" for a i m :: nat using that by simp
    from this [OF j s n] show ?thesis .
  qed
  ultimately have "unat (st + of_nat ?j) = unat st + ?j" by (simp add: unat_word_ariths)
  then have "unat ((st + of_nat ?j) mod n) = (unat st + ?j) mod unat n" by (simp only: unat_mod)
  also have "\<dots> = (unat st + (k + unat n - unat st)) mod unat n" by (simp only: mod_add_right_eq)
  also have "\<dots> = k" using s k by simp
  finally show ?thesis using that j by blast
qed

lemma groups_few: "groups_ok s \<Longrightarrow> unat (group_count (g_ext4 s)) < 2 ^ 31"
proof -
  assume "groups_ok s"
  then have d: "32 \<le> unat (desc_size (g_ext4 s))" "unat (group_count (g_ext4 s)) * unat (desc_size (g_ext4 s)) < 2 ^ 31"
    by (simp_all add: groups_ok_def Let_def)
  have "unat (group_count (g_ext4 s)) * 1 \<le> unat (group_count (g_ext4 s)) * unat (desc_size (g_ext4 s))"
    using d(1) by (intro mult_le_mono2) simp
  then show ?thesis using d(2) by linarith
qed

lemma alloc_block_spec:
  assumes s: "coherent s" and ok: "groups_ok s" and r: "ext4_alloc_block_locked ino s = (s', r)"
  shows "case r of
      Inl e \<Rightarrow> botched s e s' \<or> same_fs s s' \<and> (dependable s \<longrightarrow> e = FS_ERR_NOSPC \<and>
        (\<forall>k < unat (group_count (g_ext4 s)). group_full s (of_nat k)))
    | Inr p \<Rightarrow> allocated s p s'"
proof -
  let ?n = "group_count (g_ext4 s)"
  let ?f = "\<lambda>pass. alloc_block_in_group ((alloc_start_group (g_ext4 s) ino + pass) mod ?n)"
  have nz: "blocks_count (g_ext4 s) \<noteq> 0" "blocks_per_group (g_ext4 s) \<noteq> 0" "0 < ?n"
  proof -
    have "first_data_block (g_ext4 s) < blocks_count (g_ext4 s)" "0 < blocks_per_group (g_ext4 s)"
      and le: "unat (blocks_count (g_ext4 s)) - unat (first_data_block (g_ext4 s)) \<le>
        unat ?n * unat (blocks_per_group (g_ext4 s))"
      using ok by (simp_all add: groups_ok_def Let_def)
    then show "blocks_count (g_ext4 s) \<noteq> 0" "blocks_per_group (g_ext4 s) \<noteq> 0" by auto
    have "?n \<noteq> 0" using le \<open>first_data_block (g_ext4 s) < blocks_count (g_ext4 s)\<close> by (auto simp: word_less_nat_alt)
    then show "0 < ?n" by (simp add: word_neq_0_conv)
  qed
  obtain t q where t: "for_blocks (unat ?n) 0 ?f s = (t, q)" by (cases "for_blocks (unat ?n) 0 ?f s")
  have sp: "case q of Inl e \<Rightarrow> botched s e t
    | Inr None \<Rightarrow> same_fs s t \<and> (\<forall>j < unat ?n. dependable s \<longrightarrow>
        group_full s ((alloc_start_group (g_ext4 s) ino + (0 + of_nat j)) mod ?n))
    | Inr (Some p) \<Rightarrow> allocated s p t"
  proof (rule for_blocks_search [where P = "same_fs s" and Q = "allocated s" and E = "botched s" and
        R = "\<lambda>l. dependable s \<longrightarrow> group_full s ((alloc_start_group (g_ext4 s) ino + l) mod ?n)",
        OF _ same_fs_refl [OF s] t])
    fix l u u' p assume u: "same_fs s u" and p: "?f l u = (u', p)"
    let ?k = "(alloc_start_group (g_ext4 s) ino + l) mod ?n"
    note eq = same_fs_bits [OF u]
    have "coherent u" "groups_ok u" using u ok groups_ok_cong [OF u] by (simp_all add: same_fs_def)
    moreover have "unat ?k < unat (group_count (g_ext4 u))"
      using nz(3) u by (simp add: unat_mod same_fs_def word_less_nat_alt)
    ultimately have "case p of Inl e \<Rightarrow> botched u e u' | Inr None \<Rightarrow> same_fs u u' \<and> (dependable u \<longrightarrow> group_full u ?k)
        | Inr (Some x) \<Rightarrow> allocated u x u'"
      using p by (rule alloc_in_group_spec)
    then show "case p of Inl e \<Rightarrow> botched s e u' | Inr None \<Rightarrow> same_fs s u' \<and> (dependable s \<longrightarrow> group_full s ?k)
        | Inr (Some x) \<Rightarrow> allocated s x u'"
      using same_fs_trans [OF u] same_fs_dependable [OF u]
      by (auto simp: botched_def allocated_def eq split: sum.splits option.splits)
  qed
  have run: "(s', r) = (case q of Inl e \<Rightarrow> (t, Inl e) | Inr None \<Rightarrow> (t, Inl FS_ERR_NOSPC) | Inr (Some p) \<Rightarrow> (t, Inr p))"
    using r t nz by (cases q) (auto simp: ext4_alloc_block_locked_def io_simps bnd_step split: option.splits)
  have full: "group_full s (of_nat k)"
    if all: "\<forall>j < unat ?n. group_full s ((alloc_start_group (g_ext4 s) ino + (0 + of_nat j)) mod ?n)"
      and k: "k < unat ?n" for k
  proof -
    obtain j where "j < unat ?n" "unat ((alloc_start_group (g_ext4 s) ino + of_nat j) mod ?n) = k"
      by (rule every_group [OF groups_few [OF ok] alloc_start_less [OF nz(3)] k])
    moreover from this(2) have "(alloc_start_group (g_ext4 s) ino + of_nat j) mod ?n = of_nat k" by auto
    ultimately show ?thesis using all by (metis add_0)
  qed
  show ?thesis using run sp full by (auto split: sum.splits option.splits)
qed

lemma quotient_rest: "b < n \<Longrightarrow> (k * n + b) div n = k \<and> (k * n + b) mod n = (b :: nat)"
  by simp

lemma block_index_of:
  assumes "unat p = unat (first_data_block (g_ext4 s)) + k * unat (blocks_per_group (g_ext4 s)) + b"
    and "b < unat (blocks_per_group (g_ext4 s))"
  shows "block_group s p = k" and "block_index s p = b"
  using quotient_rest [OF assms(2), of k] assms(1) by (simp_all add: block_group_def block_index_def)

lemma same_place:
  assumes "data_block s p" and "data_block s q" and "block_group s p = block_group s q"
    and "block_index s p = block_index s q"
  shows "p = q"
proof -
  have "unat p - unat (first_data_block (g_ext4 s)) = unat q - unat (first_data_block (g_ext4 s))"
    using assms(3,4) unfolding block_group_def block_index_def by (metis div_mult_mod_eq)
  moreover have "unat (first_data_block (g_ext4 s)) \<le> unat p" "unat (first_data_block (g_ext4 s)) \<le> unat q"
    using assms(1,2) by (simp_all add: data_block_def word_le_nat_alt)
  ultimately have "unat p = unat q" by linarith
  then show ?thesis by (rule unsigned_word_eqI)
qed

text \<open>The descriptors only depend on the blocks in front of \<open>gdt_end\<close>.\<close>

lemma desc_kept:
  assumes bs: "0 < bsize s" and g: "g_ext4 t = g_ext4 s" and le: "gdt_end (g_ext4 s) \<le> unat (blocks_count (g_ext4 s))"
    and same: "\<And>c i. unat c < gdt_end (g_ext4 s) \<Longrightarrow> i < bsize s \<Longrightarrow> disk_block t c i = disk_block s c i"
    and k: "k < unat (group_count (g_ext4 s))" and i: "i < unat (desc_size (g_ext4 s))"
  shows "desc_of t k i = desc_of s k i"
proof -
  let ?g = "g_ext4 s"
  let ?ds = "unat (desc_size ?g)" and ?bs = "bsize s" and ?n = "unat (group_count ?g)"
  let ?c = "gdt_block ?g + of_nat ((k * ?ds + i) div ?bs)"
  have "(k + 1) * ?ds \<le> ?n * ?ds" using k by (intro mult_le_mono1) simp
  then have "k * ?ds + i \<le> ?n * ?ds" using i by simp
  then have "(k * ?ds + i) div ?bs \<le> (?n * ?ds) div ?bs" by (rule div_le_mono)
  then have lt: "unat (gdt_block ?g) + (k * ?ds + i) div ?bs < gdt_end ?g" by (simp add: gdt_end_def)
  then have "unat ?c = unat (gdt_block ?g) + (k * ?ds + i) div ?bs"
    using le unat_lt_u32 [of "blocks_count ?g"] by (simp add: unat_word_ariths unat_of_nat)
  then have "unat ?c < gdt_end ?g" using lt by simp
  moreover have "(k * ?ds + i) mod ?bs < ?bs" using bs by simp
  ultimately show ?thesis using same by (simp add: desc_of_def disk_span_def g)
qed

text \<open>A write to a bit map leaves them alone.\<close>

lemma bit_taken_bitmap_of:
  assumes s: "coherent s" and ok: "groups_ok s" and k: "k < unat (group_count (g_ext4 s))"
    and t: "bit_taken s s' (bitmap_of s j) b" and j: "j < unat (group_count (g_ext4 s))"
  shows "bitmap_of s' k = bitmap_of s k"
proof -
  let ?g = "g_ext4 s"
  have bs: "0 < bsize s" using s by (auto simp: coherent_def within_def addressable_def block_sizes_def)
  have o: "32 \<le> unat (desc_size ?g)" "gdt_end ?g \<le> unat (blocks_count ?g)" "gdt_end ?g \<le> unat (bitmap_of s j)"
    using ok j by (simp_all add: groups_ok_def Let_def)
  have "disk_block s' c i = disk_block s c i" if "unat c < gdt_end ?g" "i < bsize s" for c i
  proof -
    have "c < blocks_count ?g" "c \<noteq> bitmap_of s j" using that o by (auto simp: word_less_nat_alt)
    then show ?thesis using t that by (simp add: bit_taken_def)
  qed
  then have "\<forall>i < unat (desc_size ?g). desc_of s' k i = desc_of s k i"
    using desc_kept [OF bs _ o(2) _ k, of s'] t by (simp add: bit_taken_def)
  then show ?thesis using o(1) rd_le32_cong [of "unat (desc_size ?g)" "desc_of s' k" "desc_of s k" 0]
    by (simp add: bitmap_of_def)
qed

lemma bit_taken_effect:
  assumes s: "coherent s" and ok: "groups_ok s" and a: "free_at s p k b" and t: "bit_taken s s' (bitmap_of s k) b"
  shows "data_block s p \<and> \<not> block_used s p \<and> block_used s' p \<and>
    (\<forall>q. data_block s q \<longrightarrow> q \<noteq> p \<longrightarrow> block_used s' q = block_used s q) \<and>
    (\<forall>c < blocks_count (g_ext4 s). (\<forall>k < unat (group_count (g_ext4 s)). c \<noteq> bitmap_of s k) \<longrightarrow>
       (\<forall>i < bsize s. disk_block s' c i = disk_block s c i))"
proof -
  let ?g = "g_ext4 s"
  let ?n = "unat (blocks_per_group ?g)" and ?f = "unat (first_data_block ?g)"
  have k: "k < unat (group_count ?g)" and b: "b < ?n" "b div 8 < bsize s"
    and p: "unat p = ?f + k * ?n + b" "p < blocks_count ?g"
    and clear: "\<not> bit_set (disk_block s (bitmap_of s k)) b"
    using a by (simp_all add: free_at_def)
  note at = block_index_of [OF p(1) b(1)]
  have g': "g_ext4 s' = ?g" using t by (simp add: bit_taken_def)
  have place: "block_group s' q = block_group s q" "block_index s' q = block_index s q" for q
    by (simp_all add: block_group_def block_index_def g')
  have o: "?n \<le> 8 * bsize s" "unat (group_count ?g) * ?n < unat (blocks_count ?g) - ?f + ?n" "0 < ?n"
    using ok by (simp_all add: groups_ok_def Let_def unat_gt_0 word_gt_0)
  have data: "data_block s p" using p by (simp add: data_block_def word_le_nat_alt)
  have bm: "bitmap_of s k < blocks_count ?g" using ok k by (simp add: groups_ok_def Let_def)
  have used: "block_used s' q \<longleftrightarrow> q = p \<or> block_used s q" if q: "data_block s q" "block_group s q < unat (group_count ?g)" for q
  proof -
    let ?k = "block_group s q" and ?b = "block_index s q"
    have "?b < ?n" using o(3) by (simp add: block_index_def)
    then have i: "?b div 8 < bsize s" using o(1) by simp
    have m: "bitmap_of s' ?k = bitmap_of s ?k" by (rule bit_taken_bitmap_of [OF s ok q(2) t k])
    have "bitmap_of s ?k < blocks_count ?g" using ok q(2) by (simp add: groups_ok_def Let_def)
    then have byte: "disk_block s' (bitmap_of s ?k) (?b div 8) =
        (if bitmap_of s ?k = bitmap_of s k then set_bit_in b (disk_block s (bitmap_of s k)) (?b div 8)
         else disk_block s (bitmap_of s ?k) (?b div 8))"
      using t i by (simp add: bit_taken_def)
    have inj: "bitmap_of s ?k = bitmap_of s k \<longleftrightarrow> ?k = k" using ok q(2) k by (auto simp: groups_ok_def Let_def)
    have "bit_set (disk_block s' (bitmap_of s ?k)) ?b \<longleftrightarrow>
        (?k = k \<and> ?b = b) \<or> bit_set (disk_block s (bitmap_of s ?k)) ?b"
    proof (cases "?k = k")
      case True
      then have "bit_set (disk_block s' (bitmap_of s ?k)) ?b = bit_set (set_bit_in b (disk_block s (bitmap_of s k))) ?b"
        using byte by (intro bit_set_cong) simp
      with True show ?thesis by (simp add: bit_set_set)
    next
      case False
      then have "bit_set (disk_block s' (bitmap_of s ?k)) ?b = bit_set (disk_block s (bitmap_of s ?k)) ?b"
        using byte inj by (intro bit_set_cong) simp
      with False show ?thesis by simp
    qed
    moreover have "?k = k \<and> ?b = b \<longleftrightarrow> q = p" using same_place [OF q(1) data] at by auto
    ultimately show ?thesis by (simp add: block_used_def place m)
  qed
  have grp: "block_group s q < unat (group_count ?g)" if "data_block s q" for q
  proof -
    have "unat (blocks_count ?g) - ?f \<le> unat (group_count ?g) * ?n" using ok by (simp add: groups_ok_def Let_def)
    moreover have "?f \<le> unat q" "unat q < unat (blocks_count ?g)"
      using that by (simp_all add: data_block_def word_le_nat_alt word_less_nat_alt)
    ultimately have "unat q - ?f < unat (group_count ?g) * ?n" by linarith
    then show ?thesis unfolding block_group_def by (rule less_mult_imp_div_less)
  qed
  have "\<not> block_used s p" using clear at by (simp add: block_used_def)
  moreover have "disk_block s' c i = disk_block s c i"
    if "c < blocks_count ?g" "\<forall>k < unat (group_count ?g). c \<noteq> bitmap_of s k" "i < bsize s" for c i
    using t that k by (simp add: bit_taken_def)
  ultimately show ?thesis using data used [OF _ grp] by blast
qed

text \<open>If every group is full, every block is in use.\<close>

lemma full_groups:
  assumes s: "coherent s" and ok: "groups_ok s" and q: "data_block s q"
    and full: "\<forall>k < unat (group_count (g_ext4 s)). group_full s (of_nat k)"
  shows "block_used s q"
proof -
  let ?g = "g_ext4 s"
  let ?n = "unat (blocks_per_group ?g)" and ?f = "unat (first_data_block ?g)" and ?c = "unat (blocks_count ?g)"
  let ?k = "block_group s q" and ?b = "block_index s q"
  have o: "?c - ?f \<le> unat (group_count ?g) * ?n" "0 < ?n" "?n \<le> 8 * bsize s"
    using ok by (simp_all add: groups_ok_def Let_def unat_gt_0 word_gt_0)
  have uq: "?f \<le> unat q" "unat q < ?c" using q by (simp_all add: data_block_def word_le_nat_alt word_less_nat_alt)
  then have k: "?k < unat (group_count ?g)" unfolding block_group_def using o by (intro less_mult_imp_div_less) linarith
  have at: "unat q = ?f + ?k * ?n + ?b" unfolding block_group_def block_index_def using uq(1) by simp
  have b: "?b < ?n" using o(2) by (simp add: block_index_def)
  have uk: "unat (of_nat ?k :: u32) = ?k" using k unat_lt_u32 [of "group_count ?g"] by (intro unat_of_nat_u32) simp
  have bs: "bsize s \<le> 4096" using s by (auto simp: coherent_def within_def addressable_def block_sizes_def)
  have c31: "?c \<le> 2 ^ 31" by (rule blocks_few [OF s])
  have gf: "unat (first_data_block ?g + of_nat ?k * blocks_per_group ?g) = ?f + ?k * ?n"
    using at uq c31 uk by (simp add: unat_word_ariths)
  have ge: "unat (first_data_block ?g + of_nat ?k * blocks_per_group ?g + blocks_per_group ?g) = ?f + ?k * ?n + ?n"
    using gf at uq c31 o(3) bs by (simp add: unat_word_ariths)
  have "?b < unat (snd (group_span ?g (of_nat ?k)))"
    using at b uq(2) gf ge by (auto simp: group_span_def Let_def word_less_nat_alt word_le_nat_alt unat_sub)
  moreover have "group_full s (of_nat ?k)" using full k by blast
  ultimately show ?thesis unfolding group_full_def block_used_def uk by blast
qed


lemma demo_disk_block:
  assumes b: "b < 64" and i: "i < 1024"
  shows "disk_block demo_fs b i = demo_block (unat b) i"
proof -
  have g: "g_ext4 demo_fs = demo_geometry" and d: "dv_sectors (e_dev demo_fs) = demo_sectors"
    using demo_probe by simp_all
  let ?x = "block_lba demo_geometry b + of_nat (i div 512)"
  have x: "unat ?x = 2048 + unat b * 2 + i div 512"
    using unat_sector [of demo_geometry b "i div 512"] b i
    by (simp add: demo_geometry_def addressable_def block_sizes_def)
  then have "unat (?x - 2048) = unat b * 2 + i div 512" by (simp add: unat_sub word_le_nat_alt)
  moreover have "i div 512 < 2" using i by simp
  ultimately have "unat (?x - 2048) div 2 = unat b" "unat (?x - 2048) mod 2 = i div 512"
    using quotient_rest [of "i div 512" 2 "unat b"] by simp_all
  then show ?thesis by (simp add: disk_block_def g d demo_sectors_def)
qed

lemma demo_bitmap: "bitmap_of demo_fs 0 = 3"
proof -
  have g: "g_ext4 demo_fs = demo_geometry" using demo_probe by simp
  have "desc_of demo_fs 0 i = demo_group i" if "i < 4" for i
    using that demo_disk_block [of 2 i]
    by (simp add: desc_of_def disk_span_def g demo_geometry_def gdt_block_def demo_block_def)
  then show ?thesis
    by (simp add: bitmap_of_def rd_le32_def) (simp add: demo_group_def bytes_defs)
qed

lemma demo_groups_ok: "groups_ok demo_fs"
proof -
  have g: "g_ext4 demo_fs = demo_geometry" using demo_probe by simp
  show ?thesis
    by (simp add: groups_ok_def g gdt_end_def gdt_block_def Let_def)
      (simp add: demo_geometry_def word_less_nat_alt demo_bitmap)
qed

lemma demo_alloc: "snd (ext4_alloc_block_locked 3 demo_fs) = Inr 9"
proof -
  have "isl (snd (ext4_alloc_block_locked 3 demo_fs)) = False" by code_simp
  moreover have "projr (snd (ext4_alloc_block_locked 3 demo_fs)) = 9" by code_simp
  ultimately show ?thesis by (cases "snd (ext4_alloc_block_locked 3 demo_fs)") simp_all
qed


end
