(* ===== verification/Ext4_Data.thy ===== *)
theory Ext4_Data
  imports Ext4_Alloc
begin

text \<open>
  File contents. A file whose extents are in its inode is a map from its logical blocks to disk
  blocks (\<open>file_view\<close>); its contents are the bytes of those blocks (\<open>file_byte\<close>). Reading
  returns contents, writing inside the file replaces the bytes that it reports as written. When a
  request to write a block fails in between, the bytes of this block that were still to be written may
  be the old or the new ones from then on, on the disk and in what is read (\<open>torn\<close>).
\<close>

subsection \<open>Inodes on the disk\<close>

definition inode_group :: "ext4 \<Rightarrow> u32 \<Rightarrow> u32" where
  "inode_group s ino = (ino - 1) div inodes_per_group (g_ext4 s)"

definition inode_offset :: "ext4 \<Rightarrow> u32 \<Rightarrow> u32" where
  "inode_offset s ino = ((ino - 1) mod inodes_per_group (g_ext4 s)) * inode_size (g_ext4 s)"

definition inode_block :: "ext4 \<Rightarrow> u32 \<Rightarrow> u32" where
  "inode_block s ino = inode_table_of s (unat (inode_group s ino)) + inode_offset s ino div block_size (g_ext4 s)"

definition inode_on_disk :: "ext4 \<Rightarrow> u32 \<Rightarrow> buf" where
  "inode_on_disk s ino = disk_span s (inode_block s ino) (unat (inode_offset s ino mod block_size (g_ext4 s)))"

definition inode_ok :: "ext4 \<Rightarrow> u32 \<Rightarrow> bool" where
  "inode_ok s ino \<longleftrightarrow> ino \<noteq> 0 \<and> inodes_per_group (g_ext4 s) \<noteq> 0 \<and>
     inode_group s ino < group_count (g_ext4 s) \<and>
     128 \<le> unat (inode_size (g_ext4 s)) \<and> unat (inode_size (g_ext4 s)) \<le> 512 \<and>
     inode_block s ino < blocks_count (g_ext4 s) \<and> inode_block s ino + 1 < blocks_count (g_ext4 s)"

lemma read_inode_in:
  assumes s: "within s V" and gdt: "\<forall>c. unat c < gdt_end (g_ext4 s) \<longrightarrow> known s V c"
    and tab: "known s V (inode_block s ino)" "known s V (inode_block s ino + 1)"
    and g: "groups_ok s" and ok: "inode_ok s ino"
    and r: "ext4_read_inode_locked ino s = (s', r)"
  shows "same_in V s s' \<and> (r = Inr () \<longrightarrow> (\<forall>i < unat (inode_size (g_ext4 s)). g_inode_buf s' i = inode_on_disk s ino i)) \<and>
    (dependable s \<longrightarrow> r = Inr ())"
proof -
  let ?g = "g_ext4 s"
  obtain t d where t: "ext4_read_group_desc_locked (inode_group s ino) s = (t, d)"
    by (cases "ext4_read_group_desc_locked (inode_group s ino) s")
  have "unat (inode_group s ino) < unat (group_count ?g)" using ok by (simp add: inode_ok_def word_less_nat_alt)
  note ds = read_desc_in [OF s gdt g this t]
  have place: "inode_place ino s = (case d of Inl _ \<Rightarrow> (t, Inl FS_ERR_IO)
      | Inr gd \<Rightarrow> (t, Inr (gd_inode_table gd + inode_offset s ino div block_size ?g, inode_offset s ino mod block_size ?g)))"
    using ok t by (cases d) (auto simp: inode_place_def io_simps bnd_step or_err_step Let_def inode_ok_def
        inode_group_def inode_offset_def)
  show ?thesis
  proof (cases d)
    case (Inl e)
    then show ?thesis using r place ds by (auto simp: ext4_read_inode_locked_def bnd_step dependable_def)
  next
    case (Inr gd)
    have st: "same_in V s t" and tb: "gd_inode_table gd = inode_table_of s (unat (inode_group s ino))" using ds Inr by simp_all
    then have ct: "within t V" and gt: "g_ext4 t = ?g" by (simp_all add: same_in_def)
    let ?off = "inode_offset s ino mod block_size ?g"
    have run: "ext4_read_inode_locked ino s =
        read_spanning (inode_block s ino) ?off (inode_size ?g) g_inode_buf (\<lambda>p s. s\<lparr>g_inode_buf := p\<rparr>) t"
      using place Inr tb gt by (simp add: ext4_read_inode_locked_def bnd_step io_simps inode_block_def)
    have bs: "unat ?off < bsize t"
      using s gt in_block_less [of "block_size ?g" "inode_offset s ino"] by (simp add: within_def addressable_def)
    have "same_in V t s' \<and> (r = Inl FS_ERR_IO \<and> \<not> reliable t \<or> r = Inr () \<and>
        (\<forall>i < unat (inode_size ?g). g_inode_buf s' i = disk_span t (inode_block s ino) (unat ?off) i))"
      using read_spanning_spec [OF ct _ _ _ bs _ _ _ _ _ r [unfolded run]] ok tab
      by (simp add: inode_ok_def gt same_in_buffers known_cong [OF st])
    then show ?thesis using same_in_trans [OF st] same_in_span [OF st] same_in_reliable [OF st]
      by (auto simp: inode_on_disk_def dependable_def)
  qed
qed

subsection \<open>Files with their extents in the inode\<close>

definition leaf_inode :: "buf \<Rightarrow> bool" where
  "leaf_inode b \<longleftrightarrow> ext4_inode_flags b AND EXT4_EXTENTS_FL \<noteq> 0 \<and>
     rd_le16 (sub_buf 0x28 b) 0 = EXT4_EXTENT_MAGIC \<and> rd_le16 (sub_buf 0x28 b) 6 = 0 \<and>
     0 < unat (rd_le16 (sub_buf 0x28 b) 2) \<and> unat (rd_le16 (sub_buf 0x28 b) 2) \<le> 4"

definition leaf_map :: "buf \<Rightarrow> u32 \<Rightarrow> int + u32" where
  "leaf_map b l = extent_leaf_map (sub_buf 0x28 b) l"

lemma leaf_cong:
  assumes eq: "\<forall>i < 128. b i = c i"
  shows "leaf_inode b = leaf_inode c" and "leaf_inode b \<Longrightarrow> leaf_map b l = leaf_map c l"
    and "ext4_inode_size32 b = ext4_inode_size32 c" and "ext4_inode_flags b = ext4_inode_flags c"
proof -
  have r: "rd_le16 (sub_buf 0x28 b) k = rd_le16 (sub_buf 0x28 c) k" "rd_le32 (sub_buf 0x28 b) k = rd_le32 (sub_buf 0x28 c) k"
    if "k \<le> 56" for k using eq that by (simp_all add: rd_le16_def rd_le32_def sub_buf_def)
  show f: "ext4_inode_flags b = ext4_inode_flags c" and "ext4_inode_size32 b = ext4_inode_size32 c"
    using eq by (simp_all add: ext4_inode_flags_def ext4_inode_size32_def ext4_inode_mode_def rd_le32_def rd_le16_def)
  show "leaf_inode b = leaf_inode c" using f r by (simp add: leaf_inode_def)
  show "leaf_map b l = leaf_map c l" if "leaf_inode b"
  proof -
    let ?n = "unat (rd_le16 (sub_buf 0x28 b) 2)"
    have n: "?n \<le> 4" using that by (simp add: leaf_inode_def)
    have f: "find (extent_covers (sub_buf 0x28 b) l) [0..<?n] = find (extent_covers (sub_buf 0x28 c) l) [0..<?n]"
      using n r by (intro find_cong refl) (simp add: extent_covers_def extent_len_def)
    have "i < 4" if "find (extent_covers (sub_buf 0x28 c) l) [0..<?n] = Some i" for i
      using that n find_upt_Some [of _ 0 ?n i] by simp
    then show ?thesis using f r by (auto simp: leaf_map_def extent_leaf_map_def split: option.splits)
  qed
qed

lemma map_leaf:
  assumes "leaf_inode (g_inode_buf s)"
  shows "ext4_extent_map_locked l s = (s, leaf_map (g_inode_buf s) l)"
    and "ext4_inode_map_block_locked l s = (s, leaf_map (g_inode_buf s) l)"
proof -
  show "ext4_extent_map_locked l s = (s, leaf_map (g_inode_buf s) l)"
    using assms by (auto simp: ext4_extent_map_locked_def io_simps leaf_inode_def leaf_map_def Let_def unat_gt_0)
  then show "ext4_inode_map_block_locked l s = (s, leaf_map (g_inode_buf s) l)"
    using assms by (simp add: ext4_inode_map_block_locked_def io_simps leaf_inode_def)
qed

text \<open>A file of \<open>size1\<close> bytes in \<open>n\<close> blocks \<open>m 0\<close> to \<open>m (n - 1)\<close>, which are apart from each
  other, from the descriptors and from the file's inode.\<close>

definition data_place :: "ext4 \<Rightarrow> u32 \<Rightarrow> u32 \<Rightarrow> bool" where
  "data_place s ino c \<longleftrightarrow> c < blocks_count (g_ext4 s) \<and> gdt_end (g_ext4 s) \<le> unat c \<and>
     c \<noteq> inode_block s ino \<and> c \<noteq> inode_block s ino + 1"

definition file_layout :: "ext4 \<Rightarrow> u32 \<Rightarrow> u32 \<Rightarrow> nat \<Rightarrow> (nat \<Rightarrow> u32) \<Rightarrow> bool" where
  "file_layout s ino size1 n m \<longleftrightarrow> groups_ok s \<and> inode_ok s ino \<and>
     leaf_inode (inode_on_disk s ino) \<and> ext4_inode_size32 (inode_on_disk s ino) = Inr size1 \<and>
     unat size1 \<le> n * bsize s \<and>
     (\<forall>l < n. leaf_map (inode_on_disk s ino) (of_nat l) = Inr (m l) \<and> data_place s ino (m l)) \<and>
     inj_on m {..<n}"

definition file_view :: "ext4 \<Rightarrow> u32 \<Rightarrow> u32 \<Rightarrow> nat \<Rightarrow> (nat \<Rightarrow> u32) \<Rightarrow> bool" where
  "file_view s ino size1 n m \<longleftrightarrow> coherent s \<and> file_layout s ino size1 n m"

definition file_byte :: "ext4 \<Rightarrow> (nat \<Rightarrow> u32) \<Rightarrow> nat \<Rightarrow> u8" where
  "file_byte s m i = disk_block s (m (i div bsize s)) (i mod bsize s)"

text \<open>The same file when only the contents of its own blocks are uncertain, and the values that its
  bytes may have.\<close>

definition file_in :: "may \<Rightarrow> ext4 \<Rightarrow> u32 \<Rightarrow> u32 \<Rightarrow> nat \<Rightarrow> (nat \<Rightarrow> u32) \<Rightarrow> bool" where
  "file_in V s ino size1 n m \<longleftrightarrow> within s V \<and>
     (\<forall>c < blocks_count (g_ext4 s). c \<notin> m ` {..<n} \<longrightarrow> known s V c) \<and> file_layout s ino size1 n m"

definition file_may :: "may \<Rightarrow> ext4 \<Rightarrow> (nat \<Rightarrow> u32) \<Rightarrow> nat \<Rightarrow> u8 set" where
  "file_may V s m i = V (m (i div bsize s)) (i mod bsize s)"

lemma file_view_in: "file_view s ino size1 n m \<Longrightarrow> file_in (on_disk s) s ino size1 n m"
  by (simp add: file_view_def file_in_def coherent_def)

lemma file_known:
  assumes v: "file_in V s ino size1 n m"
  shows "\<forall>c. unat c < gdt_end (g_ext4 s) \<longrightarrow> known s V c" "known s V (inode_block s ino)" "known s V (inode_block s ino + 1)"
proof -
  have k: "\<And>c. c < blocks_count (g_ext4 s) \<Longrightarrow> c \<notin> m ` {..<n} \<Longrightarrow> known s V c"
    and d: "\<And>l. l < n \<Longrightarrow> data_place s ino (m l)" and i: "inode_ok s ino"
    and g: "gdt_end (g_ext4 s) \<le> unat (blocks_count (g_ext4 s))"
    using v by (auto simp: file_in_def file_layout_def groups_ok_def Let_def)
  have "c < blocks_count (g_ext4 s) \<and> c \<notin> m ` {..<n}" if "unat c < gdt_end (g_ext4 s) \<or> c = inode_block s ino \<or> c = inode_block s ino + 1" for c
  proof
    show "c < blocks_count (g_ext4 s)" using that i g by (auto simp: inode_ok_def word_less_nat_alt)
    show "c \<notin> m ` {..<n}" using that d unfolding data_place_def by fastforce
  qed
  then show "\<forall>c. unat c < gdt_end (g_ext4 s) \<longrightarrow> known s V c" "known s V (inode_block s ino)"
    "known s V (inode_block s ino + 1)" using k by blast+
qed

text \<open>The state of an operation on the file once its inode is in the buffer.\<close>

definition file_loaded :: "may \<Rightarrow> ext4 \<Rightarrow> u32 \<Rightarrow> ext4 \<Rightarrow> bool" where
  "file_loaded V s ino t \<longleftrightarrow> same_in V s t \<and> (\<forall>i < 128. g_inode_buf t i = inode_on_disk s ino i)"

lemma load_inode:
  assumes v: "file_in V s ino size1 n m" and r: "ext4_read_inode_locked ino s = (t, r)"
  shows "same_in V s t" and "r = Inr () \<Longrightarrow> file_loaded V s ino t" and "dependable s \<Longrightarrow> r = Inr ()"
  using read_inode_in [OF _ file_known [OF v] _ _ r] v by (auto simp: file_in_def file_layout_def file_loaded_def inode_ok_def)

lemma loaded_map:
  assumes v: "file_layout s ino size1 n m" and t: "\<forall>i < 128. g_inode_buf t i = inode_on_disk s ino i" and l: "l < n"
  shows "ext4_extent_map_locked (of_nat l) t = (t, Inr (m l))"
    and "ext4_inode_map_block_locked (of_nat l) t = (t, Inr (m l))"
    and "ext4_inode_size32 (g_inode_buf t) = Inr size1"
    and "ext4_inode_flags (g_inode_buf t) AND EXT4_EXTENTS_FL \<noteq> 0"
proof -
  note c = leaf_cong [OF t]
  have b: "leaf_inode (inode_on_disk s ino)" "leaf_map (inode_on_disk s ino) (of_nat l) = Inr (m l)"
    "ext4_inode_size32 (inode_on_disk s ino) = Inr size1"
    using v l by (simp_all add: file_layout_def)
  then show "ext4_extent_map_locked (of_nat l) t = (t, Inr (m l))"
    "ext4_inode_map_block_locked (of_nat l) t = (t, Inr (m l))"
    "ext4_inode_size32 (g_inode_buf t) = Inr size1" "ext4_inode_flags (g_inode_buf t) AND EXT4_EXTENTS_FL \<noteq> 0"
    using c map_leaf [of t "of_nat l"] by (simp_all add: leaf_inode_def)
qed

subsection \<open>Reading\<close>

lemma block_position:
  assumes bs: "block_sizes bs" and pos: "unat off + k < 2 ^ 32"
  shows "(off + of_nat k) div bs = of_nat ((unat off + k) div unat bs)"
    and "unat ((off + of_nat k) mod bs) = (unat off + k) mod unat bs"
proof -
  have u: "unat (off + of_nat k) = unat off + k" using pos by (simp add: unat_word_ariths unat_of_nat)
  have "(off + of_nat k) div bs = of_nat (unat ((off + of_nat k) div bs))" by simp
  then show "(off + of_nat k) div bs = of_nat ((unat off + k) div unat bs)" unfolding unat_div u .
  show "unat ((off + of_nat k) mod bs) = (unat off + k) mod unat bs" by (simp add: unat_mod u)
qed

text \<open>The part of a block that starts at byte \<open>x\<close> of the file.\<close>

lemma chunk_bytes:
  fixes B x w i :: nat
  assumes "i < w" and "w \<le> B - x mod B" and "0 < B"
  shows "(x + i) div B = x div B" and "(x + i) mod B = x mod B + i"
proof -
  have lt: "x mod B + i < B" using assms mod_less_divisor [of B x] by linarith
  have "x + i = x div B * B + (x mod B + i)" by simp
  then show "(x + i) div B = x div B" "(x + i) mod B = x mod B + i"
    using quotient_rest [OF lt, of "x div B"] by metis+
qed

definition reads :: "may \<Rightarrow> ext4 \<Rightarrow> (nat \<Rightarrow> u32) \<Rightarrow> nat \<Rightarrow> nat \<Rightarrow> u8 list \<Rightarrow> bool" where
  "reads V s m x k bytes \<longleftrightarrow> length bytes = k \<and> (\<forall>j < k. bytes ! j \<in> file_may V s m (x + j))"

lemma reads_append: "reads V s m x k as \<Longrightarrow> reads V s m (x + k) l bs \<Longrightarrow> reads V s m x (k + l) (as @ bs)"
  unfolding reads_def
proof (intro conjI allI impI)
  fix j assume a: "length as = k \<and> (\<forall>j<k. as ! j \<in> file_may V s m (x + j))"
    and b: "length bs = l \<and> (\<forall>j<l. bs ! j \<in> file_may V s m (x + k + j))" and j: "j < k + l"
  show "(as @ bs) ! j \<in> file_may V s m (x + j)"
  proof (cases "j < k")
    case True
    then show ?thesis using a by (simp add: nth_append)
  next
    case False
    have e: "x + k + (j - k) = x + j" and lt: "j - k < l" using False j by linarith+
    have "bs ! (j - k) \<in> file_may V s m (x + k + (j - k))" using b lt by blast
    then show ?thesis using a False unfolding e by (simp add: nth_append)
  qed
qed simp

lemma read_chunk_spec:
  assumes v: "file_in V s ino size1 n m" and t: "file_loaded V s ino t" and l: "x div bsize s < n"
    and w: "w \<le> bsize s - x mod bsize s"
    and r: "read_chunk (of_nat (x div bsize s)) (x mod bsize s) w t = (u, r)"
  shows "file_loaded V s ino u \<and>
    (r = Inl FS_ERR_IO \<and> \<not> dependable s \<or> (\<exists>bytes. r = Inr bytes \<and> reads V s m x w bytes))"
proof -
  let ?l = "x div bsize s"
  have lay: "file_layout s ino size1 n m" using v by (simp add: file_in_def)
  have st: "same_in V s t" and ib: "\<forall>i < 128. g_inode_buf t i = inode_on_disk s ino i"
    using t by (simp_all add: file_loaded_def)
  have bs: "0 < bsize s" using v by (auto simp: file_in_def within_def addressable_def block_sizes_def)
  have c: "within t V" "m ?l < blocks_count (g_ext4 t)"
    using st lay l by (auto simp: same_in_def file_layout_def data_place_def)
  have run: "read_chunk (of_nat ?l) (x mod bsize s) w t =
      bnd (or_err FS_ERR_IO (ext4_read_block_locked (m ?l) IO_BLOCK)) (\<lambda>_.
        gets (\<lambda>s'. buf_bytes (g_io_block s') (x mod bsize s) w)) t"
    using loaded_map(2) [OF lay ib l] by (simp add: read_chunk_def on_err_def bnd_step io_simps bnd_def)
  show ?thesis
    using c
  proof (cases rule: read_io_in)
    case (err u')
    then have "\<not> dependable s" using same_in_reliable [OF st] by (simp add: dependable_def)
    then show ?thesis using err r run st ib by (auto simp: bnd_step or_err_step file_loaded_def intro: same_in_trans)
  next
    case (ok u')
    have dt: "bsize t = bsize s" using st by (simp add: same_in_def)
    have "reads V s m x w (buf_bytes (g_io_block u') (x mod bsize s) w)"
      unfolding reads_def
    proof (intro conjI allI impI)
      fix i assume i: "i < w"
      have "x mod bsize s + i < bsize s" using i w mod_less_divisor [OF bs, of x] by linarith
      then show "buf_bytes (g_io_block u') (x mod bsize s) w ! i \<in> file_may V s m (x + i)"
        using ok(5) i dt chunk_bytes [OF i w bs] by (simp add: buf_bytes_def file_may_def)
    qed (simp add: buf_bytes_def)
    then show ?thesis using r run ok st ib by (auto simp: bnd_step or_err_step io_simps file_loaded_def intro: same_in_trans)
  qed
qed

lemma read_loop_spec:
  assumes v: "file_in V s ino size1 n m" and "file_loaded V s ino t"
    and range: "unat off + len \<le> unat size1"
    and "dn \<le> len" and "reads V s m (unat off) dn dst"
    and "read_data_loop (block_size (g_ext4 s)) off len dn dst t = (u, r)"
  shows "same_in V s u \<and> (r = Inl FS_ERR_IO \<and> \<not> dependable s \<or>
    (\<exists>k \<le> len. (0 < len \<longrightarrow> 0 < k) \<and> (dependable s \<longrightarrow> k = len) \<and> (\<exists>bytes. r = Inr bytes \<and> reads V s m (unat off) k bytes)))"
  using assms(2,4-6)
proof (induction "len - dn" arbitrary: dn dst t rule: less_induct)
  case less
  let ?bs = "block_size (g_ext4 s)" and ?x = "unat off + dn"
  have bs: "block_sizes ?bs" using v by (simp add: file_in_def within_def addressable_def)
  show ?case
  proof (cases "dn \<ge> len")
    case True
    then show ?thesis using less.prems by (auto simp: read_data_loop.simps io_simps file_loaded_def)
  next
    case False
    let ?w = "min (len - dn) (unat ?bs - ?x mod unat ?bs)"
    have x: "?x < unat size1" using range False by linarith
    then have "?x < 2 ^ 32" using unat_lt_u32 [of size1] by simp
    note p = block_position [OF bs this]
    have "unat size1 \<le> n * bsize s" using v by (simp add: file_in_def file_layout_def)
    then have l: "?x div bsize s < n" using x by (intro less_mult_imp_div_less) linarith
    obtain t' q where t': "read_chunk (of_nat (?x div unat ?bs)) (?x mod unat ?bs) ?w t = (t', q)"
      by (cases "read_chunk (of_nat (?x div unat ?bs)) (?x mod unat ?bs) ?w t")
    have sp: "file_loaded V s ino t' \<and> (q = Inl FS_ERR_IO \<and> \<not> dependable s \<or> (\<exists>bytes. q = Inr bytes \<and> reads V s m ?x ?w bytes))"
      using read_chunk_spec [OF v less.prems(1) l _ t'] by simp
    have run: "read_data_loop ?bs off len dn dst t = or_done (\<lambda>_. (t', q)) dst (dn \<noteq> 0)
        (\<lambda>bytes. read_data_loop ?bs off len (dn + ?w) (dst @ bytes)) t"
      using bs False p t' by (subst read_data_loop.simps) (simp add: Let_def or_done_def)
    show ?thesis
    proof (cases q)
      case (Inl e)
      then have "same_in V s u" "\<not> dependable s" "r = Inl FS_ERR_IO \<or> r = Inr dst \<and> 0 < dn"
        using less.prems sp run by (auto simp: or_done_def file_loaded_def split: if_splits)
      then show ?thesis using less.prems(2,3) by blast
    next
      case (Inr bytes)
      have dec: "len - (dn + ?w) < len - dn"
        using chunk_decreases [OF bs, of len "dn" "off + of_nat dn"] False p by simp
      have "reads V s m ?x ?w bytes" using sp Inr by simp
      then have "reads V s m (unat off) (dn + ?w) (dst @ bytes)" by (rule reads_append [OF less.prems(3)])
      moreover have "read_data_loop ?bs off len (dn + ?w) (dst @ bytes) t' = (u, r)"
        using less.prems(4) run Inr by (simp add: or_done_def)
      moreover have "dn + ?w \<le> len" using False by linarith
      ultimately show ?thesis using less.hyps [OF dec _ _ _ , of t' "dst @ bytes"] sp by blast
    qed
  qed
qed

lemma read_data_spec:
  assumes v: "file_in V s ino size1 n m" and r: "ext4_read_inode_data_locked ino off len s = (u, r)"
    and pos: "0 < n"
  shows "same_in V s u \<and> (r = Inl FS_ERR_IO \<and> \<not> dependable s \<or>
    (\<exists>k \<le> min (unat len) (unat size1 - unat off). (0 < min (unat len) (unat size1 - unat off) \<longrightarrow> 0 < k) \<and>
       (dependable s \<longrightarrow> k = min (unat len) (unat size1 - unat off)) \<and>
       (\<exists>bytes. r = Inr bytes \<and> reads V s m (unat off) k bytes)))"
proof (cases "len = 0")
  case True
  have "same_in V s s" using v by (simp add: file_in_def same_in_refl)
  then show ?thesis using r True by (auto simp: ext4_read_inode_data_locked_def io_simps reads_def)
next
  case False
  obtain t q where t: "ext4_read_inode_locked ino s = (t, q)" by (cases "ext4_read_inode_locked ino s")
  note ld = load_inode [OF v t]
  have lay: "file_layout s ino size1 n m" using v by (simp add: file_in_def)
  show ?thesis
  proof (cases q)
    case (Inl e)
    then show ?thesis using r t ld False by (auto simp: ext4_read_inode_data_locked_def bnd_step or_err_step)
  next
    case (Inr x)
    then have l: "file_loaded V s ino t" using ld by simp
    then have sz: "ext4_inode_size32 (g_inode_buf t) = Inr size1" and g: "g_ext4 t = g_ext4 s"
      using loaded_map(3) [OF lay _ pos] by (simp_all add: file_loaded_def same_in_def)
    let ?len = "if len > size1 - off then size1 - off else len"
    have run: "ext4_read_inode_data_locked ino off len s =
        (if off \<ge> size1 then (t, Inr []) else read_data_loop (block_size (g_ext4 s)) off (unat ?len) 0 [] t)"
      using t Inr False sz g
      by (simp add: ext4_read_inode_data_locked_def bnd_step or_err_step inode_buf_size_def io_simps Let_def)
    show ?thesis
    proof (cases "off \<ge> size1")
      case True
      then show ?thesis using r run l by (auto simp: file_loaded_def word_le_nat_alt reads_def)
    next
      case in_file: False
      then have d: "unat (size1 - off) = unat size1 - unat off" "unat off < unat size1"
        by (simp_all add: unat_sub word_le_nat_alt)
      then have e: "unat ?len = min (unat len) (unat size1 - unat off)" by (auto simp: word_less_nat_alt)
      then have range: "unat off + unat ?len \<le> unat size1" using d(2) by linarith
      have "read_data_loop (block_size (g_ext4 s)) off (unat ?len) 0 [] t = (u, r)" using r run in_file by simp
      from read_loop_spec [OF v l range _ _ this] show ?thesis unfolding e by (simp add: reads_def)
    qed
  qed
qed

subsection \<open>Writing inside a file\<close>

text \<open>The state after \<open>k\<close> bytes of \<open>src\<close> have been stored at \<open>off\<close>: the contents, and
  everything outside the file's blocks.\<close>

definition outside_kept :: "ext4 \<Rightarrow> nat \<Rightarrow> (nat \<Rightarrow> u32) \<Rightarrow> ext4 \<Rightarrow> bool" where
  "outside_kept s n m t \<longleftrightarrow> g_ext4 t = g_ext4 s \<and> dv_done (e_dev t) = dv_done (e_dev s) \<and>
     (\<forall>c < blocks_count (g_ext4 s). c \<notin> m ` {..<n} \<longrightarrow> (\<forall>i < bsize s. disk_block t c i = disk_block s c i))"

definition overwritten ::
  "ext4 \<Rightarrow> u32 \<Rightarrow> nat \<Rightarrow> (nat \<Rightarrow> u32) \<Rightarrow> nat \<Rightarrow> u8 list \<Rightarrow> nat \<Rightarrow> ext4 \<Rightarrow> bool" where
  "overwritten s ino n m off src k t \<longleftrightarrow> coherent t \<and> outside_kept s n m t \<and>
     (\<forall>i < n * bsize s. file_byte t m i =
        (if off \<le> i \<and> i < off + k then src ! (i - off) else file_byte s m i))"

text \<open>What a byte may be when \<open>k\<close> bytes are stored and a request has failed: of the bytes of \<open>src\<close> that
  follow, each may have reached the disk or not.\<close>

definition contents_after :: "ext4 \<Rightarrow> (nat \<Rightarrow> u32) \<Rightarrow> nat \<Rightarrow> u8 list \<Rightarrow> nat \<Rightarrow> nat \<Rightarrow> u8 set" where
  "contents_after s m off src k i =
     (if off \<le> i \<and> i < off + k then {src ! (i - off)}
      else if off + k \<le> i \<and> i < off + length src then {file_byte s m i, src ! (i - off)}
      else {file_byte s m i})"

definition torn ::
  "may \<Rightarrow> ext4 \<Rightarrow> nat \<Rightarrow> (nat \<Rightarrow> u32) \<Rightarrow> nat \<Rightarrow> u8 list \<Rightarrow> nat \<Rightarrow> ext4 \<Rightarrow> bool" where
  "torn V s n m off src k t \<longleftrightarrow> within t V \<and> outside_kept s n m t \<and>
     (\<forall>c < blocks_count (g_ext4 s). c \<notin> m ` {..<n} \<longrightarrow> known t V c) \<and>
     (\<forall>i < n * bsize s. file_may V t m i \<subseteq> contents_after s m off src k i)"

lemma file_byte_cong: "g_ext4 u = g_ext4 t \<Longrightarrow> disk_block u = disk_block t \<Longrightarrow> file_byte u m = file_byte t m"
  by (simp add: file_byte_def fun_eq_iff)

lemma overwritten_same: "same_fs t u \<Longrightarrow> overwritten s ino n m off src k t \<Longrightarrow> overwritten s ino n m off src k u"
  using file_byte_cong [of u t m] by (simp add: overwritten_def outside_kept_def same_fs_def)

lemma kept_dependable: "outside_kept s n m t \<Longrightarrow> dependable t = dependable s"
  by (simp add: outside_kept_def dependable_def reliable_def)

lemma overwritten_torn:
  assumes "overwritten s ino n m off src k t"
  shows "torn (on_disk t) s n m off src k t"
proof -
  have "file_may (on_disk t) t m i = {file_byte t m i}" for i by (simp add: file_may_def on_disk_def file_byte_def)
  then show ?thesis using assms by (auto simp: torn_def overwritten_def contents_after_def coherent_def)
qed

text \<open>The file is still there, at the same blocks.\<close>

lemma layout_kept:
  assumes v: "file_view s ino size1 n m" and t: "outside_kept s n m t"
  shows "file_layout t ino size1 n m"
proof -
  let ?g = "g_ext4 s"
  have s: "coherent s" and ok: "groups_ok s" and iok: "inode_ok s ino" using v by (simp_all add: file_view_def file_layout_def)
  have bs: "0 < bsize s" using s by (auto simp: coherent_def within_def addressable_def block_sizes_def)
  have g: "g_ext4 t = ?g" using t by (simp add: outside_kept_def)
  have o: "32 \<le> unat (desc_size ?g)" "gdt_end ?g \<le> unat (blocks_count ?g)" using ok by (simp_all add: groups_ok_def Let_def)
  have keep: "disk_block t c i = disk_block s c i"
    if "\<forall>l < n. c \<noteq> m l" "c < blocks_count ?g" "i < bsize s" for c i
    using t that by (auto simp: outside_kept_def)
  have gdt: "disk_block t c i = disk_block s c i" if "unat c < gdt_end ?g" "i < bsize s" for c i
  proof -
    have "\<forall>l < n. c \<noteq> m l" using v that by (auto simp: file_view_def file_layout_def data_place_def)
    then show ?thesis using keep that o by (simp add: word_less_nat_alt)
  qed
  have d: "desc_of t k i = desc_of s k i" if "k < unat (group_count ?g)" "i < unat (desc_size ?g)" for k i
    using desc_kept [OF bs g o(2) gdt that] by simp
  then have bm: "bitmap_of t k = bitmap_of s k" "inode_table_of t k = inode_table_of s k" if "k < unat (group_count ?g)" for k
    using o(1) rd_le32_cong [of "unat (desc_size ?g)" "desc_of t k" "desc_of s k"] that
    by (simp_all add: bitmap_of_def inode_table_of_def)
  have gok: "groups_ok t" using ok bm by (simp add: groups_ok_def g Let_def)
  have "unat (inode_group s ino) < unat (group_count ?g)" using iok by (simp add: inode_ok_def word_less_nat_alt)
  then have ib: "inode_block t ino = inode_block s ino"
    using bm by (simp add: inode_block_def inode_group_def inode_offset_def g)
  have img: "inode_on_disk t ino i = inode_on_disk s ino i" if i: "i < 128" for i
  proof -
    let ?x = "unat (inode_offset s ino mod block_size ?g) + i"
    have "?x < 2 * bsize s"
      using i in_block_less [of "block_size ?g" "inode_offset s ino"] s
      by (auto simp: coherent_def within_def addressable_def block_sizes_def)
    then have "?x div bsize s < 2" using bs by (intro less_mult_imp_div_less) simp
    then have "?x div bsize s = 0 \<or> ?x div bsize s = 1" by linarith
    moreover have "?x mod bsize s < bsize s" using bs by simp
    moreover have "\<forall>l < n. inode_block s ino \<noteq> m l" "\<forall>l < n. inode_block s ino + 1 \<noteq> m l"
      using v by (auto simp: file_view_def file_layout_def data_place_def)
    ultimately show ?thesis
      using keep iok by (auto simp: inode_on_disk_def disk_span_def ib inode_offset_def g inode_ok_def)
  qed
  note c = leaf_cong [of "inode_on_disk t ino" "inode_on_disk s ino"]
  have "leaf_inode (inode_on_disk t ino)" using c(1) img v by (simp add: file_view_def file_layout_def)
  then show ?thesis
    using v t gok c img ib g
    by (auto simp: file_view_def file_layout_def inode_ok_def inode_group_def data_place_def)
qed

lemma torn_view: "file_view s ino size1 n m \<Longrightarrow> torn V s n m off src k t \<Longrightarrow> file_in V t ino size1 n m"
  using layout_kept [of s ino size1 n m t] by (auto simp: torn_def file_in_def outside_kept_def)

text \<open>One block: the bytes from \<open>x\<close> on are replaced.\<close>

lemma store_chunk_spec:
  assumes v: "file_view s ino size1 n m" and w: "overwritten s ino n m off src dn t"
    and x: "x = off + dn" and l: "x div bsize s < n" and len: "dn + k \<le> length src"
    and k: "k \<le> bsize s - x mod bsize s"
    and buf: "\<And>i. i < bsize s \<Longrightarrow> g_io_block t i = disk_block t (m (x div bsize s)) i"
    and pos: "\<not> pos > cur" "unat (pos mod block_size (g_ext4 s)) = x mod bsize s"
    and r: "store_chunk (block_size (g_ext4 s)) pos cur (take k (drop dn src)) (m (x div bsize s)) t = (u, r)"
  shows "g_inode_buf u = g_inode_buf t \<and>
    (r = Inl FS_ERR_IO \<and> \<not> dependable s \<and> (\<exists>V. torn V s n m off src dn u) \<or>
     r = Inr () \<and> overwritten s ino n m off src (dn + k) u)"
proof -
  let ?l = "x div bsize s" and ?bytes = "take k (drop dn src)"
  have bs: "0 < bsize s" using v by (auto simp: file_view_def coherent_def within_def addressable_def block_sizes_def)
  have t: "coherent t" "g_ext4 t = g_ext4 s" "outside_kept s n m t" using w by (simp_all add: overwritten_def outside_kept_def)
  have dp: "m l < blocks_count (g_ext4 s)" if "l < n" for l using v that by (simp add: file_view_def file_layout_def data_place_def)
  then have ml: "m ?l < blocks_count (g_ext4 s)" using l .
  have lb: "length ?bytes = k" using len by simp
  let ?p = "buf_put (x mod bsize s) ?bytes (g_io_block t)"
  let ?t = "t\<lparr>g_io_block := ?p\<rparr>"
  have st: "same_fs t ?t" by (rule same_fs_buffers(3) [OF t(1)])
  then have c: "coherent ?t" "m ?l < blocks_count (g_ext4 ?t)" using ml t by (simp_all add: same_fs_def)
  obtain y q where y: "ext4_write_block_locked (m ?l) ?p ?t = (y, q)" by (cases "ext4_write_block_locked (m ?l) ?p ?t")
  have run: "(u, r) = (y, if q = Inr () then Inr () else Inl FS_ERR_IO)"
    using r pos y by (cases q) (simp_all add: store_chunk_def zero_gap_def io_simps write_io_block_def or_err_def
        on_err_def bnd_def)
  note wr = write_coherent [OF c y] and wv = write_block_spec [OF c(1) [unfolded coherent_def] c(2) y]
  have dt: "disk_block ?t = disk_block t" and od: "on_disk ?t = on_disk t"
    using st by (simp_all add: same_fs_def on_disk_def)
  have gy: "g_ext4 y = g_ext4 s" "g_inode_buf y = g_inode_buf t" "dv_done (e_dev y) = dv_done (e_dev t)"
    using wr t by simp_all
  have keep: "outside_kept s n m y"
    if disk: "\<And>c i. c < blocks_count (g_ext4 s) \<Longrightarrow> i < bsize s \<Longrightarrow> c \<noteq> m ?l \<Longrightarrow> disk_block y c i = disk_block t c i"
  proof -
    have "disk_block y c i = disk_block s c i"
      if c: "c < blocks_count (g_ext4 s)" "c \<notin> m ` {..<n}" and i: "i < bsize s" for c i
    proof -
      have "c \<noteq> m ?l" using c(2) l by auto
      then have "disk_block y c i = disk_block t c i" by (rule disk [OF c(1) i])
      then show ?thesis using t(3) c i by (simp add: outside_kept_def)
    qed
    then show ?thesis using t(3) gy by (simp add: outside_kept_def)
  qed
  have old: "file_byte t m i = (if off \<le> i \<and> i < off + dn then src ! (i - off) else file_byte s m i)"
    if "i < n * bsize s" for i using w that by (simp add: overwritten_def)
  have new: "?p (i mod bsize s) = (if x \<le> i \<and> i < x + k then src ! (i - off) else file_byte t m i)"
    if il: "i div bsize s = ?l" for i
  proof -
    have im: "i mod bsize s < bsize s" using bs by simp
    have at: "i = ?l * bsize s + i mod bsize s" "x = ?l * bsize s + x mod bsize s"
      using div_mult_mod_eq [of i "bsize s"] div_mult_mod_eq [of x "bsize s"] unfolding il by simp_all
    have eq: "x mod bsize s \<le> i mod bsize s \<longleftrightarrow> x \<le> i" "i mod bsize s - x mod bsize s = i - x"
      using at by linarith+
    show ?thesis
    proof (cases "x \<le> i \<and> i < x + k")
      case True
      then have "x mod bsize s \<le> i mod bsize s \<and> i mod bsize s < x mod bsize s + k" using eq by linarith
      then have "?p (i mod bsize s) = ?bytes ! (i - x)" using lb eq by (simp add: buf_put_def)
      also have "\<dots> = src ! (i - off)"
      proof -
        have j: "i - x < k" "dn + (i - x) = i - off" using True x by linarith+
        have "?bytes ! (i - x) = src ! (dn + (i - x))" using j(1) len by simp
        then show ?thesis unfolding j(2) .
      qed
      finally show ?thesis using True by simp
    next
      case False
      then have "\<not> (x mod bsize s \<le> i mod bsize s \<and> i mod bsize s < x mod bsize s + k)" using eq by linarith
      then have "?p (i mod bsize s) = g_io_block t (i mod bsize s)" using lb by (auto simp: buf_put_def)
      also have "\<dots> = file_byte t m i" using buf [OF im] il t by (simp add: file_byte_def)
      finally show ?thesis using False by auto
    qed
  qed
  have apart: "m (i div bsize s) \<noteq> m ?l" "\<not> (x \<le> i \<and> i < x + k)" if il: "i div bsize s \<noteq> ?l" "i div bsize s < n" for i
  proof -
    show "m (i div bsize s) \<noteq> m ?l" using v il l by (auto simp: file_view_def file_layout_def inj_on_def)
    show "\<not> (x \<le> i \<and> i < x + k)"
    proof
      assume "x \<le> i \<and> i < x + k"
      then have "i - x < k" "x + (i - x) = i" by linarith+
      then show False using il(1) chunk_bytes(1) [of "i - x" k "bsize s" x] k bs by simp
    qed
  qed
  show ?thesis
  proof (cases "q = Inr ()")
    case False
    let ?V = "may_write (m ?l) ?p False (on_disk t)"
    have f: "\<not> reliable ?t" "within y ?V" using wv False unfolding od by auto
    have disk: "disk_block y c i = disk_block t c i \<or> c = m ?l \<and> disk_block y c i = ?p i"
        if "c < blocks_count (g_ext4 s)" "i < bsize s" for c i
      using wv False that unfolding dt od by (auto simp: t(2))
    have "\<not> dependable s" using f(1) kept_dependable [OF t(3)] by (auto simp: dependable_def reliable_def)
    moreover have "torn ?V s n m off src dn y"
      unfolding torn_def
    proof (intro conjI allI impI f(2) keep)
      fix c i assume "c < blocks_count (g_ext4 s)" "i < bsize s" "c \<noteq> m ?l"
      then show "disk_block y c i = disk_block t c i" using disk by blast
    next
      fix c assume c: "c < blocks_count (g_ext4 s)" "c \<notin> m ` {..<n}"
      have "c \<noteq> m ?l" using c(2) l by auto
      then show "known y ?V c"
        using disk [OF c(1)] gy(1) by (auto simp: known_def may_write_def on_disk_def)
    next
      fix i assume i: "i < n * bsize s"
      have li: "i div bsize s < n" using i by (rule less_mult_imp_div_less)
      show "file_may ?V y m i \<subseteq> contents_after s m off src dn i"
      proof (cases "i div bsize s = ?l")
        case True
        have "file_may ?V y m i = {?p (i mod bsize s), file_byte t m i}"
          using True t(2) gy(1) by (simp add: file_may_def may_write_def on_disk_def file_byte_def)
        then show ?thesis
          unfolding new [OF True] using old [OF i] x len by (auto simp: contents_after_def)
      next
        case False
        have "file_may ?V y m i = {file_byte t m i}"
          using apart(1) [OF False li] t(2) gy(1) by (simp add: file_may_def may_write_def on_disk_def file_byte_def)
        then show ?thesis using old [OF i] by (auto simp: contents_after_def)
      qed
    qed
    ultimately show ?thesis using run False gy(2) by auto
  next
    case True
    have disk: "disk_block y c i = (if c = m ?l then ?p i else disk_block t c i)"
      if "c < blocks_count (g_ext4 s)" "i < bsize s" for c i
      using wr True that t dt by simp
    have byte: "file_byte y m i = (if off \<le> i \<and> i < off + (dn + k) then src ! (i - off) else file_byte s m i)"
      if i: "i < n * bsize s" for i
    proof -
      have li: "i div bsize s < n" using i by (rule less_mult_imp_div_less)
      have im: "i mod bsize s < bsize s" using bs by simp
      have fy: "file_byte y m i = (if i div bsize s = ?l then ?p (i mod bsize s) else file_byte t m i)"
        using disk [OF dp [OF li] im] apart(1) [OF _ li] gy(1) t(2) by (auto simp: file_byte_def)
      show ?thesis
      proof (cases "i div bsize s = ?l")
        case True
        then show ?thesis using fy new [OF True] old [OF i] x by auto
      next
        case False
        then show ?thesis using fy apart(2) [OF False li] old [OF i] x by auto
      qed
    qed
    have "outside_kept s n m y" using disk by (intro keep) simp
    then have "overwritten s ino n m off src (dn + k) y"
      using wr True byte by (simp add: overwritten_def)
    then show ?thesis using run True gy(2) by simp
  qed
qed

lemma write_loop_spec:
  assumes v: "file_view s ino size1 n m" and "overwritten s ino n m (unat off) src dn t"
    and "\<forall>i < 128. g_inode_buf t i = inode_on_disk s ino i"
    and range: "unat off + length src \<le> unat size1" and "dn \<le> length src"
    and "write_data_loop (block_size (g_ext4 s)) ino off src dn size1 False t = (u, r)"
  shows "(\<exists>k \<le> length src. (\<exists>V. torn V s n m (unat off) src k u) \<and>
      (r = Inl FS_ERR_IO \<and> k = 0 \<and> \<not> dependable s \<or> r = Inr (k, None) \<and> 0 < k \<and> \<not> dependable s \<or>
       r = Inr (k, Some (size1, False)) \<and> k = length src))"
  using assms(2,3,5,6)
proof (induction "length src - dn" arbitrary: dn t rule: less_induct)
  case less
  let ?bs = "block_size (g_ext4 s)" and ?x = "unat off + dn"
  have bs: "block_sizes ?bs" using v by (simp add: file_view_def coherent_def within_def addressable_def)
  have lay: "file_layout s ino size1 n m" using v by (simp add: file_view_def)
  show ?case
  proof (cases "dn \<ge> length src")
    case True
    then show ?thesis using less.prems overwritten_torn [OF less.prems(1)]
      by (intro exI [of _ dn]) (auto simp: write_data_loop.simps io_simps)
  next
    case False
    let ?pos = "off + of_nat dn"
    let ?w = "min (length src - dn) (bsize s - ?x mod bsize s)"
    have x: "?x < unat size1" using range False by linarith
    then have x32: "?x < 2 ^ 32" using unat_lt_u32 [of size1] by simp
    note p = block_position [OF bs x32]
    have up: "unat ?pos = ?x" using x32 by (simp add: unat_word_ariths unat_of_nat)
    have "unat size1 \<le> n * bsize s" using lay by (simp add: file_layout_def)
    then have l: "?x div bsize s < n" using x by (intro less_mult_imp_div_less) linarith
    have w: "dn + ?w \<le> length src" "?w \<le> bsize s - ?x mod bsize s" using False by simp_all
    have npos: "\<not> ?pos > size1" using up x by (simp add: word_less_nat_alt)
    have "unat (off + of_nat (dn + ?w)) = unat off + (dn + ?w)"
      using range w(1) unat_lt_u32 [of size1] by (simp add: unat_word_ariths unat_of_nat)
    then have nend: "\<not> off + of_nat (dn + ?w) > size1" using range w(1) by (simp add: word_less_nat_alt)
    have dec: "length src - (dn + ?w) < length src - dn"
      using chunk_decreases [OF bs, of "length src" dn ?pos] False p by simp
    have t: "coherent t" "g_ext4 t = g_ext4 s" "dependable t = dependable s"
      using less.prems(1) kept_dependable by (auto simp: overwritten_def outside_kept_def)
    have ml: "m (?x div bsize s) < blocks_count (g_ext4 t)" using lay l t by (simp add: file_layout_def data_place_def)
    let ?step = "bnd (or_err FS_ERR_IO (ext4_read_block_locked (m (?x div bsize s)) IO_BLOCK)) (\<lambda>_.
        store_chunk ?bs ?pos size1 (take ?w (drop dn src)) (m (?x div bsize s)))"
    have run: "write_data_loop ?bs ino off src dn size1 False t = or_done ?step (dn, None) (dn \<noteq> 0)
        (\<lambda>_. write_data_loop ?bs ino off src (dn + ?w) size1 False) t"
      using bs False p loaded_map(1) [OF lay less.prems(2) l] nend
      by (subst write_data_loop.simps) (simp add: Let_def)
    obtain t' q where st: "?step t = (t', q)" by (cases "?step t")
    have sp: "(\<forall>i < 128. g_inode_buf t' i = inode_on_disk s ino i) \<and>
        (q = Inl FS_ERR_IO \<and> \<not> dependable s \<and> (\<exists>V. torn V s n m (unat off) src dn t') \<or>
         q = Inr () \<and> overwritten s ino n m (unat off) src (dn + ?w) t')"
      using t(1) ml
    proof (cases rule: read_io_block)
      case (err t1)
      have "\<not> dependable s" using err(5) t(3) by (simp add: dependable_def)
      moreover have "torn (on_disk t1) s n m (unat off) src dn t1"
        by (rule overwritten_torn [OF overwritten_same [OF err(2) less.prems(1)]])
      ultimately show ?thesis using err st less.prems by (auto simp: bnd_step or_err_step)
    next
      case (ok t1)
      have o1: "overwritten s ino n m (unat off) src dn t1" using overwritten_same [OF ok(2) less.prems(1)] .
      have buf: "g_io_block t1 i = disk_block t1 (m (?x div bsize s)) i" if "i < bsize s" for i
        using ok(2,5) that t by (simp add: same_fs_def)
      have "store_chunk ?bs ?pos size1 (take ?w (drop dn src)) (m (?x div bsize s)) t1 = (t', q)"
        using st ok(1) by (simp add: bnd_step or_err_step)
      from store_chunk_spec [OF v o1 refl l w buf npos p(2) this] show ?thesis
        using ok(3) less.prems(2) by auto
    qed
    show ?thesis
    proof (cases "q = Inr ()")
      case True
      then have "write_data_loop ?bs ino off src (dn + ?w) size1 False t' = (u, r)"
        using less.prems(4) run st by (simp add: or_done_def)
      then show ?thesis using less.hyps [OF dec _ _ w(1)] sp True by blast
    next
      case False
      then have "u = t'" "\<not> dependable s" "r = (if dn \<noteq> 0 then Inr (dn, None) else Inl FS_ERR_IO)"
        using less.prems(4) run st sp by (auto simp: or_done_def split: if_splits)
      then show ?thesis using sp False less.prems(3) by (intro exI [of _ dn]) auto
    qed
  qed
qed

text \<open>Writing \<open>src\<close> inside the file: a prefix of it is stored, all of it if the call reports its
  length, and the call reports what it has stored.\<close>

lemma write_data_spec:
  assumes v: "file_view s ino size1 n m" and src: "src \<noteq> []"
    and range: "unat off + length src \<le> unat size1"
    and r: "ext4_write_inode_data_locked ino off src s = (u, r)"
  shows "\<exists>k \<le> length src. (\<exists>V. torn V s n m (unat off) src k u) \<and>
    (r = Inl FS_ERR_IO \<and> k = 0 \<and> \<not> dependable s \<or>
     (\<exists>sz. r = Inr (k, sz)) \<and> 0 < k \<and> (dependable s \<longrightarrow> k = length src))"
proof -
  have lay: "file_layout s ino size1 n m" using v by (simp add: file_view_def)
  have pos: "0 < n"
  proof (rule ccontr)
    assume "\<not> 0 < n"
    then have "unat size1 = 0" using lay by (simp add: file_layout_def)
    then show False using range src by simp
  qed
  have base: "overwritten s ino n m (unat off) src 0 s" using v by (auto simp: overwritten_def outside_kept_def file_view_def)
  obtain t q where t: "ext4_read_inode_locked ino s = (t, q)" by (cases "ext4_read_inode_locked ino s")
  note ld = load_inode [OF file_view_in [OF v] t, unfolded same_in_fs]
  have ot: "overwritten s ino n m (unat off) src 0 t" by (rule overwritten_same [OF ld(1) base])
  show ?thesis
  proof (cases q)
    case (Inl e)
    then have "\<not> dependable s" using ld(3) by auto
    moreover have "u = t" "r = Inl FS_ERR_IO"
      using Inl r t src by (simp_all add: ext4_write_inode_data_locked_def bnd_step or_err_step)
    ultimately show ?thesis using overwritten_torn [OF ot] by auto
  next
    case (Inr x)
    then have l: "file_loaded (on_disk s) s ino t" using ld by simp
    then have ib: "\<forall>i < 128. g_inode_buf t i = inode_on_disk s ino i" and g: "g_ext4 t = g_ext4 s"
      by (simp_all add: file_loaded_def same_in_def)
    note lm = loaded_map(3,4) [OF lay ib pos]
    have "\<not> off > size1" using range by (simp add: word_less_nat_alt)
    then have ct: "clear_tail off size1 t = (t, Inr ())" by (simp add: clear_tail_def io_simps Let_def)
    obtain y w where y: "write_data_loop (block_size (g_ext4 s)) ino off src 0 size1 False t = (y, w)"
      by (cases "write_data_loop (block_size (g_ext4 s)) ino off src 0 size1 False t")
    obtain k where k: "k \<le> length src" "\<exists>V. torn V s n m (unat off) src k y"
      "w = Inl FS_ERR_IO \<and> k = 0 \<and> \<not> dependable s \<or> w = Inr (k, None) \<and> 0 < k \<and> \<not> dependable s \<or>
       w = Inr (k, Some (size1, False)) \<and> k = length src"
      using write_loop_spec [OF v ot ib range _ y] by auto
    have run: "ext4_write_inode_data_locked ino off src s =
        (case w of Inl e \<Rightarrow> (y, Inl e) | Inr (dn, z) \<Rightarrow>
          (case z of None \<Rightarrow> (y, Inr (dn, 0))
           | Some (cur, dirty) \<Rightarrow> if dn = 0 then (y, Inl FS_ERR_NOSPC) else
               bnd (if cur > size1 then edit_inode (\<lambda>p. wr_le32 0x6C 0 (wr_le32 4 cur p)) else ret ()) (\<lambda>_.
               if dirty \<or> cur > size1 then
                 or_done (ext4_write_inode_locked ino) (dn, 0) True (\<lambda>_. ret (dn, cur))
               else ret (dn, cur)) y))"
      using src t Inr lm ct y g
      by (cases w) (auto simp: ext4_write_inode_data_locked_def bnd_step or_err_step io_simps inode_buf_size_def
          split: option.splits prod.splits)
    have "0 < length src" using src by simp
    then have "u = y" "r = Inl FS_ERR_IO \<and> k = 0 \<and> \<not> dependable s \<or>
        (\<exists>sz. r = Inr (k, sz)) \<and> 0 < k \<and> (dependable s \<longrightarrow> k = length src)"
      using k(3) r unfolding run by (auto simp: io_simps bnd_def)
    then show ?thesis using k(1,2) by blast
  qed
qed

text \<open>C33. File contents survive a write and a read. \<open>ext4_write_inode_data_locked\<close> inside a file whose
  extents are in its inode stores the first \<open>k\<close> bytes of the source, and reports this \<open>k\<close>, or an I/O error
  if \<open>k\<close> is 0; every block outside the file is as before; and a later \<open>ext4_read_inode_data_locked\<close> at
  any offset that succeeds returns a non-empty prefix of what was asked, as far as the file reaches.
  There the stored bytes are the source's and the bytes outside the written range are the old ones; a
  byte of the range after the first \<open>k\<close> is the old one or the source's. The device may fail any request
  after any number of sectors; if it fails none, all of the source is stored and the read returns
  everything that was asked.\<close>

theorem write_then_read:
  assumes v: "file_view s ino size1 n m" and src: "src \<noteq> []" and range: "unat off + length src \<le> unat size1"
    and w: "ext4_write_inode_data_locked ino off src s = (t, w)"
    and r: "ext4_read_inode_data_locked ino off' len t = (u, r)"
  shows "let most = min (unat len) (unat size1 - unat off') in
    \<exists>k \<le> length src.
      (w = Inl FS_ERR_IO \<and> k = 0 \<or> (\<exists>sz. w = Inr (k, sz)) \<and> 0 < k) \<and>
      (\<forall>c < blocks_count (g_ext4 s). c \<notin> m ` {..<n} \<longrightarrow> (\<forall>i < bsize s. disk_block u c i = disk_block s c i)) \<and>
      (r = Inl FS_ERR_IO \<or> (\<exists>j \<le> most. \<exists>bytes. (0 < most \<longrightarrow> 0 < j) \<and> r = Inr bytes \<and> length bytes = j \<and>
         (\<forall>i < j. bytes ! i \<in> contents_after s m (unat off) src k (unat off' + i)))) \<and>
      (dependable s \<longrightarrow> k = length src \<and> (\<exists>bytes. r = Inr bytes \<and> length bytes = most \<and>
         (\<forall>i < most. bytes ! i \<in> contents_after s m (unat off) src k (unat off' + i))))"
proof -
  let ?most = "min (unat len) (unat size1 - unat off')"
  obtain k V where k: "k \<le> length src" and o: "torn V s n m (unat off) src k t"
    and wk: "w = Inl FS_ERR_IO \<and> k = 0 \<or> (\<exists>sz. w = Inr (k, sz)) \<and> 0 < k"
    and all: "dependable s \<Longrightarrow> k = length src"
    using write_data_spec [OF v src range w] by auto
  have "0 < unat size1" using src range by (cases src) simp_all
  moreover have sz: "unat size1 \<le> n * bsize s" using v by (simp add: file_view_def file_layout_def)
  ultimately have "0 < n" by (cases n) simp_all
  note rs = read_data_spec [OF torn_view [OF v o] r this]
  have kept: "outside_kept s n m t" using o by (simp add: torn_def)
  have bytes: "\<forall>i < j. bytes ! i \<in> contents_after s m (unat off) src k (unat off' + i)"
    if "j \<le> ?most" "reads V t m (unat off') j bytes" for j bytes
  proof (intro allI impI)
    fix i assume i: "i < j"
    then have "unat off' + i < n * bsize s" using that(1) sz by auto
    then show "bytes ! i \<in> contents_after s m (unat off) src k (unat off' + i)"
    proof -
      have "bytes ! i \<in> file_may V t m (unat off' + i)" using that(2) i by (simp add: reads_def)
      moreover have "file_may V t m (unat off' + i) \<subseteq> contents_after s m (unat off) src k (unat off' + i)"
        using o \<open>unat off' + i < n * bsize s\<close> by (simp add: torn_def)
      ultimately show ?thesis by blast
    qed
  qed
  have disk: "disk_block u c i = disk_block s c i"
    if "c < blocks_count (g_ext4 s)" "c \<notin> m ` {..<n}" "i < bsize s" for c i
    using kept rs that by (simp add: outside_kept_def same_in_def)
  consider (err) "r = Inl FS_ERR_IO" "\<not> dependable s"
    | (read) j bytes where "j \<le> ?most" "0 < ?most \<longrightarrow> 0 < j" "dependable s \<longrightarrow> j = ?most"
      "r = Inr bytes" "reads V t m (unat off') j bytes"
    using conjunct2 [OF rs] unfolding kept_dependable [OF kept]
    by (elim disjE exE conjE) (erule (1) that(1), rule that(2))
  then show ?thesis
  proof cases
    case err
    show ?thesis unfolding Let_def
      using err by (intro exI [of _ k] conjI k wk allI impI disk) simp_all
  next
    case read
    have l: "length bytes = j" using read(5) by (simp add: reads_def)
    note y = bytes [OF read(1,5)]
    have "r = Inl FS_ERR_IO \<or> (\<exists>j \<le> ?most. \<exists>bytes. (0 < ?most \<longrightarrow> 0 < j) \<and> r = Inr bytes \<and> length bytes = j \<and>
         (\<forall>i < j. bytes ! i \<in> contents_after s m (unat off) src k (unat off' + i)))"
      by (intro disjI2 exI [of _ j] exI [of _ bytes] conjI read(1,2,4) l y)
    moreover have "dependable s \<longrightarrow> k = length src \<and> (\<exists>bytes. r = Inr bytes \<and> length bytes = ?most \<and>
         (\<forall>i < ?most. bytes ! i \<in> contents_after s m (unat off) src k (unat off' + i)))"
    proof
      assume d: "dependable s"
      then have e: "j = ?most" using read(3) by simp
      show "k = length src \<and> (\<exists>bytes. r = Inr bytes \<and> length bytes = ?most \<and>
         (\<forall>i < ?most. bytes ! i \<in> contents_after s m (unat off) src k (unat off' + i)))"
        using y l unfolding e by (intro conjI all [OF d] exI [of _ bytes] read(4))
    qed
    moreover have "\<forall>c < blocks_count (g_ext4 s). c \<notin> m ` {..<n} \<longrightarrow> (\<forall>i < bsize s. disk_block u c i = disk_block s c i)"
      using disk by blast
    ultimately show ?thesis unfolding Let_def
      by (intro exI [of _ k] conjI k wk)
  qed
qed

subsection \<open>The demonstration file\<close>

lemma demo_inode_block: "inode_table_of demo_fs 0 = 5" "inode_block demo_fs 3 = 5" "inode_offset demo_fs 3 = 256"
proof -
  have g: "g_ext4 demo_fs = demo_geometry" using demo_probe by simp
  have "desc_of demo_fs 0 i = demo_group i" if "i < 16" for i
    using that demo_disk_block [of 2 i]
    by (simp add: desc_of_def disk_span_def g demo_geometry_def gdt_block_def demo_block_def)
  then show tab: "inode_table_of demo_fs 0 = 5"
    by (simp add: inode_table_of_def rd_le32_def) (simp add: demo_group_def bytes_defs)
  show "inode_block demo_fs 3 = 5" "inode_offset demo_fs 3 = 256"
    by (simp_all add: inode_block_def inode_group_def inode_offset_def g demo_geometry_def tab)
qed

lemma demo_inode_read:
  assumes "i < 128"
  shows "inode_on_disk demo_fs 3 i = demo_inode 0x81A4 600 8 256 zero_buf (256 + i)"
proof -
  have "g_ext4 demo_fs = demo_geometry" using demo_probe by simp
  then have "inode_on_disk demo_fs 3 i = demo_block 5 (256 + i)"
    using assms demo_disk_block [of 5 "256 + i"]
    by (simp add: inode_on_disk_def disk_span_def demo_inode_block demo_geometry_def)
  then show ?thesis using assms
    by (simp add: demo_block_def demo_inode_def write_extent_def bytes_defs)
qed

lemma demo_file_view: "file_view demo_fs 3 600 1 (\<lambda>_. 8)"
proof -
  have g: "g_ext4 demo_fs = demo_geometry" using demo_probe by simp
  let ?b = "\<lambda>i. demo_inode 0x81A4 600 8 256 zero_buf (256 + i)"
  note c = leaf_cong [of "inode_on_disk demo_fs 3" ?b]
  have eq: "\<forall>i < 128. inode_on_disk demo_fs 3 i = ?b i" using demo_inode_read by simp
  have leaf: "leaf_inode ?b" by code_simp
  have size1: "ext4_inode_size32 ?b = Inr 600" by code_simp
  have l0: "leaf_map ?b 0 = Inr 8" by code_simp
  have "inode_ok demo_fs 3"
    by (simp add: inode_ok_def inode_group_def demo_inode_block g demo_geometry_def word_less_nat_alt)
  then show ?thesis
    using c eq leaf size1 l0 demo_coherent demo_groups_ok
    by (simp add: file_view_def file_layout_def data_place_def demo_inode_block g demo_geometry_def gdt_end_def gdt_block_def
        word_less_nat_alt Let_def inj_on_def)
qed

lemma demo_dependable: "dependable demo_fs"
  using demo_probe by (simp add: dependable_def reliable_def demo_geometry_def)

theorem write_then_read_witness:
  "let (t, w) = ext4_write_inode_data_locked 3 10 [0x62, 0x63] demo_fs in
   snd (ext4_read_inode_data_locked 3 8 5 t) = Inr [0x61, 0x61, 0x62, 0x63, 0x61]"
proof -
  obtain t w where w: "ext4_write_inode_data_locked 3 10 [0x62, 0x63] demo_fs = (t, w)"
    by (cases "ext4_write_inode_data_locked 3 10 [0x62, 0x63] demo_fs")
  obtain u r where r: "ext4_read_inode_data_locked 3 8 5 t = (u, r)"
    by (cases "ext4_read_inode_data_locked 3 8 5 t")
  have g: "bsize demo_fs = 1024" using demo_probe by (simp add: demo_geometry_def)
  have b: "file_byte demo_fs (\<lambda>_. 8) i = 0x61" if "i < 600" for i
    using that demo_disk_block [of 8 i] by (simp add: file_byte_def g demo_block_def)
  have "[0x62, 0x63] \<noteq> ([] :: u8 list)" "unat (10 :: u32) + length [0x62, 0x63 :: u8] \<le> unat (600 :: u32)"
    by simp_all
  from write_then_read [OF demo_file_view this w r] demo_dependable
  obtain k bytes where k: "k = length [0x62, 0x63 :: u8]" and y: "r = Inr bytes" "length bytes = min (unat (5 :: u32)) (unat (600 :: u32) - unat (8 :: u32))"
    "\<forall>i < min (unat (5 :: u32)) (unat (600 :: u32) - unat (8 :: u32)). bytes ! i \<in>
      contents_after demo_fs (\<lambda>_. 8) (unat (10 :: u32)) [0x62, 0x63] k (unat (8 :: u32) + i)"
    unfolding Let_def by (elim exE conjE) (drule mp, assumption, elim exE conjE, rule that)
  have l: "length bytes = 5" using y(2) by simp
  have c: "bytes ! i \<in> contents_after demo_fs (\<lambda>_. 8) 10 [0x62, 0x63] 2 (8 + i)" if "i < 5" for i
    using y(3) that k by (simp add: numeral_2_eq_2 [symmetric])
  have "bytes = [0x61, 0x61, 0x62, 0x63, 0x61]"
  proof (rule nth_equalityI)
    fix i assume "i < length bytes"
    then have i: "i < 5" using l by simp
    then have "i = 0 \<or> i = 1 \<or> i = 2 \<or> i = 3 \<or> i = 4" by linarith
    then show "bytes ! i = [0x61, 0x61, 0x62, 0x63, 0x61] ! i"
      using c [OF i] by (elim disjE) (simp_all add: contents_after_def b)
  qed (simp add: l)
  then show ?thesis using w r y(1) by simp
qed

end
