(* ===== verification/Net_Packet.thy ===== *)
theory Net_Packet
  imports Dma_Ring
begin

text \<open>
  The lower layers of the network stack: byte order (\<open>src/net/net.h\<close>), the Ethernet driver
  (\<open>src/net/ether.c\<close>), address resolution (\<open>src/net/arp.c\<close>) and IPv4 (\<open>src/net/ip.c\<close>).

  A frame is the list of its bytes, in place of a buffer and a length. The device is a parameter:
  \<open>e_poll\<close> gives, for each time the status register is read, the frame it shows as ready (the
  value of the length register and the contents of the receive buffer), and \<open>e_log\<close> is what the
  driver has told it, newest first. The empty loops that let time pass are left out.
\<close>

subsection \<open>Bytes\<close>

type_synonym packet = "u8 list"

definition net_get_be16 :: "packet \<Rightarrow> nat \<Rightarrow> u16" where
  "net_get_be16 p i = push_bit 8 (ucast (p ! i)) OR ucast (p ! (i + 1))"

definition net_get_be32 :: "packet \<Rightarrow> nat \<Rightarrow> u32" where
  "net_get_be32 p i = push_bit 24 (ucast (p ! i)) OR push_bit 16 (ucast (p ! (i + 1)))
     OR push_bit 8 (ucast (p ! (i + 2))) OR ucast (p ! (i + 3))"

definition net_put_be16 :: "u16 \<Rightarrow> packet" where
  "net_put_be16 v = [ucast (drop_bit 8 v), ucast v]"

definition net_put_be32 :: "u32 \<Rightarrow> packet" where
  "net_put_be32 v = [ucast (drop_bit 24 v), ucast (drop_bit 16 v), ucast (drop_bit 8 v), ucast v]"

text \<open>The checksum adds 16-bit words as the processor loads them, low byte first.\<close>

fun cksum_words :: "packet \<Rightarrow> u32 \<Rightarrow> u32" where
  "cksum_words (a # b # bs) acc = cksum_words bs (acc + (ucast a OR push_bit 8 (ucast b)))"
| "cksum_words _ acc = acc"

definition cksum_odd :: "packet \<Rightarrow> u32 \<Rightarrow> u32" where
  "cksum_odd data acc = (if odd (length data) then acc + push_bit 8 (ucast (last data)) else acc)"

lemma unat_high: "unat (drop_bit 16 (s :: u32)) = unat s div 65536"
  unfolding unat_drop_bit_eq by (simp add: drop_bit_eq_div)

lemma fold_smaller:
  fixes acc :: u32
  assumes "drop_bit 16 acc \<noteq> 0"
  shows "unat ((acc AND 0xFFFF) + drop_bit 16 acc) = unat acc mod 65536 + unat acc div 65536"
    and "unat acc mod 65536 + unat acc div 65536 < unat acc"
proof -
  have m: "acc AND 0xFFFF = take_bit 16 acc" by (simp add: take_bit_eq_mask mask_eq_exp_minus_1)
  have a: "unat (acc AND 0xFFFF) = unat acc mod 65536"
    unfolding m unsigned_take_bit_eq by (simp add: take_bit_eq_mod)
  note b = unat_high [of acc]
  have "unat acc < 4294967296" by (rule unat_lt_u32)
  then have "unat acc div 65536 < 65536" by (intro less_mult_imp_div_less) simp
  then show "unat ((acc AND 0xFFFF) + drop_bit 16 acc) = unat acc mod 65536 + unat acc div 65536"
    by (simp add: unat_word_ariths a b)
  have "unat acc div 65536 \<noteq> 0" using assms b by (metis unat_eq_0_iff)
  then show "unat acc mod 65536 + unat acc div 65536 < unat acc"
    using mult_div_mod_eq [of 65536 "unat acc"] by linarith
qed

function cksum_fold :: "u32 \<Rightarrow> u32" where
  "cksum_fold acc =
     (if drop_bit 16 acc \<noteq> 0 then cksum_fold ((acc AND 0xFFFF) + drop_bit 16 acc) else acc)"
  by pat_completeness auto

termination cksum_fold
  by (relation "measure unat") (simp, simp only: in_measure fold_smaller not_False_eq_True)

declare cksum_fold.simps [simp del]

definition net_cksum :: "packet \<Rightarrow> u32 \<Rightarrow> u16" where
  "net_cksum data start = ucast (NOT (cksum_fold (cksum_odd data (cksum_words data start))))"

subsection \<open>Ethernet\<close>

datatype ether_event = Transmit u32 packet | Release_rx u32

record net =
  g_ether_mac :: packet
  g_rx_buf_iova :: u32
  g_rx_ring :: packet
  g_rx_len :: u32
  g_gw_mac :: packet
  g_gw_mac_valid :: bool
  g_ip_id :: u16
  e_iommu :: bool
  e_frame_pa :: u32
  e_poll :: "nat \<Rightarrow> (u32 \<times> packet) option"
  e_polls :: nat
  e_log :: "ether_event list"

abbreviation (input) "NET_PKT_MAX \<equiv> (2048 :: nat)"
abbreviation (input) "GUEST_IP \<equiv> (0x0A00020F :: u32)"
abbreviation (input) "GATEWAY_IP \<equiv> (0x0A000202 :: u32)"
abbreviation (input) "IPPROTO_ICMP \<equiv> (1 :: u8)"
abbreviation (input) "IPPROTO_TCP \<equiv> (6 :: u8)"
abbreviation (input) "IPPROTO_UDP \<equiv> (17 :: u8)"

text \<open>\<open>ml\<close> and \<open>mh\<close> are the values of the two MAC registers, \<open>rx_phys\<close> the address of the
  receive buffer. The base address of the registers, which the PCI bus gives, and the message to
  the log are left out.\<close>

definition ether_init :: "u32 \<Rightarrow> u32 \<Rightarrow> u32 \<Rightarrow> net \<Rightarrow> net" where
  "ether_init ml mh rx_phys n =
     (let iova = (case iommu_dma_iova (e_iommu n) rx_phys 2048 of None \<Rightarrow> rx_phys | Some a \<Rightarrow> a) in
      n\<lparr>g_ether_mac := [ucast ml, ucast (drop_bit 8 ml), ucast (drop_bit 16 ml), ucast (drop_bit 24 ml),
                        ucast mh, ucast (drop_bit 8 mh)],
        g_rx_buf_iova := iova, g_rx_len := 0, e_log := Release_rx iova # e_log n\<rparr>)"

text \<open>The frame is on the stack of the caller, at \<open>e_frame_pa\<close>.\<close>

definition ether_send :: "packet \<Rightarrow> net \<Rightarrow> net \<times> int" where
  "ether_send frame n =
     (if length frame < 14 \<or> length frame > 1514 then (n, -1)
      else case iommu_dma_iova (e_iommu n) (e_frame_pa n) (of_nat (length frame)) of
        None \<Rightarrow> (n, -1)
      | Some tx_iova \<Rightarrow> (n\<lparr>e_log := Transmit tx_iova frame # e_log n\<rparr>, 0))"

definition ether_irq_handler :: "net \<Rightarrow> net" where
  "ether_irq_handler n =
     (if g_rx_len n \<noteq> 0 then n
      else case e_poll n (e_polls n) of
        None \<Rightarrow> n\<lparr>e_polls := e_polls n + 1\<rparr>
      | Some (rx_len, bytes) \<Rightarrow>
          n\<lparr>e_polls := e_polls n + 1, g_rx_ring := bytes,
            g_rx_len := if rx_len > 0 \<and> rx_len \<le> 2048 then rx_len else g_rx_len n\<rparr>)"

definition ether_rx_ready :: "net \<Rightarrow> net \<times> bool" where
  "ether_rx_ready n =
     (if g_rx_len n \<noteq> 0 then (n, True)
      else (n\<lparr>e_polls := e_polls n + 1\<rparr>, e_poll n (e_polls n) \<noteq> None))"

text \<open>The first part of \<open>ether_recv\<close> is what the interrupt handler does. The result is the part of
  \<open>frame\<close> that is filled, empty if the return value is 0.\<close>

definition ether_recv :: "nat \<Rightarrow> net \<Rightarrow> net \<times> packet" where
  "ether_recv max_len n =
     (let n = ether_irq_handler n in
      if g_rx_len n = 0 then (n, [])
      else let k = min (unat (g_rx_len n)) max_len in
        (n\<lparr>g_rx_len := 0, e_log := Release_rx (g_rx_buf_iova n) # e_log n\<rparr>,
         map (\<lambda>i. g_rx_ring n ! i) [0..<k]))"

subsection \<open>Address resolution\<close>

definition eth_header :: "packet \<Rightarrow> packet \<Rightarrow> u8 \<Rightarrow> packet" where
  "eth_header dst src t = dst @ src @ [0x08, t]"

definition arp_request :: "packet \<Rightarrow> u32 \<Rightarrow> packet" where
  "arp_request my_mac ip =
     eth_header (replicate 6 0xFF) my_mac 0x06 @ [0, 1, 0x08, 0, 6, 4, 0, 1] @
     my_mac @ net_put_be32 GUEST_IP @ replicate 6 0 @ net_put_be32 ip"

definition arp_reply_mac :: "u32 \<Rightarrow> packet \<Rightarrow> packet option" where
  "arp_reply_mac ip buf =
     (if length buf < 42 then None
      else if buf ! 12 \<noteq> 0x08 \<or> buf ! 13 \<noteq> 0x06 then None
      else if buf ! 20 \<noteq> 0 \<or> buf ! 21 \<noteq> 2 then None
      else if net_get_be32 buf 28 \<noteq> ip then None
      else Some (take 6 (drop 22 buf)))"

primrec arp_wait :: "nat \<Rightarrow> u32 \<Rightarrow> net \<Rightarrow> net \<times> packet option" where
  "arp_wait 0 ip n = (n, None)"
| "arp_wait (Suc k) ip n =
     (case ether_recv 128 n of (n, buf) \<Rightarrow>
        (case arp_reply_mac ip buf of
           None \<Rightarrow> arp_wait k ip n
         | Some mac \<Rightarrow> (n\<lparr>g_gw_mac := mac, g_gw_mac_valid := True\<rparr>, Some mac)))"

definition arp_resolve :: "u32 \<Rightarrow> net \<Rightarrow> net \<times> packet option" where
  "arp_resolve ip n =
     (if g_gw_mac_valid n \<and> ip = GATEWAY_IP then (n, Some (g_gw_mac n))
      else arp_wait 30 ip (fst (ether_send (arp_request (g_ether_mac n) ip) n)))"

subsection \<open>IPv4\<close>

text \<open>The header is filled with a zero checksum, which is then computed and stored low byte
  first.\<close>

definition ip_header_with :: "u16 \<Rightarrow> nat \<Rightarrow> u16 \<Rightarrow> u8 \<Rightarrow> u32 \<Rightarrow> u32 \<Rightarrow> packet" where
  "ip_header_with csum iplen ident proto src_ip dst_ip =
     [0x45, 0] @ net_put_be16 (of_nat iplen) @ net_put_be16 ident @ [0, 0, 64, proto] @
     [ucast csum, ucast (drop_bit 8 csum)] @ net_put_be32 src_ip @ net_put_be32 dst_ip"

definition ip_header :: "nat \<Rightarrow> u16 \<Rightarrow> u8 \<Rightarrow> u32 \<Rightarrow> u32 \<Rightarrow> packet" where
  "ip_header iplen ident proto src_ip dst_ip =
     ip_header_with (net_cksum (ip_header_with 0 iplen ident proto src_ip dst_ip) 0) iplen ident proto src_ip dst_ip"

definition ip_frame :: "packet \<Rightarrow> packet \<Rightarrow> u16 \<Rightarrow> u8 \<Rightarrow> u32 \<Rightarrow> u32 \<Rightarrow> packet \<Rightarrow> packet" where
  "ip_frame gw_mac my_mac ident proto src_ip dst_ip payload =
     eth_header gw_mac my_mac 0x00 @ ip_header (20 + length payload) ident proto src_ip dst_ip @ payload"

definition ip_send :: "u32 \<Rightarrow> u8 \<Rightarrow> packet \<Rightarrow> net \<Rightarrow> net \<times> int" where
  "ip_send dst_ip proto payload n =
     (case arp_resolve GATEWAY_IP n of
        (n, None) \<Rightarrow> (n, -1)
      | (n, Some gw_mac) \<Rightarrow>
          ether_send (ip_frame gw_mac (g_ether_mac n) (g_ip_id n) proto GUEST_IP dst_ip payload)
            (n\<lparr>g_ip_id := g_ip_id n + 1\<rparr>))"

text \<open>The result is the protocol, the source and the payload.\<close>

definition ip_recv :: "packet \<Rightarrow> (u8 \<times> u32 \<times> packet) option" where
  "ip_recv frame =
     (if length frame < 34 then None
      else if frame ! 12 \<noteq> 0x08 \<or> frame ! 13 \<noteq> 0 then None
      else if frame ! 14 AND 0xF0 \<noteq> 0x40 then None
      else let ihl = unat (frame ! 14 AND 0x0F) * 4; iplen = unat (net_get_be16 frame 16) in
      if ihl < 20 \<or> iplen < ihl \<or> 14 + iplen > length frame then None
      else if net_cksum (take ihl (drop 14 frame)) 0 \<noteq> 0 then None
      else if net_get_be16 frame 20 AND 0x3FFF \<noteq> 0 then None
      else if net_get_be32 frame 30 \<noteq> GUEST_IP then None
      else Some (frame ! 23, net_get_be32 frame 26, take (iplen - ihl) (drop (14 + ihl) frame)))"

end
