(* ===== verification/Net_Tcp.thy ===== *)
theory Net_Tcp
  imports Net_Packet
begin

text \<open>
  TCP and the socket layer (\<open>src/net/tcp.c\<close>, \<open>src/net/socket.c\<close>). A connection is opened, used and
  closed by synchronous calls, each of which waits for the frames it needs with a bounded number
  of polls. The part of a connection's receive buffer in use is a list; its transmit buffer is
  never used. A socket is one of four static objects, known by its number, and its union is a
  datatype.
\<close>

subsection \<open>Segments\<close>

record tcp_rx =
  rx_payload :: packet
  rx_seq :: u32
  rx_ack :: u32
  rx_src_ip :: u32
  rx_src_port :: u16
  rx_dst_port :: u16
  rx_flags :: u8

datatype tcp_state = TCP_CLOSED | TCP_SYN_SENT | TCP_ESTABLISHED
  | TCP_FIN_WAIT1 | TCP_FIN_WAIT2 | TCP_CLOSING | TCP_TIME_WAIT

record tcp_sock =
  tcp_state :: tcp_state
  local_ip :: u32
  remote_ip :: u32
  local_port :: u16
  remote_port :: u16
  snd_una :: u32
  snd_nxt :: u32
  rcv_nxt :: u32
  rx_buf :: packet

abbreviation (input) "TCP_F_FIN \<equiv> (0x01 :: u8)"
abbreviation (input) "TCP_F_SYN \<equiv> (0x02 :: u8)"
abbreviation (input) "TCP_F_PSH \<equiv> (0x08 :: u8)"
abbreviation (input) "TCP_F_ACK \<equiv> (0x10 :: u8)"

definition tcp_parse_rx :: "packet \<Rightarrow> tcp_sock \<Rightarrow> tcp_rx option" where
  "tcp_parse_rx frame s =
     (case ip_recv frame of
        None \<Rightarrow> None
      | Some (proto, src_ip, seg) \<Rightarrow>
          if proto \<noteq> IPPROTO_TCP \<or> length seg < 20 then None
          else let doff = unat (drop_bit 4 (seg ! 12)) * 4 in
          if doff < 20 \<or> doff > length seg then None
          else let src_port = net_get_be16 seg 0; dst_port = net_get_be16 seg 2 in
          if dst_port \<noteq> local_port s \<or> src_port \<noteq> remote_port s then None
          else if remote_ip s \<noteq> 0 \<and> src_ip \<noteq> remote_ip s then None
          else Some \<lparr>rx_payload = drop doff seg, rx_seq = net_get_be32 seg 4, rx_ack = net_get_be32 seg 8,
                     rx_src_ip = src_ip, rx_src_port = src_port, rx_dst_port = dst_port,
                     rx_flags = seg ! 13\<rparr>)"

definition tcp_header_with :: "u16 \<Rightarrow> u16 \<Rightarrow> u16 \<Rightarrow> u32 \<Rightarrow> u32 \<Rightarrow> u8 \<Rightarrow> packet" where
  "tcp_header_with csum src_port dst_port sq ak flags =
     net_put_be16 src_port @ net_put_be16 dst_port @ net_put_be32 sq @ net_put_be32 ak @
     [0x50, flags] @ net_put_be16 4096 @ [ucast csum, ucast (drop_bit 8 csum), 0, 0]"

definition tcp_pseudo :: "u32 \<Rightarrow> u32 \<Rightarrow> nat \<Rightarrow> packet" where
  "tcp_pseudo src_ip dst_ip tcplen =
     net_put_be32 src_ip @ net_put_be32 dst_ip @ [0, IPPROTO_TCP] @ net_put_be16 (of_nat tcplen)"

definition tcp_segment :: "u32 \<Rightarrow> u32 \<Rightarrow> u16 \<Rightarrow> u16 \<Rightarrow> u32 \<Rightarrow> u32 \<Rightarrow> u8 \<Rightarrow> packet \<Rightarrow> packet" where
  "tcp_segment src_ip dst_ip src_port dst_port sq ak flags data =
     (let acc = net_cksum (tcp_pseudo src_ip dst_ip (20 + length data)) 0;
          csum = net_cksum (tcp_header_with 0 src_port dst_port sq ak flags @ data) (ucast acc) in
      tcp_header_with csum src_port dst_port sq ak flags @ data)"

definition tcp_build_pkt ::
  "u32 \<Rightarrow> u32 \<Rightarrow> u16 \<Rightarrow> u16 \<Rightarrow> u32 \<Rightarrow> u32 \<Rightarrow> u8 \<Rightarrow> packet \<Rightarrow> net \<Rightarrow> net \<times> packet option" where
  "tcp_build_pkt src_ip dst_ip src_port dst_port sq ak flags data n =
     (let my_mac = g_ether_mac n in
      case arp_resolve GATEWAY_IP n of
        (n, None) \<Rightarrow> (n, None)
      | (n, Some gw_mac) \<Rightarrow> (n, Some (ip_frame gw_mac my_mac 0 IPPROTO_TCP src_ip dst_ip
          (tcp_segment src_ip dst_ip src_port dst_port sq ak flags data))))"

text \<open>Building a packet of the connection and sending it. The result of \<open>ether_send\<close> is ignored by
  all callers, that of building by some.\<close>

definition tcp_emit :: "tcp_sock \<Rightarrow> u32 \<Rightarrow> u8 \<Rightarrow> packet \<Rightarrow> net \<Rightarrow> net \<times> bool" where
  "tcp_emit s ak flags data n =
     (case tcp_build_pkt (local_ip s) (remote_ip s) (local_port s) (remote_port s) (snd_nxt s) ak flags data n of
        (n, None) \<Rightarrow> (n, False)
      | (n, Some frame) \<Rightarrow> (fst (ether_send frame n), True))"

subsection \<open>Connections\<close>

primrec syn_wait :: "nat \<Rightarrow> tcp_sock \<Rightarrow> net \<Rightarrow> tcp_sock \<times> net \<times> int" where
  "syn_wait 0 s n = (s\<lparr>tcp_state := TCP_CLOSED\<rparr>, n, -1)"
| "syn_wait (Suc k) s n =
     (case ether_recv NET_PKT_MAX n of (n, rx) \<Rightarrow>
        if length rx < 54 then syn_wait k s n
        else (case tcp_parse_rx rx s of
            None \<Rightarrow> syn_wait k s n
          | Some r \<Rightarrow>
              if rx_flags r AND TCP_F_SYN = 0 \<or> rx_flags r AND TCP_F_ACK = 0 then syn_wait k s n
              else if rx_ack r \<noteq> snd_nxt s then syn_wait k s n
              else let s = s\<lparr>rcv_nxt := rx_seq r + 1, snd_una := rx_ack r\<rparr> in
                (case tcp_emit s (rcv_nxt s) TCP_F_ACK [] n of
                   (n, ok) \<Rightarrow> if ok then (s\<lparr>tcp_state := TCP_ESTABLISHED\<rparr>, n, 0) else (s, n, -1))))"

definition tcp_connect :: "u32 \<Rightarrow> u16 \<Rightarrow> tcp_sock \<Rightarrow> net \<Rightarrow> tcp_sock \<times> net \<times> int" where
  "tcp_connect dst_ip dst_port s n =
     (let s = s\<lparr>local_ip := GUEST_IP, remote_ip := dst_ip, remote_port := dst_port, snd_nxt := 0x10000000,
                local_port := 49152 + (ucast (0x10000000 :: u32) AND 0x3FFF), rcv_nxt := 0,
                tcp_state := TCP_CLOSED, snd_una := 0x10000000\<rparr> in
      case tcp_emit s 0 TCP_F_SYN [] n of
        (n, ok) \<Rightarrow> if \<not> ok then (s, n, -1)
                   else syn_wait 400 (s\<lparr>snd_nxt := snd_nxt s + 1, tcp_state := TCP_SYN_SENT\<rparr>) n)"

definition tcp_send :: "packet \<Rightarrow> tcp_sock \<Rightarrow> net \<Rightarrow> tcp_sock \<times> net \<times> int" where
  "tcp_send data s n =
     (if tcp_state s \<noteq> TCP_ESTABLISHED then (s, n, -1)
      else case tcp_emit s (rcv_nxt s) (TCP_F_PSH OR TCP_F_ACK) data n of
        (n, ok) \<Rightarrow> if \<not> ok then (s, n, -1)
                   else (s\<lparr>snd_nxt := snd_nxt s + of_nat (length data)\<rparr>, n, int (length data)))"

text \<open>What a segment does to a connection that waits for data; the flag says that the wait ends.\<close>

definition tcp_accept :: "tcp_rx \<Rightarrow> tcp_sock \<Rightarrow> net \<Rightarrow> tcp_sock \<times> net \<times> bool" where
  "tcp_accept r s n =
     (if rx_payload r \<noteq> [] \<and> rx_seq r = rcv_nxt s then
        let s = s\<lparr>rcv_nxt := rcv_nxt s + of_nat (length (rx_payload r)),
                  rx_buf := rx_buf s @ take (NET_PKT_MAX - length (rx_buf s)) (rx_payload r)\<rparr>;
            s = (if rx_flags r AND TCP_F_FIN \<noteq> 0
                 then s\<lparr>rcv_nxt := rcv_nxt s + 1, tcp_state := TCP_CLOSED\<rparr> else s)
        in (s, fst (tcp_emit s (rcv_nxt s) TCP_F_ACK [] n), True)
      else if rx_flags r AND TCP_F_FIN \<noteq> 0 then
        let s = s\<lparr>rcv_nxt := rcv_nxt s + 1\<rparr>
        in (s\<lparr>tcp_state := TCP_CLOSED\<rparr>, fst (tcp_emit s (rcv_nxt s) TCP_F_ACK [] n), True)
      else (s, n, False))"

primrec data_wait :: "nat \<Rightarrow> tcp_sock \<Rightarrow> net \<Rightarrow> tcp_sock \<times> net" where
  "data_wait 0 s n = (s, n)"
| "data_wait (Suc k) s n =
     (if rx_buf s \<noteq> [] then (s, n)
      else case ether_recv NET_PKT_MAX n of (n, rx) \<Rightarrow>
        if length rx < 54 then data_wait k s n
        else (case tcp_parse_rx rx s of
            None \<Rightarrow> data_wait k s n
          | Some r \<Rightarrow> (case tcp_accept r s n of
              (s, n, stop) \<Rightarrow> if stop then (s, n) else data_wait k s n)))"

text \<open>The second result is what is stored in \<open>buf\<close>, the return value its length; \<open>None\<close> is -1.\<close>

definition tcp_recv :: "nat \<Rightarrow> tcp_sock \<Rightarrow> net \<Rightarrow> tcp_sock \<times> net \<times> packet option" where
  "tcp_recv max_len s n =
     (if tcp_state s \<noteq> TCP_ESTABLISHED then (s, n, None)
      else case data_wait 400 s n of (s, n) \<Rightarrow>
        (s\<lparr>rx_buf := drop max_len (rx_buf s)\<rparr>, n, Some (take max_len (rx_buf s))))"

definition tcp_close :: "tcp_sock \<Rightarrow> net \<Rightarrow> tcp_sock \<times> net \<times> int" where
  "tcp_close s n =
     (if tcp_state s \<noteq> TCP_ESTABLISHED then (s, n, 0)
      else let s = s\<lparr>tcp_state := TCP_FIN_WAIT1\<rparr> in
        (case tcp_emit s (rcv_nxt s) (TCP_F_FIN OR TCP_F_ACK) [] n of
           (n, ok) \<Rightarrow> if \<not> ok then (s, n, -1)
                      else (s\<lparr>snd_nxt := snd_nxt s + 1, tcp_state := TCP_CLOSED\<rparr>, n, 0)))"

end
