(* ===== verification/Net_Socket.thy ===== *)
theory Net_Socket
  imports Net_Tcp
begin

text \<open>
  The socket layer (\<open>src/net/socket.c\<close>): four static sockets, each free or in use, and UDP and raw
  ICMP on top of IP. A socket pointer is its number, \<open>None\<close> the null pointer; the union in
  \<open>net_sock_t\<close> with its tag is a datatype.
\<close>

record udp_sock =
  u_local_ip :: u32
  u_local_port :: u16
  u_remote_ip :: u32
  u_remote_port :: u16

datatype net_sock = SOCK_NONE | SOCK_TCP tcp_sock | SOCK_UDP udp_sock | SOCK_RAW u32

record sockets =
  g_socks :: "net_sock list"
  g_used :: u32
  g_next_udp_port :: u16
  s_net :: net

definition zero_tcp :: tcp_sock where
  "zero_tcp = \<lparr>tcp_state = TCP_CLOSED, local_ip = 0, remote_ip = 0, local_port = 0, remote_port = 0,
     snd_una = 0, snd_nxt = 0, rcv_nxt = 0, rx_buf = []\<rparr>"

definition zero_udp :: udp_sock where
  "zero_udp = \<lparr>u_local_ip = 0, u_local_port = 0, u_remote_ip = 0, u_remote_port = 0\<rparr>"

definition sock_bit :: "nat \<Rightarrow> u32" where
  "sock_bit i = push_bit i 1"

definition net_alloc_ephemeral_port :: "sockets \<Rightarrow> sockets \<times> u16" where
  "net_alloc_ephemeral_port t =
     (let next = g_next_udp_port t + 1 in
      (t\<lparr>g_next_udp_port := if next < 49152 then 49152 else next\<rparr>, g_next_udp_port t))"

definition net_alloc_sock :: "sockets \<Rightarrow> sockets \<times> nat option" where
  "net_alloc_sock t =
     (case find (\<lambda>i. g_used t AND sock_bit i = 0) [0..<4] of
        None \<Rightarrow> (t, None)
      | Some i \<Rightarrow> (t\<lparr>g_used := g_used t OR sock_bit i, g_socks := (g_socks t)[i := SOCK_NONE]\<rparr>, Some i))"

definition net_free_sock :: "nat \<Rightarrow> sockets \<Rightarrow> sockets" where
  "net_free_sock i t = (if i < 4 then t\<lparr>g_used := g_used t AND NOT (sock_bit i)\<rparr> else t)"

definition sock_of_type :: "u32 \<Rightarrow> u32 \<Rightarrow> u32 \<Rightarrow> net_sock option" where
  "sock_of_type domain type protocol =
     (let stype = type AND 0x0F in
      if stype = 1 then Some (SOCK_TCP zero_tcp)
      else if stype = 2 then Some (SOCK_UDP zero_udp)
      else if stype = 3 \<and> domain = 2 \<and> protocol = 1 then Some (SOCK_RAW protocol)
      else None)"

definition net_socket :: "u32 \<Rightarrow> u32 \<Rightarrow> u32 \<Rightarrow> sockets \<Rightarrow> sockets \<times> nat option" where
  "net_socket domain type protocol t =
     (if domain \<noteq> 2 \<and> domain \<noteq> 1 \<and> domain \<noteq> 10 then (t, None)
      else case net_alloc_sock t of
        (t, None) \<Rightarrow> (t, None)
      | (t, Some i) \<Rightarrow> (case sock_of_type domain type protocol of
            None \<Rightarrow> (net_free_sock i t, None)
          | Some s \<Rightarrow> (t\<lparr>g_socks := (g_socks t)[i := s]\<rparr>, Some i)))"

text \<open>A call on a socket of each type; the last argument is for the types it does not support.\<close>

definition put_sock :: "nat \<Rightarrow> net_sock \<Rightarrow> sockets \<Rightarrow> sockets" where
  "put_sock i s t = t\<lparr>g_socks := (g_socks t)[i := s]\<rparr>"

definition on_tcp :: "nat \<Rightarrow> (tcp_sock \<Rightarrow> net \<Rightarrow> tcp_sock \<times> net \<times> 'r) \<Rightarrow> tcp_sock \<Rightarrow> sockets \<Rightarrow> sockets \<times> 'r" where
  "on_tcp i f s t = (case f s (s_net t) of (s, n, r) \<Rightarrow> (put_sock i (SOCK_TCP s) (t\<lparr>s_net := n\<rparr>), r))"

definition udp_of :: "nat option \<Rightarrow> sockets \<Rightarrow> (nat \<times> udp_sock) option" where
  "udp_of p t = (case p of None \<Rightarrow> None | Some i \<Rightarrow>
     (case g_socks t ! i of SOCK_UDP s \<Rightarrow> Some (i, s) | _ \<Rightarrow> None))"

definition raw_of :: "nat option \<Rightarrow> sockets \<Rightarrow> u32 option" where
  "raw_of p t = (case p of None \<Rightarrow> None | Some i \<Rightarrow>
     (case g_socks t ! i of SOCK_RAW protocol \<Rightarrow> Some protocol | _ \<Rightarrow> None))"

subsection \<open>UDP\<close>

definition net_udp_bind :: "nat option \<Rightarrow> u16 \<Rightarrow> sockets \<Rightarrow> sockets \<times> int" where
  "net_udp_bind p port t =
     (case udp_of p t of None \<Rightarrow> (t, -1)
      | Some (i, s) \<Rightarrow> (put_sock i (SOCK_UDP (s\<lparr>u_local_ip := GUEST_IP, u_local_port := port\<rparr>)) t, 0))"

text \<open>A socket without a local port gets one.\<close>

definition udp_local :: "udp_sock \<Rightarrow> sockets \<Rightarrow> sockets \<times> udp_sock" where
  "udp_local s t =
     (if u_local_port s = 0 then
        (case net_alloc_ephemeral_port t of
           (t, port) \<Rightarrow> (t, s\<lparr>u_local_ip := GUEST_IP, u_local_port := port\<rparr>))
      else (t, s))"

definition net_udp_connect :: "nat option \<Rightarrow> u32 \<Rightarrow> u16 \<Rightarrow> sockets \<Rightarrow> sockets \<times> int" where
  "net_udp_connect p ip port t =
     (case udp_of p t of None \<Rightarrow> (t, -1)
      | Some (i, s) \<Rightarrow>
          if ip = 0 \<or> port = 0 then (t, -1)
          else case udp_local s t of
            (t, s) \<Rightarrow> (put_sock i (SOCK_UDP (s\<lparr>u_remote_ip := ip, u_remote_port := port\<rparr>)) t, 0))"

definition udp_packet :: "u16 \<Rightarrow> u16 \<Rightarrow> packet \<Rightarrow> packet" where
  "udp_packet src_port dst_port d =
     net_put_be16 src_port @ net_put_be16 dst_port @ net_put_be16 (of_nat (8 + length d)) @ [0, 0] @ d"

definition net_udp_sendto :: "nat option \<Rightarrow> u32 \<Rightarrow> u16 \<Rightarrow> packet \<Rightarrow> sockets \<Rightarrow> sockets \<times> int" where
  "net_udp_sendto p ip port d t =
     (case udp_of p t of None \<Rightarrow> (t, -1)
      | Some (i, s) \<Rightarrow>
          if length d > NET_PKT_MAX - 8 then (t, -1)
          else case udp_local s t of
            (t, s) \<Rightarrow> let t = put_sock i (SOCK_UDP s) t in
              (case ip_send ip IPPROTO_UDP (udp_packet (u_local_port s) port d) (s_net t) of
                 (n, r) \<Rightarrow> (t\<lparr>s_net := n\<rparr>, if r < 0 then -1 else int (length d))))"

text \<open>What a frame gives to a UDP socket: the source and the contents, cut to \<open>max_len\<close>.\<close>

definition udp_accept :: "nat \<Rightarrow> udp_sock \<Rightarrow> packet \<Rightarrow> (u32 \<times> u16 \<times> packet) option" where
  "udp_accept max_len s rx =
     (if length rx < 42 then None
      else case ip_recv rx of
        None \<Rightarrow> None
      | Some (proto, src_ip, udph) \<Rightarrow>
          if proto \<noteq> IPPROTO_UDP \<or> length udph < 8 then None
          else let sp = net_get_be16 udph 0; dp = net_get_be16 udph 2 in
          if dp \<noteq> u_local_port s then None
          else if u_remote_ip s \<noteq> 0 \<and> src_ip \<noteq> u_remote_ip s then None
          else if u_remote_port s \<noteq> 0 \<and> sp \<noteq> u_remote_port s then None
          else let udplen = unat (net_get_be16 udph 4) in
          if udplen < 8 \<or> udplen > length udph then None
          else Some (src_ip, sp, take (min (udplen - 8) max_len) (drop 8 udph)))"

primrec udp_wait :: "nat \<Rightarrow> nat \<Rightarrow> udp_sock \<Rightarrow> net \<Rightarrow> net \<times> (u32 \<times> u16 \<times> packet) option" where
  "udp_wait 0 max_len s n = (n, None)"
| "udp_wait (Suc k) max_len s n =
     (case ether_recv NET_PKT_MAX n of (n, rx) \<Rightarrow>
        (case udp_accept max_len s rx of None \<Rightarrow> udp_wait k max_len s n | Some r \<Rightarrow> (n, Some r)))"

definition net_udp_recvfrom :: "nat option \<Rightarrow> nat \<Rightarrow> sockets \<Rightarrow> sockets \<times> (u32 \<times> u16 \<times> packet) option" where
  "net_udp_recvfrom p max_len t =
     (case udp_of p t of None \<Rightarrow> (t, None)
      | Some (i, s) \<Rightarrow> (case udp_wait 15 max_len s (s_net t) of (n, r) \<Rightarrow> (t\<lparr>s_net := n\<rparr>, r)))"

subsection \<open>Raw ICMP\<close>

definition net_raw_sendto :: "nat option \<Rightarrow> u32 \<Rightarrow> packet \<Rightarrow> sockets \<Rightarrow> sockets \<times> int" where
  "net_raw_sendto p ip d t =
     (case raw_of p t of None \<Rightarrow> (t, -1)
      | Some protocol \<Rightarrow>
          if protocol \<noteq> 1 then (t, -1)
          else if length d > NET_PKT_MAX - 20 then (t, -1)
          else case ip_send ip (ucast protocol) d (s_net t) of (n, r) \<Rightarrow> (t\<lparr>s_net := n\<rparr>, r))"

text \<open>The contents handed out are the IP packet, with its first byte overwritten.\<close>

definition raw_accept :: "nat \<Rightarrow> u32 \<Rightarrow> packet \<Rightarrow> (u32 \<times> packet) option" where
  "raw_accept max_len protocol rx =
     (if length rx < 34 then None
      else let ihl = unat (rx ! 14 AND 0x0F) * 4 in
      case ip_recv rx of
        None \<Rightarrow> None
      | Some (proto, src_ip, payload) \<Rightarrow>
          if proto \<noteq> ucast protocol then None
          else let iplen = min (ihl + length payload) max_len in
          Some (src_ip, (take iplen (drop 14 rx))[0 := 0x55]))"

primrec raw_wait :: "nat \<Rightarrow> nat \<Rightarrow> u32 \<Rightarrow> net \<Rightarrow> net \<times> (u32 \<times> packet) option" where
  "raw_wait 0 max_len protocol n = (n, None)"
| "raw_wait (Suc k) max_len protocol n =
     (case ether_recv NET_PKT_MAX n of (n, rx) \<Rightarrow>
        (case raw_accept max_len protocol rx of
           None \<Rightarrow> raw_wait k max_len protocol n | Some r \<Rightarrow> (n, Some r)))"

definition net_raw_recvfrom :: "nat option \<Rightarrow> nat \<Rightarrow> sockets \<Rightarrow> sockets \<times> (u32 \<times> packet) option" where
  "net_raw_recvfrom p max_len t =
     (case raw_of p t of None \<Rightarrow> (t, None)
      | Some protocol \<Rightarrow>
          if protocol \<noteq> 1 then (t, None)
          else case raw_wait 2000 max_len protocol (s_net t) of (n, r) \<Rightarrow> (t\<lparr>s_net := n\<rparr>, r))"

subsection \<open>Calls on any socket\<close>

definition net_connect :: "nat option \<Rightarrow> u32 \<Rightarrow> u16 \<Rightarrow> sockets \<Rightarrow> sockets \<times> int" where
  "net_connect p ip port t =
     (case p of None \<Rightarrow> (t, -1)
      | Some i \<Rightarrow> (case g_socks t ! i of
            SOCK_TCP s \<Rightarrow> on_tcp i (tcp_connect ip port) s t
          | SOCK_UDP _ \<Rightarrow> net_udp_connect p ip port t
          | _ \<Rightarrow> (t, -1)))"

definition net_send :: "nat option \<Rightarrow> packet \<Rightarrow> sockets \<Rightarrow> sockets \<times> int" where
  "net_send p data t =
     (case p of None \<Rightarrow> (t, -1)
      | Some i \<Rightarrow> (case g_socks t ! i of
            SOCK_TCP s \<Rightarrow> on_tcp i (tcp_send data) s t
          | SOCK_UDP s \<Rightarrow>
              if u_remote_ip s = 0 \<or> u_remote_port s = 0 then (t, -1)
              else net_udp_sendto p (u_remote_ip s) (u_remote_port s) data t
          | _ \<Rightarrow> (t, -1)))"

definition net_recv :: "nat option \<Rightarrow> nat \<Rightarrow> sockets \<Rightarrow> sockets \<times> packet option" where
  "net_recv p max_len t =
     (case p of None \<Rightarrow> (t, None)
      | Some i \<Rightarrow> (case g_socks t ! i of
            SOCK_TCP s \<Rightarrow> on_tcp i (tcp_recv max_len) s t
          | SOCK_UDP s \<Rightarrow>
              (case net_udp_recvfrom p max_len t of (t, r) \<Rightarrow> (t, map_option (\<lambda>(_, _, d). d) r))
          | _ \<Rightarrow> (t, None)))"

definition net_close :: "nat option \<Rightarrow> sockets \<Rightarrow> sockets \<times> int" where
  "net_close p t =
     (case p of None \<Rightarrow> (t, -1)
      | Some i \<Rightarrow>
          let t = (case g_socks t ! i of SOCK_TCP s \<Rightarrow> fst (on_tcp i tcp_close s t) | _ \<Rightarrow> t) in
          (net_free_sock i t, 0))"

definition net_poll :: "sockets \<Rightarrow> sockets" where
  "net_poll t = t\<lparr>s_net := fst (ether_recv NET_PKT_MAX (s_net t))\<rparr>"

end
