(* ===== verification/Net_Props.thy ===== *)
theory Net_Props
  imports Net_Socket
begin

text \<open>
  What the network stack's own packets mean to it: a packet that \<open>ip_send\<close> builds passes the checks
  of \<open>ip_recv\<close>, its checksum included, and a segment or datagram arrives with the fields it was
  built from.
\<close>

subsection \<open>Byte order\<close>

lemma be16_roundtrip: "net_get_be16 (net_put_be16 v @ ys) 0 = v"
  unfolding net_get_be16_def net_put_be16_def
  by (rule bit_word_eqI) (auto simp: bit_simps)

lemma be32_roundtrip: "net_get_be32 (net_put_be32 v @ ys) 0 = v"
  unfolding net_get_be32_def net_put_be32_def
  apply (rule bit_word_eqI)
  apply (auto simp: bit_simps)
  subgoal for n by (cases "n < 16") auto
  subgoal for n by (cases "n < 16"; cases "n < 24") auto
  done

lemma get_be_append:
  "length xs = k \<Longrightarrow> net_get_be16 (xs @ ys) k = net_get_be16 ys 0"
  "length xs = k \<Longrightarrow> net_get_be32 (xs @ ys) k = net_get_be32 ys 0"
  by (auto simp: net_get_be16_def net_get_be32_def nth_append numeral_2_eq_2 numeral_3_eq_3)

lemma put_be_length [simp]: "length (net_put_be16 v) = 2" "length (net_put_be32 w) = 4"
  by (simp_all add: net_put_be16_def net_put_be32_def)

subsection \<open>The checksum\<close>

fun le_sum :: "packet \<Rightarrow> nat" where
  "le_sum (a # b # bs) = unat a + 256 * unat b + le_sum bs"
| "le_sum _ = 0"

lemma unat_le_word: "unat (ucast (a :: u8) OR push_bit 8 (ucast (b :: u8)) :: u32) = unat a + 256 * unat b"
proof -
  have d: "ucast a AND push_bit 8 (ucast b) = (0 :: u32)"
    by (rule bit_word_eqI) (auto simp: bit_simps dest: bit_imp_le_length)
  have "ucast a OR push_bit 8 (ucast b) = (ucast a + push_bit 8 (ucast b) :: u32)"
    using d by (simp add: disjunctive_add_eq_or)
  moreover have "unat a < 256" "unat b < 256" using unsigned_less [of a] unsigned_less [of b] by simp_all
  ultimately show ?thesis
    by (simp add: unat_word_ariths push_bit_eq_mult unsigned_ucast_eq take_bit_nat_eq_self)
qed

lemma cksum_words_nat:
  "unat s + le_sum data < 2 ^ 32 \<Longrightarrow> unat (cksum_words data s) = unat s + le_sum data"
proof (induction data s rule: cksum_words.induct)
  case (1 a b bs s)
  have "unat (s + (ucast a OR push_bit 8 (ucast b))) = unat s + (unat a + 256 * unat b)"
    using 1(2) by (simp add: unat_word_ariths unat_le_word)
  then show ?case using 1 by simp
qed auto

lemma cksum_fold_nat:
  "unat (cksum_fold s) < 65536 \<and> unat (cksum_fold s) mod 65535 = unat s mod 65535 \<and> (cksum_fold s = 0 \<longleftrightarrow> s = 0)"
proof (induction s rule: cksum_fold.induct)
  case (1 s)
  show ?case
  proof (cases "drop_bit 16 s = 0")
    case True
    have "unat s div 65536 = 0" using True unat_high [of s] by simp
    then have "unat s < 65536" by (simp add: div_eq_0_iff)
    then show ?thesis using True by (simp add: cksum_fold.simps)
  next
    case False
    let ?t = "(s AND 0xFFFF) + drop_bit 16 s"
    note f = fold_smaller [OF False]
    have "unat s = unat s mod 65536 + unat s div 65536 + 65535 * (unat s div 65536)"
      using mult_div_mod_eq [of 65536 "unat s"] by linarith
    then have m: "unat ?t mod 65535 = unat s mod 65535" unfolding f(1) by (metis mod_mult_self2)
    have "?t \<noteq> 0"
    proof
      assume "?t = 0"
      then have "unat s mod 65536 + unat s div 65536 = 0" using f(1) by simp
      then show False using False mult_div_mod_eq [of 65536 "unat s"] by simp
    qed
    moreover have "s \<noteq> 0" using False by auto
    ultimately show ?thesis using 1 [OF False] m False by (simp add: cksum_fold.simps [of s])
  qed
qed

lemma unat_not_u16: "unat (NOT (x :: u16)) = 65535 - unat x"
proof -
  have "NOT x = - 1 - x" by (simp add: not_eq_complement)
  moreover have "unat (- 1 - x) = unat (- 1 :: u16) - unat x" by (rule unat_sub) simp
  moreover have "unat (- 1 :: u16) = 65535" by (simp add: unsigned_minus_1_eq_mask mask_eq_exp_minus_1)
  ultimately show ?thesis by simp
qed

text \<open>The value of the checksum, for data of even length.\<close>

lemma net_cksum_nat:
  assumes "even (length data)" and "le_sum data < 2 ^ 32"
  shows "unat (net_cksum data 0) = 65535 - (if le_sum data = 0 then 0 else (le_sum data - 1) mod 65535 + 1)"
proof -
  let ?s = "cksum_words data 0" and ?f = "cksum_fold (cksum_words data 0)"
  have s: "unat ?s = le_sum data" using cksum_words_nat [of 0 data] assms(2) by simp
  have f: "unat ?f < 65536" "unat ?f mod 65535 = unat ?s mod 65535" "?f = 0 \<longleftrightarrow> ?s = 0"
    using cksum_fold_nat [of ?s] by blast+
  have z: "?s = 0 \<longleftrightarrow> le_sum data = 0" using s by (metis unat_eq_0_iff)
  have v: "unat ?f = (if le_sum data = 0 then 0 else (le_sum data - 1) mod 65535 + 1)"
  proof (cases "le_sum data = 0")
    case True
    then show ?thesis using f(3) z by simp
  next
    case False
    then obtain m where m: "le_sum data = Suc m" by (cases "le_sum data") auto
    have "unat ?f \<noteq> 0" using False f(3) z by simp
    then obtain k where k: "unat ?f = Suc k" by (cases "unat ?f") auto
    have "Suc k mod 65535 = Suc m mod 65535" using f(2) s k m by simp
    then have "(Suc k + 65534) mod 65535 = (Suc m + 65534) mod 65535" by (intro mod_add_cong refl)
    then have "k mod 65535 = m mod 65535" by simp
    moreover have "k < 65535" using f(1) k by simp
    ultimately show ?thesis using k m by simp
  qed
  have "net_cksum data 0 = NOT (ucast ?f :: u16)"
    unfolding net_cksum_def cksum_odd_def using assms(1)
    by (intro bit_word_eqI) (auto simp: bit_simps)
  moreover have "unat (ucast ?f :: u16) = unat ?f" using f(1) by (simp add: unsigned_ucast_eq take_bit_eq_mod)
  ultimately show ?thesis using v by (simp add: unat_not_u16)
qed

lemma le_sum_append: "even (length xs) \<Longrightarrow> le_sum (xs @ ys) = le_sum xs + le_sum ys"
  by (induction xs rule: le_sum.induct) auto

text \<open>Data that contains its own checksum, at an even offset, has checksum 0.\<close>

lemma net_cksum_verifies:
  assumes "even (length xs)" and "even (length ys)" and "le_sum (xs @ ys) + 65536 < 2 ^ 32"
    and c: "c = net_cksum (xs @ [0, 0] @ ys) 0"
  shows "net_cksum (xs @ [ucast c, ucast (drop_bit 8 c)] @ ys) 0 = 0"
proof -
  let ?S = "le_sum (xs @ ys)"
  have l0: "le_sum (xs @ [0, 0] @ ys) = ?S" using assms(1) by (simp add: le_sum_append)
  then have v: "unat c = 65535 - (if ?S = 0 then 0 else (?S - 1) mod 65535 + 1)"
    using net_cksum_nat [of "xs @ [0, 0] @ ys"] assms by simp
  have lt: "unat c < 65536" using unsigned_less [of c] by simp
  have "unat (ucast c :: u8) = unat c mod 256" "unat (ucast (drop_bit 8 c) :: u8) = unat c div 256"
  proof -
    have "unat (drop_bit 8 c) = unat c div 256" unfolding unat_drop_bit_eq by (simp add: drop_bit_eq_div)
    moreover have "unat c div 256 < 256" using lt by (intro less_mult_imp_div_less) simp
    ultimately show "unat (ucast c :: u8) = unat c mod 256" "unat (ucast (drop_bit 8 c) :: u8) = unat c div 256"
      by (simp_all add: unsigned_ucast_eq take_bit_eq_mod)
  qed
  then have l1: "le_sum (xs @ [ucast c, ucast (drop_bit 8 c)] @ ys) = ?S + unat c"
    using assms(1) by (simp add: le_sum_append)
  have pos: "?S + unat c > 0" and div: "(?S + unat c - 1) mod 65535 + 1 = 65535"
  proof -
    show "?S + unat c > 0" using v by (cases "?S = 0") simp_all
    show "(?S + unat c - 1) mod 65535 + 1 = 65535"
    proof (cases "?S = 0")
      case True
      then show ?thesis using v by simp
    next
      case False
      then obtain m where m: "?S = Suc m" by (cases ?S) auto
      have "m mod 65535 < 65535" by simp
      then have "?S + unat c - 1 = m - m mod 65535 + 65534"
        using v m mod_less_eq_dividend [of m 65535] by simp
      also have "m - m mod 65535 = 65535 * (m div 65535)" by (simp add: minus_mod_eq_mult_div)
      finally show ?thesis by simp
    qed
  qed
  have "unat (net_cksum (xs @ [ucast c, ucast (drop_bit 8 c)] @ ys) 0) = 0"
    using net_cksum_nat [of "xs @ [ucast c, ucast (drop_bit 8 c)] @ ys"] assms(1-3) l1 lt pos div
    by (simp add: unat_gt_0)
  then show ?thesis by simp
qed

subsection \<open>IPv4 packets\<close>

lemma le_sum_bound: "le_sum xs \<le> 32768 * length xs"
proof (induction xs rule: le_sum.induct)
  case (1 a b bs)
  have "unat a < 256" "unat b < 256" using unsigned_less [of a] unsigned_less [of b] by simp_all
  then show ?case using 1 by simp
qed auto

lemma ip_header_length [simp]: "length (ip_header iplen ident proto src_ip dst_ip) = 20"
  by (simp add: ip_header_def ip_header_with_def)

lemma ip_header_verifies: "net_cksum (ip_header iplen ident proto src_ip dst_ip) 0 = 0"
proof -
  let ?xs = "[0x45, 0] @ net_put_be16 (of_nat iplen) @ net_put_be16 ident @ [0, 0, 64, proto]"
  let ?ys = "net_put_be32 src_ip @ net_put_be32 dst_ip"
  have h: "ip_header_with c iplen ident proto src_ip dst_ip = ?xs @ [ucast c, ucast (drop_bit 8 c)] @ ?ys" for c
    by (simp add: ip_header_with_def)
  have z: "ip_header_with 0 iplen ident proto src_ip dst_ip = ?xs @ [0, 0] @ ?ys" unfolding h by simp
  have "le_sum (?xs @ ?ys) + 65536 < 2 ^ 32" using le_sum_bound [of "?xs @ ?ys"] by simp
  then show ?thesis
    unfolding ip_header_def h z by (intro net_cksum_verifies) simp_all
qed

lemma eth_header_length: "length gw = 6 \<Longrightarrow> length my = 6 \<Longrightarrow> length (eth_header gw my t) = 14"
  by (simp add: eth_header_def)

lemma unat_of_nat_u16: "n < 65536 \<Longrightarrow> unat (of_nat n :: u16) = n"
  by (simp add: unat_of_nat take_bit_nat_eq_self)

text \<open>The fields of a frame, at their places in the bytes.\<close>

lemma ip_frame_layout:
  fixes gw my ident proto src_ip dst_ip payload
  defines "f \<equiv> ip_frame gw my ident proto src_ip dst_ip payload"
  assumes mac: "length gw = 6" "length my = 6"
  shows "length f = 34 + length payload" "take 6 f = gw" "take 6 (drop 6 f) = my" "f ! 12 = 0x08" "f ! 13 = 0"
    "f ! 14 = 0x45" "net_get_be16 f 16 = of_nat (20 + length payload)" "net_get_be16 f 20 = 0" "f ! 23 = proto"
    "net_get_be32 f 26 = src_ip" "net_get_be32 f 30 = dst_ip" "drop 34 f = payload"
    "take 20 (drop 14 f) = ip_header (20 + length payload) ident proto src_ip dst_ip"
proof -
  let ?E = "eth_header gw my 0" and ?H = "ip_header (20 + length payload) ident proto src_ip dst_ip"
  let ?f = "?E @ ?H @ payload"
  have f: "f = ?f" by (simp add: f_def ip_frame_def)
  have e: "length ?E = 14" by (rule eth_header_length [OF mac])
  define c where "c = net_cksum (ip_header_with 0 (20 + length payload) ident proto src_ip dst_ip) 0"
  have h: "?H = [0x45, 0] @ net_put_be16 (of_nat (20 + length payload)) @ net_put_be16 ident @
      [0, 0, 64, proto] @ [ucast c, ucast (drop_bit 8 c)] @ net_put_be32 src_ip @ net_put_be32 dst_ip"
    unfolding ip_header_def c_def [symmetric] unfolding ip_header_with_def by simp
  have low: "?f ! (14 + k) = ?H ! k" if "k < 20" for k using that e by (simp add: nth_append)
  show "length f = 34 + length payload" "drop 34 f = payload" "take 20 (drop 14 f) = ?H"
    using e by (simp_all add: f)
  show "f ! 12 = 0x08" "f ! 13 = 0" using mac by (simp_all add: f eth_header_def nth_append)
  show "take 6 f = gw" "take 6 (drop 6 f) = my" using mac by (simp_all add: f eth_header_def)
  show "f ! 14 = 0x45" using low [of 0] by (simp add: f h)
  show "f ! 23 = proto" using low [of 9] by (simp add: f h net_put_be16_def)
  show "net_get_be16 f 16 = of_nat (20 + length payload)"
    using get_be_append(1) [of "?E @ [0x45, 0]" 16] be16_roundtrip e by (simp add: f h)
  show "net_get_be16 f 20 = 0"
    using get_be_append(1) [of "?E @ [0x45, 0] @ net_put_be16 (of_nat (20 + length payload)) @ net_put_be16 ident" 20]
      e by (simp add: f h net_get_be16_def)
  show "net_get_be32 f 26 = src_ip"
    using get_be_append(2) [of "?E @ take 12 ?H" 26] be32_roundtrip e by (simp add: f h net_put_be16_def)
  show "net_get_be32 f 30 = dst_ip"
    using get_be_append(2) [of "?E @ take 16 ?H" 30] be32_roundtrip e
    by (simp add: f h net_put_be16_def net_put_be32_def [of src_ip])
qed

lemma ip_recv_frame:
  assumes mac: "length gw = 6" "length my = 6" and len: "length payload < 65516"
  shows "ip_recv (ip_frame gw my ident proto src_ip GUEST_IP payload) = Some (proto, src_ip, payload)"
proof -
  note l = ip_frame_layout [OF mac, where payload = payload and ident = ident and proto = proto
      and src_ip = src_ip and dst_ip = GUEST_IP]
  have ck: "net_cksum (take 20 (drop 14 (ip_frame gw my ident proto src_ip GUEST_IP payload))) 0 = 0"
    unfolding l(13) by (rule ip_header_verifies)
  have iplen: "unat (of_nat (20 + length payload) :: u16) = 20 + length payload"
    using len by (intro unat_of_nat_u16) simp
  have nibbles: "(0x45 :: u8) AND 0xF0 = 0x40" "unat ((0x45 :: u8) AND 0x0F) * 4 = 20" by simp_all
  show ?thesis
    unfolding ip_recv_def Let_def l(6,7) nibbles iplen using l ck by simp
qed

subsection \<open>Sums of 16-bit words\<close>

text \<open>What the standards add: the words of the data in network order. Data of odd length has a last
  byte without a partner; the code pairs it with a zero in front, \<open>odd_last\<close>.\<close>

fun word_sum :: "packet \<Rightarrow> nat" where
  "word_sum (a # b # bs) = 256 * unat a + unat b + word_sum bs"
| "word_sum _ = 0"

definition odd_last :: "packet \<Rightarrow> packet" where
  "odd_last data = (if odd (length data) then butlast data @ [0, last data] else data)"

lemma word_sum_le_sum: "256 * le_sum xs mod 65535 = word_sum xs mod 65535"
proof -
  have "\<exists>m. 256 * le_sum xs = word_sum xs + 65535 * m"
  proof (induction xs rule: le_sum.induct)
    case (1 a b bs)
    then obtain m where "256 * le_sum bs = word_sum bs + 65535 * m" by blast
    then have "256 * le_sum (a # b # bs) = word_sum (a # b # bs) + 65535 * (unat b + m)" by simp
    then show ?case by blast
  qed auto
  then show ?thesis by auto
qed

lemma le_sum_odd_last: "odd (length data) \<Longrightarrow> le_sum (odd_last data) = le_sum data + 256 * unat (last data)"
proof -
  assume o: "odd (length data)"
  then have ne: "data \<noteq> []" by auto
  have e: "even (length (butlast data))" using o by simp
  have "le_sum data = le_sum (butlast data @ [last data])" using ne by simp
  also have "\<dots> = le_sum (butlast data)" using le_sum_append [OF e, of "[last data]"] by simp
  finally show ?thesis using o le_sum_append [OF e, of "[0, last data]"] by (simp add: odd_last_def)
qed

lemma mod_cancel:
  fixes a p q m :: nat
  assumes "(a + p) mod m = (a + q) mod m"
  shows "p mod m = q mod m"
proof -
  have "int (a + p) mod int m = int (a + q) mod int m" using assms by (metis zmod_int)
  then have "int m dvd int (a + p) - int (a + q)" by (simp only: mod_eq_dvd_iff)
  then have "int m dvd int p - int q" by simp
  then have "int p mod int m = int q mod int m" by (simp only: mod_eq_dvd_iff)
  then show ?thesis by (metis zmod_int of_nat_eq_iff)
qed

text \<open>The checksum brings the sum to a multiple of \<open>65535\<close>.\<close>

lemma net_cksum_sum:
  assumes b: "unat start + le_sum (odd_last data) < 2 ^ 32"
  shows "(unat (net_cksum data start) + unat start + le_sum (odd_last data)) mod 65535 = 0"
proof -
  let ?w = "cksum_words data start" and ?s = "cksum_odd data (cksum_words data start)"
  have s: "unat ?s = unat start + le_sum (odd_last data)"
  proof (cases "odd (length data)")
    case False
    then show ?thesis using cksum_words_nat [of start data] b by (simp add: cksum_odd_def odd_last_def)
  next
    case True
    have l: "unat (last data) < 256" using unsigned_less [of "last data"] by simp
    have w: "unat ?w = unat start + le_sum data" using cksum_words_nat [of start data] b le_sum_odd_last [OF True] by simp
    have "unat (push_bit 8 (ucast (last data)) :: u32) = 256 * unat (last data)"
      using unat_le_word [of 0 "last data"] by simp
    then show ?thesis using True w b le_sum_odd_last [OF True] by (simp add: cksum_odd_def unat_word_ariths)
  qed
  let ?f = "cksum_fold ?s"
  have f: "unat ?f < 65536" "unat ?f mod 65535 = unat ?s mod 65535" using cksum_fold_nat [of ?s] by blast+
  have "net_cksum data start = NOT (ucast ?f :: u16)"
    unfolding net_cksum_def by (intro bit_word_eqI) (auto simp: bit_simps)
  moreover have "unat (ucast ?f :: u16) = unat ?f" using f(1) by (simp add: unsigned_ucast_eq take_bit_eq_mod)
  ultimately have c: "unat (net_cksum data start) + unat ?f = 65535" using f(1) by (simp add: unat_not_u16)
  have "(unat (net_cksum data start) + unat ?s) mod 65535 = (unat (net_cksum data start) + unat ?f) mod 65535"
    by (rule mod_add_cong) (simp_all add: f)
  then show ?thesis using c s by (simp add: add.assoc)
qed

lemma ip_header_sum: "word_sum (ip_header iplen ident proto src_ip dst_ip) mod 65535 = 0"
proof -
  let ?H = "ip_header iplen ident proto src_ip dst_ip"
  have o: "odd_last ?H = ?H" by (simp add: odd_last_def)
  have "le_sum ?H < 2 ^ 32" using le_sum_bound [of ?H] by simp
  then have "le_sum ?H mod 65535 = 0"
    using net_cksum_sum [of 0 ?H] ip_header_verifies [of iplen ident proto src_ip dst_ip] o by simp
  then have "256 * le_sum ?H mod 65535 = 0" by (metis mod_mult_right_eq mult_0_right mod_0)
  then show ?thesis using word_sum_le_sum [of ?H] by simp
qed

subsection \<open>Segments and datagrams\<close>

lemma tcp_header_length [simp]: "length (tcp_header_with c sp dp sq ak fl) = 20"
  by (simp add: tcp_header_with_def)

text \<open>The checksum of a segment makes the sum of its words the sum of the words of the pseudo header.\<close>

lemma bytes_of_u16:
  fixes c :: u16
  shows "unat (ucast c :: u8) + 256 * unat (ucast (drop_bit 8 c) :: u8) = unat c"
proof -
  have lt: "unat c < 65536" using unsigned_less [of c] by simp
  have "unat (drop_bit 8 c) = unat c div 256" unfolding unat_drop_bit_eq by (simp add: drop_bit_eq_div)
  moreover have "unat c div 256 < 256" using lt by (intro less_mult_imp_div_less) simp
  ultimately have "unat (ucast c :: u8) = unat c mod 256" "unat (ucast (drop_bit 8 c) :: u8) = unat c div 256"
    by (simp_all add: unsigned_ucast_eq take_bit_eq_mod)
  then show ?thesis by simp
qed

lemma odd_last_append: "even (length xs) \<Longrightarrow> odd_last (xs @ ys) = xs @ odd_last ys"
  by (cases "ys = []") (auto simp: odd_last_def butlast_append)

lemma tcp_segment_sum:
  assumes len: "length data \<le> 1460"
  shows "word_sum (odd_last (tcp_segment src_ip dst_ip sp dp sq ak fl data)) mod 65535 =
    word_sum (tcp_pseudo src_ip dst_ip (20 + length data)) mod 65535"
proof -
  let ?P = "tcp_pseudo src_ip dst_ip (20 + length data)"
  let ?xs = "net_put_be16 sp @ net_put_be16 dp @ net_put_be32 sq @ net_put_be32 ak @ [0x50, fl] @ net_put_be16 4096"
  define h where "h c = ?xs @ [ucast c, ucast (drop_bit 8 c)] @ [0, 0]" for c :: u16
  have hw: "tcp_header_with c sp dp sq ak fl = h c" for c by (simp add: tcp_header_with_def h_def)
  define a where "a = net_cksum ?P 0"
  define c where "c = net_cksum (h 0 @ data) (ucast a)"
  have seg: "tcp_segment src_ip dst_ip sp dp sq ak fl data = h c @ data"
    by (simp add: tcp_segment_def Let_def hw a_def c_def)
  have oP: "odd_last ?P = ?P" by (simp add: odd_last_def tcp_pseudo_def)
  have a16: "unat a < 65536" using unsigned_less [of a] by simp
  then have ua: "unat (ucast a :: u32) = unat a" "unat a < 65536"
    by (simp_all add: unsigned_ucast_eq take_bit_nat_eq_self)
  have le: "le_sum (odd_last (h c @ data)) = le_sum (odd_last (h 0 @ data)) + unat c" for c
  proof -
    have e: "even (length (h c))" "even (length ?xs)" for c by (simp_all add: h_def)
    have "le_sum (h c) = le_sum (h 0) + unat c"
      unfolding h_def le_sum_append [OF e(2)] using bytes_of_u16 [of c] by simp
    then show ?thesis unfolding odd_last_append [OF e(1)] le_sum_append [OF e(1)] by simp
  qed
  have bound: "le_sum (odd_last (h 0 @ data)) \<le> 32768 * 1482"
  proof -
    have "length (odd_last (h 0 @ data)) \<le> 1482" using len by (simp add: odd_last_def h_def)
    then have "32768 * length (odd_last (h 0 @ data)) \<le> 32768 * 1482" by (intro mult_le_mono2)
    then show ?thesis using le_sum_bound [of "odd_last (h 0 @ data)"] by (rule order_trans [rotated])
  qed
  have "length ?P = 12" by (simp add: tcp_pseudo_def)
  then have "le_sum ?P < 2 ^ 32" using le_sum_bound [of ?P] by simp
  then have 1: "(unat a + le_sum ?P) mod 65535 = 0" using net_cksum_sum [of 0 ?P] oP by (simp add: a_def)
  have "unat (ucast a :: u32) + le_sum (odd_last (h 0 @ data)) < 2 ^ 32" using bound ua by simp
  from net_cksum_sum [OF this] have 2: "(unat c + unat a + le_sum (odd_last (h 0 @ data))) mod 65535 = 0"
    unfolding ua by (simp add: c_def)
  have "le_sum (odd_last (h c @ data)) mod 65535 = le_sum ?P mod 65535"
  proof -
    have "(unat a + le_sum (odd_last (h c @ data))) mod 65535 = (unat a + le_sum ?P) mod 65535"
      using 1 2 unfolding le [of c] by (simp only: ac_simps)
    then show ?thesis by (rule mod_cancel)
  qed
  then have "256 * le_sum (odd_last (h c @ data)) mod 65535 = 256 * le_sum ?P mod 65535"
    by (metis mod_mult_right_eq)
  then show ?thesis unfolding seg word_sum_le_sum .
qed

text \<open>The fields of a segment and of a datagram, at their places.\<close>

lemma tcp_segment_layout:
  fixes src_ip dst_ip sp dp sq ak fl data
  defines "seg \<equiv> tcp_segment src_ip dst_ip sp dp sq ak fl data"
  shows "length seg = 20 + length data" "net_get_be16 seg 0 = sp" "net_get_be16 seg 2 = dp" "net_get_be32 seg 4 = sq"
    "net_get_be32 seg 8 = ak" "seg ! 12 = 0x50" "seg ! 13 = fl" "net_get_be16 seg 14 = 4096" "drop 20 seg = data"
proof -
  obtain c where s: "seg = tcp_header_with c sp dp sq ak fl @ data"
    by (simp add: seg_def tcp_segment_def Let_def)
  show "length seg = 20 + length data" "drop 20 seg = data" by (simp_all add: s)
  show "net_get_be16 seg 0 = sp" "net_get_be16 seg 2 = dp" "net_get_be32 seg 4 = sq" "net_get_be32 seg 8 = ak"
    using be16_roundtrip [of sp] be32_roundtrip get_be_append(1) [of "net_put_be16 sp" 2]
      be16_roundtrip [of dp] get_be_append(2) [of "net_put_be16 sp @ net_put_be16 dp" 4]
      get_be_append(2) [of "net_put_be16 sp @ net_put_be16 dp @ net_put_be32 sq" 8]
    by (simp_all add: s tcp_header_with_def)
  show "seg ! 12 = 0x50" "seg ! 13 = fl"
    by (simp_all add: s tcp_header_with_def net_put_be16_def net_put_be32_def)
  show "net_get_be16 seg 14 = 4096"
    using be16_roundtrip [of 4096] get_be_append(1) [of "net_put_be16 sp @ net_put_be16 dp @ net_put_be32 sq @
        net_put_be32 ak @ [0x50, fl]" 14] by (simp add: s tcp_header_with_def)
qed

lemma udp_packet_layout:
  "length (udp_packet sp dp d) = 8 + length d" "net_get_be16 (udp_packet sp dp d) 0 = sp"
  "net_get_be16 (udp_packet sp dp d) 2 = dp" "net_get_be16 (udp_packet sp dp d) 4 = of_nat (8 + length d)"
  "net_get_be16 (udp_packet sp dp d) 6 = 0" "drop 8 (udp_packet sp dp d) = d"
  using be16_roundtrip [of sp] be16_roundtrip [of dp] be16_roundtrip [of "of_nat (8 + length d)"]
    get_be_append(1) [of "net_put_be16 sp" 2] get_be_append(1) [of "net_put_be16 sp @ net_put_be16 dp" 4]
    get_be_append(1) [of "net_put_be16 sp @ net_put_be16 dp @ net_put_be16 (of_nat (8 + length d))" 6]
  by (simp_all add: udp_packet_def net_get_be16_def)

lemma tcp_parse_frame:
  assumes mac: "length gw = 6" "length my = 6" and len: "length data < 65496"
    and ports: "local_port s = dp" "remote_port s = sp" and peer: "remote_ip s = 0 \<or> src_ip = remote_ip s"
  shows "tcp_parse_rx (ip_frame gw my ident IPPROTO_TCP src_ip GUEST_IP
      (tcp_segment src_ip dst_ip sp dp sq ak fl data)) s =
    Some \<lparr>rx_payload = data, rx_seq = sq, rx_ack = ak, rx_src_ip = src_ip, rx_src_port = sp,
          rx_dst_port = dp, rx_flags = fl\<rparr>"
proof -
  let ?s = "tcp_segment src_ip dst_ip sp dp sq ak fl data"
  note l = tcp_segment_layout [of src_ip dst_ip sp dp sq ak fl data]
  have n: "unat (drop_bit 4 (0x50 :: u8)) * 4 = 20" by simp
  show ?thesis
    using ip_recv_frame [OF mac, of ?s ident IPPROTO_TCP src_ip] len l n ports peer
    by (simp add: tcp_parse_rx_def Let_def)
qed

lemma udp_accept_frame:
  assumes mac: "length gw = 6" "length my = 6" and len: "length d < 65508"
    and port: "u_local_port s = dp" and peer: "u_remote_ip s = 0 \<or> src_ip = u_remote_ip s"
      "u_remote_port s = 0 \<or> sp = u_remote_port s"
  shows "udp_accept max_len s (ip_frame gw my ident IPPROTO_UDP src_ip GUEST_IP (udp_packet sp dp d)) =
    Some (src_ip, sp, take max_len d)"
proof -
  note l = udp_packet_layout [of sp dp d]
  have u: "unat (of_nat (8 + length d) :: u16) = 8 + length d" using len by (intro unat_of_nat_u16) simp
  have "42 \<le> length (ip_frame gw my ident IPPROTO_UDP src_ip GUEST_IP (udp_packet sp dp d))"
    using ip_frame_layout(1) [OF mac, of ident IPPROTO_UDP src_ip GUEST_IP "udp_packet sp dp d"] l(1) by simp
  then show ?thesis
    using ip_recv_frame [OF mac, of "udp_packet sp dp d" ident IPPROTO_UDP src_ip] len l u port peer
    by (simp add: udp_accept_def Let_def min_def not_less)
qed

subsection \<open>What sending transmits\<close>

definition quiet :: "net \<Rightarrow> net \<Rightarrow> bool" where
  "quiet n n' \<longleftrightarrow> e_poll n' = e_poll n \<and> g_ether_mac n' = g_ether_mac n \<and> (g_rx_len n = 0 \<longrightarrow> g_rx_len n' = 0)"

lemma quiet_refl [simp]: "quiet n n"
  by (simp add: quiet_def)

lemma quiet_trans: "quiet a b \<Longrightarrow> quiet b c \<Longrightarrow> quiet a c"
  by (simp add: quiet_def)

lemma ether_send_quiet: "quiet n (fst (ether_send f n))"
  by (simp add: ether_send_def quiet_def split: option.splits)

lemma ether_recv_quiet: "ether_recv k n = (n', f) \<Longrightarrow> quiet n n' \<and> g_rx_len n' = 0"
  by (auto simp: ether_recv_def ether_irq_handler_def quiet_def Let_def split: option.splits if_splits)

lemma arp_wait_quiet: "arp_wait k ip n = (n', r) \<Longrightarrow> quiet n n'"
proof (induction k arbitrary: n)
  case (Suc k)
  obtain m f where m: "ether_recv 128 n = (m, f)" by (cases "ether_recv 128 n")
  have q: "quiet n m" using ether_recv_quiet [OF m] by simp
  show ?case
  proof (cases "arp_reply_mac ip f")
    case None
    then show ?thesis using Suc m quiet_trans [OF q] by simp
  next
    case (Some mac)
    then show ?thesis using Suc.prems m q by (auto simp: quiet_def)
  qed
qed simp

lemma arp_resolve_quiet: "arp_resolve ip n = (n', r) \<Longrightarrow> quiet n n'"
  using arp_wait_quiet [of 30 ip "fst (ether_send (arp_request (g_ether_mac n) ip) n)"]
    quiet_trans [OF ether_send_quiet]
  by (auto simp: arp_resolve_def split: if_splits)

lemma tcp_emit_quiet: "tcp_emit s ak fl data n = (n', ok) \<Longrightarrow> quiet n n'"
  using arp_resolve_quiet [of GATEWAY_IP n] quiet_trans [OF _ ether_send_quiet]
  by (auto simp: tcp_emit_def tcp_build_pkt_def Let_def split: prod.splits option.splits)

text \<open>The gateway's address, once known, has six bytes, and so has the card's.\<close>

definition macs_ok :: "net \<Rightarrow> bool" where
  "macs_ok n \<longleftrightarrow> length (g_ether_mac n) = 6 \<and> (g_gw_mac_valid n \<longrightarrow> length (g_gw_mac n) = 6)"

lemma arp_reply_length: "arp_reply_mac ip f = Some mac \<Longrightarrow> length mac = 6"
  by (auto simp: arp_reply_mac_def split: if_splits)

lemma recv_macs: "ether_recv k n = (n', f) \<Longrightarrow> macs_ok n' = macs_ok n"
  by (auto simp: ether_recv_def ether_irq_handler_def macs_ok_def Let_def split: option.splits if_splits)

lemma send_macs: "macs_ok (fst (ether_send f n)) = macs_ok n"
  by (simp add: ether_send_def macs_ok_def split: option.splits)

lemma arp_wait_macs:
  "arp_wait k ip n = (n', r) \<Longrightarrow> macs_ok n \<Longrightarrow> macs_ok n' \<and> (\<forall>mac. r = Some mac \<longrightarrow> length mac = 6)"
proof (induction k arbitrary: n)
  case (Suc k)
  obtain m f where m: "ether_recv 128 n = (m, f)" by (cases "ether_recv 128 n")
  have q: "macs_ok m" using recv_macs [OF m] Suc.prems by simp
  show ?case
  proof (cases "arp_reply_mac ip f")
    case None
    then show ?thesis using Suc.IH [of m] Suc.prems m q by simp
  next
    case (Some mac)
    then have "n' = m\<lparr>g_gw_mac := mac, g_gw_mac_valid := True\<rparr>" "r = Some mac" using Suc.prems(1) m by simp_all
    then show ?thesis using q arp_reply_length [OF Some] by (simp add: macs_ok_def)
  qed
qed simp

lemma arp_resolve_macs:
  assumes "arp_resolve ip n = (n', r)" and "macs_ok n"
  shows "macs_ok n' \<and> (\<forall>mac. r = Some mac \<longrightarrow> length mac = 6)"
proof (cases "g_gw_mac_valid n \<and> ip = GATEWAY_IP")
  case True
  then show ?thesis using assms by (auto simp: arp_resolve_def macs_ok_def)
next
  case False
  show ?thesis
    using assms arp_wait_macs [of 30 ip "fst (ether_send (arp_request (g_ether_mac n) ip) n)" n' r]
      send_macs [of "arp_request (g_ether_mac n) ip" n] False by (simp add: arp_resolve_def)
qed

end
