(* ===== verification/Net_Stream.thy ===== *)
theory Net_Stream
  imports Net_Props
begin

text \<open>
  What the network stack promises its callers: a datagram or segment that is sent arrives with its
  contents, and successive calls of \<open>tcp_recv\<close> deliver the connection's byte stream, in order and
  without loss, duplication or invention, whatever frames arrive.
\<close>

subsection \<open>Sending\<close>

lemma ip_frame_length: "length gw = 6 \<Longrightarrow> length my = 6 \<Longrightarrow>
    length (ip_frame gw my ident proto src_ip dst_ip payload) = 34 + length payload"
  by (simp add: ip_frame_def eth_header_length)

lemma arp_resolve_frame_pa: "arp_resolve ip n = (n', r) \<Longrightarrow> e_frame_pa n' = e_frame_pa n \<and> e_iommu n' = e_iommu n"
proof -
  have recv: "ether_recv k a = (b, f) \<Longrightarrow> e_frame_pa b = e_frame_pa a \<and> e_iommu b = e_iommu a" for k a b f
    by (auto simp: ether_recv_def ether_irq_handler_def Let_def split: option.splits if_splits)
  have wait: "arp_wait k ip a = (b, q) \<Longrightarrow> e_frame_pa b = e_frame_pa a \<and> e_iommu b = e_iommu a" for k a b q
  proof (induction k arbitrary: a)
    case (Suc k)
    obtain m f where m: "ether_recv 128 a = (m, f)" by (cases "ether_recv 128 a")
    show ?case using Suc.IH [of m] Suc.prems m recv [OF m] by (auto split: option.splits)
  qed simp
  have send: "e_frame_pa (fst (ether_send f a)) = e_frame_pa a \<and> e_iommu (fst (ether_send f a)) = e_iommu a" for f a
    by (simp add: ether_send_def split: option.splits)
  show "arp_resolve ip n = (n', r) \<Longrightarrow> ?thesis"
    using wait [of 30 "fst (ether_send (arp_request (g_ether_mac n) ip) n)" n' r] send
    by (auto simp: arp_resolve_def split: if_splits)
qed

text \<open>A frame that is sent is the newest entry of the log.\<close>

lemma ip_send_frame:
  assumes m: "macs_ok n" and s: "ip_send dst_ip proto payload n = (n', r)" and ok: "0 \<le> r"
  obtains gw ident iova rest where "length gw = 6" "length (g_ether_mac n) = 6" "length payload \<le> 1480"
    "e_log n' = Transmit iova (ip_frame gw (g_ether_mac n) ident proto GUEST_IP dst_ip payload) # rest"
proof -
  obtain k a where a: "arp_resolve GATEWAY_IP n = (k, a)" by (cases "arp_resolve GATEWAY_IP n")
  obtain gw where gw: "a = Some gw" using s ok a by (cases a) (simp_all add: ip_send_def)
  have my: "g_ether_mac k = g_ether_mac n" using arp_resolve_quiet [OF a] by (simp add: quiet_def)
  have mk: "length gw = 6" "length (g_ether_mac n) = 6"
    using arp_resolve_macs [OF a m] gw m by (simp_all add: macs_ok_def)
  let ?f = "ip_frame gw (g_ether_mac n) (g_ip_id k) proto GUEST_IP dst_ip payload"
  have "ether_send ?f (k\<lparr>g_ip_id := g_ip_id k + 1\<rparr>) = (n', r)" using s a gw my by (simp add: ip_send_def)
  with ok obtain iova where "length ?f \<le> 1514" "e_log n' = Transmit iova ?f # e_log k"
    by (auto simp: ether_send_def split: if_splits option.splits)
  moreover from this have "length payload \<le> 1480" using ip_frame_length [OF mk] by simp
  ultimately show ?thesis using mk that by blast
qed

text \<open>The bytes of an Ethernet frame with an IPv4 packet, where RFC 894 and RFC 791 put them: the
  sender's hardware address, the type, version 4 with a header of 20 bytes, the total length, no
  fragmentation, the protocol, the two addresses, a header whose words add up to a multiple of
  \<open>65535\<close>, and the contents.\<close>

definition ipv4_frame :: "packet \<Rightarrow> u8 \<Rightarrow> u32 \<Rightarrow> u32 \<Rightarrow> packet \<Rightarrow> packet \<Rightarrow> bool" where
  "ipv4_frame mac proto src_ip dst_ip payload f \<longleftrightarrow>
     length f = 34 + length payload \<and> take 6 (drop 6 f) = mac \<and> f ! 12 = 0x08 \<and> f ! 13 = 0 \<and> f ! 14 = 0x45 \<and>
     unat (net_get_be16 f 16) = 20 + length payload \<and> net_get_be16 f 20 = 0 \<and> f ! 23 = proto \<and>
     net_get_be32 f 26 = src_ip \<and> net_get_be32 f 30 = dst_ip \<and>
     word_sum (take 20 (drop 14 f)) mod 65535 = 0 \<and> drop 34 f = payload"

lemma ip_frame_ipv4:
  assumes "length gw = 6" "length my = 6" "length payload \<le> 1480"
  shows "ipv4_frame my proto src_ip dst_ip payload (ip_frame gw my ident proto src_ip dst_ip payload)"
proof -
  have "unat (of_nat (20 + length payload) :: u16) = 20 + length payload"
    using assms(3) by (intro unat_of_nat_u16) simp
  then show ?thesis
    unfolding ipv4_frame_def ip_frame_layout [OF assms(1,2)] by (simp add: ip_header_sum)
qed

text \<open>C36. A UDP datagram that \<open>net_udp_sendto\<close> reports as sent, to any address and port, has been
  given to the device in one frame: an IPv4 packet of protocol 17 from this machine's address to
  the destination, whose contents are the socket's port (a fresh one, if it had none), the
  destination port, the length, no checksum and the data. If the destination is this machine's own
  address, a socket bound to the port, unconnected or connected to the sender, receives from this
  frame the sender's address and port and the data, cut to the size of its buffer.\<close>

theorem udp_datagram_delivered:
  assumes m: "macs_ok (s_net t)" and u: "udp_of (Some i) t = Some (i, s)" and i: "i < length (g_socks t)"
    and send: "net_udp_sendto (Some i) ip port d t = (t', r)" and ok: "0 \<le> r"
  shows "r = int (length d) \<and>
    (\<exists>iova frame rest s' udp. e_log (s_net t') = Transmit iova frame # rest \<and> udp_of (Some i) t' = Some (i, s') \<and>
      u_local_port s' = (if u_local_port s = 0 then g_next_udp_port t else u_local_port s) \<and>
      ipv4_frame (g_ether_mac (s_net t)) 17 0x0A00020F ip udp frame \<and>
      length udp = 8 + length d \<and> net_get_be16 udp 0 = u_local_port s' \<and> net_get_be16 udp 2 = port \<and>
      unat (net_get_be16 udp 4) = 8 + length d \<and> net_get_be16 udp 6 = 0 \<and> drop 8 udp = d \<and>
      (ip = 0x0A00020F \<longrightarrow>
        (\<forall>p max_len. u_local_port p = port \<and> (u_remote_ip p = 0 \<or> ip = u_remote_ip p) \<and>
          (u_remote_port p = 0 \<or> u_local_port s' = u_remote_port p) \<longrightarrow>
        udp_accept max_len p frame = Some (ip, u_local_port s', take max_len d))))"
proof -
  have "\<not> length d > NET_PKT_MAX - 8" using send u ok by (auto simp: net_udp_sendto_def)
  obtain t1 s' where l: "udp_local s t = (t1, s')" by (cases "udp_local s t")
  have t1: "s_net t1 = s_net t" "length (g_socks t1) = length (g_socks t)"
    "u_local_port s' = (if u_local_port s = 0 then g_next_udp_port t else u_local_port s)"
    using l by (auto simp: udp_local_def net_alloc_ephemeral_port_def Let_def split: if_splits)
  let ?u = "udp_packet (u_local_port s') port d"
  obtain n q where n: "ip_send ip IPPROTO_UDP ?u (s_net t) = (n, q)"
    by (cases "ip_send ip IPPROTO_UDP ?u (s_net t)")
  have run: "t' = (put_sock i (SOCK_UDP s') t1)\<lparr>s_net := n\<rparr>" "r = (if q < 0 then -1 else int (length d))"
    using send u l n t1 \<open>\<not> length d > NET_PKT_MAX - 8\<close>
    by (auto simp: net_udp_sendto_def put_sock_def Let_def)
  then have q: "0 \<le> q" using ok by (simp split: if_splits)
  obtain gw ident iova rest where f: "length gw = 6" "length (g_ether_mac (s_net t)) = 6" "length ?u \<le> 1480"
    "e_log n = Transmit iova (ip_frame gw (g_ether_mac (s_net t)) ident IPPROTO_UDP GUEST_IP ip ?u) # rest"
    by (rule ip_send_frame [OF m n q])
  let ?f = "ip_frame gw (g_ether_mac (s_net t)) ident IPPROTO_UDP GUEST_IP ip ?u"
  have le: "length d \<le> 1472" using f(3) by (simp add: udp_packet_layout(1))
  then have ld: "length d < 65508" by simp
  have ul: "unat (of_nat (8 + length d) :: u16) = 8 + length d" using le by (intro unat_of_nat_u16) simp
  have acc: "ip = 0x0A00020F \<longrightarrow> (\<forall>p max_len. u_local_port p = port \<and> (u_remote_ip p = 0 \<or> ip = u_remote_ip p) \<and>
      (u_remote_port p = 0 \<or> u_local_port s' = u_remote_port p) \<longrightarrow>
      udp_accept max_len p ?f = Some (ip, u_local_port s', take max_len d))"
    using udp_accept_frame [OF f(1,2) ld] by auto
  have "udp_of (Some i) t' = Some (i, s')" "e_log (s_net t') = e_log n" "r = int (length d)"
    using run i t1(2) q by (simp_all add: udp_of_def put_sock_def)
  moreover have "length ?u = 8 + length d" "net_get_be16 ?u 0 = u_local_port s'" "net_get_be16 ?u 2 = port"
    "unat (net_get_be16 ?u 4) = 8 + length d" "net_get_be16 ?u 6 = 0" "drop 8 ?u = d"
    by (simp_all add: udp_packet_layout ul del: of_nat_add)
  moreover have "e_log (s_net t') = Transmit iova ?f # rest" using f(4) \<open>e_log (s_net t') = e_log n\<close> by simp
  ultimately show ?thesis
    using acc t1(3) ip_frame_ipv4 [OF f(1-3), of 17 "0x0A00020F" ip ident]
    by (intro conjI exI [of _ iova] exI [of _ ?f] exI [of _ rest] exI [of _ s'] exI [of _ ?u])
qed

subsection \<open>Two ends of a connection\<close>

text \<open>The device can read any frame of the stack: its address can be translated.\<close>

definition sendable :: "net \<Rightarrow> bool" where
  "sendable n \<longleftrightarrow> unat (e_frame_pa n) + NET_PKT_MAX \<le> unat (KERNEL_MEM_SIZE :: u32)"

lemma sendable_iova:
  assumes "sendable n" and "0 < k" and "k \<le> 1514"
  shows "iommu_dma_iova (e_iommu n) (e_frame_pa n) (of_nat k) \<noteq> None"
proof -
  let ?a = "e_frame_pa n"
  have a: "unat ?a + 2048 \<le> 67108864" using assms(1) by (simp add: sendable_def)
  have k: "unat (of_nat k :: u32) = k" using assms(3) by (intro unat_of_nat_u32) simp
  then have "of_nat k \<noteq> (0 :: u32)" using assms(2) by (metis unat_eq_0_iff less_irrefl)
  moreover have "?a < KERNEL_MEM_SIZE" using a by (simp add: word_less_nat_alt)
  moreover have "unat (KERNEL_MEM_SIZE - ?a) = 67108864 - unat ?a" using a by (simp add: unat_sub word_le_nat_alt)
  then have "\<not> of_nat k > KERNEL_MEM_SIZE - ?a" using a k assms(3) by (simp add: word_less_nat_alt)
  moreover have "\<not> ?a > 0xFFFFFFFF - IOMMU_DMA_IOVA_BASE" using a by (simp add: word_less_nat_alt)
  ultimately show ?thesis by (simp add: iommu_dma_iova_def not_le)
qed

lemma tcp_emit_frame:
  assumes m: "macs_ok n" and sn: "sendable n" and len: "length data \<le> 1460"
    and e: "tcp_emit s ak fl data n = (n', True)"
  obtains gw iova rest where "length gw = 6" "length (g_ether_mac n) = 6"
    "e_log n' = Transmit iova (ip_frame gw (g_ether_mac n) 0 IPPROTO_TCP (local_ip s) (remote_ip s)
      (tcp_segment (local_ip s) (remote_ip s) (local_port s) (remote_port s) (snd_nxt s) ak fl data)) # rest"
proof -
  obtain k a where a: "arp_resolve GATEWAY_IP n = (k, a)" by (cases "arp_resolve GATEWAY_IP n")
  obtain gw where gw: "a = Some gw" using e a by (cases a) (simp_all add: tcp_emit_def tcp_build_pkt_def)
  have mk: "length gw = 6" "length (g_ether_mac n) = 6"
    using arp_resolve_macs [OF a m] gw m by (simp_all add: macs_ok_def)
  let ?seg = "tcp_segment (local_ip s) (remote_ip s) (local_port s) (remote_port s) (snd_nxt s) ak fl data"
  let ?f = "ip_frame gw (g_ether_mac n) 0 IPPROTO_TCP (local_ip s) (remote_ip s) ?seg"
  have lf: "length ?f = 54 + length data" using ip_frame_length [OF mk] by (simp add: tcp_segment_def Let_def)
  have "sendable k" using sn arp_resolve_frame_pa [OF a] by (simp add: sendable_def)
  then obtain iova where "iommu_dma_iova (e_iommu k) (e_frame_pa k) (of_nat (length ?f)) = Some iova"
    using sendable_iova [of k "length ?f"] lf len by auto
  then have "e_log n' = Transmit iova ?f # e_log k"
    using e a gw lf len by (auto simp: tcp_emit_def tcp_build_pkt_def ether_send_def)
  then show ?thesis using mk that by blast
qed

text \<open>Another connection of this machine is the other end of \<open>s\<close>.\<close>

definition other_end :: "tcp_sock \<Rightarrow> tcp_sock \<Rightarrow> bool" where
  "other_end s p \<longleftrightarrow> local_port p = remote_port s \<and> remote_port p = local_port s \<and>
     (remote_ip p = 0 \<or> local_ip s = remote_ip p) \<and> remote_ip s = GUEST_IP"

text \<open>The bytes of a TCP segment, where RFC 793 puts them, with the sum that the code's checksum gives
  it: the words of the segment (a last byte of odd position counted as the low one of a word) add up,
  modulo \<open>65535\<close>, to the sum of the pseudo header. RFC 793 wants the sum of both to be a multiple
  of \<open>65535\<close>.\<close>

definition tcp_bytes :: "tcp_sock \<Rightarrow> u8 \<Rightarrow> packet \<Rightarrow> packet \<Rightarrow> bool" where
  "tcp_bytes s flags data seg \<longleftrightarrow>
     length seg = 20 + length data \<and> net_get_be16 seg 0 = local_port s \<and> net_get_be16 seg 2 = remote_port s \<and>
     net_get_be32 seg 4 = snd_nxt s \<and> net_get_be32 seg 8 = rcv_nxt s \<and> seg ! 12 = 0x50 \<and> seg ! 13 = flags \<and>
     net_get_be16 seg 14 = 4096 \<and> drop 20 seg = data \<and>
     word_sum (odd_last seg) mod 65535 =
       word_sum (tcp_pseudo (local_ip s) (remote_ip s) (length seg)) mod 65535"

text \<open>What a receiver that checks the checksum as RFC 793 defines it requires, for data of even
  length.\<close>

definition rfc793_accepts :: "u32 \<Rightarrow> u32 \<Rightarrow> packet \<Rightarrow> bool" where
  "rfc793_accepts src_ip dst_ip seg \<longleftrightarrow>
     (word_sum (tcp_pseudo src_ip dst_ip (length seg)) + word_sum seg) mod 65535 = 0"

lemma tcp_bytes_rfc793:
  assumes "tcp_bytes s fl data seg" "even (length data)"
  shows "rfc793_accepts (local_ip s) (remote_ip s) seg \<longleftrightarrow>
    word_sum (tcp_pseudo (local_ip s) (remote_ip s) (20 + length data)) mod 65535 = 0"
proof -
  have l: "length seg = 20 + length data" using assms(1) by (simp add: tcp_bytes_def)
  then have "odd_last seg = seg" using assms(2) by (simp add: odd_last_def)
  then have e: "word_sum seg mod 65535 = word_sum (tcp_pseudo (local_ip s) (remote_ip s) (length seg)) mod 65535"
    using assms(1) by (simp add: tcp_bytes_def)
  have "(a + b) mod 65535 = 0 \<longleftrightarrow> a mod 65535 = 0" if "b mod 65535 = a mod 65535" for a b :: nat
  proof -
    have c: "coprime 65535 (2 :: nat)" by (simp add: coprime_right_2_iff_odd)
    have "(a + b) mod 65535 = (2 * a) mod 65535" using that by (metis mod_add_right_eq mult_2)
    then show ?thesis
      unfolding mod_eq_0_iff_dvd [of a] using coprime_dvd_mult_right_iff [OF c, of a] by (simp add: mod_eq_0_iff_dvd)
  qed
  from this [OF e] show ?thesis by (simp add: rfc793_accepts_def l)
qed


subsection \<open>The received stream\<close>

text \<open>The frames that the device shows.\<close>

definition shown :: "net \<Rightarrow> packet set" where
  "shown n = {map (\<lambda>i. ring ! i) [0..<unat len] |k len ring. e_poll n k = Some (len, ring) \<and> unat len \<le> NET_PKT_MAX}"

lemma quiet_shown: "quiet n n' \<Longrightarrow> shown n' = shown n"
  by (simp add: quiet_def shown_def)

lemma recv_shown:
  assumes r: "ether_recv NET_PKT_MAX n = (n', f)" and z: "g_rx_len n = 0"
  shows "f = [] \<or> f \<in> shown n \<and> length f \<le> NET_PKT_MAX"
proof -
  have "f = [] \<or> (\<exists>len ring. e_poll n (e_polls n) = Some (len, ring) \<and> unat len \<le> 2048 \<and>
      f = map (\<lambda>i. ring ! i) [0..<unat len])"
    using r z by (auto simp: ether_recv_def ether_irq_handler_def Let_def word_le_nat_alt min_def
        split: option.splits if_splits)
  then show ?thesis by (auto simp: shown_def)
qed

lemma parse_payload_length: "tcp_parse_rx f s = Some r \<Longrightarrow> length (rx_payload r) \<le> length f"
  by (auto simp: tcp_parse_rx_def ip_recv_def Let_def split: option.splits if_splits)

text \<open>The fields that decide which frames belong to a connection.\<close>

definition same_conn :: "tcp_sock \<Rightarrow> tcp_sock \<Rightarrow> bool" where
  "same_conn s s' \<longleftrightarrow> local_port s' = local_port s \<and> remote_port s' = remote_port s \<and> remote_ip s' = remote_ip s"

lemma parse_same: "same_conn s s' \<Longrightarrow> tcp_parse_rx f s' = tcp_parse_rx f s"
  by (auto simp: same_conn_def tcp_parse_rx_def Let_def split: option.splits)

fun in_sequence :: "u32 \<Rightarrow> tcp_rx list \<Rightarrow> bool" where
  "in_sequence x [] \<longleftrightarrow> True"
| "in_sequence x (r # rs) \<longleftrightarrow> rx_seq r = x \<and> rx_payload r \<noteq> [] \<and>
     in_sequence (x + of_nat (length (rx_payload r))) rs"

abbreviation payloads :: "tcp_rx list \<Rightarrow> packet" where
  "payloads segs \<equiv> concat (map rx_payload segs)"

text \<open>From \<open>s\<close> to \<open>s'\<close> the connection has taken in \<open>segs\<close>.\<close>

definition took :: "net \<Rightarrow> tcp_sock \<Rightarrow> tcp_sock \<Rightarrow> tcp_rx list \<Rightarrow> bool" where
  "took n s s' segs \<longleftrightarrow> same_conn s s' \<and> in_sequence (rcv_nxt s) segs \<and>
     (\<forall>r \<in> set segs. \<exists>f \<in> shown n. tcp_parse_rx f s = Some r) \<and>
     (tcp_state s' = TCP_ESTABLISHED \<longrightarrow> rcv_nxt s' = rcv_nxt s + of_nat (length (payloads segs)))"

lemma took_refl: "took n s s []" "took n s (s\<lparr>rx_buf := b\<rparr>) []"
  by (simp_all add: took_def same_conn_def)

lemma in_sequence_append:
  "in_sequence x (rs @ qs) \<longleftrightarrow> in_sequence x rs \<and> in_sequence (x + of_nat (length (payloads rs))) qs"
  by (induction rs arbitrary: x) (auto simp: add.assoc)

lemma took_trans:
  assumes "took n s t as" and "took n t u bs" and "tcp_state t = TCP_ESTABLISHED"
  shows "took n s u (as @ bs)"
  using assms parse_same [of s t]
  by (auto simp: took_def in_sequence_append same_conn_def add.assoc)

lemma data_wait_spec:
  assumes "data_wait k s n = (s', n')" and "rx_buf s = []" and "g_rx_len n = 0" and "tcp_state s = TCP_ESTABLISHED"
  shows "quiet n n' \<and> (\<exists>segs. took n s s' segs \<and> rx_buf s' = payloads segs)"
  using assms
proof (induction k arbitrary: n)
  case 0
  then show ?case using took_refl(1) [of n s] by (intro conjI exI [of _ "[]"]) auto
next
  case (Suc k)
  obtain m f where f: "ether_recv NET_PKT_MAX n = (m, f)" by (cases "ether_recv NET_PKT_MAX n")
  have q: "quiet n m" "g_rx_len m = 0" using ether_recv_quiet [OF f] by simp_all
  have rec: ?case if "data_wait k s m = (s', n')"
    using Suc.IH [OF that Suc.prems(2) q(2) Suc.prems(4)] quiet_trans [OF q(1)] quiet_shown [OF q(1)]
    by (auto simp: took_def)
  show ?case
  proof (cases "length f < 54 \<or> tcp_parse_rx f s = None")
    case True
    then have "data_wait (Suc k) s n = data_wait k s m" using Suc.prems(2) f by (cases "length f < 54") auto
    then show ?thesis using rec Suc.prems(1) by simp
  next
    case False
    then obtain r where r: "tcp_parse_rx f s = Some r" "\<not> length f < 54" by auto
    have fs: "f \<in> shown n" "length f \<le> NET_PKT_MAX" using recv_shown [OF f Suc.prems(3)] r(2) by auto
    have lp: "length (rx_payload r) \<le> NET_PKT_MAX" using parse_payload_length [OF r(1)] fs(2) by simp
    obtain s1 n1 stop where a: "tcp_accept r s m = (s1, n1, stop)" by (cases "tcp_accept r s m")
    have run: "data_wait (Suc k) s n = (if stop then (s1, n1) else data_wait k s1 n1)"
      using Suc.prems(2) f r a by simp
    show ?thesis
    proof (cases "rx_payload r \<noteq> [] \<and> rx_seq r = rcv_nxt s")
      case True
      then have "stop" and s1: "rx_buf s1 = rx_payload r" "same_conn s s1"
          "tcp_state s1 = TCP_ESTABLISHED \<longrightarrow> rcv_nxt s1 = rcv_nxt s + of_nat (length (rx_payload r))"
        using a lp Suc.prems(2,4) by (auto simp: tcp_accept_def Let_def same_conn_def split: if_splits)
      have "quiet m n1"
        using True a tcp_emit_quiet [OF prod.collapse [symmetric]] by (auto simp: tcp_accept_def Let_def)
      moreover have "took n s s1 [r]" using True s1 r(1) fs(1) by (auto simp: took_def)
      ultimately show ?thesis
        using run \<open>stop\<close> Suc.prems(1) quiet_trans [OF q(1)] s1(1) by (intro conjI exI [of _ "[r]"]) auto
    next
      case False
      show ?thesis
      proof (cases "rx_flags r AND TCP_F_FIN = 0")
        case True
        then have "tcp_accept r s m = (s, m, False)" using False by (auto simp: tcp_accept_def)
        then show ?thesis using rec run a Suc.prems(1) by simp
      next
        case fin: False
        then have "stop" "rx_buf s1 = []" "took n s s1 []"
          using a False Suc.prems(2) by (auto simp: tcp_accept_def Let_def took_def same_conn_def)
        moreover have "quiet m n1"
          using False fin a tcp_emit_quiet [OF prod.collapse [symmetric]] by (auto simp: tcp_accept_def Let_def)
        ultimately show ?thesis
          using run Suc.prems(1) quiet_trans [OF q(1)] by (intro conjI exI [of _ "[]"]) auto
      qed
    qed
  qed
qed

text \<open>Successive calls of \<open>tcp_recv\<close> with these buffer sizes; the last result is all they return.\<close>

fun recv_calls :: "nat list \<Rightarrow> tcp_sock \<Rightarrow> net \<Rightarrow> tcp_sock \<times> net \<times> packet" where
  "recv_calls [] s n = (s, n, [])"
| "recv_calls (k # ks) s n =
     (case tcp_recv k s n of (s, n, r) \<Rightarrow> (case recv_calls ks s n of (s, n, d) \<Rightarrow>
        (s, n, (case r of None \<Rightarrow> [] | Some b \<Rightarrow> b) @ d)))"

lemma tcp_recv_spec:
  assumes r: "tcp_recv k s n = (s', n', Some b)" and z: "g_rx_len n = 0"
  shows "quiet n n' \<and> (\<exists>segs. took n s s' segs \<and> rx_buf s @ payloads segs = b @ rx_buf s')"
proof -
  have st: "tcp_state s = TCP_ESTABLISHED" using r by (auto simp: tcp_recv_def split: if_splits)
  obtain t m where t: "data_wait 400 s n = (t, m)" by (cases "data_wait 400 s n")
  have run: "s' = t\<lparr>rx_buf := drop k (rx_buf t)\<rparr>" "n' = m" "b = take k (rx_buf t)"
    using r st t by (simp_all add: tcp_recv_def)
  have tk: "took n s s' segs" if "took n s t segs" for segs
    using that run(1) by (simp add: took_def same_conn_def)
  show ?thesis
  proof (cases "rx_buf s = []")
    case True
    then obtain segs where "quiet n m" "took n s t segs" "rx_buf t = payloads segs"
      using data_wait_spec [OF t _ z st] by blast
    then show ?thesis using True tk run by (intro conjI exI [of _ segs]) simp_all
  next
    case False
    then have "data_wait 400 s n = (s, n)" by (simp add: numeral_eq_Suc)
    then show ?thesis using t run tk took_refl(1) [of n s] by (intro conjI exI [of _ "[]"]) auto
  qed
qed

lemma recv_calls_closed: "tcp_state s \<noteq> TCP_ESTABLISHED \<Longrightarrow> recv_calls ks s n = (s, n, [])"
  by (induction ks) (simp_all add: tcp_recv_def)

lemma recv_calls_spec:
  assumes "recv_calls ks s n = (s', n', d)" and "g_rx_len n = 0"
  shows "\<exists>segs. took n s s' segs \<and> rx_buf s @ payloads segs = d @ rx_buf s'"
  using assms
proof (induction ks arbitrary: s n d)
  case Nil
  then show ?case using took_refl(1) [of n s] by (intro exI [of _ "[]"]) simp
next
  case (Cons k ks)
  show ?case
  proof (cases "tcp_state s = TCP_ESTABLISHED")
    case False
    then have "s' = s" "d = []" using Cons.prems(1) recv_calls_closed [OF False, of "k # ks" n] by simp_all
    then show ?thesis using took_refl(1) [of n s] by (intro exI [of _ "[]"]) simp
  next
    case True
    obtain t m b where t: "tcp_recv k s n = (t, m, Some b)"
      using True by (cases "data_wait 400 s n") (simp add: tcp_recv_def)
    obtain e where e: "recv_calls ks t m = (s', n', e)" and d: "d = b @ e"
      using Cons.prems(1) t by (auto split: prod.splits)
    obtain as where as: "took n s t as" "rx_buf s @ payloads as = b @ rx_buf t" and q: "quiet n m"
      using tcp_recv_spec [OF t Cons.prems(2)] by blast
    show ?thesis
    proof (cases "tcp_state t = TCP_ESTABLISHED")
      case True
      obtain bs where bs: "took m t s' bs" "rx_buf t @ payloads bs = e @ rx_buf s'"
        using Cons.IH [OF e] q Cons.prems(2) by (auto simp: quiet_def)
      have "took n t s' bs" using bs(1) quiet_shown [OF q] by (simp add: took_def)
      then have "took n s s' (as @ bs)" by (rule took_trans [OF as(1) _ True])
      moreover have "rx_buf s @ payloads (as @ bs) = d @ rx_buf s'"
        using as(2) bs(2) d by (metis append.assoc concat_append map_append)
      ultimately show ?thesis by blast
    next
      case False
      then have "s' = t" "e = []" using e recv_calls_closed [OF False, of ks m] by simp_all
      then show ?thesis using as d by auto
    qed
  qed
qed

text \<open>C34. TCP is a byte stream for its reader. Whatever frames arrive, everything that successive
  calls of \<open>tcp_recv\<close> return, followed by what is still buffered, is the concatenation of the payloads
  of segments that belong to the connection and continue one another's sequence numbers from the one
  the connection expected first; while the connection is open, the number it expects next counts
  exactly these bytes.\<close>

theorem tcp_recv_stream:
  assumes "rx_buf s = []" and "g_rx_len n = 0" and "recv_calls ks s n = (s', n', d)"
  shows "\<exists>segs. in_sequence (rcv_nxt s) segs \<and>
    (\<forall>r \<in> set segs. \<exists>f \<in> shown n. tcp_parse_rx f s = Some r) \<and>
    d @ rx_buf s' = payloads segs \<and>
    (tcp_state s' = TCP_ESTABLISHED \<longrightarrow> rcv_nxt s' = rcv_nxt s + of_nat (length (d @ rx_buf s')))"
  using recv_calls_spec [OF assms(3,2)] assms(1) by (auto simp: took_def)

subsection \<open>Witnesses\<close>

definition demo_net :: net where
  "demo_net = \<lparr>g_ether_mac = [2, 0, 0, 0, 0, 1], g_rx_buf_iova = 0x01100000, g_rx_ring = replicate 2048 0,
     g_rx_len = 0, g_gw_mac = [2, 0, 0, 0, 0, 2], g_gw_mac_valid = True, g_ip_id = 7, e_iommu = True,
     e_frame_pa = 0x00200000, e_poll = (\<lambda>_. None), e_polls = 0, e_log = []\<rparr>"

definition demo_socks :: sockets where
  "demo_socks = \<lparr>g_socks = [SOCK_UDP zero_udp, SOCK_NONE, SOCK_NONE, SOCK_NONE], g_used = 1,
     g_next_udp_port = 49152, s_net = demo_net\<rparr>"

definition demo_conn :: tcp_sock where
  "demo_conn = \<lparr>tcp_state = TCP_ESTABLISHED, local_ip = GUEST_IP, remote_ip = GUEST_IP, local_port = 49152,
     remote_port = 80, snd_una = 100, snd_nxt = 100, rcv_nxt = 500, rx_buf = []\<rparr>"

definition demo_peer :: tcp_sock where
  "demo_peer = demo_conn\<lparr>local_port := 80, remote_port := 49152, snd_nxt := 500, rcv_nxt := 100\<rparr>"

lemma demo_macs: "macs_ok demo_net" and demo_sendable: "sendable demo_net"
  by (simp_all add: macs_ok_def sendable_def demo_net_def)

theorem udp_datagram_delivered_witness:
  "(let (t, r) = net_udp_sendto (Some 0) GUEST_IP 53 [1, 2, 3] demo_socks in r = 3 \<and>
     (\<exists>iova frame rest. e_log (s_net t) = Transmit iova frame # rest \<and>
       udp_accept 2 (zero_udp\<lparr>u_local_port := 53\<rparr>) frame = Some (GUEST_IP, 49152, [1, 2]))) \<and>
   (let (t, r) = net_udp_sendto (Some 0) 0x08080808 53 [1, 2, 3] demo_socks in r = 3 \<and>
     (\<exists>iova frame rest. e_log (s_net t) = Transmit iova frame # rest \<and>
       net_get_be32 frame 26 = 0x0A00020F \<and> net_get_be32 frame 30 = 0x08080808 \<and> drop 42 frame = [1, 2, 3]))"
proof -
  have u: "udp_of (Some 0) demo_socks = Some (0, zero_udp)" "macs_ok (s_net demo_socks)" "0 < length (g_socks demo_socks)"
    using demo_macs by (simp_all add: udp_of_def demo_socks_def)
  have r: "snd (net_udp_sendto (Some 0) GUEST_IP 53 [1, 2, 3] demo_socks) = 3"
    "snd (net_udp_sendto (Some 0) 0x08080808 53 [1, 2, 3] demo_socks) = 3" by code_simp+
  have f: "u_local_port zero_udp = 0" "g_next_udp_port demo_socks = 49152" by (simp_all add: zero_udp_def demo_socks_def)
  obtain a q where a: "net_udp_sendto (Some 0) GUEST_IP 53 [1, 2, 3] demo_socks = (a, q)" by fastforce
  obtain b p where b: "net_udp_sendto (Some 0) 0x08080808 53 [1, 2, 3] demo_socks = (b, p)" by fastforce
  have q: "q = 3" "p = 3" using r a b by simp_all
  have "\<exists>iova frame rest. e_log (s_net a) = Transmit iova frame # rest \<and>
      udp_accept 2 (zero_udp\<lparr>u_local_port := 53\<rparr>) frame = Some (GUEST_IP, 49152, [1, 2])"
  proof -
    have "0 \<le> q" using q(1) by simp
    from udp_datagram_delivered [OF u(2,1,3) a this, THEN conjunct2] obtain iova frame rest s' where
      g0: "e_log (s_net a) = Transmit iova frame # rest" "udp_of (Some 0) a = Some (0, s')" "u_local_port s' = 49152"
      "\<forall>p max_len. u_local_port p = 53 \<and> (u_remote_ip p = 0 \<or> GUEST_IP = u_remote_ip p) \<and>
          (u_remote_port p = 0 \<or> u_local_port s' = u_remote_port p) \<longrightarrow>
        udp_accept max_len p frame = Some (GUEST_IP, u_local_port s', take max_len [1, 2, 3])"
      unfolding f by (elim exE conjE) (rule that, assumption, assumption, simp_all)
    then obtain iova frame rest where
      g: "e_log (s_net a) = Transmit iova frame # rest"
      "\<And>p max_len. u_local_port p = 53 \<Longrightarrow> u_remote_ip p = 0 \<Longrightarrow> u_remote_port p = 0 \<Longrightarrow>
        udp_accept max_len p frame = Some (GUEST_IP, 49152, take max_len [1, 2, 3])"
      by auto
    have "udp_accept 2 (zero_udp\<lparr>u_local_port := 53\<rparr>) frame = Some (GUEST_IP, 49152, [1, 2])"
      using g(2) [of "zero_udp\<lparr>u_local_port := 53\<rparr>" 2] by (simp add: zero_udp_def)
    then show ?thesis using g(1) by blast
  qed
  moreover have "\<exists>iova frame rest. e_log (s_net b) = Transmit iova frame # rest \<and>
      net_get_be32 frame 26 = 0x0A00020F \<and> net_get_be32 frame 30 = 0x08080808 \<and> drop 42 frame = [1, 2, 3]"
  proof -
    have "drop 42 x = drop 8 (drop 34 x)" for x :: packet by simp
    then show ?thesis
      using udp_datagram_delivered [OF u(2,1,3) b] q(2) unfolding ipv4_frame_def by auto
  qed
  ultimately show ?thesis using a b q by simp
qed


definition demo_segment_frame :: packet where
  "demo_segment_frame = ip_frame [2, 0, 0, 0, 0, 1] [2, 0, 0, 0, 0, 2] 0 IPPROTO_TCP GUEST_IP GUEST_IP
     (tcp_segment GUEST_IP GUEST_IP 80 49152 500 100 0x18 [1, 2, 3])"

definition demo_receiving :: net where
  "demo_receiving = demo_net\<lparr>e_poll := (\<lambda>k. if k = 0 then Some (57, demo_segment_frame) else None)\<rparr>"

theorem tcp_recv_stream_witness:
  "let (s, n, d) = recv_calls [2, 5] demo_conn demo_receiving in d = [1, 2, 3] \<and>
     (\<exists>segs. in_sequence 500 segs \<and> [1, 2, 3] @ rx_buf s = payloads segs \<and>
       (\<forall>r \<in> set segs. \<exists>f \<in> shown demo_receiving. tcp_parse_rx f demo_conn = Some r))"
proof -
  obtain s n d where r: "recv_calls [2, 5] demo_conn demo_receiving = (s, n, d)"
    by (cases "recv_calls [2, 5] demo_conn demo_receiving")
  have "snd (snd (recv_calls [2, 5] demo_conn demo_receiving)) = [1, 2, 3]" by code_simp
  then have d: "d = [1, 2, 3]" using r by simp
  have "rx_buf demo_conn = []" "g_rx_len demo_receiving = 0" "rcv_nxt demo_conn = 500"
    by (simp_all add: demo_conn_def demo_receiving_def demo_net_def)
  with tcp_recv_stream [OF this(1,2) r] r d show ?thesis by auto
qed

text \<open>The checksum of a segment is not the one of RFC 793: \<open>tcp_build_pkt\<close> starts the sum over the
  segment with the complement of the sum over the pseudo header. The receiving side of this stack
  does not check it.\<close>

lemma tcp_checksum_differs:
  "net_cksum (tcp_pseudo GUEST_IP GUEST_IP 20 @ tcp_segment GUEST_IP GUEST_IP 49152 80 100 500 0x10 []) 0 \<noteq> 0"
  by code_simp

text \<open>Nor is the checksum of data of odd length: the last byte is added as the high byte of a word,
  although words are added as they are loaded, low byte first.\<close>

lemma cksum_odd_differs: "net_cksum [1] 0 \<noteq> net_cksum [1, 0] 0"
  by code_simp

end
