(* ===== verification/Emutls.thy ===== *)
theory Emutls
  imports Octans_Prelude
begin

text \<open>
  Thread-local storage (\<open>src/emutls.c\<close>). The compiler describes each thread-local variable by a
  control object and calls \<open>__emutls_get_address\<close> to find the copy of the executing processor. The
  table has an entry per control object, with the address of the copy of each processor; copies
  are taken from an arena that is never given back. A control object is known by its address
  (0 is the null pointer); its fields, which nothing writes, are a parameter. An address in the
  arena is an offset.
\<close>

subsection \<open>The code\<close>

abbreviation (input) "EMUTLS_MAX_OBJECTS \<equiv> (128 :: nat)"
abbreviation (input) "EMUTLS_MAX_CPUS \<equiv> (32 :: nat)"
abbreviation (input) "EMUTLS_ARENA_SIZE \<equiv> (0x40000 :: u32)"

record emutls_control =
  ec_size :: u32
  ec_align :: u32
  ec_templ :: "(nat \<Rightarrow> u8) option"

record emutls_entry =
  ee_control :: u32
  ee_per_cpu :: "u32 option list"

record emutls =
  g_emutls_entries :: "emutls_entry list"
  g_emutls_arena :: "nat \<Rightarrow> u8"
  g_emutls_arena_off :: u32

definition emutls_align_up :: "u32 \<Rightarrow> u32 \<Rightarrow> u32" where
  "emutls_align_up v align =
     (if align = 0 then v
      else if align AND (align - 1) \<noteq> 0 then v
      else let mask = align - 1 in (v + mask) AND NOT mask)"

definition emutls_copy_init :: "nat \<Rightarrow> (nat \<Rightarrow> u8) option \<Rightarrow> nat \<Rightarrow> (nat \<Rightarrow> u8) \<Rightarrow> nat \<Rightarrow> u8" where
  "emutls_copy_init dst src n a =
     (\<lambda>i. if dst \<le> i \<and> i < dst + n then (case src of None \<Rightarrow> 0 | Some p \<Rightarrow> p (i - dst)) else a i)"

text \<open>The loop returns the entry of the control object wherever it is, and otherwise takes the first
  free one.\<close>

definition emutls_get_entry :: "u32 \<Rightarrow> emutls \<Rightarrow> emutls \<times> nat option" where
  "emutls_get_entry control s =
     (let es = g_emutls_entries s in
      case find (\<lambda>i. ee_control (es ! i) = control) [0..<EMUTLS_MAX_OBJECTS] of
        Some i \<Rightarrow> (s, Some i)
      | None \<Rightarrow> (case find (\<lambda>i. ee_control (es ! i) = 0) [0..<EMUTLS_MAX_OBJECTS] of
          None \<Rightarrow> (s, None)
        | Some i \<Rightarrow> (s\<lparr>g_emutls_entries := es[i := (es ! i)\<lparr>ee_control := control\<rparr>]\<rparr>, Some i)))"

definition object_size :: "emutls_control \<Rightarrow> u32" where
  "object_size c = (if ec_size c \<noteq> 0 then ec_size c else 4)"

definition emutls_get_address :: "(u32 \<Rightarrow> emutls_control) \<Rightarrow> nat \<Rightarrow> u32 \<Rightarrow> emutls \<Rightarrow> emutls \<times> u32 option" where
  "emutls_get_address ctl cpu control s =
     (if control = 0 then (s, None)
      else let cpu = (if cpu \<ge> EMUTLS_MAX_CPUS then 0 else cpu) in
      case emutls_get_entry control s of
        (s, None) \<Rightarrow> (s, None)
      | (s, Some i) \<Rightarrow>
          (case ee_per_cpu (g_emutls_entries s ! i) ! cpu of
             Some ret \<Rightarrow> (s, Some ret)
           | None \<Rightarrow>
               let c = ctl control; size1 = object_size c;
                   align = (if ec_align c < 4 then 4 else ec_align c);
                   off = emutls_align_up (g_emutls_arena_off s) align in
               if off > EMUTLS_ARENA_SIZE \<or> size1 > EMUTLS_ARENA_SIZE - off then (s, None)
               else let e = g_emutls_entries s ! i in
                 (s\<lparr>g_emutls_arena_off := off + size1,
                    g_emutls_arena := emutls_copy_init (unat off) (ec_templ c) (unat size1) (g_emutls_arena s),
                    g_emutls_entries := (g_emutls_entries s)[i := e\<lparr>ee_per_cpu := (ee_per_cpu e)[cpu := Some off]\<rparr>]\<rparr>,
                  Some off)))"

definition emutls_start :: emutls where
  "emutls_start = \<lparr>g_emutls_entries = replicate 128 \<lparr>ee_control = 0, ee_per_cpu = replicate 32 None\<rparr>,
     g_emutls_arena = (\<lambda>_. 0), g_emutls_arena_off = 0\<rparr>"

text \<open>Calls by processors, in the order in which they take the lock.\<close>

primrec emutls_run :: "(u32 \<Rightarrow> emutls_control) \<Rightarrow> (nat \<times> u32) list \<Rightarrow> emutls \<Rightarrow> emutls \<times> u32 option list" where
  "emutls_run ctl [] s = (s, [])"
| "emutls_run ctl (x # xs) s =
     (case emutls_get_address ctl (fst x) (snd x) s of (s, r) \<Rightarrow>
        (case emutls_run ctl xs s of (s, rs) \<Rightarrow> (s, r # rs)))"

subsection \<open>Copies\<close>

text \<open>The copy of a control object's variable that a processor has.\<close>

definition copy_at :: "emutls \<Rightarrow> nat \<Rightarrow> u32 \<Rightarrow> u32 option" where
  "copy_at s cpu control =
     (case find (\<lambda>i. ee_control (g_emutls_entries s ! i) = control) [0..<128] of
        None \<Rightarrow> None | Some i \<Rightarrow> ee_per_cpu (g_emutls_entries s ! i) ! cpu)"

definition copies_apart :: "nat \<Rightarrow> nat \<Rightarrow> nat \<Rightarrow> nat \<Rightarrow> bool" where
  "copies_apart a m b n \<longleftrightarrow> a + m \<le> b \<or> b + n \<le> a"

definition emutls_ok :: "(u32 \<Rightarrow> emutls_control) \<Rightarrow> emutls \<Rightarrow> bool" where
  "emutls_ok ctl s \<longleftrightarrow> length (g_emutls_entries s) = 128 \<and>
     (\<forall>e \<in> set (g_emutls_entries s). length (ee_per_cpu e) = 32 \<and>
        (ee_control e = 0 \<longrightarrow> ee_per_cpu e = replicate 32 None)) \<and>
     unat (g_emutls_arena_off s) \<le> unat EMUTLS_ARENA_SIZE \<and>
     (\<forall>k c off. k \<noteq> 0 \<longrightarrow> c < 32 \<longrightarrow> copy_at s c k = Some off \<longrightarrow>
        unat off + unat (object_size (ctl k)) \<le> unat (g_emutls_arena_off s)) \<and>
     (\<forall>k c off l d off'. k \<noteq> 0 \<longrightarrow> l \<noteq> 0 \<longrightarrow> c < 32 \<longrightarrow> d < 32 \<longrightarrow> (k, c) \<noteq> (l, d) \<longrightarrow>
        copy_at s c k = Some off \<longrightarrow> copy_at s d l = Some off' \<longrightarrow>
        copies_apart (unat off) (unat (object_size (ctl k))) (unat off') (unat (object_size (ctl l))))"

lemma high_bit: "bit (x :: u32) 31 \<longleftrightarrow> 2 ^ 31 \<le> unat x"
proof -
  have "unat x div 2 ^ 31 < 2" using unat_lt_u32 [of x] by (intro less_mult_imp_div_less) simp
  then have "odd (unat x div 2 ^ 31) \<longleftrightarrow> unat x div 2 ^ 31 \<noteq> 0"
    by (cases "unat x div 2 ^ 31" rule: nat.exhaust) auto
  moreover have "bit x 31 = bit (unat x) 31" by (simp add: bit_unsigned_iff)
  moreover have "bit (unat x) 31 = odd (unat x div 2 ^ 31)" by (rule bit_iff_odd)
  ultimately show ?thesis by (auto simp: div_eq_0_iff)
qed

lemma align_up_ge:
  assumes v: "unat v \<le> 0x40000"
  shows "unat v \<le> unat (emutls_align_up v align)"
proof (cases "align = 0 \<or> align AND (align - 1) \<noteq> 0")
  case True
  then show ?thesis by (auto simp: emutls_align_up_def)
next
  case False
  let ?m = "align - 1" and ?x = "v + (align - 1)"
  have a: "unat align = unat ?m + 1" using False by (simp add: unat_minus_one unat_gt_0)
  have m: "unat ?m < 2 ^ 31"
  proof (rule ccontr)
    assume "\<not> unat ?m < 2 ^ 31"
    then have "bit ?m 31" "bit align 31" unfolding high_bit using a by linarith+
    then have "bit (align AND ?m) 31" by (simp add: bit_and_iff)
    then show False using False by simp
  qed
  have x: "unat ?x = unat v + unat ?m" using v m by (simp add: unat_word_ariths)
  have "?x AND NOT ?m = ?x - (?x AND ?m)"
  proof -
    have "(?x AND NOT ?m) AND (?x AND ?m) = 0" by (rule bit_word_eqI) (auto simp: bit_simps)
    then have "(?x AND NOT ?m) + (?x AND ?m) = (?x AND NOT ?m) OR (?x AND ?m)" by (rule disjunctive_add_eq_or)
    also have "\<dots> = ?x" by (rule bit_word_eqI) (auto simp: bit_simps)
    finally show ?thesis by (simp add: eq_diff_eq)
  qed
  moreover have "unat (?x AND ?m) \<le> unat ?m" using word_and_le1 [of ?x ?m] by (simp add: word_le_nat_alt)
  moreover have "unat (?x - (?x AND ?m)) = unat ?x - unat (?x AND ?m)" by (rule unat_sub) (rule word_and_le2)
  ultimately show ?thesis using False x by (simp add: emutls_align_up_def Let_def)
qed

subsection \<open>Every copy is its own\<close>

lemma entry_free:
  assumes ok: "emutls_ok ctl s" and i: "i < 128" and z: "ee_control (g_emutls_entries s ! i) = 0" and c: "c < 32"
  shows "ee_per_cpu (g_emutls_entries s ! i) ! c = None"
proof -
  have "g_emutls_entries s ! i \<in> set (g_emutls_entries s)" using ok i by (simp add: emutls_ok_def)
  then have "ee_per_cpu (g_emutls_entries s ! i) = replicate 32 None" using ok z unfolding emutls_ok_def by blast
  then show ?thesis using c by simp
qed

lemma find_update_other:
  assumes "find (\<lambda>i. f (xs ! i) = k) [0..<n] = r" and "f (xs ! j) \<noteq> k" and "f y \<noteq> k" and "n \<le> length xs"
  shows "find (\<lambda>i. f (xs[j := y] ! i) = k) [0..<n] = r"
proof -
  have "(f (xs[j := y] ! i) = k) = (f (xs ! i) = k)" if "i < n" for i
    using assms(2-4) that by (cases "i = j") (simp_all add: nth_list_update)
  then have "find (\<lambda>i. f (xs[j := y] ! i) = k) [0..<n] = find (\<lambda>i. f (xs ! i) = k) [0..<n]"
    by (intro find_cong refl) simp
  then show ?thesis using assms(1) by simp
qed

text \<open>Looking for an entry leaves all copies as they are; the entry found is the control object's.\<close>

lemma get_entry_spec:
  assumes ok: "emutls_ok ctl s" and k: "k \<noteq> 0" and g: "emutls_get_entry k s = (t, r)"
  shows "emutls_ok ctl t \<and> g_emutls_arena_off t = g_emutls_arena_off s \<and> g_emutls_arena t = g_emutls_arena s \<and>
    (\<forall>l d. l \<noteq> 0 \<longrightarrow> d < 32 \<longrightarrow> copy_at t d l = copy_at s d l) \<and>
    (\<forall>i. r = Some i \<longrightarrow> i < 128 \<and> find (\<lambda>i. ee_control (g_emutls_entries t ! i) = k) [0..<128] = Some i)"
proof (cases "find (\<lambda>i. ee_control (g_emutls_entries s ! i) = k) [0..<128]")
  case (Some i)
  then have "t = s" "r = Some i" using g by (simp_all add: emutls_get_entry_def Let_def)
  moreover have "i < 128" using Some by (simp add: find_upt_Some)
  ultimately show ?thesis using ok Some by simp
next
  case None
  note no = None
  let ?es = "g_emutls_entries s"
  have len: "length ?es = 128" using ok by (simp add: emutls_ok_def)
  show ?thesis
  proof (cases "find (\<lambda>i. ee_control (?es ! i) = 0) [0..<128]")
    case None
    then have "t = s" "r = None" using g no by (simp_all add: emutls_get_entry_def Let_def)
    then show ?thesis using ok by simp
  next
    case (Some i)
    then have i: "i < 128" "ee_control (?es ! i) = 0" by (simp_all add: find_upt_Some)
    let ?e = "(?es ! i)\<lparr>ee_control := k\<rparr>"
    have t: "t = s\<lparr>g_emutls_entries := ?es[i := ?e]\<rparr>" "r = Some i"
      using g no Some by (simp_all add: emutls_get_entry_def Let_def)
    have hit: "find (\<lambda>j. ee_control (?es[i := ?e] ! j) = k) [0..<128] = Some i"
      unfolding find_upt_Some using i len no by (auto simp: nth_list_update find_upt_None)
    have mem: "?es ! i \<in> set ?es" using i len by simp
    have free: "ee_per_cpu (?es ! i) = replicate 32 None" using ok mem i(2) unfolding emutls_ok_def by blast
    have same: "copy_at t d l = copy_at s d l" if l: "l \<noteq> 0" and d: "d < 32" for l d
    proof (cases "l = k")
      case True
      then show ?thesis using hit no free d i len by (simp add: copy_at_def t(1))
    next
      case False
      then have *: "find (\<lambda>j. ee_control (?es[i := ?e] ! j) = l) [0..<128] = find (\<lambda>j. ee_control (?es ! j) = l) [0..<128]"
        using i l len by (intro find_update_other refl) simp_all
      moreover have **: "ee_per_cpu (?es[i := ?e] ! j) = ee_per_cpu (?es ! j)" if "j < 128" for j
        using that i len by (simp add: nth_list_update)
      ultimately show ?thesis
      proof (cases "find (\<lambda>j. ee_control (?es ! j) = l) [0..<128]")
        case (Some j)
        then have "j < 128" by (simp add: find_upt_Some)
        then show ?thesis using Some * ** by (simp add: copy_at_def t(1))
      qed (simp add: copy_at_def t(1))
    qed
    have "emutls_ok ctl t"
    proof -
      have "length (ee_per_cpu e) = 32 \<and> (ee_control e = 0 \<longrightarrow> ee_per_cpu e = replicate 32 None)"
        if "e \<in> set (?es[i := ?e])" for e
        using set_update_subset_insert [of ?es i ?e] that ok free unfolding emutls_ok_def by auto
      then show ?thesis using ok same unfolding emutls_ok_def t(1) by simp
    qed
    then show ?thesis using same hit i t by simp
  qed
qed

definition cpu_index :: "nat \<Rightarrow> nat" where
  "cpu_index cpu = (if cpu \<ge> EMUTLS_MAX_CPUS then 0 else cpu)"

text \<open>One call: every other copy stays, and the result is the copy of the processor from then on.\<close>

lemma get_address_spec:
  assumes ok: "emutls_ok ctl s" and r: "emutls_get_address ctl cpu k s = (t, r)"
  shows "emutls_ok ctl t \<and>
    (\<forall>l d off. l \<noteq> 0 \<longrightarrow> d < 32 \<longrightarrow> copy_at s d l = Some off \<longrightarrow> copy_at t d l = Some off) \<and>
    (\<forall>off. r = Some off \<longrightarrow> k \<noteq> 0 \<and> copy_at t (cpu_index cpu) k = Some off)"
proof (cases "k = 0")
  case True
  then show ?thesis using assms by (simp add: emutls_get_address_def)
next
  case False
  let ?c = "cpu_index cpu"
  have c: "?c < 32" by (simp add: cpu_index_def)
  obtain u g where u: "emutls_get_entry k s = (u, g)" by (cases "emutls_get_entry k s")
  note us = get_entry_spec [OF ok False u]
  show ?thesis
  proof (cases g)
    case None
    then have "t = u" "r = None" using r u False by (simp_all add: emutls_get_address_def Let_def)
    then show ?thesis using us by simp
  next
    case (Some i)
    let ?es = "g_emutls_entries u" and ?o = "g_emutls_arena_off u"
    have i: "i < 128" and hit: "find (\<lambda>i. ee_control (?es ! i) = k) [0..<128] = Some i" using us Some by simp_all
    have uok: "emutls_ok ctl u" using us by simp
    then have len: "length ?es = 128" and o: "unat ?o \<le> 0x40000" by (simp_all add: emutls_ok_def)
    have at: "copy_at u ?c k = ee_per_cpu (?es ! i) ! ?c" using hit by (simp add: copy_at_def)
    show ?thesis
    proof (cases "ee_per_cpu (?es ! i) ! ?c")
      case old: (Some off)
      then have "t = u" "r = Some off"
        using r u False Some by (simp_all add: emutls_get_address_def Let_def cpu_index_def)
      then show ?thesis using us at old False by simp
    next
      case new: None
      let ?size = "object_size (ctl k)"
      let ?off = "emutls_align_up ?o (if ec_align (ctl k) < 4 then 4 else ec_align (ctl k))"
      let ?e = "(?es ! i)\<lparr>ee_per_cpu := (ee_per_cpu (?es ! i))[?c := Some ?off]\<rparr>"
      have run: "(t, r) = (if ?off > EMUTLS_ARENA_SIZE \<or> ?size > EMUTLS_ARENA_SIZE - ?off then (u, None)
          else (u\<lparr>g_emutls_arena_off := ?off + ?size,
                  g_emutls_arena := emutls_copy_init (unat ?off) (ec_templ (ctl k)) (unat ?size) (g_emutls_arena u),
                  g_emutls_entries := ?es[i := ?e]\<rparr>, Some ?off))"
        using r [symmetric] u False Some new [unfolded cpu_index_def]
        unfolding emutls_get_address_def Let_def cpu_index_def by simp
      show ?thesis
      proof (cases "?off > EMUTLS_ARENA_SIZE \<or> ?size > EMUTLS_ARENA_SIZE - ?off")
        case True
        then show ?thesis using run us by simp
      next
        case room: False
        then have t: "g_emutls_entries t = ?es[i := ?e]" "g_emutls_arena_off t = ?off + ?size" "r = Some ?off"
          using run by simp_all
        have ge: "unat ?o \<le> unat ?off" using align_up_ge [OF o] .
        have fit: "unat ?off + unat ?size \<le> 0x40000"
          using room unat_sub [of ?off EMUTLS_ARENA_SIZE] by (auto simp: word_less_nat_alt word_le_nat_alt not_less)
        then have sum: "unat (?off + ?size) = unat ?off + unat ?size" by (simp add: unat_word_ariths)
        have control: "ee_control (?es[i := ?e] ! j) = ee_control (?es ! j)" for j
          using i len by (cases "i = j") simp_all
        have i0: "ee_control (?es ! i) = k" using hit by (simp add: find_upt_Some)
        have plen: "length (ee_per_cpu (?es ! i)) = 32" using uok i len by (simp add: emutls_ok_def)
        have copy: "copy_at t d l = (if l = k \<and> d = ?c then Some ?off else copy_at u d l)"
          if l: "l \<noteq> 0" "d < 32" for l d
        proof (cases "find (\<lambda>j. ee_control (?es ! j) = l) [0..<128]")
          case None
          then show ?thesis using hit by (auto simp: copy_at_def t(1) control)
        next
          case (Some j)
          then have j: "j < 128" "ee_control (?es ! j) = l" by (simp_all add: find_upt_Some)
          show ?thesis
          proof (cases "j = i")
            case True
            then have "l = k" using j i0 by simp
            then show ?thesis using Some True i len plen l(2) c by (simp add: copy_at_def t(1) control nth_list_update)
          next
            case False
            then have "l \<noteq> k" using Some hit by auto
            then show ?thesis using Some False j by (simp add: copy_at_def t(1) control)
          qed
        qed
        have "emutls_ok ctl t"
          unfolding emutls_ok_def t(1,2) sum
        proof (intro conjI ballI allI impI)
          show "length (?es[i := ?e]) = 128" using len by simp
          show "unat ?off + unat ?size \<le> unat EMUTLS_ARENA_SIZE" using fit by simp
        next
          fix e assume "e \<in> set (?es[i := ?e])"
          then have "e = ?e \<or> e \<in> set ?es" using set_update_subset_insert by fast
          then show "length (ee_per_cpu e) = 32" using uok plen by (auto simp: emutls_ok_def)
        next
          fix e assume e: "e \<in> set (?es[i := ?e])" "ee_control e = 0"
          then have "e = ?e \<or> e \<in> set ?es" using set_update_subset_insert by fast
          then have "e \<in> set ?es" using e(2) i0 False by auto
          then show "ee_per_cpu e = replicate 32 None" using uok e(2) unfolding emutls_ok_def by blast
        next
          fix l d off assume "l \<noteq> 0" "d < 32" "copy_at t d l = Some off"
          then show "unat off + unat (object_size (ctl l)) \<le> unat ?off + unat ?size"
            using copy [of l d] uok ge unfolding emutls_ok_def by (fastforce split: if_splits)
        next
          fix l d off l' d' off'
          assume *: "l \<noteq> 0" "l' \<noteq> 0" "d < 32" "d' < 32" "(l, d) \<noteq> (l', d')"
            "copy_at t d l = Some off" "copy_at t d' l' = Some off'"
          have low: "unat a + unat (object_size (ctl z)) \<le> unat ?off" if "z \<noteq> 0" "y < 32" "copy_at u y z = Some a" for y z a
            using uok that ge unfolding emutls_ok_def by fastforce
          show "copies_apart (unat off) (unat (object_size (ctl l))) (unat off') (unat (object_size (ctl l')))"
          proof (cases "(l = k \<and> d = ?c) \<or> (l' = k \<and> d' = ?c)")
            case True
            then show ?thesis
              using * copy [of l d] copy [of l' d'] low [of l d off] low [of l' d' off'] by (auto simp: copies_apart_def)
          next
            case False
            then have "copy_at u d l = Some off" "copy_at u d' l' = Some off'"
              using * copy [of l d] copy [of l' d'] by (auto split: if_splits)
            then show ?thesis using uok *(1-5) unfolding emutls_ok_def by blast
          qed
        qed
        moreover have "copy_at u ?c k = None" using at new by simp
        ultimately show ?thesis using copy us t(3) False c by (auto split: if_splits)
      qed
    qed
  qed
qed

lemma emutls_start_ok: "emutls_ok ctl emutls_start"
proof -
  have "copy_at emutls_start d l = None" if "l \<noteq> 0" for d l
    using that by (simp add: copy_at_def emutls_start_def find_upt_None [THEN iffD2])
  then show ?thesis by (simp add: emutls_ok_def) (simp add: emutls_start_def)
qed

lemma run_keeps:
  assumes "emutls_run ctl xs s = (t, rs)" and "emutls_ok ctl s"
  shows "emutls_ok ctl t \<and> length rs = length xs \<and>
    (\<forall>l d off. l \<noteq> 0 \<longrightarrow> d < 32 \<longrightarrow> copy_at s d l = Some off \<longrightarrow> copy_at t d l = Some off) \<and>
    (\<forall>i < length xs. \<forall>off. rs ! i = Some off \<longrightarrow>
       snd (xs ! i) \<noteq> 0 \<and> copy_at t (cpu_index (fst (xs ! i))) (snd (xs ! i)) = Some off)"
  using assms
proof (induction xs arbitrary: s rs)
  case Nil
  then show ?case by simp
next
  case (Cons x xs)
  obtain u r where u: "emutls_get_address ctl (fst x) (snd x) s = (u, r)" by (cases "emutls_get_address ctl (fst x) (snd x) s")
  obtain qs where q: "emutls_run ctl xs u = (t, qs)" and rs: "rs = r # qs"
    using Cons.prems(1) u by (auto split: prod.splits)
  note one = get_address_spec [OF Cons.prems(2) u]
  then have rest: "emutls_ok ctl t \<and> length qs = length xs \<and>
    (\<forall>l d off. l \<noteq> 0 \<longrightarrow> d < 32 \<longrightarrow> copy_at u d l = Some off \<longrightarrow> copy_at t d l = Some off) \<and>
    (\<forall>i < length xs. \<forall>off. qs ! i = Some off \<longrightarrow>
       snd (xs ! i) \<noteq> 0 \<and> copy_at t (cpu_index (fst (xs ! i))) (snd (xs ! i)) = Some off)"
    using Cons.IH [OF q] by blast
  have "snd ((x # xs) ! i) \<noteq> 0 \<and> copy_at t (cpu_index (fst ((x # xs) ! i))) (snd ((x # xs) ! i)) = Some off"
    if i: "i < length (x # xs)" and r: "rs ! i = Some off" for i off
  proof (cases i)
    case 0
    have "cpu_index (fst x) < 32" by (simp add: cpu_index_def)
    then show ?thesis using 0 r rs one rest by simp
  next
    case (Suc j)
    then show ?thesis using i r rs rest by simp
  qed
  then show ?case using one rest rs by auto
qed

text \<open>C37. Thread-local variables are private. In any sequence of calls of \<open>__emutls_get_address\<close>, by
  any processors for any control objects, the same processor gets the same address for the same
  object each time, and the addresses for different objects or different processors are of disjoint
  memory, all inside the arena.\<close>

theorem emutls_copies_private:
  assumes run: "emutls_run ctl xs emutls_start = (t, rs)"
    and i: "i < length xs" "rs ! i = Some a" and j: "j < length xs" "rs ! j = Some b"
  shows "unat a + unat (object_size (ctl (snd (xs ! i)))) \<le> unat EMUTLS_ARENA_SIZE \<and>
    (if cpu_index (fst (xs ! i)) = cpu_index (fst (xs ! j)) \<and> snd (xs ! i) = snd (xs ! j) then a = b
     else copies_apart (unat a) (unat (object_size (ctl (snd (xs ! i))))) (unat b) (unat (object_size (ctl (snd (xs ! j))))))"
proof -
  note k = run_keeps [OF run emutls_start_ok]
  let ?ci = "cpu_index (fst (xs ! i))" and ?cj = "cpu_index (fst (xs ! j))"
  have c: "?ci < 32" "?cj < 32" by (simp_all add: cpu_index_def)
  have ok: "emutls_ok ctl t" and ci: "snd (xs ! i) \<noteq> 0" "copy_at t ?ci (snd (xs ! i)) = Some a"
    and cj: "snd (xs ! j) \<noteq> 0" "copy_at t ?cj (snd (xs ! j)) = Some b" using k i j by blast+
  have "unat a + unat (object_size (ctl (snd (xs ! i)))) \<le> unat (g_emutls_arena_off t)"
    "unat (g_emutls_arena_off t) \<le> unat EMUTLS_ARENA_SIZE"
    using ok ci c unfolding emutls_ok_def by blast+
  moreover have "copies_apart (unat a) (unat (object_size (ctl (snd (xs ! i))))) (unat b) (unat (object_size (ctl (snd (xs ! j)))))"
    if "(snd (xs ! i), ?ci) \<noteq> (snd (xs ! j), ?cj)"
    using ok ci cj c that unfolding emutls_ok_def by blast
  moreover have "a = b" if "?ci = ?cj" "snd (xs ! i) = snd (xs ! j)" using that ci cj by simp
  ultimately show ?thesis by auto
qed

definition demo_controls :: "u32 \<Rightarrow> emutls_control" where
  "demo_controls k = (if k = 1 then \<lparr>ec_size = 6, ec_align = 8, ec_templ = None\<rparr>
     else \<lparr>ec_size = 0, ec_align = 0, ec_templ = Some (\<lambda>_. 7)\<rparr>)"

theorem emutls_copies_private_witness:
  "let rs = snd (emutls_run demo_controls [(0, 1), (3, 1), (0, 2), (3, 1)] emutls_start) in
   rs = [Some 0, Some 8, Some 16, Some 8] \<and> copies_apart 8 6 16 4"
proof -
  obtain t rs where r: "emutls_run demo_controls [(0, 1), (3, 1), (0, 2), (3, 1)] emutls_start = (t, rs)"
    by (cases "emutls_run demo_controls [(0, 1), (3, 1), (0, 2), (3, 1)] emutls_start")
  have "snd (emutls_run demo_controls [(0, 1), (3, 1), (0, 2), (3, 1)] emutls_start) = [Some 0, Some 8, Some 16, Some 8]"
    by code_simp
  then have rs: "rs = [Some 0, Some 8, Some 16, Some 8]" using r by simp
  then show ?thesis
    using r emutls_copies_private [OF r, of 1 8 2 16] by (simp add: cpu_index_def object_size_def demo_controls_def)
qed

end
