(* ===== verification/Proc.thy ===== *)
theory Proc
  imports Ext4_Api Sched_Life
begin

text \<open>
  The proc file system (\<open>src/fs_proc.c\<close>): a directory of files that are written when they are
  read, from the state of the scheduler, the boot record and the registers with the machine's
  counters, and a directory for each task.

  What a call reads is a parameter (\<open>proc_env\<close>), and is taken to be constant during the call: the
  scheduler's state, the boot record that \<open>vm_info_load_boot\<close> delivers (if it does), the words at
  the addresses of the registers, and the end of the kernel image. A path is the list of its bytes
  without the terminating zero. A \<open>proc_buffer_t\<close> is its capacity and the text in it.
\<close>

subsection \<open>Text\<close>

definition ascii :: "string \<Rightarrow> u8 list" where
  "ascii s = map of_char s"

abbreviation (input) "NL \<equiv> CHR 0x0A"
abbreviation (input) "TAB \<equiv> CHR 0x09"

record proc_buffer =
  pb_capacity :: nat
  pb_text :: "u8 list"

definition proc_buf_putc :: "u8 \<Rightarrow> proc_buffer \<Rightarrow> proc_buffer" where
  "proc_buf_putc c out =
     (if length (pb_text out) + 1 < pb_capacity out then out\<lparr>pb_text := pb_text out @ [c]\<rparr> else out)"

definition proc_buf_puts :: "string \<Rightarrow> proc_buffer \<Rightarrow> proc_buffer" where
  "proc_buf_puts s out = fold proc_buf_putc (ascii s) out"

text \<open>The digits of a number, the last one first; \<open>n\<close> is the room left in \<open>digits\<close>.\<close>

primrec digits_loop :: "nat \<Rightarrow> u64 \<Rightarrow> u8 list" where
  "digits_loop 0 v = []"
| "digits_loop (Suc n) v = (if v = 0 then [] else (0x30 + ucast (v mod 10)) # digits_loop n (v div 10))"

definition proc_buf_u64 :: "u64 \<Rightarrow> proc_buffer \<Rightarrow> proc_buffer" where
  "proc_buf_u64 v out =
     (if v = 0 then proc_buf_putc 0x30 out else fold proc_buf_putc (rev (digits_loop 24 v)) out)"

definition proc_buf_i32 :: "int \<Rightarrow> proc_buffer \<Rightarrow> proc_buffer" where
  "proc_buf_i32 v out =
     (if v < 0 then proc_buf_u64 (ucast (word_of_int (- (v + 1)) + 1 :: u32)) (proc_buf_putc 0x2D out)
      else proc_buf_u64 (ucast (word_of_int v :: u32)) out)"

definition proc_buf_fixed3 :: "u64 \<Rightarrow> proc_buffer \<Rightarrow> proc_buffer" where
  "proc_buf_fixed3 milli_value out =
     fold (\<lambda>f. f)
      [proc_buf_u64 (milli_value div 1000), proc_buf_putc 0x2E,
       proc_buf_putc (0x30 + ucast (milli_value div 100 mod 10)),
       proc_buf_putc (0x30 + ucast (milli_value div 10 mod 10)),
       proc_buf_putc (0x30 + ucast (milli_value mod 10))] out"

definition proc_buf_kib_line :: "string \<Rightarrow> u64 \<Rightarrow> proc_buffer \<Rightarrow> proc_buffer" where
  "proc_buf_kib_line name bytes out =
     fold (\<lambda>f. f) [proc_buf_puts name, proc_buf_puts '': '', proc_buf_u64 (bytes div 1024),
                  proc_buf_puts ('' kB'' @ [NL])] out"

subsection \<open>What the files are written from\<close>

record boot_info =
  bi_mem_bytes_lo :: u32
  bi_mem_bytes_hi :: u32
  bi_smp_cores :: u32
  bi_timer_freq_hz :: u32
  bi_features :: u32
  bi_boot_realtime_ns_lo :: u32
  bi_boot_realtime_ns_hi :: u32

record proc_env =
  pe_sched :: kstate
  pe_boot :: "boot_info option"
  pe_read32 :: "u32 \<Rightarrow> u32"
  pe_kernel_end :: u32

abbreviation (input) "SYSINFO_MMIO_BASE \<equiv> (0x0074C000 :: u32)"
abbreviation (input) "PROC_CONTENT_CAP \<equiv> (12288 :: nat)"
abbreviation (input) "PROC_INO_ROOT \<equiv> (1 :: u32)"
abbreviation (input) "PROC_INO_TASK_DIR \<equiv> (0x40000000 :: u32)"
abbreviation (input) "PROC_INO_TASK_STAT \<equiv> (0x80000000 :: u32)"
abbreviation (input) "PROC_INO_TASK_PID_MASK \<equiv> (0x3FFFFFFF :: u32)"
abbreviation (input) "SYS_DT_REG \<equiv> (8 :: u32)"
abbreviation (input) "SYS_DT_DIR \<equiv> (4 :: u32)"

definition proc_read64 :: "proc_env \<Rightarrow> u32 \<Rightarrow> u32 \<Rightarrow> u64" where
  "proc_read64 env low_reg high_reg =
     (let low = pe_read32 env (SYSINFO_MMIO_BASE + low_reg); high = pe_read32 env (SYSINFO_MMIO_BASE + high_reg)
      in push_bit 32 (ucast high) OR ucast low)"

definition proc_runtime_available :: "proc_env \<Rightarrow> bool" where
  "proc_runtime_available env =
     (case pe_boot env of
        None \<Rightarrow> False
      | Some info \<Rightarrow> bi_features info AND 0x400 \<noteq> 0 \<and> pe_read32 env (SYSINFO_MMIO_BASE + 0x8C) = 1)"

definition sched_tick_period_us :: u32 where
  "sched_tick_period_us = 5000"

subsection \<open>The files\<close>

definition proc_task_state :: "task_state \<Rightarrow> u8" where
  "proc_task_state st =
     (case st of RUNNING \<Rightarrow> of_char (CHR ''R'') | RUNNABLE \<Rightarrow> of_char (CHR ''R'')
      | SLEEPING \<Rightarrow> of_char (CHR ''S'') | BLOCKED \<Rightarrow> of_char (CHR ''D'')
      | ZOMBIE \<Rightarrow> of_char (CHR ''Z'') | UNUSED \<Rightarrow> of_char (CHR ''S''))"

definition proc_task_stat :: "proc_env \<Rightarrow> u32 \<Rightarrow> nat \<Rightarrow> u8 list" where
  "proc_task_stat env p capacity =
     (if capacity = 0 then []
      else case sched_proc_task_by_pid p (pe_sched env) of
        None \<Rightarrow> []
      | Some t \<Rightarrow>
          let page_count = (pi_stack_bytes t + 4095) div 4096;
              virtual_size = (if pi_kind t = KIND_USER then USER_REGION_SIZE else pi_stack_bytes t) in
          pb_text (fold (\<lambda>f. f)
           [proc_buf_u64 (ucast (pi_pid t)), proc_buf_puts '' ('', proc_buf_puts (pi_name t), proc_buf_puts '') '',
            proc_buf_putc (proc_task_state (pi_state t)), proc_buf_putc 0x20, proc_buf_i32 (pi_ppid t),
            proc_buf_putc 0x20, proc_buf_u64 (ucast (pi_pid t)), proc_buf_putc 0x20,
            proc_buf_u64 (ucast (pi_pid t)), proc_buf_puts '' 0 0 0 0 0 0 0 '',
            proc_buf_u64 (ucast (pi_run_ticks t)), proc_buf_puts '' 0 0 0 20 0 1 0 0 '', proc_buf_putc 0x20,
            proc_buf_u64 (ucast virtual_size), proc_buf_putc 0x20, proc_buf_u64 (ucast page_count),
            proc_buf_putc 0x0A] \<lparr>pb_capacity = capacity, pb_text = []\<rparr>))"

definition proc_build_cpu :: "u64 \<Rightarrow> u32 \<Rightarrow> nat \<Rightarrow> proc_buffer \<Rightarrow> proc_buffer" where
  "proc_build_cpu frequency_hz timer_hz cpu out =
     fold (\<lambda>f. f)
      [proc_buf_puts (''processor'' @ [TAB] @ '': ''), proc_buf_u64 (of_nat cpu),
       proc_buf_puts ([NL] @ ''vendor_id'' @ [TAB] @ '': LampVM'' @ [NL] @ ''model name'' @ [TAB] @
         '': LampVM LAMP32 virtual CPU'' @ [NL]),
       proc_buf_puts (''cpu MHz'' @ [TAB, TAB] @ '': ''), proc_buf_fixed3 (frequency_hz div 1000),
       proc_buf_puts ([NL] @ ''cycle model'' @ [TAB] @ '': one-cycle-per-instruction v1'' @ [NL] @
         ''timer Hz'' @ [TAB] @ '': ''),
       proc_buf_u64 (ucast timer_hz),
       proc_buf_puts ([NL] @ ''flags'' @ [TAB, TAB] @ '': smp mmu iommu pcie msi'' @ [NL, NL])] out"

definition proc_build_cpuinfo :: "proc_env \<Rightarrow> proc_buffer \<Rightarrow> proc_buffer" where
  "proc_build_cpuinfo env out =
     (let cores = (case pe_boot env of None \<Rightarrow> 1
                   | Some boot \<Rightarrow> if bi_smp_cores boot \<noteq> 0 then bi_smp_cores boot else 1);
          timer_hz = (case pe_boot env of None \<Rightarrow> 0 | Some boot \<Rightarrow> bi_timer_freq_hz boot);
          frequency_hz = (if proc_runtime_available env then proc_read64 env 0x5C 0x60 else 0)
      in fold (proc_build_cpu frequency_hz timer_hz) [0..<unat cores] out)"

definition proc_memory_values :: "proc_env \<Rightarrow> u64 \<times> u64 \<times> u64 \<times> sched_stats" where
  "proc_memory_values env =
     (let kernel_reserved = (ucast (pe_kernel_end env) + 4095) AND NOT 4095;
          stats = sched_stats_snapshot (pe_sched env);
          total = (case pe_boot env of
                     Some boot \<Rightarrow> if bi_mem_bytes_hi boot = 0 then ucast (bi_mem_bytes_lo boot) else 0x04000000
                   | None \<Rightarrow> 0x04000000);
          used1 = kernel_reserved + ucast (ss_stack_bytes stats);
          used1 = (if ss_user_tasks stats \<noteq> 0 then used1 + ucast USER_REGION_SIZE else used1);
          used1 = (if used1 > total then total else used1)
      in (total, used1, total - used1, stats))"

definition fs_proc_memory_snapshot :: "proc_env \<Rightarrow> u64 \<times> u64 \<times> u64" where
  "fs_proc_memory_snapshot env =
     (case proc_memory_values env of (all1, used1, available, stats) \<Rightarrow> (all1, used1, available))"

definition proc_build_meminfo :: "proc_env \<Rightarrow> proc_buffer \<Rightarrow> proc_buffer" where
  "proc_build_meminfo env out =
     (case proc_memory_values env of (all1, used1, available, stats) \<Rightarrow>
       fold (\<lambda>f. f)
        [proc_buf_kib_line ''MemTotal'' all1, proc_buf_kib_line ''MemFree'' (all1 - used1),
         proc_buf_kib_line ''MemAvailable'' available, proc_buf_kib_line ''Buffers'' 0,
         proc_buf_kib_line ''Cached'' 0, proc_buf_kib_line ''SReclaimable'' 0,
         proc_buf_kib_line ''KernelStack'' (ucast (ss_stack_bytes stats))] out)"

definition proc_build_uptime :: "proc_env \<Rightarrow> proc_buffer \<Rightarrow> proc_buffer" where
  "proc_build_uptime env out =
     (let uptime_ns = (if proc_runtime_available env then proc_read64 env 0x7C 0x80 else 0);
          stats = sched_stats_snapshot (pe_sched env);
          idle_us = ucast (ss_idle_ticks stats) * ucast sched_tick_period_us
      in fold (\<lambda>f. f)
          [proc_buf_u64 (uptime_ns div 1000000000), proc_buf_putc 0x2E,
           proc_buf_putc (0x30 + ucast (uptime_ns div 100000000 mod 10)),
           proc_buf_putc (0x30 + ucast (uptime_ns div 10000000 mod 10)), proc_buf_putc 0x20,
           proc_buf_u64 (idle_us div 1000000), proc_buf_putc 0x2E,
           proc_buf_putc (0x30 + ucast (idle_us div 100000 mod 10)),
           proc_buf_putc (0x30 + ucast (idle_us div 10000 mod 10)), proc_buf_putc 0x0A] out)"

definition proc_build_stat :: "proc_env \<Rightarrow> proc_buffer \<Rightarrow> proc_buffer" where
  "proc_build_stat env out =
     (let stats = sched_stats_snapshot (pe_sched env);
          boot_seconds = (case pe_boot env of None \<Rightarrow> 0
            | Some boot \<Rightarrow> (push_bit 32 (ucast (bi_boot_realtime_ns_hi boot)) OR
                            ucast (bi_boot_realtime_ns_lo boot)) div 1000000000)
      in fold (\<lambda>f. f)
          [proc_buf_puts ''cpu  '', proc_buf_u64 (ucast (ss_user_ticks stats)), proc_buf_puts '' 0 '',
           proc_buf_u64 (ucast (ss_system_ticks stats)), proc_buf_putc 0x20,
           proc_buf_u64 (ucast (ss_idle_ticks stats)), proc_buf_puts ('' 0 0 0 0 0 0'' @ [NL]),
           proc_buf_puts ''btime '', proc_buf_u64 boot_seconds, proc_buf_puts ([NL] @ ''processes ''),
           proc_buf_u64 (of_nat (ss_task_count stats)), proc_buf_puts ([NL] @ ''procs_running ''),
           proc_buf_u64 (of_nat (ss_running stats + ss_runnable stats)),
           proc_buf_puts ([NL] @ ''procs_blocked ''), proc_buf_u64 (of_nat (ss_blocked stats)),
           proc_buf_putc 0x0A] out)"

definition proc_build_loadavg :: "proc_env \<Rightarrow> proc_buffer \<Rightarrow> proc_buffer" where
  "proc_build_loadavg env out =
     (let stats = sched_stats_snapshot (pe_sched env);
          runnable_milli = of_nat (ss_running stats + ss_runnable stats) * 1000 div
            (if ss_online_cpus stats \<noteq> 0 then of_nat (ss_online_cpus stats) else 1)
      in fold (\<lambda>f. f)
          [proc_buf_fixed3 runnable_milli, proc_buf_putc 0x20, proc_buf_fixed3 runnable_milli,
           proc_buf_putc 0x20, proc_buf_fixed3 runnable_milli, proc_buf_putc 0x20,
           proc_buf_u64 (of_nat (ss_running stats + ss_runnable stats)), proc_buf_putc 0x2F,
           proc_buf_u64 (of_nat (ss_task_count stats)), proc_buf_puts ('' 0'' @ [NL])] out)"

definition proc_build_lampvm :: "proc_env \<Rightarrow> proc_buffer \<Rightarrow> proc_buffer" where
  "proc_build_lampvm env out =
     (case proc_memory_values env of (all1, used1, available, stats) \<Rightarrow>
      let reg = (\<lambda>lo hi. if proc_runtime_available env then proc_read64 env lo hi else 0) in
      fold (\<lambda>f. f)
       [proc_buf_puts (''clock_model paced-monotonic-v1'' @ [NL] @ ''cycle_model one-cycle-per-instruction-v1'' @ [NL]),
        proc_buf_puts ''cpu_frequency_hz '', proc_buf_u64 (reg 0x5C 0x60),
        proc_buf_puts ([NL] @ ''virtual_cycles ''), proc_buf_u64 (reg 0x64 0x68),
        proc_buf_puts ([NL] @ ''executed_instructions ''), proc_buf_u64 (reg 0x6C 0x70),
        proc_buf_puts ([NL] @ ''execution_rate_ips ''), proc_buf_u64 (reg 0x74 0x78),
        proc_buf_puts ([NL] @ ''uptime_ns ''), proc_buf_u64 (reg 0x7C 0x80),
        proc_buf_puts ([NL] @ ''guest_ram_bytes ''), proc_buf_u64 all1,
        proc_buf_puts ([NL] @ ''guest_estimated_used_bytes ''), proc_buf_u64 used1,
        proc_buf_puts ([NL] @ ''guest_available_bytes ''), proc_buf_u64 available,
        proc_buf_puts ([NL] @ ''host_rss_bytes ''), proc_buf_u64 (reg 0x84 0x88),
        proc_buf_puts ([NL] @ ''tasks ''), proc_buf_u64 (of_nat (ss_task_count stats)),
        proc_buf_putc 0x0A] out)"

subsection \<open>Files and directories by number\<close>

definition proc_is_task_dir :: "u32 \<Rightarrow> bool" where
  "proc_is_task_dir ino \<longleftrightarrow> ino AND NOT PROC_INO_TASK_PID_MASK = PROC_INO_TASK_DIR"

definition proc_is_task_stat :: "u32 \<Rightarrow> bool" where
  "proc_is_task_stat ino \<longleftrightarrow> ino AND NOT PROC_INO_TASK_PID_MASK = PROC_INO_TASK_STAT"

definition proc_task_pid :: "u32 \<Rightarrow> u32" where
  "proc_task_pid ino = ino AND PROC_INO_TASK_PID_MASK"

definition g_proc_entries :: "(u32 \<times> u8 list \<times> u32) list" where
  "g_proc_entries =
     [(PROC_INO_ROOT, ascii ''.'', SYS_DT_DIR), (PROC_INO_ROOT, ascii ''..'', SYS_DT_DIR),
      (2, ascii ''cpuinfo'', SYS_DT_REG), (3, ascii ''meminfo'', SYS_DT_REG), (4, ascii ''uptime'', SYS_DT_REG),
      (5, ascii ''stat'', SYS_DT_REG), (6, ascii ''version'', SYS_DT_REG), (7, ascii ''loadavg'', SYS_DT_REG),
      (8, ascii ''lampvm'', SYS_DT_REG)]"

definition proc_directory_size :: "u32 \<Rightarrow> u32" where
  "proc_directory_size ino =
     (if ino = PROC_INO_ROOT then of_nat (length g_proc_entries) + of_nat SCHED_MAX_TASKS
      else if proc_is_task_dir ino then 3 else 0)"

definition proc_build :: "proc_env \<Rightarrow> u32 \<Rightarrow> nat \<Rightarrow> u8 list" where
  "proc_build env ino capacity =
     (if capacity = 0 then []
      else if proc_is_task_stat ino then proc_task_stat env (proc_task_pid ino) capacity
      else pb_text (
        (if ino = 2 then proc_build_cpuinfo env
         else if ino = 3 then proc_build_meminfo env
         else if ino = 4 then proc_build_uptime env
         else if ino = 5 then proc_build_stat env
         else if ino = 6 then proc_buf_puts (''Lamp kernel 0.31 (lamp32) procfs-v1'' @ [NL])
         else if ino = 7 then proc_build_loadavg env
         else if ino = 8 then proc_build_lampvm env
         else (\<lambda>out. out)) \<lparr>pb_capacity = capacity, pb_text = []\<rparr>))"

subsection \<open>Paths\<close>

definition fs_proc_path_match :: "path \<Rightarrow> bool" where
  "fs_proc_path_match p \<longleftrightarrow> take 5 p = ascii ''/proc'' \<and> (length p = 5 \<or> p ! 5 = SLASH)"

text \<open>The loop that reads a process number: \<open>None\<close> if it is too large.\<close>

fun parse_pid :: "path \<Rightarrow> u32 \<Rightarrow> (u32 \<times> path) option" where
  "parse_pid [] p = Some (p, [])"
| "parse_pid (c # cs) p =
     (if c < 0x30 \<or> c > 0x39 then Some (p, c # cs)
      else let digit = ucast (c - 0x30) in
        if p > (PROC_INO_TASK_PID_MASK - digit) div 10 then None
        else parse_pid cs (p * 10 + digit))"

definition proc_parse_task_path :: "proc_env \<Rightarrow> path \<Rightarrow> (u32 \<times> path) option" where
  "proc_parse_task_path env path =
     (if take 6 path \<noteq> ascii ''/proc/'' then None
      else let p = drop 6 path in
        if p = [] \<or> hd p < 0x30 \<or> hd p > 0x39 then None
        else case parse_pid p 0 of
          None \<Rightarrow> None
        | Some (num, tail) \<Rightarrow>
            if num = 0 \<or> sched_proc_task_by_pid num (pe_sched env) = None then None else Some (num, tail))"

text \<open>The number of a file and whether it is a directory; \<open>None\<close> stands for the number 0.\<close>

definition proc_lookup :: "proc_env \<Rightarrow> path \<Rightarrow> (u32 \<times> bool) option" where
  "proc_lookup env path =
     (if path = ascii ''/proc'' \<or> path = ascii ''/proc/'' then Some (PROC_INO_ROOT, True)
      else if \<not> fs_proc_path_match path then None
      else case proc_parse_task_path env path of
        Some (num, tail) \<Rightarrow>
          if tail = [] \<or> tail = ascii ''/'' then Some (PROC_INO_TASK_DIR OR num, True)
          else if tail = ascii ''/stat'' then Some (PROC_INO_TASK_STAT OR num, False)
          else None
      | None \<Rightarrow>
          let name = drop 6 path in
          if name = [] then Some (PROC_INO_ROOT, True)
          else case find (\<lambda>(ino, n, type). name = n) (drop 2 g_proc_entries) of
            None \<Rightarrow> None
          | Some (ino, n, type) \<Rightarrow> Some (ino, False))"

subsection \<open>The calls\<close>

definition proc_size :: "proc_env \<Rightarrow> u32 \<Rightarrow> bool \<Rightarrow> u32" where
  "proc_size env ino is_dir =
     (if is_dir then proc_directory_size ino else of_nat (length (proc_build env ino PROC_CONTENT_CAP)))"

definition fs_proc_open :: "proc_env \<Rightarrow> path \<Rightarrow> u32 \<Rightarrow> fd_env \<Rightarrow> fd_env \<times> int" where
  "fs_proc_open env path flags e =
     (case proc_lookup env path of
        None \<Rightarrow> (e, FS_ERR_NOENT)
      | Some (ino, is_dir) \<Rightarrow>
          if flags AND SYS_O_ACCMODE \<noteq> SYS_O_RDONLY \<or> flags AND (SYS_O_CREAT OR SYS_O_TRUNC OR 0x400) \<noteq> 0
          then (e, FS_ERR_ROFS)
          else sched_fd_open_regular (flags AND (SYS_O_ACCMODE OR SYS_O_NONBLOCK)) FS_BACKEND_PROC ino
                 (proc_size env ino is_dir) is_dir e)"

definition fs_proc_stat :: "proc_env \<Rightarrow> path \<Rightarrow> int + fs_stat" where
  "fs_proc_stat env path =
     (case proc_lookup env path of
        None \<Rightarrow> Inl FS_ERR_NOENT
      | Some (ino, is_dir) \<Rightarrow>
          let size1 = proc_size env ino is_dir in
          Inr \<lparr>st_dev = FS_BACKEND_PROC, st_ino = ino,
               st_mode = (if is_dir then 0x4000 OR 0x16D else 0x8000 OR 0x124),
               st_nlink = (if is_dir then 2 else 1), st_uid = 0, st_gid = 0, st_rdev = 0,
               st_size = size1, st_blksize = 4096, st_blocks = (size1 + 511) div 512\<rparr>)"

definition proc_dirent :: "u32 \<Rightarrow> u32 \<Rightarrow> u32 \<Rightarrow> u8 list \<Rightarrow> fs_dirent" where
  "proc_dirent ino off type name =
     \<lparr>d_ino = ino, d_off = off, d_reclen = of_nat DIRENT_SIZE, d_type = type, d_name = take 255 name\<rparr>"

definition pid_name :: "u32 \<Rightarrow> u8 list" where
  "pid_name p = pb_text (proc_buf_u64 (ucast p) \<lparr>pb_capacity = 256, pb_text = []\<rparr>)"

definition fs_proc_getdents_task :: "proc_env \<Rightarrow> u32 \<Rightarrow> u32 \<Rightarrow> fs_dirent option" where
  "fs_proc_getdents_task env ino off =
     (let num = proc_task_pid ino;
          task_entries = [(ino, ascii ''.'', SYS_DT_DIR), (PROC_INO_ROOT, ascii ''..'', SYS_DT_DIR),
                          (PROC_INO_TASK_STAT OR num, ascii ''stat'', SYS_DT_REG)] in
      if sched_proc_task_by_pid num (pe_sched env) = None \<or> unat off \<ge> length task_entries then None
      else case task_entries ! unat off of (i, name, type) \<Rightarrow> Some (proc_dirent i (off + 1) type name))"

text \<open>The tasks take the offsets below \<open>SCHED_MAX_TASKS\<close>, the files those from there on. The loop
  variable, a \<open>uint32_t\<close>, wraps if the offset is the largest one.\<close>

definition fs_proc_getdents_root :: "proc_env \<Rightarrow> u32 \<Rightarrow> fs_dirent option" where
  "fs_proc_getdents_root env off =
     (case find (\<lambda>i. sched_proc_task_by_slot i (pe_sched env) \<noteq> None) [unat (off + 1)..<SCHED_MAX_TASKS] of
        Some i \<Rightarrow>
          let t = the (sched_proc_task_by_slot i (pe_sched env)) in
          Some (proc_dirent (PROC_INO_TASK_DIR OR pi_pid t) (of_nat i) SYS_DT_DIR (pid_name (pi_pid t)))
      | None \<Rightarrow>
          if unat off < SCHED_MAX_TASKS + length g_proc_entries then
            let static_index = (if unat off < SCHED_MAX_TASKS then 0 else unat off - SCHED_MAX_TASKS) in
            (case g_proc_entries ! static_index of (ino, name, type) \<Rightarrow>
               Some (proc_dirent ino (of_nat (SCHED_MAX_TASKS + static_index + 1)) type name))
          else None)"

definition fs_proc_getdents_fd :: "proc_env \<Rightarrow> int \<Rightarrow> u32 \<Rightarrow> fd_env \<Rightarrow> fd_env \<times> int \<times> fs_dirent list" where
  "fs_proc_getdents_fd env fd len e =
     (if unat len < DIRENT_SIZE then (e, FS_ERR_INVAL, [])
      else case sched_fd_regular_get fd e of
        (rc, None) \<Rightarrow> (e, FS_ERR_BADF, [])
      | (rc, Some (backend, ino, size1, off, is_dir)) \<Rightarrow>
          if backend \<noteq> FS_BACKEND_PROC then (e, FS_ERR_BADF, [])
          else if \<not> is_dir then (e, FS_ERR_NOTDIR, [])
          else if \<not> proc_is_task_dir ino \<and> ino \<noteq> PROC_INO_ROOT then (e, FS_ERR_BADF, [])
          else case (if proc_is_task_dir ino then fs_proc_getdents_task env ino off
                     else fs_proc_getdents_root env off) of
            None \<Rightarrow> (e, 0, [])
          | Some d \<Rightarrow> (fst (sched_fd_regular_advance fd (d_off d - off) e), int DIRENT_SIZE, [d]))"

definition fs_proc_read_fd :: "proc_env \<Rightarrow> int \<Rightarrow> u32 \<Rightarrow> fd_env \<Rightarrow> fd_env \<times> (int + u8 list)" where
  "fs_proc_read_fd env fd len e =
     (if len = 0 then (e, Inr [])
      else case sched_fd_regular_get fd e of
        (rc, None) \<Rightarrow> (e, Inl FS_ERR_BADF)
      | (rc, Some (backend, ino, size0, off, is_dir)) \<Rightarrow>
          if backend \<noteq> FS_BACKEND_PROC then (e, Inl FS_ERR_BADF)
          else if is_dir then (e, Inl FS_ERR_ISDIR)
          else let content = proc_build env ino PROC_CONTENT_CAP; size1 = of_nat (length content) in
            if off \<ge> size1 then (e, Inr [])
            else let len = (if len > size1 - off then size1 - off else len) in
              (fst (sched_fd_regular_advance fd len e),
               Inr (map (\<lambda>i. content ! (unat off + i)) [0..<unat len])))"

end
