(* ===== verification/Fd_Regular.thy ===== *)
theory Fd_Regular
  imports Fd_Props
begin

text \<open>
  Descriptors of regular files, for the file systems that keep their position in a file there:
  what an open descriptor says of its file (\<open>regular_fd\<close>), that opening a file establishes it, and
  that moving forward changes the offset only, and not beyond the size known to the descriptor.
\<close>

definition regular_fd :: "fd_env \<Rightarrow> int \<Rightarrow> u32 \<Rightarrow> u32 \<Rightarrow> u32 \<Rightarrow> u32 \<Rightarrow> bool \<Rightarrow> bool" where
  "regular_fd e fd b ino sz off d \<longleftrightarrow>
     sched_fd_regular_get fd e = (SCHED_FD_OK, Some (b, ino, sz, off, d)) \<and>
     (\<exists>s. fv_slot e = Some s \<and> length (ofiles s) = 32)"

lemma regular_fdD: "regular_fd e fd b ino sz off d \<Longrightarrow> sched_fd_regular_get fd e = (0, Some (b, ino, sz, off, d))"
  by (simp add: regular_fd_def)

lemma regular_fdE:
  assumes "regular_fd e fd b ino sz off d"
  obtains s j where "fv_slot e = Some s" "length (ofiles s) = 32" "sched_slot_ofile_by_fd s fd = Some j" "j < 32"
    "of_type (ofiles s ! j) = TYPE_REGULAR" "of_fs_backend (ofiles s ! j) = b" "of_file_id (ofiles s ! j) = ino"
    "of_file_size (ofiles s ! j) = sz" "of_file_offset (ofiles s ! j) = off" "of_file_is_dir (ofiles s ! j) = d"
proof -
  from assms obtain s where s: "fv_slot e = Some s" "length (ofiles s) = 32" by (auto simp: regular_fd_def)
  from assms s(1) obtain j where j: "sched_slot_ofile_by_fd s fd = Some j"
    by (auto simp: regular_fd_def sched_fd_regular_get_def read_ofile_def split: option.splits)
  have "j < 32" using j by (auto simp: sched_slot_ofile_by_fd_def Let_def split: if_splits)
  with assms s j show thesis
    by (intro that [of s j]) (auto simp: regular_fd_def sched_fd_regular_get_def read_ofile_def split: if_splits)
qed

lemma regular_fd_type: "regular_fd e fd b ino sz off d \<Longrightarrow> sched_fd_get_type fd True e = (0, Some TYPE_REGULAR)"
  by (elim regular_fdE) (simp add: sched_fd_get_type_def read_ofile_def)

lemma ofile_by_fd_offset:
  "length (ofiles s) = 32 \<Longrightarrow>
    sched_slot_ofile_by_fd (upd_ofile s j (\<lambda>f. f\<lparr>of_file_offset := n\<rparr>)) fd = sched_slot_ofile_by_fd s fd"
  by (auto simp: sched_slot_ofile_by_fd_def upd_ofile_def Let_def nth_update)

lemma regular_advance:
  assumes "regular_fd e fd b ino sz off d"
    and "unat n = min (unat off + unat k) (unat sz)"
  shows "regular_fd (fst (sched_fd_regular_advance fd k e)) fd b ino sz n d"
proof -
  from assms(1) obtain s j where s: "fv_slot e = Some s" "length (ofiles s) = 32" "sched_slot_ofile_by_fd s fd = Some j" "j < 32"
    "of_type (ofiles s ! j) = TYPE_REGULAR" "of_fs_backend (ofiles s ! j) = b" "of_file_id (ofiles s ! j) = ino"
    "of_file_size (ofiles s ! j) = sz" "of_file_offset (ofiles s ! j) = off" "of_file_is_dir (ofiles s ! j) = d"
    by (rule regular_fdE)
  obtain e2 rc out where c: "sched_fd_regular_advance fd k e = (e2, (rc, out))" by (metis prod.collapse)
  from sched_fd_regular_advance_bounded [OF s(1,3) refl s(5) c] obtain off' where
    o: "unat off' = min (unat off + unat k) (unat sz)"
      "fv_slot (fst (sched_fd_regular_advance fd k e)) = Some (upd_ofile s j (\<lambda>f. f\<lparr>of_file_offset := off'\<rparr>))"
    using s(8,9) c by auto
  have "off' = n" using o(1) assms(2) by (simp add: word_unat_eq_iff)
  with o(2) s show ?thesis
    by (simp add: regular_fd_def sched_fd_regular_get_def read_ofile_def ofile_by_fd_offset)
qed

lemma slot_open_ofile:
  assumes inv: "fd_inv ext s t" and o: "slot_open mk s t = (s', t', fd)" and fd: "0 \<le> fd"
    and mk: "\<And>f. of_used (mk f) = of_used f \<and> of_refs (mk f) = of_refs f"
  shows "length (ofiles s') = 32 \<and> (\<exists>j f. sched_slot_ofile_by_fd s' fd = Some j \<and> ofiles s' ! j = mk f)"
proof -
  have len: "length (ofiles s) = 32" "length (fdtab s) = 32"
    using inv by (auto simp: fd_inv_def dest: fd_wfD)
  from o fd obtain n j where nj: "sched_slot_find_free_fd s 0 = Some n" "sched_slot_find_free_ofile s = Some j"
      "s' = install_open s n j mk" "fd = int n"
    by (auto simp: slot_open_def split: option.splits)
  have "n < 32" "j < 32" using nj(1,2)
    by (auto simp: sched_slot_find_free_fd_def sched_slot_find_free_ofile_def find_upt_Some split: if_splits)
  then show ?thesis using len mk nj(3,4)
    by (auto simp: install_open_def sched_slot_ofile_by_fd_def upd_ofile_def upd_fdent_def unat_of_nat_u32 Let_def)
qed

lemma regular_open:
  assumes inv: "fd_env_inv ext e" and o: "sched_fd_open_regular fl b ino sz d e = (e', fd)" and fd: "0 \<le> fd"
  shows "regular_fd e' fd b ino sz 0 d"
proof -
  let ?mk = "\<lambda>f. f\<lparr>of_type := TYPE_REGULAR,
             of_status_flags := fl AND (SCHED_FD_O_ACCMODE OR SCHED_FD_O_NONBLOCK),
             of_fs_backend := b, of_file_id := ino, of_file_size := sz,
             of_file_offset := 0, of_file_is_dir := d\<rparr>"
  from o fd obtain s s' t' where s: "fv_slot e = Some s" "slot_open ?mk s (fv_pipes e) = (s', t', fd)"
      "e' = \<lparr>fv_slot = Some s', fv_pipes = t'\<rparr>"
    by (auto simp: sched_fd_open_regular_def with_slot_def Let_def split: option.splits prod.splits if_splits)
  have "fd_inv ext s (fv_pipes e)" using inv s(1) by (simp add: fd_env_inv_def)
  from slot_open_ofile [OF this s(2) fd] s(3) show ?thesis
    by (auto simp: regular_fd_def sched_fd_regular_get_def read_ofile_def)
qed

end
