(* ===== verification/Proc_Props.thy ===== *)
theory Proc_Props
  imports Proc Fd_Regular
begin

text \<open>
  What the proc file system shows its callers: the path of a task is found again by the name that
  the listing gives it, the listing of the root directory is complete and without repetition, and
  reading a file delivers its contents, but never ends if the contents have grown since the file
  was opened.
\<close>

named_theorems buf_bounds \<open>functions that keep a text within its buffer\<close>

subsection \<open>Text in a buffer\<close>

lemma fold_putc:
  "length (pb_text out) < pb_capacity out \<Longrightarrow>
    fold proc_buf_putc cs out = out\<lparr>pb_text := take (pb_capacity out - 1) (pb_text out @ cs)\<rparr>"
proof (induction cs arbitrary: out)
  case (Cons c cs)
  let ?out = "proc_buf_putc c out"
  have "length (pb_text ?out) < pb_capacity ?out" using Cons.prems by (simp add: proc_buf_putc_def)
  from Cons.IH [OF this] Cons.prems show ?case
    by (cases "length (pb_text out) + 1 < pb_capacity out") (auto simp: proc_buf_putc_def not_less)
qed (simp add: take_all)

definition bounded :: "(proc_buffer \<Rightarrow> proc_buffer) \<Rightarrow> bool" where
  "bounded f \<longleftrightarrow> (\<forall>out. pb_capacity (f out) = pb_capacity out \<and>
     (length (pb_text out) < pb_capacity out \<longrightarrow> length (pb_text (f out)) < pb_capacity out))"

lemma bounded_fold: "(\<And>x. x \<in> set xs \<Longrightarrow> bounded (f x)) \<Longrightarrow> bounded (fold f xs)"
proof (induction xs)
  case (Cons x xs)
  then have "bounded (f x)" "bounded (fold f xs)" by simp_all
  then show ?case unfolding bounded_def fold_simps by metis
qed (simp add: bounded_def)

lemma bounded_putc [buf_bounds]: "bounded (proc_buf_putc c)"
  by (simp add: bounded_def proc_buf_putc_def)

lemma bounded_puts [buf_bounds]: "bounded (proc_buf_puts s)"
  unfolding proc_buf_puts_def by (rule bounded_fold) (rule bounded_putc)

lemma bounded_seq [buf_bounds]: "(\<And>f. f \<in> set fs \<Longrightarrow> bounded f) \<Longrightarrow> bounded (fold (\<lambda>f. f) fs)"
  by (rule bounded_fold)

lemma bounded_u64 [buf_bounds]: "bounded (proc_buf_u64 v)"
proof (cases "v = 0")
  case True
  then show ?thesis using bounded_putc by (simp add: proc_buf_u64_def [abs_def])
next
  case False
  then have "proc_buf_u64 v = fold proc_buf_putc (rev (digits_loop 24 v))" by (simp add: proc_buf_u64_def fun_eq_iff)
  then show ?thesis using bounded_fold [where f = proc_buf_putc, OF bounded_putc] by simp
qed

lemma bounded_i32 [buf_bounds]: "bounded (proc_buf_i32 v)"
proof -
  have "bounded (\<lambda>out. proc_buf_u64 n (proc_buf_putc 0x2D out))" for n
    using bounded_u64 [where v = n] bounded_putc [where c = "0x2D"] unfolding bounded_def by metis
  then show ?thesis using bounded_u64 unfolding proc_buf_i32_def [abs_def] by (cases "v < 0") simp_all
qed

lemma bounded_id [buf_bounds]: "bounded (\<lambda>out. out)"
  by (simp add: bounded_def)

lemma bounded_fixed3 [buf_bounds]: "bounded (proc_buf_fixed3 v)"
  unfolding proc_buf_fixed3_def [abs_def] by (rule bounded_seq) (auto intro: buf_bounds)

lemma bounded_kib_line [buf_bounds]: "bounded (proc_buf_kib_line s v)"
  unfolding proc_buf_kib_line_def [abs_def] by (rule bounded_seq) (auto intro: buf_bounds)

lemma bounded_build_cpu [buf_bounds]: "bounded (proc_build_cpu f h c)"
  unfolding proc_build_cpu_def [abs_def] by (rule bounded_seq) (auto intro: buf_bounds)

lemma bounded_cpuinfo [buf_bounds]: "bounded (proc_build_cpuinfo env)"
  unfolding proc_build_cpuinfo_def [abs_def] Let_def by (rule bounded_fold) (rule bounded_build_cpu)

lemma bounded_meminfo [buf_bounds]: "bounded (proc_build_meminfo env)"
  unfolding proc_build_meminfo_def [abs_def] split_beta Let_def by (rule bounded_seq) (auto intro: buf_bounds)

lemma bounded_uptime [buf_bounds]: "bounded (proc_build_uptime env)"
  unfolding proc_build_uptime_def [abs_def] Let_def by (rule bounded_seq) (auto intro: buf_bounds)

lemma bounded_stat [buf_bounds]: "bounded (proc_build_stat env)"
  unfolding proc_build_stat_def [abs_def] Let_def by (rule bounded_seq) (auto intro: buf_bounds)

lemma bounded_loadavg [buf_bounds]: "bounded (proc_build_loadavg env)"
  unfolding proc_build_loadavg_def [abs_def] Let_def by (rule bounded_seq) (auto intro: buf_bounds)

lemma bounded_lampvm [buf_bounds]: "bounded (proc_build_lampvm env)"
  unfolding proc_build_lampvm_def [abs_def] split_beta Let_def by (rule bounded_seq) (auto intro: buf_bounds)

lemma bounded_text: "bounded f \<Longrightarrow> 0 < c \<Longrightarrow> length (pb_text (f \<lparr>pb_capacity = c, pb_text = []\<rparr>)) < c"
  unfolding bounded_def by (metis proc_buffer.select_convs list.size(3))

lemma task_stat_bound:
  assumes "0 < capacity"
  shows "length (proc_task_stat env p capacity) < capacity"
proof (cases "sched_proc_task_by_pid p (pe_sched env)")
  case None
  then show ?thesis using assms by (simp add: proc_task_stat_def)
next
  case (Some t)
  have c: "(capacity = 0) = False" using assms by simp
  show ?thesis unfolding proc_task_stat_def Let_def c if_False Some option.case
    by (rule bounded_text [OF bounded_seq assms]) (auto intro: buf_bounds)
qed

lemma proc_build_bound: "0 < capacity \<Longrightarrow> length (proc_build env ino capacity) < capacity"
  unfolding proc_build_def
  by (auto simp: task_stat_bound intro!: bounded_text intro: buf_bounds)

lemma proc_size_file: "unat (proc_size env ino False) = length (proc_build env ino PROC_CONTENT_CAP)"
  using proc_build_bound [of PROC_CONTENT_CAP env ino] by (simp add: proc_size_def unat_of_nat_u32)

subsection \<open>Numbers in paths\<close>

lemma unat_ucast_small:
  fixes w :: "'a::len word"
  assumes "unat w < 2 ^ LENGTH('b::len)"
  shows "unat (ucast w :: 'b word) = unat w"
  using assms by (simp add: unsigned_ucast_eq take_bit_nat_eq_self)

lemma parse_digits:
  assumes "unat v < 10 ^ n" and "unat v \<le> 0x3FFFFFFF"
  shows "parse_pid (rev (digits_loop n v) @ tail) 0 = parse_pid tail (ucast v)"
  using assms
proof (induction n arbitrary: v tail)
  case 0
  then show ?case by simp
next
  case (Suc n)
  show ?case
  proof (cases "v = 0")
    case False
    let ?d = "v mod 10" and ?q = "v div 10"
    have q: "unat ?q = unat v div 10" and d: "unat ?d = unat v mod 10"
      by (simp_all add: unat_div unat_mod)
    have "unat ?q < 10 ^ n" "unat ?q \<le> 0x3FFFFFFF" using Suc.prems unfolding q by (simp_all add: div_le_dividend div_less_iff_less_mult)
    note ih = Suc.IH [OF this, of "(0x30 + ucast ?d) # tail"]
    have u8: "unat (ucast ?d :: u8) = unat v mod 10"
      unfolding d [symmetric] by (rule unat_ucast_small) (simp add: d less_trans [of _ 10])
    have c: "unat (0x30 + ucast ?d :: u8) = 48 + unat v mod 10"
      using u8 by (simp add: unat_word_ariths)
    have digit: "\<not> (0x30 + ucast ?d :: u8) < 0x30" "\<not> (0x30 + ucast ?d :: u8) > 0x39"
      using c by (simp_all add: word_less_nat_alt not_less)
    have dig: "unat (ucast (ucast ?d :: u8) :: u32) = unat v mod 10"
      using u8 by (simp add: unat_ucast_small less_trans [of _ 10])
    have uq: "unat (ucast ?q :: u32) = unat v div 10"
      using Suc.prems(2) unfolding q [symmetric] by (intro unat_ucast_small) (simp add: q)
    have room: "\<not> (ucast ?q :: u32) > (PROC_INO_TASK_PID_MASK - ucast (ucast ?d :: u8)) div 10"
    proof -
      have "unat ((PROC_INO_TASK_PID_MASK - ucast (ucast ?d :: u8)) div 10 :: u32) = (0x3FFFFFFF - unat v mod 10) div 10"
      proof -
        have "(ucast (ucast ?d :: u8) :: u32) \<le> PROC_INO_TASK_PID_MASK" using dig by (simp add: word_le_nat_alt)
        then show ?thesis using dig by (simp add: unat_div unat_sub)
      qed
      moreover have "unat v div 10 \<le> (0x3FFFFFFF - unat v mod 10) div 10"
      proof -
        have "unat v div 10 = (unat v - unat v mod 10) div 10" by (simp add: minus_mod_eq_mult_div)
        also have "\<dots> \<le> (0x3FFFFFFF - unat v mod 10) div 10" by (rule div_le_mono [OF diff_le_mono [OF Suc.prems(2)]])
        finally show ?thesis .
      qed
      ultimately show ?thesis using uq by (simp add: word_less_nat_alt not_less)
    qed
    have val: "(ucast ?q :: u32) * 10 + ucast (ucast ?d :: u8) = ucast v"
    proof (rule word_unat_eq_iff [THEN iffD2])
      have "unat (ucast v :: u32) = unat v" using Suc.prems(2) by (intro unat_ucast_small) simp
      then show "unat ((ucast ?q :: u32) * 10 + ucast (ucast ?d :: u8)) = unat (ucast v :: u32)"
        using uq dig Suc.prems(2) le_less_trans [OF Suc.prems(2), of "2 ^ 32"]
        by (simp add: unat_word_ariths mod_simps)
    qed
    have "parse_pid (rev (digits_loop (Suc n) v) @ tail) 0 = parse_pid ((0x30 + ucast ?d) # tail) (ucast ?q)"
      using False ih by simp
    also have "\<dots> = parse_pid tail (ucast v)"
      using digit room val by (simp add: Let_def)
    finally show ?thesis .
  qed simp
qed

lemma digits_loop_digit: "c \<in> set (digits_loop n v) \<Longrightarrow> \<not> c < 0x30 \<and> \<not> c > 0x39"
proof (induction n arbitrary: v)
  case (Suc n)
  have d: "unat (v mod 10) < 10" by (simp add: unat_mod)
  have "unat (ucast (v mod 10) :: u8) = unat (v mod 10)" using d by (intro unat_ucast_small) simp
  then have "unat (0x30 + ucast (v mod 10) :: u8) = 48 + unat (v mod 10)" using d by (simp add: unat_word_ariths)
  then have "\<not> (0x30 + ucast (v mod 10) :: u8) < 0x30 \<and> \<not> (0x30 + ucast (v mod 10) :: u8) > 0x39"
    using d by (simp add: word_less_nat_alt not_less)
  with Suc show ?case by (auto split: if_splits)
qed simp

lemma digits_loop_length: "length (digits_loop n v) \<le> n"
  by (induction n arbitrary: v) auto

lemma digits_loop_nonempty: "v \<noteq> 0 \<Longrightarrow> 0 < n \<Longrightarrow> digits_loop n v \<noteq> []"
  by (cases n) auto

lemma pid_name_digits:
  assumes "p \<noteq> 0"
  shows "pid_name p = rev (digits_loop 24 (ucast p))"
proof -
  have "unat (ucast p :: u64) = unat p" using unat_lt_u32 [of p] by (intro unat_ucast_small) simp
  then have "(ucast p :: u64) \<noteq> 0" using assms by (metis unat_eq_zero unsigned_0)
  then show ?thesis
    using digits_loop_length [of 24 "ucast p"] by (simp add: pid_name_def proc_buf_u64_def fold_putc)
qed

lemma pid_name_parse:
  assumes "p \<noteq> 0" "unat p \<le> 0x3FFFFFFF"
  shows "parse_pid (pid_name p @ tail) 0 = parse_pid tail p" "pid_name p \<noteq> []"
    "\<not> hd (pid_name p) < 0x30" "\<not> hd (pid_name p) > 0x39" "length (pid_name p) \<le> 24"
proof -
  have u: "unat (ucast p :: u64) = unat p" using unat_lt_u32 [of p] by (intro unat_ucast_small) simp
  have "(ucast (ucast p :: u64) :: u32) = p"
    using u unat_lt_u32 [of p] by (simp add: word_unat_eq_iff unat_ucast_small)
  then show "parse_pid (pid_name p @ tail) 0 = parse_pid tail p"
    using parse_digits [of "ucast p" 24 tail] assms(2) u by (simp add: pid_name_digits [OF assms(1)])
  have "(ucast p :: u64) \<noteq> 0" using assms(1) u by (metis unat_eq_zero unsigned_0)
  then show ne: "pid_name p \<noteq> []" by (simp add: pid_name_digits [OF assms(1)] digits_loop_nonempty)
  have "hd (pid_name p) \<in> set (digits_loop 24 (ucast p))"
    using hd_in_set [OF ne] by (simp add: pid_name_digits [OF assms(1)])
  from digits_loop_digit [OF this] show "\<not> hd (pid_name p) < 0x30" "\<not> hd (pid_name p) > 0x39" by simp_all
  show "length (pid_name p) \<le> 24" using digits_loop_length [of 24] by (simp add: pid_name_digits [OF assms(1)])
qed

lemma ascii_proc: "ascii ''/proc/'' = [0x2F, 0x70, 0x72, 0x6F, 0x63, 0x2F]" "ascii ''/proc'' = [0x2F, 0x70, 0x72, 0x6F, 0x63]"
    "ascii ''/stat'' = [0x2F, 0x73, 0x74, 0x61, 0x74]" "ascii ''/'' = [0x2F]"
  by code_simp+

lemma proc_lookup_task:
  assumes t: "sched_proc_task_by_pid p (pe_sched env) = Some t" and p: "unat p \<le> 0x3FFFFFFF"
    and tail: "parse_pid tail p = Some (p, tail)"
  shows "proc_lookup env (ascii ''/proc/'' @ pid_name p @ tail) =
    (if tail = [] \<or> tail = ascii ''/'' then Some (PROC_INO_TASK_DIR OR p, True)
     else if tail = ascii ''/stat'' then Some (PROC_INO_TASK_STAT OR p, False) else None)"
proof -
  have p0: "p \<noteq> 0" using t by (auto simp: sched_proc_task_by_pid_def)
  note n = pid_name_parse [OF p0 p]
  have "proc_parse_task_path env (ascii ''/proc/'' @ pid_name p @ tail) = Some (p, tail)"
    using n p0 t tail by (simp add: proc_parse_task_path_def ascii_proc(1))
  then show ?thesis
    using n(2) by (simp add: proc_lookup_def fs_proc_path_match_def ascii_proc(1,2))
qed

lemma task_ino:
  assumes p: "unat p \<le> 0x3FFFFFFF"
  shows "proc_is_task_dir (PROC_INO_TASK_DIR OR p)" "proc_task_pid (PROC_INO_TASK_DIR OR p) = p"
    "proc_is_task_stat (PROC_INO_TASK_STAT OR p)" "proc_task_pid (PROC_INO_TASK_STAT OR p) = p"
proof -
  have "take_bit 30 p = p"
    by (rule word_unat_eq_iff [THEN iffD2]) (use p in \<open>simp add: unsigned_take_bit_eq take_bit_nat_eq_self\<close>)
  then have m: "p AND 0x3FFFFFFF = p" by (simp add: take_bit_eq_mask mask_eq_exp_minus_1)
  then have "p AND NOT 0x3FFFFFFF = 0" by (metis and.assoc and.right_idem bit.conj_cancel_right bit.conj_zero_right)
  then show "proc_is_task_dir (PROC_INO_TASK_DIR OR p)" "proc_task_pid (PROC_INO_TASK_DIR OR p) = p"
    "proc_is_task_stat (PROC_INO_TASK_STAT OR p)" "proc_task_pid (PROC_INO_TASK_STAT OR p) = p"
    using m by (simp_all add: proc_is_task_dir_def proc_is_task_stat_def proc_task_pid_def bit.conj_disj_distrib2)
qed

subsection \<open>Listing the root directory\<close>

definition task_dirent :: "proc_env \<Rightarrow> nat \<Rightarrow> fs_dirent" where
  "task_dirent env i =
     (let p = pi_pid (the (sched_proc_task_by_slot i (pe_sched env)))
      in proc_dirent (PROC_INO_TASK_DIR OR p) (of_nat i) SYS_DT_DIR (pid_name p))"

definition file_dirent :: "nat \<Rightarrow> fs_dirent" where
  "file_dirent i =
     (case g_proc_entries ! i of (ino, name, type) \<Rightarrow> proc_dirent ino (of_nat (64 + i + 1)) type name)"

text \<open>The entries from an offset on.\<close>

definition root_rest :: "proc_env \<Rightarrow> nat \<Rightarrow> fs_dirent list" where
  "root_rest env off =
     map (task_dirent env) (filter (\<lambda>i. sched_proc_task_by_slot i (pe_sched env) \<noteq> None) [off + 1..<64]) @
     map file_dirent [off - 64..<9]"

lemma filter_upt_find:
  "filter P [a..<b] = (case find P [a..<b] of None \<Rightarrow> [] | Some i \<Rightarrow> i # filter P [i + 1..<b])"
proof (induction "b - a" arbitrary: a)
  case (Suc n)
  then have "a < b" "n = b - Suc a" by linarith+
  with Suc.hyps(1) [of "Suc a"] show ?case by (auto simp: upt_conv_Cons)
qed simp

lemma entries_length: "length g_proc_entries = 9"
  by (simp add: g_proc_entries_def)

lemma root_rest_step:
  assumes "unat off \<le> 73"
  shows "case fs_proc_getdents_root env off of
      None \<Rightarrow> root_rest env (unat off) = []
    | Some d \<Rightarrow> root_rest env (unat off) = d # root_rest env (unat (d_off d)) \<and>
        off < d_off d \<and> unat (d_off d) \<le> 73"
proof -
  let ?P = "\<lambda>i. sched_proc_task_by_slot i (pe_sched env) \<noteq> None"
  have o1: "unat (off + 1) = unat off + 1" using assms by (simp add: unat_word_ariths)
  show ?thesis
  proof (cases "find ?P [unat off + 1..<64]")
    case (Some i)
    then have i: "unat off < i" "i < 64" by (auto simp: find_upt_Some)
    then have "d_off (task_dirent env i) = of_nat i" "unat (of_nat i :: u32) = i"
      by (simp_all add: task_dirent_def proc_dirent_def Let_def unat_of_nat_u32)
    with i Some show ?thesis
      unfolding fs_proc_getdents_root_def o1 root_rest_def
      by (subst filter_upt_find) (simp add: task_dirent_def Let_def word_less_nat_alt)
  next
    case None
    let ?i = "if unat off < 64 then 0 else unat off - 64"
    have t: "filter ?P [unat off + 1..<64] = []" using None by (subst filter_upt_find) simp
    show ?thesis
    proof (cases "unat off < 73")
      case True
      have up: "[unat off - 64..<9] = ?i # [?i + 1..<9]" using True by (auto simp: upt_conv_Cons)
      have "d_off (file_dirent ?i) = of_nat (64 + ?i + 1)"
        by (simp add: file_dirent_def proc_dirent_def split: prod.split)
      moreover have "unat (of_nat (64 + ?i + 1) :: u32) = 64 + ?i + 1"
        by (rule unat_of_nat_u32) (use True in auto)
      ultimately have d: "d_off (file_dirent ?i) = of_nat (64 + ?i + 1)" "unat (of_nat (64 + ?i + 1) :: u32) = 64 + ?i + 1" .
      have "fs_proc_getdents_root env off = Some (file_dirent ?i)"
        using None True unfolding fs_proc_getdents_root_def o1
        by (simp add: entries_length file_dirent_def Let_def split: prod.split)
      moreover have "root_rest env (unat off) = file_dirent ?i # root_rest env (unat (d_off (file_dirent ?i)))"
        unfolding root_rest_def t up d by simp
      moreover have "off < d_off (file_dirent ?i) \<and> unat (d_off (file_dirent ?i)) \<le> 73"
        unfolding word_less_nat_alt d using True by auto
      ultimately show ?thesis by simp
    next
      case False
      then show ?thesis using None t assms unfolding fs_proc_getdents_root_def o1 root_rest_def
        by (simp add: entries_length)
    qed
  qed
qed

text \<open>What successive calls with room for one entry or more deliver.\<close>

primrec read_dir :: "nat \<Rightarrow> proc_env \<Rightarrow> int \<Rightarrow> u32 \<Rightarrow> fd_env \<Rightarrow> fs_dirent list" where
  "read_dir 0 env fd len e = []"
| "read_dir (Suc n) env fd len e =
     (case fs_proc_getdents_fd env fd len e of (e', rc, ds) \<Rightarrow>
        if rc \<le> 0 then [] else ds @ read_dir n env fd len e')"

lemma read_dir_rest:
  assumes "regular_fd e fd FS_BACKEND_PROC PROC_INO_ROOT 73 off True" "unat off \<le> 73" "DIRENT_SIZE \<le> unat len"
  shows "read_dir n env fd len e = take n (root_rest env (unat off))"
  using assms
proof (induction n arbitrary: e off)
  case (Suc n)
  note g = regular_fdD [OF Suc.prems(1)]
  have nd: "\<not> proc_is_task_dir 1" by (simp add: proc_is_task_dir_def)
  have c: "fs_proc_getdents_fd env fd len e =
      (case fs_proc_getdents_root env off of None \<Rightarrow> (e, 0, [])
       | Some d \<Rightarrow> (fst (sched_fd_regular_advance fd (d_off d - off) e), int DIRENT_SIZE, [d]))"
    using Suc.prems(3) g nd by (simp add: fs_proc_getdents_fd_def)
  show ?case
  proof (cases "fs_proc_getdents_root env off")
    case None
    then show ?thesis using root_rest_step [OF Suc.prems(2), of env] c by simp
  next
    case (Some d)
    with root_rest_step [OF Suc.prems(2), of env] have d: "root_rest env (unat off) = d # root_rest env (unat (d_off d))"
      "off < d_off d" "unat (d_off d) \<le> 73" by simp_all
    have "unat (d_off d) = min (unat off + unat (d_off d - off)) (unat (73 :: u32))"
      using d(2,3) by (simp add: unat_sub word_less_nat_alt word_le_nat_alt)
    from Suc.IH [OF regular_advance [OF Suc.prems(1) this] d(3) Suc.prems(3)] Some c d(1)
    show ?thesis by simp
  qed
qed simp

subsection \<open>Reading a file\<close>

primrec read_file :: "nat \<Rightarrow> proc_env \<Rightarrow> int \<Rightarrow> u32 \<Rightarrow> fd_env \<Rightarrow> u8 list" where
  "read_file 0 env fd len e = []"
| "read_file (Suc n) env fd len e =
     (case fs_proc_read_fd env fd len e of (e', Inl rc) \<Rightarrow> [] | (e', Inr bs) \<Rightarrow> bs @ read_file n env fd len e')"

lemma read_fd_step:
  assumes r: "regular_fd e fd FS_BACKEND_PROC ino sz off False" and len: "len \<noteq> 0"
    and off: "unat off < length (proc_build env ino PROC_CONTENT_CAP)" "unat off \<le> unat sz"
  obtains e' off' where
    "fs_proc_read_fd env fd len e = (e', Inr (take (unat len) (drop (unat off) (proc_build env ino PROC_CONTENT_CAP))))"
    "regular_fd e' fd FS_BACKEND_PROC ino sz off' False"
    "unat off' = min (unat off + min (unat len) (length (proc_build env ino PROC_CONTENT_CAP) - unat off)) (unat sz)"
proof -
  let ?c = "proc_build env ino PROC_CONTENT_CAP"
  have l: "length ?c < 12288" using proc_build_bound [of PROC_CONTENT_CAP env ino] by simp
  define size1 where "size1 = (of_nat (length ?c) :: u32)"
  have s1: "unat size1 = length ?c" using l by (simp add: size1_def unat_of_nat_u32)
  define n where "n = (if len > size1 - off then size1 - off else len)"
  have n: "unat n = min (unat len) (length ?c - unat off)"
    using off s1 by (simp add: n_def word_less_nat_alt unat_sub word_le_nat_alt)
  define off' where "off' = (of_nat (min (unat off + unat n) (unat sz)) :: u32)"
  have o: "unat off' = min (unat off + unat n) (unat sz)"
    unfolding off'_def using unat_lt_u32 [of sz] by (intro unat_of_nat_u32) simp
  have "\<not> size1 \<le> off" using off(1) s1 by (simp add: word_le_nat_alt)
  then have "fs_proc_read_fd env fd len e =
      (fst (sched_fd_regular_advance fd n e), Inr (map (\<lambda>i. ?c ! (unat off + i)) [0..<unat n]))"
    using len regular_fdD [OF r] by (simp add: fs_proc_read_fd_def Let_def size1_def n_def)
  moreover have "map (\<lambda>i. ?c ! (unat off + i)) [0..<unat n] = take (unat len) (drop (unat off) ?c)"
    by (rule nth_equalityI) (auto simp: n)
  ultimately show thesis using that regular_advance [OF r o] o n by simp
qed

lemma read_fd_end:
  assumes "regular_fd e fd FS_BACKEND_PROC ino sz off False"
    and "length (proc_build env ino PROC_CONTENT_CAP) \<le> unat off"
  shows "fs_proc_read_fd env fd len e = (e, Inr [])"
proof -
  have "length (proc_build env ino PROC_CONTENT_CAP) < 12288" using proc_build_bound [of PROC_CONTENT_CAP env ino] by simp
  then have "(of_nat (length (proc_build env ino PROC_CONTENT_CAP)) :: u32) \<le> off"
    using assms(2) by (simp add: word_le_nat_alt unat_of_nat_u32)
  then show ?thesis using regular_fdD [OF assms(1)] by (simp add: fs_proc_read_fd_def Let_def)
qed

lemma read_file_rest:
  assumes "regular_fd e fd FS_BACKEND_PROC ino sz off False" "len \<noteq> 0" "unat off \<le> unat sz"
    and "length (proc_build env ino PROC_CONTENT_CAP) \<le> unat sz"
  shows "read_file n env fd len e = take (n * unat len) (drop (unat off) (proc_build env ino PROC_CONTENT_CAP))"
  using assms
proof (induction n arbitrary: e off)
  case (Suc n)
  let ?c = "proc_build env ino PROC_CONTENT_CAP"
  show ?case
  proof (cases "unat off < length ?c")
    case True
    from read_fd_step [OF Suc.prems(1,2) True Suc.prems(3)] obtain e' off' where
      s: "fs_proc_read_fd env fd len e = (e', Inr (take (unat len) (drop (unat off) ?c)))"
        "regular_fd e' fd FS_BACKEND_PROC ino sz off' False"
        "unat off' = min (unat off + min (unat len) (length ?c - unat off)) (unat sz)" .
    have "unat off' \<le> unat sz" using s(3) by simp
    note ih = Suc.IH [OF s(2) Suc.prems(2) this Suc.prems(4)]
    have "drop (unat off') ?c = drop (unat len) (drop (unat off) ?c)"
      using s(3) Suc.prems(4) True by (cases "unat len \<le> length ?c - unat off") (auto simp: min_def add.commute)
    with s(1) ih show ?thesis by (simp add: take_add)
  next
    case False
    then have z: "fs_proc_read_fd env fd len e = (e, Inr [])" using read_fd_end [OF Suc.prems(1)] by simp
    have "read_file n env fd len e = []" using Suc.IH [OF Suc.prems] False by simp
    with z False show ?thesis by simp
  qed
qed simp

lemma read_file_grown:
  assumes "regular_fd e fd FS_BACKEND_PROC ino sz off False" "len \<noteq> 0" "unat off \<le> unat sz"
    and "unat sz < length (proc_build env ino PROC_CONTENT_CAP)"
  shows "n \<le> length (read_file n env fd len e)"
  using assms
proof (induction n arbitrary: e off)
  case (Suc n)
  let ?c = "proc_build env ino PROC_CONTENT_CAP"
  have l: "unat off < length ?c" using Suc.prems(3,4) by simp
  from read_fd_step [OF Suc.prems(1,2) l Suc.prems(3)] obtain e' off' where
    s: "fs_proc_read_fd env fd len e = (e', Inr (take (unat len) (drop (unat off) ?c)))"
      "regular_fd e' fd FS_BACKEND_PROC ino sz off' False"
      "unat off' = min (unat off + min (unat len) (length ?c - unat off)) (unat sz)" .
  have "unat off' \<le> unat sz" using s(3) by simp
  from Suc.IH [OF s(2) Suc.prems(2) this Suc.prems(4)] have "n \<le> length (read_file n env fd len e')" .
  moreover have "0 < unat len" using Suc.prems(2) by (simp add: unat_gt_0)
  ultimately show ?case using s(1) l by simp
qed simp

subsection \<open>Properties\<close>

lemma by_slot_by_pid:
  assumes "sched_proc_task_by_slot i k = Some t" "pi_pid t \<noteq> 0"
  shows "sched_proc_task_by_pid (pi_pid t) k \<noteq> None"
proof -
  from assms(1) have i: "1 \<le> i" "i < 64" "used (task k i) \<and> \<not> is_idle (task k i) \<and> pid (pub (task k i)) = pi_pid t"
    by (auto simp: sched_proc_task_by_slot_def sched_proc_task_copy_def split: if_splits)
  then have "find (\<lambda>i. used (task k i) \<and> \<not> is_idle (task k i) \<and> pid (pub (task k i)) = pi_pid t) [1..<64] \<noteq> None"
    unfolding find_upt_None by blast
  then show ?thesis using assms(2) by (auto simp: sched_proc_task_by_pid_def)
qed

lemma task_dirent_found:
  assumes "sched_proc_task_by_slot i (pe_sched env) = Some t" "pi_pid t \<noteq> 0" "unat (pi_pid t) \<le> 0x3FFFFFFF"
  shows "proc_lookup env (ascii ''/proc/'' @ d_name (task_dirent env i)) = Some (d_ino (task_dirent env i), True)"
    "d_type (task_dirent env i) = SYS_DT_DIR"
proof -
  obtain t' where t': "sched_proc_task_by_pid (pi_pid t) (pe_sched env) = Some t'"
    using by_slot_by_pid [OF assms(1,2)] by auto
  show "proc_lookup env (ascii ''/proc/'' @ d_name (task_dirent env i)) = Some (d_ino (task_dirent env i), True)"
    using proc_lookup_task [OF t' assms(3), of "[]"] pid_name_parse(5) [OF assms(2,3)] assms(1)
    by (simp add: task_dirent_def proc_dirent_def Let_def)
  show "d_type (task_dirent env i) = SYS_DT_DIR" by (simp add: task_dirent_def proc_dirent_def Let_def)
qed

lemma file_dirent_found:
  "\<forall>i \<in> {2..<9}. proc_lookup env (ascii ''/proc/'' @ d_name (file_dirent i)) = Some (d_ino (file_dirent i), False) \<and>
    d_type (file_dirent i) = SYS_DT_REG"
proof -
  have e: "ascii ''cpuinfo'' = [0x63, 0x70, 0x75, 0x69, 0x6E, 0x66, 0x6F]" "ascii ''meminfo'' = [0x6D, 0x65, 0x6D, 0x69, 0x6E, 0x66, 0x6F]"
    "ascii ''uptime'' = [0x75, 0x70, 0x74, 0x69, 0x6D, 0x65]" "ascii ''stat'' = [0x73, 0x74, 0x61, 0x74]"
    "ascii ''version'' = [0x76, 0x65, 0x72, 0x73, 0x69, 0x6F, 0x6E]" "ascii ''loadavg'' = [0x6C, 0x6F, 0x61, 0x64, 0x61, 0x76, 0x67]"
    "ascii ''lampvm'' = [0x6C, 0x61, 0x6D, 0x70, 0x76, 0x6D]"
    by code_simp+
  have r: "{2..<9} = {2, 3, 4, 5, 6, 7, 8 :: nat}" by auto
  show ?thesis unfolding r
    by (simp add: file_dirent_def proc_dirent_def g_proc_entries_def proc_lookup_def proc_parse_task_path_def
        fs_proc_path_match_def ascii_proc e)
qed

lemma root_rest_0:
  "root_rest env 0 = map (task_dirent env) (filter (\<lambda>i. sched_proc_task_by_slot i (pe_sched env) \<noteq> None) [1..<64]) @
     map file_dirent [0..<9]"
  unfolding root_rest_def by (simp only: add_0 diff_0_eq_0)

text \<open>C38. The listing of \<open>/proc\<close> is complete and exact: successive calls of \<open>fs_proc_getdents_fd\<close> deliver
  one entry for each task but the idle tasks, in the order of the slots, then \<open>.\<close>, \<open>..\<close> and the seven files,
  then nothing more; and every name other than the two leads, as a path under \<open>/proc/\<close>, to the file or
  directory of that entry. The task numbers have to be below \<open>2 ^ 30\<close>.\<close>

theorem proc_root_listing:
  assumes inv: "fd_env_inv ext e" and o: "fs_proc_open env0 path flags e = (e', fd)" "0 \<le> fd"
    and root: "proc_lookup env0 path = Some (PROC_INO_ROOT, True)" and len: "DIRENT_SIZE \<le> unat len"
    and pids: "\<And>i t. sched_proc_task_by_slot i (pe_sched env) = Some t \<Longrightarrow> pi_pid t \<noteq> 0 \<and> unat (pi_pid t) \<le> 0x3FFFFFFF"
  shows "read_dir n env fd len e' =
      take n (map (task_dirent env) (filter (\<lambda>i. sched_proc_task_by_slot i (pe_sched env) \<noteq> None) [1..<64]) @
              map file_dirent [0..<9]) \<and>
    map (\<lambda>i. d_name (file_dirent i)) [0..<2] = [ascii ''.'', ascii ''..''] \<and>
    (\<forall>d \<in> set (read_dir n env fd len e'). d_name d \<in> {ascii ''.'', ascii ''..''} \<or>
       proc_lookup env (ascii ''/proc/'' @ d_name d) = Some (d_ino d, d_type d = SYS_DT_DIR))"
proof -
  have "regular_fd e' fd FS_BACKEND_PROC PROC_INO_ROOT 73 0 True"
    using o root regular_open [OF inv] unfolding fs_proc_open_def
    by (auto simp: proc_size_def proc_directory_size_def entries_length split: if_splits)
  from read_dir_rest [OF this _ len, of n env] have
    r: "read_dir n env fd len e' = take n (root_rest env 0)" by simp
  have dots: "d_name (file_dirent 0) = ascii ''.''" "d_name (file_dirent 1) = ascii ''..''"
    by (simp_all add: file_dirent_def proc_dirent_def g_proc_entries_def ascii_def)
  have "d_name d \<in> {ascii ''.'', ascii ''..''} \<or>
       proc_lookup env (ascii ''/proc/'' @ d_name d) = Some (d_ino d, d_type d = SYS_DT_DIR)"
    if "d \<in> set (root_rest env 0)" for d
  proof -
    from that consider i t where "sched_proc_task_by_slot i (pe_sched env) = Some t" "d = task_dirent env i"
      | i where "i < 9" "d = file_dirent i"
      unfolding root_rest_0 set_append set_map set_filter set_upt by auto
    then show ?thesis
    proof cases
      case 1
      then show ?thesis using task_dirent_found [OF 1(1)] pids [OF 1(1)] by simp
    next
      case 2
      then show ?thesis using dots file_dirent_found [of env]
        by (cases "i = 0 \<or> i = 1") auto
    qed
  qed
  moreover have "set (take n (root_rest env 0)) \<subseteq> set (root_rest env 0)" by (rule set_take_subset)
  moreover have "map (\<lambda>i. d_name (file_dirent i)) [0..<2] = [ascii ''.'', ascii ''..'']"
    using dots by (simp add: upt_conv_Cons)
  ultimately show ?thesis unfolding r root_rest_0 by blast
qed

text \<open>C39. Reading a file of \<open>/proc\<close>, in pieces of any size, delivers its contents and then nothing more, if
  they are not longer at the time than when the file was opened. If they are longer, the reader never sees an
  end: the position is held at the size at the opening, behind which there is always something to read.\<close>

theorem proc_file_reads:
  assumes inv: "fd_env_inv ext e" and o: "fs_proc_open env0 path flags e = (e', fd)" "0 \<le> fd"
    and ino: "proc_lookup env0 path = Some (ino, False)" and len: "len \<noteq> 0"
  shows "if length (proc_build env ino PROC_CONTENT_CAP) \<le> length (proc_build env0 ino PROC_CONTENT_CAP)
    then read_file n env fd len e' = take (n * unat len) (proc_build env ino PROC_CONTENT_CAP)
    else n \<le> length (read_file n env fd len e')"
proof -
  have r: "regular_fd e' fd FS_BACKEND_PROC ino (proc_size env0 ino False) 0 False"
    using o ino regular_open [OF inv] unfolding fs_proc_open_def by (auto split: if_splits)
  note s = proc_size_file [of env0 ino]
  show ?thesis
    using read_file_rest [OF r len, of env n] read_file_grown [OF r len, of env n] unfolding s by (simp add: not_le)
qed


text \<open>A state with two tasks, in slots 1 and 5, and two moments at which the machine has run for 9.99 and for
  10 seconds.\<close>

definition demo_task :: "u32 \<Rightarrow> task_slot" where
  "demo_task p = sched_clear_task\<lparr>pub := (pub sched_clear_task)\<lparr>pid := p, state := RUNNABLE\<rparr>, used := True,
     task_name := Some ''sh''\<rparr>"

definition demo_sched :: kstate where
  "demo_sched = \<lparr>k_ticks = 0, k_user_ticks = 0, k_system_ticks = 0, k_idle_ticks = 0, k_need_resched = False,
     k_tasks = (replicate 64 sched_clear_task)[1 := demo_task 1, 5 := demo_task 30], k_current = [],
     k_next_tid = 0, k_spawn_rr = 0, k_runq = [], k_stack_bitmap = [0, 0],
     k_stack_reserved = 0, k_sched_ctx = [], k_waitqs = [], k_pipes = cleared_pipes,
     k_online = 1, k_mem = (\<lambda>a. 0), k_mmu_calls = [], k_vfork_valid = False, k_vfork_child = 0,
     k_irq_saved = [], k_irq_from_user = [], k_irq_frame_masked = (\<lambda>i. 0), k_live = [], k_ctl = []\<rparr>"

definition demo_idle :: kstate where
  "demo_idle = demo_sched\<lparr>k_tasks := []\<rparr>"

definition demo_env :: "kstate \<Rightarrow> u32 \<Rightarrow> u32 \<Rightarrow> proc_env" where
  "demo_env k hi lo = \<lparr>pe_sched = k,
     pe_boot = Some \<lparr>bi_mem_bytes_lo = 0x4000000, bi_mem_bytes_hi = 0, bi_smp_cores = 1, bi_timer_freq_hz = 200,
       bi_features = 0x400, bi_boot_realtime_ns_lo = 0, bi_boot_realtime_ns_hi = 0\<rparr>,
     pe_read32 = (\<lambda>a. if a = 0x0074C08C then 1 else if a = 0x0074C07C then lo else if a = 0x0074C080 then hi else 0),
     pe_kernel_end = 0x200000\<rparr>"

lemma demo_tasks:
  "sched_proc_task_by_slot i demo_sched =
     (if i = 1 then Some (sched_proc_task_copy (demo_task 1))
      else if i = 5 then Some (sched_proc_task_copy (demo_task 30)) else None)"
  by (auto simp: sched_proc_task_by_slot_def demo_sched_def nth_update demo_task_def sched_clear_task_def)

theorem proc_root_listing_witness:
  "map d_name (read_dir 3 (demo_env demo_sched 0 0) 3 272 (fst (fs_proc_open (demo_env demo_sched 0 0) (ascii ''/proc'') 0 boot_fd_env))) =
     [ascii ''1'', ascii ''30'', ascii ''.'']"
proof -
  obtain e' fd where o: "fs_proc_open (demo_env demo_sched 0 0) (ascii ''/proc'') 0 boot_fd_env = (e', fd)" by force
  have fd: "fd = 3"
  proof -
    have "snd (fs_proc_open (demo_env demo_sched 0 0) (ascii ''/proc'') 0 boot_fd_env) = 3" by code_simp
    then show ?thesis using o by simp
  qed
  have p: "sched_proc_task_by_slot i (pe_sched (demo_env demo_sched 0 0)) = Some t \<Longrightarrow> pi_pid t \<noteq> 0 \<and> unat (pi_pid t) \<le> 0x3FFFFFFF" for i t
    by (auto simp: demo_env_def demo_tasks sched_proc_task_copy_def demo_task_def split: if_splits)
  have l: "proc_lookup (demo_env demo_sched 0 0) (ascii ''/proc'') = Some (PROC_INO_ROOT, True)" by (simp add: proc_lookup_def)
  have v: "filter (\<lambda>i. sched_proc_task_by_slot i (pe_sched (demo_env demo_sched 0 0)) \<noteq> None) [1..<64] = [1, 5]"
  proof -
    have "filter (\<lambda>i. i = 1 \<or> i = 5) [1..<64] = [1, 5 :: nat]" by code_simp
    moreover have "sched_proc_task_by_slot i (pe_sched (demo_env demo_sched 0 0)) \<noteq> None \<longleftrightarrow> i = 1 \<or> i = 5" for i
      by (simp add: demo_env_def demo_tasks)
    ultimately show ?thesis by simp
  qed
  note r = proc_root_listing [where len = 272 and n = 3, OF boot_inv o _ l _ p, THEN conjunct1]
  have "read_dir 3 (demo_env demo_sched 0 0) 3 272 e' =
      take 3 (map (task_dirent (demo_env demo_sched 0 0)) [1, 5] @ map file_dirent [0..<9])"
    unfolding v [symmetric] by (rule r [unfolded fd]) (simp_all add: fd)
  also have "[0..<9] = 0 # [1..<9 :: nat]" by (simp add: upt_conv_Cons)
  finally have "read_dir 3 (demo_env demo_sched 0 0) 3 272 e' =
      [task_dirent (demo_env demo_sched 0 0) 1, task_dirent (demo_env demo_sched 0 0) 5, file_dirent 0]"
    by (simp del: upt.simps upt_rec_numeral)
  moreover have "d_name (task_dirent (demo_env demo_sched 0 0) 1) = ascii ''1''" "d_name (task_dirent (demo_env demo_sched 0 0) 5) = ascii ''30''"
    "d_name (file_dirent 0) = ascii ''.''"
    by code_simp+
  ultimately show ?thesis using o by simp
qed

lemma putc_room: "length xs + 1 < c \<Longrightarrow> proc_buf_putc ch \<lparr>pb_capacity = c, pb_text = xs\<rparr> = \<lparr>pb_capacity = c, pb_text = xs @ [ch]\<rparr>"
  by (simp add: proc_buf_putc_def)

lemma put_digits:
  assumes "v \<noteq> 0" "digits_loop 24 v = ds" "length xs + length ds < c"
  shows "proc_buf_u64 v \<lparr>pb_capacity = c, pb_text = xs\<rparr> = \<lparr>pb_capacity = c, pb_text = xs @ rev ds\<rparr>"
  using assms by (simp add: proc_buf_u64_def fold_putc)

lemma demo_uptime:
  fixes v :: u64
  assumes "v = 9990000000 \<and> ds = [0x39] \<and> a = 0x39 \<and> b = 0x39 \<or> v = 10000000000 \<and> ds = [0x30, 0x31] \<and> a = 0x30 \<and> b = 0x30"
    and "env = demo_env demo_idle 2 (ucast v)"
  shows "proc_build env 4 PROC_CONTENT_CAP = rev ds @ [0x2E, a, b, 0x20, 0x30, 0x2E, 0x30, 0x30, 0x0A]"
proof -
  have r: "proc_runtime_available env" using assms by (simp add: proc_runtime_available_def demo_env_def)
  have "proc_read64 env 0x7C 0x80 = push_bit 32 (ucast (2 :: u32)) OR ucast (ucast v :: u32)"
    using assms(2) by (simp add: proc_read64_def demo_env_def)
  also have "\<dots> = v" using assms(1) by (elim disjE conjE; hypsubst; code_simp)
  finally have v: "proc_read64 env 0x7C 0x80 = v" .
  have i: "ss_idle_ticks (sched_stats_snapshot (pe_sched env)) = 0"
    using assms(2) by (simp add: demo_env_def sched_stats_snapshot_def demo_idle_def demo_sched_def)
  have d: "v div 1000000000 \<noteq> 0" "digits_loop 24 (v div 1000000000) = ds" 
    "0x30 + ucast (v div 100000000 mod 10) = a" "0x30 + ucast (v div 10000000 mod 10) = b"
    using assms(1) by (elim disjE conjE; hypsubst; code_simp)+
  have l: "length ds \<le> 2" using assms(1) by auto
  have z: "proc_buf_u64 0 = proc_buf_putc 0x30" by (simp add: fun_eq_iff proc_buf_u64_def)
  note u = put_digits [OF d(1,2), of "[]" 12288]
  have s: "proc_is_task_stat 4 = False" by (simp add: proc_is_task_stat_def)
  have "proc_build env 4 PROC_CONTENT_CAP = pb_text (proc_build_uptime env \<lparr>pb_capacity = 12288, pb_text = []\<rparr>)"
    unfolding proc_build_def s by simp
  also have "\<dots> = rev ds @ [0x2E, a, b, 0x20, 0x30, 0x2E, 0x30, 0x30, 0x0A]"
    unfolding proc_build_uptime_def v i Let_def if_P [OF r] d(3,4) using l
    by (simp add: u putc_room z)
  finally show ?thesis .
qed

lemma boot_open_regular: "snd (sched_fd_open_regular 0 b ino sz d boot_fd_env) = 3"
  by code_simp

theorem proc_file_reads_witness:
  "let e' = fst (fs_proc_open (demo_env demo_idle 2 0x53734D80) (ascii ''/proc/uptime'') 0 boot_fd_env) in
     read_file 2 (demo_env demo_idle 2 0x53734D80) 3 6 e' = ascii ''9.99 0.00'' @ [10] \<and>
     100 \<le> length (read_file 100 (demo_env demo_idle 2 0x540BE400) 3 6 e')"
proof -
  obtain e' fd where o: "fs_proc_open (demo_env demo_idle 2 0x53734D80) (ascii ''/proc/uptime'') 0 boot_fd_env = (e', fd)" by force
  have l: "proc_lookup (demo_env demo_idle 2 0x53734D80) (ascii ''/proc/uptime'') = Some (4, False)" by code_simp
  have fd: "fd = 3" using o l boot_open_regular [of 2 4 _ False] by (simp add: fs_proc_open_def) (metis snd_conv)
  have w: "demo_env demo_idle 2 0x53734D80 = demo_env demo_idle 2 (ucast (9990000000 :: u64))"
    "demo_env demo_idle 2 0x540BE400 = demo_env demo_idle 2 (ucast (10000000000 :: u64))"
    by (rule arg_cong [where f = "demo_env demo_idle 2"], code_simp)+
  have "rev [0x39] @ [0x2E, 0x39, 0x39, 0x20, 0x30, 0x2E, 0x30, 0x30, 0x0A] = ascii ''9.99 0.00'' @ [10]" by code_simp
  moreover have "proc_build (demo_env demo_idle 2 0x53734D80) 4 PROC_CONTENT_CAP =
      rev [0x39] @ [0x2E, 0x39, 0x39, 0x20, 0x30, 0x2E, 0x30, 0x30, 0x0A]"
    by (rule demo_uptime [OF _ w(1)]) simp
  ultimately have b: "proc_build (demo_env demo_idle 2 0x53734D80) 4 PROC_CONTENT_CAP = ascii ''9.99 0.00'' @ [10]" by simp
  have "proc_build (demo_env demo_idle 2 0x540BE400) 4 PROC_CONTENT_CAP =
      rev [0x30, 0x31] @ [0x2E, 0x30, 0x30, 0x20, 0x30, 0x2E, 0x30, 0x30, 0x0A]"
    by (rule demo_uptime [OF _ w(2)]) simp
  then have c: "length (proc_build (demo_env demo_idle 2 0x540BE400) 4 PROC_CONTENT_CAP) = 11" by simp
  have ln: "length (ascii ''9.99 0.00'') = 9" by code_simp
  note t = proc_file_reads [OF boot_inv o _ l, of 6]
  show ?thesis
    using t [of "demo_env demo_idle 2 0x53734D80" 2] t [of "demo_env demo_idle 2 0x540BE400" 100] fd o b c ln by simp
qed

end
