(* ===== verification/Fs.thy ===== *)
theory Fs
  imports Proc_Props Ext4_Demo
begin

text \<open>
  The calls on files (\<open>src/fs.c\<close>), which pass a path or descriptor on to ext4, to proc or to the three
  devices under \<open>/dev/\<close>. The state is that of the ext4 driver and of the descriptors; what proc reads is a
  parameter, as in theory \<open>Proc\<close>. Callers pass no null pointers, and \<open>blk_init\<close>, which \<open>fs_init\<close> calls,
  writes registers of the disk only. A call returns an error (\<open>Inl\<close>) or what it stores for the caller.
\<close>

abbreviation (input) "SYS_S_IFCHR \<equiv> (0x2000 :: u32)"
abbreviation (input) "SYS_S_IFIFO \<equiv> (0x1000 :: u32)"
abbreviation (input) "SYS_S_IFDIR \<equiv> (0x4000 :: u32)"
abbreviation (input) "SYS_S_IFREG \<equiv> (0x8000 :: u32)"
abbreviation (input) "SYS_S_IFSOCK \<equiv> (0xC000 :: u32)"

type_synonym fs_state = "ext4 \<times> fd_env"

definition dev_path :: "path \<Rightarrow> bool" where
  "dev_path path \<longleftrightarrow> take 5 path = ascii ''/dev/''"

definition fs_init :: "ext4 \<Rightarrow> ext4" where
  "fs_init s = fs_ext4_init s"

subsection \<open>Devices\<close>

definition fs_open_dev :: "path \<Rightarrow> u32 \<Rightarrow> fd_env \<Rightarrow> fd_env \<times> int" where
  "fs_open_dev path flags e =
     (let status_flags = flags AND (SYS_O_ACCMODE OR SYS_O_NONBLOCK) in
      if path = ascii ''/dev/null'' then sched_fd_open_special 1 status_flags e
      else if path = ascii ''/dev/zero'' then sched_fd_open_special 2 status_flags e
      else if path = ascii ''/dev/tty'' then sched_fd_open_special 3 status_flags e
      else (e, FS_ERR_NOENT))"

definition fs_stat_fill :: "u32 \<Rightarrow> u32 \<Rightarrow> u32 \<Rightarrow> fs_stat" where
  "fs_stat_fill ino mode rdev =
     \<lparr>st_dev = FS_BACKEND_NONE, st_ino = ino, st_mode = mode, st_nlink = 1, st_uid = 0, st_gid = 0,
      st_rdev = rdev, st_size = 0, st_blksize = 4096, st_blocks = 0\<rparr>"

definition fs_stat_fill_dev :: "u32 \<Rightarrow> fs_stat" where
  "fs_stat_fill_dev rdev = fs_stat_fill rdev (SYS_S_IFCHR OR 0x1B6) rdev"

definition fs_stat_dev :: "path \<Rightarrow> int + fs_stat" where
  "fs_stat_dev path =
     (if path = ascii ''/dev/null'' then Inr (fs_stat_fill_dev (fd_type_code TYPE_DEV_NULL))
      else if path = ascii ''/dev/zero'' then Inr (fs_stat_fill_dev (fd_type_code TYPE_DEV_ZERO))
      else if path = ascii ''/dev/tty'' then Inr (fs_stat_fill_dev (fd_type_code TYPE_DEV_TTY))
      else Inl FS_ERR_NOENT)"

subsection \<open>Calls on paths\<close>

definition fs_open :: "proc_env \<Rightarrow> path \<Rightarrow> u32 \<Rightarrow> fs_state \<Rightarrow> fs_state \<times> int" where
  "fs_open env path flags st =
     (case st of (s, e) \<Rightarrow>
       if path = [] then (st, FS_ERR_INVAL)
       else if dev_path path then (case fs_open_dev path flags e of (e, fd) \<Rightarrow> ((s, e), fd))
       else if fs_proc_path_match path then (case fs_proc_open env path flags e of (e, fd) \<Rightarrow> ((s, e), fd))
       else fs_ext4_open path flags st)"

definition fs_stat_path :: "proc_env \<Rightarrow> path \<Rightarrow> ext4 \<Rightarrow> ext4 \<times> (int + fs_stat)" where
  "fs_stat_path env path s =
     (if path = [] then (s, Inl FS_ERR_INVAL)
      else if dev_path path then (s, fs_stat_dev path)
      else if fs_proc_path_match path then (s, fs_proc_stat env path)
      else fs_ext4_stat path s)"

definition fs_readlink :: "path \<Rightarrow> u32 \<Rightarrow> ext4 \<Rightarrow> ext4 \<times> (int + u8 list)" where
  "fs_readlink path len s =
     (if path = [] \<or> len = 0 then (s, Inl FS_ERR_INVAL)
      else if dev_path path then (s, Inl FS_ERR_INVAL)
      else if fs_proc_path_match path then (s, Inl FS_ERR_INVAL)
      else fs_ext4_readlink path len s)"

definition fs_unlink :: "path \<Rightarrow> ext4 \<Rightarrow> ext4 \<times> int" where
  "fs_unlink path s =
     (if path = [] then (s, FS_ERR_INVAL)
      else if dev_path path then (s, FS_ERR_ROFS)
      else if fs_proc_path_match path then (s, FS_ERR_ROFS)
      else fs_ext4_unlink path s)"

definition fs_mkdir :: "path \<Rightarrow> u32 \<Rightarrow> ext4 \<Rightarrow> ext4 \<times> int" where
  "fs_mkdir path mode s =
     (if path = [] then (s, FS_ERR_INVAL)
      else if dev_path path \<or> fs_proc_path_match path then (s, FS_ERR_ROFS)
      else fs_ext4_mkdir path mode s)"

definition fs_rmdir :: "path \<Rightarrow> ext4 \<Rightarrow> ext4 \<times> int" where
  "fs_rmdir path s =
     (if path = [] then (s, FS_ERR_INVAL)
      else if dev_path path \<or> fs_proc_path_match path then (s, FS_ERR_ROFS)
      else fs_ext4_rmdir path s)"

definition fs_rename :: "path \<Rightarrow> path \<Rightarrow> ext4 \<Rightarrow> ext4 \<times> int" where
  "fs_rename oldpath newpath s =
     (if oldpath = [] \<or> newpath = [] then (s, FS_ERR_INVAL)
      else if dev_path oldpath \<or> dev_path newpath \<or> fs_proc_path_match oldpath \<or> fs_proc_path_match newpath
      then (s, FS_ERR_ROFS)
      else fs_ext4_rename oldpath newpath s)"

subsection \<open>Calls on descriptors\<close>

definition fs_fstat :: "int \<Rightarrow> fd_env \<Rightarrow> int + fs_stat" where
  "fs_fstat fd e =
     (case sched_fd_get_type fd True e of
        (rc, None) \<Rightarrow> Inl FS_ERR_BADF
      | (rc, Some t) \<Rightarrow>
          if t = TYPE_REGULAR then
            (case sched_fd_regular_get fd e of
               (rc, None) \<Rightarrow> Inl FS_ERR_BADF
             | (rc, Some (backend, file_id, file_size, off, is_dir)) \<Rightarrow>
                 Inr \<lparr>st_dev = backend, st_ino = file_id,
                      st_mode = (if is_dir then SYS_S_IFDIR else SYS_S_IFREG) OR
                        (if backend = FS_BACKEND_PROC then if is_dir then 0x16D else 0x124 else 0x1A4),
                      st_nlink = 1, st_uid = 0, st_gid = 0, st_rdev = 0, st_size = file_size,
                      st_blksize = 4096, st_blocks = (file_size + 511) div 512\<rparr>)
          else if t = TYPE_SOCKET then Inr (fs_stat_fill (word_of_int fd) (SYS_S_IFSOCK OR 0x1B6) 0)
          else if t = TYPE_PIPE_READ \<or> t = TYPE_PIPE_WRITE
            then Inr (fs_stat_fill (word_of_int fd) (SYS_S_IFIFO OR 0x180) 0)
          else if t \<in> {TYPE_STDIN, TYPE_STDOUT, TYPE_STDERR, TYPE_DEV_NULL, TYPE_DEV_ZERO, TYPE_DEV_TTY}
            then Inr (fs_stat_fill_dev (fd_type_code t))
          else Inl FS_ERR_BADF)"

definition fs_getdents :: "proc_env \<Rightarrow> int \<Rightarrow> u32 \<Rightarrow> fs_state \<Rightarrow> fs_state \<times> int \<times> fs_dirent list" where
  "fs_getdents env fd len st =
     (case st of (s, e) \<Rightarrow>
       case sched_fd_get_type fd True e of
         (rc, None) \<Rightarrow> (st, FS_ERR_BADF, [])
       | (rc, Some t) \<Rightarrow>
           if t \<noteq> TYPE_REGULAR then (st, FS_ERR_NOTDIR, [])
           else case sched_fd_regular_get fd e of
             (rc, None) \<Rightarrow> (st, FS_ERR_BADF, [])
           | (rc, Some (backend, ino, size1, off, is_dir)) \<Rightarrow>
               if \<not> is_dir then (st, FS_ERR_NOTDIR, [])
               else if backend = FS_BACKEND_EXT4 then fs_ext4_getdents_fd fd len st
               else if backend = FS_BACKEND_PROC then
                 (case fs_proc_getdents_fd env fd len e of (e, rc, ds) \<Rightarrow> ((s, e), rc, ds))
               else (st, FS_ERR_BADF, []))"

definition fs_read :: "proc_env \<Rightarrow> int \<Rightarrow> u32 \<Rightarrow> fs_state \<Rightarrow> fs_state \<times> (int + u8 list)" where
  "fs_read env fd len st =
     (case st of (s, e) \<Rightarrow>
       if len = 0 then (st, Inr [])
       else case sched_fd_get_type fd True e of
         (rc, None) \<Rightarrow> (st, Inl FS_ERR_BADF)
       | (rc, Some t) \<Rightarrow>
           if t = TYPE_REGULAR then
             (case sched_fd_regular_get fd e of
                (rc, None) \<Rightarrow> (st, Inl FS_ERR_BADF)
              | (rc, Some (backend, ino, size1, off, is_dir)) \<Rightarrow>
                  if backend = FS_BACKEND_PROC then
                    (case fs_proc_read_fd env fd len e of (e, r) \<Rightarrow> ((s, e), r))
                  else fs_ext4_read_fd fd len st)
           else (st, Inl FS_ERR_BADF))"

definition fs_write :: "int \<Rightarrow> u8 list \<Rightarrow> fs_state \<Rightarrow> fs_state \<times> int" where
  "fs_write fd src st =
     (case st of (s, e) \<Rightarrow>
       if src = [] then (st, 0)
       else case sched_fd_get_type fd True e of
         (rc, None) \<Rightarrow> (st, FS_ERR_BADF)
       | (rc, Some t) \<Rightarrow>
           if t = TYPE_REGULAR then
             (case sched_fd_regular_get fd e of
                (rc, None) \<Rightarrow> (st, FS_ERR_BADF)
              | (rc, Some (backend, ino, size1, off, is_dir)) \<Rightarrow>
                  if backend = FS_BACKEND_PROC then (st, FS_ERR_ROFS)
                  else fs_ext4_write_fd fd src st)
           else (st, FS_ERR_BADF))"

subsection \<open>Opened devices and proc files\<close>

lemma special_open:
  assumes inv: "fd_env_inv ext e" and o: "sched_fd_open_special special fl e = (e', fd)" "0 \<le> fd"
    and t: "special_fd_type special = Some t"
  shows "sched_fd_get_type fd True e' = (0, Some t)"
proof -
  let ?mk = "\<lambda>f. f\<lparr>of_type := t, of_status_flags := fl AND (SCHED_FD_O_ACCMODE OR SCHED_FD_O_NONBLOCK),
             of_fs_backend := 0, of_file_id := 0, of_file_size := 0, of_file_offset := 0,
             of_file_is_dir := False\<rparr>"
  from o t obtain s s' t' where s: "fv_slot e = Some s" "slot_open ?mk s (fv_pipes e) = (s', t', fd)"
      "e' = \<lparr>fv_slot = Some s', fv_pipes = t'\<rparr>"
    by (auto simp: sched_fd_open_special_def with_slot_def split: option.splits prod.splits)
  have "fd_inv ext s (fv_pipes e)" using inv s(1) by (simp add: fd_env_inv_def)
  from slot_open_ofile [OF this s(2) o(2)] s(3) show ?thesis
    by (auto simp: sched_fd_get_type_def read_ofile_def)
qed

lemma dev_not_null: "ascii ''/dev/null'' \<noteq> ascii ''/dev/zero''" "ascii ''/dev/null'' \<noteq> ascii ''/dev/tty''"
    "ascii ''/dev/zero'' \<noteq> ascii ''/dev/tty''"
  by code_simp+

text \<open>C40. \<open>stat\<close> of a path and \<open>fstat\<close> of the descriptor that opening the path gives agree in every field
  but the number of links, which \<open>fstat\<close> always gives as 1, for the devices and the files of proc; and
  opening them leaves the disk and the driver's state alone.\<close>

theorem fs_stat_fstat_agree:
  assumes inv: "fd_env_inv ext e" and o: "fs_open env path flags (s, e) = ((s', e'), fd)" "0 \<le> fd"
    and p: "dev_path path \<or> fs_proc_path_match path"
  shows "s' = s \<and> (\<exists>st. fs_stat_path env path s = (s, Inr st) \<and> fs_fstat fd e' = Inr (st\<lparr>st_nlink := 1\<rparr>))"
proof -
  have ne: "path \<noteq> []" using p by (auto simp: dev_path_def fs_proc_path_match_def ascii_def)
  show ?thesis
  proof (cases "dev_path path")
    case True
    with o ne have d: "s' = s" "fs_open_dev path flags e = (e', fd)" by (auto simp: fs_open_def split: prod.splits)
    have dev: "fs_fstat fd e' = Inr (fs_stat_fill_dev (fd_type_code t))"
      if "sched_fd_open_special k (flags AND (SYS_O_ACCMODE OR SYS_O_NONBLOCK)) e = (e', fd)" "special_fd_type k = Some t"
        "t \<in> {TYPE_DEV_NULL, TYPE_DEV_ZERO, TYPE_DEV_TTY}" for k t
      using special_open [OF inv that(1) o(2) that(2)] that(3) by (auto simp: fs_fstat_def)
    have n: "(fs_stat_fill_dev r)\<lparr>st_nlink := 1\<rparr> = fs_stat_fill_dev r" for r
      by (simp add: fs_stat_fill_dev_def fs_stat_fill_def)
    from d(2) o(2) consider "path = ascii ''/dev/null''" "sched_fd_open_special 1 (flags AND (SYS_O_ACCMODE OR SYS_O_NONBLOCK)) e = (e', fd)"
      | "path = ascii ''/dev/zero''" "sched_fd_open_special 2 (flags AND (SYS_O_ACCMODE OR SYS_O_NONBLOCK)) e = (e', fd)"
      | "path = ascii ''/dev/tty''" "sched_fd_open_special 3 (flags AND (SYS_O_ACCMODE OR SYS_O_NONBLOCK)) e = (e', fd)"
      by (auto simp: fs_open_dev_def Let_def split: if_splits)
    then show ?thesis
    proof cases
      case 1
      then show ?thesis using True ne d(1) dev [OF 1(2)] n
        by (simp add: fs_stat_path_def fs_stat_dev_def special_fd_type_def)
    next
      case 2
      then show ?thesis using True ne d(1) dev [OF 2(2)] n dev_not_null
        by (simp add: fs_stat_path_def fs_stat_dev_def special_fd_type_def)
    next
      case 3
      then show ?thesis using True ne d(1) dev [OF 3(2)] n dev_not_null
        by (simp add: fs_stat_path_def fs_stat_dev_def special_fd_type_def)
    qed
  next
    case False
    with p o ne have d: "s' = s" "fs_proc_open env path flags e = (e', fd)" "fs_proc_path_match path"
      by (auto simp: fs_open_def split: prod.splits)
    from d(2) o(2) obtain ino is_dir where l: "proc_lookup env path = Some (ino, is_dir)"
      and op: "sched_fd_open_regular (flags AND (SYS_O_ACCMODE OR SYS_O_NONBLOCK)) FS_BACKEND_PROC ino
                 (proc_size env ino is_dir) is_dir e = (e', fd)"
      by (auto simp: fs_proc_open_def split: option.splits if_splits)
    note r = regular_open [OF inv op o(2)]
    have "fs_fstat fd e' = Inr \<lparr>st_dev = FS_BACKEND_PROC, st_ino = ino,
        st_mode = (if is_dir then SYS_S_IFDIR else SYS_S_IFREG) OR (if is_dir then 0x16D else 0x124),
        st_nlink = 1, st_uid = 0, st_gid = 0, st_rdev = 0, st_size = proc_size env ino is_dir,
        st_blksize = 4096, st_blocks = (proc_size env ino is_dir + 511) div 512\<rparr>"
      using regular_fd_type [OF r] regular_fdD [OF r] by (simp add: fs_fstat_def)
    then show ?thesis using False ne d(1,3) l by (simp add: fs_stat_path_def fs_proc_stat_def Let_def)
  qed
qed

theorem fs_stat_fstat_agree_witness:
  "let r = fs_open (demo_env demo_idle 0 0) (ascii ''/dev/zero'') 0 (demo_fs, boot_fd_env) in
     snd r = 3 \<and> fs_fstat 3 (snd (fst r)) = Inr (fs_stat_fill 5 0x21B6 5)"
proof -
  obtain s' e' fd where o: "fs_open (demo_env demo_idle 0 0) (ascii ''/dev/zero'') 0 (demo_fs, boot_fd_env) = ((s', e'), fd)"
    by (metis prod.collapse)
  have d: "dev_path (ascii ''/dev/zero'')" by code_simp
  have ne: "ascii ''/dev/zero'' \<noteq> []" by (simp add: ascii_def)
  have "snd (fs_open_dev (ascii ''/dev/zero'') 0 boot_fd_env) = 3" by code_simp
  then have fd: "fd = 3" using o d ne by (simp add: fs_open_def split: prod.splits)
  have "fs_stat_dev (ascii ''/dev/zero'') = Inr (fs_stat_fill 5 0x21B6 5)"
    using dev_not_null by (simp add: fs_stat_dev_def fs_stat_fill_dev_def)
  then have "fs_fstat fd e' = Inr (fs_stat_fill 5 0x21B6 5)"
    using fs_stat_fstat_agree [OF boot_inv o] fd d ne
    by (simp add: fs_stat_path_def) (simp add: fs_stat_fill_def)
  then show ?thesis using o fd by simp
qed

end
