(* ===== verification/Spec2Isabelle.thy ===== *)
theory Spec2Isabelle
  imports Bitmaps Fd_Props Spinlock Divmod Timedate Iommu Ctx_Switch Sched_Props Sched_Vfork
    Ext4_Api Ext4_Dir_Props Ext4_Data Net_Stream Emutls Fs
begin

text \<open>
  Octans is a small kernel in C for the LampVM machine, a 32-bit computer with up to 32
  processors. This development models its core and proves it correct, component by component.

  \<^bold>\<open>The parts of the kernel.\<close> Tasks live in a table of 64 slots (\<open>src/sched.c\<close>,
  \<open>src/sched_task.c\<close>). Each processor runs the loop \<open>sched_run\<close>, which takes a task from its run
  queue and switches to it; the task comes back when it blocks, exits or is preempted. A task has a
  table of descriptors (\<open>src/sched_fd.c\<close>), which name pipes, files, sockets and devices. Files are
  those of an ext4 disk (\<open>src/fs_ext4.c\<close>) or texts about the state of the kernel (\<open>src/fs_proc.c\<close>);
  a descriptor holds the position in its file. Sockets end in the network stack (\<open>src/net\<close>), whose
  driver shares buffers with the card through the rings of \<open>src/dma_ring.c\<close> and the address
  translation of \<open>src/iommu.c\<close>. All processors share one address space (\<open>src/mmu.c\<close>), and one lock per
  subsystem (\<open>src/spinlock.c\<close>) orders their operations.

  \<^bold>\<open>Conventions.\<close> Theory \<open>Octans_Prelude\<close> states how C is rendered: integers are words of their width,
  a struct is a record, a static array a list of its length, an out-parameter a part of the result, an
  error a negative number or, in \<open>src/fs_ext4.c\<close>, the left side of a sum. An operation that runs under
  a lock is one step: a function on the state that the lock protects. Definitions have the names of
  the C functions; a part of a function that has a definition of its own is named for what it does.

  \<^bold>\<open>Base.\<close>
  \<^item> \<open>Octans_Prelude\<close>: types, and lemmas on words, arrays and searches.
  \<^item> \<open>Bitmaps\<close>: the two-word bit maps of slots (wait queues, run queues, stacks). A locale states that
    they are sets; each of the three maps interprets it.
  \<^item> \<open>Ring_Spec\<close>: a locale for bounded queues in circular arrays. \<open>Pipe\<close> and \<open>Dma_Ring\<close> interpret it.
  \<^item> \<open>Kmem\<close>: the memory as bytes, and the copy, fill and relocation loops of \<open>src/sched_task.c\<close>; the
    copy with its three loops equals the plain one.
  \<^item> \<open>Spinlock\<close>: the lock as a program of single memory accesses, run by any number of processors in
    any interleaving (\<open>spin_reach\<close>): mutual exclusion, and progress when uncontended.
  \<^item> \<open>Divmod\<close> (\<open>src/compiler_rt_divmod.c\<close>), \<open>Timedate\<close> (\<open>src/timedate.c\<close>), \<open>Emutls\<close> (\<open>src/emutls.c\<close>):
    division, calendar and thread-local storage against their mathematical meaning.
  \<^item> \<open>Mmu\<close>, \<open>Iommu\<close>: page tables of the processors and of the devices; which pages are mapped, with what
    rights, and what a device address leads to.

  \<^bold>\<open>Descriptors\<close> (\<open>src/sched_fd.c\<close>). \<open>Pipe\<close>, \<open>Fd_Table\<close> and \<open>Fd_Ops\<close> hold the operations, on the current
  task's table and the table of pipes (\<open>fd_env\<close>). \<open>Fd_Inv\<close> states the invariant: every count of
  references is exact, within a table and across tables. \<open>Fd_Correct\<close> and \<open>Fd_Props\<close> show that all calls
  keep it and what each does; \<open>Fd_Regular\<close> is what the file systems use of it.

  \<^bold>\<open>Scheduler\<close> (\<open>src/sched.c\<close>, \<open>src/sched_task.c\<close>, \<open>src/sched_internal.h\<close>). The state is one record
  (\<open>kstate\<close>, in \<open>Sched_State\<close>); operations are in \<open>Sched_Ops\<close>, \<open>Sched_Life\<close>, \<open>Sched_Signal\<close> and
  \<open>Sched_Vfork\<close>. The variable \<open>k_ctl\<close> says for each processor whether it is in the loop, in a task or on the
  way back, so that the relation \<open>kstep\<close> (\<open>Sched_Reach\<close>) interleaves the critical sections of all
  processors, split where the code releases the lock. \<open>Sched_Inv\<close> is the invariant \<open>kinv\<close>: run queues
  hold exactly the runnable tasks, wait queues exactly the sleepers, stacks are disjoint, no task is on two
  processors. \<open>Sched_Steps\<close> shows that every step keeps it; \<open>Sched_Facts\<close> what each operation does to the
  tasks; \<open>Sched_Props\<close> and \<open>Signal_Props\<close> are the properties, applied at the run of \<open>Sched_Demo\<close>.
  \<open>Ctx_Switch\<close> is the assembly code of the switch, executed by a small machine. Saving and restoring
  memory for \<open>vfork\<close>, delivering a signal and returning from it are functions with properties of their own
  and not steps of \<open>kstep\<close>; a step \<open>waitpid\<close> carries the condition \<open>reap_safe\<close>, that the child it frees is
  no longer on a processor, which the code does not check.

  \<^bold>\<open>ext4\<close> (\<open>src/fs_ext4.c\<close>). \<open>Ext4_Disk\<close>: state, byte access, block cache, sectors; \<open>Ext4_Inode\<close>,
  \<open>Ext4_Map\<close>, \<open>Ext4_Dir\<close>, \<open>Ext4_File\<close>, \<open>Ext4_Path\<close>: the layers above; \<open>Ext4_Api\<close>: the calls. A request to the
  disk may fail, after any number of its sectors; its outcome is a parameter. The properties: the cache
  is transparent (\<open>Ext4_Cache\<close>), a block is not handed out twice (\<open>Ext4_Alloc\<close>), directory blocks are lists of
  entries (\<open>Ext4_Dir_Props\<close>), what is written is read back (\<open>Ext4_Data\<close>), paths denote lists of names
  (\<open>Ext4_Path\<close>). Hypotheses: a failed request to the disk has no effect (\<open>atomic_requests\<close>), the bit maps and
  descriptors of the groups lie apart and in the file system (\<open>groups_ok\<close>), the extents of a file are in its inode
  and name blocks of its own (\<open>file_view\<close>). Only where all of a write is claimed to succeed does no request fail
  (\<open>dependable\<close>). They hold for the image of \<open>Ext4_Demo\<close>.

  \<^bold>\<open>proc\<close> (\<open>src/fs_proc.c\<close>). \<open>Proc\<close> is the file system, \<open>Proc_Props\<close> shows that its listing is complete and
  leads back to the files, and when reading a file ends. \<open>Fs\<close> (\<open>src/fs.c\<close>) joins ext4, proc and the
  devices: every call on a path or descriptor, on the state of the ext4 driver and the descriptors.

  \<^bold>\<open>Network\<close> (\<open>src/net\<close>). \<open>Net_Packet\<close>: card, ARP and IP; \<open>Net_Tcp\<close>: connections; \<open>Net_Socket\<close>: UDP, ICMP
  and the socket table. What the card delivers is a parameter, so that every property holds for all
  frames. \<open>Net_Props\<close> relates built packets to accepted ones; \<open>Net_Stream\<close> states what the stack promises: a
  datagram or segment arrives unchanged, a connection delivers the sender's bytes in order.

  \<^bold>\<open>Bounds.\<close> Loops of the code that are bounded by a constant are recursion over that constant: the 8
  levels of an extent tree, the 8 links followed in a path, 64 steps of division, 30 polls for an ARP reply, 400 for a
  TCP segment, 15 for a datagram and 2000 for an ICMP packet. The other loops end by a measure (the
  rest of a buffer, of a directory or of a path, the signals still pending), which \<open>function\<close> and \<open>termination\<close> establish. The loops over
  pages (\<open>Mmu\<close>) and of the division (\<open>Divmod\<close>) are partial functions, shown to return. Block
  sizes are those that the driver accepts, 1024, 2048 and 4096 bytes. No definition takes fuel that the code
  does not have.

  \<^bold>\<open>Not modelled.\<close> The system calls (\<open>src/syscall.c\<close>), which check arguments and pass them on to the
  operations above; the program loader (\<open>src/user_exec.c\<close>), of which the page mapping is
  modelled; interrupt and trap entry (\<open>src/irq.c\<close>, \<open>src/trap.c\<close>), which are register access and assembly; the
  block device (\<open>src/blk.c\<close>), whose effect is the disk of \<open>Ext4_Disk\<close>; console, windows, graphics, audio, PCI,
  log messages, and start-up, which drive devices and compute nothing the other parts rely on. In the
  modelled files: the mutex of \<open>src/fs_ext4.c\<close>, which puts waiting tasks to sleep; functions of
  \<open>src/sched_task.c\<close> that nothing calls; log messages; empty delay loops. Memory is sequentially consistent,
  and the fields of the descriptor tables are those of the calling task.
\<close>

end
